(* ===== verification/Prelude.thy ===== *)
theory Prelude
  imports Main "HOL-Library.Word" "HOL-Library.Monad_Syntax"
begin

text \<open>
  What the components share: the C types at their widths, the errno values the
  code returns, the reading of \<^verbatim>\<open>assert\<close> and of null dereferences as the value
  \<^const>\<open>None\<close>, the read-write lock of pthreads as one thread sees it, and the
  generic lemmas that the component proofs use.

  A computation of the model is a function into \<^typ>\<open>'a option\<close>.  \<^const>\<open>None\<close> means that the
  program does not come back: an assertion fails, a null or dangling pointer is
  dereferenced, or a lock blocks for ever.  An errno value is an ordinary result.
\<close>

unbundle bit_operations_syntax

named_theorems c_simps \<open>unfolding rules for the C-level primitives\<close>
named_theorems preserve \<open>preservation lemmas of the component invariants\<close>

type_synonym u8 = "8 word"
type_synonym u16 = "16 word"
type_synonym u32 = "32 word"
type_synonym u64 = "64 word"
type_synonym addr = nat
type_synonym errno = int

abbreviation NULL :: addr where "NULL \<equiv> 0"

section \<open>Error numbers\<close>

abbreviation EPERM :: errno where "EPERM \<equiv> 1"
abbreviation ENOENT :: errno where "ENOENT \<equiv> 2"
abbreviation EBADF :: errno where "EBADF \<equiv> 9"
abbreviation ENOMEM :: errno where "ENOMEM \<equiv> 12"
abbreviation EACCES :: errno where "EACCES \<equiv> 13"
abbreviation EBUSY :: errno where "EBUSY \<equiv> 16"
abbreviation EEXIST :: errno where "EEXIST \<equiv> 17"
abbreviation ENOTDIR :: errno where "ENOTDIR \<equiv> 20"
abbreviation EISDIR :: errno where "EISDIR \<equiv> 21"
abbreviation EINVAL :: errno where "EINVAL \<equiv> 22"
abbreviation ENOSPC :: errno where "ENOSPC \<equiv> 28"
abbreviation ERANGE :: errno where "ERANGE \<equiv> 34"
abbreviation EDEADLK :: errno where "EDEADLK \<equiv> 35"
abbreviation ENAMETOOLONG :: errno where "ENAMETOOLONG \<equiv> 36"
abbreviation ENOTEMPTY :: errno where "ENOTEMPTY \<equiv> 39"
abbreviation ENODATA :: errno where "ENODATA \<equiv> 61"
abbreviation EOVERFLOW :: errno where "EOVERFLOW \<equiv> 75"
abbreviation ENOTCONN :: errno where "ENOTCONN \<equiv> 107"

section \<open>Assertions\<close>

definition c_assert :: "bool \<Rightarrow> unit option" where
  "c_assert b = (if b then Some () else None)"

lemma c_assert_bind [simp]: "Option.bind (c_assert b) f = (if b then f () else None)"
  by (simp add: c_assert_def)

lemma c_assert_eq_Some [simp]: "c_assert b = Some u \<longleftrightarrow> b"
  by (simp add: c_assert_def)

section \<open>Read-write locks\<close>

text \<open>
  A \<^verbatim>\<open>pthread_rwlock_t\<close> as the thread that runs the handler sees it.  A second read
  lock is granted; the owner of the write lock gets EDEADLK from both lock calls;
  a write lock over one's own read lock waits for ever.
\<close>

datatype rwlock = Unlocked | Shared nat | Exclusive

fun rdlock :: "rwlock \<Rightarrow> (errno \<times> rwlock) option" where
  "rdlock Unlocked = Some (0, Shared 1)"
| "rdlock (Shared n) = Some (0, Shared (Suc n))"
| "rdlock Exclusive = Some (EDEADLK, Exclusive)"

fun wrlock :: "rwlock \<Rightarrow> (errno \<times> rwlock) option" where
  "wrlock Unlocked = Some (0, Exclusive)"
| "wrlock (Shared n) = None"
| "wrlock Exclusive = Some (EDEADLK, Exclusive)"

fun tryrdlock :: "rwlock \<Rightarrow> errno \<times> rwlock" where
  "tryrdlock Unlocked = (0, Shared 1)"
| "tryrdlock (Shared n) = (0, Shared (Suc n))"
| "tryrdlock Exclusive = (EBUSY, Exclusive)"

fun trywrlock :: "rwlock \<Rightarrow> errno \<times> rwlock" where
  "trywrlock Unlocked = (0, Exclusive)"
| "trywrlock l = (EBUSY, l)"

fun rwunlock :: "rwlock \<Rightarrow> errno \<times> rwlock" where
  "rwunlock Unlocked = (EPERM, Unlocked)"
| "rwunlock (Shared n) = (0, if n \<le> 1 then Unlocked else Shared (n - 1))"
| "rwunlock Exclusive = (0, Unlocked)"

text \<open>A lock that the thread can take in shared mode; giving it back restores it.\<close>

fun sharable :: "rwlock \<Rightarrow> bool" where
  "sharable Unlocked = True"
| "sharable (Shared n) = (0 < n)"
| "sharable Exclusive = False"

lemma sharable_rdlock:
  assumes "sharable l"
  obtains l' where "rdlock l = Some (0, l')" "rwunlock l' = (0, l)" "sharable l'"
  using assms by (cases l) auto

section \<open>Options\<close>

lemma bind_eq_SomeE:
  assumes "Option.bind m f = Some y"
  obtains x where "m = Some x" and "f x = Some y"
  using assms by (cases m) auto

lemma bind_pair_eq_Some:
  "Option.bind m (\<lambda>(a, b). f a b) = Some y \<longleftrightarrow> (\<exists>a b. m = Some (a, b) \<and> f a b = Some y)"
  by (cases m) auto

section \<open>Words\<close>

lemma drop_bit_xor_involution:
  fixes x :: "'a::len word"
  assumes "LENGTH('a) \<le> 2 * n"
  shows "(let y = x XOR drop_bit n x in y XOR drop_bit n y) = x"
proof -
  have "drop_bit (n + n) x = 0"
    using assms by (intro bit_word_eqI) (auto simp: bit_simps dest: bit_imp_le_length)
  then show ?thesis
    by (simp add: Let_def drop_bit_xor xor.assoc)
qed

lemma word_mult_cancel_inverse:
  fixes x :: "'a::len word"
  assumes "c * d = 1"
  shows "(x * c) * d = x"
  using assms by (simp add: mult.assoc)

lemma bit_clear_unset:
  fixes w :: "'a::len word"
  shows "bit (w AND NOT (push_bit i 1)) j \<longleftrightarrow> bit w j \<and> j \<noteq> i"
  by (auto simp: bit_simps dest: bit_imp_le_length)

lemma bit_set_push:
  fixes w :: "'a::len word"
  shows "bit (w OR push_bit i 1) j \<longleftrightarrow> bit w j \<or> (j = i \<and> i < LENGTH('a))"
  by (auto simp: bit_simps dest: bit_imp_le_length)

end
