(* ===== verification/FinesseList.thy ===== *)
theory FinesseList
  imports Prelude
begin

text \<open>
  The intrusive doubly linked list of \<^verbatim>\<open>src/finesse/include/finesse-list.h\<close>, at the level of
  its \<^verbatim>\<open>next\<close> and \<^verbatim>\<open>prev\<close> pointers.  The heap of list entries is a pair of pointer maps;
  \<^verbatim>\<open>ring h l xs\<close> says that the entries \<^verbatim>\<open>xs\<close> hang off the list head \<^verbatim>\<open>l\<close> in this order.
  Every operation is shown to act on \<^verbatim>\<open>xs\<close> as the functional list operation does and to
  pass all of its own \<^verbatim>\<open>verify_list_entry\<close> assertions, and the locale \<^verbatim>\<open>linked_list\<close> collects
  the contract on which the users of lists rely.
\<close>

section \<open>The operations\<close>

record list_heap =
  nxt :: "addr \<Rightarrow> addr"
  prv :: "addr \<Rightarrow> addr"

definition empty_list :: "list_heap \<Rightarrow> addr \<Rightarrow> bool" where
  "empty_list h entry = (nxt h entry = entry)"

definition list_head :: "list_heap \<Rightarrow> addr \<Rightarrow> addr" where
  "list_head h l = nxt h l"

definition set_next :: "addr \<Rightarrow> addr \<Rightarrow> list_heap \<Rightarrow> list_heap" where
  "set_next e v h = h\<lparr>nxt := (nxt h)(e := v)\<rparr>"

definition set_prev :: "addr \<Rightarrow> addr \<Rightarrow> list_heap \<Rightarrow> list_heap" where
  "set_prev e v h = h\<lparr>prv := (prv h)(e := v)\<rparr>"

definition initialize_list_entry :: "addr \<Rightarrow> list_heap \<Rightarrow> list_heap" where
  "initialize_list_entry entry h = set_next entry entry (set_prev entry entry h)"

definition verify_list_entry :: "list_heap \<Rightarrow> addr \<Rightarrow> unit option" where
  "verify_list_entry h entry = do {
     c_assert (prv h (nxt h entry) = entry);
     c_assert (nxt h (prv h entry) = entry)
   }"

definition remove_list_entry :: "addr \<Rightarrow> list_heap \<Rightarrow> (int \<times> list_heap) option" where
  "remove_list_entry entry h = do {
     verify_list_entry h entry;
     let n = nxt h entry;
     let p = prv h entry;
     let h = set_prev n p h;
     let h = set_next p n h;
     let h = set_next entry entry (set_prev entry entry h);
     Some (if n = p then 1 else 0, h)
   }"

definition remove_list_head :: "addr \<Rightarrow> list_heap \<Rightarrow> (addr \<times> list_heap) option" where
  "remove_list_head l h = do {
     let entry = nxt h l;
     (_, h) \<leftarrow> remove_list_entry entry h;
     Some (entry, h)
   }"

definition remove_tail_list :: "addr \<Rightarrow> list_heap \<Rightarrow> (addr \<times> list_heap) option" where
  "remove_tail_list l h = do {
     let entry = prv h l;
     (_, h) \<leftarrow> remove_list_entry entry h;
     Some (entry, h)
   }"

definition insert_list_tail :: "addr \<Rightarrow> addr \<Rightarrow> list_heap \<Rightarrow> list_heap option" where
  "insert_list_tail l entry h = do {
     verify_list_entry h l;
     verify_list_entry h (nxt h l);
     verify_list_entry h (prv h l);
     let h = set_next entry l h;
     let h = set_prev entry (prv h l) h;
     let h = set_next (prv h entry) entry h;
     let h = set_prev l entry h;
     verify_list_entry h l;
     verify_list_entry h entry;
     Some h
   }"

definition insert_list_head :: "addr \<Rightarrow> addr \<Rightarrow> list_heap \<Rightarrow> list_heap option" where
  "insert_list_head l entry h = do {
     verify_list_entry h l;
     verify_list_entry h (nxt h l);
     verify_list_entry h (prv h l);
     let h = set_prev entry l h;
     let h = set_next entry (nxt h l) h;
     let h = set_prev (nxt h entry) entry h;
     let h = set_next l entry h;
     verify_list_entry h l;
     verify_list_entry h entry;
     Some h
   }"

text \<open>
  The macro \<^verbatim>\<open>list_for_each\<close>: the entries a traversal visits, in order.  On a heap whose
  pointers do not lead back to the list the loop does not end.
\<close>

partial_function (option) list_for_each_from :: "list_heap \<Rightarrow> addr \<Rightarrow> addr \<Rightarrow> addr list option" where
  "list_for_each_from h l itr =
     (if itr = l then Some []
      else do { r \<leftarrow> list_for_each_from h l (nxt h itr); Some (itr # r) })"

definition list_for_each :: "list_heap \<Rightarrow> addr \<Rightarrow> addr list option" where
  "list_for_each h l = list_for_each_from h l (list_head h l)"

section \<open>The abstraction\<close>

fun seg :: "list_heap \<Rightarrow> addr \<Rightarrow> addr list \<Rightarrow> addr \<Rightarrow> bool" where
  "seg h a [] b = (nxt h a = b \<and> prv h b = a)"
| "seg h a (x # xs) b = (nxt h a = x \<and> prv h x = a \<and> seg h x xs b)"

definition ring :: "list_heap \<Rightarrow> addr \<Rightarrow> addr list \<Rightarrow> bool" where
  "ring h l xs = (distinct (l # xs) \<and> seg h l xs l)"

lemmas heap_ops = set_next_def set_prev_def

lemma seg_append [simp]: "seg h a (xs @ y # ys) b \<longleftrightarrow> seg h a xs y \<and> seg h y ys b"
  by (induction xs arbitrary: a) auto

lemma seg_cong:
  assumes "\<And>x. x \<in> set (a # xs) \<Longrightarrow> nxt h' x = nxt h x"
    and "\<And>x. x \<in> set (xs @ [b]) \<Longrightarrow> prv h' x = prv h x"
  shows "seg h' a xs b = seg h a xs b"
  using assms by (induction xs arbitrary: a) auto

lemma seg_next: "seg h a xs b \<Longrightarrow> nxt h a = hd (xs @ [b])"
  by (cases xs) auto

lemma seg_prev: "seg h a xs b \<Longrightarrow> prv h b = last (a # xs)"
  by (induction xs arbitrary: a) auto

lemma seg_ends:
  assumes "seg h a xs b"
  shows "prv h (nxt h a) = a" and "nxt h (prv h b) = b"
proof -
  show "prv h (nxt h a) = a"
    using assms by (cases xs) auto
  show "nxt h (prv h b) = b"
    using assms by (cases xs rule: rev_cases) auto
qed

lemma seg_verify:
  assumes "seg h l xs l" and "x \<in> set (l # xs)"
  shows "verify_list_entry h x = Some ()"
proof (cases "x = l")
  case True
  with seg_ends [OF assms(1)] show ?thesis
    by (simp add: verify_list_entry_def c_assert_def)
next
  case False
  with assms(2) obtain us vs where "xs = us @ x # vs"
    by (auto dest: split_list)
  with assms(1) have "seg h l us x" and "seg h x vs l"
    by auto
  then show ?thesis
    by (simp add: verify_list_entry_def c_assert_def seg_ends)
qed

definition same_outside :: "addr set \<Rightarrow> list_heap \<Rightarrow> list_heap \<Rightarrow> bool" where
  "same_outside S h h' = (\<forall>a. a \<notin> S \<longrightarrow> nxt h' a = nxt h a \<and> prv h' a = prv h a)"

lemma ring_frame:
  assumes "same_outside S h h'" and "ring h l xs" and "S \<inter> set (l # xs) = {}"
  shows "ring h' l xs"
proof -
  have "seg h' l xs l = seg h l xs l"
    using assms(1,3) by (intro seg_cong) (auto simp: same_outside_def)
  with assms(2) show ?thesis
    by (simp add: ring_def)
qed

lemma ring_verify:
  assumes "ring h l xs" and "x \<in> set (l # xs)"
  shows "verify_list_entry h x = Some ()"
  using assms seg_verify by (auto simp: ring_def)

lemma ring_next: "ring h l xs \<Longrightarrow> nxt h l = hd (xs @ [l])"
  by (simp add: ring_def seg_next)

lemma ring_prev: "ring h l xs \<Longrightarrow> prv h l = last (l # xs)"
  using seg_prev [of h l xs l] by (simp add: ring_def)

lemma ring_empty_iff: "ring h l xs \<Longrightarrow> empty_list h l \<longleftrightarrow> xs = []"
  by (cases xs) (auto simp: ring_def empty_list_def)

section \<open>Each operation on the abstraction\<close>

lemma initialize_ring:
  "ring (initialize_list_entry l h) l []"
  "same_outside {l} h (initialize_list_entry l h)"
  by (auto simp: ring_def initialize_list_entry_def heap_ops same_outside_def)

lemma seg_splice_head:
  assumes "distinct (l # e # xs)" and "seg h l xs l"
    and "h' = set_next l e (set_prev (hd (xs @ [l])) e (set_next e (hd (xs @ [l])) (set_prev e l h)))"
  shows "seg h' l (e # xs) l"
proof (cases xs)
  case (Cons y ys)
  then have "seg h' y ys l = seg h y ys l"
    using assms(1,3) by (intro seg_cong) (auto simp: heap_ops)
  with Cons assms show ?thesis
    by (auto simp: heap_ops)
qed (use assms in \<open>auto simp: heap_ops\<close>)

lemma insert_list_head_ring:
  assumes "ring h l xs" and "e \<notin> set (l # xs)"
  shows "\<exists>h'. insert_list_head l e h = Some h' \<and> ring h' l (e # xs)
           \<and> same_outside (set (l # e # xs)) h h'"
proof -
  define h' where "h' = set_next l e (set_prev (hd (xs @ [l])) e (set_next e (hd (xs @ [l])) (set_prev e l h)))"
  have d: "distinct (l # e # xs)"
    using assms by (auto simp: ring_def)
  have r: "ring h' l (e # xs)"
    using seg_splice_head [OF d _ h'_def] assms d by (simp add: ring_def)
  have "verify_list_entry h l = Some ()"
    "verify_list_entry h (nxt h l) = Some ()" "verify_list_entry h (prv h l) = Some ()"
    by (rule ring_verify [OF assms(1)]; cases xs;
        auto simp: ring_next [OF assms(1)] ring_prev [OF assms(1)])+
  moreover have "verify_list_entry h' l = Some ()" "verify_list_entry h' e = Some ()"
    by (rule ring_verify [OF r]; simp)+
  moreover have "h' = set_next l e (set_prev (nxt (set_next e (nxt (set_prev e l h) l) (set_prev e l h)) e) e
                    (set_next e (nxt (set_prev e l h) l) (set_prev e l h)))"
    by (simp add: h'_def heap_ops ring_next [OF assms(1)])
  ultimately have "insert_list_head l e h = Some h'"
    by (simp add: insert_list_head_def Let_def)
  moreover have "same_outside (set (l # e # xs)) h h'"
    by (cases xs) (auto simp: same_outside_def h'_def heap_ops)
  ultimately show ?thesis
    using r by blast
qed

lemma seg_splice_tail:
  assumes "distinct (l # e # xs)" and "seg h l xs l"
    and "h' = set_prev l e (set_next (last (l # xs)) e (set_prev e (last (l # xs)) (set_next e l h)))"
  shows "seg h' l (xs @ [e]) l"
proof (cases xs rule: rev_cases)
  case (snoc ys y)
  then have "seg h' l ys y = seg h l ys y"
    using assms(1,3) by (intro seg_cong) (auto simp: heap_ops)
  with snoc assms show ?thesis
    by (auto simp: heap_ops)
qed (use assms in \<open>auto simp: heap_ops\<close>)

lemma insert_list_tail_ring:
  assumes "ring h l xs" and "e \<notin> set (l # xs)"
  shows "\<exists>h'. insert_list_tail l e h = Some h' \<and> ring h' l (xs @ [e])
           \<and> same_outside (set (l # e # xs)) h h'"
proof -
  define h' where "h' = set_prev l e (set_next (last (l # xs)) e (set_prev e (last (l # xs)) (set_next e l h)))"
  have d: "distinct (l # e # xs)"
    using assms by (auto simp: ring_def)
  have r: "ring h' l (xs @ [e])"
    using seg_splice_tail [OF d _ h'_def] assms d by (auto simp: ring_def)
  have "verify_list_entry h l = Some ()"
    "verify_list_entry h (nxt h l) = Some ()" "verify_list_entry h (prv h l) = Some ()"
    by (rule ring_verify [OF assms(1)]; cases xs;
        auto simp: ring_next [OF assms(1)] ring_prev [OF assms(1)])+
  moreover have "verify_list_entry h' l = Some ()" "verify_list_entry h' e = Some ()"
    by (rule ring_verify [OF r]; simp)+
  moreover have "h' = set_prev l e (set_next (prv (set_prev e (prv (set_next e l h) l) (set_next e l h)) e) e
                    (set_prev e (prv (set_next e l h) l) (set_next e l h)))"
    by (simp add: h'_def heap_ops ring_prev [OF assms(1)])
  ultimately have "insert_list_tail l e h = Some h'"
    by (simp add: insert_list_tail_def Let_def)
  moreover have "same_outside (set (l # e # xs)) h h'"
    by (auto simp: same_outside_def h'_def heap_ops)
  ultimately show ?thesis
    using r by blast
qed

lemma seg_unlink:
  assumes "distinct (l # ys @ x # zs)" and "seg h l (ys @ x # zs) l"
    and "h' = set_next x x (set_prev x x (set_next (last (l # ys)) (hd (zs @ [l])) (set_prev (hd (zs @ [l])) (last (l # ys)) h)))"
  shows "seg h' l (ys @ zs) l" and "seg h' x [] x"
proof -
  show "seg h' x [] x"
    using assms(3) by (simp add: heap_ops)
  have p: "last (l # ys) \<in> set (l # ys)"
    by (rule last_in_set) simp
  have tail: "seg h' (last (l # ys)) zs l"
  proof (cases zs)
    case (Cons z zs')
    with assms(1) p have "last (l # ys) \<notin> set (x # z # zs')"
      by (auto simp del: last.simps)
    with Cons assms(1,3) have "seg h' z zs' l = seg h z zs' l"
      by (intro seg_cong) (auto simp: heap_ops simp del: last.simps)
    with Cons assms \<open>last (l # ys) \<notin> set (x # z # zs')\<close> show ?thesis
      by (auto simp: heap_ops simp del: last.simps)
  qed (use assms p in \<open>auto simp: heap_ops\<close>)
  show "seg h' l (ys @ zs) l"
  proof (cases ys rule: rev_cases)
    case (snoc us y)
    then have "seg h' l us y = seg h l us y"
      using assms(1,3) by (intro seg_cong; cases zs) (auto simp: heap_ops)
    with snoc assms(2) tail show ?thesis
      by simp
  qed (use tail in simp)
qed

lemma remove_list_entry_ring:
  assumes "ring h l (ys @ x # zs)"
  shows "\<exists>h'. remove_list_entry x h = Some (if ys @ zs = [] then 1 else 0, h')
           \<and> ring h' l (ys @ zs) \<and> ring h' x []
           \<and> same_outside (set (l # ys @ x # zs)) h h'"
proof -
  define h' where "h' = set_next x x (set_prev x x (set_next (last (l # ys)) (hd (zs @ [l]))
                          (set_prev (hd (zs @ [l])) (last (l # ys)) h)))"
  have d: "distinct (l # ys @ x # zs)" and s: "seg h l (ys @ x # zs) l"
    using assms by (auto simp: ring_def)
  have "seg h l ys x" and "seg h x zs l"
    using s by auto
  then have np: "nxt h x = hd (zs @ [l])" "prv h x = last (l # ys)"
    by (auto dest: seg_next seg_prev simp del: last.simps)
  have "verify_list_entry h x = Some ()"
    by (rule ring_verify [OF assms]) simp
  moreover have "hd (zs @ [l]) = last (l # ys) \<longleftrightarrow> ys @ zs = []"
    using d by (cases zs; cases ys rule: rev_cases) auto
  ultimately have "remove_list_entry x h = Some (if ys @ zs = [] then 1 else 0, h')"
    by (simp add: remove_list_entry_def Let_def np h'_def del: last.simps)
  moreover have "same_outside (set (l # ys @ x # zs)) h h'"
    by (cases zs; cases ys rule: rev_cases) (auto simp: same_outside_def h'_def heap_ops)
  moreover have "ring h' l (ys @ zs)" "ring h' x []"
    using seg_unlink [OF d s h'_def] d by (auto simp: ring_def)
  ultimately show ?thesis
    by blast
qed

lemma remove_list_head_ring:
  assumes "ring h l (x # xs)"
  shows "\<exists>h'. remove_list_head l h = Some (x, h') \<and> ring h' l xs \<and> ring h' x []"
  using remove_list_entry_ring [of h l "[]" x xs] assms ring_next [OF assms]
  by (auto simp: remove_list_head_def Let_def)

lemma remove_tail_list_ring:
  assumes "ring h l (xs @ [x])"
  shows "\<exists>h'. remove_tail_list l h = Some (x, h') \<and> ring h' l xs \<and> ring h' x []"
  using remove_list_entry_ring [of h l xs x "[]"] assms ring_prev [OF assms]
  by (auto simp: remove_tail_list_def Let_def)

lemma list_for_each_seg:
  assumes "seg h a xs l" and "l \<notin> set xs"
  shows "list_for_each_from h l (nxt h a) = Some xs"
  using assms
proof (induction xs arbitrary: a)
  case Nil
  then show ?case
    by (simp add: list_for_each_from.simps)
next
  case (Cons x xs)
  then have "list_for_each_from h l (nxt h x) = Some xs" and "x \<noteq> l" and "nxt h a = x"
    by auto
  then show ?case
    by (simp add: list_for_each_from.simps [of h l x])
qed

lemma list_for_each_ring: "ring h l xs \<Longrightarrow> list_for_each h l = Some xs"
  by (simp add: list_for_each_def list_head_def ring_def list_for_each_seg)

section \<open>The interface\<close>

text \<open>
  What the users of an intrusive list rely on.  \<^verbatim>\<open>repr h l xs\<close> abstracts the heap, and
  \<^verbatim>\<open>ok e\<close> is what the implementation asks of an entry.
\<close>

locale linked_list =
  fixes repr :: "list_heap \<Rightarrow> addr \<Rightarrow> addr list \<Rightarrow> bool"
    and ok :: "addr \<Rightarrow> bool"
    and ins_head :: "addr \<Rightarrow> addr \<Rightarrow> list_heap \<Rightarrow> list_heap option"
    and ins_tail :: "addr \<Rightarrow> addr \<Rightarrow> list_heap \<Rightarrow> list_heap option"
    and unlink :: "addr \<Rightarrow> list_heap \<Rightarrow> list_heap option"
    and first :: "list_heap \<Rightarrow> addr \<Rightarrow> addr"
  assumes repr_distinct: "repr h l xs \<Longrightarrow> distinct (l # xs)"
    and ins_head_law: "\<lbrakk>repr h l xs; ok e; e \<notin> set (l # xs)\<rbrakk> \<Longrightarrow> \<exists>h'. ins_head l e h = Some h' \<and> repr h' l (e # xs)"
    and ins_tail_law: "\<lbrakk>repr h l xs; ok e; e \<notin> set (l # xs)\<rbrakk> \<Longrightarrow> \<exists>h'. ins_tail l e h = Some h' \<and> repr h' l (xs @ [e])"
    and unlink_law: "repr h l (ys @ x # zs) \<Longrightarrow> \<exists>h'. unlink x h = Some h' \<and> repr h' l (ys @ zs)"
    and first_law: "repr h l xs \<Longrightarrow> first h l = hd (xs @ [l])"
begin

fun insert_all :: "addr \<Rightarrow> addr list \<Rightarrow> list_heap \<Rightarrow> list_heap option" where
  "insert_all l [] h = Some h"
| "insert_all l (e # es) h = Option.bind (ins_tail l e h) (insert_all l es)"

fun take_all :: "nat \<Rightarrow> addr \<Rightarrow> list_heap \<Rightarrow> (addr list \<times> list_heap) option" where
  "take_all 0 l h = Some ([], h)"
| "take_all (Suc n) l h = (let e = first h l in
     if e = l then Some ([], h)
     else do { h \<leftarrow> unlink e h; (es, h) \<leftarrow> take_all n l h; Some (e # es, h) })"

lemma insert_all_repr:
  assumes "repr h l xs" and "distinct (l # xs @ es)" and "\<forall>e\<in>set es. ok e"
  shows "\<exists>h'. insert_all l es h = Some h' \<and> repr h' l (xs @ es)"
  using assms
proof (induction es arbitrary: h xs)
  case (Cons e es)
  then obtain h1 where "ins_tail l e h = Some h1" and "repr h1 l (xs @ [e])"
    using ins_tail_law [of h l xs e] by auto
  with Cons.IH [of h1 "xs @ [e]"] Cons.prems show ?case
    by auto
qed auto

lemma take_all_repr:
  assumes "repr h l xs"
  shows "\<exists>h'. take_all (length xs) l h = Some (xs, h') \<and> repr h' l []"
  using assms
proof (induction xs arbitrary: h)
  case (Cons x xs)
  from unlink_law [of h l "[]" x xs] Cons.prems obtain h1
    where h1: "unlink x h = Some h1" "repr h1 l xs"
    by auto
  from Cons.IH [OF h1(2)] obtain h2 where "take_all (length xs) l h1 = Some (xs, h2)" "repr h2 l []"
    by auto
  with h1 first_law [OF Cons.prems] repr_distinct [OF Cons.prems] show ?case
    by (auto simp: Let_def)
qed auto

lemma fifo:
  assumes "repr h l []" and "distinct (l # es)" and "\<forall>e\<in>set es. ok e"
  shows "\<exists>h1 h2. insert_all l es h = Some h1 \<and> take_all (length es) l h1 = Some (es, h2) \<and> repr h2 l []"
  using insert_all_repr [of h l "[]" es] assms take_all_repr by fastforce

end

definition unlink_entry :: "addr \<Rightarrow> list_heap \<Rightarrow> list_heap option" where
  "unlink_entry e h = map_option snd (remove_list_entry e h)"

interpretation fl: linked_list ring "\<lambda>_. True" insert_list_head insert_list_tail unlink_entry list_head
proof unfold_locales
  fix h l ys x zs
  assume "ring h l (ys @ x # zs)"
  from remove_list_entry_ring [OF this]
  show "\<exists>h'. unlink_entry x h = Some h' \<and> ring h' l (ys @ zs)"
    by (auto simp: unlink_entry_def)
qed (use insert_list_head_ring insert_list_tail_ring ring_next in \<open>auto simp: ring_def list_head_def, blast+\<close>)

section \<open>Properties\<close>

text \<open>
  C17: the pointer operations of the intrusive list implement the list operations.  On a
  well-formed list none of the internal consistency assertions fails; an insertion at the tail (head)
  appends (prepends) exactly the new entry, a removal takes out exactly the given entry and
  leaves every other one in its place, and a removal reports 1 exactly when the list
  is then empty.  The lists are read back by the traversal macro, which ends.
\<close>

theorem list_operations_refine:
  assumes "ring h l xs" and "e \<notin> set (l # xs)"
  shows "(\<exists>h'. insert_list_tail l e h = Some h' \<and> ring h' l (xs @ [e]) \<and> list_for_each h' l = Some (xs @ [e]))
    \<and> (\<exists>h'. insert_list_head l e h = Some h' \<and> ring h' l (e # xs) \<and> list_for_each h' l = Some (e # xs))
    \<and> (\<forall>ys x zs. xs = ys @ x # zs \<longrightarrow>
         (\<exists>h'. remove_list_entry x h = Some (if ys @ zs = [] then 1 else 0, h')
            \<and> list_for_each h' l = Some (ys @ zs) \<and> ring h' x []))"
proof (intro conjI allI impI)
  show "\<exists>h'. insert_list_tail l e h = Some h' \<and> ring h' l (xs @ [e]) \<and> list_for_each h' l = Some (xs @ [e])"
    using insert_list_tail_ring [OF assms] list_for_each_ring by blast
  show "\<exists>h'. insert_list_head l e h = Some h' \<and> ring h' l (e # xs) \<and> list_for_each h' l = Some (e # xs)"
    using insert_list_head_ring [OF assms] list_for_each_ring by blast
  fix ys x zs
  assume "xs = ys @ x # zs"
  with assms(1) remove_list_entry_ring [of h l ys x zs] list_for_each_ring
  show "\<exists>h'. remove_list_entry x h = Some (if ys @ zs = [] then 1 else 0, h')
          \<and> list_for_each h' l = Some (ys @ zs) \<and> ring h' x []"
    by blast
qed

definition list_example :: list_heap where
  "list_example = \<lparr>nxt = id(1 := 2, 2 := 1), prv = id(1 := 2, 2 := 1)\<rparr>"

theorem list_operations_refine_witness:
  "ring list_example 1 [2] \<and> (3::addr) \<notin> set (1 # [2])
   \<and> (\<exists>h'. insert_list_tail 1 3 list_example = Some h' \<and> list_for_each h' 1 = Some [2, 3])"
proof -
  have r: "ring list_example 1 [2]"
    by (simp add: ring_def list_example_def)
  with list_operations_refine [of list_example 1 "[2]" 3] show ?thesis
    by auto
qed

text \<open>
  C23: an intrusive list used as a queue is first in, first out: inserting entries at the
  tail one after the other and then unlinking the head until the list is empty gives the
  entries back in the order of insertion.
\<close>

theorem list_queue_fifo:
  assumes "distinct (l # es)"
  shows "\<exists>h1 h2. fl.insert_all l es (initialize_list_entry l h) = Some h1
           \<and> fl.take_all (length es) l h1 = Some (es, h2) \<and> empty_list h2 l"
  using fl.fifo [OF initialize_ring(1) [of l h] assms] ring_empty_iff by blast

theorem list_queue_fifo_witness:
  "distinct ((1::addr) # [4, 2, 3])
   \<and> (\<exists>h1 h2. fl.insert_all 1 [4, 2, 3] (initialize_list_entry 1 list_example) = Some h1
        \<and> fl.take_all (length [4::addr, 2, 3]) 1 h1 = Some ([4, 2, 3], h2) \<and> empty_list h2 1)"
  by (rule conjI [OF _ list_queue_fifo]; simp)

end
