(* ===== verification/ApiList.thy ===== *)
theory ApiList
  imports FinesseList
begin

text \<open>
  The second intrusive list of the program, \<^verbatim>\<open>src/finesse/api/list.h\<close>, which the file
  descriptor table uses.  It has no internal assertions and resets an unlinked item
  to null pointers, so that unlinking an item twice dereferences a null pointer.  It is the
  second implementation of the interface \<^verbatim>\<open>linked_list\<close>.
\<close>

section \<open>The operations\<close>

definition list_initialize :: "addr \<Rightarrow> list_heap \<Rightarrow> list_heap" where
  "list_initialize l h = set_next l l (set_prev l l h)"

definition list_item_initialize :: "addr \<Rightarrow> list_heap \<Rightarrow> list_heap" where
  "list_item_initialize item h = set_prev item NULL (set_next item NULL h)"

definition list_is_empty :: "list_heap \<Rightarrow> addr \<Rightarrow> bool" where
  "list_is_empty h l = (nxt h l = l)"

definition list_item_is_linked :: "list_heap \<Rightarrow> addr \<Rightarrow> bool" where
  "list_item_is_linked h item = (nxt h item \<noteq> NULL)"

definition api_list_head :: "list_heap \<Rightarrow> addr \<Rightarrow> addr" where
  "api_list_head h l = nxt h l"

definition api_list_tail :: "list_heap \<Rightarrow> addr \<Rightarrow> addr" where
  "api_list_tail h l = prv h l"

definition list_insert_before :: "addr \<Rightarrow> addr \<Rightarrow> list_heap \<Rightarrow> list_heap option" where
  "list_insert_before l item h = do {
     c_assert (l \<noteq> NULL \<and> item \<noteq> NULL);
     let h = set_next item l h;
     let h = set_prev item (prv h l) h;
     c_assert (prv h l \<noteq> NULL);
     let h = set_next (prv h l) item h;
     let h = set_prev l item h;
     Some h
   }"

definition list_insert_after :: "addr \<Rightarrow> addr \<Rightarrow> list_heap \<Rightarrow> list_heap option" where
  "list_insert_after l item h = list_insert_before (nxt h l) item h"

definition list_insert_head :: "addr \<Rightarrow> addr \<Rightarrow> list_heap \<Rightarrow> list_heap option" where
  "list_insert_head l item h = list_insert_after l item h"

definition list_insert_tail :: "addr \<Rightarrow> addr \<Rightarrow> list_heap \<Rightarrow> list_heap option" where
  "list_insert_tail l item h = list_insert_before l item h"

definition list_append :: "addr \<Rightarrow> addr \<Rightarrow> list_heap \<Rightarrow> list_heap" where
  "list_append hd_l tl_l h =
     (if \<not> list_is_empty h tl_l
      then let h = set_next (prv h hd_l) (nxt h tl_l) h;
               h = set_prev (nxt h tl_l) (prv h hd_l) h;
               h = set_prev hd_l (prv h tl_l) h;
               h = set_next (prv h tl_l) hd_l h
           in list_initialize tl_l h
      else h)"

definition list_remove :: "addr \<Rightarrow> list_heap \<Rightarrow> list_heap option" where
  "list_remove item h = do {
     c_assert (item \<noteq> NULL \<and> prv h item \<noteq> NULL \<and> nxt h item \<noteq> NULL);
     let h = set_next (prv h item) (nxt h item) h;
     let h = set_prev (nxt h item) (prv h item) h;
     Some (list_item_initialize item h)
   }"

section \<open>The operations on the abstraction\<close>

definition api_ring :: "list_heap \<Rightarrow> addr \<Rightarrow> addr list \<Rightarrow> bool" where
  "api_ring h l xs = (ring h l xs \<and> NULL \<notin> set (l # xs))"

lemma seg_splice:
  assumes "distinct (l # e # ys @ zs)" and "seg h l (ys @ zs) l"
    and "h' = set_prev (hd (zs @ [l])) e (set_next (last (l # ys)) e
                (set_prev e (last (l # ys)) (set_next e (hd (zs @ [l])) h)))"
  shows "seg h' l (ys @ e # zs) l"
proof -
  have p: "last (l # ys) \<in> set (l # ys)"
    by (rule last_in_set) simp
  have s: "seg h l ys (hd (zs @ [l]))" if "zs \<noteq> []"
    using assms(2) that by (cases zs) auto
  have n: "nxt h' e = hd (zs @ [l])" "prv h' (hd (zs @ [l])) = e"
    using assms(1,3) by (cases zs; auto simp: heap_ops)+
  have head: "seg h' l ys e"
  proof (cases ys rule: rev_cases)
    case (snoc us y)
    then have "seg h' l us y = seg h l us y"
      using assms(1,3) by (intro seg_cong; cases zs) (auto simp: heap_ops)
    with snoc assms p show ?thesis
      by (cases zs) (auto simp: heap_ops)
  qed (use assms in \<open>cases zs; auto simp: heap_ops\<close>)
  have tail: "seg h' e zs l"
  proof (cases zs)
    case (Cons z zs')
    with assms(1) p have "last (l # ys) \<notin> set (z # zs')"
      by (auto simp del: last.simps)
    with Cons assms(1,3) have "seg h' z zs' l = seg h z zs' l"
      by (intro seg_cong) (auto simp: heap_ops simp del: last.simps)
    with Cons assms n show ?thesis
      by auto
  qed (use n in auto)
  from head tail show ?thesis
    by simp
qed

lemma list_insert_tail_ring:
  assumes "api_ring h l xs" and "e \<noteq> NULL" and "e \<notin> set (l # xs)"
  shows "\<exists>h'. list_insert_tail l e h = Some h' \<and> api_ring h' l (xs @ [e])"
proof -
  have r: "ring h l xs" and d: "distinct (l # e # xs @ [])"
    using assms by (auto simp: api_ring_def ring_def)
  have "last (l # xs) \<in> set (l # xs)"
    by (rule last_in_set) simp
  then have "last (l # xs) \<noteq> NULL"
    using assms(1) by (metis api_ring_def)
  then have "list_insert_tail l e h = Some (set_prev l e (set_next (last (l # xs)) e
                (set_prev e (last (l # xs)) (set_next e l h))))"
    using assms r ring_prev [OF r]
    by (auto simp: list_insert_tail_def list_insert_before_def Let_def heap_ops api_ring_def)
  moreover have "seg (set_prev l e (set_next (last (l # xs)) e
                (set_prev e (last (l # xs)) (set_next e l h)))) l (xs @ [e]) l"
    using seg_splice [OF d, of h] r by (simp add: ring_def)
  ultimately show ?thesis
    using assms r by (auto simp: api_ring_def ring_def)
qed

lemma list_insert_head_ring:
  assumes "api_ring h l xs" and "e \<noteq> NULL" and "e \<notin> set (l # xs)"
  shows "\<exists>h'. list_insert_head l e h = Some h' \<and> api_ring h' l (e # xs)"
proof -
  have r: "ring h l xs" and d: "distinct (l # e # [] @ xs)"
    using assms by (auto simp: api_ring_def ring_def)
  have p: "prv h (hd (xs @ [l])) = l" "hd (xs @ [l]) \<noteq> NULL" "hd (xs @ [l]) \<noteq> e"
    using r assms by (cases xs; auto simp: api_ring_def ring_def)+
  then have "list_insert_head l e h = Some (set_prev (hd (xs @ [l])) e (set_next l e
                (set_prev e l (set_next e (hd (xs @ [l])) h))))"
    using assms r ring_next [OF r]
    by (auto simp: list_insert_head_def list_insert_after_def list_insert_before_def Let_def heap_ops api_ring_def)
  moreover have "seg (set_prev (hd (xs @ [l])) e (set_next l e
                (set_prev e l (set_next e (hd (xs @ [l])) h)))) l (e # xs) l"
    using seg_splice [OF d, of h] r by (simp add: ring_def)
  ultimately show ?thesis
    using assms r by (auto simp: api_ring_def ring_def)
qed

lemma list_remove_ring:
  assumes "api_ring h l (ys @ x # zs)"
  shows "\<exists>h'. list_remove x h = Some h' \<and> api_ring h' l (ys @ zs) \<and> \<not> list_item_is_linked h' x"
proof -
  define hu where "hu = set_next x x (set_prev x x (set_next (last (l # ys)) (hd (zs @ [l]))
                          (set_prev (hd (zs @ [l])) (last (l # ys)) h)))"
  define h' where "h' = list_item_initialize x (set_prev (hd (zs @ [l])) (last (l # ys))
                          (set_next (last (l # ys)) (hd (zs @ [l])) h))"
  have d: "distinct (l # ys @ x # zs)" and s: "seg h l (ys @ x # zs) l"
    using assms by (auto simp: api_ring_def ring_def)
  have "seg h l ys x" and "seg h x zs l"
    using s by auto
  then have np: "nxt h x = hd (zs @ [l])" "prv h x = last (l # ys)"
    by (auto dest: seg_next seg_prev simp del: last.simps)
  have "last (l # ys) \<in> set (l # ys)"
    by (rule last_in_set) simp
  then have p: "last (l # ys) \<noteq> NULL" "last (l # ys) \<noteq> x"
    using assms d by (metis api_ring_def Un_iff set_append append_Cons, auto simp del: last.simps)
  have "hd (zs @ [l]) \<noteq> NULL" and "x \<noteq> NULL"
    using assms by (cases zs; auto simp: api_ring_def)+
  then have "list_remove x h = Some h'"
    using p by (simp add: list_remove_def Let_def np h'_def heap_ops del: last.simps)
  moreover have "seg h' l (ys @ zs) l = seg hu l (ys @ zs) l"
    using d by (intro seg_cong) (auto simp: h'_def hu_def list_item_initialize_def heap_ops)
  then have "ring h' l (ys @ zs)"
    using seg_unlink(1) [OF d s hu_def] d by (auto simp: ring_def)
  moreover have "\<not> list_item_is_linked h' x"
    by (simp add: h'_def list_item_is_linked_def list_item_initialize_def heap_ops)
  ultimately show ?thesis
    using assms by (auto simp: api_ring_def)
qed

lemma list_append_seg:
  assumes d: "distinct (a # b # xs @ y # ys)"
    and s: "seg h a xs a" "seg h b (y # ys) b"
    and h': "h' = list_append a b h"
  shows "seg h' a (xs @ y # ys) a"
proof -
  let ?p = "last (a # xs)" and ?q = "last (y # ys)"
  have p: "?p \<in> set (a # xs)" and q: "?q \<in> set (y # ys)"
    by (rule last_in_set, simp)+
  have ends: "prv h a = ?p" "nxt h b = y" "prv h b = ?q"
    using s seg_prev [OF s(1)] seg_prev [OF s(2)] by simp_all
  have ne: "?p \<noteq> b" "?q \<noteq> a" "?q \<noteq> b" "?p \<noteq> ?q"
    using p q d by (auto simp del: last.simps)
  have eq: "h' = list_initialize b (set_next ?q a (set_prev a ?q (set_prev y ?p (set_next ?p y h))))"
    using d ends ne by (auto simp: h' list_append_def list_is_empty_def Let_def heap_ops simp del: last.simps)
  have out: "?p \<notin> set (y # ys)" "?q \<notin> set (a # xs)"
    using p q d by (auto simp del: last.simps)
  have "seg h' a xs y"
  proof (cases xs rule: rev_cases)
    case (snoc us u)
    then have "seg h' a us u = seg h a us u"
      using d out eq by (intro seg_cong) (auto simp: list_initialize_def heap_ops)
    with snoc s(1) d eq out show ?thesis
      by (auto simp: list_initialize_def heap_ops)
  qed (use d eq out in \<open>auto simp: list_initialize_def heap_ops\<close>)
  moreover have "seg h' y ys a"
  proof (cases ys rule: rev_cases)
    case (snoc vs v)
    then have "seg h' y vs v = seg h y vs v"
      using d out eq by (intro seg_cong) (auto simp: list_initialize_def heap_ops)
    with snoc s(2) d eq out show ?thesis
      by (auto simp: list_initialize_def heap_ops)
  qed (use d eq out in \<open>auto simp: list_initialize_def heap_ops\<close>)
  ultimately show ?thesis
    by simp
qed

interpretation al: linked_list api_ring "\<lambda>e. e \<noteq> NULL" list_insert_head list_insert_tail list_remove api_list_head
proof unfold_locales
  fix h l ys x zs
  assume "api_ring h l (ys @ x # zs)"
  from list_remove_ring [OF this] show "\<exists>h'. list_remove x h = Some h' \<and> api_ring h' l (ys @ zs)"
    by blast
qed (use list_insert_head_ring list_insert_tail_ring ring_next
     in \<open>auto simp: api_ring_def ring_def api_list_head_def\<close>)

section \<open>Properties\<close>

text \<open>
  C24: appending one list to another moves all of its items, in order, behind those of the
  first and leaves the second list empty; nothing is lost when either list is empty.
\<close>

theorem list_append_moves_all:
  assumes "api_ring h a xs" and "api_ring h b ys" and "set (a # xs) \<inter> set (b # ys) = {}"
  shows "api_ring (list_append a b h) a (xs @ ys) \<and> api_ring (list_append a b h) b []"
proof (cases ys)
  case Nil
  with assms show ?thesis
    by (auto simp: list_append_def list_is_empty_def api_ring_def ring_def)
next
  case (Cons z zs)
  then have d: "distinct (a # b # xs @ z # zs)"
    using assms by (auto simp: api_ring_def ring_def)
  have "nxt h b \<noteq> b"
    using assms Cons by (auto simp: api_ring_def ring_def)
  then have "ring (list_append a b h) b []"
    by (simp add: list_append_def list_is_empty_def Let_def list_initialize_def ring_def heap_ops)
  moreover have "seg (list_append a b h) a (xs @ z # zs) a"
    using assms Cons by (intro list_append_seg [OF d]) (auto simp: api_ring_def ring_def)
  ultimately show ?thesis
    using assms d Cons by (auto simp: api_ring_def ring_def)
qed

definition append_example :: list_heap where
  "append_example = \<lparr>nxt = id(1 := 2, 2 := 1, 3 := 4, 4 := 5, 5 := 3),
                     prv = id(1 := 2, 2 := 1, 3 := 5, 4 := 3, 5 := 4)\<rparr>"

theorem list_append_moves_all_witness:
  "api_ring append_example 1 [2] \<and> api_ring append_example 3 [4, 5]
   \<and> set (1 # [2]) \<inter> set (3 # [4, 5 :: addr]) = {}
   \<and> api_ring (list_append 1 3 append_example) 1 [2, 4, 5]"
proof -
  have "api_ring append_example 1 [2]" "api_ring append_example 3 [4, 5]"
    by (simp_all add: api_ring_def ring_def append_example_def)
  with list_append_moves_all [of append_example 1 "[2]" 3 "[4, 5]"] show ?thesis
    by simp
qed

end
