(* ===== verification/NameTrie.thy ===== *)
theory NameTrie
  imports Prelude
begin

text \<open>
  The trie of \<^verbatim>\<open>src/finesse/utils/trie.c\<close>, which holds the names of a directory and of the
  extended attributes of an inode.  A node owns its children, so a trie is a value: a
  null root is \<^const>\<open>None\<close>, an operation that changes a node gives the new root.  A C string
  is the list of its bytes before the terminating zero.  The search function is at
  the same time the abstraction of a trie to a finite map; the locale \<^verbatim>\<open>name_map\<close> states
  the contract that directories and attributes rely on.
\<close>

section \<open>The operations\<close>

datatype 'o Trie = Trie (character: "char \<Rightarrow> 'o Trie option") (Object: "'o option")

definition TrieCreateNode :: "'o Trie" where
  "TrieCreateNode = Trie (\<lambda>i. None) None"

fun TrieInsert :: "'o Trie \<Rightarrow> string \<Rightarrow> 'o option \<Rightarrow> 'o Trie" where
  "TrieInsert (Trie ch ob) [] object = Trie ch object"
| "TrieInsert (Trie ch ob) (c # str) object =
     (let next = (case ch c of None \<Rightarrow> TrieCreateNode | Some t \<Rightarrow> t)
      in Trie (ch(c := Some (TrieInsert next str object))) ob)"

fun TrieSearch :: "'o Trie option \<Rightarrow> string \<Rightarrow> 'o option" where
  "TrieSearch None str = None"
| "TrieSearch (Some node) [] = Object node"
| "TrieSearch (Some node) (c # str) = TrieSearch (character node c) str"

definition haveChildren :: "'o Trie \<Rightarrow> bool" where
  "haveChildren node = list_ex (\<lambda>i. character node (char_of i) \<noteq> None) [0..<256::nat]"

definition set_child :: "'o Trie \<Rightarrow> char \<Rightarrow> 'o Trie option \<Rightarrow> 'o Trie" where
  "set_child t c v = Trie ((character t)(c := v)) (Object t)"

definition clear_object :: "'o Trie \<Rightarrow> 'o Trie" where
  "clear_object t = Trie (character t) None"

text \<open>
  The two loops of \<^verbatim>\<open>TrieDeletion\<close>: the descent records the nodes it passes, the deepest
  first; the way back frees nodes without object and children.  The flag says that the
  loop has not been left by its \<^verbatim>\<open>break\<close>.
\<close>

fun descend :: "('o Trie \<times> char) list \<Rightarrow> 'o Trie \<Rightarrow> string \<Rightarrow> ('o Trie \<times> char) list \<times> 'o Trie option" where
  "descend path t [] = (path, Some t)"
| "descend path t (c # str) =
     (case character t c of
        None \<Rightarrow> ((t, c) # path, None)
      | Some t' \<Rightarrow> descend ((t, c) # path) t' str)"

fun unwind :: "('o Trie \<times> char) list \<Rightarrow> 'o Trie \<Rightarrow> bool \<Rightarrow> 'o Trie \<times> bool" where
  "unwind [] child going = (child, going)"
| "unwind ((t, ch) # path) child going =
     (if going \<and> \<not> (Object child \<noteq> None \<or> haveChildren child)
      then unwind path (set_child t ch None) True
      else unwind path (set_child t ch (Some child)) False)"

definition TrieDeletion :: "bool \<Rightarrow> 'o Trie option \<Rightarrow> string \<Rightarrow> (errno \<times> 'o Trie option) option" where
  "TrieDeletion malloc_ok head str =
     (if \<not> malloc_ok then Some (ENOMEM, head)
      else case head of
        None \<Rightarrow> None
      | Some root \<Rightarrow>
          if str = [] then Some (0, if haveChildren root then head else None)
          else case descend [] root str of
            (path, None) \<Rightarrow> Some (ENOENT, head)
          | (path, Some t) \<Rightarrow>
              if Object t = None then Some (ENOENT, head)
              else let (root', at_root) = unwind path (clear_object t) True in
                if at_root \<and> \<not> (Object root' \<noteq> None \<or> haveChildren root')
                then Some (0, None) else Some (0, Some root'))"

section \<open>Insertion and search\<close>

lemma haveChildren_iff: "haveChildren t \<longleftrightarrow> (\<exists>c. character t c \<noteq> None)"
proof
  assume "\<exists>c. character t c \<noteq> None"
  then obtain c where c: "character t c \<noteq> None"
    by blast
  have "of_char c < (256::nat)"
    by simp
  with c show "haveChildren t"
    unfolding haveChildren_def list_ex_iff by (intro bexI [of _ "of_char c"]) auto
qed (auto simp: haveChildren_def list_ex_iff)

lemma set_child_simps [simp]:
  "character (set_child t c v) = (character t)(c := v)" "Object (set_child t c v) = Object t"
  "character (clear_object t) = character t" "Object (clear_object t) = None"
  by (simp_all add: set_child_def clear_object_def)

lemma TrieSearch_create [simp]: "TrieSearch (Some TrieCreateNode) str = None"
  by (cases str) (auto simp: TrieCreateNode_def)

lemma TrieSearch_insert:
  "TrieSearch (Some (TrieInsert t str object)) str' = (if str' = str then object else TrieSearch (Some t) str')"
proof (induction t str object arbitrary: str' rule: TrieInsert.induct)
  case (1 ch ob object)
  then show ?case
    by (cases str') auto
next
  case (2 ch ob c str object)
  show ?case
  proof (cases str')
    case (Cons d ds)
    with 2 [OF refl, of ds] show ?thesis
      by (auto simp: Let_def split: option.splits)
  qed simp
qed

section \<open>Deletion against a recursive reference\<close>

abbreviation gone :: "'o Trie \<Rightarrow> bool" where
  "gone t \<equiv> Object t = None \<and> \<not> haveChildren t"

fun trie_del :: "'o Trie \<Rightarrow> string \<Rightarrow> 'o Trie" where
  "trie_del t [] = clear_object t"
| "trie_del t (c # str) =
     (case character t c of
        None \<Rightarrow> t
      | Some t' \<Rightarrow> set_child t c (if gone (trie_del t' str) then None else Some (trie_del t' str)))"

lemma haveChildren_set [simp]: "haveChildren (set_child t c (Some u))"
  by (auto simp: haveChildren_iff)

lemma unwind_flag: "\<not> gone child \<Longrightarrow> fst (unwind path child going) = fst (unwind path child going')"
  by (cases path) auto

lemma unwind_stopped:
  "going \<or> \<not> gone child \<Longrightarrow> \<not> snd (unwind path child going) \<Longrightarrow> \<not> gone (fst (unwind path child going))"
  by (induction path child going rule: unwind.induct) (auto split: if_splits)

lemma descend_unwind:
  "descend path t str = (path', Some u) \<Longrightarrow>
   fst (unwind path' (clear_object u) True) = fst (unwind path (trie_del t str) True)"
proof (induction path t str rule: descend.induct)
  case (2 path t c str)
  then obtain t' where t': "character t c = Some t'" "descend ((t, c) # path) t' str = (path', Some u)"
    by (auto split: option.splits)
  with 2(1) have "fst (unwind path' (clear_object u) True) = fst (unwind ((t, c) # path) (trie_del t' str) True)"
    by blast
  also have "\<dots> = fst (unwind path (trie_del t (c # str)) True)"
    using t'(1) unwind_flag [of "set_child t c (Some (trie_del t' str))" path False True] by auto
  finally show ?case .
qed auto

lemma descend_search: "snd (descend path t str) = Some u \<Longrightarrow> TrieSearch (Some t) str = Object u"
  by (induction path t str rule: descend.induct) (auto split: option.splits)

lemma descend_None: "snd (descend path t str) = None \<Longrightarrow> TrieSearch (Some t) str = None"
  by (induction path t str rule: descend.induct) (auto split: option.splits)

text \<open>The iterative deletion is the recursive one.\<close>

lemma TrieDeletion_trie_del:
  assumes "str \<noteq> []"
  shows "TrieDeletion True (Some t) str =
    (if TrieSearch (Some t) str = None then Some (ENOENT, Some t)
     else Some (0, if gone (trie_del t str) then None else Some (trie_del t str)))"
proof (cases "descend [] t str")
  case (Pair path r)
  show ?thesis
  proof (cases r)
    case None
    with Pair descend_None [of "[]" t str] assms show ?thesis
      by (simp add: TrieDeletion_def)
  next
    case (Some u)
    obtain root flag where w: "unwind path (clear_object u) True = (root, flag)"
      by (cases "unwind path (clear_object u) True") auto
    have "root = trie_del t str"
      using descend_unwind [of "[]" t str path u] Pair Some w by simp
    moreover have "flag \<or> \<not> gone root"
      using unwind_stopped [of True "clear_object u" path] w by auto
    ultimately show ?thesis
      using Pair Some w descend_search [of "[]" t str u] assms by (auto simp: TrieDeletion_def)
  qed
qed

lemma TrieSearch_gone: "gone t \<Longrightarrow> TrieSearch (Some t) s = None"
  by (cases s) (auto simp: haveChildren_iff)

lemma TrieSearch_trie_del:
  "TrieSearch (Some (trie_del t str)) s = (if s = str then None else TrieSearch (Some t) s)"
proof (induction t str arbitrary: s rule: trie_del.induct)
  case (1 t)
  then show ?case
    by (cases s) auto
next
  case (2 t c str)
  show ?case
  proof (cases s)
    case (Cons d ds)
    show ?thesis
    proof (cases "character t c")
      case (Some t')
      from 2 [OF Some, of ds] TrieSearch_gone [of "trie_del t' str" ds] Cons Some show ?thesis
        by auto
    qed (use Cons in auto)
  qed (auto split: option.splits)
qed

section \<open>No dead branches\<close>

text \<open>
  Every node below the root leads to an object.  Deletion keeps this, and therefore knows
  from the root alone whether the trie still holds a name.
\<close>

inductive pruned :: "'o Trie \<Rightarrow> bool" where
  "(\<And>c t. ch c = Some t \<Longrightarrow> pruned t \<and> \<not> gone t) \<Longrightarrow> pruned (Trie ch ob)"

inductive_simps pruned_Trie: "pruned (Trie ch ob)"

lemma pruned_iff: "pruned t \<longleftrightarrow> (\<forall>c u. character t c = Some u \<longrightarrow> pruned u \<and> \<not> gone u)"
  by (cases t) (simp add: pruned_Trie)

lemma pruned_set_child:
  assumes "pruned t" and "\<And>u. v = Some u \<Longrightarrow> pruned u \<and> \<not> gone u"
  shows "pruned (set_child t c v)"
  using assms by (simp add: pruned_iff [of "set_child t c v"] pruned_iff [of t])

lemma pruned_create [preserve]: "pruned TrieCreateNode"
  by (simp add: TrieCreateNode_def pruned_Trie)

lemma gone_insert: "\<not> gone (TrieInsert t str (Some v))"
  by (cases t; cases str) (auto simp: haveChildren_iff Let_def)

lemma pruned_insert [preserve]: "pruned t \<Longrightarrow> pruned (TrieInsert t str (Some v))"
proof (induction t str "Some v" rule: TrieInsert.induct)
  case (2 ch ob c str)
  let ?u = "TrieInsert (case ch c of None \<Rightarrow> TrieCreateNode | Some t \<Rightarrow> t) str (Some v)"
  have "pruned ?u"
    using 2 pruned_create by (auto simp: pruned_Trie split: option.splits)
  moreover have "\<not> gone ?u"
    by (rule gone_insert)
  ultimately have "pruned (set_child (Trie ch ob) c (Some ?u))"
    using 2(2) by (intro pruned_set_child) (simp_all only: option.inject, blast)
  then show ?case
    by (simp add: Let_def set_child_def)
qed (simp add: pruned_Trie)

lemma pruned_del [preserve]: "pruned t \<Longrightarrow> pruned (trie_del t str)"
proof (induction t str rule: trie_del.induct)
  case (1 t)
  then show ?case
    by (simp add: pruned_iff [of "clear_object t"] pruned_iff [of t])
next
  case (2 t c str)
  show ?case
  proof (cases "character t c")
    case (Some u)
    with 2 have "pruned (trie_del u str)"
      by (auto simp: pruned_iff [of t])
    then have "pruned (set_child t c (if gone (trie_del u str) then None else Some (trie_del u str)))"
      using \<open>pruned t\<close> by (intro pruned_set_child) (auto split: if_splits)
    with Some show ?thesis
      by simp
  qed (use 2 in simp)
qed

lemma pruned_has_name: "pruned t \<Longrightarrow> \<not> gone t \<Longrightarrow> \<exists>s. TrieSearch (Some t) s \<noteq> None"
proof (induction rule: pruned.induct)
  case (1 ch ob)
  show ?case
  proof (cases ob)
    case None
    with 1(2) obtain c u where cu: "ch c = Some u"
      by (auto simp: haveChildren_iff)
    with 1(1) obtain s where "TrieSearch (Some u) s \<noteq> None"
      by blast
    with cu show ?thesis
      by (intro exI [of _ "c # s"]) simp
  next
    case (Some v)
    then show ?thesis
      by (intro exI [of _ "[]"]) simp
  qed
qed

lemma pruned_gone_iff: "pruned t \<Longrightarrow> gone t \<longleftrightarrow> TrieSearch (Some t) = Map.empty"
  using pruned_has_name TrieSearch_gone by (metis ext)

section \<open>The interface\<close>

text \<open>
  The contract of a map from names to objects that may disappear when its last name goes.
  \<^verbatim>\<open>alive\<close> is what an insertion needs.
\<close>

locale name_map =
  fixes invar :: "'m \<Rightarrow> bool"
    and alive :: "'m \<Rightarrow> bool"
    and find :: "'m \<Rightarrow> string \<Rightarrow> 'v option"
    and ins :: "'m \<Rightarrow> string \<Rightarrow> 'v \<Rightarrow> 'm"
    and del :: "'m \<Rightarrow> string \<Rightarrow> (errno \<times> 'm) option"
  assumes ins_law: "\<lbrakk>invar m; alive m\<rbrakk> \<Longrightarrow> invar (ins m s v) \<and> alive (ins m s v) \<and> find (ins m s v) = (find m)(s \<mapsto> v)"
    and del_law: "\<lbrakk>invar m; alive m; s \<noteq> []\<rbrakk> \<Longrightarrow>
      \<exists>m'. del m s = Some (if find m s = None then ENOENT else 0, m') \<and> invar m'
         \<and> find m' = (find m)(s := None)
         \<and> (alive m' \<longleftrightarrow> find m s = None \<or> find m' \<noteq> Map.empty)"
begin

lemma del_present:
  assumes "invar m" "alive m" "s \<noteq> []" "find m s = Some v"
  obtains m' where "del m s = Some (0, m')" "invar m'" "find m' = (find m)(s := None)"
    "alive m' \<longleftrightarrow> find m' \<noteq> Map.empty"
  using del_law [OF assms(1-3)] assms(4) by auto

lemma ins_del_round_trip:
  assumes "invar m" "alive m" "s \<noteq> []" "find m s = None"
  shows "\<exists>m'. del (ins m s v) s = Some (0, m') \<and> invar m' \<and> find m' = find m"
proof -
  have i: "invar (ins m s v)" "alive (ins m s v)" "find (ins m s v) = (find m)(s \<mapsto> v)"
    using ins_law [OF assms(1,2)] by auto
  then have "find (ins m s v) s = Some v"
    by simp
  from del_present [OF i(1,2) assms(3) this] obtain m'
    where "del (ins m s v) s = Some (0, m')" "invar m'" "find m' = (find (ins m s v))(s := None)"
    by blast
  then show ?thesis
    using i(3) assms(4) by (auto simp: fun_upd_idem)
qed

lemma del_keeps_alive:
  assumes "invar m" "alive m" "s \<noteq> []" "find m r \<noteq> None" "r \<noteq> s"
  shows "\<exists>st m'. del m s = Some (st, m') \<and> invar m' \<and> alive m' \<and> find m' = (find m)(s := None)"
proof -
  obtain m' where m': "del m s = Some (if find m s = None then ENOENT else 0, m')" "invar m'"
    "find m' = (find m)(s := None)" "alive m' \<longleftrightarrow> find m s = None \<or> find m' \<noteq> Map.empty"
    using del_law [OF assms(1-3)] by blast
  have "find m' r \<noteq> None"
    using m'(3) assms(4,5) by simp
  then have "alive m'"
    using m'(4) by auto
  with m' show ?thesis
    by blast
qed

end

definition trie_invar :: "'o Trie option \<Rightarrow> bool" where
  "trie_invar m = (case m of None \<Rightarrow> True | Some t \<Rightarrow> pruned t)"

definition trie_insert_at :: "'o Trie option \<Rightarrow> string \<Rightarrow> 'o \<Rightarrow> 'o Trie option" where
  "trie_insert_at m s v = map_option (\<lambda>t. TrieInsert t s (Some v)) m"

interpretation tm: name_map trie_invar "\<lambda>m. m \<noteq> None" TrieSearch trie_insert_at "TrieDeletion True"
proof unfold_locales
  fix m :: "'o Trie option" and s v
  assume "trie_invar m" "m \<noteq> None"
  then show "trie_invar (trie_insert_at m s v) \<and> trie_insert_at m s v \<noteq> None
      \<and> TrieSearch (trie_insert_at m s v) = (TrieSearch m)(s \<mapsto> v)"
    by (auto simp: trie_invar_def trie_insert_at_def TrieSearch_insert pruned_insert)
next
  fix m :: "'o Trie option" and s :: string
  assume m: "trie_invar m" "m \<noteq> None" "s \<noteq> []"
  then obtain t where t: "m = Some t" "pruned t"
    by (auto simp: trie_invar_def)
  let ?d = "trie_del t s"
  have d: "pruned ?d" "TrieSearch (Some ?d) = (TrieSearch (Some t))(s := None)"
    using t(2) by (auto simp: pruned_del TrieSearch_trie_del)
  have "gone ?d \<longleftrightarrow> (TrieSearch (Some t))(s := None) = Map.empty"
    using pruned_gone_iff [OF d(1)] d(2) by simp
  then show "\<exists>m'. TrieDeletion True m s = Some (if TrieSearch m s = None then ENOENT else 0, m')
      \<and> trie_invar m' \<and> TrieSearch m' = (TrieSearch m)(s := None)
      \<and> (m' \<noteq> None \<longleftrightarrow> TrieSearch m s = None \<or> TrieSearch m' \<noteq> Map.empty)"
    using TrieDeletion_trie_del [OF m(3), of t] t d
    by (cases "TrieSearch (Some t) s"; cases "gone ?d") (auto simp: trie_invar_def fun_upd_idem)
qed

section \<open>Properties\<close>

text \<open>
  C11: a trie built by the program's operations is the finite map that the operations
  describe.  An insertion changes the search result for its own name only.  Deleting a name that is bound
  succeeds, unbinds exactly this name, keeps every branch live and gives a null root exactly when
  no name is left; deleting a name that is not bound returns ENOENT and changes nothing.
\<close>

theorem trie_is_a_map:
  assumes "pruned t" and "str \<noteq> []"
  shows "TrieSearch (Some (TrieInsert t str (Some v))) = (TrieSearch (Some t))(str \<mapsto> v)
    \<and> pruned (TrieInsert t str (Some v))
    \<and> (case TrieSearch (Some t) str of
         None \<Rightarrow> TrieDeletion True (Some t) str = Some (ENOENT, Some t)
       | Some _ \<Rightarrow> (\<exists>m. TrieDeletion True (Some t) str = Some (0, m)
            \<and> TrieSearch m = (TrieSearch (Some t))(str := None) \<and> trie_invar m
            \<and> (m = None \<longleftrightarrow> TrieSearch m = Map.empty)))"
proof -
  have t: "trie_invar (Some t)" "Some t \<noteq> None"
    using assms by (simp_all add: trie_invar_def)
  have "TrieSearch (Some (TrieInsert t str (Some v))) = (TrieSearch (Some t))(str \<mapsto> v)"
    by (auto simp: TrieSearch_insert)
  moreover have "pruned (TrieInsert t str (Some v))"
    by (rule pruned_insert [OF assms(1)])
  moreover have "TrieDeletion True (Some t) str = Some (ENOENT, Some t)" if "TrieSearch (Some t) str = None"
    using TrieDeletion_trie_del [OF assms(2), of t] that by simp
  moreover have "\<exists>m. TrieDeletion True (Some t) str = Some (0, m)
            \<and> TrieSearch m = (TrieSearch (Some t))(str := None) \<and> trie_invar m
            \<and> (m = None \<longleftrightarrow> TrieSearch m = Map.empty)" if "TrieSearch (Some t) str = Some w" for w
    by (rule tm.del_present [OF t assms(2) that]) (metis (mono_tags, lifting))
  ultimately show ?thesis
    by (simp split: option.splits)
qed

theorem trie_is_a_map_witness:
  "pruned (TrieInsert TrieCreateNode ''ab'' (Some (7::nat))) \<and> ''ab'' \<noteq> []
   \<and> (\<exists>m. TrieDeletion True (Some (TrieInsert TrieCreateNode ''ab'' (Some (7::nat)))) ''ab'' = Some (0, m)
        \<and> m = None)"
proof -
  let ?t = "TrieInsert TrieCreateNode ''ab'' (Some (7::nat))"
  have "pruned ?t"
    by (intro pruned_insert pruned_create)
  moreover have "TrieSearch (Some ?t) = [''ab'' \<mapsto> 7]"
    by (auto simp: TrieSearch_insert)
  ultimately show ?thesis
    using trie_is_a_map [of ?t "''ab''" 0] by (auto simp del: TrieSearch.simps)
qed

end
