(* ===== verification/Murmur.thy ===== *)
theory Murmur
  imports Prelude
begin

text \<open>
  MurmurHash3 as in \<^verbatim>\<open>src/finesse/utils/murmurhash3.c\<close>, on words of the widths the code uses.
  A key is the list of its bytes, so its length is \<^verbatim>\<open>len\<close>; a block is read in little-endian
  order, as on the x86 machines the code is written for.  The lemmas show that every mixing step is
  invertible, from which two different eight-byte keys never get the same 128-bit hash.
\<close>

section \<open>The code\<close>

definition rotl32 :: "u32 \<Rightarrow> nat \<Rightarrow> u32" where
  "rotl32 x r = push_bit r x OR drop_bit (32 - r) x"

definition rotl64 :: "u64 \<Rightarrow> nat \<Rightarrow> u64" where
  "rotl64 x r = push_bit r x OR drop_bit (64 - r) x"

fun le_word :: "u8 list \<Rightarrow> 'a::len word" where
  "le_word [] = 0"
| "le_word (b # bs) = ucast b OR push_bit 8 (le_word bs)"

definition getblock32 :: "u8 list \<Rightarrow> nat \<Rightarrow> u32" where
  "getblock32 p i = le_word (take 4 (drop (4 * i) p))"

definition getblock64 :: "u8 list \<Rightarrow> nat \<Rightarrow> u64" where
  "getblock64 p i = le_word (take 8 (drop (8 * i) p))"

definition fmix32 :: "u32 \<Rightarrow> u32" where
  "fmix32 h = (let h = h XOR drop_bit 16 h;
                   h = h * 0x85ebca6b;
                   h = h XOR drop_bit 13 h;
                   h = h * 0xc2b2ae35
               in h XOR drop_bit 16 h)"

definition fmix64 :: "u64 \<Rightarrow> u64" where
  "fmix64 k = (let k = k XOR drop_bit 33 k;
                   k = k * 0xff51afd7ed558ccd;
                   k = k XOR drop_bit 33 k;
                   k = k * 0xc4ceb9fe1a85ec53
               in k XOR drop_bit 33 k)"

text \<open>
  The fall-through \<^verbatim>\<open>switch\<close> over the tail: the bytes from the last one down to \<^verbatim>\<open>lo\<close>, each
  shifted to its place in the lane that starts at \<^verbatim>\<open>lo\<close>.
\<close>

definition tail_lane :: "u8 list \<Rightarrow> nat \<Rightarrow> nat \<Rightarrow> 'a::len word" where
  "tail_lane tail lo hi = fold (\<lambda>j k. k XOR push_bit (8 * (j - lo)) (ucast (tail ! j))) (rev [lo..<min hi (length tail)]) 0"

definition x86_32_k :: "u32 \<Rightarrow> u32" where
  "x86_32_k k1 = rotl32 (k1 * 0xcc9e2d51) 15 * 0x1b873593"

definition MurmurHash3_x86_32 :: "u8 list \<Rightarrow> u32 \<Rightarrow> u32" where
  "MurmurHash3_x86_32 data seed =
     (let nblocks = length data div 4;
          h1 = fold (\<lambda>i h1. rotl32 (h1 XOR x86_32_k (getblock32 data i)) 13 * 5 + 0xe6546b64) [0..<nblocks] seed;
          tail = drop (nblocks * 4) data;
          h1 = (if tail = [] then h1 else h1 XOR x86_32_k (tail_lane tail 0 3));
          h1 = h1 XOR of_nat (length data)
      in fmix32 h1)"

definition x86_128_body :: "u8 list \<Rightarrow> nat \<Rightarrow> u32 \<times> u32 \<times> u32 \<times> u32 \<Rightarrow> u32 \<times> u32 \<times> u32 \<times> u32" where
  "x86_128_body data i = (\<lambda>(h1, h2, h3, h4).
     let c1 = 0x239b961b; c2 = 0xab0e9789; c3 = 0x38b34ae5; c4 = 0xa1e38b93;
         k1 = getblock32 data (i * 4 + 0);
         k2 = getblock32 data (i * 4 + 1);
         k3 = getblock32 data (i * 4 + 2);
         k4 = getblock32 data (i * 4 + 3);
         h1 = h1 XOR rotl32 (k1 * c1) 15 * c2;
         h1 = (rotl32 h1 19 + h2) * 5 + 0x561ccd1b;
         h2 = h2 XOR rotl32 (k2 * c2) 16 * c3;
         h2 = (rotl32 h2 17 + h3) * 5 + 0x0bcaa747;
         h3 = h3 XOR rotl32 (k3 * c3) 17 * c4;
         h3 = (rotl32 h3 15 + h4) * 5 + 0x96cd1c35;
         h4 = h4 XOR rotl32 (k4 * c4) 18 * c1;
         h4 = (rotl32 h4 13 + h1) * 5 + 0x32ac3b17
     in (h1, h2, h3, h4))"

definition MurmurHash3_x86_128 :: "u8 list \<Rightarrow> u32 \<Rightarrow> u32 \<times> u32 \<times> u32 \<times> u32" where
  "MurmurHash3_x86_128 data seed =
     (let nblocks = length data div 16;
          len = of_nat (length data);
          c1 = 0x239b961b; c2 = 0xab0e9789; c3 = 0x38b34ae5; c4 = 0xa1e38b93;
          (h1, h2, h3, h4) = fold (x86_128_body data) [0..<nblocks] (seed, seed, seed, seed);
          tail = drop (nblocks * 16) data;
          h4 = (if length tail \<ge> 13 then h4 XOR rotl32 (tail_lane tail 12 15 * c4) 18 * c1 else h4);
          h3 = (if length tail \<ge> 9 then h3 XOR rotl32 (tail_lane tail 8 12 * c3) 17 * c4 else h3);
          h2 = (if length tail \<ge> 5 then h2 XOR rotl32 (tail_lane tail 4 8 * c2) 16 * c3 else h2);
          h1 = (if length tail \<ge> 1 then h1 XOR rotl32 (tail_lane tail 0 4 * c1) 15 * c2 else h1);
          h1 = h1 XOR len; h2 = h2 XOR len; h3 = h3 XOR len; h4 = h4 XOR len;
          h1 = h1 + h2; h1 = h1 + h3; h1 = h1 + h4;
          h2 = h2 + h1; h3 = h3 + h1; h4 = h4 + h1;
          h1 = fmix32 h1; h2 = fmix32 h2; h3 = fmix32 h3; h4 = fmix32 h4;
          h1 = h1 + h2; h1 = h1 + h3; h1 = h1 + h4;
          h2 = h2 + h1; h3 = h3 + h1; h4 = h4 + h1
      in (h1, h2, h3, h4))"

definition x64_128_body :: "u8 list \<Rightarrow> nat \<Rightarrow> u64 \<times> u64 \<Rightarrow> u64 \<times> u64" where
  "x64_128_body data i = (\<lambda>(h1, h2).
     let c1 = 0x87c37b91114253d5; c2 = 0x4cf5ad432745937f;
         k1 = getblock64 data (i * 2 + 0);
         k2 = getblock64 data (i * 2 + 1);
         h1 = h1 XOR rotl64 (k1 * c1) 31 * c2;
         h1 = (rotl64 h1 27 + h2) * 5 + 0x52dce729;
         h2 = h2 XOR rotl64 (k2 * c2) 33 * c1;
         h2 = (rotl64 h2 31 + h1) * 5 + 0x38495ab5
     in (h1, h2))"

definition x64_128_tail :: "u8 list \<Rightarrow> u64 \<times> u64 \<Rightarrow> u64 \<times> u64" where
  "x64_128_tail tail = (\<lambda>(h1, h2).
     let c1 = 0x87c37b91114253d5; c2 = 0x4cf5ad432745937f;
         h2 = (if length tail \<ge> 9 then h2 XOR rotl64 (tail_lane tail 8 15 * c2) 33 * c1 else h2);
         h1 = (if length tail \<ge> 1 then h1 XOR rotl64 (tail_lane tail 0 8 * c1) 31 * c2 else h1)
     in (h1, h2))"

definition x64_128_final :: "u64 \<Rightarrow> u64 \<times> u64 \<Rightarrow> u64 \<times> u64" where
  "x64_128_final len = (\<lambda>(h1, h2).
     let h1 = h1 XOR len; h2 = h2 XOR len;
         h1 = h1 + h2; h2 = h2 + h1;
         h1 = fmix64 h1; h2 = fmix64 h2;
         h1 = h1 + h2; h2 = h2 + h1
     in (h1, h2))"

definition MurmurHash3_x64_128 :: "u8 list \<Rightarrow> u32 \<Rightarrow> u64 \<times> u64" where
  "MurmurHash3_x64_128 data seed =
     (let nblocks = length data div 16;
          h = fold (x64_128_body data) [0..<nblocks] (ucast seed, ucast seed);
          h = x64_128_tail (drop (nblocks * 16) data) h
      in x64_128_final (of_nat (length data)) h)"

text \<open>Published test vectors of the algorithm, as a check of the transcription.\<close>

lemma murmur_x86_32_vectors:
  "MurmurHash3_x86_32 [] 1 = 0x514e28b7"
  "MurmurHash3_x86_32 (map (\<lambda>c. of_nat (of_char c)) ''test'') 0 = 0xba6bd213"
  "MurmurHash3_x86_32 (map (\<lambda>c. of_nat (of_char c)) ''Hello, world!'') 0 = 0xc0363e43"
  by code_simp+

section \<open>Every step is invertible\<close>

lemma drop_bit_fixpoint:
  fixes z :: "'a::len word"
  assumes "z = drop_bit n z" and "0 < n"
  shows "z = 0"
proof -
  have "z = drop_bit (k * n) z" for k
  proof (induction k)
    case (Suc k)
    have "drop_bit (Suc k * n) z = drop_bit n (drop_bit (k * n) z)"
      by (simp add: drop_bit_drop_bit)
    with Suc assms(1) show ?case
      by simp
  qed simp
  moreover have "drop_bit (LENGTH('a) * n) z = 0"
  proof (rule bit_word_eqI)
    fix i
    have "LENGTH('a) \<le> i + LENGTH('a) * n"
      using assms(2) by (simp add: trans_le_add2)
    then show "bit (drop_bit (LENGTH('a) * n) z) i = bit (0 :: 'a word) i"
      by (auto simp: bit_simps dest: bit_imp_le_length)
  qed
  ultimately show ?thesis
    by metis
qed

lemma inj_xorshift:
  fixes x y :: "'a::len word"
  assumes "x XOR drop_bit n x = y XOR drop_bit n y" and "0 < n"
  shows "x = y"
proof -
  have "x XOR y = drop_bit n (x XOR y)"
    using assms(1) by (simp add: drop_bit_xor) (metis xor.assoc xor.commute xor_self_eq xor.right_neutral)
  from drop_bit_fixpoint [OF this assms(2)] show ?thesis
    by (metis xor.assoc xor_self_eq xor.right_neutral xor.left_neutral)
qed

lemma inj_mult:
  fixes x y :: "'a::len word"
  assumes "x * c = y * c" and "c * d = 1"
  shows "x = y"
  using assms by (metis word_mult_cancel_inverse)

lemma inj_rotate:
  fixes x y :: "'a::len word"
  assumes eq: "push_bit r x OR drop_bit (LENGTH('a) - r) x = push_bit r y OR drop_bit (LENGTH('a) - r) y"
    and r: "r \<le> LENGTH('a)"
  shows "x = y"
proof (rule bit_word_eqI)
  fix i
  assume i: "i < LENGTH('a)"
  have eqb: "bit (push_bit r x OR drop_bit (LENGTH('a) - r) x) j = bit (push_bit r y OR drop_bit (LENGTH('a) - r) y) j" for j
    using eq by simp
  show "bit x i = bit y i"
  proof (cases "i + r < LENGTH('a)")
    case True
    with eqb [of "i + r"] r show ?thesis
      by (auto simp: bit_simps dest: bit_imp_le_length)
  next
    case False
    with eqb [of "i + r - LENGTH('a)"] r i show ?thesis
      by (auto simp: bit_simps dest: bit_imp_le_length)
  qed
qed

lemma inj_xorshift_fun: "0 < n \<Longrightarrow> inj (\<lambda>x :: 'a::len word. x XOR drop_bit n x)"
  by (rule injI) (rule inj_xorshift)

lemma inj_mult_fun: "c * d = 1 \<Longrightarrow> inj (\<lambda>x :: 'a::len word. x * c)"
  by (rule injI) (rule inj_mult)

lemma fmix64_compose:
  "fmix64 = (\<lambda>k. k XOR drop_bit 33 k) \<circ> ((\<lambda>k. k * 0xc4ceb9fe1a85ec53) \<circ>
             ((\<lambda>k. k XOR drop_bit 33 k) \<circ> ((\<lambda>k. k * 0xff51afd7ed558ccd) \<circ> (\<lambda>k. k XOR drop_bit 33 k))))"
  by (rule ext) (simp only: fmix64_def Let_def comp_def)

lemma fmix32_compose:
  "fmix32 = (\<lambda>h. h XOR drop_bit 16 h) \<circ> ((\<lambda>h. h * 0xc2b2ae35) \<circ>
             ((\<lambda>h. h XOR drop_bit 13 h) \<circ> ((\<lambda>h. h * 0x85ebca6b) \<circ> (\<lambda>h. h XOR drop_bit 16 h))))"
  by (rule ext) (simp only: fmix32_def Let_def comp_def)

lemma inj_fmix64: "inj fmix64"
proof -
  have "inj (\<lambda>k :: u64. k * 0xc4ceb9fe1a85ec53)"
    by (rule inj_mult_fun [where d = "0x9cb4b2f8129337db"]) simp
  moreover have "inj (\<lambda>k :: u64. k * 0xff51afd7ed558ccd)"
    by (rule inj_mult_fun [where d = "0x4f74430c22a54005"]) simp
  moreover have "inj (\<lambda>k :: u64. k XOR drop_bit 33 k)"
    by (rule inj_xorshift_fun) simp
  ultimately show ?thesis
    unfolding fmix64_compose by (intro inj_compose)
qed

lemma inj_fmix32: "inj fmix32"
proof -
  have "inj (\<lambda>k :: u32. k * 0xc2b2ae35)"
    by (rule inj_mult_fun [where d = "0x7ed1b41d"]) simp
  moreover have "inj (\<lambda>k :: u32. k * 0x85ebca6b)"
    by (rule inj_mult_fun [where d = "0xa5cb9243"]) simp
  moreover have "inj (\<lambda>k :: u32. k XOR drop_bit 16 k)" "inj (\<lambda>k :: u32. k XOR drop_bit 13 k)"
    by (rule inj_xorshift_fun, simp)+
  ultimately show ?thesis
    unfolding fmix32_compose by (intro inj_compose)
qed

lemmas fmix64_inject = injD [OF inj_fmix64]

lemma rotl64_inject: "\<lbrakk>rotl64 x r = rotl64 y r; r \<le> 64\<rbrakk> \<Longrightarrow> x = y"
  using inj_rotate [of r x y] by (simp add: rotl64_def)

lemma rotl32_inject: "\<lbrakk>rotl32 x r = rotl32 y r; r \<le> 32\<rbrakk> \<Longrightarrow> x = y"
  using inj_rotate [of r x y] by (simp add: rotl32_def)

lemma xor_left_cancel_word: "(a :: 'a::len word) XOR b = a XOR c \<longleftrightarrow> b = c"
proof
  assume "a XOR b = a XOR c"
  then have "a XOR (a XOR b) = a XOR (a XOR c)"
    by simp
  then show "b = c"
    by (simp flip: xor.assoc)
qed simp

lemma xor_right_cancel_word: "(b :: 'a::len word) XOR a = c XOR a \<longleftrightarrow> b = c"
  by (simp add: xor.commute [of _ a] xor_left_cancel_word)

lemma x64_128_final_inject:
  assumes "x64_128_final len (a, b) = x64_128_final len (c, d)"
  shows "a = c \<and> b = d"
proof -
  define p q r s where "p = (a XOR len) + (b XOR len)" and "q = (b XOR len) + p"
    and "r = (c XOR len) + (d XOR len)" and "s = (d XOR len) + r"
  have "fmix64 p + fmix64 q = fmix64 r + fmix64 s"
    and "fmix64 q + (fmix64 p + fmix64 q) = fmix64 s + (fmix64 r + fmix64 s)"
    using assms unfolding x64_128_final_def Let_def prod.case prod.inject p_def q_def r_def s_def by blast+
  then have "fmix64 q = fmix64 s" and "fmix64 p = fmix64 r"
    by auto
  then have "q = s" and "p = r"
    using fmix64_inject by blast+
  then have b: "b XOR len = d XOR len"
    unfolding q_def s_def by simp
  with \<open>p = r\<close> have "a XOR len = c XOR len"
    unfolding p_def r_def by simp
  with b show ?thesis
    by (simp add: xor_right_cancel_word)
qed

section \<open>Eight-byte keys\<close>

text \<open>The bytes of a 64-bit integer in memory.\<close>

definition bytes64 :: "u64 \<Rightarrow> u8 list" where
  "bytes64 x = map (\<lambda>j. ucast (drop_bit (8 * j) x)) [0..<8]"

lemma tail_lane_step:
  fixes x :: u64
  shows "take_bit (8 * j) x XOR push_bit (8 * j) (ucast (ucast (drop_bit (8 * j) x) :: u8)) = take_bit (8 * Suc j) x"
proof (rule bit_word_eqI)
  fix i
  assume "i < LENGTH(64)"
  moreover have "i - 8 * j < 8 \<longleftrightarrow> i < 8 * Suc j" if "8 * j \<le> i"
    using that by arith
  ultimately show "bit (take_bit (8 * j) x XOR push_bit (8 * j) (ucast (ucast (drop_bit (8 * j) x) :: u8))) i
      = bit (take_bit (8 * Suc j) x) i"
    by (cases "i < 8 * j") (auto simp: bit_simps)
qed

lemma fold_xor_rev:
  fixes f :: "nat \<Rightarrow> 'a::len word"
  shows "fold (\<lambda>j k. k XOR f j) (rev js) a = fold (\<lambda>j k. k XOR f j) js a"
  by (rule fold_rev [THEN fun_cong]) (simp add: fun_eq_iff ac_simps)

lemma tail_lane_bytes64: "tail_lane (bytes64 x) 0 8 = x"
proof -
  have "fold (\<lambda>j k. k XOR push_bit (8 * j) (ucast (bytes64 x ! j))) [0..<n] 0 = take_bit (8 * n) x" if "n \<le> 8" for n
    using that by (induction n) (auto simp: bytes64_def tail_lane_step)
  from this [of 8] have "fold (\<lambda>j k. k XOR push_bit (8 * j) (ucast (bytes64 x ! j))) [0..<8] 0 = x"
    by (simp add: take_bit_word_eq_self)
  then show ?thesis
    unfolding tail_lane_def by (simp only: fold_xor_rev diff_zero) (simp add: bytes64_def)
qed

lemma MurmurHash3_bytes64:
  "MurmurHash3_x64_128 (bytes64 x) seed =
     x64_128_final 8 (ucast seed XOR rotl64 (x * 0x87c37b91114253d5) 31 * 0x4cf5ad432745937f, ucast seed)"
proof -
  have "length (bytes64 x) = 8"
    by (simp add: bytes64_def)
  then show ?thesis
    by (simp add: MurmurHash3_x64_128_def x64_128_tail_def Let_def tail_lane_bytes64)
qed

section \<open>Properties\<close>

text \<open>
  C21: the 128-bit hash that the inode tables compute has no collisions on inode numbers: for
  every seed, two different 64-bit keys have different hashes.
\<close>

theorem murmur_x64_128_no_collision:
  assumes "x \<noteq> y"
  shows "MurmurHash3_x64_128 (bytes64 x) seed \<noteq> MurmurHash3_x64_128 (bytes64 y) seed"
proof
  let ?k = "\<lambda>x. rotl64 (x * 0x87c37b91114253d5) 31 :: u64"
  assume "MurmurHash3_x64_128 (bytes64 x) seed = MurmurHash3_x64_128 (bytes64 y) seed"
  then have "?k x * 0x4cf5ad432745937f = ?k y * 0x4cf5ad432745937f"
    unfolding MurmurHash3_bytes64 by (auto dest!: x64_128_final_inject simp: xor_left_cancel_word)
  then have "?k x = ?k y"
    by (rule inj_mult [where d = "0xa81e14edd9de2c7f"]) simp
  then have "x * 0x87c37b91114253d5 = y * 0x87c37b91114253d5"
    by (rule rotl64_inject) simp
  then have "x = y"
    by (rule inj_mult [where d = "0xa98409e882ce4d7d"]) simp
  with assms show False
    by simp
qed

theorem murmur_x64_128_no_collision_witness:
  "(1::u64) \<noteq> 2 \<and> MurmurHash3_x64_128 (bytes64 1) 0 \<noteq> MurmurHash3_x64_128 (bytes64 2) 0"
  using murmur_x64_128_no_collision [of 1 2 0] by simp

end
