(* ===== verification/Arena.thy ===== *)
theory Arena
  imports Prelude
begin

text \<open>
  The buffer arena of \<^verbatim>\<open>src/finesse/communications/buffer.c\<close>: at most 64 buffers of one size behind a
  control page, handed out through a 64-bit allocation bitmap.  Sizes and addresses are
  natural numbers with the wrap-around of \<^verbatim>\<open>size_t\<close> and \<^verbatim>\<open>unsigned\<close> written out; the bitmap is a word.
  The search loop of the allocator is a partial function, because it does not end on every arena.
  The locale \<^verbatim>\<open>buffer_pool\<close> is the contract of an allocator of numbered slots; the
  shared memory region is its second implementation.
\<close>

section \<open>Slots of a bitmap\<close>

definition make_mask64 :: "nat \<Rightarrow> u64" where
  "make_mask64 index = push_bit index 1"

definition slots :: "u64 \<Rightarrow> nat set" where
  "slots w = {i. bit w i}"

lemma bit_mask64 [simp]: "bit (make_mask64 i) j \<longleftrightarrow> j = i \<and> i < 64"
  by (auto simp: make_mask64_def bit_simps)

lemma bit_or_mask64: "bit (w OR make_mask64 i) j \<longleftrightarrow> bit w j \<or> (j = i \<and> i < 64)"
  by (auto simp: bit_simps)

lemma bit_clear_mask64: "bit (w AND NOT (make_mask64 i)) j \<longleftrightarrow> bit w j \<and> j \<noteq> i"
  using bit_clear_unset [of w i j] by (simp add: make_mask64_def)

lemma slots_less: "i \<in> slots w \<Longrightarrow> i < 64"
  by (auto simp: slots_def dest: bit_imp_le_length)

lemma slots_set [simp]: "i < 64 \<Longrightarrow> slots (w OR make_mask64 i) = insert i (slots w)"
  by (auto simp: slots_def bit_or_mask64)

lemma slots_clear [simp]: "slots (w AND NOT (make_mask64 i)) = slots w - {i}"
  by (auto simp: slots_def bit_clear_mask64)

lemma slots_clear' [simp]: "slots (NOT (make_mask64 i) AND w) = slots w - {i}"
  by (simp add: and.commute)

lemma slots_zero [simp]: "slots 0 = {}"
  by (simp add: slots_def)

lemma slots_inject: "slots v = slots w \<Longrightarrow> v = w"
  by (rule bit_word_eqI) (auto simp: slots_def)

lemma slots_empty_iff: "slots w = {} \<longleftrightarrow> w = 0"
  using slots_inject [of w 0] by auto

lemma or_mask64_same_iff: "i < 64 \<Longrightarrow> w OR make_mask64 i = w \<longleftrightarrow> i \<in> slots w"
  by (metis insert_absorb insertI1 slots_inject slots_set)

lemma and_mask64_iff: "w AND make_mask64 i = 0 \<longleftrightarrow> i \<notin> slots w"
proof -
  have "slots (w AND make_mask64 i) = (if i \<in> slots w then {i} else {})"
    by (auto simp: slots_def bit_simps dest: bit_imp_le_length)
  then show ?thesis
    using slots_empty_iff [of "w AND make_mask64 i"] by (auto split: if_splits)
qed

lemma and_mask64_iff': "make_mask64 i AND w = 0 \<longleftrightarrow> i \<notin> slots w"
  by (simp add: and.commute and_mask64_iff)

lemma clear_same_iff: "w AND NOT (make_mask64 i) = w \<longleftrightarrow> i \<notin> slots w"
  by (metis Diff_empty Diff_iff Diff_insert0 insertI1 slots_clear slots_inject)

lemma slots_full_iff: "w = NOT 0 \<longleftrightarrow> {..<64} \<subseteq> slots w"
proof
  assume "{..<64} \<subseteq> slots w"
  then have "bit w i = bit (NOT 0 :: u64) i" if "i < 64" for i
    using that by (auto simp: slots_def bit_simps subset_iff)
  then show "w = NOT 0"
    by (intro bit_word_eqI) simp
qed (auto simp: slots_def bit_simps)

section \<open>The arena\<close>

record fincomm_arena_info =
  Name :: string
  Size :: nat
  Count :: nat
  Offset :: nat
  AllocationBitmap :: u64
  LastAllocated :: nat

text \<open>\<^verbatim>\<open>ArenaBase\<close> is the address at which the arena is mapped, the value of the pointer \<^verbatim>\<open>Arena\<close>.\<close>

record fincomm_arena_handle =
  Signature_ok :: bool
  ArenaBase :: nat
  ArenaInfo :: "fincomm_arena_info option"
  FileDescriptor :: int

abbreviation ARENA_CONTROL_AREA_SIZE :: nat where "ARENA_CONTROL_AREA_SIZE \<equiv> 4096"

text \<open>
  \<^verbatim>\<open>fd\<close>, \<^verbatim>\<open>base\<close> and \<^verbatim>\<open>existing\<close> are what the operating system returns: the descriptor, the
  address of the mapping, and the contents of the file if it is not empty.
\<close>

definition FincommCreateArena ::
  "int \<Rightarrow> nat \<Rightarrow> fincomm_arena_info option \<Rightarrow> string \<Rightarrow> nat \<Rightarrow> nat \<Rightarrow> fincomm_arena_handle option" where
  "FincommCreateArena fd base existing name BufferSize count = do {
     let BufferSize = (if BufferSize = 0 then 64 * 1024 * 1024 else BufferSize);
     let count = (if count = 0 then 64 else count);
     let ArenaSize = (ARENA_CONTROL_AREA_SIZE + BufferSize * count) mod 2 ^ 64;
     c_assert (ArenaSize > ARENA_CONTROL_AREA_SIZE);
     c_assert (count \<le> 64);
     c_assert (length name < 1024);
     c_assert (fd \<ge> 0);
     let info = (case existing of
         Some info \<Rightarrow> info
       | None \<Rightarrow> \<lparr>Name = name, Size = BufferSize, Count = count, Offset = ARENA_CONTROL_AREA_SIZE,
                  AllocationBitmap = 0, LastAllocated = count - 1\<rparr>);
     c_assert (name = Name info);
     c_assert (Size info = BufferSize);
     c_assert (Count info = count);
     c_assert (Offset info = ARENA_CONTROL_AREA_SIZE);
     Some \<lparr>Signature_ok = True, ArenaBase = base, ArenaInfo = Some info, FileDescriptor = fd\<rparr>
   }"

definition arena_of :: "fincomm_arena_handle \<Rightarrow> fincomm_arena_info option" where
  "arena_of h = do {
     c_assert (Signature_ok h);
     info \<leftarrow> ArenaInfo h;
     c_assert (FileDescriptor h \<ge> 0);
     Some info
   }"

text \<open>Releasing an arena frees the handle: the result is the number of bytes unmapped.\<close>

definition FincommReleaseArena :: "fincomm_arena_handle \<Rightarrow> nat option" where
  "FincommReleaseArena h = do {
     info \<leftarrow> arena_of h;
     Some ((ARENA_CONTROL_AREA_SIZE + Size info * Count info) mod 2 ^ 64)
   }"

definition buffer_address :: "fincomm_arena_handle \<Rightarrow> fincomm_arena_info \<Rightarrow> nat \<Rightarrow> nat" where
  "buffer_address h info index = (ArenaBase h + Offset info + index * Size info) mod 2 ^ 64"

partial_function (option) allocate_loop ::
  "fincomm_arena_info \<Rightarrow> nat \<Rightarrow> (nat option \<times> fincomm_arena_info) option" where
  "allocate_loop info index =
     (if NOT 0 = AllocationBitmap info then Some (None, info)
      else let old_bitmap = AllocationBitmap info;
               index = (index + 1) mod 2 ^ 32 mod Count info;
               new_bitmap = old_bitmap OR make_mask64 index
           in if old_bitmap = new_bitmap then allocate_loop info index
              else Some (Some index, info\<lparr>AllocationBitmap := new_bitmap, LastAllocated := index\<rparr>))"

definition FincommAllocateBuffer :: "fincomm_arena_handle \<Rightarrow> (nat \<times> fincomm_arena_handle) option" where
  "FincommAllocateBuffer h = do {
     info \<leftarrow> arena_of h;
     (slot, info') \<leftarrow> allocate_loop info (LastAllocated info);
     Some (case slot of None \<Rightarrow> NULL | Some index \<Rightarrow> buffer_address h info' index, h\<lparr>ArenaInfo := Some info'\<rparr>)
   }"

definition FincommGetBufferOffset :: "fincomm_arena_handle \<Rightarrow> nat \<Rightarrow> nat option" where
  "FincommGetBufferOffset h Buffer = do {
     info \<leftarrow> arena_of h;
     let StartOfArena = (ArenaBase h + ARENA_CONTROL_AREA_SIZE) mod 2 ^ 64;
     let EndOfArena = (StartOfArena + Size info * (Count info - 1)) mod 2 ^ 64;
     c_assert (Buffer \<ge> StartOfArena \<and> Buffer \<le> EndOfArena);
     Some (Buffer - StartOfArena)
   }"

definition FincommFreeBuffer :: "fincomm_arena_handle \<Rightarrow> nat \<Rightarrow> fincomm_arena_handle option" where
  "FincommFreeBuffer h Buffer = do {
     info \<leftarrow> arena_of h;
     offset \<leftarrow> FincommGetBufferOffset h Buffer;
     c_assert ((ArenaBase h + ARENA_CONTROL_AREA_SIZE + offset) mod 2 ^ 64 = Buffer);
     let index = offset div Size info;
     c_assert ((ArenaBase h + ARENA_CONTROL_AREA_SIZE + index * Size info) mod 2 ^ 64 = Buffer);
     c_assert (make_mask64 index AND AllocationBitmap info \<noteq> 0);
     let new_bitmap = NOT (make_mask64 index) AND AllocationBitmap info;
     c_assert (AllocationBitmap info \<noteq> new_bitmap);
     Some (h\<lparr>ArenaInfo := Some (info\<lparr>AllocationBitmap := new_bitmap\<rparr>)\<rparr>)
   }"

text \<open>
  The bytes that \<^verbatim>\<open>FincommGetArenaInfo\<close> writes to the caller's name buffer, with the
  size and the count of the buffers.  The zero byte that ends the name is \<^verbatim>\<open>CHR 0x00\<close>.
\<close>

definition FincommGetArenaInfo :: "fincomm_arena_handle \<Rightarrow> nat \<Rightarrow> (string \<times> nat \<times> nat) option" where
  "FincommGetArenaInfo h NameSize = do {
     info \<leftarrow> arena_of h;
     let NameSize = (if NameSize \<ge> length (Name info) then length (Name info) + 1 else NameSize);
     Some (take NameSize (Name info @ [CHR 0x00]), Size info, Count info)
   }"

section \<open>The allocator loop\<close>

definition arena_ok :: "fincomm_arena_info \<Rightarrow> bool" where
  "arena_ok info = (0 < Count info \<and> Count info \<le> 64 \<and> 0 < Size info \<and> LastAllocated info < Count info
     \<and> Offset info = ARENA_CONTROL_AREA_SIZE \<and> slots (AllocationBitmap info) \<subseteq> {..<Count info})"

definition fits :: "fincomm_arena_handle \<Rightarrow> fincomm_arena_info \<Rightarrow> bool" where
  "fits h info = (0 < ArenaBase h \<and> ArenaBase h + ARENA_CONTROL_AREA_SIZE + Size info * Count info < 2 ^ 64)"

lemma allocate_loop_step:
  assumes "Count info \<le> 64" and "0 < Count info" and "index < Count info"
    and "AllocationBitmap info \<noteq> NOT 0"
  shows "allocate_loop info index =
    (let i = (index + 1) mod Count info in
     if i \<in> slots (AllocationBitmap info) then allocate_loop info i
     else Some (Some i, info\<lparr>AllocationBitmap := AllocationBitmap info OR make_mask64 i, LastAllocated := i\<rparr>))"
proof -
  have "(index + 1) mod Count info < 64"
    using assms by (meson mod_less_divisor order_less_le_trans)
  moreover have "(index + 1) mod 2 ^ 32 = index + 1"
    using assms by simp
  ultimately show ?thesis
    using assms(4) or_mask64_same_iff [of "(index + 1) mod Count info" "AllocationBitmap info"]
    by (subst allocate_loop.simps) (simp add: Let_def eq_commute)
qed

text \<open>The loop stops at the first free slot in cyclic order, if there is one.\<close>

lemma allocate_loop_finds:
  assumes "Count info \<le> 64" and "0 < Count info" and "AllocationBitmap info \<noteq> NOT 0"
    and "index < Count info"
    and "(index + Suc d) mod Count info \<notin> slots (AllocationBitmap info)"
    and "\<forall>e < d. (index + Suc e) mod Count info \<in> slots (AllocationBitmap info)"
  shows "allocate_loop info index =
    (let i = (index + Suc d) mod Count info in
     Some (Some i, info\<lparr>AllocationBitmap := AllocationBitmap info OR make_mask64 i, LastAllocated := i\<rparr>))"
  using assms(4-6)
proof (induction d arbitrary: index)
  case 0
  with allocate_loop_step [OF assms(1,2) 0(1) assms(3)] show ?case
    by (simp add: Let_def)
next
  case (Suc d)
  let ?i = "(index + 1) mod Count info"
  have shift: "(?i + Suc e) mod Count info = (index + Suc (Suc e)) mod Count info" for e
    using mod_add_left_eq [of "index + 1" "Count info" "Suc e"] by simp
  have "?i \<in> slots (AllocationBitmap info)"
    using Suc.prems(3) [rule_format, of 0] by simp
  then have "allocate_loop info index = allocate_loop info ?i"
    using allocate_loop_step [OF assms(1,2) Suc.prems(1) assms(3)] by (simp add: Let_def)
  moreover have "?i < Count info"
    using assms(2) by simp
  moreover have "\<forall>e<d. (?i + Suc e) mod Count info \<in> slots (AllocationBitmap info)"
    unfolding shift using Suc.prems(3) [rule_format, of "Suc _"] by blast
  moreover have "(?i + Suc d) mod Count info \<notin> slots (AllocationBitmap info)"
    unfolding shift by (rule Suc.prems(2))
  ultimately show ?case
    using Suc.IH [of ?i] unfolding shift by simp
qed

lemma cyclic_first:
  fixes n :: nat
  assumes "0 < n" and "k < n" and "P k" and "index < n"
  obtains d where "P ((index + Suc d) mod n)" and "\<forall>e<d. \<not> P ((index + Suc e) mod n)"
proof -
  have "P ((index + Suc (k + n - index - 1)) mod n)"
    using assms by (simp add: Suc_diff_Suc)
  then have "\<exists>d. P ((index + Suc d) mod n)"
    by blast
  then show ?thesis
    using that exists_least_iff [of "\<lambda>d. P ((index + Suc d) mod n)"] by blast
qed

lemma allocate_loop_free:
  assumes "arena_ok info" and "i < Count info" and "i \<notin> slots (AllocationBitmap info)"
  obtains j where "j < Count info" and "j \<notin> slots (AllocationBitmap info)"
    and "allocate_loop info (LastAllocated info) =
       Some (Some j, info\<lparr>AllocationBitmap := AllocationBitmap info OR make_mask64 j, LastAllocated := j\<rparr>)"
proof -
  let ?n = "Count info"
  have n: "0 < ?n" "?n \<le> 64" "LastAllocated info < ?n"
    using assms(1) by (auto simp: arena_ok_def)
  have nf: "AllocationBitmap info \<noteq> NOT 0"
    using assms(2,3) n(2) unfolding slots_full_iff by (meson lessThan_iff order_less_le_trans subsetD)
  obtain d where d: "(LastAllocated info + Suc d) mod ?n \<notin> slots (AllocationBitmap info)"
    "\<forall>e<d. (LastAllocated info + Suc e) mod ?n \<in> slots (AllocationBitmap info)"
    using cyclic_first [OF n(1) assms(2) _ n(3), of "\<lambda>j. j \<notin> slots (AllocationBitmap info)"] assms(3) by auto
  from allocate_loop_finds [OF n(2,1) nf n(3) d] d(1) n(1) show ?thesis
    by (intro that [of "(LastAllocated info + Suc d) mod ?n"]) (auto simp: Let_def)
qed

lemma allocate_loop_full:
  assumes "AllocationBitmap info = NOT 0"
  shows "allocate_loop info index = Some (None, info)"
  using assms by (subst allocate_loop.simps) simp

text \<open>
  With fewer than 64 buffers the unused bits of the bitmap are never set, so the loop does not see
  that the arena is full and goes round for ever.
\<close>

lemma allocate_loop_diverges:
  assumes "arena_ok info" and "Count info < 64" and "{..<Count info} \<subseteq> slots (AllocationBitmap info)"
    and "index < Count info"
  shows "allocate_loop info index = None"
proof -
  have False if "allocate_loop info index = Some r" for r
  proof -
    from that have "\<not> (Count info < 64 \<and> arena_ok info \<and> {..<Count info} \<subseteq> slots (AllocationBitmap info) \<and> index < Count info)"
    proof (rule allocate_loop.raw_induct [rotated])
      fix f info index r
      assume IH: "\<And>info index r. f info index = Some r \<Longrightarrow>
          \<not> (Count info < 64 \<and> arena_ok info \<and> {..<Count info} \<subseteq> slots (AllocationBitmap info) \<and> index < Count info)"
        and body: "(if NOT 0 = AllocationBitmap info then Some (None, info)
          else let old_bitmap = AllocationBitmap info; index = (index + 1) mod 2 ^ 32 mod Count info;
                   new_bitmap = old_bitmap OR make_mask64 index
               in if old_bitmap = new_bitmap then f info index
                  else Some (Some index, info\<lparr>AllocationBitmap := new_bitmap, LastAllocated := index\<rparr>)) = Some r"
      show "\<not> (Count info < 64 \<and> arena_ok info \<and> {..<Count info} \<subseteq> slots (AllocationBitmap info) \<and> index < Count info)"
      proof
        assume a: "Count info < 64 \<and> arena_ok info \<and> {..<Count info} \<subseteq> slots (AllocationBitmap info) \<and> index < Count info"
        let ?i = "(index + 1) mod 2 ^ 32 mod Count info"
        have i: "?i < Count info" and "?i < 64"
          using a by (auto simp: arena_ok_def intro: order_less_trans [OF mod_less_divisor])
        have "Count info \<notin> slots (AllocationBitmap info)"
          using a by (auto simp: arena_ok_def)
        then have "NOT 0 \<noteq> AllocationBitmap info"
          using a slots_full_iff [of "AllocationBitmap info"] by (metis lessThan_iff subsetD)
        moreover have "AllocationBitmap info OR make_mask64 ?i = AllocationBitmap info"
          using a i \<open>?i < 64\<close> by (subst or_mask64_same_iff) auto
        ultimately have "f info ?i = Some r"
          using body by (simp add: Let_def)
        from IH [OF this] a i show False
          by blast
      qed
    qed
    with assms show False
      by blast
  qed
  then show ?thesis
    by (cases "allocate_loop info index") auto
qed

section \<open>Addresses\<close>

definition handle_ok :: "fincomm_arena_handle \<Rightarrow> bool" where
  "handle_ok h = (case arena_of h of None \<Rightarrow> False | Some info \<Rightarrow> arena_ok info \<and> fits h info)"

definition arena_buffers :: "fincomm_arena_handle \<Rightarrow> nat set" where
  "arena_buffers h = (case ArenaInfo h of None \<Rightarrow> {} | Some info \<Rightarrow> buffer_address h info ` {..<Count info})"

definition arena_owned :: "fincomm_arena_handle \<Rightarrow> nat set" where
  "arena_owned h = (case ArenaInfo h of None \<Rightarrow> {} | Some info \<Rightarrow> buffer_address h info ` slots (AllocationBitmap info))"

lemma handle_okE:
  assumes "handle_ok h"
  obtains info where "ArenaInfo h = Some info" "arena_of h = Some info" "arena_ok info" "fits h info"
    "Signature_ok h" "FileDescriptor h \<ge> 0"
proof -
  from assms obtain info where info: "arena_of h = Some info" "arena_ok info" "fits h info"
    by (auto simp: handle_ok_def split: option.splits)
  moreover have "ArenaInfo h = Some info" "Signature_ok h" "FileDescriptor h \<ge> 0"
    using info(1) by (auto simp: arena_of_def split: if_splits elim!: bind_eq_SomeE)
  ultimately show ?thesis
    using that by blast
qed

lemma buffer_address_upd [simp]:
  "buffer_address (h\<lparr>ArenaInfo := x\<rparr>) = buffer_address h"
  "buffer_address h (info\<lparr>AllocationBitmap := w\<rparr>) = buffer_address h info"
  "buffer_address h (info\<lparr>LastAllocated := n\<rparr>) = buffer_address h info"
  by (simp_all add: fun_eq_iff buffer_address_def)

lemma slot_in_range:
  assumes "fits h info" "i \<le> Count info"
  shows "ArenaBase h + ARENA_CONTROL_AREA_SIZE + i * Size info < 2 ^ 64"
proof -
  have "i * Size info \<le> Count info * Size info"
    using assms(2) by (rule mult_le_mono1)
  moreover have "ArenaBase h + ARENA_CONTROL_AREA_SIZE + Count info * Size info < 2 ^ 64"
    using assms(1) by (simp only: fits_def mult.commute)
  ultimately show ?thesis
    by linarith
qed

lemma buffer_address_eq:
  assumes "arena_ok info" "fits h info" "i < Count info"
  shows "buffer_address h info i = ArenaBase h + ARENA_CONTROL_AREA_SIZE + i * Size info"
  using slot_in_range [OF assms(2), of i] assms by (simp add: buffer_address_def arena_ok_def)

lemma buffer_address_inj:
  assumes "arena_ok info" "fits h info"
  shows "inj_on (buffer_address h info) {..<Count info}"
  using assms by (intro inj_onI) (auto simp: buffer_address_eq arena_ok_def)

text \<open>Two buffers do not overlap.\<close>

lemma buffers_disjoint:
  assumes "arena_ok info" "fits h info" "i < j" "j < Count info"
  shows "buffer_address h info i + Size info \<le> buffer_address h info j"
proof -
  have "i * Size info + Size info = Suc i * Size info"
    by simp
  also have "\<dots> \<le> j * Size info"
    using assms(3) by (intro mult_le_mono1) simp
  finally show ?thesis
    using assms by (simp add: buffer_address_eq)
qed

lemma AllocateBuffer_free:
  assumes "handle_ok h" and "arena_owned h \<noteq> arena_buffers h"
  obtains b h' where "FincommAllocateBuffer h = Some (b, h')" "b \<noteq> NULL" "b \<in> arena_buffers h" "b \<notin> arena_owned h"
    "handle_ok h'" "arena_owned h' = insert b (arena_owned h)" "arena_buffers h' = arena_buffers h"
proof -
  from assms(1) obtain info where info: "ArenaInfo h = Some info" "arena_of h = Some info" "arena_ok info" "fits h info"
    "Signature_ok h" "FileDescriptor h \<ge> 0"
    by (rule handle_okE)
  have sub: "slots (AllocationBitmap info) \<subseteq> {..<Count info}"
    using info(3) by (simp add: arena_ok_def)
  with assms(2) info(1) obtain i where "i < Count info" "i \<notin> slots (AllocationBitmap info)"
    by (auto simp: arena_owned_def arena_buffers_def)
  with info(3) obtain j where j: "j < Count info" "j \<notin> slots (AllocationBitmap info)"
    and r: "allocate_loop info (LastAllocated info) =
       Some (Some j, info\<lparr>AllocationBitmap := AllocationBitmap info OR make_mask64 j, LastAllocated := j\<rparr>)"
    by (rule allocate_loop_free)
  let ?info = "info\<lparr>AllocationBitmap := AllocationBitmap info OR make_mask64 j, LastAllocated := j\<rparr>"
  have j64: "j < 64"
    using j(1) info(3) by (simp add: arena_ok_def)
  show ?thesis
  proof (rule that [of "buffer_address h info j" "h\<lparr>ArenaInfo := Some ?info\<rparr>"])
    show "FincommAllocateBuffer h = Some (buffer_address h info j, h\<lparr>ArenaInfo := Some ?info\<rparr>)"
      using r info(2) by (simp add: FincommAllocateBuffer_def)
    show "buffer_address h info j \<noteq> NULL"
      using buffer_address_eq [OF info(3,4) j(1)] by simp
    show "buffer_address h info j \<in> arena_buffers h"
      using info(1) j(1) by (simp add: arena_buffers_def)
    show "buffer_address h info j \<notin> arena_owned h"
      using inj_on_image_mem_iff [OF buffer_address_inj [OF info(3,4)], of j "slots (AllocationBitmap info)"]
        info(1) j sub by (auto simp: arena_owned_def)
    show "handle_ok (h\<lparr>ArenaInfo := Some ?info\<rparr>)"
      using info j j64 by (auto simp: handle_ok_def arena_of_def arena_ok_def fits_def)
    show "arena_owned (h\<lparr>ArenaInfo := Some ?info\<rparr>) = insert (buffer_address h info j) (arena_owned h)"
      using info(1) j64 by (simp add: arena_owned_def)
    show "arena_buffers (h\<lparr>ArenaInfo := Some ?info\<rparr>) = arena_buffers h"
      using info(1) by (simp add: arena_buffers_def)
  qed
qed

lemma FreeBuffer_owned:
  assumes "handle_ok h" and "b \<in> arena_owned h"
  obtains h' where "FincommFreeBuffer h b = Some h'" "handle_ok h'" "arena_owned h' = arena_owned h - {b}"
    "arena_buffers h' = arena_buffers h"
proof -
  from assms(1) obtain info where info: "ArenaInfo h = Some info" "arena_of h = Some info" "arena_ok info" "fits h info"
    "Signature_ok h" "FileDescriptor h \<ge> 0"
    by (rule handle_okE)
  have sub: "slots (AllocationBitmap info) \<subseteq> {..<Count info}" and sz: "0 < Size info"
    using info(3) by (simp_all add: arena_ok_def)
  with assms(2) info(1) obtain j where j: "j \<in> slots (AllocationBitmap info)" "j < Count info" "b = buffer_address h info j"
    by (auto simp: arena_owned_def)
  let ?info = "info\<lparr>AllocationBitmap := NOT (make_mask64 j) AND AllocationBitmap info\<rparr>"
  have b: "b = ArenaBase h + ARENA_CONTROL_AREA_SIZE + j * Size info"
    using buffer_address_eq [OF info(3,4) j(2)] j(3) by simp
  have le: "j * Size info \<le> (Count info - 1) * Size info"
    using j(2) by (intro mult_le_mono1) simp
  have bound: "ArenaBase h + ARENA_CONTROL_AREA_SIZE + (Count info - 1) * Size info < 2 ^ 64"
    by (rule slot_in_range [OF info(4)]) simp
  have range: "ArenaBase h + ARENA_CONTROL_AREA_SIZE + j * Size info < 2 ^ 64"
    using le bound by linarith
  have off: "FincommGetBufferOffset h b = Some (j * Size info)"
    using info(2) bound range le b by (simp add: FincommGetBufferOffset_def Let_def mult.commute [of "Size info"])
  have clear: "AllocationBitmap info \<noteq> NOT (make_mask64 j) AND AllocationBitmap info"
    using j(1) clear_same_iff [of "AllocationBitmap info" j] by (simp add: and.commute)
  have mask: "make_mask64 j AND AllocationBitmap info \<noteq> 0"
    using j(1) by (simp add: and_mask64_iff')
  show ?thesis
  proof (rule that [of "h\<lparr>ArenaInfo := Some ?info\<rparr>"])
    show "FincommFreeBuffer h b = Some (h\<lparr>ArenaInfo := Some ?info\<rparr>)"
      using info(2) off range b clear mask sz by (simp add: FincommFreeBuffer_def Let_def)
    show "handle_ok (h\<lparr>ArenaInfo := Some ?info\<rparr>)"
      using info by (auto simp: handle_ok_def arena_of_def arena_ok_def fits_def)
    show "arena_owned (h\<lparr>ArenaInfo := Some ?info\<rparr>) = arena_owned h - {b}"
      using inj_on_image_set_diff [OF buffer_address_inj [OF info(3,4)], of "slots (AllocationBitmap info)" "{j}"] sub info(1) j
      by (auto simp: arena_owned_def)
    show "arena_buffers (h\<lparr>ArenaInfo := Some ?info\<rparr>) = arena_buffers h"
      using info(1) by (simp add: arena_buffers_def)
  qed
qed

section \<open>The interface of an allocator\<close>

locale buffer_pool =
  fixes invar :: "'s \<Rightarrow> bool"
    and bufs :: "'s \<Rightarrow> 'b set"
    and owned :: "'s \<Rightarrow> 'b set"
    and alloc :: "'s \<Rightarrow> ('b \<times> 's) option"
    and release :: "'s \<Rightarrow> 'b \<Rightarrow> 's option"
  assumes pool_law: "invar s \<Longrightarrow> finite (bufs s) \<and> owned s \<subseteq> bufs s"
    and alloc_law: "\<lbrakk>invar s; owned s \<noteq> bufs s\<rbrakk> \<Longrightarrow>
      \<exists>b s'. alloc s = Some (b, s') \<and> b \<in> bufs s - owned s \<and> invar s'
        \<and> owned s' = insert b (owned s) \<and> bufs s' = bufs s"
    and release_law: "\<lbrakk>invar s; b \<in> owned s\<rbrakk> \<Longrightarrow>
      \<exists>s'. release s b = Some s' \<and> invar s' \<and> owned s' = owned s - {b} \<and> bufs s' = bufs s"
begin

fun alloc_many :: "nat \<Rightarrow> 's \<Rightarrow> ('b list \<times> 's) option" where
  "alloc_many 0 s = Some ([], s)"
| "alloc_many (Suc n) s = do { (b, s) \<leftarrow> alloc s; (bs, s) \<leftarrow> alloc_many n s; Some (b # bs, s) }"

fun release_all :: "'b list \<Rightarrow> 's \<Rightarrow> 's option" where
  "release_all [] s = Some s"
| "release_all (b # bs) s = Option.bind (release s b) (release_all bs)"

lemma alloc_many_distinct:
  assumes "invar s" and "card (owned s) + n \<le> card (bufs s)"
  shows "\<exists>bs s'. alloc_many n s = Some (bs, s') \<and> length bs = n \<and> distinct bs
    \<and> set bs \<subseteq> bufs s - owned s \<and> owned s' = owned s \<union> set bs \<and> bufs s' = bufs s \<and> invar s'"
  using assms
proof (induction n arbitrary: s)
  case (Suc n)
  have fin: "finite (bufs s)" "owned s \<subseteq> bufs s"
    using pool_law [OF Suc.prems(1)] by auto
  have "owned s \<noteq> bufs s"
    using Suc.prems(2) by auto
  with Suc.prems(1) obtain b s1 where b: "alloc s = Some (b, s1)" "b \<in> bufs s - owned s" "invar s1"
    "owned s1 = insert b (owned s)" "bufs s1 = bufs s"
    using alloc_law by blast
  have "card (owned s1) = Suc (card (owned s))"
    using b fin finite_subset [OF fin(2,1)] by simp
  with Suc.IH [OF b(3)] Suc.prems(2) b(5) obtain bs s2
    where "alloc_many n s1 = Some (bs, s2)" "length bs = n" "distinct bs"
      "set bs \<subseteq> bufs s1 - owned s1" "owned s2 = owned s1 \<union> set bs" "bufs s2 = bufs s1" "invar s2"
    by auto
  with b show ?case
    by (intro exI [of _ "b # bs"] exI [of _ s2]) auto
qed simp

lemma release_all_owned:
  assumes "invar s" and "distinct bs" and "set bs \<subseteq> owned s"
  shows "\<exists>s'. release_all bs s = Some s' \<and> invar s' \<and> owned s' = owned s - set bs \<and> bufs s' = bufs s"
  using assms
proof (induction bs arbitrary: s)
  case (Cons b bs)
  then obtain s1 where s1: "release s b = Some s1" "invar s1" "owned s1 = owned s - {b}" "bufs s1 = bufs s"
    using release_law [of s b] by auto
  moreover from Cons.IH [OF s1(2)] Cons.prems s1(3) obtain s2
    where "release_all bs s1 = Some s2" "invar s2" "owned s2 = owned s1 - set bs" "bufs s2 = bufs s1"
    by auto
  ultimately show ?case
    by auto
qed simp

lemma alloc_release_round_trip:
  assumes "invar s" and "owned s \<noteq> bufs s"
  shows "\<exists>b s1 s2. alloc s = Some (b, s1) \<and> b \<notin> owned s \<and> release s1 b = Some s2 \<and> invar s2
    \<and> owned s2 = owned s \<and> bufs s2 = bufs s"
proof -
  from alloc_law [OF assms] obtain b s1 where b: "alloc s = Some (b, s1)" "b \<in> bufs s - owned s" "invar s1"
    "owned s1 = insert b (owned s)" "bufs s1 = bufs s"
    by blast
  moreover from release_law [OF b(3), of b] b(2,4) obtain s2
    where "release s1 b = Some s2" "invar s2" "owned s2 = owned s" "bufs s2 = bufs s1"
    by auto
  ultimately show ?thesis
    by auto
qed

end

interpretation ap: buffer_pool handle_ok arena_buffers arena_owned FincommAllocateBuffer FincommFreeBuffer
proof unfold_locales
  fix h
  assume "handle_ok h"
  then obtain info where "ArenaInfo h = Some info" "arena_ok info"
    by (rule handle_okE)
  then show "finite (arena_buffers h) \<and> arena_owned h \<subseteq> arena_buffers h"
    by (auto simp: arena_buffers_def arena_owned_def arena_ok_def)
next
  fix h
  assume "handle_ok h" "arena_owned h \<noteq> arena_buffers h"
  then show "\<exists>b h'. FincommAllocateBuffer h = Some (b, h') \<and> b \<in> arena_buffers h - arena_owned h \<and> handle_ok h'
      \<and> arena_owned h' = insert b (arena_owned h) \<and> arena_buffers h' = arena_buffers h"
    by (rule AllocateBuffer_free) auto
next
  fix h b
  assume "handle_ok h" "b \<in> arena_owned h"
  then show "\<exists>h'. FincommFreeBuffer h b = Some h' \<and> handle_ok h' \<and> arena_owned h' = arena_owned h - {b}
      \<and> arena_buffers h' = arena_buffers h"
    by (rule FreeBuffer_owned) auto
qed

lemma arena_full_alloc:
  assumes "handle_ok h" and "arena_owned h = arena_buffers h"
  shows "FincommAllocateBuffer h = (if the (map_option Count (ArenaInfo h)) = 64 then Some (NULL, h) else None)"
proof -
  from assms(1) obtain info where info: "ArenaInfo h = Some info" "arena_of h = Some info" "arena_ok info" "fits h info"
    by (rule handle_okE)
  have sub: "slots (AllocationBitmap info) \<subseteq> {..<Count info}"
    using info(3) by (simp add: arena_ok_def)
  with assms(2) info(1) have full: "{..<Count info} = slots (AllocationBitmap info)"
    using inj_on_image_eq_iff [OF buffer_address_inj [OF info(3,4)], of "slots (AllocationBitmap info)" "{..<Count info}"]
    by (auto simp: arena_owned_def arena_buffers_def)
  show ?thesis
  proof (cases "Count info = 64")
    case True
    then have "AllocationBitmap info = NOT 0"
      using full slots_full_iff [of "AllocationBitmap info"] by simp
    then have "allocate_loop info (LastAllocated info) = Some (None, info)"
      by (rule allocate_loop_full)
    with True info show ?thesis
      by (simp add: FincommAllocateBuffer_def)
  next
    case False
    then have "allocate_loop info (LastAllocated info) = None"
      using info(3) full by (intro allocate_loop_diverges) (auto simp: arena_ok_def)
    with False info show ?thesis
      by (simp add: FincommAllocateBuffer_def)
  qed
qed

lemma CreateArena_ok:
  assumes "FincommCreateArena fd base None name sz n = Some h"
    and "0 < base" and "sz \<noteq> 0" and "n \<noteq> 0" and "base + ARENA_CONTROL_AREA_SIZE + sz * n < 2 ^ 64"
  shows "handle_ok h" "arena_owned h = {}" "card (arena_buffers h) = n"
    "\<exists>info. ArenaInfo h = Some info \<and> Count info = n"
proof -
  let ?info = "\<lparr>Name = name, Size = sz, Count = n, Offset = ARENA_CONTROL_AREA_SIZE,
                AllocationBitmap = 0, LastAllocated = n - 1\<rparr>"
  have h: "h = \<lparr>Signature_ok = True, ArenaBase = base, ArenaInfo = Some ?info, FileDescriptor = fd\<rparr>"
    and n: "n \<le> 64" and fd: "0 \<le> fd"
    using assms by (auto simp: FincommCreateArena_def Let_def split: if_splits)
  have ok: "arena_ok ?info" "fits h ?info"
    using assms n by (auto simp: arena_ok_def fits_def h)
  show "handle_ok h"
    using ok fd by (simp add: handle_ok_def arena_of_def h)
  show "arena_owned h = {}"
    by (simp add: arena_owned_def h)
  show "card (arena_buffers h) = n"
    using card_image [OF buffer_address_inj [OF ok]] by (simp add: arena_buffers_def h)
  show "\<exists>info. ArenaInfo h = Some info \<and> Count info = n"
    by (simp add: h)
qed

section \<open>Properties\<close>

text \<open>
  C19: a fresh arena of \<^verbatim>\<open>n\<close> buffers hands out \<^verbatim>\<open>n\<close> pairwise different buffers, all within the
  arena and none of them null; the next request returns a null pointer if the arena has 64 buffers,
  and does not return at all if it has fewer.
\<close>

theorem arena_hands_out_all_buffers:
  assumes "FincommCreateArena fd base None name sz n = Some h"
    and "0 < base" and "sz \<noteq> 0" and "n \<noteq> 0" and "base + ARENA_CONTROL_AREA_SIZE + sz * n < 2 ^ 64"
  shows "\<exists>bs h'. ap.alloc_many n h = Some (bs, h') \<and> length bs = n \<and> distinct bs
           \<and> set bs \<subseteq> arena_buffers h
           \<and> FincommAllocateBuffer h' = (if n = 64 then Some (NULL, h') else None)"
proof -
  note c = CreateArena_ok [OF assms]
  obtain bs h' where b: "ap.alloc_many n h = Some (bs, h')" "length bs = n" "distinct bs"
    "set bs \<subseteq> arena_buffers h - arena_owned h" "arena_owned h' = arena_owned h \<union> set bs"
    "arena_buffers h' = arena_buffers h" "handle_ok h'"
    using ap.alloc_many_distinct [OF c(1), of n] c by auto
  have "card (set bs) = card (arena_buffers h)"
    using b(2,3) c(3) distinct_card by force
  then have full: "arena_owned h' = arena_buffers h'"
    using b c(1,2) ap.pool_law [OF c(1)] card_subset_eq [of "arena_buffers h" "set bs"] by auto
  obtain info where info: "ArenaInfo h' = Some info" "arena_ok info" "fits h' info"
    using b(7) by (rule handle_okE)
  have "Count info = n"
    using card_image [OF buffer_address_inj [OF info(2,3)]] b(6) c(3) info(1) by (simp add: arena_buffers_def)
  then show ?thesis
    using b arena_full_alloc [OF b(7) full] info(1) by auto
qed

theorem arena_hands_out_all_buffers_witness:
  "\<exists>h. FincommCreateArena 3 4096 None ''a'' 512 2 = Some h
     \<and> (\<exists>bs h'. ap.alloc_many 2 h = Some (bs, h') \<and> distinct bs \<and> FincommAllocateBuffer h' = None)"
proof -
  have "FincommCreateArena 3 4096 None ''a'' 512 2 \<noteq> None"
    by (simp add: FincommCreateArena_def)
  then obtain h where h: "FincommCreateArena 3 4096 None ''a'' 512 2 = Some h"
    by auto
  from arena_hands_out_all_buffers [OF h] h show ?thesis
    by auto
qed

text \<open>
  C20: allocating a buffer and freeing it leaves the set of owned buffers as it was; the
  buffer was not owned before, and it does not overlap any other buffer of the arena.
\<close>

theorem arena_alloc_free_round_trip:
  assumes "handle_ok h" and "arena_owned h \<noteq> arena_buffers h"
  shows "\<exists>b h1 h2. FincommAllocateBuffer h = Some (b, h1) \<and> b \<notin> arena_owned h
           \<and> FincommFreeBuffer h1 b = Some h2 \<and> handle_ok h2 \<and> arena_owned h2 = arena_owned h
           \<and> (\<forall>c \<in> arena_buffers h - {b}. \<forall>info. ArenaInfo h = Some info \<longrightarrow> c + Size info \<le> b \<or> b + Size info \<le> c)"
proof -
  obtain b h1 h2 where r: "FincommAllocateBuffer h = Some (b, h1)" "b \<notin> arena_owned h" "FincommFreeBuffer h1 b = Some h2"
    "handle_ok h2" "arena_owned h2 = arena_owned h"
    using ap.alloc_release_round_trip [OF assms] by auto
  from AllocateBuffer_free [OF assms] r(1) have b: "b \<in> arena_buffers h"
    by (metis option.inject prod.inject)
  obtain info where info: "ArenaInfo h = Some info" "arena_ok info" "fits h info"
    using assms(1) by (rule handle_okE)
  have "c + Size info \<le> b \<or> b + Size info \<le> c" if c: "c \<in> arena_buffers h - {b}" for c
  proof -
    obtain i j where "i < Count info" "j < Count info" "b = buffer_address h info i" "c = buffer_address h info j"
      using b c info(1) by (auto simp: arena_buffers_def)
    with c buffers_disjoint [OF info(2,3)] show ?thesis
      by (metis Diff_iff insertI1 nat_neq_iff)
  qed
  with r info(1) show ?thesis
    by auto
qed

theorem arena_alloc_free_round_trip_witness:
  "\<exists>h. handle_ok h \<and> arena_owned h \<noteq> arena_buffers h
     \<and> (\<exists>b h1 h2. FincommAllocateBuffer h = Some (b, h1) \<and> FincommFreeBuffer h1 b = Some h2 \<and> arena_owned h2 = {})"
proof -
  obtain h where h: "FincommCreateArena 3 4096 None ''a'' 512 2 = Some h"
    by (simp add: FincommCreateArena_def)
  have c: "handle_ok h" "arena_owned h = {}" "card (arena_buffers h) = 2"
    using CreateArena_ok [OF h] by simp_all
  then have "arena_owned h \<noteq> arena_buffers h"
    by auto
  with arena_alloc_free_round_trip [OF c(1)] c(1,2) show ?thesis
    by (intro exI [of _ h]) auto
qed

text \<open>
  C30: the name that the arena reports is written within the caller's buffer, except when the
  buffer is exactly as long as the name without its terminating zero: then one byte more than the buffer
  holds is written.
\<close>

theorem arena_info_overrun:
  assumes "arena_of h = Some info"
  shows "\<exists>bytes. FincommGetArenaInfo h NameSize = Some (bytes, Size info, Count info)
     \<and> (if NameSize = length (Name info) then length bytes = NameSize + 1 else length bytes \<le> NameSize)"
  using assms by (auto simp: FincommGetArenaInfo_def Let_def)

theorem arena_info_overrun_witness:
  "\<exists>h info. arena_of h = Some info \<and> Name info = ''a''
     \<and> (\<exists>bytes. FincommGetArenaInfo h 1 = Some (bytes, Size info, Count info) \<and> length bytes = Suc (Suc 0))"
proof -
  let ?i = "\<lparr>Name = ''a'', Size = 512, Count = 2, Offset = 4096, AllocationBitmap = 0, LastAllocated = 1\<rparr>"
  let ?h = "\<lparr>Signature_ok = True, ArenaBase = 4096, ArenaInfo = Some ?i, FileDescriptor = 3\<rparr>"
  have a: "arena_of ?h = Some ?i"
    by (simp add: arena_of_def)
  with arena_info_overrun [OF a, of 1] show ?thesis
    by (intro exI [of _ ?h] exI [of _ ?i]) simp
qed

end
