(* ===== verification/CallStats.thy ===== *)
theory CallStats
  imports Prelude
begin

text \<open>
  Call statistics of the bitbucket file system, \<^verbatim>\<open>src/finesse/bitbucket/calldata.c\<close> and
  \<^verbatim>\<open>src/finesse/bitbucket/bitbucketcalls.h\<close>: the arithmetic on \<^verbatim>\<open>struct timespec\<close>, the table of
  counters that every handler updates through \<^verbatim>\<open>BitbucketCountCall\<close>, and the computation of the
  space for the printed report.  Counters are 64-bit words; the seconds and nanoseconds are
  integers.
\<close>

section \<open>Time\<close>

record timespec =
  tv_sec :: int
  tv_nsec :: int

abbreviation NSEC_PER_SEC :: int where "NSEC_PER_SEC \<equiv> 1000000000"

definition timespec_diff :: "timespec \<Rightarrow> timespec \<Rightarrow> timespec option" where
  "timespec_diff begin end' = do {
     c_assert (tv_sec end' > tv_sec begin \<or> (tv_sec end' = tv_sec begin \<and> tv_nsec end' \<ge> tv_nsec begin));
     let sec = tv_sec end' - tv_sec begin;
     Some (if tv_nsec end' < tv_nsec begin
           then \<lparr>tv_sec = sec - 1, tv_nsec = NSEC_PER_SEC + tv_nsec end' - tv_nsec begin\<rparr>
           else \<lparr>tv_sec = sec, tv_nsec = 0\<rparr>)
   }"

text \<open>The loop that carries nanoseconds into seconds.\<close>

function carry_nsec :: "int \<Rightarrow> int \<Rightarrow> timespec" where
  "carry_nsec sec nsec =
     (if NSEC_PER_SEC \<le> nsec then carry_nsec (sec + 1) (nsec - NSEC_PER_SEC) else \<lparr>tv_sec = sec, tv_nsec = nsec\<rparr>)"
  by auto
termination
  by (relation "measure (\<lambda>(sec, nsec). nat nsec)") auto

declare carry_nsec.simps [simp del]

definition timespec_add :: "timespec \<Rightarrow> timespec \<Rightarrow> timespec" where
  "timespec_add one two = carry_nsec (tv_sec one + tv_sec two) (tv_nsec one + tv_nsec two)"

definition nanoseconds :: "timespec \<Rightarrow> int" where
  "nanoseconds t = tv_sec t * NSEC_PER_SEC + tv_nsec t"

definition normal_time :: "timespec \<Rightarrow> bool" where
  "normal_time t = (0 \<le> tv_nsec t \<and> tv_nsec t < NSEC_PER_SEC)"

lemma carry_nsec_spec:
  "0 \<le> nsec \<Longrightarrow> normal_time (carry_nsec sec nsec) \<and> nanoseconds (carry_nsec sec nsec) = sec * NSEC_PER_SEC + nsec"
proof (induction sec nsec rule: carry_nsec.induct)
  case (1 sec nsec)
  then show ?case
    by (subst (1 2) carry_nsec.simps) (auto simp: normal_time_def nanoseconds_def algebra_simps)
qed

lemma timespec_add_spec:
  assumes "normal_time a" "normal_time b"
  shows "normal_time (timespec_add a b)" "nanoseconds (timespec_add a b) = nanoseconds a + nanoseconds b"
  using assms carry_nsec_spec [of "tv_nsec a + tv_nsec b" "tv_sec a + tv_sec b"]
  by (auto simp: timespec_add_def normal_time_def nanoseconds_def algebra_simps)

text \<open>
  The difference is right when a borrow is needed and loses the nanoseconds otherwise.
\<close>

lemma timespec_diff_spec:
  assumes "normal_time a" "normal_time b" "nanoseconds a \<le> nanoseconds b"
  shows "\<exists>d. timespec_diff a b = Some d \<and> normal_time d
    \<and> nanoseconds d = nanoseconds b - nanoseconds a - (if tv_nsec a \<le> tv_nsec b then tv_nsec b - tv_nsec a else 0)"
proof -
  have "tv_sec a < tv_sec b \<or> (tv_sec a = tv_sec b \<and> tv_nsec a \<le> tv_nsec b)"
    using assms by (auto simp: normal_time_def nanoseconds_def)
  then show ?thesis
    using assms by (auto simp: timespec_diff_def Let_def normal_time_def nanoseconds_def algebra_simps)
qed

section \<open>The table of counters\<close>

abbreviation BITBUCKET_CALL_BASE :: nat where "BITBUCKET_CALL_BASE \<equiv> 100"
abbreviation BITBUCKET_CALL_INIT :: nat where "BITBUCKET_CALL_INIT \<equiv> 101"
abbreviation BITBUCKET_CALL_DESTROY :: nat where "BITBUCKET_CALL_DESTROY \<equiv> 102"
abbreviation BITBUCKET_CALL_LSEEK :: nat where "BITBUCKET_CALL_LSEEK \<equiv> 144"
abbreviation BITBUCKET_CALLS_MAX :: nat where "BITBUCKET_CALLS_MAX \<equiv> 144"

record bitbucket_call_statistics =
  Calls :: u64
  Success :: u64
  Failure :: u64
  ElapsedTime :: timespec
  CallName :: string

definition BitbucketCallDataNames :: "string list" where
  "BitbucketCallDataNames =
    [''Init'', ''Destroy'', ''Lookup'', ''Forget'', ''Getattr'', ''Setattr'', ''Readlink'', ''Mknod'',
     ''Mkdir'', ''Unlink'', ''Rmdir'', ''Symlink'', ''Rename'', ''Link'', ''Open'', ''Read'',
     ''Write'', ''Flush'', ''Release'', ''Fsync'', ''Opendir'', ''Readdir'', ''Releasedir'', ''Fsyncdir'',
     ''Statfs'', ''Setxattr'', ''Getxattr'', ''Listxattr'', ''Removexattr'', ''Access'', ''Create'', ''Getlk'',
     ''Setlk'', ''Bmap'', ''Ioctl'', ''Poll'', ''Write_Buf'', ''Retrieve_Reply'', ''Forget_Multi'', ''Flock'',
     ''Fallocate'', ''Readdirplus'', ''Copy_File_Range'', ''Lseek'']"

type_synonym call_table = "bitbucket_call_statistics list"

text \<open>The static array has \<^verbatim>\<open>BITBUCKET_CALLS_MAX - BITBUCKET_CALL_BASE - 1\<close> zeroed entries.\<close>

definition zero_statistics :: bitbucket_call_statistics where
  "zero_statistics = \<lparr>Calls = 0, Success = 0, Failure = 0, ElapsedTime = \<lparr>tv_sec = 0, tv_nsec = 0\<rparr>, CallName = []\<rparr>"

definition initial_statistics :: call_table where
  "initial_statistics = replicate (BITBUCKET_CALLS_MAX - BITBUCKET_CALL_INIT) zero_statistics"

definition BitbucketInitializeCallStatistics :: "call_table \<Rightarrow> call_table option" where
  "BitbucketInitializeCallStatistics tab = do {
     c_assert (length tab \<le> length BitbucketCallDataNames);
     Some (map (\<lambda>(e, n). e\<lparr>CallName := n\<rparr>) (zip tab BitbucketCallDataNames))
   }"

definition BitbucketGetCallStatistics :: "bool \<Rightarrow> call_table \<Rightarrow> call_table option" where
  "BitbucketGetCallStatistics malloc_ok tab = (if malloc_ok then Some tab else None)"

definition BitbucketCountCall :: "nat \<Rightarrow> nat \<Rightarrow> timespec \<Rightarrow> call_table \<Rightarrow> call_table option" where
  "BitbucketCountCall Call ok Elapsed tab = do {
     c_assert (Call > BITBUCKET_CALL_BASE \<and> Call < BITBUCKET_CALLS_MAX);
     c_assert (ok = 0 \<or> ok = 1);
     let i = Call - BITBUCKET_CALL_INIT;
     c_assert (i < length tab);
     let e = tab ! i;
     let e = e\<lparr>Calls := Calls e + 1\<rparr>;
     let e = (if ok \<noteq> 0 then e\<lparr>Success := Success e + 1\<rparr> else e\<lparr>Failure := Failure e + 1\<rparr>);
     let e = e\<lparr>ElapsedTime := timespec_add (ElapsedTime e) Elapsed\<rparr>;
     Some (tab[i := e])
   }"

section \<open>The printed report\<close>

text \<open>
  A formatter says what \<^verbatim>\<open>snprintf\<close> makes of an entry: the whole line, or nothing when the call fails
  with a negative result.  As documented for that function, the result is otherwise the length of the whole line, and at most
  the given space, with a terminating zero, is written; the model keeps the written characters.
\<close>

type_synonym formatter = "bool \<Rightarrow> bitbucket_call_statistics \<Rightarrow> string option"

definition BitbucketFormatCallDataEntry :: "formatter \<Rightarrow> bitbucket_call_statistics \<Rightarrow> bool \<Rightarrow> nat \<Rightarrow> string \<times> nat" where
  "BitbucketFormatCallDataEntry snprintf e csv space =
     (case snprintf csv e of
        Some line \<Rightarrow> (take (space - 1) line, length line)
      | None \<Rightarrow> ([], 150))"

definition round_up8 :: "nat \<Rightarrow> nat" where
  "round_up8 n = (n + 7) div 8 * 8"

fun format_entries :: "formatter \<Rightarrow> bool \<Rightarrow> nat \<Rightarrow> nat \<Rightarrow> call_table \<Rightarrow> (string list \<times> nat) option" where
  "format_entries snprintf csv required used [] = Some ([], used)"
| "format_entries snprintf csv required used (e # es) = do {
     let entry_space = required - used;
     let (text, needed) = BitbucketFormatCallDataEntry snprintf e csv entry_space;
     let used = used + needed;
     c_assert (entry_space \<ge> needed);
     c_assert (used \<le> required);
     (rest, used) \<leftarrow> format_entries snprintf csv required used es;
     Some (text # rest, used)
   }"

definition report_space :: "formatter \<Rightarrow> bool \<Rightarrow> call_table \<Rightarrow> nat" where
  "report_space snprintf csv tab =
     (if csv then 16 else 0) + sum_list (map (\<lambda>e. round_up8 (snd (BitbucketFormatCallDataEntry snprintf e csv 16))) tab)"

text \<open>
  The entries are formatted twice, to measure them and to print them; the two passes have a formatter each, because a
  call may fail in one of them only.
\<close>

definition BitbucketFormatCallData ::
  "formatter \<Rightarrow> formatter \<Rightarrow> bool \<Rightarrow> call_table option \<Rightarrow> bool \<Rightarrow> call_table \<Rightarrow> (string list \<times> nat) option option" where
  "BitbucketFormatCallData measure_pass print_pass malloc_ok CallData csv tab = do {
     cd \<leftarrow> (case CallData of Some cd \<Rightarrow> Some cd | None \<Rightarrow> BitbucketGetCallStatistics malloc_ok tab);
     let required_space = report_space measure_pass csv cd;
     if malloc_ok then do {
         r \<leftarrow> format_entries print_pass csv required_space 0 cd;
         Some (Some r)
       }
     else Some None
   }"

section \<open>Lemmas\<close>

definition counts_ok :: "bitbucket_call_statistics \<Rightarrow> bool" where
  "counts_ok e = (Calls e = Success e + Failure e \<and> normal_time (ElapsedTime e))"

definition table_ok :: "call_table \<Rightarrow> bool" where
  "table_ok tab = (length tab = BITBUCKET_CALLS_MAX - BITBUCKET_CALL_INIT \<and> list_all counts_ok tab)"

lemma round_up8_ge: "n \<le> round_up8 n"
  unfolding round_up8_def by linarith

definition entry_length :: "formatter \<Rightarrow> bool \<Rightarrow> bitbucket_call_statistics \<Rightarrow> nat" where
  "entry_length snprintf csv e = (case snprintf csv e of Some line \<Rightarrow> length line | None \<Rightarrow> 150)"

lemma format_entry_length: "snd (BitbucketFormatCallDataEntry snprintf e csv space) = entry_length snprintf csv e"
  by (simp add: BitbucketFormatCallDataEntry_def entry_length_def split: option.splits)

lemma format_entries_Cons:
  "format_entries snprintf csv required used (e # es) =
    (if entry_length snprintf csv e \<le> required - used \<and> used + entry_length snprintf csv e \<le> required
     then map_option (\<lambda>(rest, u). (fst (BitbucketFormatCallDataEntry snprintf e csv (required - used)) # rest, u))
            (format_entries snprintf csv required (used + entry_length snprintf csv e) es)
     else None)"
  by (cases "format_entries snprintf csv required (used + entry_length snprintf csv e) es")
    (auto simp: Let_def split_beta format_entry_length)

text \<open>The printing pass succeeds exactly when its lines fit.\<close>

lemma format_entries_space:
  assumes "used \<le> required"
  shows "if used + sum_list (map (entry_length snprintf csv) es) \<le> required
    then \<exists>texts. format_entries snprintf csv required used es = Some (texts, used + sum_list (map (entry_length snprintf csv) es))
      \<and> length texts = length es
    else format_entries snprintf csv required used es = None"
  using assms
proof (induction es arbitrary: used)
  case (Cons e es)
  let ?n = "entry_length snprintf csv e"
  show ?case
  proof (cases "used + ?n \<le> required")
    case True
    then have "?n \<le> required - used"
      by simp
    then show ?thesis
      using Cons.IH [OF True] True by (auto simp: format_entries_Cons add.assoc simp del: format_entries.simps split: if_splits)
  qed (simp add: format_entries_Cons del: format_entries.simps)
qed simp

lemma report_space_enough: "sum_list (map (entry_length snprintf csv) tab) \<le> report_space snprintf csv tab"
proof -
  have "sum_list (map (entry_length snprintf csv) tab) \<le> sum_list (map (\<lambda>e. round_up8 (entry_length snprintf csv e)) tab)"
    by (rule sum_list_mono) (rule round_up8_ge)
  then show ?thesis
    by (simp add: report_space_def format_entry_length trans_le_add2)
qed

lemma table_ok_initial: "table_ok initial_statistics"
  by (simp add: table_ok_def initial_statistics_def list_all_iff counts_ok_def zero_statistics_def normal_time_def)

lemma CountCall_step [preserve]:
  assumes "table_ok tab" and "BITBUCKET_CALL_BASE < c" and "c < BITBUCKET_CALLS_MAX" and "ok \<in> {0, 1}"
    and "normal_time t"
  shows "\<exists>tab'. BitbucketCountCall c ok t tab = Some tab' \<and> table_ok tab'
    \<and> (\<forall>i < length tab. i \<noteq> c - BITBUCKET_CALL_INIT \<longrightarrow> tab' ! i = tab ! i)
    \<and> Calls (tab' ! (c - BITBUCKET_CALL_INIT)) = Calls (tab ! (c - BITBUCKET_CALL_INIT)) + 1
    \<and> nanoseconds (ElapsedTime (tab' ! (c - BITBUCKET_CALL_INIT)))
        = nanoseconds (ElapsedTime (tab ! (c - BITBUCKET_CALL_INIT))) + nanoseconds t"
proof -
  let ?i = "c - BITBUCKET_CALL_INIT"
  have i: "?i < length tab" and l: "length tab = 43"
    using assms(1-3) by (auto simp: table_ok_def)
  have e: "counts_ok (tab ! ?i)"
    using assms(1) i by (auto simp: table_ok_def list_all_length)
  note t = timespec_add_spec [OF _ assms(5), of "ElapsedTime (tab ! ?i)"]
  show ?thesis
    using assms i l e t
    by (auto simp: BitbucketCountCall_def Let_def table_ok_def counts_ok_def list_all_length nth_list_update)
qed

section \<open>Properties\<close>

text \<open>
  C27: counting a call keeps the statistics consistent: in every entry the calls are the
  successes plus the failures and the elapsed time is a normalised time.  Exactly the entry of the call changes; its count grows by one
  and its elapsed time by exactly the given time.
\<close>

theorem count_call_consistent:
  assumes "table_ok tab" and "BITBUCKET_CALL_BASE < c" and "c < BITBUCKET_CALLS_MAX" and "ok \<in> {0, 1}"
    and "normal_time t"
  shows "\<exists>tab'. BitbucketCountCall c ok t tab = Some tab' \<and> table_ok tab'
    \<and> (\<forall>i < length tab. i \<noteq> c - BITBUCKET_CALL_INIT \<longrightarrow> tab' ! i = tab ! i)
    \<and> Calls (tab' ! (c - BITBUCKET_CALL_INIT)) = Calls (tab ! (c - BITBUCKET_CALL_INIT)) + 1
    \<and> nanoseconds (ElapsedTime (tab' ! (c - BITBUCKET_CALL_INIT)))
        = nanoseconds (ElapsedTime (tab ! (c - BITBUCKET_CALL_INIT))) + nanoseconds t"
  by (rule CountCall_step [OF assms])

theorem count_call_consistent_witness:
  "\<exists>tab'. BitbucketCountCall 103 1 \<lparr>tv_sec = 2, tv_nsec = 7\<rparr> initial_statistics = Some tab' \<and> table_ok tab'
     \<and> Calls (tab' ! 2) = 1"
  using count_call_consistent [OF table_ok_initial, of 103 1 "\<lparr>tv_sec = 2, tv_nsec = 7\<rparr>"]
  by (auto simp: normal_time_def initial_statistics_def zero_statistics_def)

text \<open>
  C28: the difference of two times that the statistics are built from is exact only if the nanoseconds of
  the end are smaller than those of the begin; otherwise the difference of the nanoseconds is dropped, so
  every call of less than a second within one second counts as zero.
\<close>

theorem elapsed_time_loses_nanoseconds:
  assumes "normal_time a" "normal_time b" "nanoseconds a \<le> nanoseconds b"
  shows "\<exists>d. timespec_diff a b = Some d
    \<and> nanoseconds d = nanoseconds b - nanoseconds a - (if tv_nsec a \<le> tv_nsec b then tv_nsec b - tv_nsec a else 0)"
  using timespec_diff_spec [OF assms] by blast

theorem elapsed_time_loses_nanoseconds_witness:
  "\<exists>d. timespec_diff \<lparr>tv_sec = 5, tv_nsec = 10\<rparr> \<lparr>tv_sec = 5, tv_nsec = 999\<rparr> = Some d \<and> nanoseconds d = 0"
  using elapsed_time_loses_nanoseconds [of "\<lparr>tv_sec = 5, tv_nsec = 10\<rparr>" "\<lparr>tv_sec = 5, tv_nsec = 999\<rparr>"]
  by (auto simp: normal_time_def nanoseconds_def)

text \<open>
  C29: whether the report overflows its buffer depends on the formatting calls only.  If
  every entry gives in the printing pass what it gave in the measuring pass, be it a line or an error (an error counts as
  150 characters), the measured space is enough for every table: none of the overflow assertions of the
  formatting loop can fail, and every entry is formatted.  If all calls of the printing
  pass fail and the measured space is less than 150 characters per entry, an assertion fails and
  the program aborts.
\<close>

theorem report_never_overflows:
  "((\<forall>e \<in> set cd. print_pass csv e = measure_pass csv e) \<longrightarrow>
      (\<exists>texts used. BitbucketFormatCallData measure_pass print_pass True (Some cd) csv tab = Some (Some (texts, used))
         \<and> length texts = length cd \<and> used \<le> report_space measure_pass csv cd))
   \<and> ((\<forall>e \<in> set cd. print_pass csv e = None) \<and> report_space measure_pass csv cd < 150 * length cd \<longrightarrow>
      BitbucketFormatCallData measure_pass print_pass True (Some cd) csv tab = None)"
proof (intro conjI impI; (elim conjE)?)
  assume same: "\<forall>e \<in> set cd. print_pass csv e = measure_pass csv e"
  have "map (entry_length print_pass csv) cd = map (entry_length measure_pass csv) cd"
    using same by (simp add: entry_length_def)
  then have "sum_list (map (entry_length print_pass csv) cd) \<le> report_space measure_pass csv cd"
    using report_space_enough [of measure_pass csv cd] by (simp only:)
  then show "\<exists>texts used. BitbucketFormatCallData measure_pass print_pass True (Some cd) csv tab = Some (Some (texts, used))
      \<and> length texts = length cd \<and> used \<le> report_space measure_pass csv cd"
    using format_entries_space [of 0 "report_space measure_pass csv cd" print_pass csv cd] by (auto simp: BitbucketFormatCallData_def Let_def)
next
  assume fails: "\<forall>e \<in> set cd. print_pass csv e = None" and short: "report_space measure_pass csv cd < 150 * length cd"
  have "sum_list (map (entry_length print_pass csv) cd) = 150 * length cd"
    using fails by (induction cd) (simp_all add: entry_length_def)
  then show "BitbucketFormatCallData measure_pass print_pass True (Some cd) csv tab = None"
    using format_entries_space [of 0 "report_space measure_pass csv cd" print_pass csv cd] short by (simp add: BitbucketFormatCallData_def)
qed

theorem report_never_overflows_witness:
  "(\<exists>texts used. BitbucketFormatCallData (\<lambda>csv e. Some ''line'') (\<lambda>csv e. Some ''line'') True (Some initial_statistics) False [] = Some (Some (texts, used))
      \<and> length texts = 43)
   \<and> BitbucketFormatCallData (\<lambda>csv e. Some ''line'') (\<lambda>csv e. None) True (Some initial_statistics) False [] = None"
proof -
  have "report_space (\<lambda>csv e. Some ''line'') False initial_statistics < 150 * length initial_statistics" "length initial_statistics = 43"
    by (simp_all add: report_space_def format_entry_length entry_length_def round_up8_def initial_statistics_def sum_list_replicate)
  then show ?thesis
    using report_never_overflows [of initial_statistics "\<lambda>csv e. Some ''line''" False "\<lambda>csv e. Some ''line''" "[]"]
      report_never_overflows [of initial_statistics "\<lambda>csv e. None" False "\<lambda>csv e. Some ''line''" "[]"] by auto
qed

end
