(* ===== verification/CommStat.thy ===== *)
theory CommStat
  imports CallStats
begin

text \<open>
  The per-message timing of \<^verbatim>\<open>src/finesse/communications/commstat.c\<close>.  A message carries its own
  time stamps and the class and type of the request, because the response overwrites the request
  in place; releasing the message adds the stamps to the table of the request's type.
  \<^verbatim>\<open>now\<close> is the value that \<^verbatim>\<open>clock_gettime\<close> gives.
\<close>

section \<open>Messages\<close>

abbreviation FINESSE_FUSE_MESSAGE :: nat where "FINESSE_FUSE_MESSAGE \<equiv> 251"
abbreviation FINESSE_NATIVE_MESSAGE :: nat where "FINESSE_NATIVE_MESSAGE \<equiv> 252"
abbreviation FINESSE_FUSE_REQ_BASE_TYPE :: nat where "FINESSE_FUSE_REQ_BASE_TYPE \<equiv> 42"
abbreviation FINESSE_FUSE_REQ_MAX :: nat where "FINESSE_FUSE_REQ_MAX \<equiv> 85"
abbreviation FINESSE_NATIVE_REQ_BASE_TYPE :: nat where "FINESSE_NATIVE_REQ_BASE_TYPE \<equiv> 1024"
abbreviation FINESSE_NATIVE_REQ_MAX :: nat where "FINESSE_NATIVE_REQ_MAX \<equiv> 1030"

datatype FINESSE_MESSAGE_TYPE = FINESSE_REQUEST | FINESSE_RESPONSE

record message_stats =
  RequestClass :: nat
  RequestType :: nat
  RequestStartTime :: timespec
  RequestQueueTime :: timespec
  RequestDequeueTime :: timespec
  ResponseQueueTime :: timespec
  ResponseReceiptTime :: timespec
  RequestCompletionTime :: timespec

text \<open>\<^verbatim>\<open>MsgKind\<close> is the type field at the start of the request and response unions.\<close>

record finesse_msg =
  Version :: u64
  MessageClass :: nat
  MsgResult :: int
  Stats :: message_stats
  MsgKind :: nat

definition request_type_ok :: "nat \<Rightarrow> nat \<Rightarrow> bool" where
  "request_type_ok cls ty =
     (if cls = FINESSE_FUSE_MESSAGE then FINESSE_FUSE_REQ_BASE_TYPE \<le> ty \<and> ty < FINESSE_FUSE_REQ_MAX
      else cls = FINESSE_NATIVE_MESSAGE \<and> FINESSE_NATIVE_REQ_BASE_TYPE \<le> ty \<and> ty < FINESSE_NATIVE_REQ_MAX)"

definition zero_time :: timespec where
  "zero_time = \<lparr>tv_sec = 0, tv_nsec = 0\<rparr>"

definition FincommCallStatRequestStart ::
  "timespec \<Rightarrow> FINESSE_MESSAGE_TYPE \<Rightarrow> finesse_msg \<Rightarrow> finesse_msg option" where
  "FincommCallStatRequestStart now mtype msg = do {
     c_assert (mtype = FINESSE_REQUEST);
     c_assert (request_type_ok (MessageClass msg) (MsgKind msg));
     Some (msg\<lparr>Stats := \<lparr>RequestClass = MessageClass msg, RequestType = MsgKind msg,
       RequestStartTime = now, RequestQueueTime = zero_time, RequestDequeueTime = zero_time,
       ResponseQueueTime = zero_time, ResponseReceiptTime = zero_time, RequestCompletionTime = zero_time\<rparr>\<rparr>)
   }"

definition FincommCallStatQueueRequest :: "timespec \<Rightarrow> finesse_msg \<Rightarrow> finesse_msg" where
  "FincommCallStatQueueRequest now msg = msg\<lparr>Stats := Stats msg\<lparr>RequestQueueTime := now\<rparr>\<rparr>"

definition FincommCallStatDequeueRequest :: "timespec \<Rightarrow> finesse_msg \<Rightarrow> finesse_msg" where
  "FincommCallStatDequeueRequest now msg = msg\<lparr>Stats := Stats msg\<lparr>RequestDequeueTime := now\<rparr>\<rparr>"

definition FincommCallStatQueueResponse :: "timespec \<Rightarrow> finesse_msg \<Rightarrow> finesse_msg" where
  "FincommCallStatQueueResponse now msg = msg\<lparr>Stats := Stats msg\<lparr>ResponseQueueTime := now\<rparr>\<rparr>"

definition FincommCallStatDequeueResponse :: "timespec \<Rightarrow> finesse_msg \<Rightarrow> finesse_msg" where
  "FincommCallStatDequeueResponse now msg = msg\<lparr>Stats := Stats msg\<lparr>ResponseReceiptTime := now\<rparr>\<rparr>"

definition FincommCallStatCompleteRequest :: "timespec \<Rightarrow> finesse_msg \<Rightarrow> finesse_msg" where
  "FincommCallStatCompleteRequest now msg = msg\<lparr>Stats := Stats msg\<lparr>RequestCompletionTime := now\<rparr>\<rparr>"

section \<open>The table\<close>

record fincomm_call_time =
  RequestCreateTime :: timespec
  RequestQueueDelay :: timespec
  ResponseProcessingTime :: timespec
  ResponseQueueDelay :: timespec
  RequestTotalTime :: timespec

record fincomm_api_call_statistics =
  ApiCalls :: u64
  ApiSuccess :: u64
  ApiFailure :: u64
  SuccessTimings :: fincomm_call_time
  FailureTimings :: fincomm_call_time

record fincomm_call_data =
  Fuse :: "fincomm_api_call_statistics list"
  Native :: "fincomm_api_call_statistics list"

text \<open>Here, unlike in the bitbucket header, a difference of times that run backwards is zero.\<close>

definition comm_timespec_diff :: "timespec \<Rightarrow> timespec \<Rightarrow> timespec" where
  "comm_timespec_diff begin end' =
     (if tv_sec end' > tv_sec begin \<or> (tv_sec end' = tv_sec begin \<and> tv_nsec end' \<ge> tv_nsec begin)
      then if tv_nsec end' < tv_nsec begin
           then \<lparr>tv_sec = tv_sec end' - tv_sec begin - 1, tv_nsec = NSEC_PER_SEC + tv_nsec end' - tv_nsec begin\<rparr>
           else \<lparr>tv_sec = tv_sec end' - tv_sec begin, tv_nsec = 0\<rparr>
      else zero_time)"

definition timespec_add_diff :: "timespec \<Rightarrow> timespec \<Rightarrow> timespec \<Rightarrow> timespec" where
  "timespec_add_diff accumulator start end' =
     (let diff = comm_timespec_diff start end'
      in carry_nsec (tv_sec accumulator + tv_sec diff) (tv_nsec accumulator + tv_nsec diff))"

definition is_zero_time :: "timespec \<Rightarrow> bool" where
  "is_zero_time t = (tv_sec t = 0 \<and> tv_nsec t = 0)"

definition add_stage :: "timespec \<Rightarrow> timespec \<Rightarrow> timespec \<Rightarrow> timespec" where
  "add_stage acc a b = (if \<not> is_zero_time a \<and> \<not> is_zero_time b then timespec_add_diff acc a b else acc)"

text \<open>The five stages, which the code writes out once for successes and once for failures.\<close>

definition record_timings :: "message_stats \<Rightarrow> fincomm_call_time \<Rightarrow> fincomm_call_time" where
  "record_timings s t =
     \<lparr>RequestCreateTime = add_stage (RequestCreateTime t) (RequestStartTime s) (RequestQueueTime s),
      RequestQueueDelay = add_stage (RequestQueueDelay t) (RequestQueueTime s) (RequestDequeueTime s),
      ResponseProcessingTime = add_stage (ResponseProcessingTime t) (RequestDequeueTime s) (ResponseQueueTime s),
      ResponseQueueDelay = add_stage (ResponseQueueDelay t) (ResponseQueueTime s) (ResponseReceiptTime s),
      RequestTotalTime = add_stage (RequestTotalTime t) (RequestStartTime s) (RequestCompletionTime s)\<rparr>"

definition record_entry :: "finesse_msg \<Rightarrow> fincomm_api_call_statistics \<Rightarrow> fincomm_api_call_statistics" where
  "record_entry msg e =
     (let e = (if MsgResult msg = 0
               then e\<lparr>ApiSuccess := ApiSuccess e + 1, SuccessTimings := record_timings (Stats msg) (SuccessTimings e)\<rparr>
               else e\<lparr>ApiFailure := ApiFailure e + 1, FailureTimings := record_timings (Stats msg) (FailureTimings e)\<rparr>)
      in e\<lparr>ApiCalls := ApiCalls e + 1\<rparr>)"

definition FincommRecordStats :: "finesse_msg \<Rightarrow> fincomm_call_data \<Rightarrow> fincomm_call_data option" where
  "FincommRecordStats msg cd = do {
     let index = RequestType (Stats msg);
     let fuse = (RequestClass (Stats msg) = FINESSE_FUSE_MESSAGE);
     c_assert (if fuse then FINESSE_FUSE_REQ_BASE_TYPE \<le> index \<and> index < FINESSE_FUSE_REQ_MAX
               else FINESSE_NATIVE_REQ_BASE_TYPE \<le> index \<and> index < FINESSE_NATIVE_REQ_MAX);
     c_assert (tv_sec (RequestStartTime (Stats msg)) > 0);
     c_assert (tv_sec (comm_timespec_diff (RequestStartTime (Stats msg)) (RequestCompletionTime (Stats msg))) \<le> 3600);
     Some (if fuse
           then let i = index - FINESSE_FUSE_REQ_BASE_TYPE in cd\<lparr>Fuse := (Fuse cd)[i := record_entry msg (Fuse cd ! i)]\<rparr>
           else let i = index - FINESSE_NATIVE_REQ_BASE_TYPE in cd\<lparr>Native := (Native cd)[i := record_entry msg (Native cd ! i)]\<rparr>)
   }"

section \<open>Lemmas\<close>

definition times_ok :: "fincomm_call_time \<Rightarrow> bool" where
  "times_ok t = (normal_time (RequestCreateTime t) \<and> normal_time (RequestQueueDelay t)
     \<and> normal_time (ResponseProcessingTime t) \<and> normal_time (ResponseQueueDelay t) \<and> normal_time (RequestTotalTime t))"

definition stats_ok :: "message_stats \<Rightarrow> bool" where
  "stats_ok s = (normal_time (RequestStartTime s) \<and> normal_time (RequestQueueTime s)
     \<and> normal_time (RequestDequeueTime s) \<and> normal_time (ResponseQueueTime s)
     \<and> normal_time (ResponseReceiptTime s) \<and> normal_time (RequestCompletionTime s))"

definition entry_ok :: "fincomm_api_call_statistics \<Rightarrow> bool" where
  "entry_ok e = (ApiCalls e = ApiSuccess e + ApiFailure e \<and> times_ok (SuccessTimings e) \<and> times_ok (FailureTimings e))"

definition call_data_ok :: "fincomm_call_data \<Rightarrow> bool" where
  "call_data_ok cd = (length (Fuse cd) = FINESSE_FUSE_REQ_MAX - FINESSE_FUSE_REQ_BASE_TYPE
     \<and> length (Native cd) = FINESSE_NATIVE_REQ_MAX - FINESSE_NATIVE_REQ_BASE_TYPE
     \<and> list_all entry_ok (Fuse cd) \<and> list_all entry_ok (Native cd))"

lemma comm_diff_normal:
  "\<lbrakk>normal_time a; normal_time b\<rbrakk> \<Longrightarrow> normal_time (comm_timespec_diff a b) \<and> 0 \<le> nanoseconds (comm_timespec_diff a b)"
  by (auto simp: comm_timespec_diff_def normal_time_def nanoseconds_def zero_time_def)

lemma timespec_add_diff_spec:
  assumes "normal_time acc" "normal_time a" "normal_time b"
  shows "normal_time (timespec_add_diff acc a b)"
    "nanoseconds (timespec_add_diff acc a b) = nanoseconds acc + nanoseconds (comm_timespec_diff a b)"
proof -
  have "normal_time (comm_timespec_diff a b)"
    using comm_diff_normal [OF assms(2,3)] by simp
  then have "0 \<le> tv_nsec acc + tv_nsec (comm_timespec_diff a b)"
    using assms(1) by (simp add: normal_time_def)
  from carry_nsec_spec [OF this, of "tv_sec acc + tv_sec (comm_timespec_diff a b)"]
  show "normal_time (timespec_add_diff acc a b)"
    "nanoseconds (timespec_add_diff acc a b) = nanoseconds acc + nanoseconds (comm_timespec_diff a b)"
    by (auto simp: timespec_add_diff_def Let_def nanoseconds_def algebra_simps)
qed

lemma add_stage_normal: "\<lbrakk>normal_time acc; normal_time a; normal_time b\<rbrakk> \<Longrightarrow> normal_time (add_stage acc a b)"
  by (simp add: add_stage_def timespec_add_diff_spec)

lemma record_timings_ok [preserve]: "\<lbrakk>stats_ok s; times_ok t\<rbrakk> \<Longrightarrow> times_ok (record_timings s t)"
  by (simp add: times_ok_def stats_ok_def record_timings_def add_stage_normal)

lemma record_entry_ok [preserve]: "\<lbrakk>stats_ok (Stats msg); entry_ok e\<rbrakk> \<Longrightarrow> entry_ok (record_entry msg e)"
  by (auto simp: entry_ok_def record_entry_def Let_def record_timings_ok)

lemma record_stats_ok [preserve]:
  assumes "call_data_ok cd" "stats_ok (Stats msg)" "FincommRecordStats msg cd = Some cd'"
  shows "call_data_ok cd'"
  using assms
  by (auto simp: FincommRecordStats_def Let_def call_data_ok_def list_all_length nth_list_update
      record_entry_ok split: if_splits)

section \<open>Properties\<close>

text \<open>
  C22: a message is accounted to the class and type it had when the request was started, whatever
  the server wrote over it since.  The message is started, stamped with any times when the request and the response are
  queued and taken out (a stage that was left out is a stamp of zero), and given another class, type and result; if it is
  completed, on a clock past zero, at most 3600 whole seconds after its start, releasing it changes exactly the entry
  of the original request: one call more, and one success or one failure more according to the result.  Every
  entry keeps calls equal to successes plus failures, and its accumulated times normalised.
  If it is completed later than that, the release aborts.
\<close>

theorem stats_follow_the_request:
  assumes "FincommCallStatRequestStart start FINESSE_REQUEST msg0 = Some msg" and "0 < tv_sec start"
    and "normal_time start" "normal_time t1" "normal_time t2" "normal_time t3" "normal_time t4" "normal_time now"
    and "call_data_ok cd"
  shows "let answered = (FincommCallStatDequeueRequest t2 (FincommCallStatQueueRequest t1 msg))\<lparr>MessageClass := c, MsgKind := k, MsgResult := r\<rparr>;
      m = FincommCallStatCompleteRequest now (FincommCallStatDequeueResponse t4 (FincommCallStatQueueResponse t3 answered));
      bump = (\<lambda>e e'. ApiCalls e' = ApiCalls e + 1 \<and> ApiSuccess e' = ApiSuccess e + (if r = 0 then 1 else 0)
        \<and> ApiFailure e' = ApiFailure e + (if r = 0 then 0 else 1))
    in if 3600 < tv_sec (comm_timespec_diff start now) then FincommRecordStats m cd = None
       else \<exists>cd' e'. FincommRecordStats m cd = Some cd' \<and> call_data_ok cd'
         \<and> (if MessageClass msg0 = FINESSE_FUSE_MESSAGE
            then let i = MsgKind msg0 - FINESSE_FUSE_REQ_BASE_TYPE
                 in i < length (Fuse cd) \<and> cd' = cd\<lparr>Fuse := (Fuse cd)[i := e']\<rparr> \<and> bump (Fuse cd ! i) e'
            else let i = MsgKind msg0 - FINESSE_NATIVE_REQ_BASE_TYPE
                 in i < length (Native cd) \<and> cd' = cd\<lparr>Native := (Native cd)[i := e']\<rparr> \<and> bump (Native cd ! i) e')"
proof -
  let ?a = "(FincommCallStatDequeueRequest t2 (FincommCallStatQueueRequest t1 msg))\<lparr>MessageClass := c, MsgKind := k, MsgResult := r\<rparr>"
  let ?m = "FincommCallStatCompleteRequest now (FincommCallStatDequeueResponse t4 (FincommCallStatQueueResponse t3 ?a))"
  note stamps = FincommCallStatQueueRequest_def FincommCallStatDequeueRequest_def FincommCallStatQueueResponse_def
    FincommCallStatDequeueResponse_def FincommCallStatCompleteRequest_def
  have s: "Stats ?m = \<lparr>RequestClass = MessageClass msg0, RequestType = MsgKind msg0, RequestStartTime = start, RequestQueueTime = t1,
       RequestDequeueTime = t2, ResponseQueueTime = t3, ResponseReceiptTime = t4, RequestCompletionTime = now\<rparr>"
    and r: "MsgResult ?m = r" and ty: "request_type_ok (MessageClass msg0) (MsgKind msg0)"
    using assms(1) by (auto simp: FincommCallStatRequestStart_def stamps split: if_splits)
  have ok: "stats_ok (Stats ?m)"
    using assms(3-8) by (simp add: s stats_ok_def)
  have range: "if MessageClass msg0 = FINESSE_FUSE_MESSAGE
      then FINESSE_FUSE_REQ_BASE_TYPE \<le> MsgKind msg0 \<and> MsgKind msg0 < FINESSE_FUSE_REQ_MAX
      else FINESSE_NATIVE_REQ_BASE_TYPE \<le> MsgKind msg0 \<and> MsgKind msg0 < FINESSE_NATIVE_REQ_MAX"
    using ty by (auto simp: request_type_ok_def split: if_splits)
  show ?thesis
  proof (cases "3600 < tv_sec (comm_timespec_diff start now)")
    case True
    then show ?thesis
      unfolding Let_def by (simp add: FincommRecordStats_def Let_def s)
  next
    case False
    then obtain cd' where cd': "FincommRecordStats ?m cd = Some cd'"
      "cd' = (if MessageClass msg0 = FINESSE_FUSE_MESSAGE
         then let i = MsgKind msg0 - FINESSE_FUSE_REQ_BASE_TYPE in cd\<lparr>Fuse := (Fuse cd)[i := record_entry ?m (Fuse cd ! i)]\<rparr>
         else let i = MsgKind msg0 - FINESSE_NATIVE_REQ_BASE_TYPE in cd\<lparr>Native := (Native cd)[i := record_entry ?m (Native cd ! i)]\<rparr>)"
      using assms(2) range by (simp add: FincommRecordStats_def Let_def s)
    moreover have "MsgKind msg0 - FINESSE_FUSE_REQ_BASE_TYPE < length (Fuse cd)" if "MessageClass msg0 = FINESSE_FUSE_MESSAGE"
      using range assms(9) that by (auto simp: call_data_ok_def)
    moreover have "MsgKind msg0 - FINESSE_NATIVE_REQ_BASE_TYPE < length (Native cd)" if "MessageClass msg0 \<noteq> FINESSE_FUSE_MESSAGE"
      using range assms(9) that by (auto simp: call_data_ok_def)
    moreover have "ApiCalls (record_entry ?m e) = ApiCalls e + 1" "ApiSuccess (record_entry ?m e) = ApiSuccess e + (if r = 0 then 1 else 0)"
      "ApiFailure (record_entry ?m e) = ApiFailure e + (if r = 0 then 0 else 1)" for e
      by (simp_all add: record_entry_def Let_def r)
    ultimately show ?thesis
      using False record_stats_ok [OF assms(9) ok cd'(1)] unfolding Let_def
      by (cases "MessageClass msg0 = FINESSE_FUSE_MESSAGE") auto
  qed
qed

definition zero_stats :: message_stats where
  "zero_stats = \<lparr>RequestClass = 0, RequestType = 0, RequestStartTime = zero_time, RequestQueueTime = zero_time,
     RequestDequeueTime = zero_time, ResponseQueueTime = zero_time, ResponseReceiptTime = zero_time,
     RequestCompletionTime = zero_time\<rparr>"

definition empty_call_data :: fincomm_call_data where
  "empty_call_data = (let z = \<lparr>RequestCreateTime = zero_time, RequestQueueDelay = zero_time, ResponseProcessingTime = zero_time,
       ResponseQueueDelay = zero_time, RequestTotalTime = zero_time\<rparr>;
     e = \<lparr>ApiCalls = 0, ApiSuccess = 0, ApiFailure = 0, SuccessTimings = z, FailureTimings = z\<rparr>
     in \<lparr>Fuse = replicate 43 e, Native = replicate 6 e\<rparr>)"

lemma empty_call_data_ok: "call_data_ok empty_call_data"
  by (simp add: call_data_ok_def empty_call_data_def Let_def list_all_iff entry_ok_def times_ok_def normal_time_def zero_time_def)

theorem stats_follow_the_request_witness:
  "\<exists>msg m cd'. FincommCallStatRequestStart \<lparr>tv_sec = 9, tv_nsec = 1\<rparr> FINESSE_REQUEST
       \<lparr>Version = 1, MessageClass = 252, MsgResult = 38, Stats = zero_stats, MsgKind = 1026\<rparr> = Some msg
     \<and> MessageClass m = 251 \<and> MsgKind m = 50 \<and> RequestQueueTime (Stats m) = \<lparr>tv_sec = 9, tv_nsec = 5\<rparr>
     \<and> FincommRecordStats m empty_call_data = Some cd' \<and> call_data_ok cd'
     \<and> Fuse cd' = Fuse empty_call_data \<and> ApiCalls (Native cd' ! 2) = 1 \<and> ApiFailure (Native cd' ! 2) = 1"
proof -
  let ?req = "\<lparr>Version = 1, MessageClass = 252, MsgResult = 38, Stats = zero_stats, MsgKind = 1026\<rparr> :: finesse_msg"
  let ?start = "\<lparr>tv_sec = 9, tv_nsec = 1\<rparr>" and ?t1 = "\<lparr>tv_sec = 9, tv_nsec = 5\<rparr>" and ?now = "\<lparr>tv_sec = 10, tv_nsec = 0\<rparr>"
  obtain msg where m: "FincommCallStatRequestStart ?start FINESSE_REQUEST ?req = Some msg"
    by (simp add: FincommCallStatRequestStart_def request_type_ok_def)
  let ?m = "FincommCallStatCompleteRequest ?now (FincommCallStatDequeueResponse zero_time (FincommCallStatQueueResponse zero_time
    ((FincommCallStatDequeueRequest zero_time (FincommCallStatQueueRequest ?t1 msg))\<lparr>MessageClass := 251, MsgKind := 50, MsgResult := 38\<rparr>)))"
  have "\<not> 3600 < tv_sec (comm_timespec_diff ?start ?now)"
    by (simp add: comm_timespec_diff_def)
  moreover have "\<not> MessageClass ?req = FINESSE_FUSE_MESSAGE" "MsgKind ?req - FINESSE_NATIVE_REQ_BASE_TYPE = 2" "normal_time zero_time"
    "normal_time ?start" "normal_time ?t1" "normal_time ?now" "0 < tv_sec ?start"
    by (simp_all add: normal_time_def zero_time_def)
  ultimately have "\<exists>cd' e'. FincommRecordStats ?m empty_call_data = Some cd' \<and> call_data_ok cd' \<and> 2 < length (Native empty_call_data)
    \<and> cd' = empty_call_data\<lparr>Native := (Native empty_call_data)[2 := e']\<rparr> \<and> ApiCalls e' = ApiCalls (Native empty_call_data ! 2) + 1
    \<and> ApiFailure e' = ApiFailure (Native empty_call_data ! 2) + 1"
    using stats_follow_the_request [OF m, where ?t1.0 = ?t1 and ?t2.0 = zero_time and ?t3.0 = zero_time and ?t4.0 = zero_time and now = ?now and cd = empty_call_data and c = 251 and k = 50 and r = 38] empty_call_data_ok
    unfolding Let_def by (simp only: if_False) auto
  then obtain cd' e' where r: "FincommRecordStats ?m empty_call_data = Some cd'" "call_data_ok cd'" "2 < length (Native empty_call_data)"
    "cd' = empty_call_data\<lparr>Native := (Native empty_call_data)[2 := e']\<rparr>" "ApiCalls e' = ApiCalls (Native empty_call_data ! 2) + 1"
    "ApiFailure e' = ApiFailure (Native empty_call_data ! 2) + 1"
    by blast
  have "ApiCalls (Native empty_call_data ! 2) = 0" "ApiFailure (Native empty_call_data ! 2) = 0"
    by (simp_all add: empty_call_data_def Let_def)
  with r have "Fuse cd' = Fuse empty_call_data" "ApiCalls (Native cd' ! 2) = 1" "ApiFailure (Native cd' ! 2) = 1"
    by simp_all
  moreover have "MessageClass ?m = 251" "MsgKind ?m = 50" "RequestQueueTime (Stats ?m) = ?t1"
    by (simp_all add: FincommCallStatCompleteRequest_def FincommCallStatDequeueResponse_def FincommCallStatQueueResponse_def
        FincommCallStatDequeueRequest_def FincommCallStatQueueRequest_def)
  ultimately show ?thesis
    using m r(1,2) by blast
qed

end
