(* ===== verification/ShmRegion.thy ===== *)
theory ShmRegion
  imports Arena CommStat
begin

text \<open>
  The shared memory region through which a client and the server exchange messages,
  \<^verbatim>\<open>src/finesse/communications/fincomm.c\<close> with \<^verbatim>\<open>FinesseReleaseRequestBuffer\<close> of \<^verbatim>\<open>fcc.c\<close>.  A region has 64
  message slots and three bitmaps: allocated slots, slots with a request that waits for the
  server, and slots with a response that waits for the client.  Each operation is a function on
  the region, \<^const>\<open>None\<close> when an assertion fails or the caller would block.  The concurrent
  allocation by compare-and-swap and the life cycle of a slot are step relations of their own
  in the theories that follow this one.
\<close>

section \<open>The region\<close>

abbreviation SHM_MESSAGE_COUNT :: nat where "SHM_MESSAGE_COUNT \<equiv> 64"
abbreviation SHM_PAGE_SIZE :: nat where "SHM_PAGE_SIZE \<equiv> 4096"
abbreviation ENOSYS :: int where "ENOSYS \<equiv> 38"
abbreviation FINESSE_MESSAGE_VERSION :: u64 where "FINESSE_MESSAGE_VERSION \<equiv> 0xbeef0cabbad1dead"

record fincomm_message_block =
  MsgRequestId :: u64
  BlockResult :: int
  MessageType :: FINESSE_MESSAGE_TYPE
  Data :: finesse_msg

record fincomm_shared_memory_region =
  ShmSignature :: bool
  RequestBitmap :: u64
  RequestWaiters :: nat
  ResponseBitmap :: u64
  LastBufferAllocated :: nat
  MsgAllocationBitmap :: u64
  RequestId :: u64
  ShutdownRequested :: bool
  Messages :: "fincomm_message_block list"

text \<open>A message is known by its address; the page before the first message is the header.\<close>

definition message_address :: "nat \<Rightarrow> nat \<Rightarrow> nat" where
  "message_address base index = base + SHM_PAGE_SIZE * (index + 1)"

definition message_index :: "nat \<Rightarrow> nat \<Rightarrow> nat" where
  "message_index base Message =
     nat ((((int Message - int base) mod 2 ^ 64) div int SHM_PAGE_SIZE - 1) mod 2 ^ 32)"

definition message_slot :: "nat \<Rightarrow> nat \<Rightarrow> nat option" where
  "message_slot base Message = do {
     let index = message_index base Message;
     c_assert (message_address base index = Message);
     c_assert (index < SHM_MESSAGE_COUNT);
     Some index
   }"

definition update_message ::
  "nat \<Rightarrow> (fincomm_message_block \<Rightarrow> fincomm_message_block) \<Rightarrow> fincomm_shared_memory_region \<Rightarrow> fincomm_shared_memory_region" where
  "update_message i f r = r\<lparr>Messages := (Messages r)[i := f (Messages r ! i)]\<rparr>"

definition update_data :: "(finesse_msg \<Rightarrow> finesse_msg) \<Rightarrow> fincomm_message_block \<Rightarrow> fincomm_message_block" where
  "update_data f m = m\<lparr>Data := f (Data m)\<rparr>"

section \<open>The operations\<close>

text \<open>Request numbers skip zero.\<close>

function get_request_number :: "u64 \<Rightarrow> u64 \<times> u64" where
  "get_request_number n = (if n = 0 then get_request_number (n + 1) else (n, n + 1))"
  by auto
termination
  by (relation "measure (\<lambda>n. if n = 0 then 1 else 0)") auto

declare get_request_number.simps [simp del]

text \<open>
  The search for a free slot, first the one after the last allocated, then all from zero.  Run by
  one thread at a time, the compare-and-swap succeeds.
\<close>

definition choose_slot :: "nat \<Rightarrow> u64 \<Rightarrow> nat option" where
  "choose_slot hint bitmap =
     (let index = (hint + 1) mod 2 ^ 32 mod SHM_MESSAGE_COUNT in
      if bitmap = (bitmap OR make_mask64 index)
      then List.find (\<lambda>index. bitmap \<noteq> (bitmap OR make_mask64 index)) [0..<SHM_MESSAGE_COUNT]
      else Some index)"

definition allocate_slot :: "fincomm_shared_memory_region \<Rightarrow> (nat option \<times> fincomm_shared_memory_region) option" where
  "allocate_slot r =
     (case choose_slot (LastBufferAllocated r) (MsgAllocationBitmap r) of
        None \<Rightarrow> Some (None, r)
      | Some index \<Rightarrow> do {
          let r = r\<lparr>MsgAllocationBitmap := MsgAllocationBitmap r OR make_mask64 index, LastBufferAllocated := index\<rparr>;
          c_assert (RequestBitmap r AND make_mask64 index = 0);
          Some (Some index, r)
        })"

definition start_message ::
  "timespec \<Rightarrow> nat \<Rightarrow> nat \<Rightarrow> fincomm_message_block \<Rightarrow> fincomm_message_block option" where
  "start_message now cls ty m = do {
     let msg = (Data m)\<lparr>Version := FINESSE_MESSAGE_VERSION, MessageClass := cls, MsgKind := ty\<rparr>;
     c_assert (request_type_ok cls ty);
     msg \<leftarrow> FincommCallStatRequestStart now FINESSE_REQUEST msg;
     Some (m\<lparr>MessageType := FINESSE_REQUEST, BlockResult := ENOSYS, Data := msg\<rparr>)
   }"

text \<open>The result is the address of the message, or null if no slot is free.\<close>

definition FinesseGetRequestBuffer ::
  "timespec \<Rightarrow> nat \<Rightarrow> nat \<Rightarrow> nat \<Rightarrow> fincomm_shared_memory_region \<Rightarrow> (nat \<times> fincomm_shared_memory_region) option" where
  "FinesseGetRequestBuffer now base cls ty r = do {
     c_assert (ShmSignature r);
     (slot, r) \<leftarrow> allocate_slot r;
     case slot of
       None \<Rightarrow> Some (NULL, r)
     | Some index \<Rightarrow> do {
         m \<leftarrow> start_message now cls ty (Messages r ! index);
         Some (message_address base index, update_message index (\<lambda>_. m) r)
       }
   }"

definition FinesseRequestReady ::
  "timespec \<Rightarrow> nat \<Rightarrow> nat \<Rightarrow> fincomm_shared_memory_region \<Rightarrow> (u64 \<times> fincomm_shared_memory_region) option" where
  "FinesseRequestReady now base Message r = do {
     c_assert (ShmSignature r);
     index \<leftarrow> message_slot base Message;
     if MsgAllocationBitmap r AND make_mask64 index = 0 then Some (0, r)
     else do {
       let (request_id, next) = get_request_number (RequestId r);
       let r = r\<lparr>RequestId := next\<rparr>;
       let r = update_message index (\<lambda>m. m\<lparr>MsgRequestId := request_id\<rparr>) r;
       let r = update_message index (update_data (FincommCallStatQueueRequest now)) r;
       c_assert (RequestBitmap r AND make_mask64 index = 0);
       Some (request_id, r\<lparr>RequestBitmap := RequestBitmap r OR make_mask64 index\<rparr>)
     }
   }"

definition FinesseResponseReady ::
  "timespec \<Rightarrow> nat \<Rightarrow> nat \<Rightarrow> fincomm_shared_memory_region \<Rightarrow> fincomm_shared_memory_region option" where
  "FinesseResponseReady now base Message r = do {
     index \<leftarrow> message_slot base Message;
     c_assert (ShmSignature r);
     let r = update_message index (update_data (FincommCallStatQueueResponse now)) r;
     c_assert (ResponseBitmap r AND make_mask64 index = 0);
     Some (r\<lparr>ResponseBitmap := ResponseBitmap r OR make_mask64 index\<rparr>)
   }"

text \<open>With \<^verbatim>\<open>wait\<close>, a caller whose response has not come is blocked.\<close>

definition FinesseGetResponse ::
  "timespec \<Rightarrow> nat \<Rightarrow> nat \<Rightarrow> bool \<Rightarrow> fincomm_shared_memory_region \<Rightarrow> (bool \<times> fincomm_shared_memory_region) option" where
  "FinesseGetResponse now base Message wait r = do {
     c_assert (ShmSignature r);
     index \<leftarrow> message_slot base Message;
     let ready = (ResponseBitmap r AND make_mask64 index \<noteq> 0);
     c_assert (wait \<longrightarrow> ready);
     let r = (if ready then r\<lparr>ResponseBitmap := ResponseBitmap r AND NOT (make_mask64 index)\<rparr> else r);
     Some (ready, update_message index (update_data (FincommCallStatDequeueResponse now)) r)
   }"

text \<open>
  A server thread that waits for requests: \<^verbatim>\<open>ready_wait_blocks\<close> is the condition of its loop,
  and it counts itself as a waiter around the wait.
\<close>

definition ready_wait_blocks :: "fincomm_shared_memory_region \<Rightarrow> bool" where
  "ready_wait_blocks r = (RequestBitmap r = 0 \<and> \<not> ShutdownRequested r)"

definition FinesseReadyRequestWait :: "fincomm_shared_memory_region \<Rightarrow> errno option" where
  "FinesseReadyRequestWait r = do {
     c_assert (ShmSignature r);
     c_assert (\<not> ready_wait_blocks r);
     Some (if ShutdownRequested r then ENOTCONN else 0)
   }"

definition find_request :: "nat \<Rightarrow> u64 \<Rightarrow> nat option" where
  "find_request rnd bitmap =
     (case List.find (\<lambda>i. bitmap AND make_mask64 i \<noteq> 0) [rnd..<SHM_MESSAGE_COUNT] of
        Some i \<Rightarrow> Some i
      | None \<Rightarrow> List.find (\<lambda>i. bitmap AND make_mask64 i \<noteq> 0) [0..<rnd])"

text \<open>
  \<^verbatim>\<open>rnd\<close> is the value of \<^verbatim>\<open>random()\<close>.  If neither search loop finds a set bit the code tries again; it
  holds the mutex, so it would do so for ever.
\<close>

definition FinesseGetReadyRequest ::
  "timespec \<Rightarrow> nat \<Rightarrow> nat \<Rightarrow> fincomm_shared_memory_region \<Rightarrow> (errno \<times> nat \<times> fincomm_shared_memory_region) option" where
  "FinesseGetReadyRequest now base rnd r =
     (let rnd = rnd mod SHM_MESSAGE_COUNT in
      if ShutdownRequested r then Some (ENOTCONN, NULL, r)
      else if RequestBitmap r = 0 then Some (ENOENT, NULL, r)
      else case find_request rnd (RequestBitmap r) of
        None \<Rightarrow> None
      | Some index \<Rightarrow> do {
          let original_bitmap = RequestBitmap r;
          let r = r\<lparr>RequestBitmap := RequestBitmap r AND NOT (make_mask64 index)\<rparr>;
          c_assert (original_bitmap AND make_mask64 index \<noteq> 0);
          c_assert (MsgRequestId (Messages r ! index) \<noteq> 0);
          Some (0, message_address base index, update_message index (update_data (FincommCallStatDequeueRequest now)) r)
        })"

definition release_slot :: "nat \<Rightarrow> fincomm_shared_memory_region \<Rightarrow> fincomm_shared_memory_region option" where
  "release_slot index r = do {
     let new_bitmap = MsgAllocationBitmap r AND NOT (make_mask64 index);
     c_assert (MsgAllocationBitmap r \<noteq> new_bitmap);
     Some (r\<lparr>MsgAllocationBitmap := new_bitmap\<rparr>)
   }"

definition FinesseReleaseRequestBuffer ::
  "timespec \<Rightarrow> nat \<Rightarrow> nat \<Rightarrow> fincomm_shared_memory_region \<Rightarrow> fincomm_call_data
     \<Rightarrow> (fincomm_shared_memory_region \<times> fincomm_call_data) option" where
  "FinesseReleaseRequestBuffer now base Message r cd = do {
     index \<leftarrow> message_slot base Message;
     let r = update_message index (\<lambda>m. m\<lparr>MsgRequestId := 0\<rparr>) r;
     r' \<leftarrow> release_slot index r;
     let r' = update_message index (update_data (FincommCallStatCompleteRequest now)) r';
     cd \<leftarrow> FincommRecordStats (Data (Messages r' ! index)) cd;
     Some (r', cd)
   }"

definition FinesseInitializeMemoryRegion :: "fincomm_shared_memory_region \<Rightarrow> fincomm_shared_memory_region" where
  "FinesseInitializeMemoryRegion r =
     r\<lparr>ShmSignature := True, RequestBitmap := 0, ResponseBitmap := 0, RequestWaiters := 0,
       MsgAllocationBitmap := 0, RequestId := - 10, ShutdownRequested := False,
       LastBufferAllocated := SHM_MESSAGE_COUNT - 1\<rparr>"

text \<open>
  The shutdown loop.  \<^verbatim>\<open>waiters n\<close> is the number of waiters the loop sees in its \<^verbatim>\<open>n\<close>-th round; the
  result is the number of broadcasts.
\<close>

function destroy_wait :: "(nat \<Rightarrow> nat) \<Rightarrow> nat \<Rightarrow> nat \<Rightarrow> nat" where
  "destroy_wait waiters n retry =
     (if waiters n > 0 then if retry > 5 then Suc n else destroy_wait waiters (Suc n) (Suc retry) else n)"
  by auto
termination
  by (relation "measure (\<lambda>(w, n, retry). 6 - retry)") auto

declare destroy_wait.simps [simp del]

definition FinesseDestroyMemoryRegion ::
  "(nat \<Rightarrow> nat) \<Rightarrow> fincomm_shared_memory_region \<Rightarrow> (nat \<times> fincomm_shared_memory_region) option" where
  "FinesseDestroyMemoryRegion waiters r = do {
     c_assert (ShmSignature r);
     c_assert (\<not> ShutdownRequested r);
     c_assert (MsgAllocationBitmap r = 0);
     let r = r\<lparr>ShutdownRequested := True\<rparr>;
     Some (destroy_wait waiters 0 0, r)
   }"

section \<open>Slots, addresses and request numbers\<close>

lemma message_slot_address [simp]:
  assumes "i < SHM_MESSAGE_COUNT"
  shows "message_slot base (message_address base i) = Some i"
proof -
  have "int (message_address base i) - int base = 4096 * (int i + 1)"
    by (simp add: message_address_def)
  then have "message_index base (message_address base i) = i"
    using assms by (simp add: message_index_def)
  with assms show ?thesis
    by (simp add: message_slot_def Let_def)
qed

lemma message_slot_Some: "message_slot base m = Some i \<Longrightarrow> m = message_address base i \<and> i < SHM_MESSAGE_COUNT"
  by (auto simp: message_slot_def Let_def split: if_splits)

lemma message_address_inject [simp]: "message_address base i = message_address base j \<longleftrightarrow> i = j"
  by (auto simp: message_address_def)

lemma message_address_not_null [simp]: "message_address base i \<noteq> NULL"
  by (simp add: message_address_def)

lemma get_request_number_spec:
  "get_request_number n = (if n = 0 then (1, 2) else (n, n + 1))"
  by (subst get_request_number.simps) (simp add: get_request_number.simps [of 1])

lemma find_first_spec:
  "List.find P [a..<b] = Some i \<Longrightarrow> P i \<and> a \<le> i \<and> i < b"
  by (auto simp: find_Some_iff)

lemma choose_slot_free:
  assumes "choose_slot hint bitmap = Some i"
  shows "i < 64 \<and> i \<notin> slots bitmap"
proof -
  have lt: "(hint + 1) mod 2 ^ 32 mod 64 < (64 :: nat)"
    by simp
  from assms show ?thesis
    unfolding choose_slot_def Let_def
    using lt by (auto split: if_splits dest!: find_first_spec simp: or_mask64_same_iff eq_commute [of bitmap])
qed

lemma choose_slot_None:
  assumes "choose_slot hint bitmap = None"
  shows "slots bitmap = {..<64}"
proof -
  have "\<forall>i \<in> set [0..<64]. bitmap = (bitmap OR make_mask64 i)"
    using assms by (auto simp: choose_slot_def Let_def find_None_iff split: if_splits)
  then have "{..<64} \<subseteq> slots bitmap"
    using or_mask64_same_iff [of _ bitmap] by (auto simp: eq_commute [of bitmap])
  with slots_less show ?thesis
    by blast
qed

lemma find_request_set:
  assumes "find_request rnd bitmap = Some i" "rnd < 64"
  shows "i \<in> slots bitmap"
  using assms by (auto simp: find_request_def and_mask64_iff split: option.splits dest!: find_first_spec)

lemma find_request_None:
  assumes "find_request rnd bitmap = None" "rnd < 64"
  shows "bitmap = 0"
proof -
  have "i \<notin> slots bitmap" for i
  proof (cases "i < rnd")
    case True
    with assms show ?thesis
      by (auto simp: find_request_def find_None_iff and_mask64_iff split: option.splits)
  next
    case False
    with assms slots_less [of i bitmap] show ?thesis
      by (auto simp: find_request_def find_None_iff and_mask64_iff split: option.splits)
  qed
  then show ?thesis
    using slots_empty_iff by blast
qed

lemma destroy_wait_bound: "retry \<le> 6 \<Longrightarrow> n \<le> destroy_wait w n retry \<and> destroy_wait w n retry + retry \<le> n + 7"
proof (induction w n retry rule: destroy_wait.induct)
  case (1 w n retry)
  then show ?case
    by (subst (1 2) destroy_wait.simps) (cases "retry > 5", auto)
qed

end
