(* ===== verification/ShmProtocol.thy ===== *)
theory ShmProtocol
  imports ShmRegion
begin

text \<open>
  The life cycle of a message slot.  A slot is free, owned by the client, queued for the server, served by
  the server, or answered and waiting for the client; the region stores only the three bitmaps,
  so the phase is kept beside it as a ghost.  \<^verbatim>\<open>shm_step\<close> has one rule for each call that a
  client or the server makes in the phase in which the protocol allows it, in any order and
  interleaving.  The invariant ties the bitmaps to the phases; it shows that none of the
  assertions of \<^verbatim>\<open>fincomm.c\<close> can fail in a run of the protocol.
\<close>

section \<open>The region as an allocator\<close>

definition region_ok :: "fincomm_shared_memory_region \<Rightarrow> bool" where
  "region_ok r = (ShmSignature r \<and> length (Messages r) = SHM_MESSAGE_COUNT
     \<and> slots (RequestBitmap r) \<subseteq> slots (MsgAllocationBitmap r)
     \<and> slots (ResponseBitmap r) \<subseteq> slots (MsgAllocationBitmap r)
     \<and> slots (RequestBitmap r) \<inter> slots (ResponseBitmap r) = {})"

definition in_transit :: "fincomm_shared_memory_region \<Rightarrow> nat set" where
  "in_transit r = slots (RequestBitmap r) \<union> slots (ResponseBitmap r)"

definition take_slot :: "fincomm_shared_memory_region \<Rightarrow> (nat \<times> fincomm_shared_memory_region) option" where
  "take_slot r = (case allocate_slot r of Some (Some i, r') \<Rightarrow> Some (i, r') | _ \<Rightarrow> None)"

lemma allocate_slot_spec:
  assumes "region_ok r"
  shows "(\<exists>i r'. allocate_slot r = Some (Some i, r') \<and> i < 64 \<and> i \<notin> slots (MsgAllocationBitmap r)
            \<and> r' = r\<lparr>MsgAllocationBitmap := MsgAllocationBitmap r OR make_mask64 i, LastBufferAllocated := i\<rparr>)
       \<or> (allocate_slot r = Some (None, r) \<and> slots (MsgAllocationBitmap r) = {..<64})"
proof (cases "choose_slot (LastBufferAllocated r) (MsgAllocationBitmap r)")
  case None
  with choose_slot_None [OF None] show ?thesis
    by (simp add: allocate_slot_def)
next
  case (Some i)
  from choose_slot_free [OF Some] assms have "i < 64" "i \<notin> slots (MsgAllocationBitmap r)" "i \<notin> slots (RequestBitmap r)"
    by (auto simp: region_ok_def)
  with Some show ?thesis
    by (simp add: allocate_slot_def Let_def and_mask64_iff)
qed

lemma release_slot_spec:
  assumes "i \<in> slots (MsgAllocationBitmap r)"
  shows "release_slot i r = Some (r\<lparr>MsgAllocationBitmap := MsgAllocationBitmap r AND NOT (make_mask64 i)\<rparr>)"
  using assms clear_same_iff [of "MsgAllocationBitmap r" i] by (auto simp: release_slot_def Let_def)

interpretation sp: buffer_pool region_ok "\<lambda>r. {..<64} - in_transit r"
  "\<lambda>r. slots (MsgAllocationBitmap r) - in_transit r" take_slot "\<lambda>r i. release_slot i r"
proof unfold_locales
  fix r
  assume "region_ok r"
  then show "finite ({..<64} - in_transit r) \<and> slots (MsgAllocationBitmap r) - in_transit r \<subseteq> {..<64} - in_transit r"
    using slots_less by auto
next
  fix r
  assume r: "region_ok r" "slots (MsgAllocationBitmap r) - in_transit r \<noteq> {..<64} - in_transit r"
  then have "slots (MsgAllocationBitmap r) \<noteq> {..<64}"
    by auto
  with allocate_slot_spec [OF r(1)] obtain i r' where i: "allocate_slot r = Some (Some i, r')" "i < 64"
    "i \<notin> slots (MsgAllocationBitmap r)"
    "r' = r\<lparr>MsgAllocationBitmap := MsgAllocationBitmap r OR make_mask64 i, LastBufferAllocated := i\<rparr>"
    by auto
  have "i \<notin> in_transit r"
    using i(3) r(1) by (auto simp: in_transit_def region_ok_def)
  with i r(1) show "\<exists>b s'. take_slot r = Some (b, s') \<and> b \<in> {..<64} - in_transit r - (slots (MsgAllocationBitmap r) - in_transit r)
      \<and> region_ok s' \<and> slots (MsgAllocationBitmap s') - in_transit s' = insert b (slots (MsgAllocationBitmap r) - in_transit r)
      \<and> {..<64} - in_transit s' = {..<64} - in_transit r"
    by (intro exI [of _ i] exI [of _ r']) (auto simp: take_slot_def region_ok_def in_transit_def)
next
  fix r i
  assume "region_ok r" "i \<in> slots (MsgAllocationBitmap r) - in_transit r"
  then show "\<exists>s'. release_slot i r = Some s' \<and> region_ok s'
      \<and> slots (MsgAllocationBitmap s') - in_transit s' = slots (MsgAllocationBitmap r) - in_transit r - {i}
      \<and> {..<64} - in_transit s' = {..<64} - in_transit r"
    using release_slot_spec [of i r] by (auto simp: region_ok_def in_transit_def)
qed

section \<open>The protocol\<close>

datatype phase = Free | Owned | Queued | Serving | Answered

record shm_state =
  region :: fincomm_shared_memory_region
  calldata :: fincomm_call_data
  phase :: "nat \<Rightarrow> phase"

text \<open>
  What the two sides write into a message they hold: anything but the time stamps and the request
  number, which the communication package keeps for itself.
\<close>

definition write_message ::
  "FINESSE_MESSAGE_TYPE \<Rightarrow> int \<Rightarrow> nat \<Rightarrow> nat \<Rightarrow> int \<Rightarrow> fincomm_message_block \<Rightarrow> fincomm_message_block" where
  "write_message mtype res cls kind mres m =
     m\<lparr>MessageType := mtype, BlockResult := res, Data := (Data m)\<lparr>MessageClass := cls, MsgKind := kind, MsgResult := mres\<rparr>\<rparr>"

definition clock_ok :: "timespec \<Rightarrow> bool" where
  "clock_ok now = (normal_time now \<and> 0 < tv_sec now)"

inductive shm_step :: "nat \<Rightarrow> shm_state \<Rightarrow> shm_state \<Rightarrow> bool" for base where
  step_get: "\<lbrakk>clock_ok now; FinesseGetRequestBuffer now base cls ty (region s) = Some (m, r'); m = message_address base i\<rbrakk>
     \<Longrightarrow> shm_step base s (s\<lparr>region := r', phase := (phase s)(i := Owned)\<rparr>)"
| step_get_full: "FinesseGetRequestBuffer now base cls ty (region s) = Some (NULL, r')
     \<Longrightarrow> shm_step base s (s\<lparr>region := r'\<rparr>)"
| step_write: "\<lbrakk>phase s i = Owned \<or> phase s i = Serving\<rbrakk>
     \<Longrightarrow> shm_step base s (s\<lparr>region := update_message i (write_message mtype res cls kind mres) (region s)\<rparr>)"
| step_ready: "\<lbrakk>clock_ok now; phase s i = Owned; FinesseRequestReady now base (message_address base i) (region s) = Some (rid, r')\<rbrakk>
     \<Longrightarrow> shm_step base s (s\<lparr>region := r', phase := (phase s)(i := Queued)\<rparr>)"
| step_fetch: "\<lbrakk>clock_ok now; FinesseGetReadyRequest now base rnd (region s) = Some (0, message_address base i, r')\<rbrakk>
     \<Longrightarrow> shm_step base s (s\<lparr>region := r', phase := (phase s)(i := Serving)\<rparr>)"
| step_fetch_none: "\<lbrakk>FinesseGetReadyRequest now base rnd (region s) = Some (st, m, r'); st \<noteq> 0\<rbrakk>
     \<Longrightarrow> shm_step base s (s\<lparr>region := r'\<rparr>)"
| step_respond: "\<lbrakk>clock_ok now; phase s i = Serving; FinesseResponseReady now base (message_address base i) (region s) = Some r'\<rbrakk>
     \<Longrightarrow> shm_step base s (s\<lparr>region := r', phase := (phase s)(i := Answered)\<rparr>)"
| step_receive: "\<lbrakk>clock_ok now; phase s i = Answered; FinesseGetResponse now base (message_address base i) wait (region s) = Some (True, r')\<rbrakk>
     \<Longrightarrow> shm_step base s (s\<lparr>region := r', phase := (phase s)(i := Owned)\<rparr>)"
| step_release: "\<lbrakk>clock_ok now; phase s i = Owned; FinesseReleaseRequestBuffer now base (message_address base i) (region s) (calldata s) = Some (r', cd)\<rbrakk>
     \<Longrightarrow> shm_step base s (s\<lparr>region := r', calldata := cd, phase := (phase s)(i := Free)\<rparr>)"
| step_shutdown: "FinesseDestroyMemoryRegion waiters (region s) = Some (n, r')
     \<Longrightarrow> shm_step base s (s\<lparr>region := r'\<rparr>)"

definition shm_init :: "fincomm_shared_memory_region \<Rightarrow> fincomm_call_data \<Rightarrow> shm_state" where
  "shm_init r cd = \<lparr>region = FinesseInitializeMemoryRegion r, calldata = cd, phase = (\<lambda>_. Free)\<rparr>"

inductive shm_reachable :: "nat \<Rightarrow> shm_state \<Rightarrow> bool" for base where
  init: "\<lbrakk>length (Messages r) = SHM_MESSAGE_COUNT; call_data_ok cd\<rbrakk> \<Longrightarrow> shm_reachable base (shm_init r cd)"
| step: "\<lbrakk>shm_reachable base s; shm_step base s s'\<rbrakk> \<Longrightarrow> shm_reachable base s'"

section \<open>The invariant\<close>

definition message_ok :: "fincomm_message_block \<Rightarrow> bool" where
  "message_ok m = (stats_ok (Stats (Data m)) \<and> 0 < tv_sec (RequestStartTime (Stats (Data m)))
     \<and> request_type_ok (RequestClass (Stats (Data m))) (message_stats.RequestType (Stats (Data m))))"

definition shm_inv :: "shm_state \<Rightarrow> bool" where
  "shm_inv s = (ShmSignature (region s) \<and> length (Messages (region s)) = SHM_MESSAGE_COUNT
     \<and> slots (MsgAllocationBitmap (region s)) = {i. phase s i \<noteq> Free}
     \<and> slots (RequestBitmap (region s)) = {i. phase s i = Queued}
     \<and> slots (ResponseBitmap (region s)) = {i. phase s i = Answered}
     \<and> (\<forall>i. phase s i \<noteq> Free \<longrightarrow> message_ok (Messages (region s) ! i))
     \<and> (\<forall>i. phase s i = Queued \<longrightarrow> MsgRequestId (Messages (region s) ! i) \<noteq> 0)
     \<and> call_data_ok (calldata s))"

lemma shm_inv_region_ok: "shm_inv s \<Longrightarrow> region_ok (region s)"
  by (auto simp: shm_inv_def region_ok_def)

lemma shm_inv_phase_less: "\<lbrakk>shm_inv s; phase s i \<noteq> Free\<rbrakk> \<Longrightarrow> i < 64"
  using slots_less [of i "MsgAllocationBitmap (region s)"] by (simp add: shm_inv_def)

lemma update_message_simps [simp]:
  "ShmSignature (update_message i f r) = ShmSignature r"
  "RequestBitmap (update_message i f r) = RequestBitmap r"
  "ResponseBitmap (update_message i f r) = ResponseBitmap r"
  "MsgAllocationBitmap (update_message i f r) = MsgAllocationBitmap r"
  "ShutdownRequested (update_message i f r) = ShutdownRequested r"
  "length (Messages (update_message i f r)) = length (Messages r)"
  "i < length (Messages r) \<Longrightarrow> Messages (update_message i f r) ! j = (if j = i then f (Messages r ! i) else Messages r ! j)"
  by (auto simp: update_message_def)

lemma start_message_spec:
  assumes "clock_ok now" "request_type_ok cls ty"
  shows "\<exists>m'. start_message now cls ty m = Some m' \<and> message_ok m'"
  using assms
  by (auto simp: start_message_def Let_def FincommCallStatRequestStart_def message_ok_def stats_ok_def
      zero_time_def normal_time_def clock_ok_def)

lemma start_message_ok: "\<lbrakk>start_message now cls ty m = Some m'; clock_ok now\<rbrakk> \<Longrightarrow> message_ok m'"
  using start_message_spec [of now cls ty m] by (auto simp: start_message_def Let_def split: if_splits)

lemma message_ok_stamps [simp]:
  assumes "clock_ok now"
  shows "message_ok m \<Longrightarrow> message_ok (update_data (FincommCallStatQueueRequest now) m)"
    "message_ok m \<Longrightarrow> message_ok (update_data (FincommCallStatDequeueRequest now) m)"
    "message_ok m \<Longrightarrow> message_ok (update_data (FincommCallStatQueueResponse now) m)"
    "message_ok m \<Longrightarrow> message_ok (update_data (FincommCallStatDequeueResponse now) m)"
  using assms
  by (auto simp: message_ok_def stats_ok_def update_data_def clock_ok_def FincommCallStatQueueRequest_def
      FincommCallStatDequeueRequest_def FincommCallStatQueueResponse_def FincommCallStatDequeueResponse_def)

lemma message_ok_write [simp]: "message_ok (write_message a b c d e m) = message_ok m"
  by (simp add: message_ok_def write_message_def)

lemma message_ok_id [simp]: "message_ok (m\<lparr>MsgRequestId := x\<rparr>) = message_ok m"
  by (simp add: message_ok_def)

lemma update_data_id [simp]: "MsgRequestId (update_data f m) = MsgRequestId m"
  by (simp add: update_data_def)

lemma write_message_id [simp]: "MsgRequestId (write_message a b c d e m) = MsgRequestId m"
  by (simp add: write_message_def)

lemma shm_inv_init [preserve]:
  "\<lbrakk>length (Messages r) = SHM_MESSAGE_COUNT; call_data_ok cd\<rbrakk> \<Longrightarrow> shm_inv (shm_init r cd)"
  by (simp add: shm_inv_def shm_init_def FinesseInitializeMemoryRegion_def)

section \<open>Each operation under the invariant\<close>

lemma GetRequestBuffer_spec:
  assumes "shm_inv s" and "clock_ok now" and "request_type_ok cls ty"
  shows "(\<exists>i r'. FinesseGetRequestBuffer now base cls ty (region s) = Some (message_address base i, r')
            \<and> i < 64 \<and> phase s i = Free \<and> shm_inv (s\<lparr>region := r', phase := (phase s)(i := Owned)\<rparr>))
       \<or> (FinesseGetRequestBuffer now base cls ty (region s) = Some (NULL, region s) \<and> (\<forall>i < 64. phase s i \<noteq> Free))"
proof -
  let ?r = "region s"
  have inv: "ShmSignature ?r" "length (Messages ?r) = 64" "slots (MsgAllocationBitmap ?r) = {i. phase s i \<noteq> Free}"
    using assms(1) by (auto simp: shm_inv_def)
  from allocate_slot_spec [OF shm_inv_region_ok [OF assms(1)]] show ?thesis
  proof (elim disjE exE conjE)
    fix i r'
    assume a: "allocate_slot ?r = Some (Some i, r')" "i < 64" "i \<notin> slots (MsgAllocationBitmap ?r)"
      "r' = ?r\<lparr>MsgAllocationBitmap := MsgAllocationBitmap ?r OR make_mask64 i, LastBufferAllocated := i\<rparr>"
    obtain m where m: "start_message now cls ty (Messages r' ! i) = Some m" "message_ok m"
      using start_message_spec [OF assms(2,3)] by blast
    have get: "FinesseGetRequestBuffer now base cls ty ?r = Some (message_address base i, update_message i (\<lambda>_. m) r')"
      using a(1) m(1) inv(1) by (simp add: FinesseGetRequestBuffer_def)
    have free: "phase s i = Free"
      using a(3) inv(3) by auto
    have "shm_inv (s\<lparr>region := update_message i (\<lambda>_. m) r', phase := (phase s)(i := Owned)\<rparr>)"
      using assms(1) a(2,4) m(2) free by (auto simp: shm_inv_def)
    with get free a(2) show ?thesis
      by blast
  next
    assume "allocate_slot ?r = Some (None, ?r)" "slots (MsgAllocationBitmap ?r) = {..<64}"
    with inv show ?thesis
      by (auto simp: FinesseGetRequestBuffer_def)
  qed
qed

lemma GetRequestBuffer_type:
  assumes "FinesseGetRequestBuffer now base cls ty r = Some (message_address base i, r')"
  shows "request_type_ok cls ty"
  using assms by (auto simp: FinesseGetRequestBuffer_def start_message_def Let_def c_assert_def
      split: if_splits option.splits elim!: bind_eq_SomeE)

lemma GetRequestBuffer_null:
  assumes "FinesseGetRequestBuffer now base cls ty r = Some (NULL, r')"
  shows "r' = r"
  using assms by (auto simp: FinesseGetRequestBuffer_def allocate_slot_def Let_def
      split: if_splits option.splits elim!: bind_eq_SomeE)

lemma RequestReady_spec:
  assumes "shm_inv s" and "clock_ok now" and "phase s i = Owned"
  shows "\<exists>rid r'. FinesseRequestReady now base (message_address base i) (region s) = Some (rid, r') \<and> rid \<noteq> 0
    \<and> shm_inv (s\<lparr>region := r', phase := (phase s)(i := Queued)\<rparr>)"
proof -
  let ?r = "region s"
  have i: "i < 64"
    using shm_inv_phase_less [OF assms(1)] assms(3) by simp
  have inv: "ShmSignature ?r" "length (Messages ?r) = 64" "i \<in> slots (MsgAllocationBitmap ?r)" "i \<notin> slots (RequestBitmap ?r)"
    using assms by (auto simp: shm_inv_def)
  obtain rid nxt' where n: "get_request_number (RequestId ?r) = (rid, nxt')" "rid \<noteq> 0"
    by (cases "RequestId ?r = 0") (auto simp: get_request_number_spec)
  let ?r1 = "update_message i (update_data (FincommCallStatQueueRequest now))
     (update_message i (\<lambda>m. m\<lparr>MsgRequestId := rid\<rparr>) (?r\<lparr>RequestId := nxt'\<rparr>))"
  have "FinesseRequestReady now base (message_address base i) ?r = Some (rid, ?r1\<lparr>RequestBitmap := RequestBitmap ?r OR make_mask64 i\<rparr>)"
    using inv i n by (simp add: FinesseRequestReady_def and_mask64_iff)
  moreover have "shm_inv (s\<lparr>region := ?r1\<lparr>RequestBitmap := RequestBitmap ?r OR make_mask64 i\<rparr>, phase := (phase s)(i := Queued)\<rparr>)"
    using assms i n inv by (auto simp: shm_inv_def)
  ultimately show ?thesis
    using n(2) by blast
qed

lemma GetReadyRequest_spec:
  assumes "shm_inv s" and "clock_ok now"
  shows "(\<exists>i r'. FinesseGetReadyRequest now base rnd (region s) = Some (0, message_address base i, r')
            \<and> phase s i = Queued \<and> \<not> ShutdownRequested (region s)
            \<and> shm_inv (s\<lparr>region := r', phase := (phase s)(i := Serving)\<rparr>))
       \<or> (FinesseGetReadyRequest now base rnd (region s)
            = Some (if ShutdownRequested (region s) then ENOTCONN else ENOENT, NULL, region s)
          \<and> (ShutdownRequested (region s) \<or> (\<forall>i. phase s i \<noteq> Queued)))"
proof (cases "ShutdownRequested (region s) \<or> RequestBitmap (region s) = 0")
  case True
  then have "ShutdownRequested (region s) \<or> (\<forall>i. phase s i \<noteq> Queued)"
    using assms(1) by (auto simp: shm_inv_def)
  with True show ?thesis
    by (auto simp: FinesseGetReadyRequest_def Let_def)
next
  case False
  let ?r = "region s"
  obtain i where f: "find_request (rnd mod 64) (RequestBitmap ?r) = Some i"
    using find_request_None [of "rnd mod 64" "RequestBitmap ?r"] False by (cases "find_request (rnd mod 64) (RequestBitmap ?r)") auto
  then have iq: "i \<in> slots (RequestBitmap ?r)"
    by (rule find_request_set) simp
  then have q: "phase s i = Queued"
    using assms(1) by (auto simp: shm_inv_def)
  then have i: "i < 64"
    using shm_inv_phase_less [OF assms(1)] by simp
  let ?r1 = "update_message i (update_data (FincommCallStatDequeueRequest now))
      (?r\<lparr>RequestBitmap := RequestBitmap ?r AND NOT (make_mask64 i)\<rparr>)"
  have "FinesseGetReadyRequest now base rnd ?r = Some (0, message_address base i, ?r1)"
    using False f iq q assms(1) by (simp add: FinesseGetReadyRequest_def Let_def and_mask64_iff shm_inv_def)
  moreover have "shm_inv (s\<lparr>region := ?r1, phase := (phase s)(i := Serving)\<rparr>)"
    using assms i q by (auto simp: shm_inv_def)
  ultimately show ?thesis
    using q False by blast
qed

lemma ResponseReady_spec:
  assumes "shm_inv s" and "clock_ok now" and "phase s i = Serving"
  shows "\<exists>r'. FinesseResponseReady now base (message_address base i) (region s) = Some r'
    \<and> shm_inv (s\<lparr>region := r', phase := (phase s)(i := Answered)\<rparr>)"
proof -
  let ?r = "region s"
  have i: "i < 64"
    using shm_inv_phase_less [OF assms(1)] assms(3) by simp
  have inv: "ShmSignature ?r" "i \<notin> slots (ResponseBitmap ?r)"
    using assms by (auto simp: shm_inv_def)
  let ?r1 = "update_message i (update_data (FincommCallStatQueueResponse now)) ?r"
  have "FinesseResponseReady now base (message_address base i) ?r = Some (?r1\<lparr>ResponseBitmap := ResponseBitmap ?r OR make_mask64 i\<rparr>)"
    using inv i by (simp add: FinesseResponseReady_def and_mask64_iff)
  moreover have "shm_inv (s\<lparr>region := ?r1\<lparr>ResponseBitmap := ResponseBitmap ?r OR make_mask64 i\<rparr>, phase := (phase s)(i := Answered)\<rparr>)"
    using assms i by (auto simp: shm_inv_def)
  ultimately show ?thesis
    by blast
qed

lemma GetResponse_spec:
  assumes "shm_inv s" and "clock_ok now" and "phase s i = Answered"
  shows "\<exists>r'. FinesseGetResponse now base (message_address base i) wait (region s) = Some (True, r')
    \<and> shm_inv (s\<lparr>region := r', phase := (phase s)(i := Owned)\<rparr>)"
proof -
  let ?r = "region s"
  have i: "i < 64"
    using shm_inv_phase_less [OF assms(1)] assms(3) by simp
  have inv: "ShmSignature ?r" "i \<in> slots (ResponseBitmap ?r)"
    using assms by (auto simp: shm_inv_def)
  let ?r1 = "update_message i (update_data (FincommCallStatDequeueResponse now))
      (?r\<lparr>ResponseBitmap := ResponseBitmap ?r AND NOT (make_mask64 i)\<rparr>)"
  have "FinesseGetResponse now base (message_address base i) wait ?r = Some (True, ?r1)"
    using inv i by (simp add: FinesseGetResponse_def and_mask64_iff Let_def)
  moreover have "shm_inv (s\<lparr>region := ?r1, phase := (phase s)(i := Owned)\<rparr>)"
    using assms i by (auto simp: shm_inv_def)
  ultimately show ?thesis
    by blast
qed

definition released :: "timespec \<Rightarrow> nat \<Rightarrow> fincomm_shared_memory_region \<Rightarrow> fincomm_shared_memory_region" where
  "released now i r = update_message i (update_data (FincommCallStatCompleteRequest now))
     ((update_message i (\<lambda>m. m\<lparr>MsgRequestId := 0\<rparr>) r)\<lparr>MsgAllocationBitmap := MsgAllocationBitmap r AND NOT (make_mask64 i)\<rparr>)"

lemma Release_eq:
  assumes "shm_inv s" and "phase s i = Owned"
  shows "FinesseReleaseRequestBuffer now base (message_address base i) (region s) cd =
    map_option (Pair (released now i (region s))) (FincommRecordStats (Data (Messages (released now i (region s)) ! i)) cd)"
proof -
  have "i < 64" "i \<in> slots (MsgAllocationBitmap (region s))"
    using shm_inv_phase_less [OF assms(1)] assms by (auto simp: shm_inv_def)
  then show ?thesis
    using release_slot_spec [of i "update_message i (\<lambda>m. m\<lparr>MsgRequestId := 0\<rparr>) (region s)"]
    by (simp add: FinesseReleaseRequestBuffer_def released_def Let_def map_option_case split: option.splits)
qed

lemma released_stats:
  assumes "i < length (Messages r)"
  shows "Stats (Data (Messages (released now i r) ! i)) = (Stats (Data (Messages r ! i)))\<lparr>RequestCompletionTime := now\<rparr>"
  using assms by (simp add: released_def update_message_def update_data_def FincommCallStatCompleteRequest_def)

lemma released_inv:
  assumes "shm_inv s" "phase s i = Owned" "call_data_ok cd"
  shows "shm_inv (s\<lparr>region := released now i (region s), calldata := cd, phase := (phase s)(i := Free)\<rparr>)"
proof -
  have "i < 64"
    using shm_inv_phase_less [OF assms(1)] assms(2) by simp
  then show ?thesis
    using assms by (auto simp: shm_inv_def released_def)
qed

lemma Release_spec:
  assumes "shm_inv s" "clock_ok now" "phase s i = Owned"
    and "tv_sec now \<le> tv_sec (RequestStartTime (Stats (Data (Messages (region s) ! i)))) + 3600"
  shows "\<exists>r' cd. FinesseReleaseRequestBuffer now base (message_address base i) (region s) (calldata s) = Some (r', cd)"
proof -
  let ?s = "Stats (Data (Messages (region s) ! i))"
  have i: "i < length (Messages (region s))" and m: "message_ok (Messages (region s) ! i)"
    using shm_inv_phase_less [OF assms(1)] assms(1,3) by (auto simp: shm_inv_def)
  have "tv_sec (comm_timespec_diff (RequestStartTime ?s) now) \<le> 3600"
    using assms(4) by (auto simp: comm_timespec_diff_def zero_time_def)
  then have "FincommRecordStats (Data (Messages (released now i (region s)) ! i)) (calldata s) \<noteq> None"
    using m by (auto simp: FincommRecordStats_def released_stats [OF i] message_ok_def request_type_ok_def Let_def split: if_splits)
  then show ?thesis
    using Release_eq [OF assms(1,3), of now base "calldata s"] by auto
qed

lemma Release_inv:
  assumes "shm_inv s" "clock_ok now" "phase s i = Owned"
    and "FinesseReleaseRequestBuffer now base (message_address base i) (region s) (calldata s) = Some (r', cd)"
  shows "shm_inv (s\<lparr>region := r', calldata := cd, phase := (phase s)(i := Free)\<rparr>)"
proof -
  have i: "i < length (Messages (region s))" and m: "message_ok (Messages (region s) ! i)"
    using shm_inv_phase_less [OF assms(1)] assms(1,3) by (auto simp: shm_inv_def)
  from assms(4) have r: "r' = released now i (region s)"
    "FincommRecordStats (Data (Messages (released now i (region s)) ! i)) (calldata s) = Some cd"
    using Release_eq [OF assms(1,3), of now base "calldata s"] by auto
  have "stats_ok (Stats (Data (Messages (released now i (region s)) ! i)))"
    using m assms(2) by (simp add: released_stats [OF i] message_ok_def stats_ok_def clock_ok_def)
  then have "call_data_ok cd"
    using assms(1) by (intro record_stats_ok [OF _ _ r(2)]) (simp_all add: shm_inv_def)
  with released_inv [OF assms(1,3)] r(1) show ?thesis
    by blast
qed

lemmas op_specs = RequestReady_spec ResponseReady_spec GetResponse_spec

lemma shm_step_inv [preserve]:
  assumes "shm_step base s s'" and inv: "shm_inv s"
  shows "shm_inv s'"
  using assms(1)
proof cases
  case (step_get now cls ty m r' i)
  then have "request_type_ok cls ty"
    using GetRequestBuffer_type by blast
  from GetRequestBuffer_spec [OF inv step_get(2) this, of base] step_get show ?thesis
    by auto
next
  case (step_get_full now cls ty r')
  then show ?thesis
    using GetRequestBuffer_null inv by fastforce
next
  case (step_write i mtype res cls kind mres)
  then have "i < 64"
    using shm_inv_phase_less [OF inv, of i] by auto
  with step_write inv show ?thesis
    by (auto simp: shm_inv_def)
next
  case (step_ready now i rid r')
  with RequestReady_spec [OF inv step_ready(2,3), of base] show ?thesis
    by auto
next
  case (step_fetch now rnd i r')
  with GetReadyRequest_spec [OF inv step_fetch(2), of base rnd] show ?thesis
    by auto
next
  case (step_fetch_none now rnd st m r')
  then have "r' = region s"
    by (auto simp: FinesseGetReadyRequest_def Let_def split: if_splits option.splits)
  with step_fetch_none inv show ?thesis
    by simp
next
  case (step_respond now i r')
  with ResponseReady_spec [OF inv step_respond(2,3), of base] show ?thesis
    by auto
next
  case (step_receive now i wait r')
  with GetResponse_spec [OF inv step_receive(2,3), of base wait] show ?thesis
    by auto
next
  case (step_release now i r' cd)
  with Release_inv [OF inv] show ?thesis
    by blast
next
  case (step_shutdown waiters n r')
  then show ?thesis
    using inv by (auto simp: FinesseDestroyMemoryRegion_def Let_def shm_inv_def split: if_splits)
qed

lemma shm_reachable_inv: "shm_reachable base s \<Longrightarrow> shm_inv s"
  by (induction rule: shm_reachable.induct) (auto intro: shm_inv_init shm_step_inv)

section \<open>Properties\<close>

text \<open>
  C2: the assertions of the communication package never fail in a run of the protocol.  In every
  state that clients and server reach by calling the operations in the phases in which they may, in any
  interleaving: a buffer request is answered (with a free slot, or null when all 64 are in use); a client can ready
  every slot it owns and gets a request number that is not zero; the server can always ask for
  work, can answer every request it serves; an answered client gets its response; and an owned slot can be
  released if the call took at most an hour.
\<close>

theorem shm_protocol_never_aborts:
  assumes "shm_reachable base s" and "clock_ok now"
  shows "(request_type_ok cls ty \<longrightarrow> FinesseGetRequestBuffer now base cls ty (region s) \<noteq> None)
    \<and> (phase s i = Owned \<longrightarrow>
        (\<exists>rid r'. FinesseRequestReady now base (message_address base i) (region s) = Some (rid, r') \<and> rid \<noteq> 0))
    \<and> FinesseGetReadyRequest now base rnd (region s) \<noteq> None
    \<and> (phase s i = Serving \<longrightarrow> FinesseResponseReady now base (message_address base i) (region s) \<noteq> None)
    \<and> (phase s i = Answered \<longrightarrow>
        (\<exists>r'. FinesseGetResponse now base (message_address base i) wait (region s) = Some (True, r')))
    \<and> (phase s i = Owned \<and> tv_sec now \<le> tv_sec (RequestStartTime (Stats (Data (Messages (region s) ! i)))) + 3600
       \<longrightarrow> FinesseReleaseRequestBuffer now base (message_address base i) (region s) (calldata s) \<noteq> None)"
proof -
  have inv: "shm_inv s"
    using assms(1) by (rule shm_reachable_inv)
  show ?thesis
    using GetRequestBuffer_spec [OF inv assms(2), of cls ty base] RequestReady_spec [OF inv assms(2), of i base]
      GetReadyRequest_spec [OF inv assms(2), of base rnd] ResponseReady_spec [OF inv assms(2), of i base]
      GetResponse_spec [OF inv assms(2), of i base wait] Release_spec [OF inv assms(2), of i base]
    by auto
qed

definition example_message :: fincomm_message_block where
  "example_message = \<lparr>MsgRequestId = 0, BlockResult = 0, MessageType = FINESSE_REQUEST,
     Data = \<lparr>Version = 0, MessageClass = 0, MsgResult = 0, Stats = zero_stats, MsgKind = 0\<rparr>\<rparr>"

definition example_region :: fincomm_shared_memory_region where
  "example_region = \<lparr>ShmSignature = False, RequestBitmap = 0, RequestWaiters = 0, ResponseBitmap = 0,
     LastBufferAllocated = 0, MsgAllocationBitmap = 0, RequestId = 0, ShutdownRequested = False,
     Messages = replicate 64 example_message\<rparr>"

lemma example_reachable: "shm_reachable base (shm_init example_region empty_call_data)"
  by (rule shm_reachable.init) (simp_all add: example_region_def empty_call_data_ok)

theorem shm_protocol_never_aborts_witness:
  "\<exists>s. shm_reachable 4096 s \<and> clock_ok \<lparr>tv_sec = 9, tv_nsec = 0\<rparr>
     \<and> FinesseGetRequestBuffer \<lparr>tv_sec = 9, tv_nsec = 0\<rparr> 4096 251 44 (region s) \<noteq> None"
proof -
  have c: "clock_ok \<lparr>tv_sec = 9, tv_nsec = 0\<rparr>"
    by (simp add: clock_ok_def normal_time_def)
  moreover have "request_type_ok 251 44"
    by (simp add: request_type_ok_def)
  ultimately show ?thesis
    using shm_protocol_never_aborts [OF example_reachable [of 4096] c, of 251 44 0 0 True] example_reachable by blast
qed

definition example_time :: timespec where
  "example_time = \<lparr>tv_sec = 9, tv_nsec = 0\<rparr>"

lemma example_time_ok: "clock_ok example_time"
  by (simp add: clock_ok_def normal_time_def example_time_def)

lemma GetRequestBuffer_shutdown:
  "FinesseGetRequestBuffer now base cls ty r = Some (m, r') \<Longrightarrow> ShutdownRequested r' = ShutdownRequested r"
  by (auto simp: FinesseGetRequestBuffer_def allocate_slot_def Let_def
      split: if_splits option.splits elim!: bind_eq_SomeE)

lemma RequestReady_shutdown:
  "FinesseRequestReady now base m r = Some (rid, r') \<Longrightarrow> ShutdownRequested r' = ShutdownRequested r"
  by (auto simp: FinesseRequestReady_def Let_def split: if_splits prod.splits elim!: bind_eq_SomeE)

lemma example_queued: "\<exists>s i. shm_reachable 4096 s \<and> \<not> ShutdownRequested (region s) \<and> phase s i = Queued"
proof -
  let ?s = "shm_init example_region empty_call_data"
  note r0 = example_reachable [of 4096]
  have free: "phase ?s 0 = Free" and up: "\<not> ShutdownRequested (region ?s)"
    by (simp_all add: shm_init_def FinesseInitializeMemoryRegion_def)
  have "request_type_ok 251 44"
    by (simp add: request_type_ok_def)
  from GetRequestBuffer_spec [OF shm_reachable_inv [OF r0] example_time_ok this, of 4096] free obtain i r1
    where g: "FinesseGetRequestBuffer example_time 4096 251 44 (region ?s) = Some (message_address 4096 i, r1)"
    by auto
  let ?s1 = "?s\<lparr>region := r1, phase := (phase ?s)(i := Owned)\<rparr>"
  have r1: "shm_reachable 4096 ?s1"
    by (rule shm_reachable.step [OF r0]) (rule step_get [OF example_time_ok g refl])
  from RequestReady_spec [OF shm_reachable_inv [OF r1] example_time_ok, of i 4096] obtain rid r2
    where q: "FinesseRequestReady example_time 4096 (message_address 4096 i) (region ?s1) = Some (rid, r2)"
    by auto
  have "shm_reachable 4096 (?s1\<lparr>region := r2, phase := (phase ?s1)(i := Queued)\<rparr>)"
    by (rule shm_reachable.step [OF r1]) (rule step_ready [OF example_time_ok _ q], simp)
  moreover have "\<not> ShutdownRequested r2"
    using GetRequestBuffer_shutdown [OF g] RequestReady_shutdown [OF q] up by simp
  ultimately show ?thesis
    by (intro exI [of _ "?s1\<lparr>region := r2, phase := (phase ?s1)(i := Queued)\<rparr>"] exI [of _ i]) simp
qed

text \<open>A server that asks for work several times in a row: the clock and the random start of each scan are given.\<close>

fun fetch_all :: "addr \<Rightarrow> (timespec \<times> nat) list \<Rightarrow> fincomm_shared_memory_region \<Rightarrow> ((errno \<times> addr) list \<times> fincomm_shared_memory_region) option" where
  "fetch_all base [] r = Some ([], r)"
| "fetch_all base ((now, rnd) # calls) r = do {
     (status, message, r) \<leftarrow> FinesseGetReadyRequest now base rnd r;
     (results, r) \<leftarrow> fetch_all base calls r;
     Some ((status, message) # results, r) }"

definition queued :: "shm_state \<Rightarrow> nat set" where
  "queued s = {i. phase s i = Queued}"

definition serve :: "nat set \<Rightarrow> fincomm_shared_memory_region \<Rightarrow> shm_state \<Rightarrow> shm_state" where
  "serve is r s = s\<lparr>region := r, phase := (\<lambda>i. if i \<in> is then Serving else phase s i)\<rparr>"

lemma serve_simps [simp]: "region (serve is r s) = r" "queued (serve is r s) = queued s - is" "serve js r' (serve is r s) = serve (is \<union> js) r' s"
  by (auto simp: serve_def queued_def fun_eq_iff)

lemma queued_below: "shm_inv s \<Longrightarrow> queued s \<subseteq> {..<64}"
  unfolding queued_def by (auto intro!: shm_inv_phase_less)

lemma queued_finite: "shm_inv s \<Longrightarrow> finite (queued s)"
  using finite_subset [OF queued_below] by blast

lemma GetReadyRequest_shutdown:
  "FinesseGetReadyRequest now base rnd r = Some (st, m, r') \<Longrightarrow> ShutdownRequested r' = ShutdownRequested r"
  by (auto simp: FinesseGetReadyRequest_def Let_def split: if_splits option.splits elim!: bind_eq_SomeE)

lemma fetch_step:
  assumes "shm_reachable base s" "clock_ok now" "\<not> ShutdownRequested (region s)"
  shows "if queued s = {} then FinesseGetReadyRequest now base rnd (region s) = Some (ENOENT, NULL, region s)
    else \<exists>i r'. FinesseGetReadyRequest now base rnd (region s) = Some (0, message_address base i, r') \<and> i \<in> queued s
      \<and> \<not> ShutdownRequested r' \<and> shm_reachable base (serve {i} r' s)"
proof -
  have inv: "shm_inv s"
    using assms(1) by (rule shm_reachable_inv)
  from GetReadyRequest_spec [OF inv assms(2), of base rnd] show ?thesis
  proof (elim disjE exE conjE)
    fix i r'
    assume a: "FinesseGetReadyRequest now base rnd (region s) = Some (0, message_address base i, r')" "phase s i = Queued"
    have "serve {i} r' s = s\<lparr>region := r', phase := (phase s)(i := Serving)\<rparr>"
      by (auto simp: serve_def fun_eq_iff)
    moreover have "shm_reachable base (s\<lparr>region := r', phase := (phase s)(i := Serving)\<rparr>)"
      by (rule shm_reachable.step [OF assms(1)]) (rule step_fetch [OF assms(2) a(1)])
    ultimately show ?thesis
      using a GetReadyRequest_shutdown [OF a(1)] assms(3) by (auto simp: queued_def)
  qed (use assms(3) in \<open>auto simp: queued_def\<close>)
qed

lemma fetch_all_idle:
  assumes "shm_reachable base s" "\<not> ShutdownRequested (region s)" "queued s = {}" "\<forall>(now, rnd) \<in> set calls. clock_ok now"
  shows "fetch_all base calls (region s) = Some (replicate (length calls) (ENOENT, NULL), region s)"
  using assms(4)
proof (induction calls)
  case (Cons call calls)
  then show ?case
    using fetch_step [OF assms(1) _ assms(2), of "fst call" "snd call"] assms(3) by (cases call) simp
qed simp

lemma fetch_all_spec:
  assumes "shm_reachable base s" "\<not> ShutdownRequested (region s)" "\<forall>(now, rnd) \<in> set calls. clock_ok now"
  shows "\<exists>is r'. fetch_all base calls (region s) =
      Some (map (\<lambda>i. (0, message_address base i)) is @ replicate (length calls - card (queued s)) (ENOENT, NULL), r')
    \<and> distinct is \<and> set is \<subseteq> queued s \<and> length is = min (length calls) (card (queued s)) \<and> shm_reachable base (serve (set is) r' s)"
  using assms
proof (induction calls arbitrary: s)
  case Nil
  have "serve {} (region s) s = s"
    by (simp add: serve_def)
  then show ?case
    using Nil.prems(1) by simp
next
  case (Cons call calls)
  obtain now rnd where call: "call = (now, rnd)" "clock_ok now"
    using Cons.prems(3) by (cases call) auto
  have fin: "finite (queued s)"
    by (rule queued_finite [OF shm_reachable_inv [OF Cons.prems(1)]])
  show ?case
  proof (cases "queued s = {}")
    case True
    have "serve {} (region s) s = s"
      by (simp add: serve_def)
    then show ?thesis
      using fetch_all_idle [OF Cons.prems(1,2) True Cons.prems(3)] Cons.prems(1) True by (intro exI [of _ "[]"] exI [of _ "region s"]) simp
  next
    case False
    then obtain i r where r: "FinesseGetReadyRequest now base rnd (region s) = Some (0, message_address base i, r)" "i \<in> queued s"
      "\<not> ShutdownRequested r" "shm_reachable base (serve {i} r s)"
      using fetch_step [OF Cons.prems(1) call(2) Cons.prems(2), of rnd] by auto
    define q where "q = card (queued s - {i})"
    have n: "card (queued s) = Suc q"
      using card.remove [OF fin r(2)] by (simp only: q_def)
    obtain "is" r' where f: "fetch_all base calls r =
        Some (map (\<lambda>i. (0, message_address base i)) is @ replicate (length calls - q) (ENOENT, NULL), r')"
      "distinct is" "set is \<subseteq> queued s - {i}" "length is = min (length calls) q"
      "shm_reachable base (serve (set is) r' (serve {i} r s))"
      using Cons.IH [OF r(4)] r(3) Cons.prems(3) by (auto simp: q_def)
    have "fetch_all base (call # calls) (region s) =
        Some (map (\<lambda>i. (0, message_address base i)) (i # is) @ replicate (length (call # calls) - card (queued s)) (ENOENT, NULL), r')"
      using r(1) f(1) by (simp add: call(1) n)
    moreover have "distinct (i # is)" "set (i # is) \<subseteq> queued s" "length (i # is) = min (length (call # calls)) (card (queued s))"
      using f(2-4) r(2) by (auto simp: n)
    moreover have "shm_reachable base (serve (set (i # is)) r' s)"
      using f(5) by simp
    ultimately show ?thesis
      by blast
  qed
qed

text \<open>
  C10: every request that is queued is handed to the server, and handed to it once.  From any
  reachable state of a region that is not shutting down, let the server ask for work any number of times in
  a row, wherever each scan starts: while there are queued requests each call returns another one of them, and when they are
  used up each further call is told that there is nothing to do.  So as many calls as
  there are queued requests deliver all of them, each exactly once; a request that is not delivered stays queued.
\<close>

theorem shm_request_delivered_once:
  assumes "shm_reachable base s" and "\<not> ShutdownRequested (region s)" and "\<forall>(now, rnd) \<in> set calls. clock_ok now"
  shows "\<exists>is r'. fetch_all base calls (region s) =
      Some (map (\<lambda>i. (0, message_address base i)) is @ replicate (length calls - card (queued s)) (ENOENT, NULL), r')
    \<and> distinct is \<and> set is \<subseteq> queued s \<and> length is = min (length calls) (card (queued s))
    \<and> (card (queued s) \<le> length calls \<longrightarrow> set is = queued s)
    \<and> slots (RequestBitmap r') = queued s - set is \<and> shm_reachable base (serve (set is) r' s)"
proof -
  obtain "is" r' where f: "fetch_all base calls (region s) =
      Some (map (\<lambda>i. (0, message_address base i)) is @ replicate (length calls - card (queued s)) (ENOENT, NULL), r')"
    "distinct is" "set is \<subseteq> queued s" "length is = min (length calls) (card (queued s))" "shm_reachable base (serve (set is) r' s)"
    using fetch_all_spec [OF assms] by blast
  have "set is = queued s" if "card (queued s) \<le> length calls"
    using card_subset_eq [OF queued_finite [OF shm_reachable_inv [OF assms(1)]] f(3)] f(2,4) that by (simp add: distinct_card)
  moreover have "slots (RequestBitmap r') = queued s - set is"
    using shm_reachable_inv [OF f(5)] serve_simps(1,2) [of "set is" r' s] by (simp add: shm_inv_def queued_def)
  ultimately show ?thesis
    using f by blast
qed

theorem shm_request_delivered_once_witness:
  "\<exists>s i results r'. shm_reachable 4096 s \<and> \<not> ShutdownRequested (region s) \<and> i \<in> queued s
     \<and> fetch_all 4096 (replicate 64 (example_time, 5)) (region s) = Some (results, r')
     \<and> (0, message_address 4096 i) \<in> set results \<and> slots (RequestBitmap r') = {}"
proof -
  obtain s i where s: "shm_reachable 4096 s" "\<not> ShutdownRequested (region s)" "phase s i = Queued"
    using example_queued by blast
  have "card (queued s) \<le> 64"
    using card_mono [OF _ queued_below [OF shm_reachable_inv [OF s(1)]]] by simp
  moreover define calls where "calls = replicate 64 (example_time, 5 :: nat)"
  moreover have "length calls = 64" "\<forall>(now, rnd) \<in> set calls. clock_ok now"
    by (simp_all add: calls_def example_time_ok)
  ultimately obtain "is" r' where "fetch_all 4096 calls (region s) =
      Some (map (\<lambda>i. (0, message_address 4096 i)) is @ replicate (64 - card (queued s)) (ENOENT, NULL), r')"
    "set is = queued s" "slots (RequestBitmap r') = {}"
    using shm_request_delivered_once [OF s(1,2), of calls] by auto
  moreover have "i \<in> queued s"
    using s(3) by (simp add: queued_def)
  ultimately show ?thesis
    using s(1,2) unfolding calls_def by fastforce
qed

end
