(* ===== verification/ShmAlloc.thy ===== *)
theory ShmAlloc
  imports ShmRegion
begin

text \<open>
  The lock-free allocation of message slots with any number of threads: \<^verbatim>\<open>FinesseGetRequestBuffer\<close> up to the
  choice of a slot and the loop of \<^verbatim>\<open>FinesseReleaseRequestBuffer\<close>.  A step of a thread is one access to
  the shared bitmap or to the allocation hint, so that all threads interleave between
  a load and the compare-and-swap that follows it.  A thread that runs alone computes exactly
  what \<^verbatim>\<open>choose_slot\<close> of the sequential model does.
\<close>

section \<open>Threads\<close>

datatype pc =
    Idle
  | Loaded u64
  | Fast nat u64
  | Scan nat
  | ScanLoaded nat u64
  | Got nat
  | Owns nat
  | Releasing nat u64
  | Failed

record alloc_sys =
  bitmap :: u64
  hint :: nat
  pcs :: "nat \<Rightarrow> pc"

definition goto :: "nat \<Rightarrow> pc \<Rightarrow> alloc_sys \<Rightarrow> alloc_sys" where
  "goto t p s = s\<lparr>pcs := (pcs s)(t := p)\<rparr>"

text \<open>The compare-and-swap: the new bitmap if the current one is the expected one.\<close>

definition cas :: "alloc_sys \<Rightarrow> u64 \<Rightarrow> u64 \<Rightarrow> alloc_sys option" where
  "cas s expected new = (if bitmap s = expected then Some (s\<lparr>bitmap := new\<rparr>) else None)"

inductive alloc_step :: "nat \<Rightarrow> alloc_sys \<Rightarrow> alloc_sys \<Rightarrow> bool" for t where
  load_bitmap: "pcs s t = Idle \<Longrightarrow> alloc_step t s (goto t (Loaded (bitmap s)) s)"
| load_hint: "pcs s t = Loaded b \<Longrightarrow> alloc_step t s (goto t (Fast ((hint s + 1) mod 2 ^ 32 mod 64) b) s)"
| fast_busy: "\<lbrakk>pcs s t = Fast i b; b = (b OR make_mask64 i)\<rbrakk> \<Longrightarrow> alloc_step t s (goto t (Scan 0) s)"
| fast_won: "\<lbrakk>pcs s t = Fast i b; b \<noteq> (b OR make_mask64 i); cas s b (b OR make_mask64 i) = Some s'\<rbrakk>
     \<Longrightarrow> alloc_step t s (goto t (Got i) s')"
| fast_lost: "\<lbrakk>pcs s t = Fast i b; b \<noteq> (b OR make_mask64 i); cas s b (b OR make_mask64 i) = None\<rbrakk>
     \<Longrightarrow> alloc_step t s (goto t (Scan 0) s)"
| scan_end: "\<lbrakk>pcs s t = Scan i; \<not> i < 64\<rbrakk> \<Longrightarrow> alloc_step t s (goto t Failed s)"
| scan_load: "\<lbrakk>pcs s t = Scan i; i < 64\<rbrakk> \<Longrightarrow> alloc_step t s (goto t (ScanLoaded i (bitmap s)) s)"
| scan_busy: "\<lbrakk>pcs s t = ScanLoaded i b; b = (b OR make_mask64 i)\<rbrakk> \<Longrightarrow> alloc_step t s (goto t (Scan (i + 1)) s)"
| scan_won: "\<lbrakk>pcs s t = ScanLoaded i b; b \<noteq> (b OR make_mask64 i); cas s b (b OR make_mask64 i) = Some s'\<rbrakk>
     \<Longrightarrow> alloc_step t s (goto t (Got i) s')"
| scan_lost: "\<lbrakk>pcs s t = ScanLoaded i b; b \<noteq> (b OR make_mask64 i); cas s b (b OR make_mask64 i) = None\<rbrakk>
     \<Longrightarrow> alloc_step t s (goto t (Scan (i + 1)) s)"
| set_hint: "pcs s t = Got i \<Longrightarrow> alloc_step t s (goto t (Owns i) (s\<lparr>hint := i\<rparr>))"
| retry: "pcs s t = Failed \<Longrightarrow> alloc_step t s (goto t Idle s)"
| release_load: "pcs s t = Owns i \<Longrightarrow> alloc_step t s (goto t (Releasing i (bitmap s)) s)"
| release_done: "\<lbrakk>pcs s t = Releasing i b; cas s b (b AND NOT (make_mask64 i)) = Some s'\<rbrakk>
     \<Longrightarrow> alloc_step t s (goto t Idle s')"
| release_again: "\<lbrakk>pcs s t = Releasing i b; cas s b (b AND NOT (make_mask64 i)) = None\<rbrakk>
     \<Longrightarrow> alloc_step t s (goto t (Releasing i (bitmap s)) s)"

inductive alloc_reachable :: "alloc_sys \<Rightarrow> bool" where
  init: "alloc_reachable \<lparr>bitmap = 0, hint = 63, pcs = (\<lambda>_. Idle)\<rparr>"
| step: "\<lbrakk>alloc_reachable s; alloc_step t s s'\<rbrakk> \<Longrightarrow> alloc_reachable s'"

section \<open>Mutual exclusion\<close>

fun holds :: "pc \<Rightarrow> nat \<Rightarrow> bool" where
  "holds (Got i) j = (i = j)"
| "holds (Owns i) j = (i = j)"
| "holds (Releasing i b) j = (i = j)"
| "holds _ j = False"

fun pc_ok :: "pc \<Rightarrow> bool" where
  "pc_ok (Fast i b) = (i < 64)"
| "pc_ok (ScanLoaded i b) = (i < 64)"
| "pc_ok _ = True"

definition alloc_inv :: "alloc_sys \<Rightarrow> bool" where
  "alloc_inv s = ((\<forall>t. pc_ok (pcs s t))
     \<and> (\<forall>i. i \<in> slots (bitmap s) \<longleftrightarrow> (\<exists>t. holds (pcs s t) i))
     \<and> (\<forall>t u i. holds (pcs s t) i \<longrightarrow> holds (pcs s u) i \<longrightarrow> t = u))"

lemma goto_simps [simp]:
  "bitmap (goto t p s) = bitmap s" "hint (goto t p s) = hint s" "pcs (goto t p s) = (pcs s)(t := p)"
  by (simp_all add: goto_def)

lemma cas_Some: "cas s b n = Some s' \<longleftrightarrow> bitmap s = b \<and> s' = s\<lparr>bitmap := n\<rparr>"
  by (auto simp: cas_def)

text \<open>A step that neither takes nor gives up a slot.\<close>

lemma alloc_inv_move:
  assumes "alloc_inv s" "pc_ok p" "\<And>i. holds p i = holds (pcs s t) i" "bitmap s' = bitmap s" "pcs s' = (pcs s)(t := p)"
  shows "alloc_inv s'"
proof -
  have h: "holds (pcs s' u) i = holds (pcs s u) i" for u i
    using assms(3,5) by simp
  have "pc_ok (pcs s' u)" for u
    using assms(1,2,5) by (simp add: alloc_inv_def)
  with assms(1) show ?thesis
    unfolding alloc_inv_def h assms(4) by blast
qed

lemma alloc_inv_take:
  assumes inv: "alloc_inv s" and free: "b \<noteq> (b OR make_mask64 i)" and i: "i < 64"
    and cas: "cas s b (b OR make_mask64 i) = Some s'" and none: "\<And>j. \<not> holds (pcs s t) j"
  shows "alloc_inv (goto t (Got i) s')"
proof -
  have s': "bitmap s = b" "s' = s\<lparr>bitmap := b OR make_mask64 i\<rparr>"
    using cas by (auto simp: cas_Some)
  have "i \<notin> slots (bitmap s)"
    using free i s'(1) or_mask64_same_iff [of i b] by auto
  then have others: "\<not> holds (pcs s u) i" for u
    using inv by (auto simp: alloc_inv_def)
  have h: "holds (pcs (goto t (Got i) s') u) j \<longleftrightarrow> holds (pcs s u) j \<or> (u = t \<and> j = i)" for u j
    using none s'(2) by auto
  have "pc_ok (pcs (goto t (Got i) s') u)" for u
    using inv s'(2) by (simp add: alloc_inv_def)
  moreover have "slots (bitmap (goto t (Got i) s')) = insert i (slots (bitmap s))"
    using i s' by simp
  ultimately show ?thesis
    using inv others unfolding alloc_inv_def h by blast
qed

lemma alloc_inv_release:
  assumes inv: "alloc_inv s" and pc: "pcs s t = Releasing i b" and cas: "cas s b (b AND NOT (make_mask64 i)) = Some s'"
  shows "alloc_inv (goto t Idle s')"
proof -
  have s': "s' = s\<lparr>bitmap := bitmap s AND NOT (make_mask64 i)\<rparr>"
    using cas by (auto simp: cas_Some)
  have mine: "holds (pcs s t) j \<longleftrightarrow> j = i" for j
    using pc by auto
  have only: "u = t" if "holds (pcs s u) i" for u
    using inv that mine unfolding alloc_inv_def by blast
  have h: "holds (pcs (goto t Idle s') u) j \<longleftrightarrow> holds (pcs s u) j \<and> u \<noteq> t" for u j
    using s' by auto
  have "pc_ok (pcs (goto t Idle s') u)" for u
    using inv s' by (simp add: alloc_inv_def)
  moreover have "slots (bitmap (goto t Idle s')) = slots (bitmap s) - {i}"
    using s' by simp
  ultimately show ?thesis
    using inv mine only unfolding alloc_inv_def h by blast
qed

lemma alloc_step_inv [preserve]:
  assumes "alloc_step t s s'" and inv: "alloc_inv s"
  shows "alloc_inv s'"
  using assms(1)
proof cases
  case (fast_won i b s1)
  then have "i < 64"
    using inv by (metis alloc_inv_def pc_ok.simps(1))
  from alloc_inv_take [OF inv fast_won(3) this fast_won(4)] fast_won(1,2) show ?thesis
    by simp
next
  case (scan_won i b s1)
  then have "i < 64"
    using inv by (metis alloc_inv_def pc_ok.simps(2))
  from alloc_inv_take [OF inv scan_won(3) this scan_won(4)] scan_won(1,2) show ?thesis
    by simp
next
  case (release_done i b s1)
  with alloc_inv_release [OF inv] show ?thesis
    by blast
qed (rule alloc_inv_move [OF inv, of "pcs s' t" t]; simp)+

lemma alloc_reachable_inv: "alloc_reachable s \<Longrightarrow> alloc_inv s"
proof (induction rule: alloc_reachable.induct)
  case init
  then show ?case
    by (simp add: alloc_inv_def)
qed (auto intro: alloc_step_inv)

section \<open>A thread alone\<close>

inductive solo :: "nat \<Rightarrow> alloc_sys \<Rightarrow> alloc_sys \<Rightarrow> bool" for t where
  solo_refl: "solo t s s"
| solo_step: "\<lbrakk>alloc_step t s s'; solo t s' s''\<rbrakk> \<Longrightarrow> solo t s s''"

definition take_result :: "nat \<Rightarrow> nat option \<Rightarrow> alloc_sys \<Rightarrow> alloc_sys" where
  "take_result t r s = (case r of None \<Rightarrow> goto t Failed s
     | Some i \<Rightarrow> goto t (Owns i) (s\<lparr>bitmap := bitmap s OR make_mask64 i, hint := i\<rparr>))"

lemma goto_goto [simp]: "goto t p (goto t q s) = goto t p s"
  by (simp add: goto_def)

lemma solo_win:
  assumes "pcs s t = Fast i b \<or> pcs s t = ScanLoaded i b" and "b \<noteq> (b OR make_mask64 i)" and "bitmap s = b"
  shows "solo t s (take_result t (Some i) s)"
proof -
  let ?s = "goto t (Got i) (s\<lparr>bitmap := b OR make_mask64 i\<rparr>)"
  have "cas s b (b OR make_mask64 i) = Some (s\<lparr>bitmap := b OR make_mask64 i\<rparr>)"
    using assms(3) by (simp add: cas_def)
  then have "alloc_step t s ?s"
    using assms(1,2) fast_won scan_won by blast
  moreover have "alloc_step t ?s (goto t (Owns i) (?s\<lparr>hint := i\<rparr>))"
    by (rule set_hint) simp
  moreover have "goto t (Owns i) (?s\<lparr>hint := i\<rparr>) = take_result t (Some i) s"
    using assms(3) by (simp add: take_result_def goto_def)
  ultimately show ?thesis
    using solo_step [of t s ?s] solo_step [of t ?s _ _, OF _ solo_refl] by simp
qed

lemma solo_scan:
  assumes "pcs s t = Scan i" and "i \<le> 64"
  shows "solo t s (take_result t (List.find (\<lambda>j. bitmap s \<noteq> (bitmap s OR make_mask64 j)) [i..<64]) s)"
  using assms
proof (induction "64 - i" arbitrary: i s)
  case 0
  then have "alloc_step t s (goto t Failed s)"
    by (intro scan_end [of _ _ i]) auto
  with 0 show ?case
    by (auto simp: take_result_def intro: solo_step solo_refl)
next
  case (Suc n)
  then have i: "i < 64"
    by simp
  let ?b = "bitmap s"
  have load: "alloc_step t s (goto t (ScanLoaded i ?b) s)"
    using Suc.prems(1) i by (rule scan_load)
  have cons: "[i..<64] = i # [Suc i..<64]"
    using i by (rule upt_conv_Cons)
  show ?case
  proof (cases "?b = (?b OR make_mask64 i)")
    case True
    let ?s = "goto t (Scan (i + 1)) s"
    have "alloc_step t (goto t (ScanLoaded i ?b) s) ?s"
      using scan_busy [of "goto t (ScanLoaded i ?b) s" t i ?b] True by simp
    moreover have "solo t ?s (take_result t (List.find (\<lambda>j. bitmap ?s \<noteq> (bitmap ?s OR make_mask64 j)) [i + 1..<64]) ?s)"
      using Suc.hyps(2) i by (intro Suc.hyps(1)) auto
    moreover have "take_result t r ?s = take_result t r s" for r
      by (simp add: take_result_def goto_def split: option.splits)
    ultimately have "solo t s (take_result t (List.find (\<lambda>j. ?b \<noteq> (?b OR make_mask64 j)) [i + 1..<64]) s)"
      using solo_step [OF load] solo_step by simp
    with True cons show ?thesis
      by simp
  next
    case False
    have "solo t (goto t (ScanLoaded i ?b) s) (take_result t (Some i) (goto t (ScanLoaded i ?b) s))"
      using False by (intro solo_win) auto
    moreover have "take_result t (Some i) (goto t (ScanLoaded i ?b) s) = take_result t (Some i) s"
      by (simp add: take_result_def goto_def)
    ultimately have "solo t s (take_result t (Some i) s)"
      using solo_step [OF load] by simp
    with False cons show ?thesis
      by simp
  qed
qed

section \<open>Properties\<close>

text \<open>
  C3: no two threads ever hold the same message slot, however their loads and
  compare-and-swap operations interleave; and a slot is marked in the bitmap exactly when a thread holds it, so no slot
  is lost either.
\<close>

theorem concurrent_allocation_exclusive:
  assumes "alloc_reachable s"
  shows "(holds (pcs s t) i \<and> holds (pcs s u) i \<longrightarrow> t = u) \<and> (i \<in> slots (bitmap s) \<longleftrightarrow> (\<exists>t. holds (pcs s t) i))"
  using alloc_reachable_inv [OF assms] unfolding alloc_inv_def by blast

text \<open>Two threads race for slot 0, and the first one wins it.\<close>

lemma example_race:
  "\<exists>s. alloc_reachable s \<and> pcs s 1 = Got 0 \<and> pcs s 2 = Fast 0 0"
proof -
  define s0 where "s0 = \<lparr>bitmap = 0, hint = 63, pcs = (\<lambda>_. Idle)\<rparr>"
  define s1 where "s1 = goto 1 (Loaded (bitmap s0)) s0"
  define s2 where "s2 = goto 2 (Loaded (bitmap s1)) s1"
  define s3 where "s3 = goto 1 (Fast ((hint s2 + 1) mod 2 ^ 32 mod 64) 0) s2"
  define s4 where "s4 = goto 2 (Fast ((hint s3 + 1) mod 2 ^ 32 mod 64) 0) s3"
  note defs = s4_def s3_def s2_def s1_def s0_def
  have "alloc_reachable s0"
    unfolding s0_def by (rule alloc_reachable.init)
  then have "alloc_reachable s1"
    unfolding s1_def by (rule alloc_reachable.step) (rule load_bitmap, simp add: s0_def)
  then have "alloc_reachable s2"
    unfolding s2_def by (rule alloc_reachable.step) (rule load_bitmap, simp add: s1_def s0_def)
  then have "alloc_reachable s3"
    unfolding s3_def by (rule alloc_reachable.step) (rule load_hint, simp add: s2_def s1_def s0_def)
  then have "alloc_reachable s4"
    unfolding s4_def by (rule alloc_reachable.step) (rule load_hint, simp add: s3_def s2_def s1_def s0_def)
  moreover have p: "pcs s4 1 = Fast 0 0" "bitmap s4 = 0" "pcs s4 2 = Fast 0 0"
    by (simp_all add: defs)
  moreover have "(0 :: u64) \<noteq> (0 OR make_mask64 0)"
    by (simp add: make_mask64_def)
  moreover have "cas s4 0 (0 OR make_mask64 0) = Some (s4\<lparr>bitmap := 0 OR make_mask64 0\<rparr>)"
    by (simp add: cas_def p(2))
  ultimately have "alloc_reachable (goto 1 (Got 0) (s4\<lparr>bitmap := 0 OR make_mask64 0\<rparr>))"
    using alloc_reachable.step [OF _ fast_won] by blast
  moreover have "pcs (goto 1 (Got 0) (s4\<lparr>bitmap := 0 OR make_mask64 0\<rparr>)) = (pcs s4)(1 := Got 0)"
    by simp
  ultimately show ?thesis
    using p(3) by (metis fun_upd_apply one_eq_numeral_iff semiring_norm(85))
qed

theorem concurrent_allocation_exclusive_witness:
  "\<exists>s. alloc_reachable s \<and> pcs s 1 = Got 0 \<and> pcs s 2 = Fast 0 0 \<and> 0 \<in> slots (bitmap s) \<and> (\<forall>t. holds (pcs s t) 0 \<longrightarrow> t = 1)"
proof -
  obtain s where s: "alloc_reachable s" "pcs s 1 = Got 0" "pcs s 2 = Fast 0 0"
    using example_race by blast
  then have "holds (pcs s 1) 0"
    by simp
  then show ?thesis
    using concurrent_allocation_exclusive [OF s(1), of _ 0 1] s by blast
qed

text \<open>
  C18: a thread that is not disturbed ends its allocation in a bounded number of steps with exactly the
  result of the sequential function: the chosen slot marked and remembered as the hint, or failure.
\<close>

theorem solo_allocation_is_sequential:
  assumes "pcs s t = Idle"
  shows "solo t s (take_result t (choose_slot (hint s) (bitmap s)) s)"
proof -
  let ?i = "(hint s + 1) mod 2 ^ 32 mod 64" and ?b = "bitmap s"
  let ?s = "goto t (Fast ?i ?b) s"
  have "alloc_step t s (goto t (Loaded ?b) s)"
    using assms by (rule load_bitmap)
  moreover have "alloc_step t (goto t (Loaded ?b) s) ?s"
    using load_hint [of "goto t (Loaded ?b) s" t ?b] by simp
  moreover have "solo t ?s (take_result t (choose_slot (hint s) ?b) s)"
  proof (cases "?b = (?b OR make_mask64 ?i)")
    case True
    have "alloc_step t ?s (goto t (Scan 0) s)"
      using fast_busy [of ?s t ?i ?b] True by simp
    moreover have "solo t (goto t (Scan 0) s) (take_result t (List.find (\<lambda>j. ?b \<noteq> (?b OR make_mask64 j)) [0..<64]) (goto t (Scan 0) s))"
      using solo_scan [of "goto t (Scan 0) s" t 0] by simp
    moreover have "take_result t r (goto t (Scan 0) s) = take_result t r s" for r
      by (simp add: take_result_def goto_def split: option.splits)
    ultimately show ?thesis
      using True solo_step by (simp add: choose_slot_def Let_def)
  next
    case False
    have "solo t ?s (take_result t (Some ?i) ?s)"
      using False by (intro solo_win) auto
    with False show ?thesis
      by (simp add: choose_slot_def Let_def take_result_def goto_def)
  qed
  ultimately show ?thesis
    using solo_step by blast
qed

theorem solo_allocation_is_sequential_witness:
  "solo 1 \<lparr>bitmap = 1, hint = 63, pcs = (\<lambda>_. Idle)\<rparr> (take_result 1 (Some 1) \<lparr>bitmap = 1, hint = 63, pcs = (\<lambda>_. Idle)\<rparr>)"
proof -
  have "[0..<64] = 0 # 1 # [2..<64::nat]"
    by (simp add: upt_conv_Cons)
  then have "choose_slot 63 1 = Some 1"
    by (simp add: choose_slot_def make_mask64_def push_bit_eq_mult)
  with solo_allocation_is_sequential [of "\<lparr>bitmap = 1, hint = 63, pcs = (\<lambda>_. Idle)\<rparr>" 1] show ?thesis
    by simp
qed

end
