(* ===== verification/FdMgr.thy ===== *)
theory FdMgr
  imports ApiList Murmur
begin

text \<open>
  The table of open file descriptors of the client library, \<^verbatim>\<open>src/finesse/api/fdmgr.c\<close>: a chained hash
  table with keys of a fixed size, and the file states that it maps descriptors to.  A bucket is the list of its
  entries in insertion order; the pointer operations on it are those of \<^verbatim>\<open>ApiList\<close>.  Every operation takes the
  table lock for its whole duration and gives it back, so the operations are atomic.
  The locale \<^verbatim>\<open>keyed_table\<close> is what the file state manager relies on.
\<close>

section \<open>The hash table\<close>

type_synonym key = "u8 list"

record 'o lookup_table =
  EntryCountShift :: nat
  Hash :: "key \<Rightarrow> nat \<Rightarrow> u32 option"
  KeySize :: nat
  TableBuckets :: "(key \<times> 'o) list list"

text \<open>
  The loop counter of \<^verbatim>\<open>default_hash\<close> is an \<^verbatim>\<open>unsigned char\<close>, so the loop does not end for keys of more
  than 252 bytes; a read beyond the key is \<^const>\<open>None\<close> as well.
\<close>

partial_function (option) default_hash_loop :: "key \<Rightarrow> nat \<Rightarrow> nat \<Rightarrow> u32 \<Rightarrow> u32 option" where
  "default_hash_loop blob len index hash =
     (if index < len
      then do {
        c_assert (index + 4 \<le> length blob);
        default_hash_loop blob len ((index + 4) mod 256) (hash XOR le_word (take 4 (drop index blob)))
      }
      else Some hash)"

definition default_hash :: "key \<Rightarrow> nat \<Rightarrow> u32 option" where
  "default_hash blob len = default_hash_loop blob len 0 (NOT 0)"

definition lookup_table_hash :: "'o lookup_table \<Rightarrow> key \<Rightarrow> nat option" where
  "lookup_table_hash tab k = do {
     h \<leftarrow> Hash tab k (KeySize tab);
     Some (unat (h AND (push_bit (EntryCountShift tab) 1 - 1)))
   }"

function entry_count_shift_for :: "nat \<Rightarrow> nat \<Rightarrow> nat" where
  "entry_count_shift_for hint shift = (if 2 ^ shift < hint then entry_count_shift_for hint (shift + 1) else shift)"
  by auto
termination
  by (relation "measure (\<lambda>(hint, shift). hint - 2 ^ shift)") (auto intro: diff_less_mono2)

declare entry_count_shift_for.simps [simp del]

definition lookup_table_create ::
  "bool \<Rightarrow> nat \<Rightarrow> (key \<Rightarrow> nat \<Rightarrow> u32 option) option \<Rightarrow> nat \<Rightarrow> 'o lookup_table option" where
  "lookup_table_create malloc_ok SizeHint hash key_size =
     (let SizeHint = (if SizeHint > 65536 then 65536 else SizeHint);
          shift = entry_count_shift_for SizeHint 0
      in if malloc_ok
         then Some \<lparr>EntryCountShift = shift, Hash = (case hash of None \<Rightarrow> default_hash | Some h \<Rightarrow> h),
                    KeySize = key_size, TableBuckets = replicate (2 ^ shift) []\<rparr>
         else None)"

definition lookup_table_locked :: "'o lookup_table \<Rightarrow> key \<Rightarrow> 'o option option" where
  "lookup_table_locked tab k = do {
     bucket_index \<leftarrow> lookup_table_hash tab k;
     Some (map_option snd (List.find (\<lambda>e. fst e = k) (TableBuckets tab ! bucket_index)))
   }"

definition lookup_table_insert :: "bool \<Rightarrow> key \<Rightarrow> 'o \<Rightarrow> 'o lookup_table \<Rightarrow> (errno \<times> 'o lookup_table) option" where
  "lookup_table_insert malloc_ok k obj tab = do {
     bucket_index \<leftarrow> lookup_table_hash tab k;
     if \<not> malloc_ok then Some (ENOMEM, tab)
     else do {
       found \<leftarrow> lookup_table_locked tab k;
       Some (case found of
           Some _ \<Rightarrow> (EEXIST, tab)
         | None \<Rightarrow> (0, tab\<lparr>TableBuckets := (TableBuckets tab)[bucket_index := TableBuckets tab ! bucket_index @ [(k, obj)]]\<rparr>))
     }
   }"

definition lookup_table_lookup :: "key \<Rightarrow> 'o lookup_table \<Rightarrow> (errno \<times> 'o option) option" where
  "lookup_table_lookup k tab = do {
     found \<leftarrow> lookup_table_locked tab k;
     Some (if found = None then ENODATA else 0, found)
   }"

fun remove_first :: "('a \<Rightarrow> bool) \<Rightarrow> 'a list \<Rightarrow> 'a list" where
  "remove_first P [] = []"
| "remove_first P (x # xs) = (if P x then xs else x # remove_first P xs)"

definition lookup_table_remove :: "key \<Rightarrow> 'o lookup_table \<Rightarrow> (errno \<times> 'o lookup_table) option" where
  "lookup_table_remove k tab = do {
     bucket_index \<leftarrow> lookup_table_hash tab k;
     found \<leftarrow> lookup_table_locked tab k;
     Some (case found of
         None \<Rightarrow> (ENODATA, tab)
       | Some _ \<Rightarrow> (0, tab\<lparr>TableBuckets := (TableBuckets tab)[bucket_index :=
             remove_first (\<lambda>e. fst e = k) (TableBuckets tab ! bucket_index)]\<rparr>))
   }"

text \<open>Destroying a table frees its entries, not the objects they point to: what is left of it are those objects.\<close>

definition lookup_table_destroy :: "'o lookup_table \<Rightarrow> 'o list" where
  "lookup_table_destroy tab = map snd (concat (TableBuckets tab))"

section \<open>The interface of a keyed table\<close>

locale keyed_table =
  fixes invar :: "'t \<Rightarrow> bool"
    and okey :: "'t \<Rightarrow> 'k \<Rightarrow> bool"
    and find :: "'t \<Rightarrow> 'k \<Rightarrow> 'v option"
    and ins :: "'k \<Rightarrow> 'v \<Rightarrow> 't \<Rightarrow> (errno \<times> 't) option"
    and del :: "'k \<Rightarrow> 't \<Rightarrow> (errno \<times> 't) option"
  assumes ins_new: "\<lbrakk>invar t; okey t k; find t k = None\<rbrakk> \<Longrightarrow>
      \<exists>t'. ins k v t = Some (0, t') \<and> invar t' \<and> okey t' = okey t \<and> (\<forall>j. okey t j \<longrightarrow> find t' j = ((find t)(k \<mapsto> v)) j)"
    and ins_dup: "\<lbrakk>invar t; okey t k; find t k = Some w\<rbrakk> \<Longrightarrow> ins k v t = Some (EEXIST, t)"
    and del_old: "\<lbrakk>invar t; okey t k; find t k = Some w\<rbrakk> \<Longrightarrow>
      \<exists>t'. del k t = Some (0, t') \<and> invar t' \<and> okey t' = okey t \<and> (\<forall>j. okey t j \<longrightarrow> find t' j = ((find t)(k := None)) j)"
    and del_none: "\<lbrakk>invar t; okey t k; find t k = None\<rbrakk> \<Longrightarrow> del k t = Some (ENODATA, t)"
begin

lemma ins_twice:
  assumes "invar t" "okey t k" "find t k = None"
  shows "\<exists>t'. ins k v t = Some (0, t') \<and> ins k w t' = Some (EEXIST, t') \<and> find t' k = Some v"
proof -
  from ins_new [OF assms] obtain t' where t': "ins k v t = Some (0, t')" "invar t'" "okey t' = okey t"
    "\<forall>j. okey t j \<longrightarrow> find t' j = ((find t)(k \<mapsto> v)) j"
    by blast
  then have "find t' k = Some v"
    using assms(2) by simp
  with ins_dup [OF t'(2) _ this] t' assms(2) show ?thesis
    by auto
qed

lemma ins_del:
  assumes "invar t" "okey t k" "find t k = None"
  shows "\<exists>t1 t2. ins k v t = Some (0, t1) \<and> del k t1 = Some (0, t2) \<and> invar t2
    \<and> (\<forall>j. okey t j \<longrightarrow> find t2 j = find t j)"
proof -
  from ins_new [OF assms] obtain t1 where t1: "ins k v t = Some (0, t1)" "invar t1" "okey t1 = okey t"
    "\<forall>j. okey t j \<longrightarrow> find t1 j = ((find t)(k \<mapsto> v)) j"
    by blast
  then have "find t1 k = Some v"
    using assms(2) by simp
  from del_old [OF t1(2) _ this] t1(3) assms(2) obtain t2 where "del k t1 = Some (0, t2)" "invar t2"
    "\<forall>j. okey t1 j \<longrightarrow> find t2 j = ((find t1)(k := None)) j"
    by auto
  with t1 assms(3) show ?thesis
    by auto
qed

end

section \<open>The table implements the interface\<close>

definition lt_find :: "'o lookup_table \<Rightarrow> key \<Rightarrow> 'o option" where
  "lt_find tab k = (case lookup_table_locked tab k of Some r \<Rightarrow> r | None \<Rightarrow> None)"

definition lt_key :: "'o lookup_table \<Rightarrow> key \<Rightarrow> bool" where
  "lt_key tab k = (lookup_table_hash tab k \<noteq> None)"

definition lt_ok :: "'o lookup_table \<Rightarrow> bool" where
  "lt_ok tab = (EntryCountShift tab \<le> 16 \<and> length (TableBuckets tab) = 2 ^ EntryCountShift tab
     \<and> (\<forall>b < length (TableBuckets tab). distinct (map fst (TableBuckets tab ! b))
          \<and> (\<forall>e \<in> set (TableBuckets tab ! b). lookup_table_hash tab (fst e) = Some b)))"

lemma find_map_of: "map_option snd (List.find (\<lambda>e. fst e = k) es) = map_of es k"
  by (induction es) auto

lemma map_of_remove_first:
  "distinct (map fst es) \<Longrightarrow> map_of (remove_first (\<lambda>e. fst e = k) es) = (map_of es)(k := None)"
  by (induction es) (auto simp: fun_eq_iff map_of_eq_None_iff image_iff)

lemma set_remove_first: "set (remove_first P xs) \<subseteq> set xs"
  by (induction xs) auto

lemma distinct_remove_first: "distinct (map f es) \<Longrightarrow> distinct (map f (remove_first P es))"
  using set_remove_first [of P] by (induction es) fastforce+

lemma lookup_table_locked_eq:
  "lookup_table_hash tab k = Some b \<Longrightarrow> lookup_table_locked tab k = Some (map_of (TableBuckets tab ! b) k)"
  by (simp add: lookup_table_locked_def find_map_of)

lemma lt_find_eq: "lookup_table_hash tab k = Some b \<Longrightarrow> lt_find tab k = map_of (TableBuckets tab ! b) k"
  by (simp add: lt_find_def lookup_table_locked_eq)

lemma lookup_table_hash_bound:
  assumes "lt_ok tab" "lookup_table_hash tab k = Some b"
  shows "b < length (TableBuckets tab)"
proof -
  let ?s = "EntryCountShift tab"
  obtain h where b: "b = unat (h AND (push_bit ?s 1 - 1) :: u32)"
    using assms(2) by (auto simp: lookup_table_hash_def elim!: bind_eq_SomeE)
  have "push_bit ?s 1 - 1 = (mask ?s :: u32)"
    by (simp add: mask_eq_decr_exp push_bit_eq_mult)
  then have "h AND (push_bit ?s 1 - 1) = take_bit ?s h"
    by (simp add: take_bit_eq_mask)
  moreover have "unat (take_bit ?s h) < 2 ^ ?s"
    by (metis take_bit_nat_less_exp unsigned_take_bit_eq)
  ultimately show ?thesis
    using b assms(1) by (simp add: lt_ok_def)
qed

lemma lookup_table_hash_buckets [simp]:
  "lookup_table_hash (tab\<lparr>TableBuckets := bs\<rparr>) = lookup_table_hash tab"
  by (simp add: fun_eq_iff lookup_table_hash_def)

lemma lt_key_buckets [simp]: "lt_key (tab\<lparr>TableBuckets := bs\<rparr>) = lt_key tab"
  by (simp add: fun_eq_iff lt_key_def)

text \<open>Replacing one bucket.\<close>

lemma lt_bucket_update:
  assumes ok: "lt_ok tab" and b: "lookup_table_hash tab k = Some b"
    and d: "distinct (map fst es)" and h: "\<And>e. e \<in> set es \<Longrightarrow> lookup_table_hash tab (fst e) = Some b"
    and m: "\<And>j. j \<noteq> k \<Longrightarrow> map_of es j = map_of (TableBuckets tab ! b) j"
  defines "tab' \<equiv> tab\<lparr>TableBuckets := (TableBuckets tab)[b := es]\<rparr>"
  shows "lt_ok tab'" and "lt_key tab j \<Longrightarrow> lt_find tab' j = ((lt_find tab)(k := map_of es k)) j"
proof -
  have lt: "b < length (TableBuckets tab)"
    using lookup_table_hash_bound [OF ok b] .
  show "lt_ok tab'"
    using ok d h lt by (auto simp: lt_ok_def tab'_def nth_list_update)
  show "lt_find tab' j = ((lt_find tab)(k := map_of es k)) j" if "lt_key tab j"
  proof -
    obtain c where c: "lookup_table_hash tab j = Some c"
      using \<open>lt_key tab j\<close> by (auto simp: lt_key_def)
    then have "lt_find tab' j = map_of ((TableBuckets tab)[b := es] ! c) j"
      using lt_find_eq [of tab' j c] by (simp add: tab'_def)
    then show ?thesis
      using c b m lt lt_find_eq [OF c] by (cases "j = k"; cases "c = b") auto
  qed
qed

interpretation lt: keyed_table lt_ok lt_key lt_find "lookup_table_insert True" lookup_table_remove
proof unfold_locales
  fix t :: "'o lookup_table" and k v
  assume a: "lt_ok t" "lt_key t k" "lt_find t k = None"
  then obtain b where b: "lookup_table_hash t k = Some b"
    by (auto simp: lt_key_def)
  let ?es = "TableBuckets t ! b"
  have n: "map_of ?es k = None" and lt: "b < length (TableBuckets t)"
    using a(3) lt_find_eq [OF b] lookup_table_hash_bound [OF a(1) b] by auto
  have d: "distinct (map fst (?es @ [(k, v)]))" "\<And>e. e \<in> set (?es @ [(k, v)]) \<Longrightarrow> lookup_table_hash t (fst e) = Some b"
    using a(1) n lt b by (auto simp: lt_ok_def map_of_eq_None_iff)
  have m: "map_of (?es @ [(k, v)]) j = map_of ?es j" if "j \<noteq> k" for j
    using that by (auto simp: map_add_def split: option.splits)
  have "map_of (?es @ [(k, v)]) k = Some v"
    using n by (simp add: map_add_def)
  with lt_bucket_update [OF a(1) b d m] b n
  show "\<exists>t'. lookup_table_insert True k v t = Some (0, t') \<and> lt_ok t' \<and> lt_key t' = lt_key t
      \<and> (\<forall>j. lt_key t j \<longrightarrow> lt_find t' j = ((lt_find t)(k \<mapsto> v)) j)"
    by (simp add: lookup_table_insert_def lookup_table_locked_eq)
next
  fix t :: "'o lookup_table" and k v w
  assume a: "lt_ok t" "lt_key t k" "lt_find t k = Some w"
  then obtain b where b: "lookup_table_hash t k = Some b"
    by (auto simp: lt_key_def)
  with a(3) show "lookup_table_insert True k v t = Some (EEXIST, t)"
    by (simp add: lookup_table_insert_def lookup_table_locked_eq lt_find_eq)
next
  fix t :: "'o lookup_table" and k w
  assume a: "lt_ok t" "lt_key t k" "lt_find t k = Some w"
  then obtain b where b: "lookup_table_hash t k = Some b"
    by (auto simp: lt_key_def)
  let ?es = "TableBuckets t ! b"
  let ?rs = "remove_first (\<lambda>e. fst e = k) ?es"
  have lt: "b < length (TableBuckets t)"
    using lookup_table_hash_bound [OF a(1) b] .
  have d: "distinct (map fst ?es)" "\<forall>e \<in> set ?es. lookup_table_hash t (fst e) = Some b"
    using a(1) lt by (auto simp: lt_ok_def)
  have u: "distinct (map fst ?rs)" "\<And>e. e \<in> set ?rs \<Longrightarrow> lookup_table_hash t (fst e) = Some b"
    using d distinct_remove_first set_remove_first by fastforce+
  have m: "map_of ?rs j = map_of ?es j" if "j \<noteq> k" for j
    using map_of_remove_first [OF d(1)] that by simp
  have "map_of ?rs k = None"
    using map_of_remove_first [OF d(1)] by simp
  with lt_bucket_update [OF a(1) b u m] b a(3)
  show "\<exists>t'. lookup_table_remove k t = Some (0, t') \<and> lt_ok t' \<and> lt_key t' = lt_key t
      \<and> (\<forall>j. lt_key t j \<longrightarrow> lt_find t' j = ((lt_find t)(k := None)) j)"
    by (simp add: lookup_table_remove_def lookup_table_locked_eq lt_find_eq)
next
  fix t :: "'o lookup_table" and k
  assume a: "lt_ok t" "lt_key t k" "lt_find t k = None"
  then obtain b where b: "lookup_table_hash t k = Some b"
    by (auto simp: lt_key_def)
  with a(3) show "lookup_table_remove k t = Some (ENODATA, t)"
    by (simp add: lookup_table_remove_def lookup_table_locked_eq lt_find_eq)
qed

section \<open>The file state manager\<close>

record finesse_file_state =
  fs_fd :: u32
  fs_key :: "u8 list"
  fs_client :: addr
  fs_pathname :: string
  current_offset :: nat
  fs_flags :: int

text \<open>\<^verbatim>\<open>file_states\<close> is the heap of file states; \<^verbatim>\<open>next_state\<close> is the next address \<^verbatim>\<open>malloc\<close> gives.\<close>

record fd_mgr =
  fd_lookup_table :: "addr lookup_table option"
  file_states :: "addr \<rightharpoonup> finesse_file_state"
  next_state :: addr

text \<open>The four bytes of a descriptor in memory.\<close>

definition fd_key :: "u32 \<Rightarrow> key" where
  "fd_key fd = map (\<lambda>j. ucast (drop_bit (8 * j) fd)) [0..<4]"

text \<open>
  There are two allocations, of the file state and of the table entry; \<^verbatim>\<open>state_memory\<close> and \<^verbatim>\<open>entry_memory\<close> say
  whether \<^verbatim>\<open>malloc\<close> succeeds.
\<close>

definition finesse_create_file_state ::
  "bool \<Rightarrow> bool \<Rightarrow> u32 \<Rightarrow> addr \<Rightarrow> u8 list \<Rightarrow> string \<Rightarrow> int \<Rightarrow> fd_mgr \<Rightarrow> (addr \<times> fd_mgr) option" where
  "finesse_create_file_state state_memory entry_memory fd client uuid pathname flags m = do {
     tab \<leftarrow> fd_lookup_table m;
     if \<not> state_memory then Some (NULL, m)
     else do {
       let file_state = next_state m;
       let new = \<lparr>fs_fd = fd, fs_key = uuid, fs_client = client, fs_pathname = pathname, current_offset = 0, fs_flags = flags\<rparr>;
       let m = m\<lparr>file_states := (file_states m)(file_state \<mapsto> new), next_state := Suc file_state\<rparr>;
       (status, tab) \<leftarrow> lookup_table_insert entry_memory (fd_key fd) file_state tab;
       Some (if status \<noteq> 0
             then (NULL, m\<lparr>file_states := (file_states m)(file_state := None)\<rparr>)
             else (file_state, m\<lparr>fd_lookup_table := Some tab\<rparr>))
     }
   }"

definition finesse_lookup_file_state :: "u32 \<Rightarrow> fd_mgr \<Rightarrow> addr option" where
  "finesse_lookup_file_state fd m =
     (case fd_lookup_table m of
        None \<Rightarrow> Some NULL
      | Some tab \<Rightarrow> do {
          (status, obj) \<leftarrow> lookup_table_lookup (fd_key fd) tab;
          Some (case obj of Some a \<Rightarrow> if status \<noteq> 0 then NULL else a | None \<Rightarrow> NULL)
        })"

definition finesse_update_offset :: "addr \<Rightarrow> nat \<Rightarrow> fd_mgr \<Rightarrow> fd_mgr option" where
  "finesse_update_offset file_state offset m = do {
     fs \<leftarrow> file_states m file_state;
     Some (m\<lparr>file_states := (file_states m)(file_state \<mapsto> fs\<lparr>current_offset := offset\<rparr>)\<rparr>)
   }"

definition finesse_delete_file_state :: "addr \<Rightarrow> fd_mgr \<Rightarrow> fd_mgr option" where
  "finesse_delete_file_state file_state m = do {
     tab \<leftarrow> fd_lookup_table m;
     fs \<leftarrow> file_states m file_state;
     (status, tab) \<leftarrow> lookup_table_remove (fd_key (fs_fd fs)) tab;
     c_assert (status = 0);
     Some (m\<lparr>fd_lookup_table := Some tab, file_states := (file_states m)(file_state := None)\<rparr>)
   }"

definition finesse_init_file_state_mgr :: "bool \<Rightarrow> fd_mgr \<Rightarrow> errno \<times> fd_mgr" where
  "finesse_init_file_state_mgr malloc_ok m =
     (case fd_lookup_table m of
        Some _ \<Rightarrow> (0, m)
      | None \<Rightarrow> (case lookup_table_create malloc_ok 4096 None 4 of
          None \<Rightarrow> (ENOMEM, m)
        | Some tab \<Rightarrow> (0, m\<lparr>fd_lookup_table := Some tab\<rparr>)))"

text \<open>Terminating the manager drops the table; the file states still in it are never freed.\<close>

definition finesse_terminate_file_state_mgr :: "fd_mgr \<Rightarrow> fd_mgr" where
  "finesse_terminate_file_state_mgr m = m\<lparr>fd_lookup_table := None\<rparr>"

abbreviation nic_fd_shift :: u32 where "nic_fd_shift \<equiv> 0"

definition finesse_fd_to_nfd :: "u32 \<Rightarrow> u32" where
  "finesse_fd_to_nfd fd = fd OR nic_fd_shift"

definition finesse_nfd_to_fd :: "u32 \<Rightarrow> u32" where
  "finesse_nfd_to_fd nfd = nfd AND NOT nic_fd_shift"

section \<open>Descriptors and file states\<close>

lemma fd_key_inject: "fd_key a = fd_key b \<longleftrightarrow> a = b"
proof
  assume eq: "fd_key a = fd_key b"
  have byte: "ucast (drop_bit (8 * j) a) = (ucast (drop_bit (8 * j) b) :: u8)" if "j < 4" for j
    using arg_cong [OF eq, of "\<lambda>k. k ! j"] that by (simp add: fd_key_def)
  show "a = b"
  proof (rule bit_word_eqI)
    fix n
    assume "n < LENGTH(32)"
    then have j: "n div 8 < 4" and n: "8 * (n div 8) + n mod 8 = n"
      by auto
    from byte [OF j] have "bit (ucast (drop_bit (8 * (n div 8)) a) :: u8) (n mod 8)
        = bit (ucast (drop_bit (8 * (n div 8)) b) :: u8) (n mod 8)"
      by simp
    then show "bit a n = bit b n"
      by (simp add: bit_simps n)
  qed
qed simp

lemma fd_key_length [simp]: "length (fd_key fd) = 4"
  by (simp add: fd_key_def)

lemma default_hash_fd: "\<exists>h. default_hash (fd_key fd) 4 = Some h"
  unfolding default_hash_def
  by (subst default_hash_loop.simps, simp, subst default_hash_loop.simps, simp)

definition fd_table :: "addr lookup_table \<Rightarrow> bool" where
  "fd_table tab = (lt_ok tab \<and> Hash tab = default_hash \<and> KeySize tab = 4)"

definition mgr_ok :: "fd_mgr \<Rightarrow> bool" where
  "mgr_ok m = (0 < next_state m \<and> (\<forall>a \<in> dom (file_states m). 0 < a \<and> a < next_state m)
     \<and> (case fd_lookup_table m of None \<Rightarrow> True
        | Some tab \<Rightarrow> fd_table tab
            \<and> (\<forall>fd a. lt_find tab (fd_key fd) = Some a \<longrightarrow> (\<exists>fs. file_states m a = Some fs \<and> fs_fd fs = fd))))"

text \<open>What the manager means: the file state of each descriptor.\<close>

definition fd_map :: "fd_mgr \<Rightarrow> u32 \<rightharpoonup> finesse_file_state" where
  "fd_map m fd = (case fd_lookup_table m of None \<Rightarrow> None
     | Some tab \<Rightarrow> Option.bind (lt_find tab (fd_key fd)) (file_states m))"

lemma fd_table_key: "fd_table tab \<Longrightarrow> lt_key tab (fd_key fd)"
  using default_hash_fd [of fd] by (auto simp: fd_table_def lt_key_def lookup_table_hash_def)

lemma fd_table_insert:
  "\<lbrakk>fd_table tab; lookup_table_insert mo k v tab = Some (st, tab'); lt_ok tab'\<rbrakk> \<Longrightarrow> fd_table tab'"
  by (auto simp: fd_table_def lookup_table_insert_def split: if_splits option.splits elim!: bind_eq_SomeE)

lemma fd_table_remove:
  "\<lbrakk>fd_table tab; lookup_table_remove k tab = Some (st, tab'); lt_ok tab'\<rbrakk> \<Longrightarrow> fd_table tab'"
  by (auto simp: fd_table_def lookup_table_remove_def split: option.splits elim!: bind_eq_SomeE)

lemma entry_count_shift_spec:
  "entry_count_shift_for hint shift = (LEAST n. shift \<le> n \<and> hint \<le> 2 ^ n)"
proof (induction hint shift rule: entry_count_shift_for.induct)
  case (1 hint shift)
  show ?case
  proof (cases "2 ^ shift < hint")
    case True
    have "(shift \<le> n \<and> hint \<le> 2 ^ n) = (shift + 1 \<le> n \<and> hint \<le> 2 ^ n)" for n
      using True by (cases "n = shift") auto
    with 1 [OF True] True show ?thesis
      by (subst entry_count_shift_for.simps) simp
  next
    case False
    then show ?thesis
      by (subst entry_count_shift_for.simps) (auto intro!: Least_equality [symmetric])
  qed
qed

lemma entry_count_shift_bound: "hint \<le> 2 ^ m \<Longrightarrow> entry_count_shift_for hint 0 \<le> m"
  by (simp add: entry_count_shift_spec Least_le)

lemma entry_count_shift_enough: "hint \<le> 2 ^ entry_count_shift_for hint 0"
proof -
  have "\<exists>n. hint \<le> 2 ^ n"
    using less_exp [of hint] by (intro exI [of _ hint]) simp
  then show ?thesis
    unfolding entry_count_shift_spec by (metis (mono_tags, lifting) LeastI_ex le0)
qed

lemma lookup_table_create_ok:
  assumes "lookup_table_create True hint h ks = Some tab"
  shows "lt_ok tab" "lt_find tab k = None"
proof -
  let ?s = "entry_count_shift_for (if hint > 65536 then 65536 else hint) 0"
  have "?s \<le> 16"
    by (intro entry_count_shift_bound) simp
  with assms show ok: "lt_ok tab"
    by (auto simp: lookup_table_create_def Let_def lt_ok_def)
  show "lt_find tab k = None"
  proof (cases "lookup_table_hash tab k")
    case (Some b)
    with lookup_table_hash_bound [OF ok Some] lt_find_eq [OF Some] assms show ?thesis
      by (auto simp: lookup_table_create_def Let_def)
  qed (simp add: lt_find_def lookup_table_locked_def)
qed

lemma init_mgr_ok [preserve]:
  assumes "fd_lookup_table m = None" "0 < next_state m" "\<forall>a \<in> dom (file_states m). 0 < a \<and> a < next_state m"
  shows "\<exists>m'. finesse_init_file_state_mgr True m = (0, m') \<and> mgr_ok m' \<and> fd_map m' = Map.empty \<and> fd_lookup_table m' \<noteq> None"
proof -
  obtain tab :: "addr lookup_table" where tab: "lookup_table_create True 4096 None 4 = Some tab" "Hash tab = default_hash" "KeySize tab = 4"
    by (simp add: lookup_table_create_def Let_def)
  with lookup_table_create_ok [OF tab(1)] assms show ?thesis
    by (auto simp: finesse_init_file_state_mgr_def mgr_ok_def fd_table_def fd_map_def)
qed

lemma mgr_okE:
  assumes "mgr_ok m" "fd_lookup_table m \<noteq> None"
  obtains tab where "fd_lookup_table m = Some tab" "fd_table tab" "lt_ok tab"
    "\<forall>fd a. lt_find tab (fd_key fd) = Some a \<longrightarrow> (\<exists>fs. file_states m a = Some fs \<and> fs_fd fs = fd)"
  using assms by (auto simp: mgr_ok_def fd_table_def split: option.splits)

lemma fd_map_eq: "fd_lookup_table m = Some tab \<Longrightarrow> fd_map m fd = Option.bind (lt_find tab (fd_key fd)) (file_states m)"
  by (simp add: fd_map_def)

lemma create_file_state_new:
  assumes "mgr_ok m" "fd_lookup_table m \<noteq> None" "fd_map m fd = None"
  shows "\<exists>m'. finesse_create_file_state True True fd client uuid path flags m = Some (next_state m, m') \<and> mgr_ok m'
    \<and> fd_lookup_table m' \<noteq> None
    \<and> fd_map m' = (fd_map m)(fd \<mapsto> \<lparr>fs_fd = fd, fs_key = uuid, fs_client = client, fs_pathname = path,
                                  current_offset = 0, fs_flags = flags\<rparr>)"
proof -
  obtain tab where tab: "fd_lookup_table m = Some tab" "fd_table tab" "lt_ok tab"
    and ptr0: "\<forall>fd a. lt_find tab (fd_key fd) = Some a \<longrightarrow> (\<exists>fs. file_states m a = Some fs \<and> fs_fd fs = fd)"
    using mgr_okE [OF assms(1,2)] .
  note ptr = ptr0 [rule_format]
  have none: "lt_find tab (fd_key fd) = None"
    using assms(3) ptr fd_map_eq [OF tab(1)] by (cases "lt_find tab (fd_key fd)") fastforce+
  let ?a = "next_state m"
  let ?fs = "\<lparr>fs_fd = fd, fs_key = uuid, fs_client = client, fs_pathname = path, current_offset = 0, fs_flags = flags\<rparr>"
  from lt.ins_new [OF tab(3) fd_table_key [OF tab(2)] none, of ?a] obtain tab'
    where tab': "lookup_table_insert True (fd_key fd) ?a tab = Some (0, tab')" "lt_ok tab'"
      "\<And>j. lt_find tab' (fd_key j) = (if j = fd then Some ?a else lt_find tab (fd_key j))"
    using fd_table_key [OF tab(2)] by (auto simp: fd_key_inject)
  have fresh: "file_states m ?a = None"
    using assms(1) by (fastforce simp: mgr_ok_def)
  let ?m = "m\<lparr>file_states := (file_states m)(?a \<mapsto> ?fs), next_state := Suc ?a, fd_lookup_table := Some tab'\<rparr>"
  have "finesse_create_file_state True True fd client uuid path flags m = Some (?a, ?m)"
    using tab(1) tab'(1) by (simp add: finesse_create_file_state_def Let_def)
  moreover have "mgr_ok ?m"
    using assms(1) tab' fd_table_insert [OF tab(2) tab'(1,2)] ptr fresh
    by (auto simp: mgr_ok_def less_Suc_eq split: if_splits) (metis domI less_imp_neq option.distinct(1))+
  moreover have "fd_map ?m j = ((fd_map m)(fd \<mapsto> ?fs)) j" for j
    using tab(1) tab'(3) [of j] ptr [of j] fresh
    by (cases "lt_find tab (fd_key j)") (auto simp: fd_map_def split: if_splits)
  ultimately show ?thesis
    by (intro exI [of _ ?m]) auto
qed

lemma create_file_state_refused:
  assumes "mgr_ok m" "fd_lookup_table m \<noteq> None" "\<not> state_memory \<or> \<not> entry_memory \<or> fd_map m fd \<noteq> None"
  shows "\<exists>m'. finesse_create_file_state state_memory entry_memory fd client uuid path flags m = Some (NULL, m') \<and> mgr_ok m'
    \<and> fd_map m' = fd_map m \<and> file_states m' = file_states m"
proof (cases state_memory)
  case True
  obtain tab where tab: "fd_lookup_table m = Some tab" "fd_table tab" "lt_ok tab"
    using mgr_okE [OF assms(1,2)] .
  obtain b where b: "lookup_table_hash tab (fd_key fd) = Some b"
    using fd_table_key [OF tab(2), of fd] by (auto simp: lt_key_def)
  have "\<exists>st. lookup_table_insert entry_memory (fd_key fd) a tab = Some (st, tab) \<and> st \<noteq> 0" for a
  proof (cases entry_memory)
    case True
    then obtain c where "lt_find tab (fd_key fd) = Some c"
      using assms(3) \<open>state_memory\<close> fd_map_eq [OF tab(1)] by (cases "lt_find tab (fd_key fd)") auto
    then show ?thesis
      using lt.ins_dup [OF tab(3) fd_table_key [OF tab(2)]] True by simp
  qed (simp add: lookup_table_insert_def b)
  then obtain st where st: "lookup_table_insert entry_memory (fd_key fd) (next_state m) tab = Some (st, tab)" "st \<noteq> 0"
    by blast
  have fresh: "file_states m (next_state m) = None"
    using assms(1) by (fastforce simp: mgr_ok_def)
  let ?m = "m\<lparr>next_state := Suc (next_state m)\<rparr>"
  have "finesse_create_file_state state_memory entry_memory fd client uuid path flags m = Some (NULL, ?m)"
    using tab(1) st fresh True by (simp add: finesse_create_file_state_def Let_def fun_upd_idem)
  moreover have "mgr_ok ?m"
    using assms(1) by (auto simp: mgr_ok_def less_SucI split: option.splits)
  moreover have "fd_map ?m = fd_map m" "file_states ?m = file_states m"
    by (simp_all add: fun_eq_iff fd_map_def split: option.splits)
  ultimately show ?thesis
    by blast
next
  case False
  then show ?thesis
    using assms(1,2) by (auto simp: finesse_create_file_state_def)
qed

lemma lookup_file_state_eq:
  assumes "fd_lookup_table m = Some tab" "fd_table tab"
  shows "finesse_lookup_file_state fd m = Some (case lt_find tab (fd_key fd) of None \<Rightarrow> NULL | Some a \<Rightarrow> a)"
proof -
  obtain b where "lookup_table_hash tab (fd_key fd) = Some b"
    using fd_table_key [OF assms(2), of fd] by (auto simp: lt_key_def)
  then show ?thesis
    using assms(1) by (simp add: finesse_lookup_file_state_def lookup_table_lookup_def lookup_table_locked_eq lt_find_eq split: option.splits)
qed

lemma lookup_file_state_spec:
  assumes "mgr_ok m"
  shows "\<exists>a. finesse_lookup_file_state fd m = Some a
    \<and> (case fd_map m fd of None \<Rightarrow> a = NULL | Some fs \<Rightarrow> a \<noteq> NULL \<and> file_states m a = Some fs \<and> fs_fd fs = fd)"
proof (cases "fd_lookup_table m")
  case None
  then show ?thesis
    by (simp add: finesse_lookup_file_state_def fd_map_def)
next
  case (Some tab)
  with assms obtain ok: "fd_table tab" "lt_ok tab"
    and ptr0: "\<forall>fd a. lt_find tab (fd_key fd) = Some a \<longrightarrow> (\<exists>fs. file_states m a = Some fs \<and> fs_fd fs = fd)"
    by (auto simp: mgr_ok_def fd_table_def)
  note ptr = ptr0 [rule_format]
  note l = lookup_file_state_eq [OF Some ok(1), of fd]
  have "0 < a" if "file_states m a = Some fs" for a fs
    using assms that by (auto simp: mgr_ok_def)
  with l ptr [of fd] fd_map_eq [OF Some, of fd] show ?thesis
    by (cases "lt_find tab (fd_key fd)") fastforce+
qed

lemma delete_file_state_spec:
  assumes "mgr_ok m" "fd_map m fd = Some fs" "finesse_lookup_file_state fd m = Some a"
  shows "\<exists>m'. finesse_delete_file_state a m = Some m' \<and> mgr_ok m' \<and> fd_map m' = (fd_map m)(fd := None)"
proof -
  have a: "file_states m a = Some fs" "fs_fd fs = fd"
    using lookup_file_state_spec [OF assms(1), of fd] assms(2,3) by auto
  have "fd_lookup_table m \<noteq> None"
    using assms(2) by (auto simp: fd_map_def split: option.splits)
  with assms(1) obtain tab where tab: "fd_lookup_table m = Some tab" "fd_table tab" "lt_ok tab"
    and ptr0: "\<forall>fd a. lt_find tab (fd_key fd) = Some a \<longrightarrow> (\<exists>fs. file_states m a = Some fs \<and> fs_fd fs = fd)"
    by (rule mgr_okE)
  note ptr = ptr0 [rule_format]
  obtain b where b: "lt_find tab (fd_key fd) = Some b"
    using assms(2) fd_map_eq [OF tab(1)] by (cases "lt_find tab (fd_key fd)") auto
  from lt.del_old [OF tab(3) fd_table_key [OF tab(2)] b] obtain tab'
    where tab': "lookup_table_remove (fd_key fd) tab = Some (0, tab')" "lt_ok tab'"
      "\<And>j. lt_find tab' (fd_key j) = (if j = fd then None else lt_find tab (fd_key j))"
    using fd_table_key [OF tab(2)] by (auto simp: fd_key_inject)
  let ?m = "m\<lparr>fd_lookup_table := Some tab', file_states := (file_states m)(a := None)\<rparr>"
  have "finesse_delete_file_state a m = Some ?m"
    using tab(1) a tab'(1) by (simp add: finesse_delete_file_state_def)
  moreover have other: "c \<noteq> a" if "lt_find tab (fd_key j) = Some c" "j \<noteq> fd" for j c
    using ptr [OF that(1)] a that(2) by auto
  moreover have "mgr_ok ?m"
    using assms(1) tab' fd_table_remove [OF tab(2) tab'(1,2)] ptr other
    by (auto simp: mgr_ok_def split: if_splits)
  moreover have "fd_map ?m j = ((fd_map m)(fd := None)) j" for j
    using tab(1) tab'(3) [of j] other [of j]
    by (cases "lt_find tab (fd_key j)") (auto simp: fd_map_def split: if_splits)
  ultimately show ?thesis
    by (intro exI [of _ ?m]) auto
qed

lemma update_offset_spec:
  assumes "mgr_ok m" "fd_map m fd = Some fs" "finesse_lookup_file_state fd m = Some a"
  shows "\<exists>m'. finesse_update_offset a off m = Some m' \<and> mgr_ok m' \<and> fd_map m' = (fd_map m)(fd \<mapsto> fs\<lparr>current_offset := off\<rparr>)"
proof -
  have a: "file_states m a = Some fs" "fs_fd fs = fd"
    using lookup_file_state_spec [OF assms(1), of fd] assms(2,3) by auto
  have "fd_lookup_table m \<noteq> None"
    using assms(2) by (auto simp: fd_map_def split: option.splits)
  with assms(1) obtain tab where tab: "fd_lookup_table m = Some tab" "fd_table tab"
    and ptr0: "\<forall>fd a. lt_find tab (fd_key fd) = Some a \<longrightarrow> (\<exists>fs. file_states m a = Some fs \<and> fs_fd fs = fd)"
    by (rule mgr_okE)
  note ptr = ptr0 [rule_format]
  have p: "lt_find tab (fd_key fd) = Some a"
    using lookup_file_state_eq [OF tab, of fd] assms(2,3) fd_map_eq [OF tab(1), of fd] by (auto split: option.splits)
  let ?m = "m\<lparr>file_states := (file_states m)(a \<mapsto> fs\<lparr>current_offset := off\<rparr>)\<rparr>"
  have "finesse_update_offset a off m = Some ?m"
    using a by (simp add: finesse_update_offset_def)
  moreover have "mgr_ok ?m"
    using assms(1) a by (fastforce simp: mgr_ok_def split: option.splits)
  moreover have "fd_map ?m j = ((fd_map m)(fd \<mapsto> fs\<lparr>current_offset := off\<rparr>)) j" for j
  proof (cases "lt_find tab (fd_key j)")
    case (Some c)
    with ptr [OF Some] a p assms(2) fd_map_eq [OF tab(1)] fd_map_eq [of ?m tab] tab show ?thesis
      by auto
  next
    case None
    then show ?thesis
      using assms(2) fd_map_eq [OF tab(1)] fd_map_eq [of ?m tab] tab by (cases "j = fd") auto
  qed
  ultimately show ?thesis
    by (intro exI [of _ ?m]) auto
qed

section \<open>Properties\<close>

text \<open>
  C12: the file state manager is a map from descriptors to file states.  Creating a state for a new
  descriptor binds exactly that descriptor; creating one for a descriptor in use, or when there is no memory
  for the state or for its table entry, returns null, changes no binding and leaves no file state
  behind; a lookup returns the bound state or null; updating the offset through the
  pointer changes that descriptor only; deleting unbinds exactly that descriptor, and its internal assertion cannot fail.
\<close>

theorem file_state_manager_is_a_map:
  assumes "mgr_ok m" and "fd_lookup_table m \<noteq> None"
  shows "(\<exists>a. finesse_lookup_file_state fd m = Some a \<and> (case fd_map m fd of
      None \<Rightarrow> a = NULL
    | Some fs \<Rightarrow> file_states m a = Some fs
        \<and> (\<exists>m'. finesse_update_offset a off m = Some m' \<and> mgr_ok m' \<and> fd_map m' = (fd_map m)(fd \<mapsto> fs\<lparr>current_offset := off\<rparr>))
        \<and> (\<exists>m'. finesse_delete_file_state a m = Some m' \<and> mgr_ok m' \<and> fd_map m' = (fd_map m)(fd := None))))
    \<and> (\<exists>b m'. finesse_create_file_state state_memory entry_memory fd client uuid path flags m = Some (b, m') \<and> mgr_ok m'
        \<and> (if state_memory \<and> entry_memory \<and> fd_map m fd = None
           then b \<noteq> NULL \<and> fd_map m' = (fd_map m)(fd \<mapsto> \<lparr>fs_fd = fd, fs_key = uuid, fs_client = client, fs_pathname = path,
                                                      current_offset = 0, fs_flags = flags\<rparr>)
           else b = NULL \<and> fd_map m' = fd_map m \<and> file_states m' = file_states m))"
proof (rule conjI)
  obtain a where a: "finesse_lookup_file_state fd m = Some a"
    and spec: "case fd_map m fd of None \<Rightarrow> a = NULL | Some fs \<Rightarrow> a \<noteq> NULL \<and> file_states m a = Some fs \<and> fs_fd fs = fd"
    using lookup_file_state_spec [OF assms(1), of fd] by blast
  show "\<exists>a. finesse_lookup_file_state fd m = Some a \<and> (case fd_map m fd of
      None \<Rightarrow> a = NULL
    | Some fs \<Rightarrow> file_states m a = Some fs
        \<and> (\<exists>m'. finesse_update_offset a off m = Some m' \<and> mgr_ok m' \<and> fd_map m' = (fd_map m)(fd \<mapsto> fs\<lparr>current_offset := off\<rparr>))
        \<and> (\<exists>m'. finesse_delete_file_state a m = Some m' \<and> mgr_ok m' \<and> fd_map m' = (fd_map m)(fd := None)))"
  proof (cases "fd_map m fd")
    case (Some fs)
    with a spec update_offset_spec [OF assms(1) Some a] delete_file_state_spec [OF assms(1) Some a] show ?thesis
      by simp
  qed (use a spec in simp)
next
  let ?fs = "\<lparr>fs_fd = fd, fs_key = uuid, fs_client = client, fs_pathname = path, current_offset = 0, fs_flags = flags\<rparr>"
  have "next_state m \<noteq> NULL"
    using assms(1) by (simp add: mgr_ok_def)
  then show "\<exists>b m'. finesse_create_file_state state_memory entry_memory fd client uuid path flags m = Some (b, m') \<and> mgr_ok m'
        \<and> (if state_memory \<and> entry_memory \<and> fd_map m fd = None then b \<noteq> NULL \<and> fd_map m' = (fd_map m)(fd \<mapsto> ?fs)
           else b = NULL \<and> fd_map m' = fd_map m \<and> file_states m' = file_states m)"
    using create_file_state_new [OF assms, of fd client uuid path flags]
      create_file_state_refused [OF assms, of state_memory entry_memory fd client uuid path flags]
    by (cases "state_memory \<and> entry_memory \<and> fd_map m fd = None") auto
qed

theorem file_state_manager_is_a_map_witness:
  "\<exists>m. mgr_ok m \<and> fd_lookup_table m \<noteq> None \<and> finesse_lookup_file_state 3 m = Some NULL
     \<and> (\<exists>b m'. finesse_create_file_state True True 3 7 [] ''/a'' 0 m = Some (b, m') \<and> b \<noteq> NULL \<and> fd_map m' 3 \<noteq> None)
     \<and> (\<exists>m'. finesse_create_file_state True False 3 7 [] ''/a'' 0 m = Some (NULL, m') \<and> fd_map m' = Map.empty)"
proof -
  let ?m = "\<lparr>fd_lookup_table = None, file_states = Map.empty, next_state = 1\<rparr>"
  obtain m where m: "mgr_ok m" "fd_map m = Map.empty" "fd_lookup_table m \<noteq> None"
    using init_mgr_ok [of ?m] by auto
  with file_state_manager_is_a_map [OF m(1,3), of 3 0 True True 7 "[]" "''/a''" 0] file_state_manager_is_a_map [OF m(1,3), of 3 0 True False 7 "[]" "''/a''" 0]
  show ?thesis
    by (intro exI [of _ m]) auto
qed

text \<open>
  C26: a created table has a power of two of buckets, at least the hint (capped at 65536) and less than
  twice as many unless a single bucket does, is empty, and every key whose hash is defined falls into one of its buckets.
\<close>

theorem lookup_table_create_buckets:
  fixes tab :: "'o lookup_table"
  assumes "lookup_table_create True hint h ks = Some tab"
  shows "length (TableBuckets tab) = 2 ^ EntryCountShift tab \<and> min hint 65536 \<le> length (TableBuckets tab)
    \<and> (0 < EntryCountShift tab \<longrightarrow> length (TableBuckets tab) < 2 * min hint 65536)
    \<and> lt_find tab k = None \<and> (lookup_table_hash tab k = Some b \<longrightarrow> b < length (TableBuckets tab))"
proof -
  let ?n = "if hint > 65536 then 65536 else hint"
  note ok = lookup_table_create_ok [OF assms]
  have s: "EntryCountShift tab = entry_count_shift_for ?n 0" and l: "length (TableBuckets tab) = 2 ^ entry_count_shift_for ?n 0"
    using assms by (auto simp: lookup_table_create_def Let_def)
  have "length (TableBuckets tab) < 2 * min hint 65536" if pos: "0 < EntryCountShift tab"
  proof -
    obtain j where j: "entry_count_shift_for ?n 0 = Suc j"
      using pos s by (cases "entry_count_shift_for ?n 0") auto
    have "\<not> ?n \<le> 2 ^ j"
      using entry_count_shift_bound [of ?n j] j by auto
    then show ?thesis
      using l j by (auto split: if_splits)
  qed
  with entry_count_shift_enough [of ?n] ok l s lookup_table_hash_bound [OF ok(1)] show ?thesis
    by (auto split: if_splits)
qed

theorem lookup_table_create_buckets_witness:
  "\<exists>tab :: nat lookup_table. lookup_table_create True 100 None 4 = Some tab \<and> 100 \<le> length (TableBuckets tab)"
proof -
  obtain tab :: "nat lookup_table" where "lookup_table_create True 100 None 4 = Some tab"
    by (simp add: lookup_table_create_def Let_def)
  with lookup_table_create_buckets [OF this, THEN conjunct2, THEN conjunct1] show ?thesis
    by auto
qed

end
