(* ===== verification/NameIndex.thy ===== *)
theory NameIndex
  imports NameTrie
begin

text \<open>
  Directories and the extended attributes of an inode keep their entries twice: in a list
  and in a trie over the names.  This theory states when the two agree and shows that the
  pairs of updates the code makes keep them in agreement.  \<^verbatim>\<open>nm\<close> gives the name of an
  entry, or nothing for memory that does not hold an entry.
\<close>

definition indexed :: "('o \<Rightarrow> string option) \<Rightarrow> 'o list \<Rightarrow> 'o Trie option \<Rightarrow> bool" where
  "indexed nm xs t \<longleftrightarrow> distinct xs \<and> trie_invar t \<and> (t = None \<longleftrightarrow> xs = [])
     \<and> (\<forall>x\<in>set xs. \<exists>n. nm x = Some n \<and> n \<noteq> [] \<and> TrieSearch t n = Some x)
     \<and> (\<forall>n x. TrieSearch t n = Some x \<longrightarrow> x \<in> set xs \<and> nm x = Some n)"

text \<open>The root that an insertion works on: the code creates a node when there is none.\<close>

definition trie_root :: "'o Trie option \<Rightarrow> 'o Trie option" where
  "trie_root t = Some (case t of None \<Rightarrow> TrieCreateNode | Some u \<Rightarrow> u)"

lemma trie_root_search [simp]: "TrieSearch (trie_root t) = TrieSearch t"
  by (cases t) (auto simp: trie_root_def)

lemma trie_root_invar: "trie_invar t \<Longrightarrow> trie_invar (trie_root t)"
  by (auto simp: trie_invar_def trie_root_def pruned_create split: option.splits)

lemma trie_root_not_None [simp]: "trie_root t \<noteq> None"
  by (simp add: trie_root_def)

lemma indexed_empty [simp]: "indexed nm [] None"
  by (simp add: indexed_def trie_invar_def)

lemma indexed_mono: "\<lbrakk>indexed nm xs t; \<forall>x\<in>set xs. nm' x = nm x\<rbrakk> \<Longrightarrow> indexed nm' xs t"
  unfolding indexed_def by simp

lemma indexed_cong: "(\<And>x. x \<in> set xs \<Longrightarrow> nm' x = nm x) \<Longrightarrow> indexed nm' xs t \<longleftrightarrow> indexed nm xs t"
  using indexed_mono [of nm xs t nm'] indexed_mono [of nm' xs t nm] by auto

lemma indexed_find:
  assumes "indexed nm xs t" "x \<in> set xs" "nm x = Some n"
  shows "TrieSearch t n = Some x"
proof -
  obtain m where "nm x = Some m" "TrieSearch t m = Some x"
    using assms(1,2) unfolding indexed_def by blast
  with assms(3) show ?thesis
    by simp
qed

lemma indexed_member:
  assumes "indexed nm xs t" "TrieSearch t n = Some x"
  shows "x \<in> set xs \<and> nm x = Some n \<and> n \<noteq> []"
proof -
  have x: "x \<in> set xs" "nm x = Some n"
    using assms unfolding indexed_def by blast+
  then obtain m where "nm x = Some m" "m \<noteq> []"
    using assms(1) unfolding indexed_def by blast
  with x show ?thesis
    by simp
qed

lemma indexed_None: "indexed nm xs t \<Longrightarrow> TrieSearch t n = None \<longleftrightarrow> (\<forall>x\<in>set xs. nm x \<noteq> Some n)"
  using indexed_find [of nm xs t] indexed_member [of nm xs t n] by (metis not_Some_eq)

lemma indexed_insert:
  assumes "indexed nm xs t" "n \<noteq> []" "TrieSearch t n = None" "nm x = Some n"
  shows "indexed nm (x # xs) (trie_insert_at (trie_root t) n x)"
    and "TrieSearch (trie_insert_at (trie_root t) n x) = (TrieSearch t)(n \<mapsto> x)"
proof -
  let ?t' = "trie_insert_at (trie_root t) n x"
  have t': "trie_invar ?t'" "?t' \<noteq> None" "TrieSearch ?t' = (TrieSearch t)(n \<mapsto> x)"
    using tm.ins_law [of "trie_root t" n x] assms(1) by (auto simp: indexed_def trie_root_invar)
  have fresh: "nm y \<noteq> Some n" if "y \<in> set xs" for y
    using indexed_None [OF assms(1)] assms(3) that by blast
  have "\<exists>m. nm y = Some m \<and> m \<noteq> [] \<and> TrieSearch ?t' m = Some y" if y: "y \<in> set (x # xs)" for y
  proof (cases "y = x")
    case False
    then obtain m where "nm y = Some m" "m \<noteq> []" "TrieSearch t m = Some y"
      using assms(1) y by (auto simp: indexed_def)
    then show ?thesis
      using fresh [of y] False y t'(3) by auto
  qed (use assms(2,4) t'(3) in simp)
  moreover have "y \<in> set (x # xs) \<and> nm y = Some m" if "TrieSearch ?t' m = Some y" for m y
    using indexed_member [OF assms(1), of m y] assms(4) that t'(3) by (cases "m = n") auto
  moreover have "distinct (x # xs)"
    using fresh assms(1,4) by (auto simp: indexed_def)
  ultimately show "indexed nm (x # xs) ?t'"
    using t'(1,2) unfolding indexed_def by simp
  show "TrieSearch ?t' = (TrieSearch t)(n \<mapsto> x)"
    by (rule t'(3))
qed

lemma indexed_delete:
  assumes "indexed nm xs t" "TrieSearch t n = Some x"
  shows "\<exists>t'. TrieDeletion True t n = Some (0, t') \<and> indexed nm (remove1 x xs) t' \<and> TrieSearch t' = (TrieSearch t)(n := None)"
proof -
  have x: "x \<in> set xs" "nm x = Some n" "n \<noteq> []"
    using indexed_member [OF assms] by auto
  have inv: "trie_invar t" "t \<noteq> None" "distinct xs"
    using assms(1) x(1) by (auto simp: indexed_def)
  from tm.del_present [OF inv(1,2) x(3) assms(2)] obtain t'
    where t': "TrieDeletion True t n = Some (0, t')" "trie_invar t'" "TrieSearch t' = (TrieSearch t)(n := None)"
      "(t' \<noteq> None) = (TrieSearch t' \<noteq> Map.empty)"
    by blast
  have other: "nm y \<noteq> Some n" if "y \<in> set xs" "y \<noteq> x" for y
    using indexed_find [OF assms(1) that(1)] assms(2) that(2) by auto
  have fwd: "\<exists>m. nm y = Some m \<and> m \<noteq> [] \<and> TrieSearch t' m = Some y" if "y \<in> set (remove1 x xs)" for y
  proof -
    have y: "y \<in> set xs" "y \<noteq> x"
      using that inv(3) by auto
    then obtain m where "nm y = Some m" "m \<noteq> []" "TrieSearch t m = Some y"
      using assms(1) by (auto simp: indexed_def)
    with other [OF y] t'(3) show ?thesis
      by auto
  qed
  have bwd: "y \<in> set (remove1 x xs) \<and> nm y = Some m" if "TrieSearch t' m = Some y" for m y
  proof -
    have "m \<noteq> n" "TrieSearch t m = Some y"
      using that t'(3) by (auto split: if_splits)
    with indexed_member [OF assms(1), of m y] x(2) inv(3) show ?thesis
      by auto
  qed
  have "t' = None \<longleftrightarrow> remove1 x xs = []"
  proof -
    have "TrieSearch t' = Map.empty" if "remove1 x xs = []"
      using bwd that by (intro ext) (metis empty_iff empty_set not_Some_eq)
    moreover have "remove1 x xs = []" if "TrieSearch t' = Map.empty"
      using fwd [of "hd (remove1 x xs)"] that by (cases "remove1 x xs") auto
    ultimately have "TrieSearch t' = Map.empty \<longleftrightarrow> remove1 x xs = []"
      by blast
    with t'(4) show ?thesis
      by blast
  qed
  then have "indexed nm (remove1 x xs) t'"
    using fwd bwd t'(2) inv(3) unfolding indexed_def by (simp add: distinct_remove1)
  with t' show ?thesis
    by blast
qed

end
