(* ===== verification/BBObject.thy ===== *)
theory BBObject
  imports Prelude
begin

text \<open>
  The reference counted objects of \<^verbatim>\<open>src/finesse/bitbucket/object.c\<close>.  An object is named by the
  address of its data; the header in front of it is an entry of the typed heap
  \<^verbatim>\<open>Objects\<close>, so that the check of a magic number is the presence of the entry.  The
  operations work on every state that extends \<^verbatim>\<open>object_state\<close>.  The callbacks that the C
  code keeps in the header are an argument of the operations, because they act on the
  whole state; the locale \<^verbatim>\<open>object_callbacks\<close> states what the package expects from them.
\<close>

section \<open>State and callbacks\<close>

abbreviation (input) BITBUCKET_MAX_REFERENCE_REASONS :: nat where
  "BITBUCKET_MAX_REFERENCE_REASONS \<equiv> 12"

abbreviation (input) BITBUCKET_MAX_REFERENCE_REASON_NAME_LENGTH :: nat where
  "BITBUCKET_MAX_REFERENCE_REASON_NAME_LENGTH \<equiv> 32"

text \<open>\<^verbatim>\<open>offsetof(bitbucket_object_header_t, Data)\<close>, nine cache lines, and the size of the header.\<close>

abbreviation (input) header_offset :: nat where "header_offset \<equiv> 576"
abbreviation (input) header_size :: nat where "header_size \<equiv> 584"

record object_header =
  ReferenceCount :: u64
  ReferenceReasons :: "u32 list"
  DataLength :: nat

record object_state =
  Objects :: "addr \<Rightarrow> object_header option"
  ObjectCount :: u64
  DefaultObjectLock :: rwlock
  next_addr :: addr

text \<open>A callback that is \<^verbatim>\<open>NULL\<close> in the C structure is \<^const>\<open>None\<close>.\<close>

record 's object_attributes =
  ReasonCount :: nat
  ReferenceReasonsNames :: "string list"
  Initialize :: "(addr \<Rightarrow> nat \<Rightarrow> 's \<Rightarrow> 's option) option"
  Deallocate :: "(addr \<Rightarrow> nat \<Rightarrow> 's \<Rightarrow> 's option) option"
  Lock :: "(addr \<Rightarrow> bool \<Rightarrow> 's \<Rightarrow> 's option) option"
  Trylock :: "(addr \<Rightarrow> bool \<Rightarrow> 's \<Rightarrow> (errno \<times> 's) option) option"
  Unlock :: "(addr \<Rightarrow> 's \<Rightarrow> 's option) option"

text \<open>\<^verbatim>\<open>malloc\<close> gives memory above everything handed out before.\<close>

definition malloc :: "nat \<Rightarrow> 'a object_state_scheme \<Rightarrow> addr \<times> 'a object_state_scheme" where
  "malloc len s = (next_addr s, s\<lparr>next_addr := next_addr s + len\<rparr>)"

definition round64 :: "nat \<Rightarrow> nat" where
  "round64 len = (len + 63) div 64 * 64"

definition IncrementObjectCount :: "'a object_state_scheme \<Rightarrow> 'a object_state_scheme" where
  "IncrementObjectCount s = s\<lparr>ObjectCount := ObjectCount s + 1\<rparr>"

definition DecrementObjectCount :: "'a object_state_scheme \<Rightarrow> 'a object_state_scheme" where
  "DecrementObjectCount s = s\<lparr>ObjectCount := ObjectCount s - 1\<rparr>"

section \<open>The default callbacks\<close>

definition default_initialize :: "addr \<Rightarrow> nat \<Rightarrow> 'a object_state_scheme \<Rightarrow> 'a object_state_scheme option" where
  "default_initialize obj len s = do { c_assert (obj \<noteq> NULL); Some s }"

definition default_deallocate :: "addr \<Rightarrow> nat \<Rightarrow> 'a object_state_scheme \<Rightarrow> 'a object_state_scheme option" where
  "default_deallocate obj len s = do { c_assert (obj \<noteq> NULL); Some s }"

definition default_lock :: "addr \<Rightarrow> bool \<Rightarrow> 'a object_state_scheme \<Rightarrow> 'a object_state_scheme option" where
  "default_lock obj exclusive s = do {
     c_assert (Objects s obj \<noteq> None);
     (status, l) \<leftarrow> (if exclusive then wrlock else rdlock) (DefaultObjectLock s);
     c_assert (status = 0);
     Some (s\<lparr>DefaultObjectLock := l\<rparr>) }"

definition default_trylock :: "addr \<Rightarrow> bool \<Rightarrow> 'a object_state_scheme \<Rightarrow> (errno \<times> 'a object_state_scheme) option" where
  "default_trylock obj exclusive s = do {
     c_assert (Objects s obj \<noteq> None);
     let (status, l) = (if exclusive then trywrlock else tryrdlock) (DefaultObjectLock s);
     Some (status, s\<lparr>DefaultObjectLock := l\<rparr>) }"

definition default_unlock :: "addr \<Rightarrow> 'a object_state_scheme \<Rightarrow> 'a object_state_scheme option" where
  "default_unlock obj s = do {
     c_assert (Objects s obj \<noteq> None);
     let (status, l) = rwunlock (DefaultObjectLock s);
     c_assert (status = 0);
     Some (s\<lparr>DefaultObjectLock := l\<rparr>) }"

text \<open>
  Without a callback of its own an object is locked by the default routine, which is then
  given the address of the header instead of that of the data.
\<close>

definition LockObject ::
  "'a object_state_scheme object_attributes \<Rightarrow> addr \<Rightarrow> bool \<Rightarrow> 'a object_state_scheme \<Rightarrow> 'a object_state_scheme option" where
  "LockObject A obj exclusive s = do {
     c_assert (Objects s obj \<noteq> None);
     (case Lock A of
        None \<Rightarrow> default_lock (obj - header_offset) exclusive s
      | Some lock \<Rightarrow> lock obj exclusive s) }"

definition UnlockObject ::
  "'a object_state_scheme object_attributes \<Rightarrow> addr \<Rightarrow> 'a object_state_scheme \<Rightarrow> 'a object_state_scheme option" where
  "UnlockObject A obj s = do {
     c_assert (Objects s obj \<noteq> None);
     (case Unlock A of
        None \<Rightarrow> default_unlock (obj - header_offset) s
      | Some unlock \<Rightarrow> unlock obj s) }"

definition default_object_attributes :: "'a object_state_scheme object_attributes" where
  "default_object_attributes =
     \<lparr>ReasonCount = BITBUCKET_MAX_REFERENCE_REASONS,
      ReferenceReasonsNames =
        [''ObjectReason0'', ''ObjectReason1'', ''ObjectReason2'', ''ObjectReason3'',
         ''ObjectReason4'', ''ObjectReason5'', ''ObjectReason6'', ''ObjectReason7'', [], [], [], []],
      Initialize = Some default_initialize, Deallocate = Some default_deallocate,
      Lock = Some default_lock, Trylock = Some default_trylock, Unlock = Some default_unlock\<rparr>"

section \<open>The operations\<close>

definition BitbucketObjectCreate ::
  "'a object_state_scheme object_attributes option \<Rightarrow> nat \<Rightarrow> nat \<Rightarrow> 'a object_state_scheme
     \<Rightarrow> (addr \<times> 'a object_state_scheme) option" where
  "BitbucketObjectCreate attributes len reason s = do {
     let A = (case attributes of None \<Rightarrow> default_object_attributes | Some A \<Rightarrow> A);
     let (newobj, s) = malloc (round64 (header_size + len)) s;
     c_assert (ReasonCount A \<le> BITBUCKET_MAX_REFERENCE_REASONS);
     c_assert (\<forall>name \<in> set (take (ReasonCount A) (ReferenceReasonsNames A)).
                 length name \<le> BITBUCKET_MAX_REFERENCE_REASON_NAME_LENGTH);
     c_assert (reason < ReasonCount A);
     let data = newobj + header_offset;
     let header = \<lparr>ReferenceCount = 1,
                   ReferenceReasons = (replicate BITBUCKET_MAX_REFERENCE_REASONS 0)[reason := 1],
                   DataLength = len\<rparr>;
     init \<leftarrow> Initialize A;
     s \<leftarrow> init data len (s\<lparr>Objects := (Objects s)(data \<mapsto> header)\<rparr>);
     Some (data, IncrementObjectCount s) }"

definition set_header :: "addr \<Rightarrow> object_header \<Rightarrow> 'a object_state_scheme \<Rightarrow> 'a object_state_scheme" where
  "set_header obj h s = s\<lparr>Objects := (Objects s)(obj \<mapsto> h)\<rparr>"

text \<open>The counters of a header: the total at 64 bits, a reason at 32 bits, both wrapping around.\<close>

definition add_reference :: "nat \<Rightarrow> object_header \<Rightarrow> object_header" where
  "add_reference reason h =
     h\<lparr>ReferenceCount := ReferenceCount h + 1,
       ReferenceReasons := (ReferenceReasons h)[reason := ReferenceReasons h ! reason + 1]\<rparr>"

definition sub_count :: "u64 \<Rightarrow> object_header \<Rightarrow> object_header" where
  "sub_count bias h = h\<lparr>ReferenceCount := ReferenceCount h - bias\<rparr>"

definition sub_reason :: "nat \<Rightarrow> u64 \<Rightarrow> object_header \<Rightarrow> object_header" where
  "sub_reason reason bias h =
     h\<lparr>ReferenceReasons := (ReferenceReasons h)[reason := ReferenceReasons h ! reason - ucast bias]\<rparr>"

definition BitbucketObjectReference ::
  "'a object_state_scheme object_attributes \<Rightarrow> addr \<Rightarrow> nat \<Rightarrow> 'a object_state_scheme \<Rightarrow> 'a object_state_scheme option" where
  "BitbucketObjectReference A obj reason s = do {
     h \<leftarrow> Objects s obj;
     c_assert (reason < ReasonCount A);
     s \<leftarrow> LockObject A obj False s;
     h \<leftarrow> Objects s obj;
     s \<leftarrow> UnlockObject A obj (set_header obj (add_reference reason h) s);
     c_assert (ReferenceCount h \<noteq> 0);
     c_assert (ucast (ReferenceReasons h ! reason) \<le> ReferenceCount h);
     Some s }"

text \<open>
  The last reference is dropped in two steps: the count is restored under the shared
  lock and taken again under the exclusive one.  The deallocation callback releases
  that lock; when somebody took a reference in between, nobody does.
\<close>

definition release_last ::
  "'a object_state_scheme object_attributes \<Rightarrow> addr \<Rightarrow> nat \<Rightarrow> u64 \<Rightarrow> 'a object_state_scheme \<Rightarrow> 'a object_state_scheme option" where
  "release_last A obj reason bias s = do {
     s \<leftarrow> LockObject A obj True s;
     h \<leftarrow> Objects s obj;
     c_assert (ReferenceCount h \<ge> bias);
     c_assert (ucast (ReferenceReasons h ! reason) \<ge> bias);
     let s = set_header obj (sub_reason reason bias (sub_count bias h)) s;
     if bias = ReferenceCount h then do {
       dealloc \<leftarrow> Deallocate A;
       s \<leftarrow> dealloc obj (DataLength h) s;
       Some (DecrementObjectCount (s\<lparr>Objects := (Objects s)(obj := None)\<rparr>)) }
     else Some s }"

definition BitbucketObjectDereference ::
  "'a object_state_scheme object_attributes \<Rightarrow> addr \<Rightarrow> nat \<Rightarrow> u64 \<Rightarrow> 'a object_state_scheme \<Rightarrow> 'a object_state_scheme option" where
  "BitbucketObjectDereference A obj reason bias s = do {
     h \<leftarrow> Objects s obj;
     c_assert (reason < ReasonCount A);
     c_assert (bias \<le> ReferenceCount h);
     c_assert (bias \<le> ucast (ReferenceReasons h ! reason));
     s \<leftarrow> LockObject A obj False s;
     h \<leftarrow> Objects s obj;
     (if bias = ReferenceCount h then do {
        s \<leftarrow> UnlockObject A obj (set_header obj h s);
        release_last A obj reason bias s }
      else do {
        c_assert (ucast (ReferenceReasons h ! reason) \<ge> bias);
        UnlockObject A obj (set_header obj (sub_reason reason bias (sub_count bias h)) s) }) }"

definition BitbucketObjectCount :: "'a object_state_scheme \<Rightarrow> u64" where
  "BitbucketObjectCount s = ObjectCount s"

definition BitbucketGetObjectReferenceCount :: "addr \<Rightarrow> 'a object_state_scheme \<Rightarrow> u64 option" where
  "BitbucketGetObjectReferenceCount obj s = do { h \<leftarrow> Objects s obj; Some (ReferenceCount h) }"

definition BitbucketGetObjectReasonReferenceCount :: "addr \<Rightarrow> nat \<Rightarrow> 'a object_state_scheme \<Rightarrow> u64 option" where
  "BitbucketGetObjectReasonReferenceCount obj reason s = do {
     h \<leftarrow> Objects s obj;
     c_assert (reason < BITBUCKET_MAX_REFERENCE_REASONS);
     Some (ucast (ReferenceReasons h ! reason)) }"

text \<open>
  The copy of the counters takes as many elements as the object has references.
  Reading past the array or writing past the caller's buffer is the value \<^const>\<open>None\<close>.
\<close>

definition BitbucketGetObjectReasonReferenceCounts :: "addr \<Rightarrow> u32 list \<Rightarrow> nat \<Rightarrow> 'a object_state_scheme \<Rightarrow> u32 list option" where
  "BitbucketGetObjectReasonReferenceCounts obj counts entries s = do {
     h \<leftarrow> Objects s obj;
     c_assert (entries \<le> BITBUCKET_MAX_REFERENCE_REASONS);
     let n = unat (ReferenceCount h);
     c_assert (n \<le> length (ReferenceReasons h) \<and> n \<le> length counts);
     Some (take n (ReferenceReasons h) @ drop n counts) }"

definition BitbucketGetObjectReasonName ::
  "'a object_state_scheme object_attributes \<Rightarrow> addr \<Rightarrow> nat \<Rightarrow> 'a object_state_scheme \<Rightarrow> string option" where
  "BitbucketGetObjectReasonName A obj reason s = do {
     h \<leftarrow> Objects s obj;
     c_assert (reason < ReasonCount A);
     Some (ReferenceReasonsNames A ! reason) }"

section \<open>What the callbacks promise\<close>

text \<open>
  \<^verbatim>\<open>ready\<close> says that the calling thread can take the lock of the object in shared mode,
  \<^verbatim>\<open>removable\<close> that it can take it exclusively and that the object can be torn down; \<^verbatim>\<open>teardown\<close> is the
  state after the deallocation callback.  Locking and unlocking leave no trace and do
  not look at the counters in the header.
\<close>

locale object_callbacks =
  fixes A :: "'a object_state_scheme object_attributes"
    and ready :: "addr \<Rightarrow> 'a object_state_scheme \<Rightarrow> bool"
    and removable :: "addr \<Rightarrow> 'a object_state_scheme \<Rightarrow> bool"
    and teardown :: "addr \<Rightarrow> 'a object_state_scheme \<Rightarrow> 'a object_state_scheme"
  assumes reasons: "ReasonCount A = BITBUCKET_MAX_REFERENCE_REASONS"
    and shared_section: "\<lbrakk>ready a s; Objects s a = Some h\<rbrakk> \<Longrightarrow>
      \<exists>s'. LockObject A a False s = Some s' \<and> Objects s' a = Some h
         \<and> (\<forall>h'. UnlockObject A a (set_header a h' s') = Some (set_header a h' s))"
    and removable_ready: "removable a s \<Longrightarrow> ready a s"
    and exclusive_section: "\<lbrakk>removable a s; Objects s a = Some h; DataLength h' = DataLength h\<rbrakk> \<Longrightarrow>
      \<exists>s' d s''. LockObject A a True s = Some s' \<and> Objects s' a = Some h \<and> Deallocate A = Some d
         \<and> d a (DataLength h) (set_header a h' s') = Some s''
         \<and> s''\<lparr>Objects := (Objects s'')(a := None)\<rparr> = (teardown a s)\<lparr>Objects := (Objects s)(a := None)\<rparr>
         \<and> ObjectCount s'' = ObjectCount s"
begin

lemma reference:
  assumes "ready a s" "Objects s a = Some h" "reason < 12"
    and "ReferenceCount h \<noteq> 0" "ucast (ReferenceReasons h ! reason) \<le> ReferenceCount h"
  shows "BitbucketObjectReference A a reason s = Some (set_header a (add_reference reason h) s)"
proof -
  obtain s' where "LockObject A a False s = Some s'" "Objects s' a = Some h"
    "\<And>h'. UnlockObject A a (set_header a h' s') = Some (set_header a h' s)"
    using shared_section [OF assms(1,2)] by blast
  then show ?thesis
    using assms by (simp add: BitbucketObjectReference_def reasons)
qed

lemma dereference_keeps:
  assumes "ready a s" "Objects s a = Some h" "reason < 12"
    and "bias < ReferenceCount h" "bias \<le> ucast (ReferenceReasons h ! reason)"
  shows "BitbucketObjectDereference A a reason bias s = Some (set_header a (sub_reason reason bias (sub_count bias h)) s)"
proof -
  obtain s' where "LockObject A a False s = Some s'" "Objects s' a = Some h"
    "\<And>h'. UnlockObject A a (set_header a h' s') = Some (set_header a h' s)"
    using shared_section [OF assms(1,2)] by blast
  then show ?thesis
    using assms by (auto simp: BitbucketObjectDereference_def reasons)
qed

lemma dereference_frees:
  assumes "removable a s" "Objects s a = Some h" "reason < 12"
    and "bias = ReferenceCount h" "bias \<le> ucast (ReferenceReasons h ! reason)"
  shows "BitbucketObjectDereference A a reason bias s =
    Some ((teardown a s)\<lparr>Objects := (Objects s)(a := None), ObjectCount := ObjectCount s - 1\<rparr>)"
proof -
  obtain s1 where s1: "LockObject A a False s = Some s1" "Objects s1 a = Some h"
    "UnlockObject A a (set_header a h s1) = Some (set_header a h s)"
    using shared_section [OF removable_ready [OF assms(1)] assms(2)] by blast
  have same: "set_header a h s = s"
    using assms(2) by (simp add: set_header_def fun_upd_idem)
  let ?h' = "sub_reason reason bias (sub_count bias h)"
  have "DataLength ?h' = DataLength h"
    by (simp add: sub_reason_def sub_count_def)
  from exclusive_section [OF assms(1,2) this] obtain s2 d s3
    where s2: "LockObject A a True s = Some s2" "Objects s2 a = Some h" "Deallocate A = Some d"
      "d a (DataLength h) (set_header a ?h' s2) = Some s3"
      and s3: "s3\<lparr>Objects := (Objects s3)(a := None)\<rparr> = (teardown a s)\<lparr>Objects := (Objects s)(a := None)\<rparr>"
      "ObjectCount s3 = ObjectCount s"
    by blast
  have "DecrementObjectCount (s3\<lparr>Objects := (Objects s3)(a := None)\<rparr>)
      = (s3\<lparr>Objects := (Objects s3)(a := None)\<rparr>)\<lparr>ObjectCount := ObjectCount s - 1\<rparr>"
    using s3(2) by (simp add: DecrementObjectCount_def)
  also have "\<dots> = (teardown a s)\<lparr>Objects := (Objects s)(a := None), ObjectCount := ObjectCount s - 1\<rparr>"
    unfolding s3(1) by simp
  finally show ?thesis
    using assms s1 s2 by (simp add: BitbucketObjectDereference_def release_last_def reasons same)
qed

end

section \<open>Counting\<close>

text \<open>The total of an object is the sum of its reasons, and no counter has wrapped around.\<close>

definition header_ok :: "object_header \<Rightarrow> bool" where
  "header_ok h \<longleftrightarrow> length (ReferenceReasons h) = BITBUCKET_MAX_REFERENCE_REASONS
     \<and> unat (ReferenceCount h) = sum_list (map unat (ReferenceReasons h)) \<and> ReferenceCount h \<noteq> 0"

lemma unat_bound: "unat (x::'a::len word) < 2 ^ LENGTH('a)"
  by (rule unsigned_less)

lemma unat_ucast_reason: "unat (ucast (x::u32) :: u64) = unat x"
proof -
  have "unat x < 2 ^ 64"
    using unat_bound [of x] by simp
  then show ?thesis
    by (simp add: unsigned_ucast_eq take_bit_nat_eq_self)
qed

lemma sum_list_update_nat:
  "i < length xs \<Longrightarrow> sum_list (xs[i := v]) + xs ! i = sum_list xs + (v::nat)"
  by (induction xs arbitrary: i) (auto simp: nth_Cons split: nat.splits)

lemma map_unat_update: "map unat (xs[i := v]) = (map unat xs)[i := unat v]"
  by (rule map_update)

lemma reason_le_total:
  assumes "header_ok h" "i < 12"
  shows "unat (ReferenceReasons h ! i) \<le> unat (ReferenceCount h)"
  using assms elem_le_sum_list [of i "map unat (ReferenceReasons h)"] by (simp add: header_ok_def)

lemma reason_le_total_word:
  assumes "header_ok h" "i < 12"
  shows "ucast (ReferenceReasons h ! i) \<le> ReferenceCount h"
  using reason_le_total [OF assms] by (simp add: word_le_nat_alt unat_ucast_reason)

lemma sum_list_le_bound: "(\<forall>x\<in>set xs. x \<le> k) \<Longrightarrow> sum_list xs \<le> length xs * (k::nat)"
  by (induction xs) auto

lemma total_bound:
  assumes "header_ok h"
  shows "unat (ReferenceCount h) + 1 < 2 ^ 64"
proof -
  have "unat (x::u32) \<le> 2 ^ 32 - 1" for x
    using unat_bound [of x] by simp
  then have "sum_list (map unat (ReferenceReasons h)) \<le> length (map unat (ReferenceReasons h)) * (2 ^ 32 - 1)"
    by (intro sum_list_le_bound) auto
  then show ?thesis
    using assms by (simp add: header_ok_def)
qed

lemma header_ok_add:
  assumes "header_ok h" "reason < 12" "ReferenceReasons h ! reason \<noteq> - 1"
  shows "header_ok (add_reference reason h)"
proof -
  have u32: "unat (ReferenceReasons h ! reason + 1) = unat (ReferenceReasons h ! reason) + 1"
    using assms(3) unatSuc [of "ReferenceReasons h ! reason"] by (simp add: add_eq_0_iff add.commute)
  have u64: "unat (ReferenceCount h + 1) = unat (ReferenceCount h) + 1"
    using total_bound [OF assms(1)] by (simp add: unat_word_ariths)
  have "ReferenceCount h + 1 \<noteq> 0"
    using u64 by (auto simp: unat_0_iff [symmetric])
  then show ?thesis
    using assms sum_list_update_nat [of reason "map unat (ReferenceReasons h)" "unat (ReferenceReasons h ! reason) + 1"]
    by (simp add: header_ok_def add_reference_def map_unat_update u32 u64)
qed

lemma unat_sub_reason:
  fixes x :: u32 and bias :: u64
  assumes "bias \<le> ucast x"
  shows "unat (x - ucast bias) = unat x - unat bias" and "unat bias \<le> unat x"
proof -
  show le: "unat bias \<le> unat x"
    using assms by (simp add: word_le_nat_alt unat_ucast_reason)
  then have "unat bias < 2 ^ 32"
    using unat_bound [of x] by simp
  then have "unat (ucast bias :: u32) = unat bias"
    by (simp add: unsigned_ucast_eq take_bit_nat_eq_self)
  with le show "unat (x - ucast bias) = unat x - unat bias"
    by (simp add: unat_sub word_le_nat_alt)
qed

lemma header_ok_sub:
  assumes "header_ok h" "reason < 12" "bias < ReferenceCount h" "bias \<le> ucast (ReferenceReasons h ! reason)"
  shows "header_ok (sub_reason reason bias (sub_count bias h))"
proof -
  have "unat (ReferenceCount h - bias) = unat (ReferenceCount h) - unat bias" "unat bias < unat (ReferenceCount h)"
    using assms(3) by (auto simp: unat_sub less_imp_le word_less_nat_alt)
  moreover have "ReferenceCount h - bias \<noteq> 0"
    using assms(3) by auto
  ultimately show ?thesis
    using assms unat_sub_reason [OF assms(4)]
      sum_list_update_nat [of reason "map unat (ReferenceReasons h)" "unat (ReferenceReasons h ! reason) - unat bias"]
    by (simp add: header_ok_def sub_reason_def sub_count_def map_unat_update)
qed

lemma header_ok_only:
  assumes "header_ok h" "reason < 12" "ReferenceCount h \<le> ucast (ReferenceReasons h ! reason)" "i < 12" "i \<noteq> reason"
  shows "ReferenceReasons h ! i = 0"
proof -
  let ?xs = "map unat (ReferenceReasons h)"
  have len: "length ?xs = 12"
    using assms(1) by (simp add: header_ok_def)
  have "sum_list ?xs \<le> ?xs ! reason"
    using assms(1,2,3) len by (simp add: header_ok_def word_le_nat_alt unat_ucast_reason)
  moreover have "sum_list (?xs[reason := 0]) + ?xs ! reason = sum_list ?xs"
    using sum_list_update_nat [of reason ?xs 0] assms(2) len by simp
  moreover have "?xs[reason := 0] ! i \<le> sum_list (?xs[reason := 0])"
    using assms(4) len by (intro elem_le_sum_list) simp
  ultimately have "unat (ReferenceReasons h ! i) = 0"
    using assms(4,5) len by simp
  then show ?thesis
    by (simp add: unsigned_eq_0_iff)
qed

section \<open>Objects with the default callbacks\<close>

definition default_ready :: "addr \<Rightarrow> 'a object_state_scheme \<Rightarrow> bool" where
  "default_ready a s = sharable (DefaultObjectLock s)"

definition default_removable :: "addr \<Rightarrow> 'a object_state_scheme \<Rightarrow> bool" where
  "default_removable a s \<longleftrightarrow> a \<noteq> NULL \<and> DefaultObjectLock s = Unlocked"

text \<open>The default deallocation does not give the lock back.\<close>

definition default_teardown :: "addr \<Rightarrow> 'a object_state_scheme \<Rightarrow> 'a object_state_scheme" where
  "default_teardown a s = s\<lparr>DefaultObjectLock := Exclusive\<rparr>"

lemmas default_defs = default_object_attributes_def default_lock_def default_unlock_def default_deallocate_def
  default_initialize_def LockObject_def UnlockObject_def set_header_def

interpretation dob: object_callbacks default_object_attributes default_ready default_removable default_teardown
proof (unfold_locales, goal_cases)
  case (2 a s h)
  obtain l where l: "rdlock (DefaultObjectLock s) = Some (0, l)" "rwunlock l = (0, DefaultObjectLock s)"
    using 2(1) unfolding default_ready_def by (rule sharable_rdlock)
  show ?case
    by (rule exI [of _ "s\<lparr>DefaultObjectLock := l\<rparr>"]) (use 2 l in \<open>simp add: default_defs\<close>)
next
  case (4 a s h h')
  let ?s' = "s\<lparr>DefaultObjectLock := Exclusive\<rparr>"
  show ?case
    by (rule exI [of _ ?s'], rule exI [of _ default_deallocate], rule exI [of _ "set_header a h' ?s'"])
      (use 4 in \<open>simp add: default_defs default_removable_def default_teardown_def\<close>)
qed (auto simp: default_object_attributes_def default_removable_def default_ready_def)

lemma create_default:
  assumes "reason < 12" "a = next_addr s + header_offset"
  shows "BitbucketObjectCreate None len reason s =
    Some (a, s\<lparr>Objects := (Objects s)(a \<mapsto> \<lparr>ReferenceCount = 1, ReferenceReasons = (replicate 12 0)[reason := 1], DataLength = len\<rparr>),
               ObjectCount := ObjectCount s + 1, next_addr := next_addr s + round64 (header_size + len)\<rparr>)"
  using assms by (simp add: BitbucketObjectCreate_def malloc_def IncrementObjectCount_def default_defs Let_def)

text \<open>
  C36: An object that is created with the default callbacks and dropped again is freed, and
  the number of objects is what it was; but the object package keeps the global lock
  exclusively, so that from then on every attempt to take a reference on any default
  object aborts.
\<close>
theorem default_object_lock_leaks:
  assumes "DefaultObjectLock s = Unlocked" "reason < 12" "Objects s (next_addr s + header_offset) = None"
  shows "\<exists>a s1 s2. BitbucketObjectCreate None len reason s = Some (a, s1)
    \<and> BitbucketGetObjectReferenceCount a s1 = Some 1
    \<and> BitbucketObjectDereference default_object_attributes a reason 1 s1 = Some s2
    \<and> Objects s2 = Objects s \<and> BitbucketObjectCount s2 = BitbucketObjectCount s
    \<and> (\<forall>b r. BitbucketObjectReference default_object_attributes b r s2 = None)"
proof -
  obtain a s1 where c: "BitbucketObjectCreate None len reason s = Some (a, s1)"
    and a: "a = next_addr s + header_offset"
    and s1: "DefaultObjectLock s1 = Unlocked" "ObjectCount s1 = ObjectCount s + 1"
      "Objects s1 = (Objects s)(a \<mapsto> \<lparr>ReferenceCount = 1, ReferenceReasons = (replicate 12 0)[reason := 1], DataLength = len\<rparr>)"
    using create_default [OF assms(2) refl, where s = s and len = len] assms(1) by auto
  let ?s2 = "(default_teardown a s1)\<lparr>Objects := (Objects s1)(a := None), ObjectCount := ObjectCount s1 - 1\<rparr>"
  have "BitbucketObjectDereference default_object_attributes a reason 1 s1 = Some ?s2"
    using s1 a assms(2) by (intro dob.dereference_frees) (auto simp: default_removable_def)
  moreover have "Objects ?s2 = Objects s"
    using assms(3) a s1 by (auto simp: fun_upd_idem)
  moreover have "BitbucketObjectReference default_object_attributes b r ?s2 = None" for b r
    by (auto simp: BitbucketObjectReference_def default_defs default_teardown_def split: bind_splits)
  ultimately show ?thesis
    using c s1 by (intro exI [of _ a] exI [of _ s1] exI [of _ ?s2])
      (simp add: BitbucketGetObjectReferenceCount_def BitbucketObjectCount_def)
qed

theorem default_object_lock_leaks_witness:
  "let s = \<lparr>Objects = Map.empty, ObjectCount = 0, DefaultObjectLock = Unlocked, next_addr = 64\<rparr> in
   \<exists>a s1 s2. BitbucketObjectCreate None 100 3 s = Some (a, s1)
    \<and> BitbucketObjectDereference default_object_attributes a 3 1 s1 = Some s2
    \<and> (\<forall>b r. BitbucketObjectReference default_object_attributes b r s2 = None)"
  using default_object_lock_leaks [where len = 100 and reason = 3 and
      s = "\<lparr>Objects = Map.empty, ObjectCount = 0, DefaultObjectLock = Unlocked, next_addr = 64\<rparr>"]
  unfolding Let_def by (simp, blast)

end
