(* ===== verification/InodeHash.thy ===== *)
theory InodeHash
  imports Murmur
begin

text \<open>
  The inode numbers of \<^verbatim>\<open>src/finesse/bitbucket/inode.c\<close> and the hash that distributes them
  over the buckets of the inode table.  The numbers of \<^verbatim>\<open>random\<close> are an argument: the
  sequence of the values it returns and the position reached in it.
\<close>

section \<open>New inode numbers\<close>

text \<open>
  The static variables of \<^verbatim>\<open>get_new_inode_number\<close>.
\<close>

record inode_numbers =
  initialized :: bool
  last_inode_number :: u64
  inode_bias :: u64

text \<open>The loop that draws a bias until it is not zero.\<close>

partial_function (option) draw_bias :: "(nat \<Rightarrow> u64) \<Rightarrow> nat \<Rightarrow> (u64 \<times> nat) option" where
  "draw_bias random i = (if random i = 0 then draw_bias random (Suc i) else Some (random i, Suc i))"

text \<open>The loop that skips the number zero.\<close>

partial_function (option) fetch_number :: "inode_numbers \<Rightarrow> (u64 \<times> inode_numbers) option" where
  "fetch_number n =
     (let ino = last_inode_number n;
          n' = n\<lparr>last_inode_number := ino + inode_bias n\<rparr>
      in if ino = 0 then fetch_number n' else Some (ino, n'))"

definition get_new_inode_number ::
  "(nat \<Rightarrow> u64) \<Rightarrow> nat \<Rightarrow> inode_numbers \<Rightarrow> (u64 \<times> inode_numbers \<times> nat) option" where
  "get_new_inode_number random i n = do {
     (n, i) \<leftarrow> (if initialized n then Some (n, i)
       else do {
         (bias, j) \<leftarrow> (if inode_bias n = 0 then draw_bias random (Suc i) else Some (inode_bias n, Suc i));
         Some (\<lparr>initialized = True, last_inode_number = random i, inode_bias = bias\<rparr>, j) });
     (ino, n) \<leftarrow> fetch_number n;
     Some (ino, n, i) }"

section \<open>The hash\<close>

definition fold_slice :: "nat \<Rightarrow> u64 \<Rightarrow> u64 \<times> u64 \<Rightarrow> u64 \<times> u64" where
  "fold_slice shift m = (\<lambda>(uh, th). let uh = drop_bit shift uh in (uh, th XOR (uh AND m)))"

text \<open>
  The loop counter of \<^verbatim>\<open>truncate_hash\<close> runs up to the number of slices in steps of the
  width of a slice.  The mask is computed with the 32-bit constant one and then sign
  extended; a shift below 31 is what the callers pass.
\<close>

function truncate_loop :: "nat \<Rightarrow> u64 \<Rightarrow> nat \<Rightarrow> u64 \<times> u64 \<Rightarrow> u64 \<times> u64" where
  "truncate_loop shift m index st =
     (if 0 < shift \<and> index < 64 div shift then truncate_loop shift m (index + shift) (fold_slice shift m st) else st)"
  by auto
termination by (relation "measure (\<lambda>(shift, m, index, st). 64 div shift - index)") auto

declare truncate_loop.simps [simp del]

definition truncate_hash :: "u64 \<Rightarrow> nat \<Rightarrow> u64 option" where
  "truncate_hash h shift = do {
     let m = scast (push_bit shift 1 - 1 :: u32);
     c_assert (0 < shift \<and> shift < 32);
     let (uh, th) = truncate_loop shift m 0 (h, h AND m);
     Some (th AND m) }"

definition mixed_hash :: "u64 \<Rightarrow> u64 \<Rightarrow> u64" where
  "mixed_hash ino seed = (case MurmurHash3_x64_128 (bytes64 ino) (ucast seed) of (h1, h2) \<Rightarrow> h1 XOR h2)"

definition hash_inode :: "u64 \<Rightarrow> u64 \<Rightarrow> nat \<Rightarrow> nat option" where
  "hash_inode ino seed bits = do {
     c_assert (ino \<noteq> 0);
     c_assert (10 \<le> bits);
     c_assert (bits < 16);
     th \<leftarrow> truncate_hash (mixed_hash ino seed) bits;
     let index = unat (ucast th :: u16);
     c_assert (index < 2 ^ bits);
     Some index }"

section \<open>Numbers are never zero and do not repeat\<close>

lemma draw_bias_spec:
  assumes "random k \<noteq> 0" "i \<le> k"
  shows "\<exists>j b. draw_bias random i = Some (b, j) \<and> b \<noteq> 0 \<and> i < j \<and> j \<le> Suc k \<and> b = random (j - 1)"
  using assms(2)
proof (induction rule: inc_induct)
  case base
  then show ?case
    using assms(1) by (subst draw_bias.simps) simp
next
  case (step n)
  then show ?case
    by (subst draw_bias.simps) auto
qed

lemma fetch_number_spec:
  assumes "inode_bias n \<noteq> 0"
  shows "fetch_number n =
    (if last_inode_number n = 0
     then Some (inode_bias n, n\<lparr>last_inode_number := 2 * inode_bias n\<rparr>)
     else Some (last_inode_number n, n\<lparr>last_inode_number := last_inode_number n + inode_bias n\<rparr>))"
proof (cases "last_inode_number n = 0")
  case True
  then show ?thesis
    using assms by (subst fetch_number.simps, subst fetch_number.simps) (simp add: Let_def)
next
  case False
  then show ?thesis
    by (subst fetch_number.simps) (simp add: Let_def)
qed

text \<open>The numbers that k inodes get one after the other.\<close>

fun new_inode_numbers :: "(nat \<Rightarrow> u64) \<Rightarrow> nat \<Rightarrow> nat \<Rightarrow> inode_numbers \<Rightarrow> (u64 list \<times> inode_numbers \<times> nat) option" where
  "new_inode_numbers random 0 i n = Some ([], n, i)"
| "new_inode_numbers random (Suc k) i n = do {
     (inos, n, i) \<leftarrow> new_inode_numbers random k i n;
     (ino, n, i) \<leftarrow> get_new_inode_number random i n;
     Some (inos @ [ino], n, i) }"

lemma number_steps_distinct:
  fixes b :: u64
  assumes "b \<noteq> 0" "b < 2 ^ 31" "i < j" "j \<le> 2 ^ 33"
  shows "x + of_nat i * b \<noteq> x + of_nat j * b"
proof
  assume "x + of_nat i * b = x + of_nat j * b"
  then have "of_nat (j - i) * b = 0"
    using assms(3) by (simp add: of_nat_diff left_diff_distrib)
  then have "(of_nat ((j - i) * unat b) :: u64) = 0"
    by simp
  then have "2 ^ 64 dvd (j - i) * unat b"
    by (simp only: word_of_nat_eq_0_iff) simp
  then have le: "0 < (j - i) * unat b \<Longrightarrow> 2 ^ 64 \<le> (j - i) * unat b"
    by (rule dvd_imp_le)
  have b: "unat b < 2 ^ 31" "0 < unat b"
    using assms(1,2) by (simp_all add: word_less_nat_alt unat_gt_0)
  have "(j - i) * unat b \<le> 2 ^ 33 * unat b"
    using assms(4) by (intro mult_le_mono1) simp
  also have "\<dots> < 2 ^ 64"
    using b(1) by simp
  finally have "(j - i) * unat b < 2 ^ 64" .
  moreover have "0 < (j - i) * unat b"
    using b(2) assms(3) by simp
  ultimately show False
    using le by (simp only: not_less [symmetric])
qed

definition number_run :: "u64 \<Rightarrow> u64 \<Rightarrow> nat \<Rightarrow> u64 list \<times> inode_numbers \<Rightarrow> bool" where
  "number_run x b m r \<longleftrightarrow> (\<exists>js. sorted_wrt (<) js \<and> (\<forall>j\<in>set js. j < m) \<and> fst r = map (\<lambda>j. x + of_nat j * b) js
     \<and> 0 \<notin> set (fst r) \<and> snd r = \<lparr>initialized = True, last_inode_number = x + of_nat m * b, inode_bias = b\<rparr>)"

lemma number_run_snoc:
  assumes "number_run x b m (inos, n)" "b \<noteq> 0"
  shows "\<exists>ino n' m'. get_new_inode_number random i n = Some (ino, n', i) \<and> m' \<le> m + 2 \<and> number_run x b m' (inos @ [ino], n')"
proof -
  obtain js where js: "sorted_wrt (<) js" "\<forall>j\<in>set js. j < m" "inos = map (\<lambda>j. x + of_nat j * b) js" "0 \<notin> set inos"
    and n: "n = \<lparr>initialized = True, last_inode_number = x + of_nat m * b, inode_bias = b\<rparr>"
    using assms(1) by (auto simp: number_run_def)
  show ?thesis
  proof (cases "x + of_nat m * b = 0")
    case True
    have g: "get_new_inode_number random i n = Some (b, n\<lparr>last_inode_number := 2 * b\<rparr>, i)"
      using True n assms(2) by (simp add: get_new_inode_number_def fetch_number_spec)
    have shift: "x + of_nat (Suc m) * b = b" "x + of_nat (Suc (Suc m)) * b = 2 * b"
      using True by (simp_all add: algebra_simps)
    have "number_run x b (m + 2) (inos @ [b], n\<lparr>last_inode_number := 2 * b\<rparr>)"
      unfolding number_run_def
      by (rule exI [of _ "js @ [Suc m]"])
        (use js n assms(2) shift in \<open>auto simp: sorted_wrt_append less_Suc_eq simp del: of_nat_Suc\<close>)
    with g show ?thesis
      by blast
  next
    case False
    have g: "get_new_inode_number random i n
        = Some (x + of_nat m * b, n\<lparr>last_inode_number := x + of_nat (Suc m) * b\<rparr>, i)"
      using False n assms(2) by (simp add: get_new_inode_number_def fetch_number_spec algebra_simps)
    have "number_run x b (Suc m) (inos @ [x + of_nat m * b], n\<lparr>last_inode_number := x + of_nat (Suc m) * b\<rparr>)"
      unfolding number_run_def
      by (rule exI [of _ "js @ [m]"]) (use js n False in \<open>auto simp: sorted_wrt_append less_Suc_eq simp del: of_nat_Suc\<close>)
    with g show ?thesis
      by (metis le_add2 add.commute add_2_eq_Suc' le_SucI le_refl)
  qed
qed

lemma new_inode_numbers_run:
  assumes "draw_bias random (Suc i) = Some (b, j)" "b \<noteq> 0"
  defines "n0 \<equiv> \<lparr>initialized = False, last_inode_number = 0, inode_bias = 0\<rparr>"
  shows "\<exists>inos n m. new_inode_numbers random (Suc k) i n0 = Some (inos, n, j) \<and> length inos = Suc k
    \<and> m \<le> 2 * Suc k \<and> number_run (random i) b m (inos, n)"
proof (induction k)
  case 0
  let ?n1 = "\<lparr>initialized = True, last_inode_number = random i, inode_bias = b\<rparr>"
  have "get_new_inode_number random i n0 = get_new_inode_number random j ?n1"
    using assms by (simp add: get_new_inode_number_def)
  moreover have "number_run (random i) b 0 ([], ?n1)"
    by (simp add: number_run_def)
  note number_run_snoc [OF this assms(2), of random j]
  ultimately show ?case
    by (auto simp: numeral_2_eq_2)
next
  case (Suc k)
  then obtain inos n m where IH: "new_inode_numbers random (Suc k) i n0 = Some (inos, n, j)" "length inos = Suc k"
    "m \<le> 2 * Suc k" "number_run (random i) b m (inos, n)"
    by blast
  from number_run_snoc [OF IH(4) assms(2), of random j] obtain ino n' m'
    where s: "get_new_inode_number random j n = Some (ino, n', j)" "m' \<le> m + 2" "number_run (random i) b m' (inos @ [ino], n')"
    by blast
  have "new_inode_numbers random (Suc (Suc k)) i n0 = Some (inos @ [ino], n', j)"
    using IH(1) s(1) by (simp del: new_inode_numbers.simps(2) add: new_inode_numbers.simps(2) [of random "Suc k"])
  moreover have "m' \<le> 2 * Suc (Suc k)"
    using IH(3) s(2) by simp
  ultimately show ?case
    using IH(2) s(3) by auto
qed

text \<open>
  C31: Whatever \<^verbatim>\<open>random\<close> delivers (numbers below 2 to the 31, not zero for ever), the first 2 to
  the 32 inode numbers are handed out without waiting, none of them is zero, and no two of
  them are equal.
\<close>
theorem inode_numbers_unique:
  assumes "\<forall>l. random l < 2 ^ 31" "random l \<noteq> 0" "i < l" "k \<le> 2 ^ 32"
  shows "\<exists>inos n j. new_inode_numbers random k i \<lparr>initialized = False, last_inode_number = 0, inode_bias = 0\<rparr> = Some (inos, n, j)
    \<and> length inos = k \<and> distinct inos \<and> 0 \<notin> set inos"
proof (cases k)
  case (Suc k')
  obtain b j where b: "draw_bias random (Suc i) = Some (b, j)" "b \<noteq> 0" "b < 2 ^ 31"
    using draw_bias_spec [of random l "Suc i"] assms(1,2,3) by auto
  obtain inos n m where r: "new_inode_numbers random k i \<lparr>initialized = False, last_inode_number = 0, inode_bias = 0\<rparr> = Some (inos, n, j)"
    "length inos = k" "m \<le> 2 * k" "number_run (random i) b m (inos, n)"
    using new_inode_numbers_run [OF b(1,2), of k'] Suc by blast
  from r(4) obtain js where js: "sorted_wrt (<) js" "\<forall>j\<in>set js. j < m" "inos = map (\<lambda>j. random i + of_nat j * b) js" "0 \<notin> set inos"
    by (auto simp: number_run_def)
  have "inj_on (\<lambda>j. random i + of_nat j * b) (set js)"
    using js(2) r(3) assms(4) number_steps_distinct [OF b(2,3)]
    by (intro linorder_inj_onI) (auto simp del: add_left_cancel)
  then have "distinct inos"
    using js(1,3) by (simp add: distinct_map strict_sorted_iff)
  then show ?thesis
    using r(1,2) js(4) by blast
qed simp

theorem inode_numbers_unique_witness:
  "\<exists>inos n j. new_inode_numbers (\<lambda>l. if l = 3 then 7 else 0) 1000 0 \<lparr>initialized = False, last_inode_number = 0, inode_bias = 0\<rparr>
      = Some (inos, n, j) \<and> length inos = 1000 \<and> distinct inos \<and> 0 \<notin> set inos"
  using inode_numbers_unique [where random = "\<lambda>l. if l = 3 then 7 else 0" and l = 3 and i = 0 and k = 1000] by simp

section \<open>What the hash depends on\<close>

lemma truncate_mask: "shift < 31 \<Longrightarrow> scast (2 ^ shift - 1 :: u32) = (mask shift :: u64)"
  unfolding mask_eq_exp_minus_1 [symmetric] by (intro bit_word_eqI) (auto simp: bit_simps)

lemma truncate_hash_one_fold:
  assumes "10 \<le> shift" "shift < 31"
  shows "truncate_hash h shift = Some (take_bit shift (h XOR drop_bit shift h))"
proof -
  have "64 div shift \<le> 64 div 10"
    using assms(1) by (intro div_le_mono2) auto
  then have "64 div shift \<le> 6"
    by simp
  moreover have "0 < 64 div shift"
    using assms by (simp add: div_greater_zero_iff)
  ultimately show ?thesis
    using assms
    by (simp add: truncate_hash_def truncate_mask truncate_loop.simps [of shift _ 0] truncate_loop.simps [of shift _ shift]
        fold_slice_def take_bit_eq_mask bit.conj_xor_distrib2 Let_def)
qed

lemma hash_inode_range:
  assumes "ino \<noteq> 0" "10 \<le> bits" "bits < 16"
  shows "\<exists>i. hash_inode ino seed bits = Some i \<and> i < 2 ^ bits"
proof -
  let ?th = "take_bit bits (mixed_hash ino seed XOR drop_bit bits (mixed_hash ino seed))"
  have "unat (ucast ?th :: u16) = take_bit 16 (unat ?th)"
    by (simp add: unsigned_ucast_eq)
  also have "\<dots> \<le> unat ?th"
    by (rule take_bit_nat_less_eq_self)
  also have "unat ?th < 2 ^ bits"
    unfolding unsigned_take_bit_eq by (rule take_bit_nat_less_exp)
  finally show ?thesis
    using assms by (simp add: hash_inode_def truncate_hash_one_fold Let_def)
qed

lemma hash_inode_needs:
  "hash_inode ino seed bits = Some i \<Longrightarrow> ino \<noteq> 0 \<and> 10 \<le> bits \<and> bits < 16 \<and> i < 2 ^ bits"
  by (auto simp: hash_inode_def Let_def split: bind_splits if_splits)

lemma low_bits_fold:
  assumes "take_bit (2 * n) (x::u64) = take_bit (2 * n) y"
  shows "take_bit n (x XOR drop_bit n x) = take_bit n (y XOR drop_bit n y)"
proof -
  have "bit x j = bit y j" if "j < 2 * n" for j
    using assms that by (metis bit_take_bit_iff)
  then show ?thesis
    by (intro bit_word_eqI) (auto simp: bit_simps)
qed

text \<open>
  For every table size that \<^verbatim>\<open>hash_inode\<close> accepts, an inode number that is not zero gets a
  bucket below the number of buckets.  The fold of \<^verbatim>\<open>truncate_hash\<close> runs exactly once, so the
  bucket depends on nothing but the low twice \<^verbatim>\<open>BitLength\<close> bits of the mixed hash; the other
  bits of the 64-bit value are lost.
\<close>
theorem inode_hash_uses_low_bits:
  assumes "ino \<noteq> 0" "10 \<le> bits" "bits < 16"
  shows "\<exists>i. hash_inode ino seed bits = Some i \<and> i < 2 ^ bits
    \<and> (\<forall>ino' seed'. ino' \<noteq> 0 \<and> take_bit (2 * bits) (mixed_hash ino' seed') = take_bit (2 * bits) (mixed_hash ino seed)
          \<longrightarrow> hash_inode ino' seed' bits = Some i)"
proof -
  obtain i where i: "hash_inode ino seed bits = Some i" "i < 2 ^ bits"
    using hash_inode_range [OF assms] by blast
  have "hash_inode ino' seed' bits = Some i"
    if "ino' \<noteq> 0" "take_bit (2 * bits) (mixed_hash ino' seed') = take_bit (2 * bits) (mixed_hash ino seed)" for ino' seed'
    using i(1) that(1) assms low_bits_fold [OF that(2)] by (simp add: hash_inode_def truncate_hash_one_fold Let_def)
  with i show ?thesis
    by blast
qed

theorem inode_hash_uses_low_bits_witness:
  "\<exists>i. hash_inode 77 0x318df49e5b958865 10 = Some i \<and> i < 1024"
  using inode_hash_uses_low_bits [where ino = 77 and bits = 10 and seed = "0x318df49e5b958865"] by auto

end
