(* ===== verification/BBData.thy ===== *)
theory BBData
  imports BBObject InodeHash NameIndex CallStats
begin

text \<open>
  The data of the bitbucket file system, \<^verbatim>\<open>src/finesse/bitbucket/bitbucketdata.h\<close>: inodes with
  their directory, file or symbolic link part, directory entries, the inode table of
  \<^verbatim>\<open>inode.c\<close>, and the state that all operations share.  Inodes, directory entries and
  extended attributes live in typed heaps.  The public inode, the private inode around it and the object are the same
  block of memory, so they have one address here.  A file system has one inode table;
  a pointer to it is a truth value.

  Clock, random numbers, identifiers and user come from the environment: every reading
  takes the value at the current tick and advances the tick.
\<close>

section \<open>Inodes\<close>

record stat_attributes =
  st_ino :: u64
  st_mode :: u32
  st_nlink :: u64
  st_uid :: u32
  st_gid :: u32
  st_size :: int
  st_blksize :: int
  st_blocks :: int
  st_atim :: timespec
  st_mtim :: timespec
  st_ctim :: timespec

abbreviation (input) S_IFMT :: u32 where "S_IFMT \<equiv> 0xF000"
abbreviation (input) S_IFDIR :: u32 where "S_IFDIR \<equiv> 0x4000"
abbreviation (input) S_IFREG :: u32 where "S_IFREG \<equiv> 0x8000"
abbreviation (input) S_IFLNK :: u32 where "S_IFLNK \<equiv> 0xA000"

abbreviation (input) BITBUCKET_DIR_TYPE :: nat where "BITBUCKET_DIR_TYPE \<equiv> 0x10"
abbreviation (input) BITBUCKET_FILE_TYPE :: nat where "BITBUCKET_FILE_TYPE \<equiv> 0x11"
abbreviation (input) BITBUCKET_SYMLINK_TYPE :: nat where "BITBUCKET_SYMLINK_TYPE \<equiv> 0x12"
abbreviation (input) BITBUCKET_DEVNODE_TYPE :: nat where "BITBUCKET_DEVNODE_TYPE \<equiv> 0x13"
abbreviation (input) BITBUCKET_UNKNOWN_TYPE :: nat where "BITBUCKET_UNKNOWN_TYPE \<equiv> 0xFF"

abbreviation (input) INODE_LOOKUP_REFERENCE :: nat where "INODE_LOOKUP_REFERENCE \<equiv> 0"
abbreviation (input) INODE_PARENT_REFERENCE :: nat where "INODE_PARENT_REFERENCE \<equiv> 1"
abbreviation (input) INODE_DIRENT_REFERENCE :: nat where "INODE_DIRENT_REFERENCE \<equiv> 2"
abbreviation (input) INODE_ENUM_REFERENCE :: nat where "INODE_ENUM_REFERENCE \<equiv> 3"
abbreviation (input) INODE_REMOVE_DIRENT_REFERENCE :: nat where "INODE_REMOVE_DIRENT_REFERENCE \<equiv> 4"
abbreviation (input) INODE_FUSE_LOOKUP_REFERENCE :: nat where "INODE_FUSE_LOOKUP_REFERENCE \<equiv> 5"
abbreviation (input) INODE_FUSE_OPEN_REFERENCE :: nat where "INODE_FUSE_OPEN_REFERENCE \<equiv> 6"
abbreviation (input) INODE_FUSE_OPENDIR_REFERENCE :: nat where "INODE_FUSE_OPENDIR_REFERENCE \<equiv> 7"

abbreviation (input) MAX_FILE_NAME_SIZE :: nat where "MAX_FILE_NAME_SIZE \<equiv> 1024"
abbreviation (input) FUSE_ROOT_ID :: u64 where "FUSE_ROOT_ID \<equiv> 1"

text \<open>
  The list of the entries of a directory holds the addresses of the entries, and so does
  the trie over their names.
\<close>

record bitbucket_dir =
  Parent :: addr
  Entries :: "addr list"
  Children :: "addr Trie option"

text \<open>
  The contents of a file are a block of memory, or a mapping of so many bytes of the
  storage file \<^verbatim>\<open>MapName\<close>.  The pointer may also be the failure value of \<^verbatim>\<open>mmap\<close>, or
  point to memory that has been freed.

  An entry of the lists of advisory locks (\<^verbatim>\<open>flock.c\<close>) holds the request that waits for the
  lock, the process that owns it, and whether it is exclusive.
\<close>

datatype file_map = Malloced "u8 list" | Mmapped nat | MapFailed | Dangling

record bitbucket_flock_entry =
  flock_Req :: "nat option"
  flock_OwnerPid :: nat
  flock_Exclusive :: bool

record bitbucket_file =
  MapName :: "string option"
  Map :: "file_map option"
  Readers :: u64
  Writers :: u64
  WaitingReaders :: u64
  WaitingWriters :: u64
  LockOwnersList :: "bitbucket_flock_entry list"
  LockWaitersList :: "bitbucket_flock_entry list"

datatype instance_data =
  Directory bitbucket_dir | File bitbucket_file | SymbolicLink string | DeviceNode | NoInstance

record bitbucket_xattr =
  xattr_Name :: string
  xattr_Data :: "u8 list"

text \<open>The attributes a component registers for its inodes, \<^verbatim>\<open>RegisteredAttributes\<close>.\<close>

datatype registered = DirectoryObjectAttributes | FileObjectAttributes | SymbolicLinkObjectAttributes

record bitbucket_inode =
  Length :: nat
  RegisteredAttributes :: "registered option"
  PrivateTable :: bool
  InodeLength :: nat
  InodeType :: nat
  InodeLock :: rwlock
  Table :: bool
  UuidString :: string
  Epoch :: u64
  Attributes :: stat_attributes
  CreationTime :: timespec
  ExtendedAttributes :: "addr list"
  ExtendedAttributeTrie :: "addr Trie option"
  Instance :: instance_data

record bitbucket_dir_entry =
  de_Inode :: addr
  de_Offset :: u64
  de_Name :: string

record bitbucket_dir_enum_context =
  ctx_Directory :: addr
  ctx_NextEntry :: addr
  ctx_Offset :: u64
  ctx_Epoch :: u64
  ctx_LastError :: errno

section \<open>The inode table\<close>

record inode_table_entry =
  ite_Inode :: addr
  ite_Bucket :: nat

record inode_bucket =
  ListEntry :: "inode_table_entry list"
  BucketLock :: rwlock
  Count :: u64
  LastInodeTableEntry :: "inode_table_entry option"
  Lookups :: u64
  FailedLookups :: u64
  LastInodeMatch :: u64
  MaxCount :: u64

record inode_table =
  BucketCount :: nat
  BucketCountShift :: nat
  InodeCount :: u64
  MaxInodeCount :: u64
  HashSeed :: u64
  Buckets :: "nat \<Rightarrow> inode_bucket"

section \<open>The state\<close>

record environment =
  Clock :: "nat \<Rightarrow> timespec"
  Random :: "nat \<Rightarrow> u64"
  Uuid :: "nat \<Rightarrow> string"
  Uid :: u32
  Gid :: u32

record bb_state = object_state +
  Inodes :: "addr \<Rightarrow> bitbucket_inode option"
  Dirents :: "addr \<Rightarrow> bitbucket_dir_entry option"
  Xattrs :: "addr \<Rightarrow> bitbucket_xattr option"
  InodeTable :: inode_table
  InodeNumbers :: inode_numbers
  Storage :: "string \<Rightarrow> u8 list option"
  VerifyDirectoriesEnabled :: bool
  Environment :: environment
  Tick :: nat

definition set_inode :: "addr \<Rightarrow> bitbucket_inode \<Rightarrow> bb_state \<Rightarrow> bb_state" where
  "set_inode a i s = s\<lparr>Inodes := (Inodes s)(a \<mapsto> i)\<rparr>"

definition clock_gettime :: "bb_state \<Rightarrow> timespec \<times> bb_state" where
  "clock_gettime s = (Clock (Environment s) (Tick s), s\<lparr>Tick := Suc (Tick s)\<rparr>)"

text \<open>The accesses to a directory or file part check the magic number of that part.\<close>

fun the_directory :: "bitbucket_inode \<Rightarrow> bitbucket_dir option" where
  "the_directory i = (case Instance i of Directory d \<Rightarrow> Some d | _ \<Rightarrow> None)"

fun the_file :: "bitbucket_inode \<Rightarrow> bitbucket_file option" where
  "the_file i = (case Instance i of File f \<Rightarrow> Some f | _ \<Rightarrow> None)"

definition set_directory :: "bitbucket_dir \<Rightarrow> bitbucket_inode \<Rightarrow> bitbucket_inode" where
  "set_directory d i = i\<lparr>Instance := Directory d\<rparr>"

end
