(* ===== verification/InodeLocks.thy ===== *)
theory InodeLocks
  imports BBData
begin

text \<open>
  The locks of inodes, from \<^verbatim>\<open>src/finesse/bitbucket/inode.c\<close> and \<^verbatim>\<open>bitbucketdata.h\<close>.  Taking the lock
  exclusively advances the epoch of the inode; giving it back from exclusive mode sets the
  change time.
\<close>

section \<open>The operations\<close>

definition BitbucketTryLockInode :: "addr \<Rightarrow> bool \<Rightarrow> bb_state \<Rightarrow> (errno \<times> bb_state) option" where
  "BitbucketTryLockInode inode exclusive s = do {
     i \<leftarrow> Inodes s inode;
     if exclusive then do {
       let (status, l) = trywrlock (InodeLock i);
       Some (status, set_inode inode (i\<lparr>InodeLock := l, Epoch := Epoch i + 1\<rparr>) s) }
     else do {
       let (status, l) = tryrdlock (InodeLock i);
       Some (status, set_inode inode (i\<lparr>InodeLock := l\<rparr>) s) } }"

definition BitbucketLockInode :: "addr \<Rightarrow> bool \<Rightarrow> bb_state \<Rightarrow> bb_state option" where
  "BitbucketLockInode inode exclusive s = do {
     i \<leftarrow> Inodes s inode;
     if exclusive then do {
       (status, l) \<leftarrow> wrlock (InodeLock i);
       c_assert (status = 0);
       Some (set_inode inode (i\<lparr>InodeLock := l, Epoch := Epoch i + 1\<rparr>) s) }
     else do {
       (status, l) \<leftarrow> rdlock (InodeLock i);
       c_assert (status = 0);
       Some (set_inode inode (i\<lparr>InodeLock := l\<rparr>) s) } }"

definition lockable_type :: "nat \<Rightarrow> bool" where
  "lockable_type t \<longleftrightarrow> t = BITBUCKET_DIR_TYPE \<or> t = BITBUCKET_FILE_TYPE \<or> t = BITBUCKET_SYMLINK_TYPE \<or> t = BITBUCKET_DEVNODE_TYPE"

text \<open>Which of two inodes is locked first.\<close>

definition lock_order :: "addr \<Rightarrow> nat \<Rightarrow> addr \<Rightarrow> nat \<Rightarrow> addr \<times> addr" where
  "lock_order inode1 type1 inode2 type2 =
     (if type1 < type2 then (inode1, inode2)
      else if inode1 < inode2 then (inode2, inode1) else (inode1, inode2))"

definition BitbucketLockTwoInodes :: "addr \<Rightarrow> addr \<Rightarrow> bool \<Rightarrow> bb_state \<Rightarrow> bb_state option" where
  "BitbucketLockTwoInodes inode1 inode2 exclusive s = do {
     c_assert (inode1 \<noteq> NULL);
     c_assert (inode2 \<noteq> NULL);
     c_assert (inode1 \<noteq> inode2);
     i1 \<leftarrow> Inodes s inode1;
     c_assert (lockable_type (InodeType i1));
     i2 \<leftarrow> Inodes s inode2;
     let (first, second) = lock_order inode1 (InodeType i1) inode2 (InodeType i2);
     s \<leftarrow> BitbucketLockInode first exclusive s;
     BitbucketLockInode second exclusive s }"

text \<open>
  The probe with a shared try-lock tells whether the lock is held exclusively.  Its result
  is undone when it succeeds; the status of the final unlock is not looked at.
\<close>

definition BitbucketUnlockInode :: "addr \<Rightarrow> bb_state \<Rightarrow> bb_state option" where
  "BitbucketUnlockInode inode s = do {
     i \<leftarrow> Inodes s inode;
     let (status, l) = tryrdlock (InodeLock i);
     let l = (if status = 0 then snd (rwunlock l) else l);
     let exclusive = (status = EDEADLK \<or> status = EBUSY);
     let (i, s) = (if exclusive
       then (let (now, s) = clock_gettime s in (i\<lparr>Attributes := (Attributes i)\<lparr>st_ctim := now\<rparr>\<rparr>, s))
       else (i, s));
     Some (set_inode inode (i\<lparr>InodeLock := snd (rwunlock l)\<rparr>) s) }"

definition EnsureInodeLockedAgainstChanges :: "addr \<Rightarrow> bb_state \<Rightarrow> bb_state option" where
  "EnsureInodeLockedAgainstChanges inode s = do {
     (status, s) \<leftarrow> BitbucketTryLockInode inode True s;
     c_assert (status \<noteq> 0);
     Some s }"

definition EnsureInodeLockedForChanges :: "addr \<Rightarrow> bb_state \<Rightarrow> bb_state option" where
  "EnsureInodeLockedForChanges inode s = do {
     (status, s) \<leftarrow> BitbucketTryLockInode inode False s;
     c_assert (status \<noteq> 0);
     Some s }"

section \<open>Locks leave no trace but epoch and change time\<close>

definition locked :: "rwlock \<Rightarrow> bool \<Rightarrow> bitbucket_inode \<Rightarrow> bitbucket_inode" where
  "locked l exclusive i = i\<lparr>InodeLock := l, Epoch := Epoch i + (if exclusive then 1 else 0)\<rparr>"

definition changed :: "timespec \<Rightarrow> bitbucket_inode \<Rightarrow> bitbucket_inode" where
  "changed now i = i\<lparr>Attributes := (Attributes i)\<lparr>st_ctim := now\<rparr>, InodeLock := Unlocked\<rparr>"

lemma set_inode_same [simp]: "Inodes s a = Some i \<Longrightarrow> set_inode a i s = s"
  by (simp add: set_inode_def fun_upd_idem)

lemma InodeLock_same [simp]: "InodeLock i = l \<Longrightarrow> i\<lparr>InodeLock := l\<rparr> = i"
  by (cases i) simp

lemma trylock_shared_busy:
  "\<lbrakk>Inodes s a = Some i; InodeLock i = Exclusive\<rbrakk> \<Longrightarrow> BitbucketTryLockInode a False s = Some (EBUSY, s)"
  by (simp add: BitbucketTryLockInode_def)

lemma lock_exclusive:
  "\<lbrakk>Inodes s a = Some i; InodeLock i = Unlocked\<rbrakk> \<Longrightarrow>
   BitbucketLockInode a True s = Some (set_inode a (locked Exclusive True i) s)"
  by (simp add: BitbucketLockInode_def locked_def)

lemma unlock_exclusive:
  "\<lbrakk>Inodes s a = Some i; InodeLock i = Exclusive\<rbrakk> \<Longrightarrow>
   BitbucketUnlockInode a s = Some (set_inode a (changed (Clock (Environment s) (Tick s)) i) (s\<lparr>Tick := Suc (Tick s)\<rparr>))"
  by (simp add: BitbucketUnlockInode_def clock_gettime_def changed_def)

lemma lock_shared_unlock:
  assumes "Inodes s a = Some i" "sharable (InodeLock i)"
  obtains l where "BitbucketLockInode a False s = Some (set_inode a (i\<lparr>InodeLock := l\<rparr>) s)"
    "\<And>t j. Inodes t a = Some j \<Longrightarrow> InodeLock j = l \<Longrightarrow> BitbucketUnlockInode a t = Some (set_inode a (j\<lparr>InodeLock := InodeLock i\<rparr>) t)"
proof (cases "InodeLock i")
  case Unlocked
  show ?thesis
    by (rule that [of "Shared 1"]) (use assms Unlocked in \<open>auto simp: BitbucketLockInode_def BitbucketUnlockInode_def\<close>)
next
  case (Shared n)
  show ?thesis
    by (rule that [of "Shared (Suc n)"]) (use assms Shared in \<open>auto simp: BitbucketLockInode_def BitbucketUnlockInode_def\<close>)
qed (use assms in simp)

lemma lock_two_exclusive:
  assumes "Inodes s a = Some i" "InodeLock i = Unlocked" "Inodes s b = Some j" "InodeLock j = Unlocked"
    and "a \<noteq> b" "a \<noteq> NULL" "b \<noteq> NULL" "lockable_type (InodeType i)"
  shows "BitbucketLockTwoInodes a b True s = Some (set_inode a (locked Exclusive True i) (set_inode b (locked Exclusive True j) s))"
  using assms by (auto simp: BitbucketLockTwoInodes_def lock_order_def lock_exclusive set_inode_def fun_upd_twist)

section \<open>Two threads that lock the same pair\<close>

text \<open>
  Each thread runs \<^verbatim>\<open>BitbucketLockTwoInodes\<close> in exclusive mode and then releases both inodes.
  Its counter says how many locks it has taken; 3 means that it has released them.  A
  blocking lock call is a step that is not possible while the other thread holds the lock.
\<close>

fun held :: "addr \<times> addr \<Rightarrow> nat \<Rightarrow> addr list" where
  "held (f, g) n = (if n = 1 then [f] else if n = 2 then [f, g] else [])"

fun wanted :: "addr \<times> addr \<Rightarrow> nat \<Rightarrow> addr list" where
  "wanted (f, g) n = (if n = 0 then [f] else if n = 1 then [g] else [])"

definition may_step :: "addr \<times> addr \<Rightarrow> addr \<times> addr \<Rightarrow> nat \<Rightarrow> nat \<Rightarrow> bool" where
  "may_step ord other n m \<longleftrightarrow> n < 3 \<and> (\<forall>x\<in>set (wanted ord n). x \<notin> set (held other m))"

inductive pair_step :: "addr \<times> addr \<Rightarrow> addr \<times> addr \<Rightarrow> nat \<times> nat \<Rightarrow> nat \<times> nat \<Rightarrow> bool"
  for o1 o2 where
  first: "may_step o1 o2 n m \<Longrightarrow> pair_step o1 o2 (n, m) (Suc n, m)"
| second: "may_step o2 o1 m n \<Longrightarrow> pair_step o1 o2 (n, m) (n, Suc m)"

inductive_cases pair_stepE: "pair_step o1 o2 (n, m) st"

definition deadlocked :: "addr \<times> addr \<Rightarrow> addr \<times> addr \<Rightarrow> nat \<times> nat \<Rightarrow> bool" where
  "deadlocked o1 o2 = (\<lambda>(n, m). (n, m) \<noteq> (3, 3) \<and> \<not> may_step o1 o2 n m \<and> \<not> may_step o2 o1 m n)"

lemma same_order_excludes:
  assumes "(pair_step (f, g) (f, g))\<^sup>*\<^sup>* (0, 0) st" "f \<noteq> g"
  shows "fst st \<le> 3 \<and> snd st \<le> 3 \<and> \<not> (fst st \<in> {1, 2} \<and> snd st \<in> {1, 2})"
  using assms(1)
proof (induction rule: rtranclp_induct)
  case (step y z)
  obtain n m where y: "y = (n, m)"
    by (cases y)
  from step(2) step(3) assms(2) show ?case
    unfolding y by (elim pair_stepE) (auto simp: may_step_def split: if_splits)
qed simp

lemma same_order_no_deadlock:
  assumes "(pair_step (f, g) (f, g))\<^sup>*\<^sup>* (0, 0) st" "f \<noteq> g"
  shows "\<not> deadlocked (f, g) (f, g) st"
  using same_order_excludes [OF assms] assms(2)
  by (cases st) (auto simp: deadlocked_def may_step_def split: if_splits)

lemma opposite_order_deadlock:
  assumes "f \<noteq> g"
  shows "(pair_step (f, g) (g, f))\<^sup>*\<^sup>* (0, 0) (1, 1)" and "deadlocked (f, g) (g, f) (1, 1)"
proof -
  have "pair_step (f, g) (g, f) (0, 0) (1, 0)" "pair_step (f, g) (g, f) (1, 0) (1, 1)"
    using assms pair_step.first [of "(f, g)" "(g, f)" 0 0] pair_step.second [of "(g, f)" "(f, g)" 0 1]
    by (auto simp: may_step_def)
  then show "(pair_step (f, g) (g, f))\<^sup>*\<^sup>* (0, 0) (1, 1)"
    by (meson converse_rtranclp_into_rtranclp r_into_rtranclp)
  show "deadlocked (f, g) (g, f) (1, 1)"
    using assms by (simp add: deadlocked_def may_step_def)
qed

text \<open>
  C32: Two threads that lock the same two inodes with their arguments in opposite order can
  deadlock exactly when the types of the inodes differ and the inode of the higher type
  has the higher address: then \<^verbatim>\<open>BitbucketLockTwoInodes\<close> takes the locks in the order of its
  arguments' types in one call and in the order of the addresses in the other.  In all
  other cases the order is canonical and both threads always finish.
\<close>
theorem lock_two_deadlock_iff:
  assumes "a \<noteq> b" and o1_def: "o1 = lock_order a ta b tb" and o2_def: "o2 = lock_order b tb a ta"
  shows "(\<exists>st. (pair_step o1 o2)\<^sup>*\<^sup>* (0, 0) st \<and> deadlocked o1 o2 st) \<longleftrightarrow> ta < tb \<and> a < b \<or> tb < ta \<and> b < a"
proof (cases "ta < tb \<and> a < b \<or> tb < ta \<and> b < a")
  case True
  then have "o1 = (a, b) \<and> o2 = (b, a)"
    by (auto simp: o1_def o2_def lock_order_def)
  then show ?thesis
    using opposite_order_deadlock [OF assms(1)] True by blast
next
  case False
  with assms(1) have "o1 = o2 \<and> fst o1 \<noteq> snd o1"
    by (auto simp: o1_def o2_def lock_order_def)
  then show ?thesis
    using False same_order_no_deadlock [of "fst o1" "snd o1"] by auto
qed

theorem lock_two_deadlock_iff_witness:
  "\<exists>st. (pair_step (lock_order 64 BITBUCKET_DIR_TYPE 128 BITBUCKET_FILE_TYPE) (lock_order 128 BITBUCKET_FILE_TYPE 64 BITBUCKET_DIR_TYPE))\<^sup>*\<^sup>* (0, 0) st
     \<and> deadlocked (lock_order 64 BITBUCKET_DIR_TYPE 128 BITBUCKET_FILE_TYPE) (lock_order 128 BITBUCKET_FILE_TYPE 64 BITBUCKET_DIR_TYPE) st"
  using lock_two_deadlock_iff [where a = 64 and b = 128 and ta = BITBUCKET_DIR_TYPE and tb = BITBUCKET_FILE_TYPE, OF _ refl refl] by simp

end
