(* ===== verification/Xattr.thy ===== *)
theory Xattr
  imports InodeLocks
begin

text \<open>
  The extended attributes of an inode, \<^verbatim>\<open>src/finesse/bitbucket/xattr.c\<close>.  The attributes are in a
  list and in a trie over their names; their memory is in the heap \<^verbatim>\<open>Xattrs\<close>.  The data of
  an attribute is a list of bytes, so its length is not a separate argument.
\<close>

section \<open>The operations\<close>

definition BitbucketInitializeExtendedAttributes :: "addr \<Rightarrow> bb_state \<Rightarrow> bb_state option" where
  "BitbucketInitializeExtendedAttributes inode s = do {
     i \<leftarrow> Inodes s inode;
     Some (set_inode inode (i\<lparr>ExtendedAttributes := [], ExtendedAttributeTrie := None\<rparr>) s) }"

definition free_xattr :: "addr \<Rightarrow> bb_state \<Rightarrow> bb_state option" where
  "free_xattr x s = do {
     c_assert (Xattrs s x \<noteq> None);
     Some (s\<lparr>Xattrs := (Xattrs s)(x := None)\<rparr>) }"

abbreviation (input) xattr_data_offset :: nat where "xattr_data_offset \<equiv> 40"

text \<open>
  When the name exists, the pointer that is freed on the way out is the one that the search
  found.
\<close>

definition BitbucketInsertExtendedAttribute ::
  "bool \<Rightarrow> addr \<Rightarrow> string \<Rightarrow> u8 list \<Rightarrow> bb_state \<Rightarrow> (errno \<times> bb_state) option" where
  "BitbucketInsertExtendedAttribute malloc_ok inode name data s = do {
     i \<leftarrow> Inodes s inode;
     if name = [] then Some (EINVAL, s)
     else do {
       let xattrLength = round64 (xattr_data_offset + length name + 1 + length data);
       c_assert (xattrLength \<ge> xattr_data_offset + length name + 1 + length data);
       (status, s) \<leftarrow> BitbucketTryLockInode inode False s;
       c_assert (status = EBUSY);
       i \<leftarrow> Inodes s inode;
       let i = i\<lparr>ExtendedAttributeTrie := trie_root (ExtendedAttributeTrie i)\<rparr>;
       let s = set_inode inode i s;
       (case TrieSearch (ExtendedAttributeTrie i) name of
          Some xattr \<Rightarrow> do {
            s \<leftarrow> free_xattr xattr s;
            Some (EEXIST, s) }
        | None \<Rightarrow>
            if \<not> malloc_ok then Some (ENOMEM, s)
            else do {
              let (xattr, s) = malloc xattrLength s;
              let s = s\<lparr>Xattrs := (Xattrs s)(xattr \<mapsto> \<lparr>xattr_Name = name, xattr_Data = data\<rparr>)\<rparr>;
              let i = i\<lparr>ExtendedAttributeTrie := trie_insert_at (ExtendedAttributeTrie i) name xattr,
                        ExtendedAttributes := xattr # ExtendedAttributes i\<rparr>;
              Some (0, set_inode inode i s) }) } }"

text \<open>
  The second component is what the routine stores through its output pointers: nothing, or
  the bytes of the attribute.
\<close>

definition BitbucketLookupExtendedAttribute ::
  "addr \<Rightarrow> string \<Rightarrow> bb_state \<Rightarrow> (errno \<times> u8 list option) option" where
  "BitbucketLookupExtendedAttribute inode name s = do {
     i \<leftarrow> Inodes s inode;
     if ExtendedAttributeTrie i = None then Some (ENODATA, None)
     else (case TrieSearch (ExtendedAttributeTrie i) name of
         None \<Rightarrow> Some (ENODATA, Some [])
       | Some xattr \<Rightarrow> do {
           x \<leftarrow> Xattrs s xattr;
           Some (0, Some (xattr_Data x)) }) }"

definition BitbucketRemoveExtendedAttribute :: "addr \<Rightarrow> string \<Rightarrow> bb_state \<Rightarrow> (errno \<times> bb_state) option" where
  "BitbucketRemoveExtendedAttribute inode name s = do {
     i \<leftarrow> Inodes s inode;
     if ExtendedAttributeTrie i = None then Some (ENOENT, s)
     else (case TrieSearch (ExtendedAttributeTrie i) name of
         None \<Rightarrow> Some (ENOENT, s)
       | Some xattr \<Rightarrow> do {
           (status, t) \<leftarrow> TrieDeletion True (ExtendedAttributeTrie i) name;
           c_assert (status = 0);
           let i = i\<lparr>ExtendedAttributeTrie := t, ExtendedAttributes := remove1 xattr (ExtendedAttributes i)\<rparr>;
           s \<leftarrow> free_xattr xattr (set_inode inode i s);
           Some (0, s) }) }"

text \<open>The loop of \<^verbatim>\<open>BitbucketDestroyExtendedAttributes\<close> over the list.\<close>

fun destroy_xattrs :: "addr list \<Rightarrow> addr Trie option \<Rightarrow> bb_state \<Rightarrow> (addr Trie option \<times> bb_state) option" where
  "destroy_xattrs [] t s = Some (t, s)"
| "destroy_xattrs (xattr # xs) t s = do {
     x \<leftarrow> Xattrs s xattr;
     (status, t) \<leftarrow> TrieDeletion True t (xattr_Name x);
     c_assert (status = 0);
     s \<leftarrow> free_xattr xattr s;
     destroy_xattrs xs t s }"

definition BitbucketDestroyExtendedAttributes :: "addr \<Rightarrow> bb_state \<Rightarrow> bb_state option" where
  "BitbucketDestroyExtendedAttributes inode s = do {
     i \<leftarrow> Inodes s inode;
     (t, s) \<leftarrow> destroy_xattrs (ExtendedAttributes i) (ExtendedAttributeTrie i) s;
     Some (set_inode inode (i\<lparr>ExtendedAttributes := [], ExtendedAttributeTrie := t\<rparr>) s) }"

section \<open>The attributes of an inode as a map\<close>

definition xattr_name_of :: "bb_state \<Rightarrow> addr \<Rightarrow> string option" where
  "xattr_name_of s x = map_option xattr_Name (Xattrs s x)"

definition xattr_ok :: "bb_state \<Rightarrow> bitbucket_inode \<Rightarrow> bool" where
  "xattr_ok s i = indexed (xattr_name_of s) (ExtendedAttributes i) (ExtendedAttributeTrie i)"

definition xattr_map :: "bb_state \<Rightarrow> bitbucket_inode \<Rightarrow> string \<Rightarrow> u8 list option" where
  "xattr_map s i n = Option.bind (TrieSearch (ExtendedAttributeTrie i) n) (\<lambda>x. map_option xattr_Data (Xattrs s x))"

lemma xattr_ok_live:
  assumes "xattr_ok s i" "TrieSearch (ExtendedAttributeTrie i) n = Some x"
  shows "\<exists>d. Xattrs s x = Some \<lparr>xattr_Name = n, xattr_Data = d\<rparr> \<and> x \<in> set (ExtendedAttributes i)"
proof -
  have "xattr_name_of s x = Some n" and x: "x \<in> set (ExtendedAttributes i)"
    using indexed_member [OF assms(1) [unfolded xattr_ok_def] assms(2)] by simp_all
  then obtain r where "Xattrs s x = Some r" "xattr_Name r = n"
    by (auto simp: xattr_name_of_def)
  then have "Xattrs s x = Some \<lparr>xattr_Name = n, xattr_Data = xattr_Data r\<rparr>"
    by (cases r) simp
  with x show ?thesis
    by blast
qed

lemma round64_ge: "n \<le> round64 n"
  unfolding round64_def by presburger

lemma insert_new:
  assumes "Inodes s a = Some i" "InodeLock i = Exclusive" "name \<noteq> []" "TrieSearch (ExtendedAttributeTrie i) name = None"
  defines "x \<equiv> next_addr s"
  shows "BitbucketInsertExtendedAttribute True a name data s =
    Some (0, set_inode a (i\<lparr>ExtendedAttributeTrie := trie_insert_at (trie_root (ExtendedAttributeTrie i)) name x,
                            ExtendedAttributes := x # ExtendedAttributes i\<rparr>)
       (s\<lparr>next_addr := x + round64 (xattr_data_offset + length name + 1 + length data),
          Xattrs := (Xattrs s)(x \<mapsto> \<lparr>xattr_Name = name, xattr_Data = data\<rparr>)\<rparr>))"
  using assms round64_ge [of "xattr_data_offset + length name + 1 + length data"]
  by (simp add: BitbucketInsertExtendedAttribute_def trylock_shared_busy set_inode_def malloc_def Let_def)

lemma xattr_search_None: "xattr_ok s i \<Longrightarrow> TrieSearch (ExtendedAttributeTrie i) n = None \<longleftrightarrow> xattr_map s i n = None"
  by (cases "TrieSearch (ExtendedAttributeTrie i) n") (auto simp: xattr_map_def dest: xattr_ok_live)

lemma xattr_map_new:
  assumes "xattr_ok s i" "Xattrs s x = None" "TrieSearch t = (TrieSearch (ExtendedAttributeTrie i))(name \<mapsto> x)"
    and "ExtendedAttributeTrie i' = t" "Xattrs s' = (Xattrs s)(x \<mapsto> \<lparr>xattr_Name = name, xattr_Data = data\<rparr>)"
  shows "xattr_map s' i' = (xattr_map s i)(name \<mapsto> data)"
proof
  fix n
  have "y \<noteq> x" if "TrieSearch (ExtendedAttributeTrie i) n = Some y" for y
    using xattr_ok_live [OF assms(1) that] assms(2) by auto
  then show "xattr_map s' i' n = ((xattr_map s i)(name \<mapsto> data)) n"
    using assms(3-5) by (cases "TrieSearch (ExtendedAttributeTrie i) n") (auto simp: xattr_map_def)
qed

lemma xattr_insert:
  assumes "Inodes s a = Some i" "InodeLock i = Exclusive" "xattr_ok s i" "name \<noteq> []"
    and "xattr_map s i name = None" "Xattrs s (next_addr s) = None"
  shows "\<exists>s' i'. BitbucketInsertExtendedAttribute True a name data s = Some (0, s') \<and> Inodes s' a = Some i'
    \<and> InodeLock i' = InodeLock i \<and> xattr_ok s' i' \<and> xattr_map s' i' = (xattr_map s i)(name \<mapsto> data)"
proof -
  let ?x = "next_addr s"
  let ?t = "trie_insert_at (trie_root (ExtendedAttributeTrie i)) name ?x"
  let ?i = "i\<lparr>ExtendedAttributeTrie := ?t, ExtendedAttributes := ?x # ExtendedAttributes i\<rparr>"
  let ?s = "set_inode a ?i (s\<lparr>next_addr := ?x + round64 (xattr_data_offset + length name + 1 + length data),
          Xattrs := (Xattrs s)(?x \<mapsto> \<lparr>xattr_Name = name, xattr_Data = data\<rparr>)\<rparr>)"
  have none: "TrieSearch (ExtendedAttributeTrie i) name = None"
    using xattr_search_None [OF assms(3)] assms(5) by blast
  have "?x \<notin> set (ExtendedAttributes i)"
    using assms(3,6) by (auto simp: xattr_ok_def indexed_def xattr_name_of_def)
  then have "indexed (xattr_name_of ?s) (ExtendedAttributes i) (ExtendedAttributeTrie i)"
    using assms(3) unfolding xattr_ok_def
    by (rule_tac indexed_mono) (auto simp: xattr_name_of_def set_inode_def)
  note ins = indexed_insert [OF this assms(4) none, of ?x]
  have "xattr_ok ?s ?i"
    using ins(1) by (simp add: xattr_ok_def xattr_name_of_def set_inode_def)
  moreover have "xattr_map ?s ?i = (xattr_map s i)(name \<mapsto> data)"
    using ins(2) by (intro xattr_map_new [OF assms(3,6)]) (simp_all add: set_inode_def xattr_name_of_def)
  ultimately show ?thesis
    using insert_new [OF assms(1,2,4) none, of data] by (intro exI [of _ ?s] exI [of _ ?i]) (simp add: set_inode_def)
qed

text \<open>
  Out of memory nothing is bound; what remains is the root of a trie when there was none.
\<close>

lemma xattr_insert_no_memory:
  assumes "Inodes s a = Some i" "InodeLock i = Exclusive" "xattr_ok s i" "name \<noteq> []" "xattr_map s i name = None"
  shows "\<exists>s' i'. BitbucketInsertExtendedAttribute False a name data s = Some (ENOMEM, s') \<and> Inodes s' a = Some i'
    \<and> xattr_map s' i' = xattr_map s i \<and> (ExtendedAttributes i \<noteq> [] \<longrightarrow> xattr_ok s' i')"
proof -
  let ?i = "i\<lparr>ExtendedAttributeTrie := trie_root (ExtendedAttributeTrie i)\<rparr>"
  let ?s = "set_inode a ?i s"
  have none: "TrieSearch (ExtendedAttributeTrie i) name = None"
    using xattr_search_None [OF assms(3)] assms(5) by blast
  have "BitbucketInsertExtendedAttribute False a name data s = Some (ENOMEM, ?s)"
    using assms(1,2,4) none round64_ge [of "xattr_data_offset + length name + 1 + length data"]
    by (simp add: BitbucketInsertExtendedAttribute_def trylock_shared_busy Let_def)
  moreover have "xattr_map ?s ?i = xattr_map s i"
    by (simp add: xattr_map_def set_inode_def fun_eq_iff)
  moreover have "xattr_ok ?s ?i" if "ExtendedAttributes i \<noteq> []"
  proof -
    have "ExtendedAttributeTrie i \<noteq> None"
      using assms(3) that by (simp add: xattr_ok_def indexed_def)
    then have "trie_root (ExtendedAttributeTrie i) = ExtendedAttributeTrie i"
      by (auto simp: trie_root_def)
    moreover have "xattr_name_of ?s = xattr_name_of s"
      by (simp add: xattr_name_of_def set_inode_def fun_eq_iff)
    ultimately show ?thesis
      using assms(3) by (simp add: xattr_ok_def)
  qed
  ultimately show ?thesis
    by (intro exI [of _ ?s] exI [of _ ?i]) (simp add: set_inode_def)
qed

lemma xattr_lookup:
  assumes "Inodes s a = Some i" "xattr_ok s i"
  shows "\<exists>out. BitbucketLookupExtendedAttribute a name s =
    (case xattr_map s i name of None \<Rightarrow> Some (ENODATA, out) | Some d \<Rightarrow> Some (0, Some d))"
proof (cases "TrieSearch (ExtendedAttributeTrie i) name")
  case None
  then show ?thesis
    using assms(1) by (simp add: BitbucketLookupExtendedAttribute_def xattr_map_def)
next
  case (Some x)
  obtain d where "Xattrs s x = Some \<lparr>xattr_Name = name, xattr_Data = d\<rparr>"
    using xattr_ok_live [OF assms(2) Some] by blast
  with Some assms(1) show ?thesis
    by (cases "ExtendedAttributeTrie i") (auto simp: BitbucketLookupExtendedAttribute_def xattr_map_def)
qed

lemma xattr_remove:
  assumes "Inodes s a = Some i" "xattr_ok s i"
  shows "\<exists>s' i'. BitbucketRemoveExtendedAttribute a name s = Some (if xattr_map s i name = None then ENOENT else 0, s')
    \<and> Inodes s' a = Some i' \<and> xattr_ok s' i' \<and> xattr_map s' i' = (xattr_map s i)(name := None)"
proof (cases "TrieSearch (ExtendedAttributeTrie i) name")
  case None
  then have "xattr_map s i name = None"
    using xattr_search_None [OF assms(2)] by blast
  with None assms show ?thesis
    by (auto simp: BitbucketRemoveExtendedAttribute_def fun_upd_idem)
next
  case (Some x)
  obtain d where x: "Xattrs s x = Some \<lparr>xattr_Name = name, xattr_Data = d\<rparr>" "x \<in> set (ExtendedAttributes i)"
    using xattr_ok_live [OF assms(2) Some] by blast
  obtain t where t: "TrieDeletion True (ExtendedAttributeTrie i) name = Some (0, t)"
    "indexed (xattr_name_of s) (remove1 x (ExtendedAttributes i)) t" "TrieSearch t = (TrieSearch (ExtendedAttributeTrie i))(name := None)"
    using indexed_delete [OF assms(2) [unfolded xattr_ok_def] Some] by blast
  let ?i = "i\<lparr>ExtendedAttributeTrie := t, ExtendedAttributes := remove1 x (ExtendedAttributes i)\<rparr>"
  let ?s = "(set_inode a ?i s)\<lparr>Xattrs := (Xattrs s)(x := None)\<rparr>"
  have root: "ExtendedAttributeTrie i \<noteq> None"
    using Some by (cases "ExtendedAttributeTrie i") auto
  have "BitbucketRemoveExtendedAttribute a name s = Some (0, ?s)"
    using assms(1) root Some t(1) x(1) by (simp add: BitbucketRemoveExtendedAttribute_def free_xattr_def set_inode_def Let_def)
  moreover have "distinct (ExtendedAttributes i)"
    using assms(2) by (simp add: xattr_ok_def indexed_def)
  then have "xattr_ok ?s ?i"
    unfolding xattr_ok_def by (auto simp: xattr_name_of_def intro!: indexed_mono [OF t(2)])
  moreover have "xattr_map ?s ?i = (xattr_map s i)(name := None)"
  proof
    fix n
    have "Xattrs ?s y = Xattrs s y" if "TrieSearch (ExtendedAttributeTrie i) n = Some y" "n \<noteq> name" for y
      using xattr_ok_live [OF assms(2) that(1)] x(1) that(2) by auto
    then show "xattr_map ?s ?i n = ((xattr_map s i)(name := None)) n"
      unfolding xattr_map_def using t(3) by (cases "n = name"; cases "TrieSearch (ExtendedAttributeTrie i) n") simp_all
  qed
  moreover have "xattr_map s i name \<noteq> None"
    using xattr_search_None [OF assms(2), of name] Some by simp
  ultimately show ?thesis
    by (intro exI [of _ ?s] exI [of _ ?i]) (simp add: set_inode_def)
qed

lemma destroy_xattrs_all:
  "indexed (xattr_name_of s) xs t \<Longrightarrow>
   destroy_xattrs xs t s = Some (None, s\<lparr>Xattrs := (\<lambda>x. if x \<in> set xs then None else Xattrs s x)\<rparr>)"
proof (induction xs arbitrary: t s)
  case Nil
  then show ?case
    by (simp add: indexed_def)
next
  case (Cons x xs)
  obtain n where n: "xattr_name_of s x = Some n" "TrieSearch t n = Some x"
    using Cons.prems by (auto simp: indexed_def)
  obtain t' where t': "TrieDeletion True t n = Some (0, t')" "indexed (xattr_name_of s) xs t'"
    using indexed_delete [OF Cons.prems n(2)] by auto
  let ?s = "s\<lparr>Xattrs := (Xattrs s)(x := None)\<rparr>"
  have "x \<notin> set xs"
    using Cons.prems by (simp add: indexed_def)
  then have "indexed (xattr_name_of ?s) xs t'"
    by (intro indexed_mono [OF t'(2)]) (auto simp: xattr_name_of_def)
  note IH = Cons.IH [OF this]
  have "(\<lambda>y. if y \<in> set xs then None else Xattrs ?s y) = (\<lambda>y. if y \<in> set (x # xs) then None else Xattrs s y)"
    by auto
  with IH show ?case
    using n(1) t'(1) by (auto simp: xattr_name_of_def free_xattr_def)
qed

section \<open>Properties\<close>

text \<open>
  C33: Under the exclusive lock the attributes of an inode behave as a map from names to
  data, with one exception, the insertion of a name that is already bound (see the next
  property).  Inserting a new name binds exactly that name, or binds nothing and returns
  ENOMEM when there is no memory; an empty name is refused with EINVAL and changes
  nothing; a lookup returns the bound data or ENODATA; a removal unbinds exactly its name and
  returns ENOENT when there was none.  The list and the trie stay in agreement, except that a first
  insertion without memory leaves an empty trie behind.
\<close>
theorem xattrs_are_a_map:
  assumes "Inodes s a = Some i" "InodeLock i = Exclusive" "xattr_ok s i" "name \<noteq> []" "Xattrs s (next_addr s) = None"
  shows "(xattr_map s i name = None \<longrightarrow>
      (\<exists>s' i'. BitbucketInsertExtendedAttribute True a name data s = Some (0, s') \<and> Inodes s' a = Some i'
         \<and> xattr_ok s' i' \<and> xattr_map s' i' = (xattr_map s i)(name \<mapsto> data))
      \<and> (\<exists>s' i'. BitbucketInsertExtendedAttribute False a name data s = Some (ENOMEM, s') \<and> Inodes s' a = Some i'
         \<and> xattr_map s' i' = xattr_map s i \<and> (ExtendedAttributes i \<noteq> [] \<longrightarrow> xattr_ok s' i')))
    \<and> BitbucketInsertExtendedAttribute memory a [] data s = Some (EINVAL, s)
    \<and> (\<exists>out. BitbucketLookupExtendedAttribute a name s =
         (case xattr_map s i name of None \<Rightarrow> Some (ENODATA, out) | Some d \<Rightarrow> Some (0, Some d)))
    \<and> (\<exists>s' i'. BitbucketRemoveExtendedAttribute a name s = Some (if xattr_map s i name = None then ENOENT else 0, s')
         \<and> Inodes s' a = Some i' \<and> xattr_ok s' i' \<and> xattr_map s' i' = (xattr_map s i)(name := None))"
proof -
  have "BitbucketInsertExtendedAttribute memory a [] data s = Some (EINVAL, s)"
    using assms(1) by (simp add: BitbucketInsertExtendedAttribute_def)
  then show ?thesis
    using xattr_insert [OF assms(1-4) _ assms(5)] xattr_insert_no_memory [OF assms(1-4)] xattr_lookup [OF assms(1,3)] xattr_remove [OF assms(1,3)]
    by blast
qed

definition plain_inode :: bitbucket_inode where
  "plain_inode = \<lparr>Length = 1024, RegisteredAttributes = None, PrivateTable = False, InodeLength = 512,
     InodeType = BITBUCKET_FILE_TYPE, InodeLock = Exclusive, Table = False, UuidString = ''u'', Epoch = 0,
     Attributes = \<lparr>st_ino = 7, st_mode = S_IFREG, st_nlink = 0, st_uid = 0, st_gid = 0, st_size = 0, st_blksize = 512,
       st_blocks = 0, st_atim = \<lparr>tv_sec = 0, tv_nsec = 0\<rparr>, st_mtim = \<lparr>tv_sec = 0, tv_nsec = 0\<rparr>,
       st_ctim = \<lparr>tv_sec = 0, tv_nsec = 0\<rparr>\<rparr>,
     CreationTime = \<lparr>tv_sec = 0, tv_nsec = 0\<rparr>, ExtendedAttributes = [], ExtendedAttributeTrie = None, Instance = NoInstance\<rparr>"

definition plain_state :: bb_state where
  "plain_state = \<lparr>Objects = Map.empty, ObjectCount = 0, DefaultObjectLock = Unlocked, next_addr = 4096,
     Inodes = [64 \<mapsto> plain_inode], Dirents = Map.empty, Xattrs = Map.empty,
     InodeTable = \<lparr>BucketCount = 1024, BucketCountShift = 10, InodeCount = 0, MaxInodeCount = 0, HashSeed = 1,
       Buckets = (\<lambda>b. \<lparr>ListEntry = [], BucketLock = Unlocked, Count = 0, LastInodeTableEntry = None, Lookups = 0,
         FailedLookups = 0, LastInodeMatch = 0, MaxCount = 0\<rparr>)\<rparr>,
     InodeNumbers = \<lparr>initialized = False, last_inode_number = 0, inode_bias = 0\<rparr>, Storage = Map.empty,
     VerifyDirectoriesEnabled = False,
     Environment = \<lparr>Clock = (\<lambda>k. \<lparr>tv_sec = int k, tv_nsec = 0\<rparr>), Random = of_nat, Uuid = (\<lambda>k. ''uuid''), Uid = 0, Gid = 0\<rparr>,
     Tick = 5\<rparr>"

lemma plain_state_xattrs:
  "Inodes plain_state 64 = Some plain_inode" "InodeLock plain_inode = Exclusive" "xattr_ok plain_state plain_inode"
  "Xattrs plain_state (next_addr plain_state) = None" "xattr_map plain_state plain_inode = Map.empty"
  by (simp_all add: plain_state_def plain_inode_def xattr_ok_def xattr_map_def fun_eq_iff)

theorem xattrs_are_a_map_witness:
  "\<exists>s' i'. BitbucketInsertExtendedAttribute True 64 ''user.k'' [1, 2] plain_state = Some (0, s') \<and> Inodes s' 64 = Some i'
      \<and> xattr_ok s' i' \<and> xattr_map s' i' = [''user.k'' \<mapsto> [1, 2]]"
  using xattrs_are_a_map [where s = plain_state and a = 64 and i = plain_inode and name = "''user.k''" and data = "[1, 2]"]
    plain_state_xattrs by simp

text \<open>
  C34: Inserting an attribute under a name that exists returns EEXIST but frees the existing
  attribute, which stays in the list and in the trie: the next lookup of the name reads
  freed memory, and so does the next removal.
\<close>
theorem xattr_duplicate_frees_the_original:
  assumes "Inodes s a = Some i" "InodeLock i = Exclusive" "xattr_ok s i" "name \<noteq> []" "xattr_map s i name = Some d"
  shows "\<exists>s'. BitbucketInsertExtendedAttribute ok a name data s = Some (EEXIST, s')
    \<and> BitbucketLookupExtendedAttribute a name s' = None \<and> BitbucketRemoveExtendedAttribute a name s' = None"
proof -
  obtain x where x: "TrieSearch (ExtendedAttributeTrie i) name = Some x"
    using xattr_search_None [OF assms(3), of name] assms(5) by (cases "TrieSearch (ExtendedAttributeTrie i) name") auto
  obtain e where e: "Xattrs s x = Some \<lparr>xattr_Name = name, xattr_Data = e\<rparr>"
    using xattr_ok_live [OF assms(3) x] by blast
  obtain u where u: "ExtendedAttributeTrie i = Some u"
    using x by (cases "ExtendedAttributeTrie i") auto
  have r: "trie_root (ExtendedAttributeTrie i) = ExtendedAttributeTrie i"
    by (simp add: u trie_root_def)
  have idem: "i\<lparr>ExtendedAttributeTrie := ExtendedAttributeTrie i\<rparr> = i"
    by (cases i) simp
  let ?s = "s\<lparr>Xattrs := (Xattrs s)(x := None)\<rparr>"
  have "BitbucketInsertExtendedAttribute ok a name data s = Some (EEXIST, ?s)"
    using assms x e round64_ge [of "xattr_data_offset + length name + 1 + length data"]
    by (simp add: BitbucketInsertExtendedAttribute_def trylock_shared_busy r idem free_xattr_def Let_def)
  moreover have "BitbucketLookupExtendedAttribute a name ?s = None" "BitbucketRemoveExtendedAttribute a name ?s = None"
    using assms(1) x u
    by (auto simp: BitbucketLookupExtendedAttribute_def BitbucketRemoveExtendedAttribute_def free_xattr_def set_inode_def
        Let_def split: bind_splits if_splits)
  ultimately show ?thesis
    by blast
qed

theorem xattr_duplicate_frees_the_original_witness:
  "\<exists>s1 s2. BitbucketInsertExtendedAttribute True 64 ''user.k'' [1] plain_state = Some (0, s1)
     \<and> BitbucketInsertExtendedAttribute True 64 ''user.k'' [2] s1 = Some (EEXIST, s2)
     \<and> BitbucketLookupExtendedAttribute 64 ''user.k'' s2 = None"
proof -
  obtain s1 i1 where "BitbucketInsertExtendedAttribute True 64 ''user.k'' [1] plain_state = Some (0, s1)"
    "Inodes s1 64 = Some i1" "InodeLock i1 = Exclusive" "xattr_ok s1 i1" "xattr_map s1 i1 ''user.k'' = Some [1]"
    using xattr_insert [of plain_state 64 plain_inode "''user.k''" "[1]"] plain_state_xattrs by auto
  then show ?thesis
    using xattr_duplicate_frees_the_original [of s1 64 i1 "''user.k''" "[1]" True "[2]"] by auto
qed

end
