(* ===== verification/InodeKinds.thy ===== *)
theory InodeKinds
  imports Xattr
begin

text \<open>
  What the components that use inodes register for them: the initialisation and
  deallocation of directories (\<^verbatim>\<open>dir.c\<close>), files (\<^verbatim>\<open>file.c\<close>) and symbolic links (\<^verbatim>\<open>symlink.c\<close>) of
  \<^verbatim>\<open>src/finesse/bitbucket\<close>.
\<close>

definition DirectoryInitialize :: "addr \<Rightarrow> nat \<Rightarrow> bb_state \<Rightarrow> bb_state option" where
  "DirectoryInitialize inode len s = do {
     i \<leftarrow> Inodes s inode;
     c_assert (InodeType i = BITBUCKET_UNKNOWN_TYPE);
     c_assert (len = InodeLength i);
     Some (set_inode inode
       (i\<lparr>InodeType := BITBUCKET_DIR_TYPE,
          Attributes := (Attributes i)\<lparr>st_mode := st_mode (Attributes i) OR S_IFDIR, st_nlink := 1\<rparr>,
          Instance := Directory \<lparr>Parent = NULL, Entries = [], Children = None\<rparr>\<rparr>) s) }"

definition DirectoryDeallocate :: "addr \<Rightarrow> nat \<Rightarrow> bb_state \<Rightarrow> bb_state option" where
  "DirectoryDeallocate inode len s = do {
     c_assert (inode \<noteq> NULL);
     i \<leftarrow> Inodes s inode;
     c_assert (InodeLength i = len);
     d \<leftarrow> the_directory i;
     c_assert (Entries d = []);
     Some (set_inode inode (i\<lparr>Instance := NoInstance\<rparr>) s) }"

definition FileInitialize :: "addr \<Rightarrow> nat \<Rightarrow> bb_state \<Rightarrow> bb_state option" where
  "FileInitialize inode len s = do {
     c_assert (inode \<noteq> NULL);
     i \<leftarrow> Inodes s inode;
     c_assert (InodeType i = BITBUCKET_UNKNOWN_TYPE);
     c_assert (len = InodeLength i);
     Some (set_inode inode
       (i\<lparr>InodeType := BITBUCKET_FILE_TYPE,
          Attributes := (Attributes i)\<lparr>st_mode := st_mode (Attributes i) OR S_IFREG, st_nlink := 0, st_size := 0, st_blocks := 0\<rparr>,
          Instance := File \<lparr>MapName = None, Map = None, Readers = 0, Writers = 0, WaitingReaders = 0, WaitingWriters = 0,
            LockOwnersList = [], LockWaitersList = []\<rparr>\<rparr>) s) }"

text \<open>
  The memory of the file is freed with the inode; unmapping nothing is an error, and so is
  removing a storage file that does not exist.
\<close>

definition map_releasable :: "bitbucket_file \<Rightarrow> bitbucket_inode \<Rightarrow> bool" where
  "map_releasable f i \<longleftrightarrow> (case (Map f, MapName f) of
       (None, _) \<Rightarrow> True
     | (Some m, None) \<Rightarrow> (case m of Malloced bs \<Rightarrow> True | _ \<Rightarrow> False)
     | (Some m, Some name) \<Rightarrow> (case m of Mmapped n \<Rightarrow> 0 < st_size (Attributes i) | _ \<Rightarrow> False))"

definition FileDeallocate :: "addr \<Rightarrow> nat \<Rightarrow> bb_state \<Rightarrow> bb_state option" where
  "FileDeallocate inode len s = do {
     c_assert (inode \<noteq> NULL);
     i \<leftarrow> Inodes s inode;
     c_assert (InodeLength i = len);
     f \<leftarrow> the_file i;
     c_assert (map_releasable f i);
     s \<leftarrow> (case MapName f of
        None \<Rightarrow> Some s
      | Some name \<Rightarrow> do {
          c_assert (Storage s name \<noteq> None);
          Some (s\<lparr>Storage := (Storage s)(name := None)\<rparr>) });
     Some (set_inode inode (i\<lparr>Instance := NoInstance\<rparr>) s) }"

definition SymlinkInitialize :: "addr \<Rightarrow> nat \<Rightarrow> bb_state \<Rightarrow> bb_state option" where
  "SymlinkInitialize inode len s = do {
     c_assert (inode \<noteq> NULL);
     i \<leftarrow> Inodes s inode;
     c_assert (InodeType i = BITBUCKET_UNKNOWN_TYPE);
     Some (set_inode inode
       (i\<lparr>InodeType := BITBUCKET_SYMLINK_TYPE,
          Attributes := (Attributes i)\<lparr>st_mode := st_mode (Attributes i) OR S_IFLNK, st_nlink := 0, st_size := 0, st_blocks := 0\<rparr>,
          Instance := SymbolicLink []\<rparr>) s) }"

definition SymlinkDeallocate :: "addr \<Rightarrow> nat \<Rightarrow> bb_state \<Rightarrow> bb_state option" where
  "SymlinkDeallocate inode len s = do {
     c_assert (inode \<noteq> NULL);
     i \<leftarrow> Inodes s inode;
     c_assert (InodeLength i = len);
     (case Instance i of
        SymbolicLink link \<Rightarrow> Some (set_inode inode (i\<lparr>Instance := NoInstance\<rparr>) s)
      | _ \<Rightarrow> None) }"

fun registered_Initialize :: "registered \<Rightarrow> addr \<Rightarrow> nat \<Rightarrow> bb_state \<Rightarrow> bb_state option" where
  "registered_Initialize DirectoryObjectAttributes = DirectoryInitialize"
| "registered_Initialize FileObjectAttributes = FileInitialize"
| "registered_Initialize SymbolicLinkObjectAttributes = SymlinkInitialize"

fun registered_Deallocate :: "registered \<Rightarrow> addr \<Rightarrow> nat \<Rightarrow> bb_state \<Rightarrow> bb_state option" where
  "registered_Deallocate DirectoryObjectAttributes = DirectoryDeallocate"
| "registered_Deallocate FileObjectAttributes = FileDeallocate"
| "registered_Deallocate SymbolicLinkObjectAttributes = SymlinkDeallocate"

text \<open>
  When the deallocation of an inode passes its checks, and the storage that is left behind.
\<close>

definition kind_removable :: "bb_state \<Rightarrow> bitbucket_inode \<Rightarrow> bool" where
  "kind_removable s i \<longleftrightarrow> (case RegisteredAttributes i of
       None \<Rightarrow> True
     | Some DirectoryObjectAttributes \<Rightarrow> (\<exists>d. Instance i = Directory d \<and> Entries d = [])
     | Some FileObjectAttributes \<Rightarrow> (\<exists>f. Instance i = File f \<and> map_releasable f i
          \<and> (\<forall>name. MapName f = Some name \<longrightarrow> Storage s name \<noteq> None))
     | Some SymbolicLinkObjectAttributes \<Rightarrow> (\<exists>link. Instance i = SymbolicLink link))"

definition storage_without :: "bitbucket_inode \<Rightarrow> (string \<Rightarrow> u8 list option) \<Rightarrow> string \<Rightarrow> u8 list option" where
  "storage_without i st = (case (RegisteredAttributes i, Instance i) of
       (Some FileObjectAttributes, File f) \<Rightarrow> (case MapName f of None \<Rightarrow> st | Some name \<Rightarrow> st(name := None))
     | _ \<Rightarrow> st)"

lemma map_releasable_cong:
  "st_size (Attributes j) = st_size (Attributes i) \<Longrightarrow> map_releasable f j = map_releasable f i"
  by (simp add: map_releasable_def split: option.split file_map.split)

lemma registered_Deallocate_ok:
  assumes "kind_removable s i" "RegisteredAttributes i = Some k" "Inodes s a = Some j" "a \<noteq> NULL"
    and "Instance j = Instance i" "st_size (Attributes j) = st_size (Attributes i)"
  shows "registered_Deallocate k a (InodeLength j) s =
    Some (set_inode a (j\<lparr>Instance := NoInstance\<rparr>) (s\<lparr>Storage := storage_without i (Storage s)\<rparr>))"
  using assms map_releasable_cong [OF assms(6)]
  by (cases k) (auto simp: kind_removable_def storage_without_def DirectoryDeallocate_def FileDeallocate_def
      SymlinkDeallocate_def set_inode_def split: option.splits if_splits)

end
