(* ===== verification/InodeTable.thy ===== *)
theory InodeTable
  imports InodeKinds
begin

text \<open>
  The inode table and the life of inodes, \<^verbatim>\<open>src/finesse/bitbucket/inode.c\<close>.  A bucket is a list of
  table entries with a one-entry cache and its own lock; the lock of the bucket of an inode
  is at the same time the lock of the inode's reference counter.  The reference counting
  itself is that of \<^verbatim>\<open>BBObject\<close>, used through the callbacks \<^verbatim>\<open>InodePrivateObjectAttributes\<close>.
\<close>

section \<open>Buckets\<close>

definition hash_of :: "bb_state \<Rightarrow> u64 \<Rightarrow> nat option" where
  "hash_of s ino = hash_inode ino (HashSeed (InodeTable s)) (BucketCountShift (InodeTable s))"

definition bucket :: "bb_state \<Rightarrow> nat \<Rightarrow> inode_bucket" where
  "bucket s b = Buckets (InodeTable s) b"

definition set_bucket :: "nat \<Rightarrow> inode_bucket \<Rightarrow> bb_state \<Rightarrow> bb_state" where
  "set_bucket b v s = s\<lparr>InodeTable := (InodeTable s)\<lparr>Buckets := (Buckets (InodeTable s))(b := v)\<rparr>\<rparr>"

text \<open>The result of taking a bucket lock in shared mode is not looked at.\<close>

definition LockInodeBucket :: "nat \<Rightarrow> bool \<Rightarrow> bb_state \<Rightarrow> bb_state option" where
  "LockInodeBucket b change s = do {
     c_assert (b < BucketCount (InodeTable s));
     if change then do {
       (status, l) \<leftarrow> wrlock (BucketLock (bucket s b));
       c_assert (status = 0);
       Some (set_bucket b ((bucket s b)\<lparr>BucketLock := l\<rparr>) s) }
     else do {
       (status, l) \<leftarrow> rdlock (BucketLock (bucket s b));
       Some (set_bucket b ((bucket s b)\<lparr>BucketLock := l\<rparr>) s) } }"

definition TryLockInodeBucket :: "nat \<Rightarrow> bool \<Rightarrow> bb_state \<Rightarrow> (errno \<times> bb_state) option" where
  "TryLockInodeBucket b change s = do {
     c_assert (b < BucketCount (InodeTable s));
     let (status, l) = (if change then trywrlock else tryrdlock) (BucketLock (bucket s b));
     Some (status, set_bucket b ((bucket s b)\<lparr>BucketLock := l\<rparr>) s) }"

definition UnlockInodeBucket :: "nat \<Rightarrow> bb_state \<Rightarrow> bb_state option" where
  "UnlockInodeBucket b s = do {
     c_assert (b < BucketCount (InodeTable s));
     let (status, l) = rwunlock (BucketLock (bucket s b));
     c_assert (status = 0);
     Some (set_bucket b ((bucket s b)\<lparr>BucketLock := l\<rparr>) s) }"

definition LockInodeForLookup :: "u64 \<Rightarrow> bb_state \<Rightarrow> bb_state option" where
  "LockInodeForLookup ino s = do { b \<leftarrow> hash_of s ino; LockInodeBucket b False s }"

definition TryLockInode :: "u64 \<Rightarrow> bool \<Rightarrow> bb_state \<Rightarrow> (errno \<times> bb_state) option" where
  "TryLockInode ino exclusive s = do { b \<leftarrow> hash_of s ino; TryLockInodeBucket b exclusive s }"

definition LockInodeForChange :: "u64 \<Rightarrow> bb_state \<Rightarrow> bb_state option" where
  "LockInodeForChange ino s = do { b \<leftarrow> hash_of s ino; LockInodeBucket b True s }"

definition UnlockInode :: "u64 \<Rightarrow> bb_state \<Rightarrow> bb_state option" where
  "UnlockInode ino s = do { b \<leftarrow> hash_of s ino; UnlockInodeBucket b s }"

section \<open>Lookup and insertion\<close>

definition ino_of :: "bb_state \<Rightarrow> addr \<Rightarrow> u64 option" where
  "ino_of s a = map_option (\<lambda>i. st_ino (Attributes i)) (Inodes s a)"

fun find_ite :: "(addr \<Rightarrow> u64 option) \<Rightarrow> u64 \<Rightarrow> inode_table_entry list \<Rightarrow> inode_table_entry option option" where
  "find_ite number ino [] = Some None"
| "find_ite number ino (e # es) = do {
     n \<leftarrow> number (ite_Inode e);
     if ino = n then Some (Some e) else find_ite number ino es }"

definition LookupInodeInTableLocked :: "u64 \<Rightarrow> bb_state \<Rightarrow> (inode_table_entry option \<times> bb_state) option" where
  "LookupInodeInTableLocked ino s = do {
     c_assert (ino \<noteq> 0);
     b \<leftarrow> hash_of s ino;
     c_assert (b < BucketCount (InodeTable s));
     let B = bucket s b;
     let B = B\<lparr>Lookups := Lookups B + 1\<rparr>;
     hit \<leftarrow> (case LastInodeTableEntry B of
        None \<Rightarrow> Some False
      | Some ite \<Rightarrow> do { n \<leftarrow> ino_of s (ite_Inode ite); Some (ino = n) });
     if hit then Some (LastInodeTableEntry B, set_bucket b (B\<lparr>LastInodeMatch := LastInodeMatch B + 1\<rparr>) s)
     else do {
       r \<leftarrow> find_ite (ino_of s) ino (ListEntry B);
       (case r of
          None \<Rightarrow> Some (None, set_bucket b (B\<lparr>FailedLookups := FailedLookups B + 1\<rparr>) s)
        | Some ite \<Rightarrow> Some (Some ite, set_bucket b (B\<lparr>LastInodeTableEntry := Some ite\<rparr>) s)) } }"

text \<open>The part of the insertion that runs under the bucket lock.\<close>

definition insert_locked :: "nat \<Rightarrow> inode_table_entry \<Rightarrow> u64 \<Rightarrow> bb_state \<Rightarrow> (errno \<times> bb_state) option" where
  "insert_locked b ite ino s = do {
     (dite, s) \<leftarrow> LookupInodeInTableLocked ino s;
     if dite \<noteq> None then Some (- EEXIST, s)
     else do {
       let B = bucket s b;
       let B = B\<lparr>ListEntry := ite # ListEntry B, Count := Count B + 1\<rparr>;
       let B = (if Count B > MaxCount B then B\<lparr>MaxCount := Count B\<rparr> else B);
       Some (0, set_bucket b B s) } }"

definition count_insertion :: "inode_table \<Rightarrow> inode_table" where
  "count_insertion t =
     (let count = InodeCount t;
          t = t\<lparr>InodeCount := count + 1\<rparr>
      in if count > MaxInodeCount t then t\<lparr>MaxInodeCount := count\<rparr> else t)"

definition BitbucketInsertInodeInTable :: "addr \<Rightarrow> bb_state \<Rightarrow> (errno \<times> bb_state) option" where
  "BitbucketInsertInodeInTable inode s = do {
     c_assert (inode \<noteq> NULL);
     i \<leftarrow> Inodes s inode;
     c_assert (InodeType i \<noteq> BITBUCKET_UNKNOWN_TYPE);
     c_assert (\<not> Table i);
     let ino = st_ino (Attributes i);
     c_assert (ino \<noteq> FUSE_ROOT_ID);
     c_assert (ino \<noteq> 0);
     b \<leftarrow> hash_of s ino;
     c_assert (b < BucketCount (InodeTable s));
     s \<leftarrow> LockInodeBucket b True s;
     (result, s) \<leftarrow> insert_locked b \<lparr>ite_Inode = inode, ite_Bucket = b\<rparr> ino s;
     s \<leftarrow> UnlockInodeBucket b s;
     i \<leftarrow> Inodes s inode;
     let s = set_inode inode (i\<lparr>Table := True\<rparr>) s;
     Some (result, s\<lparr>InodeTable := count_insertion (InodeTable s)\<rparr>) }"

definition BitbucketGetInodeTableCount :: "bb_state \<Rightarrow> u64" where
  "BitbucketGetInodeTableCount s = InodeCount (InodeTable s)"

section \<open>Creating and destroying a table\<close>

definition scale_buckets :: "nat \<Rightarrow> nat \<times> nat" where
  "scale_buckets n =
     (if n \<le> 1024 then (1024, 10)
      else if n \<le> 2048 then (2048, 11)
      else if n \<le> 4096 then (4096, 12)
      else if n \<le> 8192 then (8192, 13)
      else if n \<le> 16384 then (16384, 14)
      else if n \<le> 32768 then (32768, 15)
      else (65536, 16))"

text \<open>
  The three counters that the initialisation forgets have whatever value the memory had.
\<close>

definition BitbucketCreateInodeTable :: "(nat \<Rightarrow> u64 \<times> u64 \<times> u64) \<Rightarrow> nat \<Rightarrow> u64 \<Rightarrow> inode_table option" where
  "BitbucketCreateInodeTable memory n seed = do {
     let seed = (if seed = 0 then 0x318df49e5b958865 else seed);
     let (n, shift) = scale_buckets n;
     c_assert (n < 2 ^ 24);
     c_assert (10 \<le> shift \<and> shift \<le> 16);
     Some \<lparr>BucketCount = n, BucketCountShift = shift, InodeCount = 0, MaxInodeCount = 0, HashSeed = seed,
       Buckets = (\<lambda>b. case memory b of (m1, m2, m3) \<Rightarrow>
         \<lparr>ListEntry = [], BucketLock = Unlocked, Count = 0, LastInodeTableEntry = None,
          Lookups = m1, FailedLookups = m2, LastInodeMatch = m3, MaxCount = 0\<rparr>)\<rparr> }"

text \<open>Destroying a lock that is held fails with EBUSY.\<close>

definition BitbucketDestroyInodeTable :: "inode_table \<Rightarrow> unit option" where
  "BitbucketDestroyInodeTable t =
     c_assert (list_all (\<lambda>b. let B = Buckets t b in BucketLock B = Unlocked \<and> Count B = 0 \<and> ListEntry B = []) [0..<BucketCount t])"

record table_data =
  data_BucketCount :: nat
  data_MaxInodeCount :: u64
  TotalLookups :: u64
  TotalFailedLookups :: u64
  BucketData :: "(u64 \<times> u64 \<times> u64 \<times> u64) list"

definition BitbucketGetInodeTableStatistics :: "inode_table \<Rightarrow> table_data" where
  "BitbucketGetInodeTableStatistics t =
     fold (\<lambda>b d. let B = Buckets t b in
             d\<lparr>BucketData := BucketData d @ [(MaxCount B, LastInodeMatch B, Lookups B, FailedLookups B)],
               TotalLookups := TotalLookups d + Lookups B,
               TotalFailedLookups := TotalFailedLookups d + FailedLookups B\<rparr>)
       [0..<BucketCount t]
       \<lparr>data_BucketCount = BucketCount t, data_MaxInodeCount = MaxInodeCount t, TotalLookups = 0, TotalFailedLookups = 0,
        BucketData = []\<rparr>"

section \<open>The callbacks of the object package\<close>

abbreviation (input) private_inode_size :: nat where "private_inode_size \<equiv> 944"
abbreviation (input) public_inode_offset :: nat where "public_inode_offset \<equiv> 512"

text \<open>
  A new inode.  The object package has cleared the memory, so what is not set is zero.
\<close>

definition InodeInitialize :: "addr \<Rightarrow> nat \<Rightarrow> bb_state \<Rightarrow> bb_state option" where
  "InodeInitialize obj len s = do {
     let env = Environment s;
     let uuid = Uuid env (Tick s);
     let epoch = Random env (Suc (Tick s));
     let now = Clock env (Suc (Suc (Tick s)));
     (ino, numbers, tick) \<leftarrow> get_new_inode_number (Random env) (Suc (Suc (Suc (Tick s)))) (InodeNumbers s);
     let st = \<lparr>st_ino = ino, st_mode = 0x1FF, st_nlink = 0, st_uid = Uid env, st_gid = Gid env, st_size = 4096,
               st_blksize = 512, st_blocks = 4096 div 512, st_atim = now, st_mtim = now, st_ctim = now\<rparr>;
     let s = s\<lparr>InodeNumbers := numbers, Tick := tick\<rparr>;
     let s = set_inode obj
       \<lparr>Length = len, RegisteredAttributes = None, PrivateTable = False,
        InodeLength = len - public_inode_offset, InodeType = BITBUCKET_UNKNOWN_TYPE, InodeLock = Unlocked,
        Table = False, UuidString = uuid, Epoch = epoch, Attributes = st, CreationTime = now,
        ExtendedAttributes = [], ExtendedAttributeTrie = None, Instance = NoInstance\<rparr> s;
     BitbucketInitializeExtendedAttributes obj s }"

definition InodeTableLock :: "addr \<Rightarrow> bool \<Rightarrow> bb_state \<Rightarrow> bb_state option" where
  "InodeTableLock obj exclusive s = do {
     i \<leftarrow> Inodes s obj;
     c_assert (PrivateTable i);
     if exclusive then LockInodeForChange (st_ino (Attributes i)) s
     else LockInodeForLookup (st_ino (Attributes i)) s }"

definition InodeTableTrylock :: "addr \<Rightarrow> bool \<Rightarrow> bb_state \<Rightarrow> (errno \<times> bb_state) option" where
  "InodeTableTrylock obj exclusive s = do {
     i \<leftarrow> Inodes s obj;
     c_assert (PrivateTable i);
     TryLockInode (st_ino (Attributes i)) exclusive s }"

definition InodeTableUnlock :: "addr \<Rightarrow> bb_state \<Rightarrow> bb_state option" where
  "InodeTableUnlock obj s = do {
     i \<leftarrow> Inodes s obj;
     c_assert (PrivateTable i);
     UnlockInode (st_ino (Attributes i)) s }"

text \<open>Taking the entry out of its bucket.\<close>

definition remove_ite :: "nat \<Rightarrow> inode_table_entry \<Rightarrow> bb_state \<Rightarrow> bb_state" where
  "remove_ite b ite s =
     (let B = bucket s b;
          s = set_bucket b (B\<lparr>ListEntry := remove1 ite (ListEntry B), Count := Count B - 1\<rparr>) s;
          C = bucket s (ite_Bucket ite)
      in if LastInodeTableEntry C = Some ite then set_bucket (ite_Bucket ite) (C\<lparr>LastInodeTableEntry := None\<rparr>) s else s)"

text \<open>The first part of \<^verbatim>\<open>InodeDeallocate\<close>: out of the table, under the exclusive bucket lock, which it releases.\<close>

definition deallocate_entry :: "addr \<Rightarrow> bb_state \<Rightarrow> bb_state option" where
  "deallocate_entry obj s = do {
     i \<leftarrow> Inodes s obj;
     b \<leftarrow> hash_of s (st_ino (Attributes i));
     (status, s) \<leftarrow> InodeTableTrylock obj False s;
     c_assert (status \<noteq> 0);
     (r, s) \<leftarrow> LookupInodeInTableLocked (st_ino (Attributes i)) s;
     ite \<leftarrow> r;
     s \<leftarrow> InodeTableUnlock obj (remove_ite b ite s);
     c_assert (InodeCount (InodeTable s) \<noteq> 0);
     Some (s\<lparr>InodeTable := (InodeTable s)\<lparr>InodeCount := InodeCount (InodeTable s) - 1\<rparr>\<rparr>) }"

text \<open>The second part: extended attributes, the registered component, the memory of the inode.\<close>

definition deallocate_contents :: "addr \<Rightarrow> nat \<Rightarrow> bb_state \<Rightarrow> bb_state option" where
  "deallocate_contents obj len s = do {
     i \<leftarrow> Inodes s obj;
     s \<leftarrow> (if ExtendedAttributeTrie i \<noteq> None \<or> ExtendedAttributes i \<noteq> []
           then BitbucketDestroyExtendedAttributes obj s else Some s);
     i \<leftarrow> Inodes s obj;
     c_assert (ExtendedAttributeTrie i = None);
     c_assert (ExtendedAttributes i = []);
     s \<leftarrow> (case RegisteredAttributes i of
        None \<Rightarrow> Some s
      | Some k \<Rightarrow> do {
          c_assert (InodeLength i = len - public_inode_offset);
          registered_Deallocate k obj (InodeLength i) s });
     i \<leftarrow> Inodes s obj;
     c_assert (InodeLock i = Unlocked);
     Some (s\<lparr>Inodes := (Inodes s)(obj := None)\<rparr>) }"

definition InodeDeallocate :: "addr \<Rightarrow> nat \<Rightarrow> bb_state \<Rightarrow> bb_state option" where
  "InodeDeallocate obj len s = do {
     i \<leftarrow> Inodes s obj;
     c_assert (Length i = len);
     c_assert (PrivateTable i);
     s \<leftarrow> deallocate_entry obj s;
     deallocate_contents obj len s }"

definition InodePrivateObjectAttributes :: "bb_state object_attributes" where
  "InodePrivateObjectAttributes =
     \<lparr>ReasonCount = BITBUCKET_MAX_REFERENCE_REASONS,
      ReferenceReasonsNames =
        [''Lookup'', ''Dir:Parent'', ''Dir:Entry'', ''Dir:Enum'', ''Remove Dirent'', ''Fuse:Lookup'',
         ''Fuse:Open'', ''Fuse:Opendir'', ''Reason8'', ''Reason9'', ''Reason10'', ''Reason11''],
      Initialize = Some InodeInitialize, Deallocate = Some InodeDeallocate,
      Lock = Some InodeTableLock, Trylock = Some InodeTableTrylock, Unlock = Some InodeTableUnlock\<rparr>"

section \<open>Inodes\<close>

definition BitbucketCreateInode :: "registered option \<Rightarrow> nat \<Rightarrow> bb_state \<Rightarrow> (addr \<times> bb_state) option" where
  "BitbucketCreateInode attributes data_length s = do {
     let len = round64 (private_inode_size + data_length);
     c_assert (len < 65536);
     (obj, s) \<leftarrow> BitbucketObjectCreate (Some InodePrivateObjectAttributes) len INODE_LOOKUP_REFERENCE s;
     c_assert (obj \<noteq> NULL);
     refcount \<leftarrow> BitbucketGetObjectReferenceCount obj s;
     c_assert (refcount = 1);
     s \<leftarrow> (case attributes of
        None \<Rightarrow> Some s
      | Some k \<Rightarrow> do {
          i \<leftarrow> Inodes s obj;
          registered_Initialize k obj (len - public_inode_offset) (set_inode obj (i\<lparr>RegisteredAttributes := Some k\<rparr>) s) });
     (result, s) \<leftarrow> BitbucketInsertInodeInTable obj s;
     i \<leftarrow> Inodes s obj;
     let s = set_inode obj (i\<lparr>PrivateTable := True\<rparr>) s;
     refcount \<leftarrow> BitbucketGetObjectReferenceCount obj s;
     c_assert (refcount = 1);
     Some (obj, s) }"

definition BitbucketReferenceInode :: "addr \<Rightarrow> nat \<Rightarrow> bb_state \<Rightarrow> bb_state option" where
  "BitbucketReferenceInode inode reason s = do {
     i \<leftarrow> Inodes s inode;
     BitbucketObjectReference InodePrivateObjectAttributes inode reason s }"

definition BitbucketDereferenceInode :: "addr \<Rightarrow> nat \<Rightarrow> u64 \<Rightarrow> bb_state \<Rightarrow> bb_state option" where
  "BitbucketDereferenceInode inode reason bias s = do {
     i \<leftarrow> Inodes s inode;
     BitbucketObjectDereference InodePrivateObjectAttributes inode reason bias s }"

definition BitbucketGetInodeReferenceCount :: "addr \<Rightarrow> bb_state \<Rightarrow> u64 option" where
  "BitbucketGetInodeReferenceCount inode s = do {
     i \<leftarrow> Inodes s inode;
     BitbucketGetObjectReferenceCount inode s }"

definition BitbucketGetInodeReasonReferenceCount :: "addr \<Rightarrow> nat \<Rightarrow> bb_state \<Rightarrow> u64 option" where
  "BitbucketGetInodeReasonReferenceCount inode reason s = do {
     i \<leftarrow> Inodes s inode;
     BitbucketGetObjectReasonReferenceCount inode reason s }"

text \<open>The address of the inode, or \<^verbatim>\<open>NULL\<close>.\<close>

definition BitbucketLookupInodeInTable :: "u64 \<Rightarrow> bb_state \<Rightarrow> (addr \<times> bb_state) option" where
  "BitbucketLookupInodeInTable ino s = do {
     c_assert (ino \<noteq> 0);
     s \<leftarrow> LockInodeForLookup ino s;
     (r, s) \<leftarrow> LookupInodeInTableLocked ino s;
     (inode, s) \<leftarrow> (case r of
        None \<Rightarrow> Some (NULL, s)
      | Some ite \<Rightarrow> do {
          s \<leftarrow> BitbucketReferenceInode (ite_Inode ite) INODE_LOOKUP_REFERENCE s;
          Some (ite_Inode ite, s) });
     s \<leftarrow> UnlockInode ino s;
     Some (inode, s) }"

end
