(* ===== verification/InodeProps.thy ===== *)
theory InodeProps
  imports InodeTable
begin

text \<open>
  The inode table as a map from inode numbers to inodes, and the reference counts of
  inodes: the callbacks of inodes keep the contract of the object package, so that the
  lemmas of the locale \<^verbatim>\<open>object_callbacks\<close> hold for inodes.
\<close>

section \<open>The table as a map\<close>

definition bucket_ok :: "bb_state \<Rightarrow> nat \<Rightarrow> bool" where
  "bucket_ok s b \<longleftrightarrow> (let B = bucket s b; es = ListEntry B in
     distinct (map (\<lambda>e. ino_of s (ite_Inode e)) es)
     \<and> (\<forall>e\<in>set es. ite_Bucket e = b \<and> (\<exists>ino. ino_of s (ite_Inode e) = Some ino \<and> hash_of s ino = Some b))
     \<and> (\<forall>e. LastInodeTableEntry B = Some e \<longrightarrow> e \<in> set es)
     \<and> Count B = of_nat (length es))"

definition itable_ok :: "bb_state \<Rightarrow> bool" where
  "itable_ok s \<longleftrightarrow> 10 \<le> BucketCountShift (InodeTable s) \<and> BucketCountShift (InodeTable s) < 16
     \<and> BucketCount (InodeTable s) = 2 ^ BucketCountShift (InodeTable s) \<and> (\<forall>b. bucket_ok s b)"

definition table_map :: "bb_state \<Rightarrow> u64 \<Rightarrow> addr option" where
  "table_map s ino = do {
     b \<leftarrow> hash_of s ino;
     r \<leftarrow> find_ite (ino_of s) ino (ListEntry (bucket s b));
     map_option ite_Inode r }"

lemma hash_of_ok:
  assumes "itable_ok s" "ino \<noteq> 0"
  shows "\<exists>b. hash_of s ino = Some b \<and> b < BucketCount (InodeTable s)"
  using assms hash_inode_range unfolding itable_ok_def hash_of_def by auto

lemma find_ite_Some:
  assumes "\<forall>e\<in>set es. number (ite_Inode e) \<noteq> None"
  shows "\<exists>r. find_ite number ino es = Some r
    \<and> (case r of None \<Rightarrow> \<forall>e\<in>set es. number (ite_Inode e) \<noteq> Some ino
        | Some e \<Rightarrow> e \<in> set es \<and> number (ite_Inode e) = Some ino)"
  using assms by (induction es) (auto split: option.splits)

lemma find_ite_unique:
  assumes "distinct (map (\<lambda>e. number (ite_Inode e)) es)" "\<forall>e\<in>set es. number (ite_Inode e) \<noteq> None"
    and "e \<in> set es" "number (ite_Inode e) = Some ino"
  shows "find_ite number ino es = Some (Some e)"
  using assms by (induction es) (auto simp: image_iff)

lemma bucket_ok_numbers: "bucket_ok s b \<Longrightarrow> \<forall>e\<in>set (ListEntry (bucket s b)). ino_of s (ite_Inode e) \<noteq> None"
  unfolding bucket_ok_def Let_def by auto

lemma bucket_ok_find:
  assumes "bucket_ok s b" "e \<in> set (ListEntry (bucket s b))" "ino_of s (ite_Inode e) = Some ino"
  shows "find_ite (ino_of s) ino (ListEntry (bucket s b)) = Some (Some e)"
  using assms bucket_ok_numbers [OF assms(1)] by (intro find_ite_unique) (auto simp: bucket_ok_def Let_def)

lemma table_map_entry:
  assumes "itable_ok s" "hash_of s ino = Some b"
  shows "table_map s ino = Some a \<longleftrightarrow> (\<exists>e \<in> set (ListEntry (bucket s b)). ite_Inode e = a \<and> ino_of s a = Some ino)"
proof -
  have ok: "bucket_ok s b"
    using assms(1) by (simp add: itable_ok_def)
  obtain r where r: "find_ite (ino_of s) ino (ListEntry (bucket s b)) = Some r"
    "case r of None \<Rightarrow> \<forall>e\<in>set (ListEntry (bucket s b)). ino_of s (ite_Inode e) \<noteq> Some ino
     | Some e \<Rightarrow> e \<in> set (ListEntry (bucket s b)) \<and> ino_of s (ite_Inode e) = Some ino"
    using find_ite_Some [OF bucket_ok_numbers [OF ok]] by blast
  have "table_map s ino = Some (ite_Inode e)" if "e \<in> set (ListEntry (bucket s b))" "ino_of s (ite_Inode e) = Some ino" for e
    using bucket_ok_find [OF ok that] assms(2) by (simp add: table_map_def)
  moreover have "\<exists>e \<in> set (ListEntry (bucket s b)). ite_Inode e = a \<and> ino_of s a = Some ino" if "table_map s ino = Some a"
    using that r assms(2) by (auto simp: table_map_def split: option.splits)
  ultimately show ?thesis
    by blast
qed

text \<open>What a lookup changes in a bucket: the statistics and the cache.\<close>

definition same_content :: "inode_bucket \<Rightarrow> inode_bucket \<Rightarrow> bool" where
  "same_content B B' \<longleftrightarrow> ListEntry B' = ListEntry B \<and> BucketLock B' = BucketLock B \<and> Count B' = Count B \<and> MaxCount B' = MaxCount B
     \<and> (\<forall>e. LastInodeTableEntry B' = Some e \<longrightarrow> LastInodeTableEntry B = Some e \<or> e \<in> set (ListEntry B))"

lemma lookup_locked:
  assumes "itable_ok s" "ino \<noteq> 0"
  shows "\<exists>b B r. hash_of s ino = Some b \<and> b < BucketCount (InodeTable s)
    \<and> LookupInodeInTableLocked ino s = Some (r, set_bucket b B s) \<and> same_content (bucket s b) B
    \<and> map_option ite_Inode r = table_map s ino
    \<and> (\<forall>e. r = Some e \<longrightarrow> e \<in> set (ListEntry (bucket s b)) \<and> ino_of s (ite_Inode e) = Some ino \<and> LastInodeTableEntry B = Some e)"
proof -
  obtain b where b: "hash_of s ino = Some b" "b < BucketCount (InodeTable s)"
    using hash_of_ok [OF assms] by blast
  have ok: "bucket_ok s b"
    using assms(1) by (simp add: itable_ok_def)
  obtain r where r: "find_ite (ino_of s) ino (ListEntry (bucket s b)) = Some r"
    "case r of None \<Rightarrow> \<forall>e\<in>set (ListEntry (bucket s b)). ino_of s (ite_Inode e) \<noteq> Some ino
     | Some e \<Rightarrow> e \<in> set (ListEntry (bucket s b)) \<and> ino_of s (ite_Inode e) = Some ino"
    using find_ite_Some [OF bucket_ok_numbers [OF ok]] by blast
  have m: "table_map s ino = map_option ite_Inode r"
    using b r by (simp add: table_map_def)
  show ?thesis
  proof (cases "LastInodeTableEntry (bucket s b)")
    case None
    then show ?thesis
      using assms(2) b r m
      by (cases r) (auto simp: LookupInodeInTableLocked_def same_content_def Let_def)
  next
    case (Some e)
    then have e: "e \<in> set (ListEntry (bucket s b))"
      using ok by (simp add: bucket_ok_def Let_def)
    then obtain n where n: "ino_of s (ite_Inode e) = Some n"
      using ok by (auto simp: bucket_ok_def Let_def)
    show ?thesis
    proof (cases "n = ino")
      case True
      then have "r = Some e"
        using bucket_ok_find [OF ok e] n r(1) by simp
      with True show ?thesis
        using assms(2) b m Some e n by (auto simp: LookupInodeInTableLocked_def same_content_def Let_def)
    next
      case False
      then show ?thesis
        using assms(2) b r m Some n
        by (cases r) (auto simp: LookupInodeInTableLocked_def same_content_def Let_def)
    qed
  qed
qed

section \<open>The callbacks keep the contract of the object package\<close>

definition inode_ready :: "addr \<Rightarrow> bb_state \<Rightarrow> bool" where
  "inode_ready a s \<longleftrightarrow> (\<exists>i b. Inodes s a = Some i \<and> PrivateTable i \<and> hash_of s (st_ino (Attributes i)) = Some b
     \<and> b < BucketCount (InodeTable s) \<and> sharable (BucketLock (bucket s b)))"

definition inode_removable :: "addr \<Rightarrow> bb_state \<Rightarrow> bool" where
  "inode_removable a s \<longleftrightarrow> a \<noteq> NULL \<and> itable_ok s \<and> InodeCount (InodeTable s) \<noteq> 0
     \<and> (\<exists>i b h. Inodes s a = Some i \<and> PrivateTable i \<and> hash_of s (st_ino (Attributes i)) = Some b
          \<and> BucketLock (bucket s b) = Unlocked \<and> \<lparr>ite_Inode = a, ite_Bucket = b\<rparr> \<in> set (ListEntry (bucket s b))
          \<and> Objects s a = Some h \<and> DataLength h = Length i \<and> InodeLength i = Length i - public_inode_offset
          \<and> xattr_ok s i \<and> kind_removable s i \<and> InodeLock i = Unlocked)"

definition bucket_without :: "bb_state \<Rightarrow> addr \<Rightarrow> nat \<Rightarrow> inode_bucket" where
  "bucket_without s a b =
     (let B = bucket s b; ite = \<lparr>ite_Inode = a, ite_Bucket = b\<rparr>
      in B\<lparr>ListEntry := remove1 ite (ListEntry B), Count := Count B - 1, LastInodeTableEntry := None,
           Lookups := Lookups B + 1,
           LastInodeMatch := LastInodeMatch B + (if LastInodeTableEntry B = Some ite then 1 else 0)\<rparr>)"

definition inode_teardown :: "addr \<Rightarrow> bb_state \<Rightarrow> bb_state" where
  "inode_teardown a s =
     (let i = the (Inodes s a); b = the (hash_of s (st_ino (Attributes i)))
      in s\<lparr>InodeTable := (InodeTable s)\<lparr>Buckets := (Buckets (InodeTable s))(b := bucket_without s a b),
                                        InodeCount := InodeCount (InodeTable s) - 1\<rparr>,
           Inodes := (Inodes s)(a := None),
           Xattrs := (\<lambda>x. if x \<in> set (ExtendedAttributes i) then None else Xattrs s x),
           Storage := storage_without i (Storage s)\<rparr>)"

lemma set_bucket_back: "set_bucket b (bucket s b) (set_bucket b B s) = s"
  by (simp add: set_bucket_def bucket_def)

lemma BucketLock_back: "B\<lparr>BucketLock := l, BucketLock := BucketLock B\<rparr> = B"
  by simp

lemma set_header_bucket: "set_header a h (set_bucket b B s) = set_bucket b B (set_header a h s)"
  by (simp add: set_header_def set_bucket_def)

lemma bucket_simps [simp]:
  "bucket (set_bucket b B s) c = (if c = b then B else bucket s c)" "bucket (set_header a h s) = bucket s"
  "hash_of (set_bucket b B s) = hash_of s" "hash_of (set_header a h s) = hash_of s"
  "Inodes (set_bucket b B s) = Inodes s" "Inodes (set_header a h s) = Inodes s"
  "ino_of (set_bucket b B s) = ino_of s" "ino_of (set_header a h s) = ino_of s"
  "BucketCount (InodeTable (set_bucket b B s)) = BucketCount (InodeTable s)" "InodeTable (set_header a h s) = InodeTable s"
  "Objects (set_bucket b B s) = Objects s" "Objects (set_header a h s) = (Objects s)(a \<mapsto> h)"
  "set_bucket b B (set_bucket b C s) = set_bucket b B s"
  by (auto simp: set_bucket_def set_header_def bucket_def hash_of_def ino_of_def fun_eq_iff)

lemmas callback_defs = InodePrivateObjectAttributes_def LockObject_def UnlockObject_def InodeTableLock_def
  InodeTableUnlock_def InodeTableTrylock_def LockInodeForLookup_def LockInodeForChange_def UnlockInode_def
  TryLockInode_def LockInodeBucket_def UnlockInodeBucket_def TryLockInodeBucket_def

lemma inode_shared_section:
  assumes "inode_ready a s" "Objects s a = Some h"
  shows "\<exists>s'. LockObject InodePrivateObjectAttributes a False s = Some s' \<and> Objects s' a = Some h
    \<and> (\<forall>h'. UnlockObject InodePrivateObjectAttributes a (set_header a h' s') = Some (set_header a h' s))"
proof -
  obtain i b where i: "Inodes s a = Some i" "PrivateTable i" "hash_of s (st_ino (Attributes i)) = Some b"
    "b < BucketCount (InodeTable s)" "sharable (BucketLock (bucket s b))"
    using assms(1) unfolding inode_ready_def by blast
  obtain l where l: "rdlock (BucketLock (bucket s b)) = Some (0, l)" "rwunlock l = (0, BucketLock (bucket s b))"
    using i(5) by (rule sharable_rdlock)
  let ?s = "set_bucket b ((bucket s b)\<lparr>BucketLock := l\<rparr>) s"
  have "UnlockObject InodePrivateObjectAttributes a (set_header a h' ?s)
      = Some (set_bucket b (bucket s b) (set_bucket b ((bucket s b)\<lparr>BucketLock := l\<rparr>) (set_header a h' s)))" for h'
    using i l by (simp add: callback_defs set_header_bucket)
  then have "UnlockObject InodePrivateObjectAttributes a (set_header a h' ?s) = Some (set_header a h' s)" for h'
    using set_bucket_back [of b "set_header a h' s"] by simp
  moreover have "LockObject InodePrivateObjectAttributes a False s = Some ?s"
    using i l assms(2) by (simp add: callback_defs)
  ultimately show ?thesis
    using assms(2) by (intro exI [of _ ?s]) simp
qed

lemma LastInodeTableEntry_same:
  "LastInodeTableEntry B = Some e \<Longrightarrow>
   B\<lparr>Lookups := x, LastInodeMatch := y, LastInodeTableEntry := Some e\<rparr> = B\<lparr>Lookups := x, LastInodeMatch := y\<rparr>"
  by (cases B) simp

lemma lookup_present:
  assumes "bucket_ok s b" "ino \<noteq> 0" "hash_of s ino = Some b" "b < BucketCount (InodeTable s)"
    and "e \<in> set (ListEntry (bucket s b))" "ino_of s (ite_Inode e) = Some ino"
  shows "LookupInodeInTableLocked ino s = Some (Some e, set_bucket b ((bucket s b)\<lparr>Lookups := Lookups (bucket s b) + 1,
     LastInodeMatch := LastInodeMatch (bucket s b) + (if LastInodeTableEntry (bucket s b) = Some e then 1 else 0),
     LastInodeTableEntry := Some e\<rparr>) s)"
proof (cases "LastInodeTableEntry (bucket s b)")
  case None
  then show ?thesis
    using assms bucket_ok_find [OF assms(1,5,6)] by (simp add: LookupInodeInTableLocked_def Let_def)
next
  case (Some e')
  then have e': "e' \<in> set (ListEntry (bucket s b))"
    using assms(1) by (simp add: bucket_ok_def Let_def)
  then obtain n where n: "ino_of s (ite_Inode e') = Some n"
    using assms(1) by (auto simp: bucket_ok_def Let_def)
  have hit: "n = ino \<longleftrightarrow> e' = e"
    using bucket_ok_find [OF assms(1) e' n] bucket_ok_find [OF assms(1,5,6)] n assms(6) by auto
  show ?thesis
    using Some n hit assms bucket_ok_find [OF assms(1,5,6)]
    by (auto simp: LookupInodeInTableLocked_def LastInodeTableEntry_same Let_def)
qed

lemma bucket_ok_lock: "bucket_ok s b \<Longrightarrow> bucket_ok (set_bucket b ((bucket s b)\<lparr>BucketLock := l\<rparr>) s) b"
  by (simp add: bucket_ok_def Let_def)

lemma bucket_ok_header [simp]: "bucket_ok (set_header a h s) = bucket_ok s"
  by (simp add: bucket_ok_def fun_eq_iff)

lemma deallocate_entry_ok:
  assumes "bucket_ok s b" "Inodes s a = Some i" "PrivateTable i" "hash_of s (st_ino (Attributes i)) = Some b"
    and "b < BucketCount (InodeTable s)" "BucketLock (bucket s b) = Unlocked"
    and "\<lparr>ite_Inode = a, ite_Bucket = b\<rparr> \<in> set (ListEntry (bucket s b))" "InodeCount (InodeTable s) \<noteq> 0"
  shows "deallocate_entry a (set_bucket b ((bucket s b)\<lparr>BucketLock := Exclusive\<rparr>) s) =
    Some (s\<lparr>InodeTable := (InodeTable s)\<lparr>Buckets := (Buckets (InodeTable s))(b := bucket_without s a b),
                                        InodeCount := InodeCount (InodeTable s) - 1\<rparr>\<rparr>)"
proof -
  define e where "e = \<lparr>ite_Inode = a, ite_Bucket = b\<rparr>"
  define t where "t = set_bucket b ((bucket s b)\<lparr>BucketLock := Exclusive\<rparr>) s"
  define B where "B = (bucket t b)\<lparr>Lookups := Lookups (bucket t b) + 1,
     LastInodeMatch := LastInodeMatch (bucket t b) + (if LastInodeTableEntry (bucket t b) = Some e then 1 else 0),
     LastInodeTableEntry := Some e\<rparr>"
  define C where "C = B\<lparr>ListEntry := remove1 e (ListEntry B), Count := Count B - 1, LastInodeTableEntry := None\<rparr>"
  define u where "u = set_bucket b (bucket_without s a b) s"
  have ino: "ino_of s a = Some (st_ino (Attributes i))" "st_ino (Attributes i) \<noteq> 0"
    using assms(2,4) hash_inode_needs by (auto simp: ino_of_def hash_of_def)
  have t: "Inodes t a = Some i" "hash_of t (st_ino (Attributes i)) = Some b"
    using assms(2,4) by (simp_all add: t_def)
  have L: "LookupInodeInTableLocked (st_ino (Attributes i)) t = Some (Some e, set_bucket b B t)"
    unfolding B_def using assms ino by (intro lookup_present) (auto simp: t_def e_def bucket_ok_lock)
  have R: "remove_ite b e (set_bucket b B t) = set_bucket b C s"
    by (simp add: remove_ite_def Let_def t_def B_def C_def e_def)
  have T: "InodeTableTrylock a False t = Some (EBUSY, t)"
    using assms by (simp add: callback_defs t_def)
  have F: "C\<lparr>BucketLock := Unlocked\<rparr> = bucket_without s a b"
    using assms(6) by (cases "bucket s b") (simp add: bucket_without_def Let_def t_def B_def C_def e_def)
  have U: "InodeTableUnlock a (set_bucket b C s) = Some u"
    using assms F by (simp add: callback_defs C_def B_def t_def u_def)
  have u: "InodeCount (InodeTable u) = InodeCount (InodeTable s)"
    by (simp add: u_def set_bucket_def)
  have "deallocate_entry a t = Some (u\<lparr>InodeTable := (InodeTable u)\<lparr>InodeCount := InodeCount (InodeTable s) - 1\<rparr>\<rparr>)"
    unfolding deallocate_entry_def using t assms(8) by (simp add: T L R U u)
  then show ?thesis
    by (simp add: t_def u_def set_bucket_def)
qed

lemma destroy_attributes:
  assumes "Inodes s a = Some i" "xattr_ok s i"
  shows "(if ExtendedAttributeTrie i \<noteq> None \<or> ExtendedAttributes i \<noteq> [] then BitbucketDestroyExtendedAttributes a s else Some s) =
    Some (set_inode a (i\<lparr>ExtendedAttributes := [], ExtendedAttributeTrie := None\<rparr>)
       (s\<lparr>Xattrs := (\<lambda>x. if x \<in> set (ExtendedAttributes i) then None else Xattrs s x)\<rparr>))"
proof (cases "ExtendedAttributes i = []")
  case True
  then have "ExtendedAttributeTrie i = None"
    using assms(2) by (simp add: xattr_ok_def indexed_def)
  moreover from this True have "i\<lparr>ExtendedAttributes := [], ExtendedAttributeTrie := None\<rparr> = i"
    by (cases i) simp
  ultimately show ?thesis
    using True assms(1) by simp
next
  case False
  then show ?thesis
    using assms(1) destroy_xattrs_all [OF assms(2) [unfolded xattr_ok_def]]
    by (simp add: BitbucketDestroyExtendedAttributes_def set_inode_def)
qed

lemma deallocate_contents_ok:
  assumes "Inodes s a = Some i" "a \<noteq> NULL" "xattr_ok s i" "kind_removable s i" "InodeLock i = Unlocked"
    and "InodeLength i = len - public_inode_offset"
  shows "deallocate_contents a len s =
    Some (s\<lparr>Inodes := (Inodes s)(a := None), Xattrs := (\<lambda>x. if x \<in> set (ExtendedAttributes i) then None else Xattrs s x),
            Storage := storage_without i (Storage s)\<rparr>)"
proof -
  define j where "j = i\<lparr>ExtendedAttributes := [], ExtendedAttributeTrie := None\<rparr>"
  define t where "t = set_inode a j (s\<lparr>Xattrs := (\<lambda>x. if x \<in> set (ExtendedAttributes i) then None else Xattrs s x)\<rparr>)"
  have j: "RegisteredAttributes j = RegisteredAttributes i" "Instance j = Instance i" "Attributes j = Attributes i"
    "InodeLength j = InodeLength i" "InodeLock j = InodeLock i" "ExtendedAttributeTrie j = None" "ExtendedAttributes j = []"
    by (simp_all add: j_def)
  have t: "Inodes t a = Some j" "Storage t = Storage s" "kind_removable t i"
    using assms(4) by (simp_all add: t_def set_inode_def kind_removable_def split: option.splits registered.splits)
  have D: "(if ExtendedAttributeTrie i \<noteq> None \<or> ExtendedAttributes i \<noteq> [] then BitbucketDestroyExtendedAttributes a s else Some s) = Some t"
    using destroy_attributes [OF assms(1,3)] by (simp add: t_def j_def)
  show ?thesis
  proof (cases "RegisteredAttributes i")
    case None
    then have "storage_without i (Storage s) = Storage s"
      by (simp add: storage_without_def)
    then show ?thesis
      unfolding deallocate_contents_def assms(1) bind.simps(2) D using assms(5) None t j
      by simp (simp add: t_def set_inode_def)
  next
    case (Some k)
    then have "registered_Deallocate k a (InodeLength j) t =
        Some (set_inode a (j\<lparr>Instance := NoInstance\<rparr>) (t\<lparr>Storage := storage_without i (Storage s)\<rparr>))"
      using registered_Deallocate_ok [OF t(3) Some t(1) assms(2)] j t(2) by simp
    then show ?thesis
      unfolding deallocate_contents_def assms(1) bind.simps(2) D using assms(5,6) Some t j
      by (simp add: set_inode_def) (simp add: t_def set_inode_def)
  qed
qed

lemma kind_removable_cong: "Storage s = Storage t \<Longrightarrow> kind_removable s i = kind_removable t i"
  by (cases "RegisteredAttributes i"; cases "the (RegisteredAttributes i)") (simp_all add: kind_removable_def)

lemma xattr_ok_cong: "Xattrs s = Xattrs t \<Longrightarrow> xattr_ok s i = xattr_ok t i"
proof -
  assume "Xattrs s = Xattrs t"
  then have "xattr_name_of s = xattr_name_of t"
    by (simp add: xattr_name_of_def fun_eq_iff)
  then show ?thesis
    by (simp add: xattr_ok_def)
qed

lemma inode_exclusive_section:
  assumes "inode_removable a s" "Objects s a = Some h" "DataLength h' = DataLength h"
  shows "\<exists>s' d s''. LockObject InodePrivateObjectAttributes a True s = Some s' \<and> Objects s' a = Some h
    \<and> Deallocate InodePrivateObjectAttributes = Some d \<and> d a (DataLength h) (set_header a h' s') = Some s''
    \<and> s''\<lparr>Objects := (Objects s'')(a := None)\<rparr> = (inode_teardown a s)\<lparr>Objects := (Objects s)(a := None)\<rparr>
    \<and> ObjectCount s'' = ObjectCount s"
proof -
  obtain i b where i: "Inodes s a = Some i" "PrivateTable i" "hash_of s (st_ino (Attributes i)) = Some b"
    "BucketLock (bucket s b) = Unlocked" "\<lparr>ite_Inode = a, ite_Bucket = b\<rparr> \<in> set (ListEntry (bucket s b))"
    "DataLength h = Length i" "InodeLength i = Length i - public_inode_offset"
    "xattr_ok s i" "kind_removable s i" "InodeLock i = Unlocked" "a \<noteq> NULL"
    and tab: "itable_ok s" "InodeCount (InodeTable s) \<noteq> 0"
    using assms(1,2) unfolding inode_removable_def by auto
  have b: "b < BucketCount (InodeTable s)" "bucket_ok s b"
    using tab(1) hash_inode_needs i(3) by (auto simp: itable_ok_def hash_of_def)
  define s1 where "s1 = set_bucket b ((bucket s b)\<lparr>BucketLock := Exclusive\<rparr>) s"
  have L: "LockObject InodePrivateObjectAttributes a True s = Some s1"
    using i b assms(2) by (simp add: callback_defs s1_def)
  define t where "t = set_header a h' s"
  have t: "Inodes t a = Some i" "hash_of t (st_ino (Attributes i)) = Some b" "bucket t b = bucket s b" "bucket_ok t b"
    "InodeTable t = InodeTable s" "Xattrs t = Xattrs s" "Storage t = Storage s" "bucket_without t a b = bucket_without s a b"
    "set_header a h' s1 = set_bucket b ((bucket t b)\<lparr>BucketLock := Exclusive\<rparr>) t"
    using i b by (simp_all add: t_def s1_def set_header_bucket bucket_without_def)
      (simp_all add: set_header_def)
  define u where "u = t\<lparr>InodeTable := (InodeTable t)\<lparr>Buckets := (Buckets (InodeTable t))(b := bucket_without t a b),
                                        InodeCount := InodeCount (InodeTable t) - 1\<rparr>\<rparr>"
  have E: "deallocate_entry a (set_header a h' s1) = Some u"
    unfolding t(9) u_def using i b tab t by (intro deallocate_entry_ok) auto
  have "xattr_ok u i" "kind_removable u i" "Inodes u a = Some i"
    using i xattr_ok_cong [of u s i] kind_removable_cong [of u s i] t by (simp_all add: u_def)
  note u = this
  have ux: "Xattrs u = Xattrs s" "Storage u = Storage s"
    using t by (simp_all add: u_def)
  have D: "deallocate_contents a (Length i) u =
      Some (u\<lparr>Inodes := (Inodes u)(a := None), Xattrs := (\<lambda>x. if x \<in> set (ExtendedAttributes i) then None else Xattrs s x),
            Storage := storage_without i (Storage s)\<rparr>)" (is "_ = Some ?v")
    using deallocate_contents_ok [OF u(3) i(11) u(1,2) i(10,7)] unfolding ux .
  have "InodeDeallocate a (DataLength h) (set_header a h' s1) = Some ?v"
    unfolding InodeDeallocate_def using i t E D by (simp add: s1_def)
  moreover have "?v\<lparr>Objects := (Objects ?v)(a := None)\<rparr> = (inode_teardown a s)\<lparr>Objects := (Objects s)(a := None)\<rparr>"
    using i by (simp add: inode_teardown_def u_def t_def set_header_def bucket_without_def bucket_def Let_def)
  moreover have "Objects s1 a = Some h" "ObjectCount ?v = ObjectCount s"
    using assms(2) by (simp_all add: s1_def u_def t_def set_header_def)
  moreover have "Deallocate InodePrivateObjectAttributes = Some InodeDeallocate"
    by (simp add: InodePrivateObjectAttributes_def)
  ultimately show ?thesis
    using L by blast
qed

interpretation iob: object_callbacks InodePrivateObjectAttributes inode_ready inode_removable inode_teardown
proof (unfold_locales, goal_cases)
  case 1
  show ?case
    by (simp add: InodePrivateObjectAttributes_def)
next
  case (2 a s h)
  then show ?case
    by (rule inode_shared_section)
next
  case (3 a s)
  then obtain i b where "Inodes s a = Some i" "PrivateTable i" "hash_of s (st_ino (Attributes i)) = Some b"
    "BucketLock (bucket s b) = Unlocked" "itable_ok s"
    unfolding inode_removable_def by auto
  moreover from this have "b < BucketCount (InodeTable s)"
    using hash_inode_needs by (auto simp: itable_ok_def hash_of_def)
  ultimately show ?case
    by (simp add: inode_ready_def)
next
  case (4 a s h h')
  then show ?case
    by (rule inode_exclusive_section)
qed

section \<open>The map under the operations\<close>

lemma ino_hash: "hash_of s ino = Some b \<Longrightarrow> ino \<noteq> 0"
  using hash_inode_needs by (auto simp: hash_of_def)

lemma table_map_zero [simp]: "table_map s 0 = None"
  using ino_hash [of s 0] by (cases "hash_of s 0") (auto simp: table_map_def)

lemma table_map_eq:
  assumes "itable_ok s" "itable_ok t" "hash_of t = hash_of s"
    and "\<And>b a ino. hash_of s ino = Some b \<Longrightarrow>
      (\<exists>e\<in>set (ListEntry (bucket t b)). ite_Inode e = a \<and> ino_of t a = Some ino) \<longleftrightarrow>
      (\<exists>e\<in>set (ListEntry (bucket s b)). ite_Inode e = a \<and> ino_of s a = Some ino)"
  shows "table_map t = table_map s"
proof
  fix ino
  show "table_map t ino = table_map s ino"
  proof (cases "hash_of s ino")
    case None
    then show ?thesis
      by (simp add: table_map_def assms(3))
  next
    case (Some b)
    then have "table_map t ino = Some a \<longleftrightarrow> table_map s ino = Some a" for a
      using table_map_entry [OF assms(1)] table_map_entry [OF assms(2)] assms(3,4) by simp
    then show ?thesis
      by (metis not_Some_eq)
  qed
qed

lemma table_ok_same_entries:
  assumes "itable_ok s" "ListEntry B = ListEntry (bucket s b)" "Count B = Count (bucket s b)"
    and "\<And>e. LastInodeTableEntry B = Some e \<Longrightarrow> e \<in> set (ListEntry B)"
  shows "itable_ok (set_bucket b B s)" "table_map (set_bucket b B s) = table_map s"
proof -
  have "bucket_ok (set_bucket b B s) c" for c
    using assms unfolding itable_ok_def bucket_ok_def by (cases "c = b") (simp_all add: Let_def)
  then show ok: "itable_ok (set_bucket b B s)"
    using assms(1) by (simp add: itable_ok_def) (simp add: set_bucket_def)
  show "table_map (set_bucket b B s) = table_map s"
    by (rule table_map_eq [OF assms(1) ok]) (auto simp: assms(2))
qed

lemma table_map_member:
  assumes "itable_ok s" "e \<in> set (ListEntry (bucket s b))"
  shows "\<exists>ino. ino_of s (ite_Inode e) = Some ino \<and> hash_of s ino = Some b \<and> table_map s ino = Some (ite_Inode e) \<and> ite_Bucket e = b"
proof -
  have "bucket_ok s b"
    using assms(1) by (simp add: itable_ok_def)
  then obtain ino where "ino_of s (ite_Inode e) = Some ino" "hash_of s ino = Some b" "ite_Bucket e = b"
    using assms(2) by (auto simp: bucket_ok_def Let_def)
  with table_map_entry [OF assms(1)] assms(2) show ?thesis
    by blast
qed

lemma table_map_ino: "itable_ok s \<Longrightarrow> table_map s ino = Some a \<Longrightarrow> ino_of s a = Some ino"
  using table_map_entry by (cases "hash_of s ino") (auto simp: table_map_def)

text \<open>Only one entry of the table points to an inode.\<close>

lemma entry_unique:
  assumes "itable_ok s" "e \<in> set (ListEntry (bucket s b))" "e' \<in> set (ListEntry (bucket s b'))" "ite_Inode e' = ite_Inode e"
  shows "b' = b \<and> e' = e"
proof -
  obtain ino where i: "ino_of s (ite_Inode e) = Some ino" "hash_of s ino = Some b" "ite_Bucket e = b"
    using table_map_member [OF assms(1,2)] by blast
  obtain ino' where i': "ino_of s (ite_Inode e') = Some ino'" "hash_of s ino' = Some b'" "ite_Bucket e' = b'"
    using table_map_member [OF assms(1,3)] by blast
  have "b' = b"
    using i i' assms(4) by simp
  with i i' assms(4) show ?thesis
    by (cases e; cases e') simp
qed

lemma table_cong:
  assumes "Buckets (InodeTable t) = Buckets (InodeTable s)" "HashSeed (InodeTable t) = HashSeed (InodeTable s)"
    and "BucketCountShift (InodeTable t) = BucketCountShift (InodeTable s)" "BucketCount (InodeTable t) = BucketCount (InodeTable s)"
    and "ino_of t = ino_of s"
  shows "itable_ok t = itable_ok s" "table_map t = table_map s"
proof -
  have "bucket t = bucket s" "hash_of t = hash_of s"
    using assms(1,2,3) by (simp_all add: bucket_def hash_of_def fun_eq_iff)
  then show "itable_ok t = itable_ok s" "table_map t = table_map s"
    using assms(3-5) by (simp_all add: itable_ok_def bucket_ok_def table_map_def [abs_def])
qed

lemma ino_of_set_inode: "Inodes s a = Some i \<Longrightarrow> st_ino (Attributes j) = st_ino (Attributes i) \<Longrightarrow> ino_of (set_inode a j s) = ino_of s"
  by (auto simp: ino_of_def set_inode_def)

lemma count_insertion_simps [simp]:
  "Buckets (count_insertion T) = Buckets T" "HashSeed (count_insertion T) = HashSeed T"
  "BucketCountShift (count_insertion T) = BucketCountShift T" "BucketCount (count_insertion T) = BucketCount T"
  "InodeCount (count_insertion T) = InodeCount T + 1"
  by (simp_all add: count_insertion_def Let_def)

text \<open>A new entry at the head of its bucket.\<close>

lemma table_add:
  assumes "itable_ok s" "hash_of s ino = Some b" "ino_of s a = Some ino" "table_map s ino = None"
    and "ListEntry B = \<lparr>ite_Inode = a, ite_Bucket = b\<rparr> # ListEntry (bucket s b)" "Count B = Count (bucket s b) + 1"
    and "\<And>e. LastInodeTableEntry B = Some e \<Longrightarrow> e \<in> set (ListEntry (bucket s b))"
  shows "itable_ok (set_bucket b B s)" "table_map (set_bucket b B s) = (table_map s)(ino \<mapsto> a)"
proof -
  let ?t = "set_bucket b B s"
  have none: "ino_of s (ite_Inode e) \<noteq> Some ino" if "e \<in> set (ListEntry (bucket s b))" for e
    using table_map_entry [OF assms(1,2)] assms(4) that by auto
  have ok: "bucket_ok s c" for c
    using assms(1) by (simp add: itable_ok_def)
  have "ino_of s a \<notin> (\<lambda>e. ino_of s (ite_Inode e)) ` set (ListEntry (bucket s b))"
    using none unfolding assms(3) by (metis (no_types, lifting) imageE)
  then have "bucket_ok ?t b"
    using ok [of b] assms(2,3,5-7) by (simp add: bucket_ok_def Let_def)
  then have "bucket_ok ?t c" for c
    using ok [of c] by (cases "c = b") (simp_all add: bucket_ok_def)
  then show ok: "itable_ok ?t"
    using assms(1) by (simp add: itable_ok_def) (simp add: set_bucket_def)
  show "table_map ?t = (table_map s)(ino \<mapsto> a)"
  proof
    fix n
    show "table_map ?t n = ((table_map s)(ino \<mapsto> a)) n"
    proof (cases "hash_of s n")
      case None
      then show ?thesis
        using assms(2) by (auto simp: table_map_def)
    next
      case (Some c)
      have "table_map ?t n = Some x \<longleftrightarrow> ((table_map s)(ino \<mapsto> a)) n = Some x" for x
        using table_map_entry [OF ok, of n c x] table_map_entry [OF assms(1) Some, of x] Some assms(2,3,5) none
        by (cases "c = b"; cases "n = ino") auto
      then show ?thesis
        by (metis not_Some_eq)
    qed
  qed
qed

lemma insert_locked_spec:
  assumes "itable_ok s" "hash_of s ino = Some b" "b < BucketCount (InodeTable s)" "ino_of s a = Some ino"
  shows "\<exists>B. insert_locked b \<lparr>ite_Inode = a, ite_Bucket = b\<rparr> ino s = Some (if table_map s ino = None then 0 else - EEXIST, set_bucket b B s)
    \<and> BucketLock B = BucketLock (bucket s b) \<and> itable_ok (set_bucket b B s)
    \<and> table_map (set_bucket b B s) = (if table_map s ino = None then (table_map s)(ino \<mapsto> a) else table_map s)"
proof -
  obtain c B r where L: "hash_of s ino = Some c" "LookupInodeInTableLocked ino s = Some (r, set_bucket c B s)"
    "same_content (bucket s c) B" "map_option ite_Inode r = table_map s ino"
    using lookup_locked [OF assms(1) ino_hash [OF assms(2)]] by blast
  then have [simp]: "c = b"
    using assms(2) by simp
  have ok: "bucket_ok s b"
    using assms(1) by (simp add: itable_ok_def)
  then have last: "e \<in> set (ListEntry (bucket s b))" if "LastInodeTableEntry B = Some e" for e
    using L(3) that by (auto simp: same_content_def bucket_ok_def Let_def)
  show ?thesis
  proof (cases "table_map s ino")
    case None
    define C where "C = B\<lparr>ListEntry := \<lparr>ite_Inode = a, ite_Bucket = b\<rparr> # ListEntry B, Count := Count B + 1\<rparr>"
    define D where "D = (if Count C > MaxCount C then C\<lparr>MaxCount := Count C\<rparr> else C)"
    have D: "ListEntry D = \<lparr>ite_Inode = a, ite_Bucket = b\<rparr> # ListEntry (bucket s b)" "Count D = Count (bucket s b) + 1"
      "LastInodeTableEntry D = LastInodeTableEntry B" "BucketLock D = BucketLock (bucket s b)"
      using L(3) by (simp_all add: D_def C_def same_content_def)
    have "itable_ok (set_bucket b D s)" "table_map (set_bucket b D s) = (table_map s)(ino \<mapsto> a)"
      using last D by (intro table_add [OF assms(1,2,4) None]; simp)+
    moreover have "insert_locked b \<lparr>ite_Inode = a, ite_Bucket = b\<rparr> ino s = Some (0, set_bucket b D s)"
      using None L by (simp add: insert_locked_def D_def C_def Let_def)
    ultimately show ?thesis
      using None D(4) by (intro exI [of _ D]) simp
  next
    case (Some x)
    have "itable_ok (set_bucket b B s)" "table_map (set_bucket b B s) = table_map s"
      using last L(3) by (intro table_ok_same_entries [OF assms(1)]; simp add: same_content_def)+
    then show ?thesis
      using Some L by (intro exI [of _ B]) (auto simp: insert_locked_def same_content_def)
  qed
qed

definition quiet :: "bb_state \<Rightarrow> bool" where
  "quiet s \<longleftrightarrow> (\<forall>b. BucketLock (bucket s b) = Unlocked)"

lemma insert_inode:
  assumes "itable_ok s" "Inodes s a = Some i" "a \<noteq> NULL" "InodeType i \<noteq> BITBUCKET_UNKNOWN_TYPE" "\<not> Table i"
    and ino: "ino = st_ino (Attributes i)" "ino \<noteq> 0" "ino \<noteq> FUSE_ROOT_ID"
    and free: "quiet s"
  shows "\<exists>T. let s' = (set_inode a (i\<lparr>Table := True\<rparr>) s)\<lparr>InodeTable := T\<rparr> in
      BitbucketInsertInodeInTable a s = Some (if table_map s ino = None then 0 else - EEXIST, s')
    \<and> itable_ok s' \<and> table_map s' = (if table_map s ino = None then (table_map s)(ino \<mapsto> a) else table_map s)
    \<and> InodeCount T = InodeCount (InodeTable s) + 1 \<and> quiet s'"
proof -
  obtain b where b: "hash_of s ino = Some b" "b < BucketCount (InodeTable s)"
    using hash_of_ok [OF assms(1) ino(2)] by blast
  define s1 where "s1 = set_bucket b ((bucket s b)\<lparr>BucketLock := Exclusive\<rparr>) s"
  have "bucket_ok s b"
    using assms(1) by (simp add: itable_ok_def)
  then have s1: "itable_ok s1" "table_map s1 = table_map s" "hash_of s1 ino = Some b" "b < BucketCount (InodeTable s1)" "ino_of s1 a = Some ino"
    using b assms(2) ino(1) unfolding s1_def
    by (auto intro!: table_ok_same_entries [OF assms(1)] simp: bucket_ok_def Let_def) (simp add: ino_of_def)
  obtain B where B: "insert_locked b \<lparr>ite_Inode = a, ite_Bucket = b\<rparr> ino s1 = Some (if table_map s ino = None then 0 else - EEXIST, set_bucket b B s1)"
    "BucketLock B = Exclusive" "itable_ok (set_bucket b B s1)"
    "table_map (set_bucket b B s1) = (if table_map s ino = None then (table_map s)(ino \<mapsto> a) else table_map s)"
    using insert_locked_spec [OF s1(1,3,4,5)] s1(2) by (auto simp: s1_def)
  define C where "C = B\<lparr>BucketLock := Unlocked\<rparr>"
  have L: "LockInodeBucket b True s = Some s1"
    using b free by (simp add: LockInodeBucket_def s1_def quiet_def)
  have U: "UnlockInodeBucket b (set_bucket b B s1) = Some (set_bucket b C s)"
    using b B(2) by (simp add: UnlockInodeBucket_def C_def s1_def)
  have ok: "itable_ok (set_bucket b C s)" "table_map (set_bucket b C s) = table_map (set_bucket b B s1)"
  proof -
    have "bucket_ok (set_bucket b B s1) b"
      using B(3) by (simp add: itable_ok_def)
    then have "itable_ok (set_bucket b C (set_bucket b B s1))" "table_map (set_bucket b C (set_bucket b B s1)) = table_map (set_bucket b B s1)"
      using table_ok_same_entries [OF B(3), of C b] by (simp_all add: C_def bucket_ok_def Let_def)
    then show "itable_ok (set_bucket b C s)" "table_map (set_bucket b C s) = table_map (set_bucket b B s1)"
      by (simp_all add: s1_def)
  qed
  define T where "T = count_insertion (InodeTable (set_bucket b C s))"
  let ?s = "(set_inode a (i\<lparr>Table := True\<rparr>) s)\<lparr>InodeTable := T\<rparr>"
  have "BitbucketInsertInodeInTable a s = Some (if table_map s ino = None then 0 else - EEXIST, ?s)"
    unfolding BitbucketInsertInodeInTable_def using assms(2-5) ino b L B(1) U
    by (simp add: T_def Let_def) (simp add: set_inode_def set_bucket_def)
  moreover have "ino_of ?s = ino_of (set_bucket b C s)"
    using assms(2) by (auto simp: ino_of_def set_inode_def set_bucket_def)
  then have "itable_ok ?s = itable_ok (set_bucket b C s)" "table_map ?s = table_map (set_bucket b C s)"
    using table_cong [of ?s "set_bucket b C s"] by (simp_all add: T_def)
  moreover have "quiet ?s"
    using free by (simp add: T_def bucket_def quiet_def) (simp add: set_bucket_def C_def bucket_def)
  moreover have "InodeCount T = InodeCount (InodeTable s) + 1"
    by (simp add: T_def set_bucket_def)
  ultimately show ?thesis
    using ok B(4) by (intro exI [of _ T]) (simp add: Let_def)
qed

lemma ready_quiet:
  assumes "itable_ok s" "quiet s" "Inodes s a = Some i" "PrivateTable i" "st_ino (Attributes i) \<noteq> 0"
  shows "inode_ready a s"
  using hash_of_ok [OF assms(1,5)] assms(2-4) unfolding inode_ready_def quiet_def by fastforce

text \<open>
  The effect of a lookup: statistics of the bucket, and a reference when the number is known.
\<close>

lemma lookup_inode:
  assumes "itable_ok s" "quiet s" "ino \<noteq> 0"
    and known: "\<And>a. table_map s ino = Some a \<Longrightarrow> \<exists>i. Inodes s a = Some i \<and> PrivateTable i \<and> Objects s a = Some (hd' a)
      \<and> header_ok (hd' a)"
  shows "\<exists>b B. let s' = set_bucket b B (case table_map s ino of None \<Rightarrow> s | Some a \<Rightarrow> set_header a (add_reference 0 (hd' a)) s) in
      BitbucketLookupInodeInTable ino s = Some (case table_map s ino of None \<Rightarrow> NULL | Some a \<Rightarrow> a, s')
    \<and> itable_ok s' \<and> table_map s' = table_map s \<and> quiet s' \<and> same_content (bucket s b) B"
proof -
  obtain b where b: "hash_of s ino = Some b" "b < BucketCount (InodeTable s)"
    using hash_of_ok [OF assms(1,3)] by blast
  have okb: "bucket_ok s b"
    using assms(1) by (simp add: itable_ok_def)
  define s1 where "s1 = set_bucket b ((bucket s b)\<lparr>BucketLock := Shared 1\<rparr>) s"
  have L: "LockInodeForLookup ino s = Some s1"
    using b assms(2) by (simp add: LockInodeForLookup_def LockInodeBucket_def s1_def quiet_def)
  have s1: "itable_ok s1" "table_map s1 = table_map s"
    using table_ok_same_entries [OF assms(1), of "(bucket s b)\<lparr>BucketLock := Shared 1\<rparr>" b] okb
    by (simp_all add: s1_def bucket_ok_def Let_def)
  obtain B r where R: "LookupInodeInTableLocked ino s1 = Some (r, set_bucket b B s)" "same_content (bucket s1 b) B"
    "map_option ite_Inode r = table_map s ino"
    using lookup_locked [OF s1(1) assms(3)] b s1(2) by (auto simp: s1_def)
  define C where "C = B\<lparr>BucketLock := Unlocked\<rparr>"
  have "LastInodeTableEntry B = Some e \<Longrightarrow> e \<in> set (ListEntry B)" for e
    using R(2) okb by (auto simp: same_content_def s1_def bucket_ok_def Let_def)
  then have ok: "itable_ok (set_bucket b C s)" "table_map (set_bucket b C s) = table_map s"
    using table_ok_same_entries [OF assms(1), of C b] R(2) by (simp_all add: C_def same_content_def s1_def)
  have U: "UnlockInode ino (set_bucket b B t) = Some (set_bucket b C t)" if "InodeTable t = InodeTable s" for t
    using b R(2) that by (simp add: UnlockInode_def UnlockInodeBucket_def hash_of_def same_content_def s1_def C_def)
  have q: "quiet (set_bucket b C t)" if "InodeTable t = InodeTable s" for t
    using assms(2) that by (auto simp: quiet_def bucket_def set_bucket_def C_def)
  have same: "same_content (bucket s b) C"
    using R(2) assms(2) by (auto simp: same_content_def C_def s1_def quiet_def)
  show ?thesis
  proof (cases "table_map s ino")
    case None
    then have "BitbucketLookupInodeInTable ino s = Some (NULL, set_bucket b C s)"
      using assms(3) L R U by (simp add: BitbucketLookupInodeInTable_def)
    then show ?thesis
      using None ok q same by (intro exI [of _ b] exI [of _ C]) simp
  next
    case (Some a)
    then obtain i e where i: "Inodes s a = Some i" "PrivateTable i" "Objects s a = Some (hd' a)" "header_ok (hd' a)"
      and e: "r = Some e" "ite_Inode e = a"
      using known R(3) by auto
    let ?t = "set_header a (add_reference 0 (hd' a)) s"
    have "ino_of s a = Some ino"
      using table_map_ino [OF assms(1) Some] .
    then have "inode_ready a (set_bucket b B s)"
      unfolding inode_ready_def using i b R(2) by (auto simp: ino_of_def same_content_def s1_def)
    then have "BitbucketReferenceInode a 0 (set_bucket b B s) = Some (set_bucket b B ?t)"
      using iob.reference [of a "set_bucket b B s" "hd' a" 0] i reason_le_total_word [OF i(4)]
      by (simp add: BitbucketReferenceInode_def header_ok_def set_header_bucket)
    then have "BitbucketLookupInodeInTable ino s = Some (a, set_bucket b C ?t)"
      using assms(3) L R e U by (simp add: BitbucketLookupInodeInTable_def)
    moreover have "ino_of (set_bucket b C ?t) = ino_of (set_bucket b C s)" "InodeTable (set_bucket b C ?t) = InodeTable (set_bucket b C s)"
      by (simp, simp add: set_bucket_def)
    then have "itable_ok (set_bucket b C ?t)" "table_map (set_bucket b C ?t) = table_map s"
      using table_cong [of "set_bucket b C ?t" "set_bucket b C s"] ok by simp_all
    ultimately show ?thesis
      using Some q same by (intro exI [of _ b] exI [of _ C]) simp
  qed
qed

lemma bucket_ok_frame:
  assumes "bucket_ok s c" "bucket t c = bucket s c" "hash_of t = hash_of s"
    and "\<forall>e\<in>set (ListEntry (bucket s c)). ino_of t (ite_Inode e) = ino_of s (ite_Inode e)"
  shows "bucket_ok t c"
proof -
  have "map (\<lambda>e. ino_of t (ite_Inode e)) (ListEntry (bucket s c)) = map (\<lambda>e. ino_of s (ite_Inode e)) (ListEntry (bucket s c))"
    using assms(4) by simp
  moreover have "distinct (map (\<lambda>e. ino_of s (ite_Inode e)) (ListEntry (bucket s c)))"
    using assms(1) by (simp add: bucket_ok_def Let_def)
  ultimately have "distinct (map (\<lambda>e. ino_of t (ite_Inode e)) (ListEntry (bucket s c)))"
    by (simp only:)
  then show ?thesis
    using assms by (simp add: bucket_ok_def Let_def)
qed

lemma of_nat_pred: "0 < n \<Longrightarrow> (of_nat (n - Suc 0) :: 'a::ring_1) = of_nat n - 1"
  by (cases n) auto

lemma bucket_ok_remove:
  assumes "bucket_ok s b" "e \<in> set (ListEntry (bucket s b))"
    and "ListEntry B = remove1 e (ListEntry (bucket s b))" "Count B = Count (bucket s b) - 1" "LastInodeTableEntry B = None"
    and "bucket t b = B" "hash_of t = hash_of s" "\<And>x. x \<noteq> ite_Inode e \<Longrightarrow> ino_of t x = ino_of s x"
  shows "bucket_ok t b"
proof -
  let ?es = "ListEntry (bucket s b)"
  have d: "distinct (map (\<lambda>e. ino_of s (ite_Inode e)) ?es)" "Count (bucket s b) = of_nat (length ?es)"
    using assms(1) by (simp_all add: bucket_ok_def Let_def)
  then have "distinct ?es"
    using distinct_map by blast
  have inj: "inj_on (\<lambda>e. ino_of s (ite_Inode e)) (set ?es)"
    using d(1) by (simp add: distinct_map)
  have same: "ino_of t (ite_Inode f) = ino_of s (ite_Inode f)" if "f \<in> set (remove1 e ?es)" for f
  proof -
    have "f \<in> set ?es" "f \<noteq> e"
      using that \<open>distinct ?es\<close> by auto
    then have "ite_Inode f \<noteq> ite_Inode e"
      using inj assms(2) by (metis inj_onD)
    then show ?thesis
      by (rule assms(8))
  qed
  have "map (\<lambda>e. ino_of t (ite_Inode e)) (remove1 e ?es) = map (\<lambda>e. ino_of s (ite_Inode e)) (remove1 e ?es)"
    using same by simp
  moreover have "distinct (map (\<lambda>e. ino_of s (ite_Inode e)) (remove1 e ?es))"
    using inj \<open>distinct ?es\<close> by (auto simp: distinct_map intro: inj_on_subset)
  ultimately have "distinct (map (\<lambda>e. ino_of t (ite_Inode e)) (remove1 e ?es))"
    by (simp only:)
  moreover have "of_nat (length (remove1 e ?es)) = (of_nat (length ?es) - 1 :: u64)"
    using assms(2) length_pos_if_in_set [OF assms(2)] by (simp add: length_remove1 of_nat_pred)
  moreover have "\<forall>f\<in>set (remove1 e ?es). ite_Bucket f = b \<and> (\<exists>ino. ino_of t (ite_Inode f) = Some ino \<and> hash_of t ino = Some b)"
    using assms(1,7) same \<open>distinct ?es\<close> by (auto simp: bucket_ok_def Let_def)
  ultimately show ?thesis
    using assms(3-6) d(2) by (simp add: bucket_ok_def Let_def)
qed

lemma teardown_bucket:
  assumes "Inodes s a = Some i" "hash_of s (st_ino (Attributes i)) = Some b"
  shows "bucket (inode_teardown a s) c = (if c = b then bucket_without s a b else bucket s c)"
    "hash_of (inode_teardown a s) = hash_of s" "ino_of (inode_teardown a s) = (ino_of s)(a := None)"
    "BucketCount (InodeTable (inode_teardown a s)) = BucketCount (InodeTable s)"
    "BucketCountShift (InodeTable (inode_teardown a s)) = BucketCountShift (InodeTable s)"
  using assms by (auto simp: inode_teardown_def bucket_def hash_of_def ino_of_def fun_eq_iff Let_def)

lemma teardown_table:
  assumes "inode_removable a s" "Inodes s a = Some i"
  shows "itable_ok (inode_teardown a s)" "table_map (inode_teardown a s) = (table_map s)(st_ino (Attributes i) := None)"
proof -
  let ?ino = "st_ino (Attributes i)" and ?t = "inode_teardown a s"
  obtain b where b: "hash_of s ?ino = Some b" "\<lparr>ite_Inode = a, ite_Bucket = b\<rparr> \<in> set (ListEntry (bucket s b))" "itable_ok s"
    using assms unfolding inode_removable_def by auto
  note T = teardown_bucket [OF assms(2) b(1)]
  let ?e = "\<lparr>ite_Inode = a, ite_Bucket = b\<rparr>"
  have ok: "bucket_ok s c" for c
    using b(3) by (simp add: itable_ok_def)
  have other: "ite_Inode e \<noteq> a" if "e \<in> set (ListEntry (bucket s c))" "c \<noteq> b \<or> e \<noteq> ?e" for e c
    using entry_unique [OF b(3,2) that(1)] that(2) by auto
  have "bucket_ok ?t c" for c
  proof (cases "c = b")
    case True
    then show ?thesis
      using bucket_ok_remove [OF ok b(2), of "bucket_without s a b" ?t] T by (simp add: bucket_without_def Let_def)
  next
    case False
    show ?thesis
      by (rule bucket_ok_frame [OF ok]) (use False T other in auto)
  qed
  then show t: "itable_ok ?t"
    using b(3) T by (simp add: itable_ok_def)
  show "table_map ?t = (table_map s)(?ino := None)"
  proof
    fix n
    show "table_map ?t n = ((table_map s)(?ino := None)) n"
    proof (cases "hash_of s n")
      case None
      then show ?thesis
        using T(2) by (auto simp: table_map_def)
    next
      case (Some c)
      have "distinct (ListEntry (bucket s b))"
        using ok [of b] by (auto simp: bucket_ok_def Let_def distinct_map)
      then have es: "set (ListEntry (bucket ?t c)) = set (ListEntry (bucket s c)) - (if c = b then {?e} else {})"
        using T(1) by (auto simp: bucket_without_def Let_def)
      have "ino_of s a = Some ?ino"
        using assms(2) by (simp add: ino_of_def)
      note ia = this
      have "table_map ?t n = Some x \<longleftrightarrow> ((table_map s)(?ino := None)) n = Some x" for x
      proof (cases "x = a")
        case True
        have "table_map ?t n \<noteq> Some a"
          using table_map_ino [OF t, of n a] T(3) by auto
        moreover have "n = ?ino" if "table_map s n = Some a"
          using table_map_ino [OF b(3) that] ia by simp
        ultimately show ?thesis
          using True by auto
      next
        case False
        have "table_map ?t n = Some x \<longleftrightarrow> table_map s n = Some x"
          unfolding table_map_entry [OF t, unfolded T(2), OF Some] table_map_entry [OF b(3) Some] T(3) es using False by auto
        moreover have "table_map s ?ino = Some a"
          unfolding table_map_entry [OF b(3,1)] using b(2) ia by (intro bexI [of _ ?e]) auto
        ultimately show ?thesis
          using False by auto
      qed
      then show ?thesis
        by (metis not_Some_eq)
    qed
  qed
qed

section \<open>New inodes\<close>

text \<open>The inode that \<^verbatim>\<open>BitbucketCreateInode\<close> delivers, apart from what a component sets later.\<close>

fun kind_init :: "registered \<Rightarrow> bitbucket_inode \<Rightarrow> bitbucket_inode" where
  "kind_init DirectoryObjectAttributes i =
     i\<lparr>InodeType := BITBUCKET_DIR_TYPE,
       Attributes := (Attributes i)\<lparr>st_mode := st_mode (Attributes i) OR S_IFDIR, st_nlink := 1\<rparr>,
       Instance := Directory \<lparr>Parent = NULL, Entries = [], Children = None\<rparr>\<rparr>"
| "kind_init FileObjectAttributes i =
     i\<lparr>InodeType := BITBUCKET_FILE_TYPE,
       Attributes := (Attributes i)\<lparr>st_mode := st_mode (Attributes i) OR S_IFREG, st_nlink := 0, st_size := 0, st_blocks := 0\<rparr>,
       Instance := File \<lparr>MapName = None, Map = None, Readers = 0, Writers = 0, WaitingReaders = 0, WaitingWriters = 0,
         LockOwnersList = [], LockWaitersList = []\<rparr>\<rparr>"
| "kind_init SymbolicLinkObjectAttributes i =
     i\<lparr>InodeType := BITBUCKET_SYMLINK_TYPE,
       Attributes := (Attributes i)\<lparr>st_mode := st_mode (Attributes i) OR S_IFLNK, st_nlink := 0, st_size := 0, st_blocks := 0\<rparr>,
       Instance := SymbolicLink []\<rparr>"

definition plain_new_inode :: "environment \<Rightarrow> nat \<Rightarrow> nat \<Rightarrow> u64 \<Rightarrow> bitbucket_inode" where
  "plain_new_inode env tick len ino =
     (let now = Clock env (Suc (Suc tick)) in
      \<lparr>Length = len, RegisteredAttributes = None, PrivateTable = False,
       InodeLength = len - public_inode_offset, InodeType = BITBUCKET_UNKNOWN_TYPE, InodeLock = Unlocked,
       Table = False, UuidString = Uuid env tick, Epoch = Random env (Suc tick),
       Attributes = \<lparr>st_ino = ino, st_mode = 0x1FF, st_nlink = 0, st_uid = Uid env, st_gid = Gid env, st_size = 4096,
               st_blksize = 512, st_blocks = 8, st_atim = now, st_mtim = now, st_ctim = now\<rparr>,
       CreationTime = now, ExtendedAttributes = [], ExtendedAttributeTrie = None, Instance = NoInstance\<rparr>)"

definition new_inode :: "registered \<Rightarrow> bb_state \<Rightarrow> nat \<Rightarrow> u64 \<Rightarrow> bitbucket_inode" where
  "new_inode k s len ino =
     (kind_init k ((plain_new_inode (Environment s) (Tick s) len ino)\<lparr>RegisteredAttributes := Some k\<rparr>))\<lparr>Table := True, PrivateTable := True\<rparr>"

definition new_header :: "nat \<Rightarrow> object_header" where
  "new_header len = \<lparr>ReferenceCount = 1, ReferenceReasons = [1, 0, 0, 0, 0, 0, 0, 0, 0, 0, 0, 0], DataLength = len\<rparr>"

lemma new_header_ok: "header_ok (new_header len)"
  by (simp add: header_ok_def new_header_def)

lemma registered_Initialize_ok:
  assumes "Inodes s a = Some i" "a \<noteq> NULL" "InodeType i = BITBUCKET_UNKNOWN_TYPE" "InodeLength i = len"
  shows "registered_Initialize k a len s = Some (set_inode a (kind_init k i) s)"
  using assms by (cases k) (simp_all add: DirectoryInitialize_def FileInitialize_def SymlinkInitialize_def)

definition after_create :: "registered \<Rightarrow> nat \<Rightarrow> u64 \<Rightarrow> inode_numbers \<Rightarrow> nat \<Rightarrow> bb_state \<Rightarrow> bb_state" where
  "after_create k len ino n tick s =
     (let a = next_addr s + header_offset in
      s\<lparr>next_addr := next_addr s + round64 (header_size + len), Objects := (Objects s)(a \<mapsto> new_header len),
        InodeNumbers := n, Tick := tick, ObjectCount := ObjectCount s + 1,
        Inodes := (Inodes s)(a \<mapsto> new_inode k s len ino)\<rparr>)"

lemma create_object:
  assumes "get_new_inode_number (Random (Environment s)) (Suc (Suc (Suc (Tick s)))) (InodeNumbers s) = Some (ino, n, tick)"
  shows "BitbucketObjectCreate (Some InodePrivateObjectAttributes) len 0 s =
    Some (next_addr s + header_offset,
      set_inode (next_addr s + header_offset) (plain_new_inode (Environment s) (Tick s) len ino)
        (s\<lparr>next_addr := next_addr s + round64 (header_size + len), Objects := (Objects s)(next_addr s + header_offset \<mapsto> new_header len),
           InodeNumbers := n, Tick := tick, ObjectCount := ObjectCount s + 1\<rparr>))"
  using assms
  by (simp add: BitbucketObjectCreate_def malloc_def InodePrivateObjectAttributes_def InodeInitialize_def
      BitbucketInitializeExtendedAttributes_def set_inode_def IncrementObjectCount_def plain_new_inode_def new_header_def
      numeral_eq_Suc Let_def)

lemma table_frame:
  assumes "itable_ok s" "InodeTable t = InodeTable s" "\<And>x. ino_of s x \<noteq> None \<Longrightarrow> ino_of t x = ino_of s x"
  shows "itable_ok t" "table_map t = table_map s"
proof -
  have h: "hash_of t = hash_of s" "bucket t = bucket s"
    using assms(2) by (simp_all add: hash_of_def bucket_def fun_eq_iff)
  have ok: "bucket_ok s c" for c
    using assms(1) by (simp add: itable_ok_def)
  have same: "\<forall>e\<in>set (ListEntry (bucket s c)). ino_of t (ite_Inode e) = ino_of s (ite_Inode e)" for c
    using bucket_ok_numbers [OF ok] assms(3) by blast
  then have "bucket_ok t c" for c
    by (intro bucket_ok_frame [OF ok]) (simp_all add: h)
  then show t: "itable_ok t"
    using assms(1,2) by (simp add: itable_ok_def)
  show "table_map t = table_map s"
    by (rule table_map_eq [OF assms(1) t h(1)]) (use same h(2) in auto)
qed

lemma create_inode:
  assumes ok: "itable_ok s" "quiet s"
    and new: "get_new_inode_number (Random (Environment s)) (Suc (Suc (Suc (Tick s)))) (InodeNumbers s) = Some (ino, n, tick)"
    and ino: "ino \<noteq> 0" "ino \<noteq> FUSE_ROOT_ID" "table_map s ino = None"
    and a: "a = next_addr s + header_offset" "Inodes s a = None"
    and len: "len = round64 (private_inode_size + dl)" "len < 65536"
  shows "\<exists>T. let s' = (after_create k len ino n tick s)\<lparr>InodeTable := T\<rparr> in
    BitbucketCreateInode (Some k) dl s = Some (a, s') \<and> itable_ok s' \<and> quiet s' \<and> table_map s' = (table_map s)(ino \<mapsto> a)
    \<and> InodeCount T = InodeCount (InodeTable s) + 1"
proof -
  define i where "i = (plain_new_inode (Environment s) (Tick s) len ino)\<lparr>RegisteredAttributes := Some k\<rparr>"
  define t where "t = s\<lparr>next_addr := next_addr s + round64 (header_size + len), Objects := (Objects s)(a \<mapsto> new_header len),
           InodeNumbers := n, Tick := tick, ObjectCount := ObjectCount s + 1\<rparr>"
  have C: "BitbucketObjectCreate (Some InodePrivateObjectAttributes) len 0 s =
      Some (a, set_inode a (plain_new_inode (Environment s) (Tick s) len ino) t)"
    using create_object [OF new, of len] a(1) by (simp add: t_def)
  have i: "InodeType i = BITBUCKET_UNKNOWN_TYPE" "InodeLength i = len - public_inode_offset" "a \<noteq> NULL" "st_ino (Attributes i) = ino" "\<not> Table i"
    using a(1) by (simp_all add: i_def plain_new_inode_def Let_def)
  define j where "j = kind_init k i"
  have j: "InodeType j \<noteq> BITBUCKET_UNKNOWN_TYPE" "st_ino (Attributes j) = ino" "\<not> Table j"
    using i by (cases k; simp add: j_def)+
  define u where "u = set_inode a j t"
  have "registered_Initialize k a (len - public_inode_offset) (set_inode a i t) = Some u"
    using registered_Initialize_ok [of "set_inode a i t" a i "len - public_inode_offset" k] i
    by (simp add: u_def j_def set_inode_def)
  note I = this
  have iu: "ino_of u = (ino_of s)(a \<mapsto> ino)"
    using j by (auto simp: u_def t_def ino_of_def set_inode_def)
  have u: "InodeTable u = InodeTable s" "Inodes u a = Some j" "Objects u a = Some (new_header len)"
    by (simp_all add: u_def t_def set_inode_def)
  have "ino_of u x = ino_of s x" if "ino_of s x \<noteq> None" for x
    using that iu a(2) by (cases "x = a") (auto simp: ino_of_def)
  then have tab: "itable_ok u" "table_map u = table_map s"
    using table_frame [OF ok(1) u(1)] by blast+
  have "quiet u"
    using ok(2) u(1) by (simp add: quiet_def bucket_def)
  note ins = insert_inode [OF tab(1) u(2) i(3) j(1,3) j(2) [symmetric] ino(1,2) this, unfolded tab(2), simplified ino(3), simplified, unfolded Let_def]
  then obtain T where T: "BitbucketInsertInodeInTable a u = Some (0, (set_inode a (j\<lparr>Table := True\<rparr>) u)\<lparr>InodeTable := T\<rparr>)"
    "itable_ok ((set_inode a (j\<lparr>Table := True\<rparr>) u)\<lparr>InodeTable := T\<rparr>)" "quiet ((set_inode a (j\<lparr>Table := True\<rparr>) u)\<lparr>InodeTable := T\<rparr>)"
    "table_map ((set_inode a (j\<lparr>Table := True\<rparr>) u)\<lparr>InodeTable := T\<rparr>) = (table_map s)(ino \<mapsto> a)"
    "InodeCount T = InodeCount (InodeTable s) + 1"
    unfolding u(1) by blast
  let ?v = "(set_inode a (j\<lparr>Table := True\<rparr>) u)\<lparr>InodeTable := T\<rparr>"
  let ?w = "(after_create k len ino n tick s)\<lparr>InodeTable := T\<rparr>"
  have w: "?w = set_inode a (j\<lparr>Table := True, PrivateTable := True\<rparr>) ?v"
    using a(1) by (simp add: after_create_def new_inode_def j_def i_def u_def t_def set_inode_def Let_def)
  have "BitbucketCreateInode (Some k) dl s = Some (a, ?w)"
    unfolding BitbucketCreateInode_def w using C I T(1) i(3) len u
    by (simp add: i_def Let_def BitbucketGetObjectReferenceCount_def new_header_def set_inode_def t_def)
  moreover have "ino_of ?w = ino_of ?v"
    unfolding w by (rule ino_of_set_inode [of _ _ "j\<lparr>Table := True\<rparr>"]) (simp_all add: set_inode_def)
  then have "itable_ok ?w" "table_map ?w = (table_map s)(ino \<mapsto> a)" "quiet ?w"
    using table_cong [of ?w ?v] T by (simp_all add: quiet_def bucket_def)
  ultimately show ?thesis
    using T(5) by (intro exI [of _ T]) (simp add: Let_def)
qed

lemma removableI:
  assumes "itable_ok s" "quiet s" "a \<noteq> NULL" "Inodes s a = Some i" "PrivateTable i" "table_map s (st_ino (Attributes i)) = Some a"
    and "InodeCount (InodeTable s) \<noteq> 0" "Objects s a = Some h" "DataLength h = Length i" "InodeLength i = Length i - public_inode_offset"
    and "xattr_ok s i" "kind_removable s i" "InodeLock i = Unlocked"
  shows "inode_removable a s"
proof -
  have "st_ino (Attributes i) \<noteq> 0"
    using assms(6) by (metis table_map_zero option.distinct(1))
  then obtain b where b: "hash_of s (st_ino (Attributes i)) = Some b"
    using hash_of_ok [OF assms(1)] by blast
  obtain e where e: "e \<in> set (ListEntry (bucket s b))" "ite_Inode e = a"
    using table_map_entry [OF assms(1) b, of a] assms(6) by blast
  have "ite_Bucket e = b"
    using table_map_member [OF assms(1) e(1)] by blast
  with e(2) have "e = \<lparr>ite_Inode = a, ite_Bucket = b\<rparr>"
    by (cases e) simp
  with e(1) have "\<lparr>ite_Inode = a, ite_Bucket = b\<rparr> \<in> set (ListEntry (bucket s b))"
    by simp
  with assms b show ?thesis
    unfolding inode_removable_def quiet_def by blast
qed

text \<open>An empty file system, and the state after the creation of one file inode.\<close>

definition start_state :: bb_state where
  "start_state = \<lparr>Objects = Map.empty, ObjectCount = 0, DefaultObjectLock = Unlocked, next_addr = 4096,
     Inodes = Map.empty, Dirents = Map.empty, Xattrs = Map.empty,
     InodeTable = \<lparr>BucketCount = 1024, BucketCountShift = 10, InodeCount = 0, MaxInodeCount = 0, HashSeed = 1,
       Buckets = (\<lambda>b. \<lparr>ListEntry = [], BucketLock = Unlocked, Count = 0, LastInodeTableEntry = None, Lookups = 0,
         FailedLookups = 0, LastInodeMatch = 0, MaxCount = 0\<rparr>)\<rparr>,
     InodeNumbers = \<lparr>initialized = False, last_inode_number = 0, inode_bias = 0\<rparr>, Storage = Map.empty,
     VerifyDirectoriesEnabled = False,
     Environment = \<lparr>Clock = (\<lambda>k. \<lparr>tv_sec = int k, tv_nsec = 0\<rparr>), Random = (\<lambda>k. 9), Uuid = (\<lambda>k. ''uuid''), Uid = 0, Gid = 0\<rparr>,
     Tick = 0\<rparr>"

lemma start_ok: "itable_ok start_state" "quiet start_state" "table_map start_state = Map.empty"
  by (simp_all add: itable_ok_def bucket_ok_def start_state_def quiet_def bucket_def table_map_def fun_eq_iff split: bind_splits)

lemma start_number:
  "get_new_inode_number (Random (Environment start_state)) (Suc (Suc (Suc (Tick start_state)))) (InodeNumbers start_state)
     = Some (9, \<lparr>initialized = True, last_inode_number = 18, inode_bias = 9\<rparr>, 5)"
  by (simp add: get_new_inode_number_def start_state_def draw_bias.simps [of _ "Suc (Suc (Suc (Suc 0)))"] fetch_number_spec)

lemma start_created:
  obtains s where "BitbucketCreateInode (Some FileObjectAttributes) 0 start_state = Some (4672, s)" "itable_ok s" "quiet s"
    "Inodes s = [4672 \<mapsto> new_inode FileObjectAttributes start_state 960 9]" "Objects s = [4672 \<mapsto> new_header 960]"
    "table_map s = [9 \<mapsto> 4672]" "InodeCount (InodeTable s) = 1"
proof -
  have len: "round64 (private_inode_size + 0) = 960"
    by (simp add: round64_def)
  have a: "(4672::nat) = next_addr start_state + header_offset" "Inodes start_state 4672 = None"
    by (simp_all add: start_state_def)
  obtain T where "let s' = (after_create FileObjectAttributes 960 9 \<lparr>initialized = True, last_inode_number = 18, inode_bias = 9\<rparr> 5 start_state)\<lparr>InodeTable := T\<rparr> in
    BitbucketCreateInode (Some FileObjectAttributes) 0 start_state = Some (4672, s') \<and> itable_ok s' \<and> quiet s'
    \<and> table_map s' = (table_map start_state)(9 \<mapsto> 4672) \<and> InodeCount T = InodeCount (InodeTable start_state) + 1"
    using create_inode [OF start_ok(1,2) start_number _ _ _ a len [symmetric], of FileObjectAttributes] start_ok(3) by auto
  then show ?thesis
    using that start_ok(3) by (simp add: Let_def after_create_def) (simp add: start_state_def)
qed

lemma new_inode_fields [simp]:
  "PrivateTable (new_inode k s len ino)" "Table (new_inode k s len ino)" "st_ino (Attributes (new_inode k s len ino)) = ino"
  "InodeLock (new_inode k s len ino) = Unlocked" "Length (new_inode k s len ino) = len"
  "InodeLength (new_inode k s len ino) = len - public_inode_offset" "ExtendedAttributes (new_inode k s len ino) = []"
  "ExtendedAttributeTrie (new_inode k s len ino) = None" "RegisteredAttributes (new_inode k s len ino) = Some k"
  by (cases k; simp add: new_inode_def plain_new_inode_def Let_def)+

lemma new_header_fields [simp]:
  "ReferenceCount (new_header len) = 1" "DataLength (new_header len) = len" "ReferenceReasons (new_header len) ! 0 = 1"
  "0 < r \<Longrightarrow> r < 12 \<Longrightarrow> ReferenceReasons (new_header len) ! r = 0"
  by (auto simp: new_header_def less_Suc_eq numeral_eq_Suc)

lemma start_created_removable:
  assumes "itable_ok s" "quiet s" "Inodes s = [4672 \<mapsto> new_inode FileObjectAttributes start_state 960 9]"
    and "Objects s = [4672 \<mapsto> new_header 960]" "table_map s = [9 \<mapsto> 4672]" "InodeCount (InodeTable s) = 1"
  shows "inode_removable 4672 s"
  using assms
  by (intro removableI [of s 4672 "new_inode FileObjectAttributes start_state 960 9" "new_header 960"])
    (simp_all add: new_inode_def plain_new_inode_def new_header_def kind_removable_def map_releasable_def xattr_ok_def Let_def)

section \<open>Properties\<close>

text \<open>
  C13: Reference counts of inodes.  While no bucket lock is held, taking a reference adds one
  to the total and to its reason and changes nothing else; dropping some references of a
  reason, but not the last ones of the inode, subtracts them from both and changes nothing
  else; the total stays the sum of the reasons.  Dropping more than the reason holds
  aborts.
\<close>
theorem inode_reference_counting:
  assumes "itable_ok s" "quiet s" "Inodes s a = Some i" "PrivateTable i" "st_ino (Attributes i) \<noteq> 0"
    and "Objects s a = Some h" "header_ok h" "reason < 12"
  shows "(ReferenceReasons h ! reason \<noteq> - 1 \<longrightarrow>
        BitbucketReferenceInode a reason s = Some (set_header a (add_reference reason h) s) \<and> header_ok (add_reference reason h))
    \<and> (bias < ReferenceCount h \<and> bias \<le> ucast (ReferenceReasons h ! reason) \<longrightarrow>
        BitbucketDereferenceInode a reason bias s = Some (set_header a (sub_reason reason bias (sub_count bias h)) s)
        \<and> header_ok (sub_reason reason bias (sub_count bias h)))
    \<and> (\<not> bias \<le> ucast (ReferenceReasons h ! reason) \<longrightarrow> BitbucketDereferenceInode a reason bias s = None)"
proof -
  have ready: "inode_ready a s"
    by (rule ready_quiet [OF assms(1-5)])
  have "ReferenceCount h \<noteq> 0"
    using assms(7) by (simp add: header_ok_def)
  then have "BitbucketReferenceInode a reason s = Some (set_header a (add_reference reason h) s)"
    using iob.reference [OF ready assms(6,8)] reason_le_total_word [OF assms(7,8)] assms(3)
    by (simp add: BitbucketReferenceInode_def)
  moreover have "BitbucketDereferenceInode a reason bias s = Some (set_header a (sub_reason reason bias (sub_count bias h)) s)"
    if "bias < ReferenceCount h" "bias \<le> ucast (ReferenceReasons h ! reason)"
    using iob.dereference_keeps [OF ready assms(6,8) that] assms(3) by (simp add: BitbucketDereferenceInode_def)
  moreover have "BitbucketDereferenceInode a reason bias s = None" if "\<not> bias \<le> ucast (ReferenceReasons h ! reason)"
    using that assms(3,6) by (auto simp: BitbucketDereferenceInode_def BitbucketObjectDereference_def)
  ultimately show ?thesis
    using header_ok_add [OF assms(7,8)] header_ok_sub [OF assms(7,8)] by blast
qed

theorem inode_reference_counting_witness:
  "\<exists>a s. BitbucketCreateInode (Some FileObjectAttributes) 0 start_state = Some (a, s)
     \<and> BitbucketReferenceInode a INODE_FUSE_OPEN_REFERENCE s = Some (set_header a (add_reference 6 (new_header 960)) s)
     \<and> BitbucketDereferenceInode a INODE_FUSE_OPEN_REFERENCE 1 s = None"
proof -
  obtain s where s: "BitbucketCreateInode (Some FileObjectAttributes) 0 start_state = Some (4672, s)" "itable_ok s" "quiet s"
    "Inodes s = [4672 \<mapsto> new_inode FileObjectAttributes start_state 960 9]" "Objects s = [4672 \<mapsto> new_header 960]"
    by (rule start_created)
  then show ?thesis
    using inode_reference_counting [of s 4672 "new_inode FileObjectAttributes start_state 960 9" "new_header 960" 6 1]
    by (auto simp: new_header_ok)
qed

text \<open>
  C14: Dropping the last references of an inode frees it: the object and the inode are gone,
  the number of objects and the number of inodes in the table go down by one, its inode
  number is unknown to the table and every other number is found as before, its extended
  attributes are freed, and the table stays consistent.
\<close>
theorem last_reference_frees_inode:
  assumes "inode_removable a s" "Inodes s a = Some i" "Objects s a = Some h" "reason < 12"
    and "ucast (ReferenceReasons h ! reason) = ReferenceCount h"
  shows "\<exists>s'. BitbucketDereferenceInode a reason (ReferenceCount h) s = Some s'
    \<and> Objects s' = (Objects s)(a := None) \<and> Inodes s' = (Inodes s)(a := None)
    \<and> BitbucketObjectCount s' = BitbucketObjectCount s - 1 \<and> BitbucketGetInodeTableCount s' = BitbucketGetInodeTableCount s - 1
    \<and> itable_ok s' \<and> table_map s' = (table_map s)(st_ino (Attributes i) := None)
    \<and> (\<forall>x \<in> set (ExtendedAttributes i). Xattrs s' x = None)"
proof -
  let ?t = "inode_teardown a s"
  let ?s = "?t\<lparr>Objects := (Objects s)(a := None), ObjectCount := ObjectCount s - 1\<rparr>"
  have "BitbucketDereferenceInode a reason (ReferenceCount h) s = Some ?s"
    using iob.dereference_frees [OF assms(1,3,4) refl] assms(2,5) by (simp add: BitbucketDereferenceInode_def)
  moreover have "ino_of ?s = ino_of ?t"
    by (simp add: ino_of_def fun_eq_iff)
  then have "itable_ok ?s" "table_map ?s = (table_map s)(st_ino (Attributes i) := None)"
    using table_cong [of ?s ?t] teardown_table [OF assms(1,2)] by simp_all
  moreover obtain b where "hash_of s (st_ino (Attributes i)) = Some b"
    using assms(1,2) by (auto simp: inode_removable_def)
  then have "Inodes ?s = (Inodes s)(a := None)" "\<forall>x \<in> set (ExtendedAttributes i). Xattrs ?s x = None"
    "InodeCount (InodeTable ?s) = InodeCount (InodeTable s) - 1"
    using assms(2) by (simp_all add: inode_teardown_def Let_def)
  ultimately show ?thesis
    by (intro exI [of _ ?s]) (simp add: BitbucketObjectCount_def BitbucketGetInodeTableCount_def)
qed

theorem last_reference_frees_inode_witness:
  "\<exists>a s s'. BitbucketCreateInode (Some FileObjectAttributes) 0 start_state = Some (a, s)
     \<and> BitbucketDereferenceInode a INODE_LOOKUP_REFERENCE 1 s = Some s' \<and> Inodes s' = Map.empty \<and> table_map s' = Map.empty"
proof -
  obtain s where s: "BitbucketCreateInode (Some FileObjectAttributes) 0 start_state = Some (4672, s)" "itable_ok s" "quiet s"
    "Inodes s = [4672 \<mapsto> new_inode FileObjectAttributes start_state 960 9]" "Objects s = [4672 \<mapsto> new_header 960]"
    "table_map s = [9 \<mapsto> 4672]" "InodeCount (InodeTable s) = 1"
    by (rule start_created)
  then show ?thesis
    using last_reference_frees_inode [OF start_created_removable [OF s(2-7)], of "new_inode FileObjectAttributes start_state 960 9" "new_header 960" 0]
    by auto
qed

text \<open>
  C16: Inserting an inode binds its number in the table when the number is free; when the
  number is taken the result is minus EEXIST and the map does not change, but the inode is
  still marked as being in the table and the table still counts it.
\<close>
theorem inode_table_insert:
  assumes "itable_ok s" "quiet s" "Inodes s a = Some i" "a \<noteq> NULL" "InodeType i \<noteq> BITBUCKET_UNKNOWN_TYPE" "\<not> Table i"
    and "st_ino (Attributes i) \<noteq> 0" "st_ino (Attributes i) \<noteq> FUSE_ROOT_ID"
  shows "\<exists>s'. BitbucketInsertInodeInTable a s = Some (if table_map s (st_ino (Attributes i)) = None then 0 else - EEXIST, s')
    \<and> itable_ok s' \<and> quiet s' \<and> Inodes s' = (Inodes s)(a \<mapsto> i\<lparr>Table := True\<rparr>)
    \<and> table_map s' = (if table_map s (st_ino (Attributes i)) = None then (table_map s)(st_ino (Attributes i) \<mapsto> a) else table_map s)
    \<and> BitbucketGetInodeTableCount s' = BitbucketGetInodeTableCount s + 1"
  using insert_inode [OF assms(1,3-6) refl assms(7,8,2)]
  by (auto simp: Let_def set_inode_def BitbucketGetInodeTableCount_def)

theorem inode_table_insert_witness:
  "\<exists>s' s''. BitbucketInsertInodeInTable 64 (start_state\<lparr>Inodes := [64 \<mapsto> plain_inode, 128 \<mapsto> plain_inode]\<rparr>) = Some (0, s')
     \<and> table_map s' = [7 \<mapsto> 64] \<and> BitbucketGetInodeTableCount s' = 1
     \<and> BitbucketInsertInodeInTable 128 s' = Some (- EEXIST, s'') \<and> table_map s'' = [7 \<mapsto> 64] \<and> BitbucketGetInodeTableCount s'' = 2"
proof -
  let ?s = "start_state\<lparr>Inodes := [64 \<mapsto> plain_inode, 128 \<mapsto> plain_inode]\<rparr>"
  have s: "itable_ok ?s" "quiet ?s" "table_map ?s = Map.empty" "BitbucketGetInodeTableCount ?s = 0"
    by (simp_all add: itable_ok_def bucket_ok_def start_state_def quiet_def bucket_def table_map_def fun_eq_iff BitbucketGetInodeTableCount_def split: bind_splits)
  have i: "st_ino (Attributes plain_inode) = 7" "InodeType plain_inode \<noteq> BITBUCKET_UNKNOWN_TYPE" "\<not> Table plain_inode"
    by (simp_all add: plain_inode_def)
  obtain s' where s': "BitbucketInsertInodeInTable 64 ?s = Some (0, s')" "itable_ok s'" "quiet s'" "table_map s' = [7 \<mapsto> 64]"
    "Inodes s' 128 = Some plain_inode" "BitbucketGetInodeTableCount s' = 1"
    using inode_table_insert [OF s(1,2), of 64 plain_inode] s(3,4) i by auto
  then show ?thesis
    using inode_table_insert [OF s'(2,3,5)] i by auto
qed

text \<open>
  C15: A lookup returns the inode that the table maps the number to and takes a lookup
  reference on it, or returns null when the number is unknown; it changes neither the map
  nor any other object, and releases the bucket lock.
\<close>
theorem inode_table_lookup:
  assumes "itable_ok s" "quiet s" "ino \<noteq> 0"
    and "\<forall>a. table_map s ino = Some a \<longrightarrow> (\<exists>i h. Inodes s a = Some i \<and> PrivateTable i \<and> Objects s a = Some h \<and> header_ok h)"
  shows "\<exists>s'. BitbucketLookupInodeInTable ino s = Some (case table_map s ino of None \<Rightarrow> NULL | Some a \<Rightarrow> a, s')
    \<and> itable_ok s' \<and> quiet s' \<and> table_map s' = table_map s \<and> Inodes s' = Inodes s
    \<and> Objects s' = (case table_map s ino of None \<Rightarrow> Objects s
         | Some a \<Rightarrow> (Objects s)(a \<mapsto> add_reference INODE_LOOKUP_REFERENCE (the (Objects s a))))"
proof -
  have "\<exists>i. Inodes s a = Some i \<and> PrivateTable i \<and> Objects s a = Some (the (Objects s a)) \<and> header_ok (the (Objects s a))"
    if "table_map s ino = Some a" for a
    using assms(4) that by auto
  from lookup_inode [OF assms(1-3), of "\<lambda>a. the (Objects s a)", OF this] show ?thesis
    by (cases "table_map s ino") (auto simp: Let_def)
qed


theorem inode_table_lookup_witness:
  "\<exists>a s s'. BitbucketCreateInode (Some FileObjectAttributes) 0 start_state = Some (a, s)
     \<and> BitbucketLookupInodeInTable 9 s = Some (a, s') \<and> Objects s' = [a \<mapsto> add_reference 0 (new_header 960)]"
proof -
  obtain s where s: "BitbucketCreateInode (Some FileObjectAttributes) 0 start_state = Some (4672, s)" "itable_ok s" "quiet s"
    "Inodes s = [4672 \<mapsto> new_inode FileObjectAttributes start_state 960 9]" "Objects s = [4672 \<mapsto> new_header 960]"
    "table_map s = [9 \<mapsto> 4672]"
    by (rule start_created)
  then show ?thesis
    using inode_table_lookup [OF s(2,3), of 9] by (auto simp: new_header_ok)
qed

lemma empty_table:
  assumes "10 \<le> BucketCountShift (InodeTable s)" "BucketCountShift (InodeTable s) < 16"
    and "BucketCount (InodeTable s) = 2 ^ BucketCountShift (InodeTable s)"
    and "\<And>b. ListEntry (Buckets (InodeTable s) b) = [] \<and> BucketLock (Buckets (InodeTable s) b) = Unlocked
      \<and> Count (Buckets (InodeTable s) b) = 0 \<and> LastInodeTableEntry (Buckets (InodeTable s) b) = None"
  shows "itable_ok s \<and> quiet s \<and> table_map s = Map.empty"
  using assms by (auto simp: itable_ok_def bucket_ok_def quiet_def bucket_def table_map_def fun_eq_iff split: bind_splits)

lemma fresh_table:
  obtains T k where "BitbucketCreateInodeTable mem n seed = Some T" "BucketCount T = 2 ^ k" "BucketCountShift T = k" "min n 65536 \<le> 2 ^ k" "10 \<le> k"
    "n \<le> 32768 \<longleftrightarrow> k < 16" "InodeCount T = 0"
    "\<forall>b. ListEntry (Buckets T b) = [] \<and> BucketLock (Buckets T b) = Unlocked \<and> Count (Buckets T b) = 0 \<and> LastInodeTableEntry (Buckets T b) = None"
proof -
  obtain m k where mk: "scale_buckets n = (m, k)" "m = 2 ^ k" "min n 65536 \<le> m" "10 \<le> k" "k \<le> 16" "n \<le> 32768 \<longleftrightarrow> k < 16"
    by (cases "scale_buckets n") (auto simp: scale_buckets_def split: if_splits)
  have "m \<le> 2 ^ 16"
    unfolding mk(2) using mk(5) by (intro power_increasing) auto
  then have "m < 2 ^ 24"
    by simp
  then show ?thesis
    using mk that by (auto simp: BitbucketCreateInodeTable_def Let_def split: prod.splits)
qed

text \<open>
  C35: Creating an inode table always succeeds, with a power of two of buckets that reaches
  the requested number up to 65536; destroying the fresh table passes its checks.  Up to
  32768 requested buckets the table is a consistent empty map.  Beyond that the table has
  65536 buckets, which the hash function does not accept, and every lookup aborts.
\<close>
theorem inode_table_creation:
  "\<exists>T. BitbucketCreateInodeTable mem n seed = Some T \<and> BucketCount T = 2 ^ BucketCountShift T \<and> min n 65536 \<le> BucketCount T
    \<and> BitbucketDestroyInodeTable T = Some ()
    \<and> (\<forall>s. InodeTable s = T \<longrightarrow>
         (if n \<le> 32768 then itable_ok s \<and> quiet s \<and> table_map s = Map.empty else (\<forall>ino. BitbucketLookupInodeInTable ino s = None)))"
proof -
  obtain T k where T: "BitbucketCreateInodeTable mem n seed = Some T" "BucketCount T = 2 ^ k" "BucketCountShift T = k" "min n 65536 \<le> 2 ^ k" "10 \<le> k"
    "n \<le> 32768 \<longleftrightarrow> k < 16" "InodeCount T = 0"
    and B: "\<forall>b. ListEntry (Buckets T b) = [] \<and> BucketLock (Buckets T b) = Unlocked \<and> Count (Buckets T b) = 0 \<and> LastInodeTableEntry (Buckets T b) = None"
    by (rule fresh_table [of mem n seed])
  have "itable_ok s \<and> quiet s \<and> table_map s = Map.empty" if "InodeTable s = T" "n \<le> 32768" for s
    using T B that by (intro empty_table) simp_all
  moreover have "BitbucketLookupInodeInTable ino s = None" if "InodeTable s = T" "\<not> n \<le> 32768" for s ino
  proof -
    have "hash_of s ino = None"
      using hash_inode_needs [of ino "HashSeed T" k] T(3,6) that by (cases "hash_of s ino") (auto simp: hash_of_def)
    then show ?thesis
      by (simp add: BitbucketLookupInodeInTable_def LockInodeForLookup_def)
  qed
  moreover have "BitbucketDestroyInodeTable T = Some ()"
    using B by (simp add: BitbucketDestroyInodeTable_def list_all_iff)
  ultimately show ?thesis
    using T by (intro exI [of _ T]) auto
qed

theorem inode_table_creation_witness:
  "\<exists>T. BitbucketCreateInodeTable (\<lambda>b. (0, 0, 0)) 40000 0 = Some T
     \<and> BitbucketLookupInodeInTable 5 (start_state\<lparr>InodeTable := T\<rparr>) = None"
  using inode_table_creation [of "\<lambda>b. (0, 0, 0)" 40000 0] by auto

end
