(* ===== verification/Dir.thy ===== *)
theory Dir
  imports InodeTable
begin

text \<open>
  Directories, \<^verbatim>\<open>src/finesse/bitbucket/dir.c\<close>.  A directory keeps its entries in a list and in a
  trie over their names.  An entry holds a reference on the inode it names; a directory
  holds a reference on its parent.  The offset of an entry is the epoch of the directory
  at the time of the insertion.
\<close>

section \<open>Entries\<close>

abbreviation (input) dir_entry_name_offset :: nat where "dir_entry_name_offset \<equiv> 40"

definition BitbucketEnableDirectoryVerification :: "bb_state \<Rightarrow> bb_state" where
  "BitbucketEnableDirectoryVerification s = s\<lparr>VerifyDirectoriesEnabled := True\<rparr>"

definition VerifyDirectoryEntriesInternal :: "addr \<Rightarrow> bb_state \<Rightarrow> bb_state option" where
  "VerifyDirectoryEntriesInternal inode s = do {
     i \<leftarrow> Inodes s inode;
     c_assert (InodeType i = BITBUCKET_DIR_TYPE);
     d \<leftarrow> the_directory i;
     s \<leftarrow> BitbucketLockInode inode False s;
     c_assert (list_all (\<lambda>e. Dirents s e \<noteq> None) (Entries d));
     BitbucketUnlockInode inode s }"

definition VerifyDirectoryEntries :: "addr \<Rightarrow> bb_state \<Rightarrow> bb_state option" where
  "VerifyDirectoryEntries inode s =
     (if VerifyDirectoriesEnabled s then VerifyDirectoryEntriesInternal inode s else Some s)"

definition free_dirent :: "addr \<Rightarrow> bb_state \<Rightarrow> bb_state option" where
  "free_dirent e s = do {
     c_assert (Dirents s e \<noteq> None);
     Some (s\<lparr>Dirents := (Dirents s)(e := None)\<rparr>) }"

definition increment_nlink :: "bitbucket_inode \<Rightarrow> bitbucket_inode" where
  "increment_nlink i = i\<lparr>Attributes := (Attributes i)\<lparr>st_nlink := st_nlink (Attributes i) + 1\<rparr>\<rparr>"

definition decrement_nlink :: "bitbucket_inode \<Rightarrow> bitbucket_inode" where
  "decrement_nlink i = i\<lparr>Attributes := (Attributes i)\<lparr>st_nlink := st_nlink (Attributes i) - 1\<rparr>\<rparr>"

text \<open>The part of the insertion that runs under the locks.\<close>

definition insert_dirent :: "addr \<Rightarrow> addr \<Rightarrow> string \<Rightarrow> addr \<Rightarrow> bb_state \<Rightarrow> (errno \<times> bb_state) option" where
  "insert_dirent dir inode name newentry s = do {
     i \<leftarrow> Inodes s dir;
     d \<leftarrow> the_directory i;
     let s = s\<lparr>Dirents := (Dirents s)(newentry \<mapsto> \<lparr>de_Inode = inode, de_Offset = Epoch i, de_Name = name\<rparr>)\<rparr>;
     let d = d\<lparr>Children := trie_root (Children d)\<rparr>;
     if TrieSearch (Children d) name \<noteq> None then Some (EEXIST, set_inode dir (set_directory d i) s)
     else do {
       let d = d\<lparr>Children := trie_insert_at (Children d) name newentry, Entries := newentry # Entries d\<rparr>;
       let s = set_inode dir (set_directory d i) s;
       if inode \<noteq> dir then do {
         j \<leftarrow> Inodes s inode;
         Some (0, set_inode inode (increment_nlink j) s) }
       else Some (0, s) } }"

text \<open>
  The offset of the new entry is written under the lock; until then its memory holds
  whatever it held, here zero.
\<close>

definition BitbucketInsertDirectoryEntry :: "addr \<Rightarrow> addr \<Rightarrow> string \<Rightarrow> bb_state \<Rightarrow> (errno \<times> bb_state) option" where
  "BitbucketInsertDirectoryEntry dir inode name s = do {
     c_assert (dir \<noteq> NULL);
     c_assert (inode \<noteq> NULL);
     i \<leftarrow> Inodes s dir;
     c_assert (InodeType i = BITBUCKET_DIR_TYPE);
     d \<leftarrow> the_directory i;
     c_assert (length name + 1 > 1);
     c_assert (length name + 1 < MAX_FILE_NAME_SIZE);
     let (newentry, s) = malloc (dir_entry_name_offset + length name + 1) s;
     let s = s\<lparr>Dirents := (Dirents s)(newentry \<mapsto> \<lparr>de_Inode = inode, de_Offset = 0, de_Name = name\<rparr>)\<rparr>;
     s \<leftarrow> BitbucketReferenceInode inode INODE_DIRENT_REFERENCE s;
     s \<leftarrow> (if dir \<noteq> inode then BitbucketLockTwoInodes dir inode True s else BitbucketLockInode dir True s);
     (status, s) \<leftarrow> insert_dirent dir inode name newentry s;
     s \<leftarrow> BitbucketUnlockInode dir s;
     s \<leftarrow> (if dir \<noteq> inode then BitbucketUnlockInode inode s else Some s);
     Some (status, s) }"

text \<open>The inode found, or \<^verbatim>\<open>NULL\<close>.\<close>

definition BitbucketLookupObjectInDirectory :: "addr \<Rightarrow> string \<Rightarrow> bb_state \<Rightarrow> (addr \<times> bb_state) option" where
  "BitbucketLookupObjectInDirectory inode name s = do {
     c_assert (inode \<noteq> NULL);
     i \<leftarrow> Inodes s inode;
     c_assert (InodeType i = BITBUCKET_DIR_TYPE);
     d \<leftarrow> the_directory i;
     if Children d \<noteq> None then do {
       s \<leftarrow> BitbucketLockInode inode False s;
       (object, s) \<leftarrow> (case TrieSearch (Children d) name of
          None \<Rightarrow> Some (NULL, s)
        | Some dirent \<Rightarrow> do {
            e \<leftarrow> Dirents s dirent;
            s \<leftarrow> BitbucketReferenceInode (de_Inode e) INODE_LOOKUP_REFERENCE s;
            Some (de_Inode e, s) });
       s \<leftarrow> BitbucketUnlockInode inode s;
       s \<leftarrow> VerifyDirectoryEntries inode s;
       Some (object, s) }
     else Some (NULL, s) }"

section \<open>Creating directories\<close>

definition set_parent :: "addr \<Rightarrow> addr \<Rightarrow> bb_state \<Rightarrow> bb_state option" where
  "set_parent inode parent s = do {
     i \<leftarrow> Inodes s inode;
     d \<leftarrow> the_directory i;
     Some (set_inode inode (set_directory (d\<lparr>Parent := parent\<rparr>) i) s) }"

definition is_directory :: "addr \<Rightarrow> bb_state \<Rightarrow> bool" where
  "is_directory a s \<longleftrightarrow> (case Inodes s a of
       None \<Rightarrow> False
     | Some i \<Rightarrow> InodeType i = BITBUCKET_DIR_TYPE \<and> the_directory i \<noteq> None)"

definition BitbucketCreateDirectory :: "addr \<Rightarrow> string \<Rightarrow> bb_state \<Rightarrow> (addr \<times> bb_state) option" where
  "BitbucketCreateDirectory parent name s = do {
     c_assert (parent \<noteq> NULL);
     c_assert (is_directory parent s);
     p \<leftarrow> Inodes s parent;
     c_assert (Table p);
     (newdir, s) \<leftarrow> BitbucketCreateInode (Some DirectoryObjectAttributes) 0 s;
     c_assert (is_directory newdir s);
     c_assert (parent \<noteq> newdir);
     s \<leftarrow> set_parent newdir parent s;
     s \<leftarrow> BitbucketReferenceInode parent INODE_PARENT_REFERENCE s;
     (status, s) \<leftarrow> BitbucketInsertDirectoryEntry newdir newdir ''.'' s;
     c_assert (status = 0);
     (status, s) \<leftarrow> BitbucketInsertDirectoryEntry newdir parent ''..'' s;
     c_assert (status = 0);
     (status, s) \<leftarrow> BitbucketInsertDirectoryEntry parent newdir name s;
     c_assert (status = 0);
     refcount \<leftarrow> BitbucketGetInodeReferenceCount newdir s;
     c_assert (refcount = 3);
     s \<leftarrow> VerifyDirectoryEntries newdir s;
     Some (newdir, s) }"

section \<open>Removing entries\<close>

text \<open>The entry leaves the list and the trie; the caller frees it.\<close>

definition unlink_dirent :: "addr \<Rightarrow> string \<Rightarrow> addr \<Rightarrow> addr \<Rightarrow> bb_state \<Rightarrow> bb_state option" where
  "unlink_dirent dir name dirent de_inode s = do {
     e \<leftarrow> Dirents s dirent;
     c_assert (dir \<noteq> de_Inode e \<or> de_inode = NULL);
     i \<leftarrow> Inodes s dir;
     d \<leftarrow> the_directory i;
     (status, t) \<leftarrow> TrieDeletion True (Children d) name;
     let s = set_inode dir (set_directory (d\<lparr>Children := t, Entries := remove1 dirent (Entries d)\<rparr>) i) s;
     if de_inode \<noteq> NULL then do {
       j \<leftarrow> Inodes s (de_Inode e);
       c_assert (st_nlink (Attributes j) > 0);
       Some (set_inode (de_Inode e) (decrement_nlink j) s) }
     else Some s }"

text \<open>
  The loop that looks for the entry and gets the lock of its inode.  When the lock is
  busy, the directory is released, both are locked, and the search starts again.  The
  result is the entry, or \<^verbatim>\<open>NULL\<close>, and the locked inode that it names, or \<^verbatim>\<open>NULL\<close>.
\<close>

partial_function (option) remove_dirent_loop :: "addr \<Rightarrow> string \<Rightarrow> addr \<Rightarrow> bb_state \<Rightarrow> (addr \<times> addr \<times> bb_state) option" where
  "remove_dirent_loop dir name de_inode s = do {
     i \<leftarrow> Inodes s dir;
     d \<leftarrow> the_directory i;
     (case TrieSearch (Children d) name of
        None \<Rightarrow> Some (NULL, de_inode, s)
      | Some dirent \<Rightarrow> do {
          e \<leftarrow> Dirents s dirent;
          if de_Inode e \<noteq> de_inode \<and> de_Inode e \<noteq> dir then do {
            s \<leftarrow> (if de_inode \<noteq> NULL then do {
                    s \<leftarrow> BitbucketUnlockInode de_inode s;
                    BitbucketDereferenceInode de_inode INODE_REMOVE_DIRENT_REFERENCE 1 s }
                  else Some s);
            s \<leftarrow> BitbucketReferenceInode (de_Inode e) INODE_REMOVE_DIRENT_REFERENCE s;
            (status, s) \<leftarrow> BitbucketTryLockInode (de_Inode e) True s;
            if status \<noteq> 0 then do {
              s \<leftarrow> BitbucketUnlockInode dir s;
              s \<leftarrow> BitbucketLockTwoInodes dir (de_Inode e) True s;
              remove_dirent_loop dir name (de_Inode e) s }
            else do {
              s \<leftarrow> unlink_dirent dir name dirent (de_Inode e) s;
              Some (dirent, de_Inode e, s) } }
          else do {
            s \<leftarrow> unlink_dirent dir name dirent de_inode s;
            Some (dirent, de_inode, s) } }) }"

definition RemoveDirEntryFromDirectory :: "addr \<Rightarrow> string \<Rightarrow> bb_state \<Rightarrow> (addr \<times> bb_state) option" where
  "RemoveDirEntryFromDirectory dir name s = do {
     i \<leftarrow> Inodes s dir;
     c_assert (InodeType i = BITBUCKET_DIR_TYPE);
     s \<leftarrow> BitbucketLockInode dir True s;
     (dirent, de_inode, s) \<leftarrow> remove_dirent_loop dir name NULL s;
     s \<leftarrow> (if de_inode \<noteq> NULL then do {
             s \<leftarrow> BitbucketUnlockInode de_inode s;
             BitbucketDereferenceInode de_inode INODE_REMOVE_DIRENT_REFERENCE 1 s }
           else Some s);
     s \<leftarrow> BitbucketUnlockInode dir s;
     Some (dirent, s) }"

text \<open>The links of a directory that leaves its parent: its own entry for the parent goes as well.\<close>

definition unlink_child :: "addr \<Rightarrow> addr \<Rightarrow> bb_state \<Rightarrow> bb_state option" where
  "unlink_child dir child s = do {
     (de, s) \<leftarrow> RemoveDirEntryFromDirectory child ''..'' s;
     if de = NULL then Some s
     else do {
       e \<leftarrow> Dirents s de;
       c_assert (de_Inode e = dir);
       j \<leftarrow> Inodes s child;
       d \<leftarrow> the_directory j;
       c_assert (Parent d = dir);
       s \<leftarrow> BitbucketDereferenceInode (de_Inode e) INODE_DIRENT_REFERENCE 1 s;
       s \<leftarrow> BitbucketDereferenceInode (Parent d) INODE_PARENT_REFERENCE 1 s;
       s \<leftarrow> set_parent child NULL s;
       free_dirent de s } }"

text \<open>The second reading of the entry that is not there is one of null.\<close>

definition BitbucketDeleteDirectoryEntry :: "addr \<Rightarrow> string \<Rightarrow> bb_state \<Rightarrow> (errno \<times> bb_state) option" where
  "BitbucketDeleteDirectoryEntry dir name s = do {
     c_assert (dir \<noteq> NULL);
     c_assert (length name > 0);
     c_assert (is_directory dir s);
     s \<leftarrow> VerifyDirectoryEntries dir s;
     (inode, s) \<leftarrow> BitbucketLookupObjectInDirectory dir name s;
     if inode = NULL then do {
       s \<leftarrow> VerifyDirectoryEntries dir s;
       Some (ENOENT, s) }
     else do {
       (dirent, s) \<leftarrow> RemoveDirEntryFromDirectory dir name s;
       c_assert (dirent \<noteq> NULL);
       e \<leftarrow> Dirents s dirent;
       j \<leftarrow> Inodes s (de_Inode e);
       s \<leftarrow> (if InodeType j = BITBUCKET_DIR_TYPE then unlink_child dir (de_Inode e) s else Some s);
       s \<leftarrow> BitbucketDereferenceInode inode INODE_LOOKUP_REFERENCE 1 s;
       s \<leftarrow> BitbucketDereferenceInode (de_Inode e) INODE_DIRENT_REFERENCE 1 s;
       s \<leftarrow> free_dirent dirent s;
       s \<leftarrow> VerifyDirectoryEntries dir s;
       Some (0, s) } }"

definition BitbucketDirectoryEntryCount :: "addr \<Rightarrow> bb_state \<Rightarrow> (u64 \<times> bb_state) option" where
  "BitbucketDirectoryEntryCount inode s = do {
     c_assert (inode \<noteq> NULL);
     s \<leftarrow> BitbucketLockInode inode False s;
     i \<leftarrow> Inodes s inode;
     d \<leftarrow> the_directory i;
     let count = foldl (\<lambda>n e. n + 1) 0 (Entries d);
     s \<leftarrow> BitbucketUnlockInode inode s;
     Some (count, s) }"

definition BitbucketDeleteDirectory :: "addr \<Rightarrow> bb_state \<Rightarrow> (errno \<times> bb_state) option" where
  "BitbucketDeleteDirectory inode s = do {
     c_assert (inode \<noteq> NULL);
     c_assert (is_directory inode s);
     i \<leftarrow> Inodes s inode;
     d \<leftarrow> the_directory i;
     if Parent d \<noteq> NULL then Some (EINVAL, s)
     else if Entries d \<noteq> [] \<and> tl (Entries d) \<noteq> [] then Some (ENOTEMPTY, s)
     else do {
       (status, s) \<leftarrow> BitbucketDeleteDirectoryEntry inode ''.'' s;
       (if status = 0 then do {
          refcount \<leftarrow> BitbucketGetInodeReferenceCount inode s;
          c_assert (1 \<le> refcount) }
        else Some ());
       Some (status, s) } }"

definition find_child :: "addr \<Rightarrow> string \<Rightarrow> bb_state \<Rightarrow> addr option option" where
  "find_child dir name s = do {
     i \<leftarrow> Inodes s dir;
     d \<leftarrow> the_directory i;
     Some (TrieSearch (Children d) name) }"

definition BitbucketExchangeObjectsInDirectory ::
  "addr \<Rightarrow> addr \<Rightarrow> string \<Rightarrow> string \<Rightarrow> bb_state \<Rightarrow> (errno \<times> bb_state) option" where
  "BitbucketExchangeObjectsInDirectory old_parent new_parent name newname s = do {
     c_assert (old_parent \<noteq> NULL);
     c_assert (new_parent \<noteq> NULL);
     s \<leftarrow> BitbucketLockTwoInodes old_parent new_parent True s;
     old_dirent \<leftarrow> find_child old_parent name s;
     new_dirent \<leftarrow> find_child new_parent newname s;
     (status, s) \<leftarrow> (case (old_dirent, new_dirent) of
        (Some x, Some y) \<Rightarrow> do {
          e \<leftarrow> Dirents s x;
          f \<leftarrow> Dirents s y;
          Some (0, s\<lparr>Dirents := (Dirents s)(x \<mapsto> e\<lparr>de_Inode := de_Inode f\<rparr>, y \<mapsto> f\<lparr>de_Inode := de_Inode e\<rparr>)\<rparr>) }
      | _ \<Rightarrow> Some (ENOENT, s));
     s \<leftarrow> BitbucketUnlockInode new_parent s;
     s \<leftarrow> BitbucketUnlockInode old_parent s;
     Some (status, s) }"

section \<open>Enumeration\<close>

text \<open>The first entry with the given offset, or \<^verbatim>\<open>NULL\<close>.\<close>

fun find_offset :: "bb_state \<Rightarrow> u64 \<Rightarrow> addr list \<Rightarrow> addr option" where
  "find_offset s offset [] = Some NULL"
| "find_offset s offset (a # as) = do {
     e \<leftarrow> Dirents s a;
     if de_Offset e = offset then Some a else find_offset s offset as }"

text \<open>The result of a seek is the field \<^verbatim>\<open>LastError\<close> of the context it leaves.\<close>

definition BitbucketSeekDirectory ::
  "bitbucket_dir_enum_context \<Rightarrow> u64 \<Rightarrow> bb_state \<Rightarrow> (errno \<times> bitbucket_dir_enum_context \<times> bb_state) option" where
  "BitbucketSeekDirectory c offset s = do {
     c_assert (is_directory (ctx_Directory c) s);
     s \<leftarrow> EnsureInodeLockedAgainstChanges (ctx_Directory c) s;
     i \<leftarrow> Inodes s (ctx_Directory c);
     d \<leftarrow> the_directory i;
     let c = c\<lparr>ctx_Epoch := Epoch i\<rparr>;
     c \<leftarrow> (if offset = 0 then
             (case Entries d of
                [] \<Rightarrow> Some (c\<lparr>ctx_NextEntry := NULL, ctx_LastError := ENOENT, ctx_Offset := 0\<rparr>)
              | a # as \<Rightarrow> do {
                  e \<leftarrow> Dirents s a;
                  Some (c\<lparr>ctx_NextEntry := a, ctx_Offset := de_Offset e, ctx_LastError := 0\<rparr>) })
           else if ctx_Offset c = offset then Some c
           else do {
             a \<leftarrow> find_offset s offset (Entries d);
             if a = NULL then Some (c\<lparr>ctx_NextEntry := NULL, ctx_Offset := 0, ctx_LastError := ENOENT\<rparr>)
             else do {
               e \<leftarrow> Dirents s a;
               Some (c\<lparr>ctx_LastError := 0, ctx_Offset := de_Offset e, ctx_NextEntry := a\<rparr>) } });
     Some (ctx_LastError c, c, s) }"

definition BitbucketInitalizeDirectoryEnumerationContext ::
  "addr \<Rightarrow> bb_state \<Rightarrow> (bitbucket_dir_enum_context \<times> bb_state) option" where
  "BitbucketInitalizeDirectoryEnumerationContext dir s = do {
     c_assert (dir \<noteq> NULL);
     i \<leftarrow> Inodes s dir;
     c_assert (InodeType i = BITBUCKET_DIR_TYPE);
     s \<leftarrow> VerifyDirectoryEntries dir s;
     s \<leftarrow> BitbucketReferenceInode dir INODE_ENUM_REFERENCE s;
     i \<leftarrow> Inodes s dir;
     let c = \<lparr>ctx_Directory = dir, ctx_NextEntry = NULL, ctx_Offset = 0, ctx_Epoch = Epoch i, ctx_LastError = 0\<rparr>;
     s \<leftarrow> BitbucketLockInode dir False s;
     (status, c, s) \<leftarrow> BitbucketSeekDirectory c 0 s;
     s \<leftarrow> BitbucketUnlockInode dir s;
     c_assert (status = 0);
     Some (c, s) }"

definition BitbucketCleanupDirectoryEnumerationContext ::
  "bitbucket_dir_enum_context \<Rightarrow> bb_state \<Rightarrow> (bitbucket_dir_enum_context \<times> bb_state) option" where
  "BitbucketCleanupDirectoryEnumerationContext c s =
     (if ctx_Directory c \<noteq> NULL then do {
        s \<leftarrow> BitbucketDereferenceInode (ctx_Directory c) INODE_ENUM_REFERENCE 1 s;
        Some (c\<lparr>ctx_Directory := NULL\<rparr>, s) }
      else Some (c, s))"

text \<open>
  The entry after a given one; the head of the list, here \<^verbatim>\<open>NULL\<close>, after the last.  An
  entry that has left the list points to itself.
\<close>

fun next_entry :: "addr list \<Rightarrow> addr \<Rightarrow> addr" where
  "next_entry [] a = a"
| "next_entry (b # bs) a = (if a = b then (case bs of [] \<Rightarrow> NULL | c # cs \<Rightarrow> c) else next_entry bs a)"

text \<open>The step to the entry after the one that is returned.\<close>

definition advance_enumeration ::
  "bitbucket_dir \<Rightarrow> bitbucket_dir_enum_context \<Rightarrow> bb_state \<Rightarrow> (addr \<times> bitbucket_dir_enum_context) option" where
  "advance_enumeration d c s = do {
     let returnEntry = ctx_NextEntry c;
     e \<leftarrow> Dirents s returnEntry;
     let n = next_entry (Entries d) returnEntry;
     if n = NULL then Some (returnEntry, c\<lparr>ctx_NextEntry := NULL, ctx_Offset := - 1\<rparr>)
     else do {
       f \<leftarrow> Dirents s n;
       Some (returnEntry, c\<lparr>ctx_NextEntry := n, ctx_Offset := de_Offset f\<rparr>) } }"

definition BitbucketEnumerateDirectory ::
  "bitbucket_dir_enum_context \<Rightarrow> bb_state \<Rightarrow> (addr \<times> bitbucket_dir_enum_context \<times> bb_state) option" where
  "BitbucketEnumerateDirectory c s = do {
     c_assert (ctx_Directory c \<noteq> NULL);
     s \<leftarrow> EnsureInodeLockedAgainstChanges (ctx_Directory c) s;
     if ctx_LastError c \<noteq> 0 then Some (NULL, c, s)
     else if ctx_NextEntry c = NULL then Some (NULL, c\<lparr>ctx_LastError := ENOENT, ctx_Offset := 0\<rparr>, s)
     else do {
       i \<leftarrow> Inodes s (ctx_Directory c);
       (status, c, s) \<leftarrow> (if Epoch i \<noteq> ctx_Epoch c then BitbucketSeekDirectory c (ctx_Offset c) s else Some (0, c, s));
       if status \<noteq> 0 then Some (NULL, c, s)
       else do {
         i \<leftarrow> Inodes s (ctx_Directory c);
         d \<leftarrow> the_directory i;
         (returnEntry, c) \<leftarrow> advance_enumeration d c s;
         Some (returnEntry, c, s) } } }"

section \<open>The root directory\<close>

definition expect_references :: "addr \<Rightarrow> u64 \<Rightarrow> bb_state \<Rightarrow> unit option" where
  "expect_references a n s = do {
     refcount \<leftarrow> BitbucketGetInodeReferenceCount a s;
     c_assert (refcount = n) }"

definition BitbucketCreateRootDirectory :: "bb_state \<Rightarrow> (addr \<times> bb_state) option" where
  "BitbucketCreateRootDirectory s = do {
     (inode, s) \<leftarrow> BitbucketCreateInode (Some DirectoryObjectAttributes) 0 s;
     c_assert (is_directory inode s);
     expect_references inode 1 s;
     s \<leftarrow> set_parent inode inode s;
     s \<leftarrow> BitbucketReferenceInode inode INODE_PARENT_REFERENCE s;
     expect_references inode 2 s;
     (status, s) \<leftarrow> BitbucketInsertDirectoryEntry inode inode ''.'' s;
     c_assert (status = 0);
     expect_references inode 3 s;
     (status, s) \<leftarrow> BitbucketInsertDirectoryEntry inode inode ''..'' s;
     c_assert (status = 0);
     expect_references inode 4 s;
     Some (inode, s) }"

definition BitbucketDeleteRootDirectory :: "addr \<Rightarrow> bb_state \<Rightarrow> bb_state option" where
  "BitbucketDeleteRootDirectory root s = do {
     i \<leftarrow> Inodes s root;
     c_assert (InodeType i = BITBUCKET_DIR_TYPE);
     s \<leftarrow> BitbucketReferenceInode root INODE_LOOKUP_REFERENCE s;
     i \<leftarrow> Inodes s root;
     d \<leftarrow> the_directory i;
     c_assert (Parent d \<noteq> NULL);
     s \<leftarrow> BitbucketDereferenceInode (Parent d) INODE_PARENT_REFERENCE 1 s;
     s \<leftarrow> set_parent root NULL s;
     (status, s) \<leftarrow> BitbucketDeleteDirectoryEntry root ''..'' s;
     c_assert (status = 0);
     (status, s) \<leftarrow> BitbucketDeleteDirectory root s;
     c_assert (status = 0);
     refcount \<leftarrow> BitbucketGetInodeReferenceCount root s;
     c_assert (1 \<le> refcount);
     BitbucketDereferenceInode root INODE_LOOKUP_REFERENCE 1 s }"

end
