(* ===== verification/FsInv.thy ===== *)
theory FsInv
  imports InodeProps Dir
begin

text \<open>
  The invariant of the bitbucket file system.  Every inode is in the inode table under its
  number and is what its kind says; the list and the trie of every directory agree; the
  counters of an inode for directory entries and for child directories are the numbers of
  entries and of directories in memory that point to it.  So no entry and no parent
  pointer is left behind when an inode is freed.

  Most steps of the operations only lock, count statistics or set times.  The relation
  \<^verbatim>\<open>touch\<close> collects what such steps may change.
\<close>

section \<open>Steps that change only locks, times, attributes and statistics\<close>

abbreviation (input) time_zero :: timespec where "time_zero \<equiv> \<lparr>tv_sec = 0, tv_nsec = 0\<rparr>"

definition core :: "bitbucket_inode \<Rightarrow> bitbucket_inode" where
  "core i = i\<lparr>InodeLock := Unlocked, Epoch := 0,
     Attributes := (Attributes i)\<lparr>st_mode := st_mode (Attributes i) AND S_IFMT, st_uid := 0, st_gid := 0, st_blksize := 0, st_blocks := 0,
       st_atim := time_zero, st_mtim := time_zero, st_ctim := time_zero\<rparr>\<rparr>"

definition same_table :: "inode_table \<Rightarrow> inode_table \<Rightarrow> bool" where
  "same_table T U \<longleftrightarrow> BucketCount U = BucketCount T \<and> BucketCountShift U = BucketCountShift T \<and> HashSeed U = HashSeed T
     \<and> InodeCount U = InodeCount T \<and> MaxInodeCount U = MaxInodeCount T \<and> (\<forall>b. same_content (Buckets T b) (Buckets U b))"

definition touch :: "bb_state \<Rightarrow> bb_state \<Rightarrow> bool" where
  "touch s t \<longleftrightarrow> t\<lparr>Inodes := Inodes s, Tick := Tick s, InodeTable := InodeTable s\<rparr> = s
     \<and> same_table (InodeTable s) (InodeTable t) \<and> (\<forall>a. map_option core (Inodes t a) = map_option core (Inodes s a)) \<and> Tick s \<le> Tick t"

lemma core_eqD:
  assumes "core j = core i"
  shows "Length j = Length i" "RegisteredAttributes j = RegisteredAttributes i" "PrivateTable j = PrivateTable i"
    "InodeLength j = InodeLength i" "InodeType j = InodeType i" "Table j = Table i"
    "ExtendedAttributes j = ExtendedAttributes i" "ExtendedAttributeTrie j = ExtendedAttributeTrie i" "Instance j = Instance i"
    "st_ino (Attributes j) = st_ino (Attributes i)" "st_size (Attributes j) = st_size (Attributes i)"
    "st_nlink (Attributes j) = st_nlink (Attributes i)" "st_mode (Attributes j) AND S_IFMT = st_mode (Attributes i) AND S_IFMT"
proof -
  have eq: "f (core j) = f (core i)" for f :: "bitbucket_inode \<Rightarrow> 'c"
    using assms by simp
  show "Length j = Length i" "RegisteredAttributes j = RegisteredAttributes i" "PrivateTable j = PrivateTable i"
    "InodeLength j = InodeLength i" "InodeType j = InodeType i" "Table j = Table i"
    "ExtendedAttributes j = ExtendedAttributes i" "ExtendedAttributeTrie j = ExtendedAttributeTrie i" "Instance j = Instance i"
    using eq [of Length] eq [of RegisteredAttributes] eq [of PrivateTable] eq [of InodeLength] eq [of InodeType]
      eq [of Table] eq [of ExtendedAttributes] eq [of ExtendedAttributeTrie] eq [of Instance]
    by (simp_all add: core_def)
  show "st_ino (Attributes j) = st_ino (Attributes i)" "st_size (Attributes j) = st_size (Attributes i)"
    "st_nlink (Attributes j) = st_nlink (Attributes i)" "st_mode (Attributes j) AND S_IFMT = st_mode (Attributes i) AND S_IFMT"
    using eq [of "\<lambda>x. st_ino (Attributes x)"] eq [of "\<lambda>x. st_size (Attributes x)"] eq [of "\<lambda>x. st_nlink (Attributes x)"] eq [of "\<lambda>x. st_mode (Attributes x)"]
    by (simp_all add: core_def)
qed

lemma same_content_refl [simp]: "same_content B B"
  by (simp add: same_content_def)

lemma same_content_trans: "same_content A B \<Longrightarrow> same_content B C \<Longrightarrow> same_content A C"
  unfolding same_content_def by metis

lemma touch_refl [simp]: "touch s s"
  by (simp add: touch_def same_table_def)

lemma touchD:
  assumes "touch s t"
  shows "Objects t = Objects s" "ObjectCount t = ObjectCount s" "DefaultObjectLock t = DefaultObjectLock s" "next_addr t = next_addr s"
    "Dirents t = Dirents s" "Xattrs t = Xattrs s" "InodeNumbers t = InodeNumbers s" "Storage t = Storage s"
    "VerifyDirectoriesEnabled t = VerifyDirectoriesEnabled s" "Environment t = Environment s"
    "same_table (InodeTable s) (InodeTable t)" "map_option core (Inodes t a) = map_option core (Inodes s a)" "Tick s \<le> Tick t"
proof -
  let ?t = "t\<lparr>Inodes := Inodes s, Tick := Tick s, InodeTable := InodeTable s\<rparr>"
  have t: "?t = s"
    using assms by (simp add: touch_def)
  show "Objects t = Objects s" "ObjectCount t = ObjectCount s" "DefaultObjectLock t = DefaultObjectLock s" "next_addr t = next_addr s"
    "Dirents t = Dirents s" "Xattrs t = Xattrs s" "InodeNumbers t = InodeNumbers s" "Storage t = Storage s"
    "VerifyDirectoriesEnabled t = VerifyDirectoriesEnabled s" "Environment t = Environment s"
    using arg_cong [OF t, of Objects] arg_cong [OF t, of ObjectCount] arg_cong [OF t, of DefaultObjectLock] arg_cong [OF t, of next_addr]
      arg_cong [OF t, of Dirents] arg_cong [OF t, of Xattrs] arg_cong [OF t, of InodeNumbers] arg_cong [OF t, of Storage]
      arg_cong [OF t, of VerifyDirectoriesEnabled] arg_cong [OF t, of Environment] by simp_all
  show "same_table (InodeTable s) (InodeTable t)" "map_option core (Inodes t a) = map_option core (Inodes s a)" "Tick s \<le> Tick t"
    using assms by (simp_all add: touch_def)
qed

lemma touch_trans:
  assumes "touch s t" "touch t u"
  shows "touch s u"
proof -
  have u: "u\<lparr>Inodes := Inodes t, Tick := Tick t, InodeTable := InodeTable t\<rparr> = t"
    and t: "t\<lparr>Inodes := Inodes s, Tick := Tick s, InodeTable := InodeTable s\<rparr> = s"
    using assms by (simp_all add: touch_def)
  have "u\<lparr>Inodes := Inodes s, Tick := Tick s, InodeTable := InodeTable s\<rparr>
      = (u\<lparr>Inodes := Inodes t, Tick := Tick t, InodeTable := InodeTable t\<rparr>)\<lparr>Inodes := Inodes s, Tick := Tick s, InodeTable := InodeTable s\<rparr>"
    by simp
  also have "\<dots> = s"
    unfolding u t ..
  finally have "u\<lparr>Inodes := Inodes s, Tick := Tick s, InodeTable := InodeTable s\<rparr> = s" .
  moreover have "same_table (InodeTable s) (InodeTable u)"
    using assms same_content_trans unfolding touch_def same_table_def by metis
  ultimately show ?thesis
    using assms by (simp add: touch_def)
qed

lemma touch_None: "touch s t \<Longrightarrow> Inodes t a = None \<longleftrightarrow> Inodes s a = None"
  using touchD(12) [of s t a] by (metis option.map_disc_iff)

lemma touch_Some:
  assumes "touch s t" "Inodes s a = Some i"
  obtains j where "Inodes t a = Some j" "core j = core i"
  using touchD(12) [OF assms(1), of a] assms(2) by (cases "Inodes t a") auto

lemma touch_Some_back:
  assumes "touch s t" "Inodes t a = Some j"
  obtains i where "Inodes s a = Some i" "core j = core i"
  using touchD(12) [OF assms(1), of a] assms(2) by (cases "Inodes s a") auto

lemma touch_ino_of: "touch s t \<Longrightarrow> ino_of t = ino_of s"
proof
  fix a
  assume t: "touch s t"
  show "ino_of t a = ino_of s a"
  proof (cases "Inodes s a")
    case None
    then show ?thesis
      using touch_None [OF t] by (simp add: ino_of_def)
  next
    case (Some i)
    with t obtain j where "Inodes t a = Some j" and c: "core j = core i"
      by (rule touch_Some)
    with Some show ?thesis
      using core_eqD(10) [OF c] by (simp add: ino_of_def)
  qed
qed

section \<open>The invariant\<close>

definition dirs :: "bb_state \<Rightarrow> addr \<Rightarrow> bitbucket_dir option" where
  "dirs s a = Option.bind (Inodes s a) the_directory"

text \<open>The kind of an inode: the package that registered it.\<close>

definition kind_of :: "bb_state \<Rightarrow> addr \<Rightarrow> registered option" where
  "kind_of s a = Option.bind (Inodes s a) RegisteredAttributes"

definition dirent_name :: "bb_state \<Rightarrow> addr \<Rightarrow> string option" where
  "dirent_name s e = map_option de_Name (Dirents s e)"

text \<open>A directory as a map from names to inodes.\<close>

definition dir_map :: "bb_state \<Rightarrow> addr \<Rightarrow> string \<Rightarrow> addr option" where
  "dir_map s a n = do {
     d \<leftarrow> dirs s a;
     e \<leftarrow> TrieSearch (Children d) n;
     map_option de_Inode (Dirents s e) }"

definition kind_ok :: "bb_state \<Rightarrow> bitbucket_inode \<Rightarrow> bool" where
  "kind_ok s i \<longleftrightarrow> (case RegisteredAttributes i of
       None \<Rightarrow> False
     | Some DirectoryObjectAttributes \<Rightarrow> InodeType i = BITBUCKET_DIR_TYPE \<and> st_mode (Attributes i) AND S_IFMT = S_IFDIR \<and> (\<exists>d. Instance i = Directory d)
     | Some FileObjectAttributes \<Rightarrow> InodeType i = BITBUCKET_FILE_TYPE \<and> st_mode (Attributes i) AND S_IFMT = S_IFREG \<and> (\<exists>f. Instance i = File f \<and> map_releasable f i
          \<and> (\<forall>name. MapName f = Some name \<longrightarrow> Storage s name \<noteq> None))
     | Some SymbolicLinkObjectAttributes \<Rightarrow> InodeType i = BITBUCKET_SYMLINK_TYPE \<and> st_mode (Attributes i) AND S_IFMT = S_IFLNK \<and> (\<exists>link. Instance i = SymbolicLink link))"

definition inode_ok :: "bb_state \<Rightarrow> addr \<Rightarrow> bitbucket_inode \<Rightarrow> bool" where
  "inode_ok s a i \<longleftrightarrow> a \<noteq> NULL \<and> PrivateTable i \<and> Table i \<and> table_map s (st_ino (Attributes i)) = Some a
     \<and> InodeLength i = Length i - public_inode_offset \<and> xattr_ok s i \<and> kind_ok s i
     \<and> (\<exists>h. Objects s a = Some h \<and> header_ok h \<and> DataLength h = Length i)"

text \<open>Extended attributes and storage files belong to one inode each.\<close>

definition map_name :: "bitbucket_inode \<Rightarrow> string option" where
  "map_name i = (case Instance i of File f \<Rightarrow> MapName f | _ \<Rightarrow> None)"

definition owners_ok :: "bb_state \<Rightarrow> bool" where
  "owners_ok s \<longleftrightarrow> (\<forall>a b i j. Inodes s a = Some i \<and> Inodes s b = Some j \<and> a \<noteq> b \<longrightarrow>
     set (ExtendedAttributes i) \<inter> set (ExtendedAttributes j) = {} \<and> (map_name i \<noteq> None \<longrightarrow> map_name i \<noteq> map_name j))"

definition entries_ok :: "bb_state \<Rightarrow> bool" where
  "entries_ok s \<longleftrightarrow> (\<forall>a d. dirs s a = Some d \<longrightarrow> indexed (dirent_name s) (Entries d) (Children d))
     \<and> (\<forall>a b d d'. dirs s a = Some d \<and> dirs s b = Some d' \<and> a \<noteq> b \<longrightarrow> set (Entries d) \<inter> set (Entries d') = {})"

definition entries_of :: "bb_state \<Rightarrow> addr \<Rightarrow> addr set" where
  "entries_of s a = {e. \<exists>de. Dirents s e = Some de \<and> de_Inode de = a}"

definition children_of :: "bb_state \<Rightarrow> addr \<Rightarrow> addr set" where
  "children_of s a = {c. \<exists>d. dirs s c = Some d \<and> Parent d = a}"

definition reason_count :: "bb_state \<Rightarrow> addr \<Rightarrow> nat \<Rightarrow> nat" where
  "reason_count s a r = (case Objects s a of None \<Rightarrow> 0 | Some h \<Rightarrow> unat (ReferenceReasons h ! r))"

definition refs_ok :: "bb_state \<Rightarrow> bool" where
  "refs_ok s \<longleftrightarrow> (\<forall>e de. Dirents s e = Some de \<longrightarrow> Inodes s (de_Inode de) \<noteq> None)
     \<and> (\<forall>c d. dirs s c = Some d \<and> Parent d \<noteq> NULL \<longrightarrow> Inodes s (Parent d) \<noteq> None)
     \<and> (\<forall>a. Inodes s a \<noteq> None \<longrightarrow> reason_count s a INODE_DIRENT_REFERENCE = card (entries_of s a)
          \<and> reason_count s a INODE_PARENT_REFERENCE = card (children_of s a))"

text \<open>The link count of an inode is the number of names it has in other directories, and one more for a directory.\<close>

definition nlink :: "bb_state \<Rightarrow> addr \<Rightarrow> u64 option" where
  "nlink s a = map_option (\<lambda>i. st_nlink (Attributes i)) (Inodes s a)"

definition linked :: "bb_state \<Rightarrow> addr \<Rightarrow> addr set" where
  "linked s a = {e. \<exists>b d de. dirs s b = Some d \<and> e \<in> set (Entries d) \<and> Dirents s e = Some de \<and> de_Inode de = a \<and> b \<noteq> a}"

definition links_ok :: "bb_state \<Rightarrow> bool" where
  "links_ok s \<longleftrightarrow> (\<forall>a n. nlink s a = Some n \<longrightarrow> unat n = (if dirs s a = None then 0 else 1) + card (linked s a))"

definition fresh_ok :: "bb_state \<Rightarrow> bool" where
  "fresh_ok s \<longleftrightarrow> 0 < next_addr s \<and> Dirents s NULL = None \<and> (\<forall>x \<ge> next_addr s. Inodes s x = None \<and> Dirents s x = None \<and> Xattrs s x = None)"

definition table_inv :: "bb_state \<Rightarrow> bool" where
  "table_inv s \<longleftrightarrow> itable_ok s \<and> quiet s \<and> finite (dom (Inodes s)) \<and> InodeCount (InodeTable s) = of_nat (card (dom (Inodes s)))"

definition fs_inv :: "bb_state \<Rightarrow> bool" where
  "fs_inv s \<longleftrightarrow> table_inv s \<and> (\<forall>a i. Inodes s a = Some i \<longrightarrow> inode_ok s a i) \<and> owners_ok s
     \<and> finite (dom (Dirents s)) \<and> entries_ok s \<and> refs_ok s \<and> fresh_ok s \<and> links_ok s"

text \<open>No thread is inside an operation.\<close>

definition idle :: "bb_state \<Rightarrow> bool" where
  "idle s \<longleftrightarrow> (\<forall>a i. Inodes s a = Some i \<longrightarrow> InodeLock i = Unlocked)"

lemma touch_dirs: "touch s t \<Longrightarrow> dirs t = dirs s"
proof
  fix a
  assume t: "touch s t"
  show "dirs t a = dirs s a"
  proof (cases "Inodes s a")
    case None
    then have "Inodes t a = None"
      using touch_None [OF t] by blast
    with None show ?thesis
      by (simp add: dirs_def)
  next
    case (Some i)
    with t obtain j where "Inodes t a = Some j" and c: "core j = core i"
      by (rule touch_Some)
    with Some show ?thesis
      using core_eqD(9) [OF c] by (simp add: dirs_def)
  qed
qed

lemma touch_dom: "touch s t \<Longrightarrow> dom (Inodes t) = dom (Inodes s)"
  by (simp only: dom_def touch_None)

lemma same_table_ok:
  assumes "same_table (InodeTable s) (InodeTable t)" "ino_of t = ino_of s" "itable_ok s"
  shows "itable_ok t" "table_map t = table_map s" "quiet t = quiet s" "inode_ready a t \<longleftrightarrow> Inodes t a \<noteq> None \<and> PrivateTable (the (Inodes t a))
    \<and> (\<exists>b. hash_of s (the (ino_of s a)) = Some b \<and> b < BucketCount (InodeTable s) \<and> sharable (BucketLock (bucket s b)))"
proof -
  note T = assms(1) and i = assms(2)
  have h: "hash_of t = hash_of s"
    using T by (simp add: hash_of_def same_table_def fun_eq_iff)
  have c: "same_content (bucket s b) (bucket t b)" for b
    using T by (simp add: same_table_def bucket_def)
  have ok: "bucket_ok s b" for b
    using assms(3) by (simp add: itable_ok_def)
  have "bucket_ok t b" for b
    using ok [of b] c [of b] unfolding bucket_ok_def same_content_def Let_def h i by auto
  then show "itable_ok t"
    using assms(3) T by (simp add: itable_ok_def same_table_def)
  show "table_map t = table_map s"
    using c by (simp add: table_map_def h i same_content_def fun_eq_iff)
  show "quiet t = quiet s"
    using c by (simp add: quiet_def same_content_def)
  have "ino_of s a = Some (st_ino (Attributes i))" if "Inodes t a = Some i" for i
    using that i [symmetric] by (simp add: ino_of_def)
  then show "inode_ready a t \<longleftrightarrow> Inodes t a \<noteq> None \<and> PrivateTable (the (Inodes t a))
    \<and> (\<exists>b. hash_of s (the (ino_of s a)) = Some b \<and> b < BucketCount (InodeTable s) \<and> sharable (BucketLock (bucket s b)))"
    using c T h by (cases "Inodes t a") (auto simp: inode_ready_def same_content_def same_table_def)
qed

lemma kind_ok_cong:
  "\<lbrakk>Storage t = Storage s; RegisteredAttributes j = RegisteredAttributes i; InodeType j = InodeType i; Instance j = Instance i;
    st_size (Attributes j) = st_size (Attributes i); st_mode (Attributes j) AND S_IFMT = st_mode (Attributes i) AND S_IFMT\<rbrakk> \<Longrightarrow> kind_ok t j = kind_ok s i"
  unfolding kind_ok_def using map_releasable_cong [of j i] by (simp split: option.split registered.split)

lemma xattr_ok_cong2:
  "\<lbrakk>Xattrs t = Xattrs s; ExtendedAttributes j = ExtendedAttributes i; ExtendedAttributeTrie j = ExtendedAttributeTrie i\<rbrakk> \<Longrightarrow>
   xattr_ok t j = xattr_ok s i"
  using xattr_ok_cong [of t s i] by (simp add: xattr_ok_def)

section \<open>Locks are touches\<close>

definition lock_of :: "bb_state \<Rightarrow> addr \<Rightarrow> rwlock option" where
  "lock_of s a = map_option InodeLock (Inodes s a)"

lemma idle_lock_of: "idle s \<longleftrightarrow> (\<forall>a l. lock_of s a = Some l \<longrightarrow> l = Unlocked)"
  by (auto simp: idle_def lock_of_def)

lemma idle_Unlocked: "idle s \<Longrightarrow> Inodes s a = Some i \<Longrightarrow> lock_of s a = Some Unlocked"
  by (simp add: idle_def lock_of_def)

lemma lock_of_Some: "lock_of s a = Some l \<Longrightarrow> \<exists>i. Inodes s a = Some i \<and> InodeLock i = l"
  by (auto simp: lock_of_def)

lemma lock_of_simps [simp]:
  "lock_of (set_inode a i s) = (lock_of s)(a \<mapsto> InodeLock i)" "lock_of (set_header a h s) = lock_of s"
  "lock_of (set_bucket b B s) = lock_of s" "lock_of (s\<lparr>Tick := n\<rparr>) = lock_of s" "lock_of (s\<lparr>Dirents := D\<rparr>) = lock_of s"
  "lock_of (s\<lparr>next_addr := n\<rparr>) = lock_of s"
  by (auto simp: lock_of_def set_inode_def set_header_def set_bucket_def)

lemma touch_set_inode: "Inodes s a = Some i \<Longrightarrow> core j = core i \<Longrightarrow> touch s (set_inode a j s)"
  by (auto simp: touch_def same_table_def set_inode_def)

lemma touch_tick [simp]: "Tick s \<le> n \<Longrightarrow> touch s (s\<lparr>Tick := n\<rparr>)"
  by (simp add: touch_def same_table_def)

lemma touch_bucket: "same_content (bucket s b) B \<Longrightarrow> touch s (set_bucket b B s)"
  by (simp add: touch_def same_table_def set_bucket_def bucket_def)

lemma core_simps [simp]:
  "core (i\<lparr>InodeLock := l\<rparr>) = core i" "core (i\<lparr>Epoch := e\<rparr>) = core i" "core (i\<lparr>InodeLock := l, Epoch := e\<rparr>) = core i" "core (locked l x i) = core i" "core (changed now i) = core i"
  by (simp_all add: core_def locked_def changed_def)

lemma lock_excl:
  assumes "lock_of s a = Some Unlocked"
  shows "\<exists>t. BitbucketLockInode a True s = Some t \<and> touch s t \<and> lock_of t = (lock_of s)(a \<mapsto> Exclusive)"
proof -
  obtain i where i: "Inodes s a = Some i" "InodeLock i = Unlocked"
    using lock_of_Some [OF assms] by blast
  then show ?thesis
    using lock_exclusive [OF i] touch_set_inode [OF i(1)] by (simp add: locked_def)
qed

lemma lock_shared:
  assumes "lock_of s a = Some Unlocked"
  shows "\<exists>t. BitbucketLockInode a False s = Some t \<and> touch s t \<and> lock_of t = (lock_of s)(a \<mapsto> Shared 1)"
proof -
  obtain i where i: "Inodes s a = Some i" "InodeLock i = Unlocked"
    using lock_of_Some [OF assms] by blast
  then show ?thesis
    using touch_set_inode [OF i(1)] by (simp add: BitbucketLockInode_def)
qed

lemma trylock_excl:
  assumes "lock_of s a = Some Unlocked"
  shows "\<exists>t. BitbucketTryLockInode a True s = Some (0, t) \<and> touch s t \<and> lock_of t = (lock_of s)(a \<mapsto> Exclusive)"
proof -
  obtain i where i: "Inodes s a = Some i" "InodeLock i = Unlocked"
    using lock_of_Some [OF assms] by blast
  then show ?thesis
    using touch_set_inode [OF i(1)] by (simp add: BitbucketTryLockInode_def)
qed

lemma ensure_locked:
  assumes "lock_of s a = Some (Shared 1)"
  shows "\<exists>t. EnsureInodeLockedAgainstChanges a s = Some t \<and> touch s t \<and> lock_of t = lock_of s"
proof -
  obtain i where i: "Inodes s a = Some i" "InodeLock i = Shared 1"
    using lock_of_Some [OF assms] by blast
  then have "(lock_of s)(a \<mapsto> Shared 1) = lock_of s"
    using assms by (simp add: fun_upd_idem)
  then show ?thesis
    using i touch_set_inode [OF i(1)]
    by (simp add: EnsureInodeLockedAgainstChanges_def BitbucketTryLockInode_def)
qed

lemma unlock:
  assumes "lock_of s a = Some l" "l = Exclusive \<or> l = Shared 1"
  shows "\<exists>t. BitbucketUnlockInode a s = Some t \<and> touch s t \<and> lock_of t = (lock_of s)(a \<mapsto> Unlocked)"
proof -
  obtain i where i: "Inodes s a = Some i" "InodeLock i = l"
    using lock_of_Some [OF assms(1)] by blast
  show ?thesis
  proof (cases "l = Exclusive")
    case True
    let ?s = "s\<lparr>Tick := Suc (Tick s)\<rparr>" and ?j = "changed (Clock (Environment s) (Tick s)) i"
    have "touch s (set_inode a ?j ?s)"
      by (rule touch_trans [OF touch_tick touch_set_inode [of _ _ i]]) (simp_all add: i(1))
    then show ?thesis
      using unlock_exclusive [OF i(1)] i(2) True by (simp add: changed_def)
  next
    case False
    with assms(2) i show ?thesis
      using touch_set_inode [OF i(1)] by (simp add: BitbucketUnlockInode_def)
  qed
qed

lemma lock_two:
  assumes "lock_of s a = Some Unlocked" "lock_of s b = Some Unlocked" "a \<noteq> b" "a \<noteq> NULL" "b \<noteq> NULL"
    and "Inodes s a = Some i" "lockable_type (InodeType i)"
  shows "\<exists>t. BitbucketLockTwoInodes a b True s = Some t \<and> touch s t \<and> lock_of t = (lock_of s)(a \<mapsto> Exclusive, b \<mapsto> Exclusive)"
proof -
  obtain j where j: "Inodes s b = Some j" "InodeLock j = Unlocked"
    using lock_of_Some [OF assms(2)] by blast
  have i: "InodeLock i = Unlocked"
    using assms(1,6) by (simp add: lock_of_def)
  let ?t = "set_inode b (locked Exclusive True j) s"
  have "touch s ?t"
    by (rule touch_set_inode [OF j(1)]) simp
  moreover have "touch ?t (set_inode a (locked Exclusive True i) ?t)"
    using assms(3,6) by (intro touch_set_inode [of _ _ i]) (simp_all add: set_inode_def)
  ultimately have "touch s (set_inode a (locked Exclusive True i) ?t)"
    by (rule touch_trans)
  then show ?thesis
    using lock_two_exclusive [OF assms(6) i j assms(3-5,7)] assms(3) by (simp add: locked_def fun_upd_twist)
qed

section \<open>References\<close>

lemma fs_invD:
  assumes "fs_inv s"
  shows "itable_ok s" "quiet s" "finite (dom (Inodes s))" "InodeCount (InodeTable s) = of_nat (card (dom (Inodes s)))"
    "\<And>a i. Inodes s a = Some i \<Longrightarrow> inode_ok s a i" "owners_ok s" "finite (dom (Dirents s))" "entries_ok s" "refs_ok s" "fresh_ok s" "links_ok s"
  using assms by (simp_all add: fs_inv_def table_inv_def)

lemma fs_inv_inode:
  assumes "fs_inv s" "Inodes s a = Some i"
  obtains h where "Objects s a = Some h" "header_ok h" "DataLength h = Length i" "inode_ready a s" "a \<noteq> NULL"
    "table_map s (st_ino (Attributes i)) = Some a"
proof -
  have i: "inode_ok s a i"
    using assms by (simp add: fs_inv_def)
  then have "st_ino (Attributes i) \<noteq> 0"
    by (metis inode_ok_def option.distinct(1) table_map_zero)
  then have "inode_ready a s"
    using i by (intro ready_quiet [OF fs_invD(1,2) [OF assms(1)] assms(2)]) (simp_all add: inode_ok_def)
  with i that show ?thesis
    by (auto simp: inode_ok_def)
qed

section \<open>Updates of counters, entries and directories\<close>

text \<open>What an update of directories leaves of an inode.\<close>

definition shape :: "bitbucket_inode \<Rightarrow> bitbucket_inode" where
  "shape i = (core i)\<lparr>Attributes := (Attributes (core i))\<lparr>st_nlink := 0\<rparr>,
     Instance := (case Instance i of Directory d \<Rightarrow> Directory \<lparr>Parent = NULL, Entries = [], Children = None\<rparr> | x \<Rightarrow> x)\<rparr>"

lemma shape_eqD:
  assumes "shape j = shape i"
  shows "Length j = Length i" "RegisteredAttributes j = RegisteredAttributes i" "PrivateTable j = PrivateTable i"
    "InodeLength j = InodeLength i" "InodeType j = InodeType i" "Table j = Table i"
    "ExtendedAttributes j = ExtendedAttributes i" "ExtendedAttributeTrie j = ExtendedAttributeTrie i"
    "st_ino (Attributes j) = st_ino (Attributes i)" "st_size (Attributes j) = st_size (Attributes i)"
    "Instance j = Instance i \<or> (\<exists>d e. Instance j = Directory d \<and> Instance i = Directory e)"
    "st_mode (Attributes j) AND S_IFMT = st_mode (Attributes i) AND S_IFMT"
proof -
  have eq: "f (shape j) = f (shape i)" for f :: "bitbucket_inode \<Rightarrow> 'c"
    using assms by simp
  show "Length j = Length i" "RegisteredAttributes j = RegisteredAttributes i" "PrivateTable j = PrivateTable i"
    "InodeLength j = InodeLength i" "InodeType j = InodeType i" "Table j = Table i"
    "ExtendedAttributes j = ExtendedAttributes i" "ExtendedAttributeTrie j = ExtendedAttributeTrie i"
    using eq [of Length] eq [of RegisteredAttributes] eq [of PrivateTable] eq [of InodeLength] eq [of InodeType]
      eq [of Table] eq [of ExtendedAttributes] eq [of ExtendedAttributeTrie]
    by (simp_all add: shape_def core_def)
  show "st_ino (Attributes j) = st_ino (Attributes i)" "st_size (Attributes j) = st_size (Attributes i)"
    "st_mode (Attributes j) AND S_IFMT = st_mode (Attributes i) AND S_IFMT"
    using eq [of "\<lambda>x. st_ino (Attributes x)"] eq [of "\<lambda>x. st_size (Attributes x)"] eq [of "\<lambda>x. st_mode (Attributes x)"] by (simp_all add: shape_def core_def)
  show "Instance j = Instance i \<or> (\<exists>d e. Instance j = Directory d \<and> Instance i = Directory e)"
    using eq [of Instance] by (auto simp: shape_def split: instance_data.splits)
qed

lemma shape_kind:
  assumes "shape j = shape i" "Storage t = Storage s"
  shows "kind_ok t j = kind_ok s i" "map_name j = map_name i"
proof -
  note sh = shape_eqD [OF assms(1)]
  show "kind_ok t j = kind_ok s i"
  proof (cases "Instance j = Instance i")
    case True
    then show ?thesis
      by (rule kind_ok_cong [OF assms(2) sh(2,5) _ sh(10,12)])
  next
    case False
    with sh(11) obtain d e where "Instance j = Directory d" "Instance i = Directory e"
      by blast
    then show ?thesis
      using sh(2,5,12) by (simp add: kind_ok_def split: option.split registered.split)
  qed
  show "map_name j = map_name i"
    using sh(11) by (auto simp: map_name_def)
qed

lemma core_shape: "core j = core i \<Longrightarrow> shape j = shape i"
  using core_eqD(9) [of j i] by (simp add: shape_def)

lemma shape_simps [simp]:
  "shape (increment_nlink i) = shape i" "shape (decrement_nlink i) = shape i"
  "Instance i = Directory d \<Longrightarrow> shape (set_directory d' i) = shape i"
  by (simp_all add: shape_def increment_nlink_def decrement_nlink_def set_directory_def core_def)

lemma shapes_ino_of:
  assumes "\<And>a. map_option shape (Inodes t a) = map_option shape (Inodes s a)"
  shows "ino_of t = ino_of s" "dom (Inodes t) = dom (Inodes s)"
proof -
  show "ino_of t = ino_of s"
  proof
    fix a
    show "ino_of t a = ino_of s a"
    proof (cases "Inodes s a")
      case (Some i)
      then obtain j where "Inodes t a = Some j" and j: "shape j = shape i"
        using assms [of a] by auto
      with Some show ?thesis
        using shape_eqD(9) [OF j] by (simp add: ino_of_def)
    qed (use assms [of a] in \<open>simp add: ino_of_def\<close>)
  qed
  have "Inodes t a = None \<longleftrightarrow> Inodes s a = None" for a
    using assms [of a] by (metis option.map_disc_iff)
  then show "dom (Inodes t) = dom (Inodes s)"
    by (simp only: dom_def)
qed

text \<open>What all directory operations leave as it is.\<close>

definition frame :: "bb_state \<Rightarrow> bb_state \<Rightarrow> bool" where
  "frame s t \<longleftrightarrow> same_table (InodeTable s) (InodeTable t) \<and> Xattrs t = Xattrs s \<and> Storage t = Storage s
     \<and> VerifyDirectoriesEnabled t = VerifyDirectoriesEnabled s \<and> Environment t = Environment s \<and> InodeNumbers t = InodeNumbers s
     \<and> ObjectCount t = ObjectCount s \<and> (\<forall>a. map_option shape (Inodes t a) = map_option shape (Inodes s a)) \<and> Tick s \<le> Tick t"

lemma frame_refl [simp]: "frame s s"
  by (simp add: frame_def same_table_def)

lemma same_table_trans: "same_table T U \<Longrightarrow> same_table U V \<Longrightarrow> same_table T V"
  using same_content_trans unfolding same_table_def by metis

lemma frame_trans: "frame s t \<Longrightarrow> frame t u \<Longrightarrow> frame s u"
  using same_table_trans unfolding frame_def by auto

lemma touch_frame:
  assumes "touch s t"
  shows "frame s t"
proof -
  have "map_option shape (Inodes t a) = map_option shape (Inodes s a)" for a
  proof (cases "Inodes s a")
    case (Some i)
    with assms obtain j where "Inodes t a = Some j" and c: "core j = core i"
      by (rule touch_Some)
    with Some show ?thesis
      using core_shape [OF c] by simp
  next
    case None
    then have "Inodes t a = None"
      using touch_None [OF assms] by blast
    with None show ?thesis
      by simp
  qed
  then show ?thesis
    using touchD(2,6-11,13) [OF assms] by (simp add: frame_def)
qed

lemma frame_dom: "frame s t \<Longrightarrow> Inodes t a = None \<longleftrightarrow> Inodes s a = None"
  unfolding frame_def by (metis option.map_disc_iff)

text \<open>What the clients of the directories see of such a step.\<close>

definition rest :: "bb_state \<Rightarrow> (addr \<Rightarrow> u64 option) \<times> (addr \<Rightarrow> registered option) \<times> inode_numbers \<times> environment" where
  "rest s = (ino_of s, kind_of s, InodeNumbers s, Environment s)"

lemma frame_rest:
  assumes "frame s t"
  shows "rest t = rest s" "Storage t = Storage s" "Tick s \<le> Tick t"
proof -
  have sh: "map_option shape (Inodes t a) = map_option shape (Inodes s a)" for a
    using assms by (simp add: frame_def)
  have "kind_of t a = kind_of s a" for a
    using sh [of a] by (cases "Inodes s a"; cases "Inodes t a") (auto simp: kind_of_def dest: shape_eqD(2))
  then show "rest t = rest s" "Storage t = Storage s" "Tick s \<le> Tick t"
    using assms shapes_ino_of(1) [OF sh] by (simp_all add: frame_def rest_def fun_eq_iff)
qed

lemma fs_inv_update:
  assumes inv: "fs_inv s" and frame: "frame s t"
    and headers: "\<And>a i h. Inodes s a = Some i \<Longrightarrow> Objects s a = Some h \<Longrightarrow> header_ok h \<Longrightarrow>
      \<exists>h'. Objects t a = Some h' \<and> header_ok h' \<and> DataLength h' = DataLength h"
    and new: "finite (dom (Dirents t))" "entries_ok t" "refs_ok t" "fresh_ok t" "links_ok t"
  shows "fs_inv t"
proof -
  have shapes: "map_option shape (Inodes t a) = map_option shape (Inodes s a)" for a
    using frame by (simp add: frame_def)
  have same: "same_table (InodeTable s) (InodeTable t)" "Xattrs t = Xattrs s" "Storage t = Storage s"
    using frame by (simp_all add: frame_def)
  note s = fs_invD [OF inv] and i = shapes_ino_of [OF shapes]
  have old: "\<exists>i. Inodes s a = Some i \<and> shape j = shape i" if "Inodes t a = Some j" for a j
    using shapes [of a] that by (cases "Inodes s a") auto
  note T = same_table_ok [OF same(1) i(1) s(1)]
  have "table_inv t"
    using s(2,3,4) T(1,3) i(2) same(1) by (simp add: table_inv_def same_table_def)
  moreover have "inode_ok t a j" if j: "Inodes t a = Some j" for a j
  proof -
    obtain i where i: "Inodes s a = Some i" and sh: "shape j = shape i"
      using old [OF j] by blast
    have "inode_ok s a i"
      using s(5) [OF i] .
    then obtain h where "Objects s a = Some h" "header_ok h" "DataLength h = Length i"
      by (auto simp: inode_ok_def)
    then have "\<exists>h'. Objects t a = Some h' \<and> header_ok h' \<and> DataLength h' = Length i"
      using headers [OF i] by auto
    then show ?thesis
      using \<open>inode_ok s a i\<close> shape_eqD [OF sh] shape_kind [OF sh same(3)] xattr_ok_cong2 [OF same(2), of j i] T(2)
      by (simp add: inode_ok_def)
  qed
  moreover have "owners_ok t"
    unfolding owners_ok_def
  proof (intro allI impI)
    fix a b i j
    assume ab: "Inodes t a = Some i \<and> Inodes t b = Some j \<and> a \<noteq> b"
    obtain i' j' where i: "Inodes s a = Some i'" and ci: "shape i = shape i'" and j: "Inodes s b = Some j'" and cj: "shape j = shape j'"
      using old [of a i] old [of b j] ab by blast
    show "set (ExtendedAttributes i) \<inter> set (ExtendedAttributes j) = {} \<and> (map_name i \<noteq> None \<longrightarrow> map_name i \<noteq> map_name j)"
      using s(6) i j ab shape_eqD(7) [OF ci] shape_eqD(7) [OF cj] shape_kind(2) [OF ci refl] shape_kind(2) [OF cj refl]
      unfolding owners_ok_def by metis
  qed
  ultimately show ?thesis
    using new by (simp add: fs_inv_def)
qed

lemma touch_nlink: "touch s t \<Longrightarrow> nlink t = nlink s"
proof
  fix a
  assume t: "touch s t"
  show "nlink t a = nlink s a"
  proof (cases "Inodes s a")
    case None
    then have "Inodes t a = None"
      using touch_None [OF t] by blast
    with None show ?thesis
      by (simp add: nlink_def)
  next
    case (Some i)
    with t obtain j where "Inodes t a = Some j" and c: "core j = core i"
      by (rule touch_Some)
    with Some show ?thesis
      using core_eqD(12) [OF c] by (simp add: nlink_def)
  qed
qed

text \<open>The views that the directory part of the invariant is about.\<close>

lemma views_ok:
  assumes "dirs t = dirs s" "Dirents t = Dirents s" "\<And>a. Inodes t a = None \<longleftrightarrow> Inodes s a = None"
  shows "entries_ok t = entries_ok s" "dir_map t = dir_map s" "entries_of t = entries_of s" "children_of t = children_of s"
proof -
  have "dirent_name t = dirent_name s"
    using assms by (simp add: dirent_name_def fun_eq_iff)
  then show "entries_ok t = entries_ok s"
    using assms(1) by (simp add: entries_ok_def)
  show "dir_map t = dir_map s" "entries_of t = entries_of s" "children_of t = children_of s"
    using assms by (auto simp: dir_map_def entries_of_def children_of_def fun_eq_iff)
qed

lemma refs_ok_cong:
  assumes "dirs t = dirs s" "Dirents t = Dirents s" "\<And>a. Inodes t a = None \<longleftrightarrow> Inodes s a = None"
    and "\<And>a. reason_count t a 1 = reason_count s a 1" "\<And>a. reason_count t a 2 = reason_count s a 2"
  shows "refs_ok t = refs_ok s"
  by (simp only: refs_ok_def views_ok [OF assms(1-3)] assms)

lemma linked_cong:
  assumes "\<And>b e. (\<exists>d. dirs t b = Some d \<and> e \<in> set (Entries d)) \<longleftrightarrow> (\<exists>d. dirs s b = Some d \<and> e \<in> set (Entries d))" "Dirents t = Dirents s"
  shows "linked t a = linked s a"
  unfolding linked_def assms(2) using assms(1) by blast

lemma links_ok_cong: "dirs t = dirs s \<Longrightarrow> Dirents t = Dirents s \<Longrightarrow> nlink t = nlink s \<Longrightarrow> links_ok t = links_ok s"
  by (simp add: links_ok_def linked_def)

lemma fs_inv_touch:
  assumes "fs_inv s" "touch s t"
  shows "fs_inv t"
proof (rule fs_inv_update [OF assms(1) touch_frame [OF assms(2)]])
  note t = touchD [OF assms(2)] touch_dirs [OF assms(2)] touch_None [OF assms(2)] and s = fs_invD [OF assms(1)]
  have "reason_count t = reason_count s"
    using t(1) by (simp add: reason_count_def fun_eq_iff)
  then show "entries_ok t" "refs_ok t"
    using views_ok(1) [OF t(14,5,15)] refs_ok_cong [OF t(14,5,15)] s by simp_all
  show "fresh_ok t"
    using s(10) unfolding fresh_ok_def t(4,5,6,15) .
  show "finite (dom (Dirents t))" "links_ok t"
    using s(7,11) t(5) links_ok_cong [OF t(14,5) touch_nlink [OF assms(2)]] by simp_all
  show "\<exists>h'. Objects t a = Some h' \<and> header_ok h' \<and> DataLength h' = DataLength h"
    if "Inodes s a = Some i" "Objects s a = Some h" "header_ok h" for a i h
    using t(1) that by simp
qed

section \<open>Counters\<close>

lemma frame_ready:
  assumes "frame s t" "inode_ready a s"
  shows "inode_ready a t"
proof -
  obtain i b where i: "Inodes s a = Some i" "PrivateTable i" "hash_of s (st_ino (Attributes i)) = Some b"
     "b < BucketCount (InodeTable s)" "sharable (BucketLock (bucket s b))"
    using assms(2) unfolding inode_ready_def by blast
  have T: "same_table (InodeTable s) (InodeTable t)" and "map_option shape (Inodes t a) = map_option shape (Inodes s a)"
    using assms(1) by (simp_all add: frame_def)
  then obtain j where j: "Inodes t a = Some j" and sh: "shape j = shape i"
    using i(1) by auto
  have "hash_of t = hash_of s" "BucketLock (bucket t b) = BucketLock (bucket s b)" "BucketCount (InodeTable t) = BucketCount (InodeTable s)"
    using T by (simp_all add: hash_of_def bucket_def same_table_def same_content_def fun_eq_iff)
  then show ?thesis
    using i j shape_eqD(3,9) [OF sh] by (simp add: inode_ready_def)
qed

lemma frame_header [simp]: "frame s (set_header a h s)" "frame s (s\<lparr>Dirents := D\<rparr>)" "frame s (s\<lparr>next_addr := n\<rparr>)" "frame s (s\<lparr>next_addr := n, Dirents := D\<rparr>)"
  by (simp_all add: frame_def same_table_def set_header_def)

lemma reference_inode:
  assumes "inode_ready a s" "Objects s a = Some h" "header_ok h" "r < 12"
  shows "BitbucketReferenceInode a r s = Some (set_header a (add_reference r h) s)"
proof -
  have "ReferenceCount h \<noteq> 0"
    using assms(3) by (simp add: header_ok_def)
  moreover obtain i where "Inodes s a = Some i"
    using assms(1) by (auto simp: inode_ready_def)
  ultimately show ?thesis
    using iob.reference [OF assms(1,2,4)] reason_le_total_word [OF assms(3,4)] by (simp add: BitbucketReferenceInode_def)
qed

definition drop_reference :: "nat \<Rightarrow> object_header \<Rightarrow> object_header" where
  "drop_reference r h = sub_reason r 1 (sub_count 1 h)"

lemma one_le_reason: "ReferenceReasons h ! r \<noteq> 0 \<Longrightarrow> 1 \<le> (ucast (ReferenceReasons h ! r) :: u64)"
  by (simp add: word_le_nat_alt unat_ucast_reason Suc_le_eq unat_gt_0)

lemma one_less_word: "x \<noteq> 0 \<Longrightarrow> x \<noteq> 1 \<Longrightarrow> 1 < (x::u64)"
proof -
  assume "x \<noteq> 0" "x \<noteq> 1"
  then have "1 \<le> x"
    by (simp add: word_le_nat_alt Suc_le_eq unat_gt_0)
  with \<open>x \<noteq> 1\<close> show ?thesis
    by auto
qed

lemma dereference_inode:
  assumes "inode_ready a s" "Objects s a = Some h" "header_ok h" "r < 12" "ReferenceReasons h ! r \<noteq> 0" "ReferenceCount h \<noteq> 1"
  shows "BitbucketDereferenceInode a r 1 s = Some (set_header a (drop_reference r h) s)"
proof -
  have "1 < ReferenceCount h"
    using assms(3,6) by (intro one_less_word) (simp_all add: header_ok_def)
  moreover obtain i where "Inodes s a = Some i"
    using assms(1) by (auto simp: inode_ready_def)
  ultimately show ?thesis
    using iob.dereference_keeps [OF assms(1,2,4) _ one_le_reason [OF assms(5)]] by (simp add: BitbucketDereferenceInode_def drop_reference_def)
qed

lemma header_ok_drop:
  assumes "header_ok h" "r < 12" "ReferenceReasons h ! r \<noteq> 0" "ReferenceCount h \<noteq> 1"
  shows "header_ok (drop_reference r h)"
  unfolding drop_reference_def
  using assms by (intro header_ok_sub one_le_reason one_less_word) (simp_all add: header_ok_def)

text \<open>No counter is about to wrap around.\<close>

definition room :: "bb_state \<Rightarrow> addr \<Rightarrow> nat \<Rightarrow> bool" where
  "room s a r \<longleftrightarrow> reason_count s a r < 2 ^ 32 - 1"

lemma room_header: "room s a r \<Longrightarrow> Objects s a = Some h \<Longrightarrow> ReferenceReasons h ! r \<noteq> - 1"
  by (auto simp: room_def reason_count_def unsigned_minus_1_eq_mask mask_eq_exp_minus_1)

lemma add_reference_counts:
  assumes "header_ok h" "r < 12" "ReferenceReasons h ! r \<noteq> - 1"
  shows "unat (ReferenceReasons (add_reference r h) ! q) = unat (ReferenceReasons h ! q) + (if q = r then 1 else 0)"
    "DataLength (add_reference r h) = DataLength h"
proof -
  have "ReferenceReasons h ! r + 1 \<noteq> 0"
    using assms(3) by (simp add: add_eq_0_iff add.commute)
  then show "unat (ReferenceReasons (add_reference r h) ! q) = unat (ReferenceReasons h ! q) + (if q = r then 1 else 0)"
    using assms(1,2) unatSuc [of "ReferenceReasons h ! r"]
    by (cases "q = r") (simp_all add: add_reference_def header_ok_def add.commute)
qed (simp add: add_reference_def)

lemma drop_reference_counts:
  assumes "header_ok h" "r < 12" "ReferenceReasons h ! r \<noteq> 0"
  shows "unat (ReferenceReasons (drop_reference r h) ! q) = unat (ReferenceReasons h ! q) - (if q = r then 1 else 0)"
    "DataLength (drop_reference r h) = DataLength h"
  using assms unat_sub_reason(1) [OF one_le_reason [OF assms(3)]]
  by (auto simp: drop_reference_def sub_reason_def sub_count_def header_ok_def)

lemma reason_count_set_header:
  "reason_count (set_header a h s) b q = (if b = a then unat (ReferenceReasons h ! q) else reason_count s b q)"
  by (simp add: reason_count_def set_header_def)

lemma set_header_views [simp]:
  "dirs (set_header a h s) = dirs s" "Dirents (set_header a h s) = Dirents s" "Inodes (set_header a h s) = Inodes s"
  "next_addr (set_header a h s) = next_addr s" "Xattrs (set_header a h s) = Xattrs s" "nlink (set_header a h s) = nlink s"
  by (simp_all add: set_header_def dirs_def nlink_def fun_eq_iff)

lemma fs_inv_header:
  assumes "fs_inv s" "Objects s a = Some h" "header_ok h \<Longrightarrow> header_ok h'" "DataLength h' = DataLength h"
    and "ReferenceReasons h' ! 1 = ReferenceReasons h ! 1" "ReferenceReasons h' ! 2 = ReferenceReasons h ! 2"
  shows "fs_inv (set_header a h' s)"
proof (rule fs_inv_update [OF assms(1) frame_header(1)])
  note s = fs_invD [OF assms(1)]
  have "reason_count (set_header a h' s) b 1 = reason_count s b 1" "reason_count (set_header a h' s) b 2 = reason_count s b 2" for b
    using assms(2,5,6) by (simp_all add: reason_count_set_header) (simp_all add: reason_count_def)
  then show "entries_ok (set_header a h' s)" "refs_ok (set_header a h' s)"
    using views_ok(1) [of "set_header a h' s" s] refs_ok_cong [of "set_header a h' s" s] s(8,9) by simp_all
  show "finite (dom (Dirents (set_header a h' s)))" "fresh_ok (set_header a h' s)" "links_ok (set_header a h' s)"
    using s(7,10,11) links_ok_cong [of "set_header a h' s" s] by (simp_all add: fresh_ok_def)
qed (use assms(2-4) in \<open>auto simp: set_header_def\<close>)

lemma fs_inv_add:
  assumes "fs_inv s" "Objects s a = Some h" "r < 12" "r \<noteq> 1" "r \<noteq> 2" "room s a r"
  shows "fs_inv (set_header a (add_reference r h) s)"
  using assms header_ok_add [OF _ assms(3) room_header [OF assms(6,2)]]
  by (intro fs_inv_header [OF assms(1,2)]) (simp_all add: add_reference_def)

lemma fs_inv_drop:
  assumes "fs_inv s" "Objects s a = Some h" "r < 12" "r \<noteq> 1" "r \<noteq> 2" "ReferenceReasons h ! r \<noteq> 0" "ReferenceCount h \<noteq> 1"
  shows "fs_inv (set_header a (drop_reference r h) s)"
  using assms header_ok_drop [OF _ assms(3,6,7)]
  by (intro fs_inv_header [OF assms(1,2)]) (simp_all add: drop_reference_def sub_reason_def sub_count_def)

end
