(* ===== verification/DirProps.thy ===== *)
theory DirProps
  imports FsInv
begin

text \<open>
  The directory operations keep the invariant of the file system and implement maps from
  names to inodes.  Each operation is followed step by step; the steps between the
  updates of entries are touches or changes of counters.
\<close>

section \<open>A new entry\<close>

lemma entries_finite: "fs_inv s \<Longrightarrow> finite (entries_of s a)"
  by (rule finite_subset [OF _ fs_invD(7)]) (auto simp: entries_of_def)

lemma entry_live:
  assumes "fs_inv s" "dirs s a = Some d" "e \<in> set (Entries d)"
  shows "\<exists>de. Dirents s e = Some de \<and> TrieSearch (Children d) (de_Name de) = Some e \<and> Inodes s (de_Inode de) \<noteq> None"
proof -
  have "indexed (dirent_name s) (Entries d) (Children d)"
    using fs_invD(8) [OF assms(1)] assms(2) by (simp add: entries_ok_def)
  with assms(3) obtain n where n: "dirent_name s e = Some n" "TrieSearch (Children d) n = Some e"
    unfolding indexed_def by blast
  then obtain de where de: "Dirents s e = Some de" "de_Name de = n"
    by (auto simp: dirent_name_def)
  with n show ?thesis
    using fs_invD(9) [OF assms(1)] unfolding refs_ok_def by blast
qed

lemma found_entry:
  assumes "fs_inv s" "dirs s a = Some d" "TrieSearch (Children d) n = Some e"
  shows "e \<in> set (Entries d) \<and> (\<exists>de. Dirents s e = Some de \<and> de_Name de = n \<and> dir_map s a n = Some (de_Inode de) \<and> Inodes s (de_Inode de) \<noteq> None)"
proof -
  have "indexed (dirent_name s) (Entries d) (Children d)"
    using fs_invD(8) [OF assms(1)] assms(2) by (simp add: entries_ok_def)
  from indexed_member [OF this assms(3)] have e: "e \<in> set (Entries d)" "dirent_name s e = Some n"
    by auto
  then obtain de where "Dirents s e = Some de" "de_Name de = n"
    by (auto simp: dirent_name_def)
  with entry_live [OF assms(1,2) e(1)] e assms(2,3) show ?thesis
    by (auto simp: dir_map_def)
qed

lemma search_dir_map: "fs_inv s \<Longrightarrow> dirs s a = Some d \<Longrightarrow> TrieSearch (Children d) n = None \<longleftrightarrow> dir_map s a n = None"
  using found_entry [of s a d n] by (cases "TrieSearch (Children d) n") (auto simp: dir_map_def)

lemma new_dirent_refs:
  assumes "fs_inv s" "Inodes s inode = Some j" "Objects s inode = Some h" "room s inode 2" "Dirents s e = None"
    and "\<And>a. Inodes t a = None \<longleftrightarrow> Inodes s a = None" "Dirents t = (Dirents s)(e \<mapsto> de)" "de_Inode de = inode"
    and "Objects t = (Objects s)(inode \<mapsto> add_reference 2 h)" "\<And>a. children_of t a = children_of s a"
    and "\<And>c d. dirs t c = Some d \<Longrightarrow> \<exists>d'. dirs s c = Some d' \<and> Parent d' = Parent d"
  shows "refs_ok t"
proof -
  have h: "header_ok h"
    using fs_invD(5) [OF assms(1,2)] assms(3) by (simp add: inode_ok_def)
  note c = add_reference_counts(1) [OF h _ room_header [OF assms(4,3)]]
  have r: "reason_count t a q = reason_count s a q + (if a = inode \<and> q = 2 then 1 else 0)" for a q
    using c [of q] assms(3,9) by (cases "a = inode") (auto simp: reason_count_def)
  have en: "entries_of t a = (if a = inode then insert e (entries_of s a) else entries_of s a)" for a
    using assms(5,7,8) by (auto simp: entries_of_def)
  have "card (entries_of t a) = card (entries_of s a) + (if a = inode then 1 else 0)" for a
    using entries_finite [OF assms(1)] assms(5) by (auto simp: en) (auto simp: entries_of_def)
  then have "\<forall>a. Inodes t a \<noteq> None \<longrightarrow> reason_count t a 2 = card (entries_of t a) \<and> reason_count t a 1 = card (children_of t a)"
    using fs_invD(9) [OF assms(1)] r assms(6,10) unfolding refs_ok_def by simp
  moreover have "\<forall>e de. Dirents t e = Some de \<longrightarrow> Inodes t (de_Inode de) \<noteq> None"
    using fs_invD(9) [OF assms(1)] assms(2,6,7,8) unfolding refs_ok_def by auto
  moreover have "\<forall>c d. dirs t c = Some d \<and> Parent d \<noteq> NULL \<longrightarrow> Inodes t (Parent d) \<noteq> None"
    using fs_invD(9) [OF assms(1)] assms(6,11) unfolding refs_ok_def by metis
  ultimately show ?thesis
    unfolding refs_ok_def by blast
qed

lemma add_entry_entries:
  assumes "entries_ok s" "dirs s dir = Some d" "name \<noteq> []" "TrieSearch (Children d) name = None" "Dirents s e = None"
    and "Dirents t = (Dirents s)(e \<mapsto> de)" "de_Name de = name"
    and "dirs t = (dirs s)(dir \<mapsto> d\<lparr>Children := trie_insert_at (trie_root (Children d)) name e, Entries := e # Entries d\<rparr>)"
  shows "entries_ok t"
    "TrieSearch (trie_insert_at (trie_root (Children d)) name e) = (TrieSearch (Children d))(name \<mapsto> e)"
proof -
  have nm: "dirent_name t x = (if x = e then Some name else dirent_name s x)" for x
    using assms(6,7) by (simp add: dirent_name_def)
  have ix: "indexed (dirent_name s) (Entries d') (Children d')" if "dirs s a = Some d'" for a d'
    using assms(1) that by (auto simp: entries_ok_def)
  have out: "e \<notin> set (Entries d')" if "dirs s a = Some d'" for a d'
    using ix [OF that] assms(5) by (auto simp: indexed_def dirent_name_def)
  have old: "indexed (dirent_name t) (Entries d') (Children d')" if "dirs s a = Some d'" for a d'
    using out [OF that] nm by (intro indexed_mono [OF ix [OF that]]) auto
  note ins = indexed_insert [OF old [OF assms(2)] assms(3,4), of e]
  have "indexed (dirent_name t) (Entries d') (Children d')" if "dirs t a = Some d'" for a d'
    using that assms(8) old [of a d'] ins(1) nm by (cases "a = dir") auto
  moreover have "set (Entries d1) \<inter> set (Entries d2) = {}" if "dirs t a = Some d1" "dirs t b = Some d2" "a \<noteq> b" for a b d1 d2
  proof -
    have "set (Entries d1) \<inter> set (Entries d2) = {}" if "dirs s a = Some d1" "dirs s b = Some d2" "a \<noteq> b" for a b d1 d2
      using assms(1) that by (auto simp: entries_ok_def)
    then show ?thesis
      using that assms(2,8) out by (cases "a = dir"; cases "b = dir") (auto, blast+)
  qed
  ultimately show "entries_ok t"
    unfolding entries_ok_def by blast
  show "TrieSearch (trie_insert_at (trie_root (Children d)) name e) = (TrieSearch (Children d))(name \<mapsto> e)"
    using ins(2) nm by simp
qed

lemma linked_new:
  assumes "fs_inv s" "dirs s dir = Some d" "Dirents s e = None" "Dirents t = (Dirents s)(e \<mapsto> de)" "de_Inode de = inode"
    and "dirs t = (dirs s)(dir \<mapsto> d')" "Entries d' = e # Entries d"
  shows "linked t a = (if a = inode \<and> a \<noteq> dir then insert e (linked s a) else linked s a)"
proof -
  have ne: "x \<noteq> e" if "dirs s b = Some d1" "x \<in> set (Entries d1)" for b d1 x
    using entry_live [OF assms(1) that] assms(3) by auto
  have sub: "linked s a \<subseteq> linked t a"
  proof
    fix x
    assume "x \<in> linked s a"
    then obtain b d1 f where x: "dirs s b = Some d1" "x \<in> set (Entries d1)" "Dirents s x = Some f" "de_Inode f = a" "b \<noteq> a"
      by (auto simp: linked_def)
    moreover from this have "Dirents t x = Some f"
      using ne assms(4) by auto
    ultimately show "x \<in> linked t a"
      using assms(2,6,7) by (cases "b = dir") (auto simp: linked_def intro!: exI [of _ b])
  qed
  have "x = e \<and> a = inode \<and> a \<noteq> dir \<or> x \<in> linked s a" if xt: "x \<in> linked t a" for x
  proof -
    obtain b d1 f where x: "dirs t b = Some d1" "x \<in> set (Entries d1)" "Dirents t x = Some f" "de_Inode f = a" "b \<noteq> a"
      using xt by (auto simp: linked_def)
    show ?thesis
    proof (cases "x = e")
      case True
      then have "b = dir"
        using x assms(6) ne by (auto split: if_splits)
      with True x assms(4,5) show ?thesis
        by auto
    next
      case False
      then have "Dirents s x = Some f"
        using x(3) assms(4) by simp
      with x False assms(2,6,7) show ?thesis
        by (cases "b = dir") (auto simp: linked_def intro!: exI [of _ b])
    qed
  qed
  moreover have "e \<in> linked t a" if "a = inode" "a \<noteq> dir"
    using that assms(4-7) by (auto simp: linked_def intro!: exI [of _ dir])
  ultimately show ?thesis
    using sub by auto
qed

lemma linked_entries: "linked s a \<subseteq> entries_of s a"
  by (auto simp: linked_def entries_of_def)

lemma links_new:
  assumes inv: "fs_inv s" and d: "dirs s dir = Some d" and e: "Dirents s e = None" "Dirents t = (Dirents s)(e \<mapsto> de)" "de_Inode de = inode"
    and d': "dirs t = (dirs s)(dir \<mapsto> d')" "Entries d' = e # Entries d" and j: "Inodes s inode = Some j" "room s inode 2"
    and n: "nlink t = (if inode = dir then nlink s else (nlink s)(inode \<mapsto> st_nlink (Attributes j) + 1))"
  shows "links_ok t"
  unfolding links_ok_def
proof (intro allI impI)
  fix a m
  assume m: "nlink t a = Some m"
  have L: "links_ok s" "refs_ok s"
    using fs_invD [OF inv] by auto
  note l = linked_new [OF inv d e d', of a]
  have "e \<notin> linked s a" "finite (linked s a)"
    using e(1) finite_subset [OF linked_entries entries_finite [OF inv]] by (auto simp: linked_def)
  then have card: "card (linked t a) = card (linked s a) + (if a = inode \<and> a \<noteq> dir then 1 else 0)"
    unfolding l by (cases "a = inode \<and> a \<noteq> dir") auto
  have dirs: "dirs t a = None \<longleftrightarrow> dirs s a = None"
    using d d'(1) by simp
  show "unat m = (if dirs t a = None then 0 else 1) + card (linked t a)"
  proof (cases "a = inode \<and> a \<noteq> dir")
    case True
    then have mj: "m = st_nlink (Attributes j) + 1" and old: "nlink s a = Some (st_nlink (Attributes j))"
      using m n j(1) by (auto simp: nlink_def)
    have "card (linked s a) \<le> card (entries_of s a)"
      by (rule card_mono [OF entries_finite [OF inv] linked_entries])
    moreover have "card (entries_of s a) < 2 ^ 32 - 1"
      using L(2) j True by (simp add: refs_ok_def room_def)
    ultimately have "unat (st_nlink (Attributes j)) < 2 ^ 32"
      using L(1) old by (simp add: links_ok_def)
    then have "unat m = unat (st_nlink (Attributes j)) + 1"
      by (simp add: mj unat_word_ariths)
    then show ?thesis
      using L(1) old card dirs True by (simp add: links_ok_def)
  next
    case False
    then have "nlink s a = Some m"
      using m n by (auto split: if_splits)
    then show ?thesis
      using L(1) card dirs False by (simp add: links_ok_def)
  qed
qed

lemma fresh_step:
  assumes "fresh_ok s" "frame s t" "Dirents t = (Dirents s)(e \<mapsto> de)" "next_addr s \<le> next_addr t" "e < next_addr t" "e \<noteq> NULL"
  shows "fresh_ok t"
proof -
  have "Xattrs t = Xattrs s"
    using assms(2) by (simp add: frame_def)
  then show ?thesis
    using assms(1,3-6) unfolding fresh_ok_def frame_dom [OF assms(2)] by auto
qed

lemma header_step:
  assumes "Objects t = (Objects s)(a \<mapsto> h')" "Objects s a = Some h" "header_ok h \<Longrightarrow> header_ok h'" "DataLength h' = DataLength h"
    and "Objects s b = Some g" "header_ok g"
  shows "\<exists>g'. Objects t b = Some g' \<and> header_ok g' \<and> DataLength g' = DataLength g"
  using assms by (cases "b = a") auto

lemma add_entry_ok:
  assumes inv: "fs_inv s" "frame s t" and d: "dirs s dir = Some d" and i: "Inodes s inode = Some j" "Objects s inode = Some h" "room s inode 2"
    and name: "name \<noteq> []" "TrieSearch (Children d) name = None" and e: "Dirents s e = None" "e < next_addr t" "next_addr s \<le> next_addr t" "e \<noteq> NULL"
    and t: "Dirents t = (Dirents s)(e \<mapsto> de)" "de_Name de = name" "de_Inode de = inode" "Objects t = (Objects s)(inode \<mapsto> add_reference 2 h)"
      "dirs t = (dirs s)(dir \<mapsto> d\<lparr>Children := trie_insert_at (trie_root (Children d)) name e, Entries := e # Entries d\<rparr>)"
      "nlink t = (if inode = dir then nlink s else (nlink s)(inode \<mapsto> st_nlink (Attributes j) + 1))"
  shows "fs_inv t" "dir_map t = (dir_map s)(dir := (dir_map s dir)(name \<mapsto> inode))"
proof -
  note s = fs_invD [OF inv(1)] and en = add_entry_entries [OF fs_invD(8) [OF inv(1)] d name e(1) t(1,2,5)]
  have parents: "\<exists>d'. dirs s c = Some d' \<and> Parent d' = Parent d''" if "dirs t c = Some d''" for c d''
    using that d t(5) by (cases "c = dir") auto
  have "children_of t a = children_of s a" for a
    using d t(5) by (auto simp: children_of_def)
  then have "refs_ok t"
    by (intro new_dirent_refs [OF inv(1) i e(1) frame_dom [OF inv(2)] t(1,3,4) _ parents])
  moreover have "fresh_ok t"
    by (rule fresh_step [OF s(10) inv(2) t(1) e(3,2,4)])
  moreover have "finite (dom (Dirents t))"
    using s(7) t(1) by simp
  moreover have "\<exists>h'. Objects t a = Some h' \<and> header_ok h' \<and> DataLength h' = DataLength g"
    if "Inodes s a = Some k" "Objects s a = Some g" "header_ok g" for a k g
    using header_ok_add [OF _ _ room_header [OF i(3,2)]] that(2,3)
    by (intro header_step [OF t(4) i(2)]) (simp_all add: add_reference_def)
  moreover have "links_ok t"
    by (rule links_new [OF inv(1) d e(1) t(1,3,5) _ i(1,3) t(6)]) simp
  ultimately show "fs_inv t"
    by (intro fs_inv_update [OF inv]) (use en(1) in auto)
  have "x \<noteq> e" if "dirs s a = Some d'" "TrieSearch (Children d') n = Some x" for a d' n x
    using found_entry [OF inv(1) that] e(1) by auto
  then show "dir_map t = (dir_map s)(dir := (dir_map s dir)(name \<mapsto> inode))"
    using d t en(2) by (auto simp: dir_map_def fun_eq_iff split: bind_splits)
qed

lemma leak_entry_ok:
  assumes inv: "fs_inv s" "frame s t" and i: "Inodes s inode = Some j" "Objects s inode = Some h" "room s inode 2"
    and e: "Dirents s e = None" "e < next_addr t" "next_addr s \<le> next_addr t" "e \<noteq> NULL"
    and t: "Dirents t = (Dirents s)(e \<mapsto> de)" "de_Inode de = inode" "Objects t = (Objects s)(inode \<mapsto> add_reference 2 h)" "dirs t = dirs s"
      "nlink t = nlink s"
  shows "fs_inv t" "dir_map t = dir_map s"
proof -
  note s = fs_invD [OF inv(1)]
  have "refs_ok t"
    by (rule new_dirent_refs [OF inv(1) i e(1) frame_dom [OF inv(2)] t(1-3)]) (use t(4) in \<open>auto simp: children_of_def\<close>)
  moreover have "fresh_ok t"
    by (rule fresh_step [OF s(10) inv(2) t(1) e(3,2,4)])
  moreover have "finite (dom (Dirents t))"
    using s(7) t(1) by simp
  moreover have "\<exists>h'. Objects t a = Some h' \<and> header_ok h' \<and> DataLength h' = DataLength g"
    if "Inodes s a = Some k" "Objects s a = Some g" "header_ok g" for a k g
    using header_ok_add [OF _ _ room_header [OF i(3,2)]] that(2,3)
    by (intro header_step [OF t(3) i(2)]) (simp_all add: add_reference_def)
  moreover have "entries_ok t"
  proof -
    have "indexed (dirent_name t) (Entries d) (Children d)" if d: "dirs s a = Some d" for a d
    proof (rule indexed_mono)
      show "indexed (dirent_name s) (Entries d) (Children d)"
        using s(8) d unfolding entries_ok_def by blast
      have "x \<noteq> e" if "x \<in> set (Entries d)" for x
        using entry_live [OF inv(1) d that] e(1) by auto
      then show "\<forall>x\<in>set (Entries d). dirent_name t x = dirent_name s x"
        by (simp add: dirent_name_def t(1))
    qed
    then show ?thesis
      using s(8) unfolding entries_ok_def t(4) by blast
  qed
  moreover have "links_ok t"
  proof -
    have ne: "x \<noteq> e" if "dirs s b = Some d" "x \<in> set (Entries d)" for b d x
      using entry_live [OF inv(1) that] e(1) by auto
    have "Dirents t x = Dirents s x" if "dirs s b = Some d" "x \<in> set (Entries d)" for b d x
      using ne [OF that] t(1) by simp
    then have "linked t a = linked s a" for a
      unfolding linked_def t(4) by (intro Collect_cong) metis
    then show ?thesis
      using s(11) t(4,5) by (simp add: links_ok_def)
  qed
  ultimately show "fs_inv t"
    by (intro fs_inv_update [OF inv]) blast+
  have "x \<noteq> e" if "dirs s a = Some d'" "TrieSearch (Children d') n = Some x" for a d' n x
    using found_entry [OF inv(1) that] e(1) by auto
  then show "dir_map t = dir_map s"
    using t by (auto simp: dir_map_def fun_eq_iff split: bind_splits)
qed

section \<open>Insertion\<close>

lemma frame_set_inode: "Inodes s a = Some i \<Longrightarrow> shape j = shape i \<Longrightarrow> frame s (set_inode a j s)"
  by (auto simp: frame_def same_table_def set_inode_def)

lemma set_inode_views [simp]:
  "dirs (set_inode a i s) = (dirs s)(a := the_directory i)" "Dirents (set_inode a i s) = Dirents s" "Objects (set_inode a i s) = Objects s"
  "next_addr (set_inode a i s) = next_addr s" "nlink (set_inode a i s) = (nlink s)(a \<mapsto> st_nlink (Attributes i))"
  "Inodes (set_inode a i s) = (Inodes s)(a \<mapsto> i)"
  by (auto simp: set_inode_def dirs_def nlink_def fun_eq_iff)

lemma other_views [simp]:
  "dirs (s\<lparr>Dirents := D\<rparr>) = dirs s" "nlink (s\<lparr>Dirents := D\<rparr>) = nlink s" "dirs (s\<lparr>next_addr := n\<rparr>) = dirs s" "nlink (s\<lparr>next_addr := n\<rparr>) = nlink s"
  by (auto simp: dirs_def nlink_def fun_eq_iff)

lemma the_directory_Some [simp]: "the_directory i = Some d \<longleftrightarrow> Instance i = Directory d"
  by (cases "Instance i") auto

lemma the_directory_Instance [simp]: "Instance i = Directory d \<Longrightarrow> the_directory i = Some d"
  by simp

declare the_directory.simps [simp del]

lemma the_directory_set [simp]: "the_directory (set_directory d i) = Some d" "the_directory (increment_nlink i) = the_directory i"
  "the_directory (decrement_nlink i) = the_directory i" "the_directory (i\<lparr>InodeLock := l\<rparr>) = the_directory i"
  by (simp_all add: set_directory_def increment_nlink_def decrement_nlink_def the_directory.simps)

lemma inode_part [simp]:
  "InodeLock (set_directory d i) = InodeLock i" "Attributes (set_directory d i) = Attributes i" "Epoch (set_directory d i) = Epoch i"
  "InodeLock (increment_nlink i) = InodeLock i" "st_nlink (Attributes (increment_nlink i)) = st_nlink (Attributes i) + 1"
  "InodeLock (decrement_nlink i) = InodeLock i" "st_nlink (Attributes (decrement_nlink i)) = st_nlink (Attributes i) - 1"
  "InodeType (set_directory d i) = InodeType i"
  by (simp_all add: set_directory_def increment_nlink_def decrement_nlink_def)

lemma dirs_Some: "dirs s a = Some d \<longleftrightarrow> (\<exists>i. Inodes s a = Some i \<and> Instance i = Directory d)"
  by (auto simp: dirs_def split: bind_splits)

lemma dir_inode:
  assumes "fs_inv s" "dirs s a = Some d"
  obtains i where "Inodes s a = Some i" "Instance i = Directory d" "InodeType i = BITBUCKET_DIR_TYPE" "a \<noteq> NULL"
proof -
  obtain i where i: "Inodes s a = Some i" "Instance i = Directory d"
    using assms(2) by (auto simp: dirs_Some)
  then have "inode_ok s a i"
    using fs_invD(5) [OF assms(1)] by blast
  then have "kind_ok s i" "a \<noteq> NULL"
    by (simp_all add: inode_ok_def)
  then have "InodeType i = BITBUCKET_DIR_TYPE"
    using i(2) by (auto simp: kind_ok_def split: option.splits registered.splits)
  with i \<open>a \<noteq> NULL\<close> that show ?thesis
    by blast
qed

lemma insert_dirent_new:
  assumes "Inodes s dir = Some i" "Instance i = Directory d" "Inodes s inode = Some j" "TrieSearch (Children d) name = None"
  shows "\<exists>t off. insert_dirent dir inode name e s = Some (0, t) \<and> frame s t \<and> lock_of t = lock_of s
    \<and> dirs t = (dirs s)(dir \<mapsto> d\<lparr>Children := trie_insert_at (trie_root (Children d)) name e, Entries := e # Entries d\<rparr>)
    \<and> Dirents t = (Dirents s)(e \<mapsto> \<lparr>de_Inode = inode, de_Offset = off, de_Name = name\<rparr>)
    \<and> Objects t = Objects s \<and> next_addr t = next_addr s
    \<and> nlink t = (if inode = dir then nlink s else (nlink s)(inode \<mapsto> st_nlink (Attributes j) + 1))"
proof -
  define d' where "d' = d\<lparr>Children := trie_insert_at (trie_root (Children d)) name e, Entries := e # Entries d\<rparr>"
  define s1 where "s1 = set_inode dir (set_directory d' i) (s\<lparr>Dirents := (Dirents s)(e \<mapsto> \<lparr>de_Inode = inode, de_Offset = Epoch i, de_Name = name\<rparr>)\<rparr>)"
  define s2 where "s2 = (if inode = dir then s1 else set_inode inode (increment_nlink j) s1)"
  have "insert_dirent dir inode name e s = Some (0, s2)"
    using assms by (simp add: insert_dirent_def s2_def s1_def d'_def Let_def)
  moreover have "frame s s1"
    unfolding s1_def using assms(1,2)
    by (intro frame_trans [OF frame_header(2) frame_set_inode [of _ _ i]]) simp_all
  moreover have "frame s1 s2" if "inode \<noteq> dir"
    unfolding s2_def using that assms(3) by (simp, intro frame_set_inode [of _ _ j]) (simp_all add: s1_def)
  moreover have "(lock_of s)(dir \<mapsto> InodeLock i) = lock_of s" "(lock_of s)(inode \<mapsto> InodeLock j) = lock_of s"
    using assms(1,3) by (simp_all add: lock_of_def fun_upd_idem)
  moreover have "(nlink s)(dir \<mapsto> st_nlink (Attributes i)) = nlink s" "(dirs s)(inode := the_directory j) = dirs s"
    using assms(1,3) by (simp_all add: nlink_def dirs_def fun_upd_idem)
  ultimately show ?thesis
    using assms(3) frame_trans [of s s1 s2]
    by (intro exI [of _ s2] exI [of _ "Epoch i"]) (auto simp: s2_def s1_def d'_def fun_upd_twist)
qed

lemma insert_dirent_exists:
  assumes "Inodes s dir = Some i" "Instance i = Directory d" "TrieSearch (Children d) name = Some x"
  shows "\<exists>t off. insert_dirent dir inode name e s = Some (EEXIST, t) \<and> frame s t \<and> lock_of t = lock_of s \<and> dirs t = dirs s
    \<and> Dirents t = (Dirents s)(e \<mapsto> \<lparr>de_Inode = inode, de_Offset = off, de_Name = name\<rparr>)
    \<and> Objects t = Objects s \<and> next_addr t = next_addr s \<and> nlink t = nlink s"
proof -
  have "Children d \<noteq> None"
    using assms(3) by (cases "Children d") auto
  then have "d\<lparr>Children := trie_root (Children d)\<rparr> = d"
    by (cases d) (auto simp: trie_root_def)
  then have "set_directory (d\<lparr>Children := trie_root (Children d)\<rparr>) i = i"
    using assms(2) by (cases i) (simp add: set_directory_def)
  then have "insert_dirent dir inode name e s = Some (EEXIST, s\<lparr>Dirents := (Dirents s)(e \<mapsto> \<lparr>de_Inode = inode, de_Offset = Epoch i, de_Name = name\<rparr>)\<rparr>)"
    (is "_ = Some (_, ?t)")
    using assms by (simp add: insert_dirent_def Let_def)
  then show ?thesis
    by (intro exI [of _ ?t] exI [of _ "Epoch i"]) simp
qed

lemma lock_pair:
  assumes "lock_of s a = Some Unlocked" "lock_of s b = Some Unlocked" "a \<noteq> NULL" "b \<noteq> NULL"
    and "Inodes s a = Some i" "lockable_type (InodeType i)"
  shows "\<exists>t. (if a \<noteq> b then BitbucketLockTwoInodes a b True s else BitbucketLockInode a True s) = Some t \<and> touch s t
    \<and> lock_of t = (lock_of s)(a \<mapsto> Exclusive, b \<mapsto> Exclusive)"
  using lock_two [OF assms(1,2) _ assms(3-6)] lock_excl [OF assms(1)] by (cases "a = b") auto

lemma unlock_pair:
  assumes "lock_of s a = Some Exclusive" "lock_of s b = Some Exclusive"
  shows "\<exists>t u. BitbucketUnlockInode a s = Some t \<and> (if a \<noteq> b then BitbucketUnlockInode b t else Some t) = Some u \<and> touch s u
    \<and> lock_of u = (lock_of s)(a \<mapsto> Unlocked, b \<mapsto> Unlocked)"
proof -
  obtain t where t: "BitbucketUnlockInode a s = Some t" "touch s t" "lock_of t = (lock_of s)(a \<mapsto> Unlocked)"
    using unlock [OF assms(1)] by blast
  show ?thesis
  proof (cases "a = b")
    case False
    then have "lock_of t b = Some Exclusive"
      using t(3) assms(2) by simp
    then obtain u where "BitbucketUnlockInode b t = Some u" "touch t u" "lock_of u = (lock_of t)(b \<mapsto> Unlocked)"
      using unlock [of t b] by blast
    then show ?thesis
      using False t touch_trans by auto
  qed (use t in auto)
qed

lemma idle_restored:
  assumes "idle s" "lock_of t = (lock_of s)(a \<mapsto> Unlocked, b \<mapsto> Unlocked)"
  shows "idle t"
  using assms by (auto simp: idle_lock_of)

text \<open>The state in which the insertion makes its update: entry allocated, reference taken, both inodes locked.\<close>

lemma insert_prepare:
  assumes inv: "fs_inv s" "idle s" and d: "dirs s dir = Some d" and i: "Inodes s inode = Some j" "Objects s inode = Some h"
    and name: "0 < length name" "length name < 1023"
  shows "\<exists>s2. BitbucketInsertDirectoryEntry dir inode name s = do {
      (status, s) \<leftarrow> insert_dirent dir inode name (next_addr s) s2;
      s \<leftarrow> BitbucketUnlockInode dir s;
      s \<leftarrow> (if dir \<noteq> inode then BitbucketUnlockInode inode s else Some s);
      Some (status, s) }
    \<and> frame s s2 \<and> lock_of s2 = (lock_of s)(dir \<mapsto> Exclusive, inode \<mapsto> Exclusive) \<and> dirs s2 = dirs s \<and> nlink s2 = nlink s
    \<and> Dirents s2 = (Dirents s)(next_addr s \<mapsto> \<lparr>de_Inode = inode, de_Offset = 0, de_Name = name\<rparr>)
    \<and> Objects s2 = (Objects s)(inode \<mapsto> add_reference 2 h) \<and> next_addr s2 = next_addr s + (41 + length name)"
proof -
  obtain k where k: "Inodes s dir = Some k" "Instance k = Directory d" "InodeType k = BITBUCKET_DIR_TYPE" "dir \<noteq> NULL"
    using inv(1) d by (rule dir_inode)
  obtain h' where h: "Objects s inode = Some h'" "header_ok h'" "inode_ready inode s" "inode \<noteq> NULL"
    using inv(1) i(1) by (rule fs_inv_inode)
  define s0 where "s0 = s\<lparr>next_addr := next_addr s + (41 + length name),
     Dirents := (Dirents s)(next_addr s \<mapsto> \<lparr>de_Inode = inode, de_Offset = 0, de_Name = name\<rparr>)\<rparr>"
  define s1 where "s1 = set_header inode (add_reference 2 h) s0"
  have f: "frame s s0" "frame s s1"
    by (simp_all add: s0_def s1_def frame_trans [OF frame_header(4) frame_header(1)])
  have R: "BitbucketReferenceInode inode 2 s0 = Some s1"
    unfolding s1_def using frame_ready [OF f(1) h(3)] h i by (intro reference_inode) (simp_all add: s0_def)
  have l: "lock_of s1 = lock_of s" "Inodes s1 dir = Some k"
    using k(1) by (simp_all add: s1_def s0_def lock_of_def fun_eq_iff)
  obtain s2 where s2: "(if dir \<noteq> inode then BitbucketLockTwoInodes dir inode True s1 else BitbucketLockInode dir True s1) = Some s2"
    "touch s1 s2" "lock_of s2 = (lock_of s1)(dir \<mapsto> Exclusive, inode \<mapsto> Exclusive)"
    using lock_pair [of s1 dir inode k] idle_Unlocked [OF inv(2) k(1)] idle_Unlocked [OF inv(2) i(1)] k h(4) l
    by (auto simp: lockable_type_def)
  have "BitbucketInsertDirectoryEntry dir inode name s = do {
      (status, s) \<leftarrow> insert_dirent dir inode name (next_addr s) s2;
      s \<leftarrow> BitbucketUnlockInode dir s;
      s \<leftarrow> (if dir \<noteq> inode then BitbucketUnlockInode inode s else Some s);
      Some (status, s) }"
    unfolding BitbucketInsertDirectoryEntry_def malloc_def using k h(4) name R s2(1)
    by (simp add: s0_def Let_def)
  moreover have "frame s s2"
    using frame_trans [OF f(2) touch_frame [OF s2(2)]] .
  moreover note touchD(1,4,5) [OF s2(2)] touch_dirs [OF s2(2)] touch_nlink [OF s2(2)]
  ultimately show ?thesis
    using s2(3) l(1) by (intro exI [of _ s2]) (simp add: s1_def s0_def set_header_def dirs_def nlink_def fun_eq_iff)
qed

lemma insert_update:
  assumes inv: "fs_inv s" and d: "dirs s dir = Some d" and i: "Inodes s inode = Some j" "Objects s inode = Some h" "room s inode 2"
    and name: "name \<noteq> []" and free: "free \<longleftrightarrow> dir_map s dir name = None" and e: "e = next_addr s"
    and s2: "frame s s2" "dirs s2 = dirs s" "nlink s2 = nlink s" "Dirents s2 = (Dirents s)(e \<mapsto> de)"
      "Objects s2 = (Objects s)(inode \<mapsto> add_reference 2 h)" "e < next_addr s2"
  shows "\<exists>s3 off. insert_dirent dir inode name e s2 = Some (if free then 0 else EEXIST, s3) \<and> frame s s3 \<and> lock_of s3 = lock_of s2 \<and> fs_inv s3
    \<and> dir_map s3 = (if free then (dir_map s)(dir := (dir_map s dir)(name \<mapsto> inode)) else dir_map s)
    \<and> dirs s3 = (if free then (dirs s)(dir \<mapsto> d\<lparr>Children := trie_insert_at (trie_root (Children d)) name e, Entries := e # Entries d\<rparr>) else dirs s)
    \<and> Dirents s3 = (Dirents s)(e \<mapsto> \<lparr>de_Inode = inode, de_Offset = off, de_Name = name\<rparr>)
    \<and> Objects s3 = (Objects s)(inode \<mapsto> add_reference 2 h)
    \<and> nlink s3 = (if free \<and> inode \<noteq> dir then (nlink s)(inode \<mapsto> st_nlink (Attributes j) + 1) else nlink s)"
proof -
  have ex: "Dirents s e = None" "e \<noteq> NULL"
    using fs_invD(10) [OF inv] by (simp_all add: fresh_ok_def e)
  have un: "free \<longleftrightarrow> TrieSearch (Children d) name = None"
    using search_dir_map [OF inv d] free by auto
  have "dirs s2 dir = Some d" "nlink s2 inode = Some (st_nlink (Attributes j))"
    using d s2(2,3) i(1) by (simp_all add: nlink_def)
  then obtain k j2 where k: "Inodes s2 dir = Some k" "Instance k = Directory d" "Inodes s2 inode = Some j2"
    "st_nlink (Attributes j2) = st_nlink (Attributes j)"
    unfolding dirs_Some by (auto simp: nlink_def)
  show ?thesis
  proof (cases free)
    case True
    then have none: "TrieSearch (Children d) name = None"
      using un by simp
    obtain s3 off where s3: "insert_dirent dir inode name e s2 = Some (0, s3)" "frame s2 s3" "lock_of s3 = lock_of s2"
      "dirs s3 = (dirs s)(dir \<mapsto> d\<lparr>Children := trie_insert_at (trie_root (Children d)) name e, Entries := e # Entries d\<rparr>)"
      "Dirents s3 = (Dirents s)(e \<mapsto> \<lparr>de_Inode = inode, de_Offset = off, de_Name = name\<rparr>)" "Objects s3 = Objects s2" "next_addr s3 = next_addr s2"
      "nlink s3 = (if inode = dir then nlink s else (nlink s)(inode \<mapsto> st_nlink (Attributes j) + 1))"
      using insert_dirent_new [OF k(1-3) none, of e] k(4) s2(2-4) by auto
    have fr: "frame s s3"
      by (rule frame_trans [OF s2(1) s3(2)])
    have "fs_inv s3" "dir_map s3 = (dir_map s)(dir := (dir_map s dir)(name \<mapsto> inode))"
      using s2(5,6) s3(6,7) e by (intro add_entry_ok [OF inv fr d i name none ex(1) _ _ ex(2) s3(5) _ _ _ s3(4,8)]; simp)+
    then show ?thesis
      using True s3 s2(5) fr by (intro exI [of _ s3] exI [of _ off]) simp
  next
    case False
    then obtain x where x: "TrieSearch (Children d) name = Some x"
      using un by auto
    obtain s3 off where s3: "insert_dirent dir inode name e s2 = Some (EEXIST, s3)" "frame s2 s3" "lock_of s3 = lock_of s2" "dirs s3 = dirs s"
      "Dirents s3 = (Dirents s)(e \<mapsto> \<lparr>de_Inode = inode, de_Offset = off, de_Name = name\<rparr>)" "Objects s3 = Objects s2" "next_addr s3 = next_addr s2"
      "nlink s3 = nlink s"
      using insert_dirent_exists [OF k(1,2) x, of inode e] s2(2-4) by auto
    have fr: "frame s s3"
      by (rule frame_trans [OF s2(1) s3(2)])
    have "fs_inv s3" "dir_map s3 = dir_map s"
      using s2(5,6) s3(6,7) e by (intro leak_entry_ok [OF inv fr i ex(1) _ _ ex(2) s3(5) _ _ s3(4,8)]; simp)+
    then show ?thesis
      using False s3 s2(5) fr by (intro exI [of _ s3] exI [of _ off]) simp
  qed
qed

text \<open>The effect of an insertion, in terms of what it changes.\<close>

lemma insert_entry:
  assumes inv: "fs_inv s" "idle s" and d: "dirs s dir = Some d" and i: "Inodes s inode = Some j" "Objects s inode = Some h" "room s inode 2"
    and name: "0 < length name" "length name < 1023" and free: "free \<longleftrightarrow> dir_map s dir name = None" and e: "e = next_addr s"
  shows "\<exists>t off. BitbucketInsertDirectoryEntry dir inode name s = Some (if free then 0 else EEXIST, t) \<and> fs_inv t \<and> idle t \<and> frame s t
    \<and> dir_map t = (if free then (dir_map s)(dir := (dir_map s dir)(name \<mapsto> inode)) else dir_map s)
    \<and> dirs t = (if free then (dirs s)(dir \<mapsto> d\<lparr>Children := trie_insert_at (trie_root (Children d)) name e, Entries := e # Entries d\<rparr>) else dirs s)
    \<and> Dirents t = (Dirents s)(e \<mapsto> \<lparr>de_Inode = inode, de_Offset = off, de_Name = name\<rparr>)
    \<and> Objects t = (Objects s)(inode \<mapsto> add_reference 2 h)
    \<and> nlink t = (if free \<and> inode \<noteq> dir then (nlink s)(inode \<mapsto> st_nlink (Attributes j) + 1) else nlink s)"
proof -
  obtain s2 where s2: "BitbucketInsertDirectoryEntry dir inode name s = do {
      (status, s) \<leftarrow> insert_dirent dir inode name e s2;
      s \<leftarrow> BitbucketUnlockInode dir s;
      s \<leftarrow> (if dir \<noteq> inode then BitbucketUnlockInode inode s else Some s);
      Some (status, s) }"
    "frame s s2" "lock_of s2 = (lock_of s)(dir \<mapsto> Exclusive, inode \<mapsto> Exclusive)" "dirs s2 = dirs s" "nlink s2 = nlink s"
    "Dirents s2 = (Dirents s)(e \<mapsto> \<lparr>de_Inode = inode, de_Offset = 0, de_Name = name\<rparr>)"
    "Objects s2 = (Objects s)(inode \<mapsto> add_reference 2 h)" "e < next_addr s2"
    using insert_prepare [OF inv d i(1,2) name] unfolding e by auto
  have "name \<noteq> []"
    using name by auto
  from insert_update [OF inv(1) d i this free e s2(2,4-8)]
  obtain s3 off where s3: "insert_dirent dir inode name e s2 = Some (if free then 0 else EEXIST, s3)" "frame s s3" "lock_of s3 = lock_of s2" "fs_inv s3"
    "dir_map s3 = (if free then (dir_map s)(dir := (dir_map s dir)(name \<mapsto> inode)) else dir_map s)"
    "dirs s3 = (if free then (dirs s)(dir \<mapsto> d\<lparr>Children := trie_insert_at (trie_root (Children d)) name e, Entries := e # Entries d\<rparr>) else dirs s)"
    "Dirents s3 = (Dirents s)(e \<mapsto> \<lparr>de_Inode = inode, de_Offset = off, de_Name = name\<rparr>)"
    "Objects s3 = (Objects s)(inode \<mapsto> add_reference 2 h)"
    "nlink s3 = (if free \<and> inode \<noteq> dir then (nlink s)(inode \<mapsto> st_nlink (Attributes j) + 1) else nlink s)"
    by blast
  have "lock_of s3 dir = Some Exclusive" "lock_of s3 inode = Some Exclusive"
    using s2(3) s3(3) by simp_all
  then obtain t u where u: "BitbucketUnlockInode dir s3 = Some t" "(if dir \<noteq> inode then BitbucketUnlockInode inode t else Some t) = Some u"
    "touch s3 u" "lock_of u = (lock_of s3)(dir \<mapsto> Unlocked, inode \<mapsto> Unlocked)"
    using unlock_pair [of s3 dir inode] by blast
  have "idle u"
    using u(4) s3(3) s2(3) by (intro idle_restored [OF inv(2), of _ dir inode]) (simp add: fun_upd_twist)
  moreover have "fs_inv u" "frame s u"
    using fs_inv_touch [OF s3(4) u(3)] frame_trans [OF s3(2) touch_frame [OF u(3)]] by auto
  moreover have "dir_map u = dir_map s3"
    by (rule views_ok(2) [OF touch_dirs [OF u(3)] touchD(5) [OF u(3)] touch_None [OF u(3)]])
  moreover have "BitbucketInsertDirectoryEntry dir inode name s = Some (if free then 0 else EEXIST, u)"
    unfolding s2(1) using s3(1) u(1,2) by simp
  ultimately show ?thesis
    using touchD(1,5) [OF u(3)] touch_dirs [OF u(3)] touch_nlink [OF u(3)] s3(5-9)
    by (intro exI [of _ u] exI [of _ off]) simp
qed

end
