(* ===== verification/DirRemove.thy ===== *)
theory DirRemove
  imports DirProps
begin

text \<open>Lookup in a directory and the removal of entries keep the invariant of the file system.\<close>

section \<open>Lookup\<close>

lemma touch_set_header:
  assumes "touch s t"
  shows "touch (set_header a h s) (set_header a h t)"
proof -
  have "t\<lparr>Inodes := Inodes s, Tick := Tick s, InodeTable := InodeTable s\<rparr> = s"
    using assms by (simp add: touch_def)
  then have "set_header a h (t\<lparr>Inodes := Inodes s, Tick := Tick s, InodeTable := InodeTable s\<rparr>) = set_header a h s"
    by (simp only:)
  moreover have "(set_header a h t)\<lparr>Inodes := Inodes s, Tick := Tick s, InodeTable := InodeTable s\<rparr>
      = set_header a h (t\<lparr>Inodes := Inodes s, Tick := Tick s, InodeTable := InodeTable s\<rparr>)"
    by (cases t) (simp add: set_header_def)
  ultimately have "(set_header a h t)\<lparr>Inodes := Inodes s, Tick := Tick s, InodeTable := InodeTable s\<rparr> = set_header a h s"
    by (simp only:)
  then show ?thesis
    using assms by (simp add: touch_def) (simp add: set_header_def)
qed

lemma verify_ok:
  assumes "fs_inv s" "lock_of s a = Some Unlocked" "dirs s a = Some d"
  shows "\<exists>t. VerifyDirectoryEntries a s = Some t \<and> touch s t \<and> lock_of t = lock_of s"
proof -
  obtain i where i: "Inodes s a = Some i" "Instance i = Directory d" "InodeType i = BITBUCKET_DIR_TYPE"
    using assms(1,3) by (rule dir_inode)
  obtain t where t: "BitbucketLockInode a False s = Some t" "touch s t" "lock_of t = (lock_of s)(a \<mapsto> Shared 1)"
    using lock_shared [OF assms(2)] by blast
  obtain u where u: "BitbucketUnlockInode a t = Some u" "touch t u" "lock_of u = (lock_of t)(a \<mapsto> Unlocked)"
    using unlock [of t a "Shared 1"] t(3) by auto
  have "\<forall>e \<in> set (Entries d). Dirents t e \<noteq> None"
    using entry_live [OF assms(1,3)] touchD(5) [OF t(2)] by auto
  then have "VerifyDirectoryEntriesInternal a s = Some u"
    using i t(1) u(1) by (simp add: VerifyDirectoryEntriesInternal_def list_all_iff)
  moreover have "lock_of u = lock_of s"
    using t(3) u(3) assms(2) by (simp add: fun_upd_idem)
  ultimately show ?thesis
    using touch_trans [OF t(2) u(2)] by (auto simp: VerifyDirectoryEntries_def)
qed

text \<open>The state after a reference of the given reason has been taken on an inode, or the same state for no inode.\<close>

definition referenced :: "nat \<Rightarrow> addr option \<Rightarrow> bb_state \<Rightarrow> bb_state" where
  "referenced r x s = (case x of None \<Rightarrow> s | Some a \<Rightarrow> set_header a (add_reference r (the (Objects s a))) s)"

lemma fs_inv_referenced:
  assumes "fs_inv s" "r < 12" "r \<noteq> 1" "r \<noteq> 2" "\<And>a. x = Some a \<Longrightarrow> Inodes s a \<noteq> None \<and> room s a r"
  shows "fs_inv (referenced r x s)"
proof (cases x)
  case (Some a)
  then obtain i where i: "Inodes s a = Some i" "room s a r"
    using assms(5) by auto
  obtain h where "Objects s a = Some h"
    using assms(1) i(1) by (rule fs_inv_inode)
  then show ?thesis
    using Some fs_inv_add [OF assms(1) _ assms(2-4) i(2)] by (simp add: referenced_def)
qed (use assms(1) in \<open>simp add: referenced_def\<close>)

lemma referenced_views [simp]:
  "dirs (referenced r x s) = dirs s" "Dirents (referenced r x s) = Dirents s" "Inodes (referenced r x s) = Inodes s"
  "nlink (referenced r x s) = nlink s" "lock_of (referenced r x s) = lock_of s" "frame s (referenced r x s)" "dir_map (referenced r x s) = dir_map s"
  "next_addr (referenced r x s) = next_addr s"
  by (cases x; simp add: referenced_def dir_map_def fun_eq_iff)+

lemma dir_map_entry:
  assumes "fs_inv s" "dirs s a = Some d" "dir_map s a n = Some x"
  obtains e de where "TrieSearch (Children d) n = Some e" "Dirents s e = Some de" "de_Inode de = x" "de_Name de = n" "e \<in> set (Entries d)"
    "Inodes s x \<noteq> None"
proof -
  obtain e where e: "TrieSearch (Children d) n = Some e"
    using assms(2,3) by (auto simp: dir_map_def split: bind_splits)
  then obtain de where "Dirents s e = Some de" "de_Name de = n" "dir_map s a n = Some (de_Inode de)" "Inodes s (de_Inode de) \<noteq> None" "e \<in> set (Entries d)"
    using found_entry [OF assms(1,2)] by blast
  with e assms(3) that show ?thesis
    by auto
qed

lemma dir_map_live: "fs_inv s \<Longrightarrow> dir_map s a n = Some x \<Longrightarrow> Inodes s x \<noteq> None"
  by (cases "dirs s a") (auto simp: dir_map_def elim: dir_map_entry [of s a _ n x, unfolded dir_map_def])

lemma lookup_step:
  assumes inv: "fs_inv s" and d: "dirs s dir = Some d" and t: "touch s s1"
  shows "\<exists>s2. (case TrieSearch (Children d) name of None \<Rightarrow> Some (NULL, s1) | Some dirent \<Rightarrow> do {
        e \<leftarrow> Dirents s1 dirent; s \<leftarrow> BitbucketReferenceInode (de_Inode e) 0 s1; Some (de_Inode e, s) })
      = Some (case dir_map s dir name of None \<Rightarrow> NULL | Some x \<Rightarrow> x, s2)
    \<and> touch (referenced 0 (dir_map s dir name) s) s2 \<and> lock_of s2 = lock_of s1"
proof (cases "TrieSearch (Children d) name")
  case None
  then have "dir_map s dir name = None"
    using d by (simp add: dir_map_def)
  then show ?thesis
    using None t by (simp add: referenced_def)
next
  case (Some e)
  obtain de where de: "Dirents s e = Some de" "dir_map s dir name = Some (de_Inode de)" "Inodes s (de_Inode de) \<noteq> None"
    using found_entry [OF inv d Some] by blast
  then obtain j where "Inodes s (de_Inode de) = Some j"
    by blast
  with inv obtain h where h: "Objects s (de_Inode de) = Some h" "header_ok h" "inode_ready (de_Inode de) s"
    by (rule fs_inv_inode)
  have "BitbucketReferenceInode (de_Inode de) 0 s1 = Some (set_header (de_Inode de) (add_reference 0 h) s1)"
    using h touchD(1) [OF t] by (intro reference_inode frame_ready [OF touch_frame [OF t]]) simp_all
  then show ?thesis
    using Some de h(1) touchD(5) [OF t] touch_set_header [OF t] by (simp add: referenced_def)
qed

lemma lookup_entry:
  assumes inv: "fs_inv s" "idle s" and d: "dirs s dir = Some d" and r: "\<And>x. dir_map s dir name = Some x \<Longrightarrow> room s x 0"
  shows "\<exists>t. BitbucketLookupObjectInDirectory dir name s = Some (case dir_map s dir name of None \<Rightarrow> NULL | Some x \<Rightarrow> x, t)
    \<and> touch (referenced 0 (dir_map s dir name) s) t \<and> lock_of t = lock_of s"
proof -
  obtain i where i: "Inodes s dir = Some i" "Instance i = Directory d" "InodeType i = BITBUCKET_DIR_TYPE" "dir \<noteq> NULL"
    using inv(1) d by (rule dir_inode)
  let ?r = "referenced 0 (dir_map s dir name) s"
  have un: "lock_of s dir = Some Unlocked"
    by (rule idle_Unlocked [OF inv(2) i(1)])
  obtain s1 where s1: "BitbucketLockInode dir False s = Some s1" "touch s s1" "lock_of s1 = (lock_of s)(dir \<mapsto> Shared 1)"
    using lock_shared [OF un] by blast
  show ?thesis
  proof (cases "Children d")
    case None
    then have "dir_map s dir name = None"
      using d by (simp add: dir_map_def)
    then show ?thesis
      using None i by (simp add: BitbucketLookupObjectInDirectory_def referenced_def)
  next
    case (Some tr)
    obtain s2 where s2: "(case TrieSearch (Children d) name of None \<Rightarrow> Some (NULL, s1) | Some dirent \<Rightarrow> do {
          e \<leftarrow> Dirents s1 dirent; s \<leftarrow> BitbucketReferenceInode (de_Inode e) 0 s1; Some (de_Inode e, s) })
        = Some (case dir_map s dir name of None \<Rightarrow> NULL | Some x \<Rightarrow> x, s2)" "touch ?r s2" "lock_of s2 = lock_of s1"
      using lookup_step [OF inv(1) d s1(2)] by blast
    obtain s3 where s3: "BitbucketUnlockInode dir s2 = Some s3" "touch s2 s3" "lock_of s3 = (lock_of s2)(dir \<mapsto> Unlocked)"
      using unlock [of s2 dir "Shared 1"] s1(3) s2(3) by auto
    have t3: "touch ?r s3"
      by (rule touch_trans [OF s2(2) s3(2)])
    have "fs_inv s3"
      using fs_inv_touch [OF fs_inv_referenced t3] inv(1) r dir_map_live [OF inv(1)] by simp
    moreover have l: "dirs s3 dir = Some d" "lock_of s3 = lock_of s"
      using touch_dirs [OF t3] d s1(3) s2(3) s3(3) un by (simp_all add: fun_upd_idem)
    ultimately obtain s4 where s4: "VerifyDirectoryEntries dir s3 = Some s4" "touch s3 s4" "lock_of s4 = lock_of s3"
      using verify_ok [of s3 dir d] un by auto
    have "BitbucketLookupObjectInDirectory dir name s = Some (case dir_map s dir name of None \<Rightarrow> NULL | Some x \<Rightarrow> x, s4)"
      unfolding BitbucketLookupObjectInDirectory_def using i Some s1(1) s2(1) s3(1) s4(1) by simp
    then show ?thesis
      using touch_trans [OF t3 s4(2)] s4(3) l(2) by auto
  qed
qed

section \<open>An entry leaves its directory\<close>

lemma entry_unique_dir:
  assumes "fs_inv s" "dirs s a = Some d" "dirs s b = Some d'" "e \<in> set (Entries d)" "e \<in> set (Entries d')"
  shows "a = b"
  using fs_invD(8) [OF assms(1)] assms(2-5) unfolding entries_ok_def by blast

lemma linked_removed:
  assumes inv: "fs_inv s" and d: "dirs s dir = Some d" and e: "e \<in> set (Entries d)" "Dirents s e = Some de"
    and t: "dirs t = (dirs s)(dir \<mapsto> d')" "Entries d' = remove1 e (Entries d)" "Dirents t = Dirents s"
  shows "linked t a = linked s a - {e}" "e \<in> linked s a \<longleftrightarrow> a = de_Inode de \<and> a \<noteq> dir"
proof -
  have "distinct (Entries d)"
    using fs_invD(8) [OF inv] d by (auto simp: entries_ok_def indexed_def)
  then have es: "set (Entries d') = set (Entries d) - {e}"
    using t(2) by simp
  have only: "b = dir" if "dirs s b = Some d1" "e \<in> set (Entries d1)" for b d1
    using entry_unique_dir [OF inv that(1) d that(2) e(1)] .
  show "linked t a = linked s a - {e}"
  proof (rule set_eqI)
    fix x
    have "(\<exists>d1. dirs t b = Some d1 \<and> x \<in> set (Entries d1)) \<longleftrightarrow> (\<exists>d1. dirs s b = Some d1 \<and> x \<in> set (Entries d1)) \<and> x \<noteq> e" for b
      using d es only by (cases "b = dir") (auto simp: t(1))
    then show "x \<in> linked t a \<longleftrightarrow> x \<in> linked s a - {e}"
      unfolding linked_def t(3) by blast
  qed
  show "e \<in> linked s a \<longleftrightarrow> a = de_Inode de \<and> a \<noteq> dir"
  proof
    assume "e \<in> linked s a"
    then obtain b d1 f where f: "dirs s b = Some d1" "e \<in> set (Entries d1)" "Dirents s e = Some f" "de_Inode f = a" "b \<noteq> a"
      unfolding linked_def by blast
    with only [OF f(1,2)] e(2) show "a = de_Inode de \<and> a \<noteq> dir"
      by simp
  qed (use d e in \<open>simp add: linked_def, metis\<close>)
qed

lemma links_removed:
  assumes inv: "fs_inv s" and d: "dirs s dir = Some d" and e: "e \<in> set (Entries d)" "Dirents s e = Some de"
    and t: "dirs t = (dirs s)(dir \<mapsto> d')" "Entries d' = remove1 e (Entries d)" "Dirents t = Dirents s"
    and n: "nlink s (de_Inode de) = Some m" "nlink t = (if de_Inode de = dir then nlink s else (nlink s)(de_Inode de \<mapsto> m - 1))"
  shows "links_ok t" "de_Inode de \<noteq> dir \<Longrightarrow> 0 < m"
proof -
  have L: "links_ok s"
    by (rule fs_invD(11) [OF inv])
  note l = linked_removed [OF inv d e t]
  have fin: "finite (linked s a)" for a
    by (rule finite_subset [OF linked_entries entries_finite [OF inv]])
  have mem: "0 < unat m" "unat (m - 1) = unat m - 1" if "de_Inode de \<noteq> dir"
  proof -
    have "e \<in> linked s (de_Inode de)"
      using l(2) that by blast
    then have "0 < card (linked s (de_Inode de))"
      using fin card_gt_0_iff by blast
    then show "0 < unat m"
      using L n(1) by (simp add: links_ok_def)
    then show "unat (m - 1) = unat m - 1"
      by (simp add: unat_sub word_le_nat_alt)
  qed
  then show "de_Inode de \<noteq> dir \<Longrightarrow> 0 < m"
    by (simp add: word_less_nat_alt)
  show "links_ok t"
    unfolding links_ok_def
  proof (intro allI impI)
    fix a k
    assume k: "nlink t a = Some k"
    have dirs: "dirs t a = None \<longleftrightarrow> dirs s a = None"
      using d t(1) by simp
    show "unat k = (if dirs t a = None then 0 else 1) + card (linked t a)"
    proof (cases "a = de_Inode de \<and> a \<noteq> dir")
      case True
      then have a: "a = de_Inode de" "a \<noteq> dir" "k = m - 1"
        using k n(2) by auto
      have card: "card (linked t a) = card (linked s a) - 1" "0 < card (linked s a)"
        using l(1,2) [of a] fin [of a] True card_gt_0_iff by auto
      have "unat m = (if dirs s a = None then 0 else 1) + card (linked s a)"
        using L n(1) a(1) by (simp add: links_ok_def)
      then show ?thesis
        using mem(2) a card dirs by auto
    next
      case False
      then have "nlink s a = Some k"
        using k n(2) by (auto split: if_splits)
      moreover have "linked t a = linked s a"
        using l(1,2) [of a] False by auto
      ultimately show ?thesis
        using L dirs by (simp add: links_ok_def)
    qed
  qed
qed

lemma remove_entry_ok:
  assumes inv: "fs_inv s" "frame s t" and d: "dirs s dir = Some d" and e: "TrieSearch (Children d) name = Some e" "Dirents s e = Some de"
    and tr: "indexed (dirent_name s) (remove1 e (Entries d)) tr" "TrieSearch tr = (TrieSearch (Children d))(name := None)"
    and t: "dirs t = (dirs s)(dir \<mapsto> d\<lparr>Children := tr, Entries := remove1 e (Entries d)\<rparr>)" "Dirents t = Dirents s" "Objects t = Objects s"
      "next_addr t = next_addr s" "nlink t = (if de_Inode de = dir then nlink s else (nlink s)(de_Inode de \<mapsto> m - 1))" "nlink s (de_Inode de) = Some m"
  shows "fs_inv t" "dir_map t = (dir_map s)(dir := (dir_map s dir)(name := None))"
proof -
  note s = fs_invD [OF inv(1)]
  have mem: "e \<in> set (Entries d)"
    using found_entry [OF inv(1) d e(1)] by blast
  have nm: "dirent_name t = dirent_name s"
    using t(2) by (simp add: dirent_name_def fun_eq_iff)
  have "entries_ok t"
    unfolding entries_ok_def nm
  proof (intro conjI allI impI)
    fix a d1
    assume "dirs t a = Some d1"
    then show "indexed (dirent_name s) (Entries d1) (Children d1)"
      using s(8) tr(1) t(1) unfolding entries_ok_def by (cases "a = dir") auto
  next
    fix a b d1 d2
    assume ab: "dirs t a = Some d1 \<and> dirs t b = Some d2 \<and> a \<noteq> b"
    have "set (Entries d1) \<inter> set (Entries d2) = {}" if "dirs s a = Some d1" "dirs s b = Some d2" "a \<noteq> b" for a b d1 d2
      using s(8) that unfolding entries_ok_def by blast
    from this [of a _ b] show "set (Entries d1) \<inter> set (Entries d2) = {}"
      using ab d t(1) set_remove1_subset [of e "Entries d"] by (cases "a = dir"; cases "b = dir") (auto, blast+)
  qed
  moreover have "refs_ok t"
  proof -
    have "dirs t c = Some d1 \<Longrightarrow> \<exists>d2. dirs s c = Some d2 \<and> Parent d2 = Parent d1" for c d1
      using d t(1) by (cases "c = dir") auto
    moreover have "children_of t a = children_of s a" "entries_of t a = entries_of s a" "reason_count t a r = reason_count s a r" for a r
      using d t by (auto simp: children_of_def entries_of_def reason_count_def)
    ultimately show ?thesis
      using s(9) frame_dom [OF inv(2)] t(2) unfolding refs_ok_def by metis
  qed
  moreover have "fresh_ok t"
  proof -
    have "Xattrs t = Xattrs s"
      using inv(2) by (simp add: frame_def)
    then show ?thesis
      using s(10) unfolding fresh_ok_def frame_dom [OF inv(2)] t(2,4) by simp
  qed
  moreover have "links_ok t"
    by (rule links_removed(1) [OF inv(1) d mem e(2) t(1) _ t(2,6,5)]) simp
  ultimately show "fs_inv t"
    using s(7) t(2,3) by (intro fs_inv_update [OF inv]) auto
  show "dir_map t = (dir_map s)(dir := (dir_map s dir)(name := None))"
    using d tr(2) t(1,2) by (auto simp: dir_map_def fun_eq_iff)
qed

lemma unlink_dirent_ok:
  assumes inv: "fs_inv s" and d: "dirs s dir = Some d" and e: "TrieSearch (Children d) name = Some e" "Dirents s e = Some de"
  shows "\<exists>t tr m. unlink_dirent dir name e (if de_Inode de = dir then NULL else de_Inode de) s = Some t \<and> fs_inv t \<and> frame s t \<and> lock_of t = lock_of s
    \<and> dir_map t = (dir_map s)(dir := (dir_map s dir)(name := None))
    \<and> dirs t = (dirs s)(dir \<mapsto> d\<lparr>Children := tr, Entries := remove1 e (Entries d)\<rparr>) \<and> Dirents t = Dirents s \<and> Objects t = Objects s
    \<and> next_addr t = next_addr s \<and> nlink s (de_Inode de) = Some m \<and> nlink t = (if de_Inode de = dir then nlink s else (nlink s)(de_Inode de \<mapsto> m - 1))"
proof -
  let ?x = "de_Inode de"
  have x: "e \<in> set (Entries d)" "Inodes s ?x \<noteq> None"
    using found_entry [OF inv d e(1)] e(2) by auto
  then obtain j where j: "Inodes s ?x = Some j"
    by blast
  then have "inode_ok s ?x j"
    by (rule fs_invD(5) [OF inv])
  then have null: "?x \<noteq> NULL"
    by (simp add: inode_ok_def)
  obtain i where i: "Inodes s dir = Some i" "Instance i = Directory d"
    using inv d by (rule dir_inode)
  have "indexed (dirent_name s) (Entries d) (Children d)"
    using fs_invD(8) [OF inv] d by (simp add: entries_ok_def)
  from indexed_delete [OF this e(1)] obtain tr
    where tr: "TrieDeletion True (Children d) name = Some (0, tr)" "indexed (dirent_name s) (remove1 e (Entries d)) tr"
      "TrieSearch tr = (TrieSearch (Children d))(name := None)"
    by blast
  define d' where "d' = d\<lparr>Children := tr, Entries := remove1 e (Entries d)\<rparr>"
  define s1 where "s1 = set_inode dir (set_directory d' i) s"
  define t where "t = (if ?x = dir then s1 else set_inode ?x (decrement_nlink j) s1)"
  have same: "(lock_of s)(dir \<mapsto> InodeLock i) = lock_of s" "(lock_of s)(?x \<mapsto> InodeLock j) = lock_of s"
    "(nlink s)(dir \<mapsto> st_nlink (Attributes i)) = nlink s" "nlink s ?x = Some (st_nlink (Attributes j))"
    using i j by (simp_all add: lock_of_def nlink_def fun_upd_idem)
  have "(dirs s)(dir \<mapsto> d', ?x := the_directory j) = (dirs s)(dir \<mapsto> d')" if "?x \<noteq> dir"
    by (rule fun_upd_idem) (use that j in \<open>simp add: dirs_def\<close>)
  note same = same this
  have "frame s s1"
    unfolding s1_def using i by (intro frame_set_inode [of _ _ i]) simp_all
  moreover have "frame s1 t" if "?x \<noteq> dir"
    unfolding t_def using that j by (simp, intro frame_set_inode [of _ _ j]) (simp_all add: s1_def)
  ultimately have fr: "frame s t"
    using frame_trans [of s s1 t] by (cases "?x = dir") (simp_all add: t_def)
  have v: "dirs t = (dirs s)(dir \<mapsto> d')" "Dirents t = Dirents s" "Objects t = Objects s" "next_addr t = next_addr s" "lock_of t = lock_of s"
    "nlink t = (if ?x = dir then nlink s else (nlink s)(?x \<mapsto> st_nlink (Attributes j) - 1))" "nlink s ?x = Some (st_nlink (Attributes j))"
    using same by (simp_all add: t_def s1_def)
  have "0 < st_nlink (Attributes j)" if "?x \<noteq> dir"
    using links_removed(2) [OF inv d x(1) e(2) v(1) _ v(2,7,6) that] by (simp add: d'_def)
  then have "unlink_dirent dir name e (if ?x = dir then NULL else ?x) s = Some t"
    using e(2) i tr(1) j null by (simp add: unlink_dirent_def t_def s1_def d'_def)
  moreover note remove_entry_ok [OF inv fr d e tr(2,3) v(1) [unfolded d'_def] v(2-4,6,7)]
  ultimately show ?thesis
    using fr v by (intro exI [of _ t] exI [of _ tr] exI [of _ "st_nlink (Attributes j)"]) (simp add: d'_def)
qed

text \<open>What is left when an entry has left its directory; the entry itself is still in memory.\<close>

definition unlinked :: "addr \<Rightarrow> string \<Rightarrow> addr \<Rightarrow> bb_state \<Rightarrow> bb_state \<Rightarrow> bool" where
  "unlinked dir name e s t \<longleftrightarrow> fs_inv t \<and> frame s t \<and> dir_map t = (dir_map s)(dir := (dir_map s dir)(name := None))
     \<and> (\<exists>d tr. dirs s dir = Some d \<and> dirs t = (dirs s)(dir \<mapsto> d\<lparr>Children := tr, Entries := remove1 e (Entries d)\<rparr>))
     \<and> Dirents t = Dirents s \<and> Objects t = Objects s \<and> next_addr t = next_addr s
     \<and> (\<exists>de m. Dirents s e = Some de \<and> nlink s (de_Inode de) = Some m
          \<and> nlink t = (if de_Inode de = dir then nlink s else (nlink s)(de_Inode de \<mapsto> m - 1)))"

lemma touch_dir_map: "touch s t \<Longrightarrow> dir_map t = dir_map s"
  by (rule views_ok(2)) (auto simp: touch_dirs touchD(5) touch_None)

lemma unlinked_touch:
  assumes "unlinked dir name e s t" "touch t u"
  shows "unlinked dir name e s u"
proof -
  have "fs_inv u" "frame s u"
    using assms fs_inv_touch frame_trans [OF _ touch_frame [OF assms(2)]] by (auto simp: unlinked_def)
  then show ?thesis
    using assms(1) unfolding unlinked_def touch_dir_map [OF assms(2)] touch_dirs [OF assms(2)] touchD(1,4,5) [OF assms(2)] touch_nlink [OF assms(2)]
    by blast
qed

lemma touch_unlinked:
  assumes "touch s t" "unlinked dir name e t u"
  shows "unlinked dir name e s u"
proof -
  have "frame s u"
    using assms frame_trans [OF touch_frame [OF assms(1)]] by (auto simp: unlinked_def)
  then show ?thesis
    using assms(2) unfolding unlinked_def touch_dir_map [OF assms(1)] touch_dirs [OF assms(1)] touchD(1,4,5) [OF assms(1)] touch_nlink [OF assms(1)]
    by blast
qed

lemma unlink_dirent_unlinked:
  assumes inv: "fs_inv s" and d: "dirs s dir = Some d" and e: "TrieSearch (Children d) name = Some e" "Dirents s e = Some de"
  shows "\<exists>t. unlink_dirent dir name e (if de_Inode de = dir then NULL else de_Inode de) s = Some t \<and> unlinked dir name e s t \<and> lock_of t = lock_of s"
  using unlink_dirent_ok [OF assms] d e(2) unfolding unlinked_def by blast

lemma drop_add:
  assumes "header_ok h" "r < 12"
  shows "drop_reference r (add_reference r h) = h"
  using assms by (cases h) (simp add: drop_reference_def add_reference_def sub_reason_def sub_count_def header_ok_def)

lemma add_reference_more: "header_ok h \<Longrightarrow> ReferenceCount (add_reference r h) \<noteq> 1"
  by (auto simp: add_reference_def header_ok_def)

lemma set_header_same: "Objects s a = Some h \<Longrightarrow> set_header a h s = s"
  by (simp add: set_header_def fun_upd_idem)

text \<open>A reference that is taken and dropped again around an unlinking leaves no trace.\<close>

lemma unlinked_referenced:
  assumes "unlinked dir name e (set_header x h' s) t" "Objects s x = Some h" "fs_inv (set_header x h t)"
  shows "unlinked dir name e s (set_header x h t)"
proof -
  have "dir_map (set_header x h t) = dir_map t" "dir_map (set_header x h' s) = dir_map s"
    by (auto simp: dir_map_def fun_eq_iff)
  moreover have "frame s (set_header x h t)"
    using assms(1) frame_trans [OF frame_header(1)] frame_trans [OF _ frame_header(1)] unfolding unlinked_def by blast
  moreover have "Objects (set_header x h t) = Objects s" if "Objects t = Objects (set_header x h' s)"
    using that assms(2) by (auto simp: set_header_def)
  ultimately show ?thesis
    using assms(1,3) unfolding unlinked_def set_header_views by simp
qed

section \<open>Removing an entry\<close>

lemma remove_missing:
  assumes inv: "fs_inv s" "idle s" and d: "dirs s dir = Some d" "dir_map s dir name = None"
  shows "\<exists>t. RemoveDirEntryFromDirectory dir name s = Some (NULL, t) \<and> touch s t \<and> lock_of t = lock_of s"
proof -
  obtain i where i: "Inodes s dir = Some i" "InodeType i = BITBUCKET_DIR_TYPE"
    using inv(1) d(1) by (rule dir_inode)
  have un: "lock_of s dir = Some Unlocked"
    by (rule idle_Unlocked [OF inv(2) i(1)])
  obtain s1 where s1: "BitbucketLockInode dir True s = Some s1" "touch s s1" "lock_of s1 = (lock_of s)(dir \<mapsto> Exclusive)"
    using lock_excl [OF un] by blast
  obtain s2 where s2: "BitbucketUnlockInode dir s1 = Some s2" "touch s1 s2" "lock_of s2 = (lock_of s1)(dir \<mapsto> Unlocked)"
    using unlock [of s1 dir Exclusive] s1(3) by auto
  have "dirs s1 dir = Some d"
    using touch_dirs [OF s1(2)] d(1) by simp
  then obtain k where "Inodes s1 dir = Some k" "Instance k = Directory d"
    unfolding dirs_Some by blast
  moreover have "TrieSearch (Children d) name = None"
    using d(2) search_dir_map [OF inv(1) d(1)] by blast
  ultimately have "remove_dirent_loop dir name NULL s1 = Some (NULL, NULL, s1)"
    by (simp add: remove_dirent_loop.simps [of dir name NULL s1])
  then have "RemoveDirEntryFromDirectory dir name s = Some (NULL, s2)"
    using i s1(1) s2(1) by (simp add: RemoveDirEntryFromDirectory_def)
  moreover have "lock_of s2 = lock_of s"
    using s1(3) s2(3) un by (simp add: fun_upd_idem)
  ultimately show ?thesis
    using touch_trans [OF s1(2) s2(2)] by blast
qed

lemma remove_self:
  assumes inv: "fs_inv s" "idle s" and d: "dirs s dir = Some d" and e: "TrieSearch (Children d) name = Some e" "Dirents s e = Some de" "de_Inode de = dir"
  shows "\<exists>t. RemoveDirEntryFromDirectory dir name s = Some (e, t) \<and> unlinked dir name e s t \<and> lock_of t = lock_of s"
proof -
  obtain i where i: "Inodes s dir = Some i" "InodeType i = BITBUCKET_DIR_TYPE"
    using inv(1) d(1) by (rule dir_inode)
  have un: "lock_of s dir = Some Unlocked"
    by (rule idle_Unlocked [OF inv(2) i(1)])
  obtain s1 where s1: "BitbucketLockInode dir True s = Some s1" "touch s s1" "lock_of s1 = (lock_of s)(dir \<mapsto> Exclusive)"
    using lock_excl [OF un] by blast
  have v: "dirs s1 dir = Some d" "Dirents s1 e = Some de"
    using touch_dirs [OF s1(2)] touchD(5) [OF s1(2)] d e(2) by auto
  obtain s2 where s2: "unlink_dirent dir name e NULL s1 = Some s2" "unlinked dir name e s1 s2" "lock_of s2 = lock_of s1"
    using unlink_dirent_unlinked [OF fs_inv_touch [OF inv(1) s1(2)] v(1) e(1) v(2)] e(3) by auto
  obtain s3 where s3: "BitbucketUnlockInode dir s2 = Some s3" "touch s2 s3" "lock_of s3 = (lock_of s2)(dir \<mapsto> Unlocked)"
    using unlock [of s2 dir Exclusive] s1(3) s2(3) by auto
  obtain k where "Inodes s1 dir = Some k" "Instance k = Directory d"
    using v(1) unfolding dirs_Some by blast
  then have "remove_dirent_loop dir name NULL s1 = Some (e, NULL, s2)"
    using e v(2) s2(1) by (simp add: remove_dirent_loop.simps [of dir name NULL s1])
  then have "RemoveDirEntryFromDirectory dir name s = Some (e, s3)"
    using i s1(1) s3(1) by (simp add: RemoveDirEntryFromDirectory_def)
  moreover have "lock_of s3 = lock_of s"
    using s1(3) s2(3) s3(3) un by (simp add: fun_upd_idem)
  ultimately show ?thesis
    using unlinked_touch [OF touch_unlinked [OF s1(2) s2(2)] s3(2)] by blast
qed

text \<open>The loop with the lock of another inode: the reference and the lock are taken, and the entry is unlinked.\<close>

lemma remove_loop_other:
  assumes inv: "fs_inv s" and d: "dirs s dir = Some d" and e: "TrieSearch (Children d) name = Some e" "Dirents s e = Some de" "de_Inode de = x" "x \<noteq> dir"
    and h: "Objects s x = Some h" "room s x 4" and l: "lock_of s x = Some Unlocked"
  shows "\<exists>t. remove_dirent_loop dir name NULL s = Some (e, x, t) \<and> unlinked dir name e (set_header x (add_reference 4 h) s) t
    \<and> lock_of t = (lock_of s)(x \<mapsto> Exclusive)"
proof -
  obtain j where "Inodes s x = Some j"
    using l by (auto simp: lock_of_def)
  with inv obtain h' where h': "Objects s x = Some h'" "header_ok h'" "inode_ready x s" "x \<noteq> NULL"
    by (rule fs_inv_inode)
  obtain i where i: "Inodes s dir = Some i" "Instance i = Directory d"
    using inv d by (rule dir_inode)
  define s1 where "s1 = set_header x (add_reference 4 h) s"
  have R: "BitbucketReferenceInode x 4 s = Some s1"
    unfolding s1_def using h h' by (intro reference_inode) simp_all
  have "fs_inv s1"
    unfolding s1_def using h by (intro fs_inv_add [OF inv]) simp_all
  have "lock_of s1 x = Some Unlocked"
    using l by (simp add: s1_def)
  then obtain s2 where s2: "BitbucketTryLockInode x True s1 = Some (0, s2)" "touch s1 s2" "lock_of s2 = (lock_of s1)(x \<mapsto> Exclusive)"
    using trylock_excl by blast
  have v: "dirs s2 dir = Some d" "Dirents s2 e = Some de" "fs_inv s2"
    using touch_dirs [OF s2(2)] touchD(5) [OF s2(2)] fs_inv_touch [OF \<open>fs_inv s1\<close> s2(2)] d e(2) by (auto simp: s1_def)
  obtain s3 where s3: "unlink_dirent dir name e x s2 = Some s3" "unlinked dir name e s2 s3" "lock_of s3 = lock_of s2"
    using unlink_dirent_unlinked [OF v(3,1) e(1) v(2)] e(3,4) by auto
  have "remove_dirent_loop dir name NULL s = Some (e, x, s3)"
    using i e h'(4) R s2(1) s3(1) by (simp add: remove_dirent_loop.simps [of dir name NULL s])
  then show ?thesis
    using touch_unlinked [OF s2(2) s3(2)] s2(3) s3(3) by (auto simp: s1_def)
qed

lemma remove_other:
  assumes inv: "fs_inv s" "idle s" and d: "dirs s dir = Some d" and e: "TrieSearch (Children d) name = Some e" "Dirents s e = Some de" "de_Inode de = x" "x \<noteq> dir"
    and r: "room s x 4"
  shows "\<exists>t. RemoveDirEntryFromDirectory dir name s = Some (e, t) \<and> unlinked dir name e s t \<and> lock_of t = lock_of s"
proof -
  obtain i where i: "Inodes s dir = Some i" "InodeType i = BITBUCKET_DIR_TYPE"
    using inv(1) d(1) by (rule dir_inode)
  obtain j where j: "Inodes s x = Some j"
    using found_entry [OF inv(1) d e(1)] e(2,3) by auto
  obtain h where h: "Objects s x = Some h" "header_ok h" "x \<noteq> NULL" "inode_ready x s"
    using inv(1) j by (rule fs_inv_inode)
  note un = idle_Unlocked [OF inv(2) i(1)] idle_Unlocked [OF inv(2) j]
  obtain s1 where s1: "BitbucketLockInode dir True s = Some s1" "touch s s1" "lock_of s1 = (lock_of s)(dir \<mapsto> Exclusive)"
    using lock_excl [OF un(1)] by blast
  have v: "dirs s1 dir = Some d" "Dirents s1 e = Some de" "fs_inv s1" "Objects s1 x = Some h" "room s1 x 4" "lock_of s1 x = Some Unlocked"
    using touch_dirs [OF s1(2)] touchD(1,5) [OF s1(2)] fs_inv_touch [OF inv(1) s1(2)] d e r h(1) s1(3) un(2) by (auto simp: room_def reason_count_def)
  let ?h = "add_reference 4 h"
  obtain s2 where s2: "remove_dirent_loop dir name NULL s1 = Some (e, x, s2)" "unlinked dir name e (set_header x ?h s1) s2" "lock_of s2 = (lock_of s1)(x \<mapsto> Exclusive)"
    using remove_loop_other [OF v(3,1) e(1) v(2) e(3,4) v(4-6)] by blast
  obtain s3 where s3: "BitbucketUnlockInode x s2 = Some s3" "touch s2 s3" "lock_of s3 = (lock_of s2)(x \<mapsto> Unlocked)"
    using unlock [of s2 x Exclusive] s2(3) by auto
  have u3: "unlinked dir name e (set_header x ?h s1) s3"
    by (rule unlinked_touch [OF s2(2) s3(2)])
  then have o3: "Objects s3 x = Some ?h" "fs_inv s3" "frame s s3"
    using frame_trans [OF frame_trans [OF touch_frame [OF s1(2)] frame_header(1)]] by (auto simp: unlinked_def set_header_def)
  have h4: "header_ok ?h" "ReferenceReasons ?h ! 4 \<noteq> 0" "ReferenceCount ?h \<noteq> 1" "drop_reference 4 ?h = h"
    using header_ok_add [OF h(2) _ room_header [OF r h(1)]] add_reference_counts(1) [OF h(2) _ room_header [OF r h(1)], of 4]
      add_reference_more [OF h(2)] drop_add [OF h(2)] by auto
  have D: "BitbucketDereferenceInode x 4 1 s3 = Some (set_header x h s3)"
    using dereference_inode [OF frame_ready [OF o3(3) h(4)] o3(1) h4(1) _ h4(2,3)] h4(4) by simp
  have "fs_inv (set_header x h s3)"
    using fs_inv_drop [OF o3(2,1) _ _ _ h4(2,3)] h4(4) by simp
  then have u4: "unlinked dir name e s1 (set_header x h s3)"
    by (rule unlinked_referenced [OF u3 v(4)])
  obtain s5 where s5: "BitbucketUnlockInode dir (set_header x h s3) = Some s5" "touch (set_header x h s3) s5" "lock_of s5 = (lock_of s3)(dir \<mapsto> Unlocked)"
    using unlock [of "set_header x h s3" dir Exclusive] s1(3) s2(3) s3(3) e(4) by auto
  have "RemoveDirEntryFromDirectory dir name s = Some (e, s5)"
    using i s1(1) s2(1) s3(1) D s5(1) h(3) by (simp add: RemoveDirEntryFromDirectory_def)
  moreover have "lock_of s5 = lock_of s"
    using s1(3) s2(3) s3(3) s5(3) un e(4) by (simp add: fun_upd_idem fun_upd_twist)
  ultimately show ?thesis
    using unlinked_touch [OF touch_unlinked [OF s1(2) u4] s5(2)] by blast
qed

lemma remove_entry:
  assumes inv: "fs_inv s" "idle s" and d: "dirs s dir = Some d" and e: "TrieSearch (Children d) name = Some e" "Dirents s e = Some de"
    and r: "de_Inode de \<noteq> dir \<Longrightarrow> room s (de_Inode de) 4"
  shows "\<exists>t. RemoveDirEntryFromDirectory dir name s = Some (e, t) \<and> unlinked dir name e s t \<and> lock_of t = lock_of s"
  using remove_self [OF inv d e] remove_other [OF inv d e refl] r by blast

end
