(* ===== verification/FsFree.thy ===== *)
theory FsFree
  imports DirRemove
begin

text \<open>
  Freeing an inode keeps the invariant of the file system, provided that nothing points to
  it.  When the counters are right this is what the last dereference finds.
\<close>

section \<open>The invariant without the counters of one inode\<close>

definition refs_but :: "addr \<Rightarrow> bb_state \<Rightarrow> bool" where
  "refs_but x s \<longleftrightarrow> (\<forall>e de. Dirents s e = Some de \<longrightarrow> de_Inode de \<noteq> x \<and> Inodes s (de_Inode de) \<noteq> None)
     \<and> (\<forall>c d. dirs s c = Some d \<and> Parent d \<noteq> NULL \<longrightarrow> Parent d \<noteq> x \<and> Inodes s (Parent d) \<noteq> None)
     \<and> (\<forall>a. a \<noteq> x \<and> Inodes s a \<noteq> None \<longrightarrow> reason_count s a INODE_DIRENT_REFERENCE = card (entries_of s a)
          \<and> reason_count s a INODE_PARENT_REFERENCE = card (children_of s a))"

definition fs_inv_but :: "addr \<Rightarrow> bb_state \<Rightarrow> bool" where
  "fs_inv_but x s \<longleftrightarrow> table_inv s \<and> (\<forall>a i. Inodes s a = Some i \<longrightarrow> inode_ok s a i) \<and> owners_ok s
     \<and> finite (dom (Dirents s)) \<and> entries_ok s \<and> refs_but x s \<and> fresh_ok s \<and> links_ok s"

definition childless :: "bb_state \<Rightarrow> addr \<Rightarrow> bool" where
  "childless s x \<longleftrightarrow> (\<forall>d. dirs s x = Some d \<longrightarrow> Entries d = [] \<and> Parent d = NULL)"

text \<open>The state after the last dereference of an inode.\<close>

definition freed :: "addr \<Rightarrow> bb_state \<Rightarrow> bb_state" where
  "freed x s = (inode_teardown x s)\<lparr>Objects := (Objects s)(x := None), ObjectCount := ObjectCount s - 1\<rparr>"

lemma freed_views:
  assumes "Inodes s x = Some i"
  shows "Inodes (freed x s) = (Inodes s)(x := None)" "Objects (freed x s) = (Objects s)(x := None)" "Dirents (freed x s) = Dirents s"
    "next_addr (freed x s) = next_addr s" "dirs (freed x s) = (dirs s)(x := None)" "nlink (freed x s) = (nlink s)(x := None)"
    "lock_of (freed x s) = (lock_of s)(x := None)" "Storage (freed x s) = storage_without i (Storage s)"
    "Xattrs (freed x s) = (\<lambda>y. if y \<in> set (ExtendedAttributes i) then None else Xattrs s y)"
    "freed x (s\<lparr>Dirents := D\<rparr>) = (freed x s)\<lparr>Dirents := D\<rparr>"
    "VerifyDirectoriesEnabled (freed x s) = VerifyDirectoriesEnabled s"
    "InodeCount (InodeTable (freed x s)) = InodeCount (InodeTable s) - 1"
proof -
  show "freed x (s\<lparr>Dirents := D\<rparr>) = (freed x s)\<lparr>Dirents := D\<rparr>"
    by (cases s) (simp add: freed_def inode_teardown_def bucket_without_def bucket_def hash_of_def Let_def fun_eq_iff)
qed (use assms in \<open>auto simp: freed_def inode_teardown_def dirs_def nlink_def lock_of_def Let_def\<close>)

lemma removable_but:
  assumes "fs_inv_but x s" "Inodes s x = Some i" "lock_of s x = Some Unlocked" "childless s x"
  shows "inode_removable x s"
proof -
  have ok: "inode_ok s x i" and T: "table_inv s"
    using assms(1,2) by (auto simp: fs_inv_but_def)
  have k: "kind_removable s i"
    using ok assms(2,4) unfolding inode_ok_def kind_ok_def kind_removable_def childless_def
    by (auto simp: dirs_Some split: option.splits registered.splits)
  let ?ino = "\<lambda>a. st_ino (Attributes (the (Inodes s a)))"
  have m: "table_map s (?ino a) = Some a" if "a \<in> dom (Inodes s)" for a
    using assms(1) that by (auto simp: fs_inv_but_def inode_ok_def)
  have "inj_on ?ino (dom (Inodes s))"
  proof (rule inj_onI)
    fix a b
    assume a: "a \<in> dom (Inodes s)" and b: "b \<in> dom (Inodes s)" and eq: "?ino a = ?ino b"
    have "Some a = Some b"
      unfolding m [OF a, symmetric] m [OF b, symmetric] eq ..
    then show "a = b"
      by (rule option.inject [THEN iffD1])
  qed
  moreover have "?ino a \<noteq> 0" if "a \<in> dom (Inodes s)" for a
    using m [OF that] by (metis option.distinct(1) table_map_zero)
  then have "?ino ` dom (Inodes s) \<subseteq> UNIV - {0}"
    by (intro image_subsetI) simp
  ultimately have "card (dom (Inodes s)) \<le> card (UNIV - {0 :: u64})"
    by (rule card_inj_on_le) (rule finite)
  then have "card (dom (Inodes s)) < 2 ^ 64"
    by (simp add: card_word)
  moreover have "0 < card (dom (Inodes s))"
    using T assms(2) by (auto simp: table_inv_def card_gt_0_iff)
  moreover have "unat (of_nat (card (dom (Inodes s))) :: u64) = card (dom (Inodes s))" if "card (dom (Inodes s)) < 2 ^ 64"
    using that by (simp only: unsigned_of_nat) (simp add: take_bit_nat_eq_self)
  ultimately have "unat (InodeCount (InodeTable s)) \<noteq> 0"
    using T unfolding table_inv_def by (metis bot_nat_0.not_eq_extremum)
  then have "InodeCount (InodeTable s) \<noteq> 0"
    by auto
  then show ?thesis
    using ok T assms(2,3) k unfolding inode_ok_def table_inv_def
    by (elim conjE exE) (rule removableI, simp_all add: lock_of_def)
qed

section \<open>Freeing keeps the invariant\<close>

lemma freed_table:
  assumes "fs_inv_but x s" "Inodes s x = Some i" "inode_removable x s"
  shows "table_inv (freed x s)" "table_map (freed x s) = (table_map s)(st_ino (Attributes i) := None)"
proof -
  have T: "table_inv s"
    using assms(1) by (simp add: fs_inv_but_def)
  obtain b where b: "hash_of s (st_ino (Attributes i)) = Some b"
    using assms(2,3) by (auto simp: inode_removable_def)
  have "ino_of (freed x s) = ino_of (inode_teardown x s)" "InodeTable (freed x s) = InodeTable (inode_teardown x s)"
    by (simp_all add: ino_of_def freed_def fun_eq_iff)
  then have ok: "itable_ok (freed x s)" and tm: "table_map (freed x s) = (table_map s)(st_ino (Attributes i) := None)"
    using table_cong [of "freed x s" "inode_teardown x s"] teardown_table [OF assms(3,2)] by simp_all
  have "bucket (freed x s) = bucket (inode_teardown x s)"
    by (simp add: bucket_def freed_def fun_eq_iff)
  then have "quiet (freed x s)"
    using T teardown_bucket(1) [OF assms(2) b] by (simp add: table_inv_def quiet_def bucket_without_def Let_def)
  moreover have "0 < card (dom (Inodes s))" "finite (dom (Inodes s))" "x \<in> dom (Inodes s)"
    using T assms(2) by (auto simp: table_inv_def card_gt_0_iff)
  then have "of_nat (card (dom (Inodes s) - {x})) = (of_nat (card (dom (Inodes s))) - 1 :: u64)"
    by (simp add: of_nat_pred)
  ultimately show "table_inv (freed x s)"
    using ok T freed_views(1,12) [OF assms(2)] by (simp add: table_inv_def)
  show "table_map (freed x s) = (table_map s)(st_ino (Attributes i) := None)"
    by (rule tm)
qed

lemma freed_kind:
  assumes "kind_ok s j" "map_name j \<noteq> None \<longrightarrow> map_name j \<noteq> map_name i" "Storage t = storage_without i (Storage s)"
  shows "kind_ok t j"
proof -
  have "Storage t n = Storage s n" if "map_name j = Some n" for n
    using assms(2,3) that by (auto simp: storage_without_def map_name_def split: option.splits registered.splits instance_data.splits)
  then show ?thesis
    using assms(1) by (auto simp: kind_ok_def map_name_def split: option.splits registered.splits)
qed

lemma freed_inode_ok:
  assumes "fs_inv_but x s" "Inodes s x = Some i" "inode_removable x s" "Inodes s a = Some j" "a \<noteq> x"
  shows "inode_ok (freed x s) a j"
proof -
  note v = freed_views [OF assms(2)]
  have ok: "inode_ok s a j" "inode_ok s x i" and own: "owners_ok s"
    using assms(1,2,4) by (auto simp: fs_inv_but_def)
  have o: "set (ExtendedAttributes j) \<inter> set (ExtendedAttributes i) = {}" "map_name j \<noteq> None \<longrightarrow> map_name j \<noteq> map_name i"
    using own assms(2,4,5) unfolding owners_ok_def by blast+
  have "st_ino (Attributes j) \<noteq> st_ino (Attributes i)"
    using ok assms(5) by (auto simp: inode_ok_def)
  then have "table_map (freed x s) (st_ino (Attributes j)) = Some a"
    using freed_table(2) [OF assms(1-3)] ok(1) by (simp add: inode_ok_def)
  moreover have "xattr_ok (freed x s) j"
    unfolding xattr_ok_def
  proof (rule indexed_mono)
    show "indexed (xattr_name_of s) (ExtendedAttributes j) (ExtendedAttributeTrie j)"
      using ok(1) by (simp add: inode_ok_def xattr_ok_def)
    show "\<forall>y\<in>set (ExtendedAttributes j). xattr_name_of (freed x s) y = xattr_name_of s y"
      using o(1) by (auto simp: xattr_name_of_def v(9))
  qed
  moreover have "kind_ok (freed x s) j"
    using freed_kind [OF _ o(2) v(8)] ok(1) by (simp add: inode_ok_def)
  ultimately show ?thesis
    using ok(1) assms(5) by (simp add: inode_ok_def v(2))
qed

lemma freed_inv:
  assumes "fs_inv_but x s" "Inodes s x = Some i" "lock_of s x = Some Unlocked" "childless s x"
  shows "fs_inv (freed x s)"
proof -
  note v = freed_views [OF assms(2)]
  have rem: "inode_removable x s"
    by (rule removable_but [OF assms])
  have s: "owners_ok s" "finite (dom (Dirents s))" "entries_ok s" "refs_but x s" "fresh_ok s" "links_ok s" "x \<noteq> NULL"
    using assms(1,2) by (auto simp: fs_inv_but_def inode_ok_def)
  have "owners_ok (freed x s)"
    using s(1) unfolding owners_ok_def v(1) by (metis fun_upd_apply option.distinct(1))
  moreover have "entries_ok (freed x s)"
  proof -
    have "dirent_name (freed x s) = dirent_name s"
      by (simp add: dirent_name_def v(3) fun_eq_iff)
    then show ?thesis
      using s(3) unfolding entries_ok_def v(5) by (metis fun_upd_apply option.distinct(1))
  qed
  moreover have "refs_ok (freed x s)"
  proof -
    have "children_of (freed x s) a = children_of s a" if "a \<noteq> NULL" for a
      using assms(4) that by (auto simp: children_of_def v(5) childless_def)
    moreover have "entries_of (freed x s) a = entries_of s a" "a \<noteq> x \<Longrightarrow> reason_count (freed x s) a r = reason_count s a r" for a r
      by (simp_all add: entries_of_def reason_count_def v(2,3))
    moreover have "a \<noteq> NULL" if "Inodes s a \<noteq> None" for a
      using assms(1) that by (auto simp: fs_inv_but_def inode_ok_def)
    ultimately show ?thesis
      using s(4) unfolding refs_ok_def refs_but_def v(1,3,5) by (auto split: if_splits)
  qed
  moreover have "fresh_ok (freed x s)"
    using s(5) by (auto simp: fresh_ok_def v(1,3,4,9))
  moreover have "links_ok (freed x s)"
  proof -
    have "(\<exists>d. dirs (freed x s) b = Some d \<and> e \<in> set (Entries d)) \<longleftrightarrow> (\<exists>d. dirs s b = Some d \<and> e \<in> set (Entries d))" for b e
      using assms(4) by (cases "b = x") (auto simp: v(5) childless_def)
    then have "linked (freed x s) a = linked s a" for a
      by (rule linked_cong [OF _ v(3)])
    then show ?thesis
      using s(6) unfolding links_ok_def v(5,6) by (auto split: if_splits)
  qed
  ultimately show ?thesis
    using s(2) freed_table(1) [OF assms(1,2) rem] freed_inode_ok [OF assms(1,2) rem] v(1,3)
    by (auto simp: fs_inv_def split: if_splits)
qed

end
