(* ===== verification/DirDelete.thy ===== *)
theory DirDelete
  imports FsFree
begin

text \<open>Dropping references and deleting directory entries keep the invariant of the file system.\<close>

section \<open>Dropping a reference\<close>

lemma header_one:
  assumes "header_ok h" "ReferenceCount h = 1" "r < 12" "ReferenceReasons h ! r \<noteq> 0"
  shows "q < 12 \<Longrightarrow> q \<noteq> r \<Longrightarrow> ReferenceReasons h ! q = 0" "unat (ReferenceReasons h ! r) = 1"
    "(1::u64) \<le> ucast (ReferenceReasons h ! r)"
proof -
  show le: "(1::u64) \<le> ucast (ReferenceReasons h ! r)"
    by (rule one_le_reason [OF assms(4)])
  then show "q < 12 \<Longrightarrow> q \<noteq> r \<Longrightarrow> ReferenceReasons h ! q = 0"
    using header_ok_only [OF assms(1,3)] assms(2) by simp
  have "unat (ReferenceReasons h ! r) \<le> 1" "unat (ReferenceReasons h ! r) \<noteq> 0"
    using reason_le_total [OF assms(1,3)] assms(2,4) by (auto simp: unsigned_eq_0_iff)
  then show "unat (ReferenceReasons h ! r) = 1"
    by simp
qed

lemma dereference_freed:
  assumes "inode_removable a s" "Inodes s a = Some i" "Objects s a = Some h" "r < 12" "ReferenceCount h = 1" "(1::u64) \<le> ucast (ReferenceReasons h ! r)"
  shows "BitbucketDereferenceInode a r 1 s = Some (freed a s)"
  using iob.dereference_frees [OF assms(1,3,4)] assms(2,5,6) by (simp add: BitbucketDereferenceInode_def freed_def)

lemma no_entries:
  assumes "fs_inv s" "Inodes s a = Some i" "Objects s a = Some h"
  shows "ReferenceReasons h ! 2 = 0 \<Longrightarrow> entries_of s a = {}" "ReferenceReasons h ! 1 = 0 \<Longrightarrow> children_of s a = {}"
proof -
  have c: "reason_count s a 2 = card (entries_of s a)" "reason_count s a 1 = card (children_of s a)"
    using fs_invD(9) [OF assms(1)] assms(2) by (auto simp: refs_ok_def)
  have "children_of s a \<subseteq> dom (Inodes s)"
    by (auto simp: children_of_def dirs_Some)
  then have "finite (children_of s a)"
    by (rule finite_subset [OF _ fs_invD(3) [OF assms(1)]])
  then show "ReferenceReasons h ! 2 = 0 \<Longrightarrow> entries_of s a = {}" "ReferenceReasons h ! 1 = 0 \<Longrightarrow> children_of s a = {}"
    using c assms(3) entries_finite [OF assms(1)] by (auto simp: reason_count_def)
qed

lemma fs_inv_butI:
  assumes "fs_inv s" "Inodes s a = Some i" "entries_of s a = {}" "children_of s a = {}"
  shows "fs_inv_but a s"
proof -
  have "de_Inode de \<noteq> a" if "Dirents s e = Some de" for e de
    using assms(3) that by (auto simp: entries_of_def)
  moreover have "Parent d \<noteq> a" if "dirs s c = Some d" for c d
    using assms(4) that by (auto simp: children_of_def)
  ultimately show ?thesis
    using assms(1) unfolding fs_inv_def fs_inv_but_def refs_ok_def refs_but_def by blast
qed

definition dropped :: "nat \<Rightarrow> addr \<Rightarrow> bb_state \<Rightarrow> bb_state" where
  "dropped r a s = (let h = the (Objects s a) in if ReferenceCount h = 1 then freed a s else set_header a (drop_reference r h) s)"

text \<open>The object may be freed: it is not locked and, when a directory, it is empty and detached.\<close>

definition may_free :: "bb_state \<Rightarrow> addr \<Rightarrow> bool" where
  "may_free s a \<longleftrightarrow> (\<forall>h. Objects s a = Some h \<and> ReferenceCount h = 1 \<longrightarrow> lock_of s a = Some Unlocked \<and> childless s a)"

lemma dereference_fs:
  assumes inv: "fs_inv s" and i: "Inodes s a = Some i" and r: "r < 12" "r \<noteq> 1" "r \<noteq> 2" "0 < reason_count s a r" and f: "may_free s a"
  shows "BitbucketDereferenceInode a r 1 s = Some (dropped r a s)" "fs_inv (dropped r a s)"
proof -
  obtain h where h: "Objects s a = Some h" "header_ok h" "inode_ready a s"
    using inv i by (rule fs_inv_inode)
  have nz: "ReferenceReasons h ! r \<noteq> 0"
    using r(4) h(1) by (auto simp: reason_count_def)
  have "BitbucketDereferenceInode a r 1 s = Some (dropped r a s) \<and> fs_inv (dropped r a s)"
  proof (cases "ReferenceCount h = 1")
    case True
    note one = header_one [OF h(2) True r(1) nz]
    have "entries_of s a = {}" "children_of s a = {}"
      using no_entries [OF inv i h(1)] one(1) r(2,3) by auto
    then have but: "fs_inv_but a s"
      by (rule fs_inv_butI [OF inv i])
    have fr: "lock_of s a = Some Unlocked" "childless s a"
      using f h(1) True by (auto simp: may_free_def)
    show ?thesis
      using dereference_freed [OF removable_but [OF but i fr] i h(1) r(1) True one(3)] freed_inv [OF but i fr] True h(1)
      by (simp add: dropped_def)
  next
    case False
    then show ?thesis
      using dereference_inode [OF h(3,1,2) r(1) nz] fs_inv_drop [OF inv h(1) r(1-3) nz] h(1) by (simp add: dropped_def)
  qed
  then show "BitbucketDereferenceInode a r 1 s = Some (dropped r a s)" "fs_inv (dropped r a s)"
    by auto
qed

section \<open>Releasing an entry\<close>

text \<open>The entry is in no directory any more.\<close>

definition detached :: "bb_state \<Rightarrow> addr \<Rightarrow> bool" where
  "detached s e \<longleftrightarrow> (\<forall>a d. dirs s a = Some d \<longrightarrow> e \<notin> set (Entries d))"

lemma detached_views:
  assumes "detached s e" "dirs t = dirs s" "Dirents t = (Dirents s)(e := None)"
  shows "entries_ok s \<Longrightarrow> entries_ok t" "linked t a = linked s a"
proof -
  have nm: "dirent_name t x = dirent_name s x" if "x \<noteq> e" for x
    using that assms(3) by (simp add: dirent_name_def)
  assume ok: "entries_ok s"
  have "indexed (dirent_name t) (Entries d) (Children d)" if d: "dirs s b = Some d" for b d
  proof (rule indexed_mono)
    show "indexed (dirent_name s) (Entries d) (Children d)"
      using ok d unfolding entries_ok_def by blast
    show "\<forall>x\<in>set (Entries d). dirent_name t x = dirent_name s x"
      using nm assms(1) d unfolding detached_def by metis
  qed
  then show "entries_ok t"
    using ok unfolding entries_ok_def assms(2) by blast
next
  have "Dirents t x = Dirents s x" if "dirs s b = Some d" "x \<in> set (Entries d)" for b d x
    using assms(1,3) that by (auto simp: detached_def)
  then show "linked t a = linked s a"
    unfolding linked_def assms(2) by (intro Collect_cong) metis
qed

lemma entries_of_released:
  assumes "Dirents s e = Some de" "Dirents t = (Dirents s)(e := None)"
  shows "entries_of t a = entries_of s a - (if a = de_Inode de then {e} else {})"
  using assms by (auto simp: entries_of_def)

lemma dirents_irrelevant [simp]:
  "table_map (s\<lparr>Dirents := D\<rparr>) = table_map s" "table_inv (s\<lparr>Dirents := D\<rparr>) = table_inv s" "inode_ok (s\<lparr>Dirents := D\<rparr>) = inode_ok s"
  "owners_ok (s\<lparr>Dirents := D\<rparr>) = owners_ok s" "inode_removable x (s\<lparr>Dirents := D\<rparr>) = inode_removable x s"
proof -
  let ?t = "s\<lparr>Dirents := D\<rparr>"
  have T: "itable_ok ?t = itable_ok s" "table_map ?t = table_map s"
    using table_cong [of ?t s] by (simp_all add: ino_of_def fun_eq_iff)
  have b: "bucket ?t = bucket s" "hash_of ?t = hash_of s"
    by (simp_all add: bucket_def hash_of_def fun_eq_iff)
  have x: "xattr_ok ?t i = xattr_ok s i" "kind_ok ?t i = kind_ok s i" "kind_removable ?t i = kind_removable s i" for i
    by (rule xattr_ok_cong2 kind_ok_cong kind_removable_cong; simp)+
  show "table_map ?t = table_map s" "table_inv ?t = table_inv s" "owners_ok ?t = owners_ok s"
    using T b by (simp_all add: table_inv_def quiet_def owners_ok_def)
  show "inode_ok ?t = inode_ok s" "inode_removable x ?t = inode_removable x s"
    by (simp_all add: inode_ok_def inode_removable_def T b x fun_eq_iff)
qed

lemma release_keep:
  assumes inv: "fs_inv s" and e: "Dirents s e = Some de" "detached s e" and h: "Objects s (de_Inode de) = Some h" "ReferenceCount h \<noteq> 1"
    and t: "t = (set_header (de_Inode de) (drop_reference 2 h) s)\<lparr>Dirents := (Dirents s)(e := None)\<rparr>"
  shows "fs_inv t" "ReferenceReasons h ! 2 \<noteq> 0"
proof -
  let ?x = "de_Inode de"
  note s = fs_invD [OF inv]
  obtain i where i: "Inodes s ?x = Some i"
    using s(9) e(1) unfolding refs_ok_def by blast
  have ok: "header_ok h"
    using s(5) [OF i] h(1) by (simp add: inode_ok_def)
  have "e \<in> entries_of s ?x"
    using e(1) by (auto simp: entries_of_def)
  then have "card (entries_of s ?x) \<noteq> 0"
    using entries_finite [OF inv] by auto
  then have "reason_count s ?x 2 \<noteq> 0"
    using s(9) i by (simp add: refs_ok_def)
  then show nz: "ReferenceReasons h ! 2 \<noteq> 0"
    using h(1) by (auto simp: reason_count_def)
  have fr: "frame s t"
    unfolding t using frame_trans [OF frame_header(1) frame_header(2)] .
  have v: "dirs t = dirs s" "Dirents t = (Dirents s)(e := None)" "nlink t = nlink s" "Objects t = (Objects s)(?x \<mapsto> drop_reference 2 h)" "next_addr t = next_addr s"
    "Inodes t = Inodes s" "Xattrs t = Xattrs s"
    unfolding t by simp_all
  have "refs_ok t"
  proof -
    have "reason_count t a q = reason_count s a q - (if a = ?x \<and> q = 2 then 1 else 0)" for a q
      using drop_reference_counts(1) [OF ok _ nz, of q] h(1) v(4) by (auto simp: reason_count_def)
    moreover have "children_of t a = children_of s a" for a
      by (simp add: children_of_def v(1))
    moreover have "card (entries_of t a) = card (entries_of s a) - (if a = ?x then 1 else 0)" for a
      using entries_of_released [OF e(1) v(2), of a] \<open>e \<in> entries_of s ?x\<close> by simp
    ultimately show ?thesis
      using s(9) unfolding refs_ok_def v(1,2,6) by (auto split: if_splits)
  qed
  moreover have "fresh_ok t"
    using s(10) by (auto simp: fresh_ok_def v)
  moreover have "links_ok t"
    using s(11) detached_views(2) [OF e(2) v(1,2)] unfolding links_ok_def v(1,3) by simp
  moreover have "\<exists>h'. Objects t a = Some h' \<and> header_ok h' \<and> DataLength h' = DataLength g" if "Objects s a = Some g" "header_ok g" for a g
    using header_ok_drop [OF _ _ nz h(2)] drop_reference_counts(2) [OF ok _ nz] that by (intro header_step [OF v(4) h(1)]) simp_all
  ultimately show "fs_inv t"
    using s(7) detached_views(1) [OF e(2) v(1,2) s(8)] v(2) by (intro fs_inv_update [OF inv fr]) auto
qed

lemma release_free:
  assumes inv: "fs_inv s" and e: "Dirents s e = Some de" "detached s e" and h: "Objects s (de_Inode de) = Some h" "ReferenceCount h = 1"
    and f: "lock_of s (de_Inode de) = Some Unlocked" "childless s (de_Inode de)"
  shows "fs_inv (freed (de_Inode de) (s\<lparr>Dirents := (Dirents s)(e := None)\<rparr>))" "BitbucketDereferenceInode (de_Inode de) 2 1 s = Some (freed (de_Inode de) s)"
proof -
  let ?x = "de_Inode de" and ?t = "s\<lparr>Dirents := (Dirents s)(e := None)\<rparr>"
  note s = fs_invD [OF inv]
  obtain i where i: "Inodes s ?x = Some i"
    using s(9) e(1) unfolding refs_ok_def by blast
  have ok: "header_ok h"
    using s(5) [OF i] h(1) by (simp add: inode_ok_def)
  have mem: "e \<in> entries_of s ?x"
    using e(1) by (auto simp: entries_of_def)
  have c: "reason_count s ?x 2 = card (entries_of s ?x)"
    using s(9) i by (simp add: refs_ok_def)
  then have "reason_count s ?x 2 \<noteq> 0"
    using mem entries_finite [OF inv] by auto
  then have nz: "ReferenceReasons h ! 2 \<noteq> 0"
    using h(1) by (auto simp: reason_count_def)
  note one = header_one [OF ok h(2) _ nz]
  have "card (entries_of s ?x) = 1"
    using c one(2) h(1) by (simp add: reason_count_def)
  then have only: "entries_of s ?x = {e}"
    using mem by (metis card_1_singletonE singletonD)
  have ch: "children_of s ?x = {}"
    using no_entries(2) [OF inv i h(1)] one(1) by simp
  have v: "dirs ?t = dirs s" "Dirents ?t = (Dirents s)(e := None)"
    by simp_all
  have "children_of ?t a = children_of s a" "reason_count ?t a q = reason_count s a q" for a q
    by (simp_all add: children_of_def reason_count_def)
  moreover have "entries_of ?t a = entries_of s a - (if a = ?x then {e} else {})" for a
    by (rule entries_of_released [OF e(1) v(2)])
  moreover have "f \<noteq> e \<Longrightarrow> Dirents s f = Some df \<Longrightarrow> de_Inode df \<noteq> ?x" for f df
    using only by (auto simp: entries_of_def)
  moreover have "Parent d \<noteq> ?x" if "dirs s c = Some d" for c d
    using ch that by (auto simp: children_of_def)
  ultimately have "refs_but ?x ?t"
    using s(9) unfolding refs_but_def refs_ok_def v by (auto split: if_splits)
  moreover have "table_inv ?t" "\<forall>a i. Inodes ?t a = Some i \<longrightarrow> inode_ok ?t a i" "owners_ok ?t" "fresh_ok ?t" "finite (dom (Dirents ?t))"
    using inv by (auto simp: fs_inv_def fresh_ok_def)
  moreover have "links_ok ?t"
    using s(11) detached_views(2) [OF e(2) v] by (simp add: links_ok_def)
  ultimately have but: "fs_inv_but ?x ?t"
    using detached_views(1) [OF e(2) v s(8)] by (simp add: fs_inv_but_def)
  have fr: "lock_of ?t ?x = Some Unlocked" "childless ?t ?x" "Inodes ?t ?x = Some i"
    using i f by (simp_all add: childless_def)
  show "fs_inv (freed ?x ?t)"
    by (rule freed_inv [OF but fr(3,1,2)])
  have "inode_removable ?x s"
    using removable_but [OF but fr(3,1,2)] by simp
  then show "BitbucketDereferenceInode ?x 2 1 s = Some (freed ?x s)"
    using dereference_freed [OF _ i h(1) _ h(2) one(3)] by simp
qed

definition released :: "addr \<Rightarrow> addr \<Rightarrow> bb_state \<Rightarrow> bb_state" where
  "released e x s = (dropped 2 x s)\<lparr>Dirents := (Dirents s)(e := None)\<rparr>"

lemma release_entry:
  assumes inv: "fs_inv s" and e: "Dirents s e = Some de" "de_Inode de = x" "detached s e" and f: "may_free s x"
  shows "BitbucketDereferenceInode x 2 1 s = Some (dropped 2 x s)" "free_dirent e (dropped 2 x s) = Some (released e x s)" "fs_inv (released e x s)"
proof -
  obtain i where i: "Inodes s x = Some i"
    using fs_invD(9) [OF inv] e(1,2) unfolding refs_ok_def by blast
  obtain h where h: "Objects s x = Some h" "header_ok h" "inode_ready x s"
    using inv i by (rule fs_inv_inode)
  have d: "Dirents (dropped 2 x s) = Dirents s"
    using freed_views(3) [OF i] by (simp add: dropped_def Let_def)
  then show "free_dirent e (dropped 2 x s) = Some (released e x s)"
    using e(1) by (simp add: free_dirent_def released_def)
  show "BitbucketDereferenceInode x 2 1 s = Some (dropped 2 x s)" "fs_inv (released e x s)"
  proof (atomize (full), cases "ReferenceCount h = 1")
    case True
    then have fr: "lock_of s x = Some Unlocked" "childless s x"
      using f h(1) by (auto simp: may_free_def)
    then show "BitbucketDereferenceInode x 2 1 s = Some (dropped 2 x s) \<and> fs_inv (released e x s)"
      using release_free [OF inv e(1,3)] h(1) True e(2) freed_views(10) [OF i] by (simp add: dropped_def released_def)
  next
    case False
    then show "BitbucketDereferenceInode x 2 1 s = Some (dropped 2 x s) \<and> fs_inv (released e x s)"
      using release_keep [OF inv e(1,3), of h] h e(2) dereference_inode [OF h(3,1,2)] by (simp add: dropped_def released_def)
  qed
qed

section \<open>Deleting an entry\<close>

lemma is_directory_dirs:
  assumes "fs_inv s"
  shows "is_directory a s \<longleftrightarrow> dirs s a \<noteq> None"
proof (cases "dirs s a")
  case None
  then show ?thesis
    by (cases "Inodes s a") (auto simp: is_directory_def dirs_def)
next
  case (Some d)
  with assms obtain i where "Inodes s a = Some i" "Instance i = Directory d" "InodeType i = BITBUCKET_DIR_TYPE"
    by (rule dir_inode)
  then show ?thesis
    using Some by (simp add: is_directory_def)
qed

lemma delete_missing:
  assumes inv: "fs_inv s" "idle s" and d: "dirs s dir = Some d" and name: "name \<noteq> []" "dir_map s dir name = None"
  shows "\<exists>t. BitbucketDeleteDirectoryEntry dir name s = Some (ENOENT, t) \<and> touch s t \<and> lock_of t = lock_of s"
proof -
  obtain i where i: "Inodes s dir = Some i" "dir \<noteq> NULL"
    using inv(1) d by (rule dir_inode)
  note un = idle_Unlocked [OF inv(2) i(1)]
  obtain s1 where s1: "VerifyDirectoryEntries dir s = Some s1" "touch s s1" "lock_of s1 = lock_of s"
    using verify_ok [OF inv(1) un d] by blast
  have v1: "fs_inv s1" "idle s1" "dirs s1 dir = Some d" "dir_map s1 = dir_map s"
    using fs_inv_touch [OF inv(1) s1(2)] touch_dirs [OF s1(2)] touch_dir_map [OF s1(2)] inv(2) d s1(3) by (auto simp: idle_lock_of)
  obtain s2 where s2: "BitbucketLookupObjectInDirectory dir name s1 = Some (NULL, s2)" "touch s1 s2" "lock_of s2 = lock_of s1"
    using lookup_entry [OF v1(1-3), of name] name(2) v1(4) by (auto simp: referenced_def)
  have "fs_inv s2" "lock_of s2 dir = Some Unlocked" "dirs s2 dir = Some d"
    using fs_inv_touch [OF v1(1) s2(2)] touch_dirs [OF s2(2)] v1(3) s2(3) s1(3) un by auto
  then obtain s3 where s3: "VerifyDirectoryEntries dir s2 = Some s3" "touch s2 s3" "lock_of s3 = lock_of s2"
    using verify_ok by blast
  have "BitbucketDeleteDirectoryEntry dir name s = Some (ENOENT, s3)"
    using i name is_directory_dirs [OF inv(1), of dir] d s1(1) s2(1) s3(1) by (simp add: BitbucketDeleteDirectoryEntry_def)
  then show ?thesis
    using touch_trans [OF s1(2) touch_trans [OF s2(2) s3(2)]] s1(3) s2(3) s3(3) by auto
qed

text \<open>The deletion up to the point where the entry is unlinked and the inode holds a reference for the lookup.\<close>

definition rest_of_delete :: "addr \<Rightarrow> addr \<Rightarrow> addr \<Rightarrow> bb_state \<Rightarrow> (errno \<times> bb_state) option" where
  "rest_of_delete dir x e s = do {
     j \<leftarrow> Inodes s x;
     s \<leftarrow> (if InodeType j = BITBUCKET_DIR_TYPE then unlink_child dir x s else Some s);
     s \<leftarrow> BitbucketDereferenceInode x INODE_LOOKUP_REFERENCE 1 s;
     s \<leftarrow> BitbucketDereferenceInode x INODE_DIRENT_REFERENCE 1 s;
     s \<leftarrow> free_dirent e s;
     s \<leftarrow> VerifyDirectoryEntries dir s;
     Some (0, s) }"

lemma unlinked_detached:
  assumes "fs_inv s" "unlinked dir name e s t" "dirs s dir = Some d" "e \<in> set (Entries d)"
  shows "detached t e"
  unfolding detached_def
proof (intro allI impI)
  fix a d1
  assume a: "dirs t a = Some d1"
  obtain tr where t: "dirs t = (dirs s)(dir \<mapsto> d\<lparr>Children := tr, Entries := remove1 e (Entries d)\<rparr>)"
    using assms(2,3) by (auto simp: unlinked_def)
  have "distinct (Entries d)"
    using fs_invD(8) [OF assms(1)] assms(3) by (auto simp: entries_ok_def indexed_def)
  then show "e \<notin> set (Entries d1)"
    using entry_unique_dir [OF assms(1) assms(3) _ assms(4)] a t by (cases "a = dir") auto
qed

lemma delete_prefix:
  assumes inv: "fs_inv s" "idle s" and d: "dirs s dir = Some d" and name: "name \<noteq> []" "dir_map s dir name = Some x"
    and h: "Objects s x = Some h" and r: "room s x 0" "room s x 4"
  shows "\<exists>e t s0. BitbucketDeleteDirectoryEntry dir name s = rest_of_delete dir x e t \<and> touch (set_header x (add_reference 0 h) s) s0
    \<and> unlinked dir name e s0 t \<and> lock_of t = lock_of s \<and> detached t e \<and> (\<exists>de. Dirents s e = Some de \<and> de_Inode de = x) \<and> e \<in> set (Entries d)"
proof -
  obtain i where i: "Inodes s dir = Some i" "dir \<noteq> NULL"
    using inv(1) d by (rule dir_inode)
  note un = idle_Unlocked [OF inv(2) i(1)]
  obtain s1 where s1: "VerifyDirectoryEntries dir s = Some s1" "touch s s1" "lock_of s1 = lock_of s"
    using verify_ok [OF inv(1) un d] by blast
  have v1: "fs_inv s1" "idle s1" "dirs s1 dir = Some d" "dir_map s1 dir name = Some x" "Objects s1 = Objects s"
    using fs_inv_touch [OF inv(1) s1(2)] touch_dirs [OF s1(2)] touch_dir_map [OF s1(2)] touchD(1) [OF s1(2)] inv(2) d s1(3) name(2)
    by (auto simp: idle_lock_of)
  have "room s1 x 0"
    using r(1) v1(5) by (simp add: room_def reason_count_def)
  then obtain s2 where s2: "BitbucketLookupObjectInDirectory dir name s1 = Some (x, s2)" "touch (set_header x (add_reference 0 h) s1) s2" "lock_of s2 = lock_of s1"
    using lookup_entry [OF v1(1-3), of name] v1(4,5) h by (auto simp: referenced_def)
  have t2: "touch (set_header x (add_reference 0 h) s) s2"
    by (rule touch_trans [OF touch_set_header [OF s1(2)] s2(2)])
  have "fs_inv (set_header x (add_reference 0 h) s)"
    using fs_inv_add [OF inv(1) h _ _ _ r(1)] by simp
  then have v2: "fs_inv s2" "idle s2" "dirs s2 dir = Some d" "Dirents s2 = Dirents s"
    using fs_inv_touch [OF _ t2] touch_dirs [OF t2] touchD(5) [OF t2] d v1(2) s2(3) by (auto simp: idle_lock_of)
  have x: "Inodes s x \<noteq> None"
    by (rule dir_map_live [OF inv(1) name(2)])
  then obtain j where j: "Inodes s x = Some j"
    by blast
  obtain e de where e: "TrieSearch (Children d) name = Some e" "Dirents s e = Some de" "de_Inode de = x" "e \<in> set (Entries d)"
    using inv(1) d name(2) by (rule dir_map_entry)
  have "room s2 x 4"
    using r(2) h touchD(1) [OF t2] by (simp add: room_def reason_count_def set_header_def add_reference_def)
  then obtain s3 where s3: "RemoveDirEntryFromDirectory dir name s2 = Some (e, s3)" "unlinked dir name e s2 s3" "lock_of s3 = lock_of s2"
    using remove_entry [OF v2(1-3) e(1), of de] e(2,3) v2(4) by auto
  have "x \<noteq> NULL"
    using fs_invD(5) [OF inv(1) j] by (simp add: inode_ok_def)
  moreover have "e \<noteq> NULL"
    using fs_invD(10) [OF inv(1)] e(2) by (intro notI) (simp add: fresh_ok_def)
  moreover have "Dirents s3 e = Some de"
    using s3(2) v2(4) e(2) by (simp add: unlinked_def)
  ultimately have "BitbucketDeleteDirectoryEntry dir name s = rest_of_delete dir x e s3"
    using i name is_directory_dirs [OF inv(1), of dir] d s1(1) s2(1) s3(1) e(3)
    by (simp add: BitbucketDeleteDirectoryEntry_def rest_of_delete_def cong: if_cong)
  moreover have "detached s3 e"
    using unlinked_detached [OF v2(1) s3(2) v2(3) e(4)] .
  ultimately show ?thesis
    using t2 s3 s2(3) s1(3) e(2-4) by (intro exI [of _ e] exI [of _ s3] exI [of _ s2]) auto
qed

text \<open>The two references are dropped, the entry is freed.\<close>

lemma delete_suffix:
  assumes inv: "fs_inv s" "idle s" and d: "dirs s dir = Some d" "dir \<noteq> x" and e: "Dirents s e = Some de" "de_Inode de = x" "detached s e"
    and h: "Objects s x = Some (add_reference 0 h)" "ReferenceReasons h ! 0 \<noteq> - 1" "header_ok h" and f: "childless s x"
  shows "\<exists>t. do {
       s \<leftarrow> BitbucketDereferenceInode x INODE_LOOKUP_REFERENCE 1 s;
       s \<leftarrow> BitbucketDereferenceInode x INODE_DIRENT_REFERENCE 1 s;
       s \<leftarrow> free_dirent e s;
       s \<leftarrow> VerifyDirectoryEntries dir s;
       Some (0 :: errno, s) } = Some (0, t)
     \<and> touch (released e x (set_header x h s)) t \<and> lock_of t = lock_of (released e x (set_header x h s)) \<and> fs_inv t"
proof -
  let ?s1 = "set_header x h s"
  let ?s2 = "released e x ?s1"
  obtain i where i: "Inodes s x = Some i"
    using fs_invD(9) [OF inv(1)] e(1,2) unfolding refs_ok_def by blast
  have "0 < reason_count s x 0" "may_free s x"
    using h add_reference_counts(1) [OF h(3) _ h(2), of 0] add_reference_more [OF h(3)] by (auto simp: reason_count_def may_free_def)
  then have D: "BitbucketDereferenceInode x 0 1 s = Some ?s1" "fs_inv ?s1"
    using dereference_fs [OF inv(1) i, of 0] h drop_add [OF h(3)] add_reference_more [OF h(3)] by (auto simp: dropped_def)
  have "lock_of s x = Some Unlocked"
    by (rule idle_Unlocked [OF inv(2) i])
  then have f1: "may_free ?s1 x" "detached ?s1 e" "Dirents ?s1 e = Some de"
    using f e by (auto simp: may_free_def childless_def detached_def)
  note R = release_entry [OF D(2) f1(3) e(2) f1(2,1)]
  have lk: "lock_of ?s2 dir = Some Unlocked" "dirs ?s2 dir = Some d"
  proof -
    obtain k where "Inodes s dir = Some k"
      using inv(1) d(1) by (rule dir_inode)
    then have "lock_of s dir = Some Unlocked"
      by (rule idle_Unlocked [OF inv(2)])
    moreover have "Inodes ?s1 x = Some i"
      using i by simp
    ultimately show "lock_of ?s2 dir = Some Unlocked" "dirs ?s2 dir = Some d"
      using d freed_views(5,7) by (simp_all add: released_def dropped_def Let_def)
  qed
  obtain t where t: "VerifyDirectoryEntries dir ?s2 = Some t" "touch ?s2 t" "lock_of t = lock_of ?s2"
    using verify_ok [OF R(3) lk] by blast
  then show ?thesis
    using D R fs_inv_touch [OF R(3) t(2)] by simp
qed

lemma released_views:
  assumes "Inodes s x = Some i" "Objects s x = Some h"
  shows "Dirents (released e x s) = (Dirents s)(e := None)"
    "Objects (released e x s) = (Objects s)(x := if ReferenceCount h = 1 then None else Some (drop_reference 2 h))"
    "Inodes (released e x s) = (if ReferenceCount h = 1 then (Inodes s)(x := None) else Inodes s)"
    "dirs (released e x s) = (if ReferenceCount h = 1 then (dirs s)(x := None) else dirs s)"
    "lock_of (released e x s) = (if ReferenceCount h = 1 then (lock_of s)(x := None) else lock_of s)"
    "nlink (released e x s) = (if ReferenceCount h = 1 then (nlink s)(x := None) else nlink s)"
  using freed_views [OF assms(1)] assms(2) by (auto simp: released_def dropped_def Let_def)

text \<open>The number and the kind of an inode go with it.\<close>

definition without :: "addr \<Rightarrow> (addr \<Rightarrow> u64 option) \<times> (addr \<Rightarrow> registered option) \<times> 'a \<Rightarrow> (addr \<Rightarrow> u64 option) \<times> (addr \<Rightarrow> registered option) \<times> 'a" where
  "without x r = (case r of (n, k, e) \<Rightarrow> (n(x := None), k(x := None), e))"

lemma freed_rest:
  assumes "Inodes s x = Some i"
  shows "rest (freed x s) = without x (rest s)" "Storage s name = None \<Longrightarrow> Storage (freed x s) name = None" "Tick (freed x s) = Tick s"
proof -
  have "InodeNumbers (freed x s) = InodeNumbers s" "Environment (freed x s) = Environment s" "Tick (freed x s) = Tick s"
    using assms by (simp_all add: freed_def inode_teardown_def Let_def)
  then show "rest (freed x s) = without x (rest s)" "Tick (freed x s) = Tick s"
    using freed_views(1) [OF assms] by (auto simp: rest_def without_def ino_of_def kind_of_def fun_eq_iff)
  show "Storage s name = None \<Longrightarrow> Storage (freed x s) name = None"
    by (simp add: freed_views(8) [OF assms] storage_without_def split: option.splits registered.splits instance_data.splits)
qed

lemma released_rest:
  assumes "Inodes s x = Some i" "Objects s x = Some h"
  shows "rest (released e x s) = (if ReferenceCount h = 1 then without x (rest s) else rest s)"
    "Storage s name = None \<Longrightarrow> Storage (released e x s) name = None" "Tick (released e x s) = Tick s"
proof -
  have D: "rest (s\<lparr>Dirents := D\<rparr>) = rest s" "rest (set_header x g s) = rest s" for D g s
    by (simp_all add: rest_def ino_of_def kind_of_def set_header_def fun_eq_iff)
  show "rest (released e x s) = (if ReferenceCount h = 1 then without x (rest s) else rest s)"
    "Storage s name = None \<Longrightarrow> Storage (released e x s) name = None" "Tick (released e x s) = Tick s"
    using freed_rest [OF assms(1)] assms(2) D by (auto simp: released_def dropped_def Let_def set_header_def)
qed

lemma delete_file_entry:
  assumes inv: "fs_inv s" "idle s" and d: "dirs s dir = Some d" and name: "name \<noteq> []" "dir_map s dir name = Some x"
    and x: "dirs s x = None" "Objects s x = Some h" and r: "room s x 0" "room s x 4"
  shows "\<exists>t. BitbucketDeleteDirectoryEntry dir name s = Some (0, t) \<and> fs_inv t \<and> idle t
    \<and> dir_map t = (dir_map s)(dir := (dir_map s dir)(name := None))
    \<and> Objects t = (Objects s)(x := if ReferenceCount h = 1 then None else Some (drop_reference 2 h))
    \<and> (\<forall>a. Inodes t a = None \<longleftrightarrow> Inodes s a = None \<or> a = x \<and> ReferenceCount h = 1)
    \<and> (\<forall>a. a \<noteq> dir \<longrightarrow> dirs t a = dirs s a) \<and> dirs t dir \<noteq> None
    \<and> rest t = (if ReferenceCount h = 1 then without x (rest s) else rest s) \<and> (\<forall>n. Storage s n = None \<longrightarrow> Storage t n = None) \<and> Tick s \<le> Tick t"
proof -
  obtain j where j: "Inodes s x = Some j"
    using dir_map_live [OF inv(1) name(2)] by blast
  have ok: "header_ok h" "kind_ok s j"
    using fs_invD(5) [OF inv(1) j] x(2) by (auto simp: inode_ok_def)
  obtain e t1 s0 de where p: "BitbucketDeleteDirectoryEntry dir name s = rest_of_delete dir x e t1" "touch (set_header x (add_reference 0 h) s) s0"
    "unlinked dir name e s0 t1" "lock_of t1 = lock_of s" "detached t1 e" "Dirents s e = Some de" "de_Inode de = x" "e \<in> set (Entries d)"
    using delete_prefix [OF inv d name x(2) r] by blast
  note t0 = touchD(1,5) [OF p(2)] touch_dirs [OF p(2)] touch_dir_map [OF p(2)] touch_None [OF p(2)]
  have v: "fs_inv t1" "frame s0 t1" "dir_map t1 = (dir_map s0)(dir := (dir_map s0 dir)(name := None))" "Dirents t1 = Dirents s0" "Objects t1 = Objects s0"
    using p(3) by (auto simp: unlinked_def)
  have nd: "dir \<noteq> x"
    using d x(1) by auto
  obtain d1 where d1: "dirs t1 dir = Some d1" "dirs t1 x = None"
    using p(3) t0(3) x(1) nd by (auto simp: unlinked_def)
  have dm: "dir_map (set_header a g s) = dir_map s" for a g s
    by (auto simp: dir_map_def fun_eq_iff)
  have "Inodes t1 x \<noteq> None"
    using frame_dom [OF v(2)] t0(5) j by auto
  then obtain k where k: "Inodes t1 x = Some k"
    by blast
  then have nt: "InodeType k \<noteq> BITBUCKET_DIR_TYPE"
    using fs_invD(5) [OF v(1) k] d1(2) by (auto simp: inode_ok_def kind_ok_def dirs_def the_directory.simps split: option.splits registered.splits)
  have f: "childless t1 x" "idle t1" "Objects t1 x = Some (add_reference 0 h)"
    using d1(2) inv(2) p(4) v(5) t0(1) by (auto simp: childless_def idle_lock_of set_header_def)
  obtain t where t: "rest_of_delete dir x e t1 = Some (0, t)" "touch (released e x (set_header x h t1)) t"
    "lock_of t = lock_of (released e x (set_header x h t1))" "fs_inv t"
    using delete_suffix [OF v(1) f(2) d1(1) nd _ p(7,5) f(3) room_header [OF r(1) x(2)] ok(1) f(1)] k nt p(6) v(4) t0(2)
    by (auto simp: rest_of_delete_def)
  let ?u = "set_header x h t1"
  have o: "(Objects t1)(x := y) = (Objects s)(x := y)" for y
    using v(5) t0(1) by simp
  have R: "Dirents (released e x ?u) = (Dirents s)(e := None)" "Objects (released e x ?u) = (Objects s)(x := if ReferenceCount h = 1 then None else Some (drop_reference 2 h))"
    "Inodes (released e x ?u) = (if ReferenceCount h = 1 then (Inodes t1)(x := None) else Inodes t1)" "dirs (released e x ?u) = dirs t1"
    "lock_of (released e x ?u) = (if ReferenceCount h = 1 then (lock_of s)(x := None) else lock_of s)"
    using released_views [of ?u x k h e] k o x(2) v(4) t0(2) fun_upd_idem [of "dirs t1" x None] d1(2) p(4) by auto
  have "dir_map (released e x ?u) = dir_map t1"
  proof -
    have "TrieSearch (Children d') n \<noteq> Some e" if "dirs t1 a = Some d'" for a d' n
      using found_entry [OF v(1) that] p(5) that by (auto simp: detached_def)
    then show ?thesis
      using R(1,4) v(4) t0(2) by (auto simp: dir_map_def fun_eq_iff split: bind_splits)
  qed
  then have "dir_map t = (dir_map s)(dir := (dir_map s dir)(name := None))"
    using touch_dir_map [OF t(2)] v(3) t0(4) dm by simp
  moreover have "idle t"
    using t(3) R(5) inv(2) by (auto simp: idle_lock_of split: if_splits)
  moreover have "Inodes t a = None \<longleftrightarrow> Inodes s a = None \<or> a = x \<and> ReferenceCount h = 1" for a
    using touch_None [OF t(2), of a] R(3) frame_dom [OF v(2), of a] t0(5) [of a] by auto
  moreover have dr: "dirs t = dirs t1"
    using touch_dirs [OF t(2)] R(4) by simp
  moreover have "dirs t1 a = dirs s a" if "a \<noteq> dir" for a
    using p(3) t0(3) that by (auto simp: unlinked_def)
  moreover have fr: "frame s ?u"
    by (rule frame_trans [OF frame_trans [OF frame_trans [OF frame_header(1) touch_frame [OF p(2)]] v(2)] frame_header(1)])
  moreover have "rest t = (if ReferenceCount h = 1 then without x (rest s) else rest s)" "Storage s n = None \<Longrightarrow> Storage t n = None" "Tick s \<le> Tick t" for n
    using frame_rest [OF touch_frame [OF t(2)]] frame_rest [OF fr] released_rest [of ?u x k h] k by auto
  ultimately show ?thesis
    using p(1) t(1,4) touchD(1) [OF t(2)] R(2) d1(1) by (intro exI [of _ t]) auto
qed

end
