(* ===== verification/DirCreate.thy ===== *)
theory DirCreate
  imports DirDelete
begin

text \<open>Creating inodes and directories keeps the invariant of the file system.\<close>

section \<open>A new inode\<close>

text \<open>The next inode number is not in use and not reserved.\<close>

definition fresh_number :: "bb_state \<Rightarrow> bool" where
  "fresh_number s \<longleftrightarrow> (\<exists>ino n tick. get_new_inode_number (Random (Environment s)) (Suc (Suc (Suc (Tick s)))) (InodeNumbers s) = Some (ino, n, tick)
     \<and> ino \<noteq> 0 \<and> ino \<noteq> FUSE_ROOT_ID \<and> table_map s ino = None)"

text \<open>What the creation of an inode does to the numbers in use.\<close>

definition born :: "registered \<Rightarrow> bb_state \<Rightarrow> bb_state \<Rightarrow> addr \<Rightarrow> bool" where
  "born k s t a \<longleftrightarrow> Storage t = Storage s \<and> Tick s < Tick t \<and> (\<exists>ino n tick.
     get_new_inode_number (Random (Environment s)) (Suc (Suc (Suc (Tick s)))) (InodeNumbers s) = Some (ino, n, tick)
     \<and> rest t = ((ino_of s)(a \<mapsto> ino), (kind_of s)(a \<mapsto> k), n, Environment s) \<and> table_map t = (table_map s)(ino \<mapsto> a))"

lemma born_frame:
  assumes "born k s t a" "frame t u" "fs_inv t"
  shows "born k s u a"
proof -
  have "table_map u = table_map t"
    using same_table_ok(2) [OF _ shapes_ino_of(1) fs_invD(1) [OF assms(3)]] assms(2) by (simp add: frame_def)
  then show ?thesis
    using assms(1) frame_rest [OF assms(2)] by (simp add: born_def)
qed

fun kind_dir :: "registered \<Rightarrow> bitbucket_dir option" where
  "kind_dir DirectoryObjectAttributes = Some \<lparr>Parent = NULL, Entries = [], Children = None\<rparr>"
| "kind_dir FileObjectAttributes = None"
| "kind_dir SymbolicLinkObjectAttributes = None"

lemma new_inode_kind:
  "kind_ok s (new_inode k s0 len ino)" "the_directory (new_inode k s0 len ino) = kind_dir k" "map_name (new_inode k s0 len ino) = None"
  "st_nlink (Attributes (new_inode k s0 len ino)) = (if kind_dir k = None then 0 else 1)"
  "st_ino (Attributes (new_inode k s0 len ino)) = ino" "RegisteredAttributes (new_inode k s0 len ino) = Some k"
  by (cases k; simp add: new_inode_def plain_new_inode_def kind_ok_def map_releasable_def map_name_def the_directory.simps Let_def)+

lemma after_create_views:
  assumes "t = (after_create k len ino n tick s)\<lparr>InodeTable := T\<rparr>" "a = next_addr s + header_offset"
  shows "Inodes t = (Inodes s)(a \<mapsto> new_inode k s len ino)" "Objects t = (Objects s)(a \<mapsto> new_header len)" "Dirents t = Dirents s" "Xattrs t = Xattrs s"
    "Storage t = Storage s" "dirs t = (dirs s)(a := kind_dir k)" "lock_of t = (lock_of s)(a \<mapsto> Unlocked)"
    "nlink t = (nlink s)(a \<mapsto> (if kind_dir k = None then 0 else 1))" "next_addr t = next_addr s + round64 (header_size + len)"
    "VerifyDirectoriesEnabled t = VerifyDirectoriesEnabled s"
  using assms new_inode_kind(2,4) [of k s len ino]
  by (auto simp: after_create_def dirs_def lock_of_def nlink_def Let_def fun_eq_iff)

lemma inode_ok_frame:
  assumes "inode_ok s b j" "table_map t (st_ino (Attributes j)) = table_map s (st_ino (Attributes j))" "Xattrs t = Xattrs s" "Storage t = Storage s" "Objects t b = Objects s b"
  shows "inode_ok t b j"
  using assms(1,2,5) xattr_ok_cong [OF assms(3), of j] kind_ok_cong [OF assms(4), of j j] by (simp add: inode_ok_def)

text \<open>A new inode that nothing points to.\<close>

lemma create_refs:
  assumes inv: "fs_inv s" and a: "Inodes s a = None" "a \<noteq> NULL"
    and t: "Inodes t = (Inodes s)(a \<mapsto> i)" "Objects t = (Objects s)(a \<mapsto> new_header len)" "Dirents t = Dirents s" "dirs t = (dirs s)(a := kind_dir k)"
      "nlink t = (nlink s)(a \<mapsto> (if kind_dir k = None then 0 else 1))"
  shows "refs_ok t" "links_ok t"
proof -
  note s = fs_invD [OF inv]
  have k: "Parent d = NULL \<and> Entries d = []" if "kind_dir k = Some d" for d
    using that by (cases k) auto
  have da: "dirs s a = None"
    using a(1) by (simp add: dirs_def)
  have live: "Inodes s (de_Inode de) \<noteq> None" if "Dirents s e = Some de" for e de
    using s(9) that unfolding refs_ok_def by blast
  have par: "Inodes s (Parent d) \<noteq> None" if "dirs s c = Some d" "Parent d \<noteq> NULL" for c d
    using s(9) that unfolding refs_ok_def by blast
  have en: "entries_of t = entries_of s"
    by (simp add: entries_of_def t(3) fun_eq_iff)
  have ch: "children_of t b = children_of s b" if "b \<noteq> NULL" for b
    using that k da by (auto simp: children_of_def t(4))
  have za: "entries_of s a = {}" "children_of s a = {}"
    unfolding entries_of_def children_of_def using live par a by blast+
  have "reason_count t b 2 = card (entries_of t b) \<and> reason_count t b 1 = card (children_of t b)" if "Inodes t b \<noteq> None" for b
  proof (cases "b = a")
    case True
    then show ?thesis
      using za en ch [of a] a(2) by (simp add: reason_count_def t(2))
  next
    case False
    then have b: "Inodes s b \<noteq> None"
      using that t(1) by simp
    then have "b \<noteq> NULL"
      using s(5) by (auto simp: inode_ok_def)
    then show ?thesis
      using False b s(9) en ch [of b] unfolding refs_ok_def by (simp add: reason_count_def t(2))
  qed
  moreover have "Inodes t (Parent d) \<noteq> None" if "dirs t c = Some d" "Parent d \<noteq> NULL" for c d
    using that par [of c d] k [of d] by (cases "c = a") (auto simp: t(1,4))
  moreover have "Inodes t (de_Inode de) \<noteq> None" if "Dirents t e = Some de" for e de
    using live [of e de] that by (auto simp: t(1,3))
  ultimately show "refs_ok t"
    unfolding refs_ok_def by blast
  have "(\<exists>d. dirs t b = Some d \<and> e \<in> set (Entries d)) \<longleftrightarrow> (\<exists>d. dirs s b = Some d \<and> e \<in> set (Entries d))" for b e
    using k da by (cases "b = a") (auto simp: t(4))
  then have ln: "linked t b = linked s b" for b
    by (rule linked_cong [OF _ t(3)])
  moreover have "linked s a = {}"
    using linked_entries [of s a] za(1) by blast
  ultimately show "links_ok t"
    using s(11) unfolding links_ok_def t(4,5) by (auto split: if_splits)
qed

lemma draw_bias_tick: "draw_bias random i = Some r \<Longrightarrow> i < snd r"
  by (erule draw_bias.raw_induct [of "\<lambda>_ i r. i < snd r", rotated]) (fastforce split: if_splits)

lemma number_tick: "get_new_inode_number random i n = Some (ino, n', j) \<Longrightarrow> i \<le> j"
  using draw_bias_tick [of random "Suc i"]
  by (auto simp: get_new_inode_number_def split: bind_splits if_splits dest!: draw_bias_tick)

lemma create_fs:
  assumes inv: "fs_inv s" and num: "fresh_number s" and len: "len = round64 (private_inode_size + dl)" "len < 65536" and a: "a = next_addr s + header_offset"
  shows "\<exists>t ino. BitbucketCreateInode (Some k) dl s = Some (a, t) \<and> fs_inv t \<and> Inodes t = (Inodes s)(a \<mapsto> new_inode k s len ino)
    \<and> Objects t = (Objects s)(a \<mapsto> new_header len) \<and> Dirents t = Dirents s \<and> dirs t = (dirs s)(a := kind_dir k) \<and> lock_of t = (lock_of s)(a \<mapsto> Unlocked)
    \<and> nlink t = (nlink s)(a \<mapsto> (if kind_dir k = None then 0 else 1)) \<and> born k s t a \<and> Inodes s a = None"
proof -
  note s = fs_invD [OF inv]
  have fresh: "Inodes s a = None"
    using s(10) a by (simp add: fresh_ok_def)
  obtain ino n tick where n: "get_new_inode_number (Random (Environment s)) (Suc (Suc (Suc (Tick s)))) (InodeNumbers s) = Some (ino, n, tick)"
    "ino \<noteq> 0" "ino \<noteq> FUSE_ROOT_ID" "table_map s ino = None"
    using num by (auto simp: fresh_number_def)
  obtain T where C: "BitbucketCreateInode (Some k) dl s = Some (a, (after_create k len ino n tick s)\<lparr>InodeTable := T\<rparr>)"
    and ok: "itable_ok ((after_create k len ino n tick s)\<lparr>InodeTable := T\<rparr>)" "quiet ((after_create k len ino n tick s)\<lparr>InodeTable := T\<rparr>)"
      "table_map ((after_create k len ino n tick s)\<lparr>InodeTable := T\<rparr>) = (table_map s)(ino \<mapsto> a)" "InodeCount T = InodeCount (InodeTable s) + 1"
    using create_inode [OF s(1,2) n a fresh len, of k] unfolding Let_def by blast
  define t where "t = (after_create k len ino n tick s)\<lparr>InodeTable := T\<rparr>"
  note v = after_create_views [OF t_def a] and ok = ok [folded t_def]
  have T: "InodeTable t = T" "a \<noteq> NULL"
    using a by (simp_all add: t_def)
  have "table_inv t"
    using ok s(3,4) fresh T by (simp add: table_inv_def v(1) domIff add.commute)
  moreover have "inode_ok t b j" if b: "Inodes t b = Some j" for b j
  proof (cases "b = a")
    case True
    then have "j = new_inode k s len ino"
      using b v(1) by simp
    then show ?thesis
      using True ok(3) T(2) new_inode_kind(1) [of t k s len ino] new_header_ok by (simp add: v(2) inode_ok_def xattr_ok_def)
  next
    case False
    then have "Inodes s b = Some j"
      using b v(1) by simp
    then have j: "inode_ok s b j"
      by (rule s(5))
    then have "st_ino (Attributes j) \<noteq> ino"
      using n(4) by (auto simp: inode_ok_def)
    then show ?thesis
      using False ok(3) v(2) by (intro inode_ok_frame [OF j _ v(4,5)]) simp_all
  qed
  moreover have "owners_ok t"
    using s(6) new_inode_kind(3) [of k s len ino] unfolding owners_ok_def v(1) by (auto split: if_splits)
  moreover have "entries_ok t"
  proof -
    have "dirent_name t = dirent_name s"
      by (simp add: dirent_name_def v(3) fun_eq_iff)
    then show ?thesis
      using s(8) unfolding entries_ok_def v(6) by (cases k) (auto split: if_splits)
  qed
  moreover note create_refs [OF inv fresh T(2) v(1,2,3,6,8)]
  moreover have "fresh_ok t"
    using s(10) a round64_ge [of "header_size + len"] by (auto simp: fresh_ok_def v)
  moreover have "born k s t a"
  proof -
    have "rest t = ((ino_of s)(a \<mapsto> ino), (kind_of s)(a \<mapsto> k), n, Environment s)"
      using new_inode_kind(5,6) [of k s len ino] by (auto simp: rest_def ino_of_def kind_of_def v(1) fun_eq_iff) (simp_all add: t_def after_create_def Let_def)
    moreover have "Tick s < Tick t"
      using number_tick [OF n(1)] by (simp add: t_def after_create_def Let_def)
    ultimately show ?thesis
      unfolding born_def using n(1) ok(3) v(5) by blast
  qed
  ultimately show ?thesis
    using s(7) v C ok(3) fresh by (intro exI [of _ t] exI [of _ ino]) (simp add: fs_inv_def t_def [symmetric])
qed

section \<open>Parents\<close>

lemma adopt_refs:
  assumes inv: "fs_inv s" and d: "dirs s c = Some d" "Parent d = NULL" and p: "Inodes s p = Some j" "Objects s p = Some h" "room s p 1"
    and t: "dirs t = (dirs s)(c \<mapsto> d\<lparr>Parent := p\<rparr>)" "Objects t = (Objects s)(p \<mapsto> add_reference 1 h)" "Dirents t = Dirents s"
      "\<And>a. Inodes t a = None \<longleftrightarrow> Inodes s a = None"
  shows "refs_ok t"
proof -
  note s = fs_invD [OF inv]
  have pn: "p \<noteq> NULL" and h: "header_ok h"
    using s(5) [OF p(1)] p(2) by (auto simp: inode_ok_def)
  have r: "reason_count t a q = reason_count s a q + (if a = p \<and> q = 1 then 1 else 0)" for a q
    using add_reference_counts(1) [OF h _ room_header [OF p(3,2)], of q] p(2) t(2) by (auto simp: reason_count_def)
  have ch: "children_of t a = (if a = p then insert c (children_of s a) else children_of s a)" if "a \<noteq> NULL" for a
    using that d t(1) by (auto simp: children_of_def)
  have nc: "c \<notin> children_of s p"
    using d pn by (auto simp: children_of_def)
  have "children_of s p \<subseteq> dom (Inodes s)"
    by (auto simp: children_of_def dirs_Some)
  then have fin: "finite (children_of s p)"
    by (rule finite_subset [OF _ s(3)])
  have card: "card (children_of t a) = card (children_of s a) + (if a = p then 1 else 0)" if "a \<noteq> NULL" for a
    using ch [OF that] nc fin by simp
  have en: "entries_of t = entries_of s"
    by (simp add: entries_of_def t(3) fun_eq_iff)
  have "reason_count t a 2 = card (entries_of t a) \<and> reason_count t a 1 = card (children_of t a)" if "Inodes t a \<noteq> None" for a
  proof -
    have a: "Inodes s a \<noteq> None"
      using that unfolding t(4) .
    then have "a \<noteq> NULL"
      using s(5) by (auto simp: inode_ok_def)
    then show ?thesis
      using a s(9) r en card unfolding refs_ok_def by simp
  qed
  moreover have "Inodes t (Parent d1) \<noteq> None" if "dirs t b = Some d1" "Parent d1 \<noteq> NULL" for b d1
  proof (cases "b = c")
    case True
    then show ?thesis
      using that(1) t(1,4) p(1) by auto
  next
    case False
    then have "Inodes s (Parent d1) \<noteq> None"
      using s(9) that t(1) unfolding refs_ok_def by simp
    then show ?thesis
      unfolding t(4) .
  qed
  moreover have "Inodes t (de_Inode de) \<noteq> None" if "Dirents t e = Some de" for e de
    using s(9) that t(3,4) unfolding refs_ok_def by metis
  ultimately show ?thesis
    unfolding refs_ok_def by blast
qed

lemma adopt:
  assumes inv: "fs_inv s" and d: "dirs s c = Some d" "Parent d = NULL" and p: "Inodes s p = Some j" "Objects s p = Some h" "room s p 1"
  shows "\<exists>s1 t. set_parent c p s = Some s1 \<and> BitbucketReferenceInode p 1 s1 = Some t \<and> fs_inv t \<and> frame s t \<and> lock_of t = lock_of s \<and> nlink t = nlink s
    \<and> dirs t = (dirs s)(c \<mapsto> d\<lparr>Parent := p\<rparr>) \<and> Objects t = (Objects s)(p \<mapsto> add_reference 1 h) \<and> Dirents t = Dirents s \<and> dir_map t = dir_map s"
proof -
  note s = fs_invD [OF inv]
  obtain i where i: "Inodes s c = Some i" "Instance i = Directory d"
    using inv d(1) by (rule dir_inode)
  obtain g where g: "Objects s p = Some g" "header_ok g" "inode_ready p s"
    using inv p(1) by (rule fs_inv_inode)
  define s1 where "s1 = set_inode c (set_directory (d\<lparr>Parent := p\<rparr>) i) s"
  define t where "t = set_header p (add_reference 1 h) s1"
  have f1: "frame s s1"
    unfolding s1_def using i by (intro frame_set_inode [of _ _ i]) simp_all
  have R: "BitbucketReferenceInode p 1 s1 = Some t"
    unfolding t_def using p(2) g by (intro reference_inode frame_ready [OF f1]) (simp_all add: s1_def)
  have fr: "frame s t"
    unfolding t_def by (rule frame_trans [OF f1 frame_header(1)])
  have v: "dirs t = (dirs s)(c \<mapsto> d\<lparr>Parent := p\<rparr>)" "Objects t = (Objects s)(p \<mapsto> add_reference 1 h)" "Dirents t = Dirents s" "lock_of t = lock_of s" "nlink t = nlink s"
    "next_addr t = next_addr s"
    using i by (simp_all add: t_def s1_def fun_upd_idem lock_of_def nlink_def)
  have "entries_ok t"
  proof -
    have "dirent_name t = dirent_name s"
      by (simp add: dirent_name_def v(3) fun_eq_iff)
    moreover have "\<exists>d2. dirs s a = Some d2 \<and> Entries d2 = Entries d1 \<and> Children d2 = Children d1" if "dirs t a = Some d1" for a d1
      using that d(1) v(1) by (cases "a = c") auto
    ultimately show ?thesis
      using s(8) unfolding entries_ok_def by metis
  qed
  moreover have "refs_ok t"
    by (rule adopt_refs [OF inv d p v(1-3) frame_dom [OF fr]])
  moreover have "fresh_ok t"
  proof -
    have "Xattrs t = Xattrs s"
      using fr by (simp add: frame_def)
    then show ?thesis
      using s(10) unfolding fresh_ok_def frame_dom [OF fr] v(3,6) by simp
  qed
  moreover have "links_ok t"
  proof -
    have "(\<exists>d. dirs t b = Some d \<and> e \<in> set (Entries d)) \<longleftrightarrow> (\<exists>d. dirs s b = Some d \<and> e \<in> set (Entries d))" for b e
      using d(1) by (cases "b = c") (auto simp: v(1))
    then have "linked t a = linked s a" for a
      by (rule linked_cong [OF _ v(3)])
    then show ?thesis
      using s(11) d(1) by (simp add: links_ok_def v(1,5))
  qed
  moreover have "\<exists>h'. Objects t a = Some h' \<and> header_ok h' \<and> DataLength h' = DataLength b" if "Objects s a = Some b" "header_ok b" for a b
    using header_ok_add [OF _ _ room_header [OF p(3,2)]] that by (intro header_step [OF v(2) p(2)]) (simp_all add: add_reference_def)
  ultimately have "fs_inv t"
    using s(7) v(3) by (intro fs_inv_update [OF inv fr]) auto
  moreover have "dir_map t = dir_map s"
    using d(1) by (auto simp: dir_map_def v(1,3) fun_eq_iff)
  moreover have "set_parent c p s = Some s1"
    using i by (simp add: set_parent_def s1_def)
  ultimately show ?thesis
    using R fr v by blast
qed

section \<open>Directories\<close>

lemma insert_free:
  assumes "fs_inv s" "idle s" "dirs s dir = Some d" "Inodes s inode \<noteq> None" "Objects s inode = Some h" "room s inode 2"
    and "0 < length name" "length name < 1023" "dir_map s dir name = None"
  shows "\<exists>t d'. BitbucketInsertDirectoryEntry dir inode name s = Some (0, t) \<and> fs_inv t \<and> idle t \<and> frame s t
    \<and> dir_map t = (dir_map s)(dir := (dir_map s dir)(name \<mapsto> inode)) \<and> dirs t = (dirs s)(dir \<mapsto> d') \<and> Parent d' = Parent d
    \<and> Objects t = (Objects s)(inode \<mapsto> add_reference 2 h)"
proof -
  obtain j where "Inodes s inode = Some j"
    using assms(4) by blast
  from insert_entry [OF assms(1-3) this assms(5-8) refl refl] assms(9) show ?thesis
    by fastforce
qed

lemma room_of: "Objects s a = Some h \<Longrightarrow> room s a r \<longleftrightarrow> unat (ReferenceReasons h ! r) < 2 ^ 32 - 1"
  by (simp add: room_def reason_count_def)

lemma get_reference_count:
  "fs_inv s \<Longrightarrow> Inodes s a \<noteq> None \<Longrightarrow> Objects s a = Some h \<Longrightarrow> BitbucketGetInodeReferenceCount a s = Some (ReferenceCount h)"
  by (auto simp: BitbucketGetInodeReferenceCount_def BitbucketGetObjectReferenceCount_def)

lemma new_length: "round64 (private_inode_size + 0) = 960"
  by (simp add: round64_def)

text \<open>The counters of a new directory after the insertions.\<close>

lemma new_header_reasons [simp]:
  "ReferenceReasons (add_reference r h) ! q = (if q = r \<and> r < length (ReferenceReasons h) then ReferenceReasons h ! q + 1 else ReferenceReasons h ! q)"
  "length (ReferenceReasons (add_reference r h)) = length (ReferenceReasons h)" "length (ReferenceReasons (new_header len)) = 12"
  "ReferenceCount (add_reference r h) = ReferenceCount h + 1"
  by (auto simp: add_reference_def new_header_def nth_list_update list_update_beyond not_less)

lemma create_empty_directory:
  assumes inv: "fs_inv s" "idle s" and num: "fresh_number s" and a: "a = next_addr s + header_offset"
    and p: "p = a \<or> Inodes s p \<noteq> None \<and> room s p 1"
  shows "\<exists>s1 s2 t d h. BitbucketCreateInode (Some DirectoryObjectAttributes) 0 s = Some (a, s1) \<and> set_parent a p s1 = Some s2 \<and> BitbucketReferenceInode p 1 s2 = Some t
    \<and> is_directory a s1 \<and> Objects s1 a = Some (new_header 960) \<and> Inodes s1 a \<noteq> None \<and> fs_inv s1
    \<and> fs_inv t \<and> idle t \<and> dirs t = (dirs s)(a \<mapsto> d) \<and> Parent d = p \<and> Inodes s a = None \<and> (\<forall>b. Inodes t b = None \<longleftrightarrow> Inodes s b = None \<and> b \<noteq> a)
    \<and> (p = a \<and> h = new_header 960 \<or> p \<noteq> a \<and> Objects s p = Some h) \<and> Objects t = (Objects s)(a \<mapsto> new_header 960, p \<mapsto> add_reference 1 h)
    \<and> dir_map t = (dir_map s)(a := Map.empty) \<and> born DirectoryObjectAttributes s t a"
proof -
  obtain s1 ino where s1: "BitbucketCreateInode (Some DirectoryObjectAttributes) 0 s = Some (a, s1)" "fs_inv s1"
    "Inodes s1 = (Inodes s)(a \<mapsto> new_inode DirectoryObjectAttributes s 960 ino)" "Objects s1 = (Objects s)(a \<mapsto> new_header 960)" "Dirents s1 = Dirents s"
    "dirs s1 = (dirs s)(a \<mapsto> \<lparr>Parent = NULL, Entries = [], Children = None\<rparr>)" "lock_of s1 = (lock_of s)(a \<mapsto> Unlocked)" "Inodes s a = None" "born DirectoryObjectAttributes s s1 a"
    using create_fs [OF inv(1) num new_length [symmetric] _ a, of DirectoryObjectAttributes] by auto
  obtain h where h: "Objects s1 p = Some h" "p = a \<and> h = new_header 960 \<or> p \<noteq> a \<and> Objects s p = Some h" "room s1 p 1" "Inodes s1 p \<noteq> None"
  proof (cases "p = a")
    case True
    then show ?thesis
      using that [of "new_header 960"] s1(3,4) by (simp add: room_def reason_count_def)
  next
    case False
    then obtain j where "Inodes s p = Some j" "room s p 1"
      using p by auto
    moreover from inv(1) this(1) obtain h where "Objects s p = Some h"
      by (rule fs_inv_inode)
    ultimately show ?thesis
      using that [of h] False s1(3,4) by (simp add: room_def reason_count_def)
  qed
  then obtain j where "Inodes s1 p = Some j"
    by blast
  then obtain s2 t where t: "set_parent a p s1 = Some s2" "BitbucketReferenceInode p 1 s2 = Some t" "fs_inv t" "frame s1 t" "lock_of t = lock_of s1"
    "dirs t = (dirs s1)(a \<mapsto> \<lparr>Parent = p, Entries = [], Children = None\<rparr>)" "Objects t = (Objects s1)(p \<mapsto> add_reference 1 h)" "dir_map t = dir_map s1"
    using adopt [OF s1(2), of a "\<lparr>Parent = NULL, Entries = [], Children = None\<rparr>" p j h] h s1(6) by auto
  have "dir_map s1 = (dir_map s)(a := Map.empty)"
    by (auto simp: dir_map_def s1(5,6) fun_eq_iff)
  moreover have "is_directory a s1"
    using is_directory_dirs [OF s1(2)] s1(6) by simp
  moreover have "idle t"
    using inv(2) t(5) s1(7) by (auto simp: idle_lock_of)
  moreover have "Inodes t b = None \<longleftrightarrow> Inodes s b = None \<and> b \<noteq> a" for b
    unfolding frame_dom [OF t(4)] s1(3) by simp
  moreover note born_frame [OF s1(9) t(4) s1(2)]
  ultimately show ?thesis
    using s1 t h by (intro exI [of _ s1] exI [of _ s2] exI [of _ t] exI [of _ "\<lparr>Parent = p, Entries = [], Children = None\<rparr>"] exI [of _ h]) simp
qed

lemma verify_idle:
  assumes "fs_inv s" "idle s" "dirs s a = Some d"
  shows "\<exists>t. VerifyDirectoryEntries a s = Some t \<and> fs_inv t \<and> idle t \<and> touch s t"
proof -
  obtain i where "Inodes s a = Some i"
    using assms(1,3) by (rule dir_inode)
  then have "lock_of s a = Some Unlocked"
    by (rule idle_Unlocked [OF assms(2)])
  then obtain t where "VerifyDirectoryEntries a s = Some t" "touch s t" "lock_of t = lock_of s"
    using verify_ok [OF assms(1) _ assms(3)] by blast
  then show ?thesis
    using fs_inv_touch [OF assms(1)] assms(2) by (auto simp: idle_lock_of)
qed

lemma create_root:
  assumes inv: "fs_inv s" "idle s" and num: "fresh_number s" and a: "a = next_addr s + header_offset"
  shows "\<exists>t d h. BitbucketCreateRootDirectory s = Some (a, t) \<and> fs_inv t \<and> idle t \<and> dirs t a = Some d \<and> Parent d = a
    \<and> dir_map t = (dir_map s)(a := [''.'' \<mapsto> a, ''..'' \<mapsto> a]) \<and> Objects t = (Objects s)(a \<mapsto> h) \<and> ReferenceCount h = 4
    \<and> ReferenceReasons h ! 0 = 1 \<and> ReferenceReasons h ! 1 = 1 \<and> ReferenceReasons h ! 2 = 2 \<and> (\<forall>r. 2 < r \<and> r < 12 \<longrightarrow> ReferenceReasons h ! r = 0) \<and> born DirectoryObjectAttributes s t a
    \<and> (\<forall>b. b \<noteq> a \<longrightarrow> dirs t b = dirs s b) \<and> (\<forall>b. Inodes t b = None \<longleftrightarrow> Inodes s b = None \<and> b \<noteq> a)"
proof -
  let ?h1 = "add_reference 1 (new_header 960)"
  let ?h2 = "add_reference 2 ?h1"
  let ?h3 = "add_reference 2 ?h2"
  obtain s1 s2 s3 d where s3: "BitbucketCreateInode (Some DirectoryObjectAttributes) 0 s = Some (a, s1)" "set_parent a a s1 = Some s2" "BitbucketReferenceInode a 1 s2 = Some s3"
    "is_directory a s1" "Objects s1 a = Some (new_header 960)" "Inodes s1 a \<noteq> None" "fs_inv s1" "fs_inv s3" "idle s3" "dirs s3 = (dirs s)(a \<mapsto> d)" "Parent d = a"
    "\<forall>b. Inodes s3 b = None \<longleftrightarrow> Inodes s b = None \<and> b \<noteq> a" "Objects s3 = (Objects s)(a \<mapsto> new_header 960, a \<mapsto> ?h1)" "dir_map s3 = (dir_map s)(a := Map.empty)" "born DirectoryObjectAttributes s s3 a"
    using create_empty_directory [OF inv num a, of a] by blast
  have i3: "Inodes s3 a \<noteq> None" "Objects s3 = (Objects s)(a \<mapsto> ?h1)"
    using s3(12,13) by auto
  have "\<exists>t d'. BitbucketInsertDirectoryEntry a a ''.'' s3 = Some (0, t) \<and> fs_inv t \<and> idle t \<and> frame s3 t
    \<and> dir_map t = (dir_map s3)(a := (dir_map s3 a)(''.'' \<mapsto> a)) \<and> dirs t = (dirs s3)(a \<mapsto> d') \<and> Parent d' = Parent d
    \<and> Objects t = (Objects s3)(a \<mapsto> ?h2)"
    using s3(8-11,14) i3 by (intro insert_free) (simp_all add: room_of)
  then obtain s4 d4 where s4: "BitbucketInsertDirectoryEntry a a ''.'' s3 = Some (0, s4)" "fs_inv s4" "idle s4" "frame s3 s4"
    "dir_map s4 = (dir_map s)(a := [''.'' \<mapsto> a])" "dirs s4 = (dirs s)(a \<mapsto> d4)" "Parent d4 = a" "Objects s4 = (Objects s)(a \<mapsto> ?h2)"
    using s3(10,11,14) i3(2) by auto
  have i4: "Inodes s4 a \<noteq> None"
    using i3(1) unfolding frame_dom [OF s4(4)] .
  have "\<exists>t d'. BitbucketInsertDirectoryEntry a a ''..'' s4 = Some (0, t) \<and> fs_inv t \<and> idle t \<and> frame s4 t
    \<and> dir_map t = (dir_map s4)(a := (dir_map s4 a)(''..'' \<mapsto> a)) \<and> dirs t = (dirs s4)(a \<mapsto> d') \<and> Parent d' = Parent d4
    \<and> Objects t = (Objects s4)(a \<mapsto> ?h3)"
    using s4 i4 by (intro insert_free) (simp_all add: room_of)
  then obtain s5 d5 where s5: "BitbucketInsertDirectoryEntry a a ''..'' s4 = Some (0, s5)" "fs_inv s5" "idle s5" "frame s4 s5"
    "dir_map s5 = (dir_map s)(a := [''.'' \<mapsto> a, ''..'' \<mapsto> a])" "dirs s5 = (dirs s)(a \<mapsto> d5)" "Parent d5 = a" "Objects s5 = (Objects s)(a \<mapsto> ?h3)"
    using s4 by auto
  have i5: "Inodes s5 a \<noteq> None"
    using i4 unfolding frame_dom [OF s5(4)] .
  have counts: "expect_references a 1 s1 = Some ()" "expect_references a 2 s3 = Some ()" "expect_references a 3 s4 = Some ()" "expect_references a 4 s5 = Some ()"
    using get_reference_count [OF s3(7,6,5)] get_reference_count [OF s3(8) i3(1), of ?h1] get_reference_count [OF s4(2) i4, of ?h2] get_reference_count [OF s5(2) i5, of ?h3]
      i3(2) s4(8) s5(8) by (simp_all add: expect_references_def)
  have "BitbucketCreateRootDirectory s = Some (a, s5)"
    unfolding BitbucketCreateRootDirectory_def using s3(1-4) s4(1) s5(1) counts by simp
  then show ?thesis
    using s5 born_frame [OF s3(15) frame_trans [OF s4(4) s5(4)] s3(8)] frame_dom [OF frame_trans [OF s4(4) s5(4)]] s3(12)
    by (intro exI [of _ s5] exI [of _ d5] exI [of _ ?h3]) simp
qed

lemma create_linked_directory:
  assumes inv: "fs_inv s" "idle s" and num: "fresh_number s" and a: "a = next_addr s + header_offset" and p: "Inodes s p = Some j" "Objects s p = Some h" "room s p 1" "room s p 2"
  shows "\<exists>s1 s2 s3 s4 t d. BitbucketCreateInode (Some DirectoryObjectAttributes) 0 s = Some (a, s1) \<and> set_parent a p s1 = Some s2 \<and> BitbucketReferenceInode p 1 s2 = Some s3
    \<and> BitbucketInsertDirectoryEntry a a ''.'' s3 = Some (0, s4) \<and> BitbucketInsertDirectoryEntry a p ''..'' s4 = Some (0, t) \<and> is_directory a s1 \<and> a \<noteq> p
    \<and> fs_inv t \<and> idle t \<and> (\<forall>b. Inodes t b = None \<longleftrightarrow> Inodes s b = None \<and> b \<noteq> a) \<and> dirs t = (dirs s)(a \<mapsto> d) \<and> Parent d = p
    \<and> dir_map t = (dir_map s)(a := [''.'' \<mapsto> a, ''..'' \<mapsto> p])
    \<and> Objects t = (Objects s)(a \<mapsto> add_reference 2 (new_header 960), p \<mapsto> add_reference 2 (add_reference 1 h)) \<and> born DirectoryObjectAttributes s t a"
proof -
  let ?h2 = "add_reference 2 (new_header 960)"
  have "header_ok h"
    using fs_invD(5) [OF inv(1) p(1)] p(2) by (auto simp: inode_ok_def)
  then have l: "length (ReferenceReasons h) = 12"
    by (simp add: header_ok_def)
  obtain s1 s2 s3 d g where s3: "BitbucketCreateInode (Some DirectoryObjectAttributes) 0 s = Some (a, s1)" "set_parent a p s1 = Some s2" "BitbucketReferenceInode p 1 s2 = Some s3"
    "is_directory a s1" "fs_inv s3" "idle s3" "dirs s3 = (dirs s)(a \<mapsto> d)" "Parent d = p" "Inodes s a = None"
    "\<forall>b. Inodes s3 b = None \<longleftrightarrow> Inodes s b = None \<and> b \<noteq> a" "p = a \<and> g = new_header 960 \<or> p \<noteq> a \<and> Objects s p = Some g"
    "Objects s3 = (Objects s)(a \<mapsto> new_header 960, p \<mapsto> add_reference 1 g)" "dir_map s3 = (dir_map s)(a := Map.empty)" "born DirectoryObjectAttributes s s3 a"
    using create_empty_directory [OF inv num a, of p] p(1,3) by blast
  have ap: "a \<noteq> p"
    using s3(9) p(1) by auto
  have i3: "Inodes s3 a \<noteq> None" "Objects s3 = (Objects s)(a \<mapsto> new_header 960, p \<mapsto> add_reference 1 h)" "Inodes s3 p \<noteq> None"
    using s3(10-12) ap p(1,2) by auto
  have "\<exists>t d'. BitbucketInsertDirectoryEntry a a ''.'' s3 = Some (0, t) \<and> fs_inv t \<and> idle t \<and> frame s3 t
    \<and> dir_map t = (dir_map s3)(a := (dir_map s3 a)(''.'' \<mapsto> a)) \<and> dirs t = (dirs s3)(a \<mapsto> d') \<and> Parent d' = Parent d
    \<and> Objects t = (Objects s3)(a \<mapsto> ?h2)"
    using s3(5-8,13) i3 ap by (intro insert_free) (simp_all add: room_of)
  then obtain s4 d4 where s4: "BitbucketInsertDirectoryEntry a a ''.'' s3 = Some (0, s4)" "fs_inv s4" "idle s4" "frame s3 s4"
    "dir_map s4 = (dir_map s)(a := [''.'' \<mapsto> a])" "dirs s4 = (dirs s)(a \<mapsto> d4)" "Parent d4 = p"
    "Objects s4 = (Objects s)(a \<mapsto> ?h2, p \<mapsto> add_reference 1 h)"
    using s3(7,8,13) i3(2) ap by (auto simp: fun_upd_twist)
  have i4: "Inodes s4 p \<noteq> None"
    using i3(3) unfolding frame_dom [OF s4(4)] .
  have "\<exists>t d'. BitbucketInsertDirectoryEntry a p ''..'' s4 = Some (0, t) \<and> fs_inv t \<and> idle t \<and> frame s4 t
    \<and> dir_map t = (dir_map s4)(a := (dir_map s4 a)(''..'' \<mapsto> p)) \<and> dirs t = (dirs s4)(a \<mapsto> d') \<and> Parent d' = Parent d4
    \<and> Objects t = (Objects s4)(p \<mapsto> add_reference 2 (add_reference 1 h))"
    using s4 i4 p(2,4) l by (intro insert_free) (simp_all add: room_of)
  then obtain t d5 where t: "BitbucketInsertDirectoryEntry a p ''..'' s4 = Some (0, t)" "fs_inv t" "idle t" "frame s4 t"
    "dir_map t = (dir_map s)(a := [''.'' \<mapsto> a, ''..'' \<mapsto> p])" "dirs t = (dirs s)(a \<mapsto> d5)" "Parent d5 = p"
    "Objects t = (Objects s)(a \<mapsto> ?h2, p \<mapsto> add_reference 2 (add_reference 1 h))"
    using s4(5-8) by auto
  have "Inodes t b = None \<longleftrightarrow> Inodes s b = None \<and> b \<noteq> a" for b
    unfolding frame_dom [OF t(4)] frame_dom [OF s4(4)] using s3(10) by blast
  then show ?thesis
    using s3(1-4) s4(1) t ap born_frame [OF s3(14) frame_trans [OF s4(4) t(4)] s3(5)] by blast
qed

lemma create_directory:
  assumes inv: "fs_inv s" "idle s" and num: "fresh_number s" and a: "a = next_addr s + header_offset"
    and p: "dirs s p = Some dp" "Objects s p = Some h" "room s p 1" "room s p 2" and name: "0 < length name" "length name < 1023"
  shows "dir_map s p name = None \<Longrightarrow> \<exists>t. BitbucketCreateDirectory p name s = Some (a, t) \<and> fs_inv t \<and> idle t
      \<and> dir_map t = (dir_map s)(a := [''.'' \<mapsto> a, ''..'' \<mapsto> p], p := (dir_map s p)(name \<mapsto> a))
      \<and> Objects t = (Objects s)(a \<mapsto> add_reference 2 (add_reference 2 (new_header 960)), p \<mapsto> add_reference 2 (add_reference 1 h))
      \<and> (\<exists>d. dirs t a = Some d \<and> Parent d = p) \<and> Inodes s a = None \<and> born DirectoryObjectAttributes s t a \<and> (\<forall>b. Inodes t b = None \<longleftrightarrow> Inodes s b = None \<and> b \<noteq> a)
      \<and> (\<forall>b. b \<noteq> a \<and> b \<noteq> p \<longrightarrow> dirs t b = dirs s b) \<and> dirs t p \<noteq> None"
    "dir_map s p name \<noteq> None \<Longrightarrow> BitbucketCreateDirectory p name s = None"
proof -
  let ?h2 = "add_reference 2 (new_header 960)"
  obtain j where j: "Inodes s p = Some j" "p \<noteq> NULL"
    using inv(1) p(1) by (rule dir_inode)
  have tj: "Table j" "is_directory p s"
    using fs_invD(5) [OF inv(1) j(1)] is_directory_dirs [OF inv(1)] p(1) by (auto simp: inode_ok_def)
  obtain s1 s2 s3 s4 s5 d where s5: "BitbucketCreateInode (Some DirectoryObjectAttributes) 0 s = Some (a, s1)" "set_parent a p s1 = Some s2" "BitbucketReferenceInode p 1 s2 = Some s3"
    "BitbucketInsertDirectoryEntry a a ''.'' s3 = Some (0, s4)" "BitbucketInsertDirectoryEntry a p ''..'' s4 = Some (0, s5)" "is_directory a s1" "a \<noteq> p"
    "fs_inv s5" "idle s5" "\<forall>b. Inodes s5 b = None \<longleftrightarrow> Inodes s b = None \<and> b \<noteq> a" "dirs s5 = (dirs s)(a \<mapsto> d)" "Parent d = p"
    "dir_map s5 = (dir_map s)(a := [''.'' \<mapsto> a, ''..'' \<mapsto> p])"
    "Objects s5 = (Objects s)(a \<mapsto> ?h2, p \<mapsto> add_reference 2 (add_reference 1 h))" "born DirectoryObjectAttributes s s5 a"
    using create_linked_directory [OF inv num a j(1) p(2-4)] by blast
  have C: "BitbucketCreateDirectory p name s = do {
     (status, s) \<leftarrow> BitbucketInsertDirectoryEntry p a name s5;
     c_assert (status = 0);
     refcount \<leftarrow> BitbucketGetInodeReferenceCount a s;
     c_assert (refcount = 3);
     s \<leftarrow> VerifyDirectoryEntries a s;
     Some (a, s) }"
    unfolding BitbucketCreateDirectory_def using j tj s5(1-7) by simp
  have i5: "Inodes s5 a \<noteq> None" "dirs s5 p = Some dp" "Objects s5 a = Some ?h2" "dir_map s5 p = dir_map s p"
    using s5(7,10,11,13,14) p(1) by auto
  have rm: "room s5 a 2"
    using i5(3) by (simp add: room_of)
  then obtain ja where ja: "Inodes s5 a = Some ja"
    using i5(1) by blast
  from insert_entry [OF s5(8,9) i5(2) ja i5(3) rm name refl refl]
  obtain t where t: "BitbucketInsertDirectoryEntry p a name s5 = Some (if dir_map s p name = None then 0 else EEXIST, t)" "fs_inv t" "idle t" "frame s5 t"
    "dir_map t = (if dir_map s p name = None then (dir_map s5)(p := (dir_map s5 p)(name \<mapsto> a)) else dir_map s5)"
    "dirs t a = Some d" "Objects t = (Objects s5)(a \<mapsto> add_reference 2 ?h2)" "\<forall>b. b \<noteq> a \<and> b \<noteq> p \<longrightarrow> dirs t b = dirs s b" "dirs t p \<noteq> None"
    using i5(4) s5(7,11) p(1) by auto
  show "BitbucketCreateDirectory p name s = None" if "dir_map s p name \<noteq> None"
    using C t(1) that by simp
  assume free: "dir_map s p name = None"
  have "Inodes t a \<noteq> None"
    using i5(1) unfolding frame_dom [OF t(4)] .
  then have "BitbucketGetInodeReferenceCount a t = Some 3"
    using get_reference_count [OF t(2), of a] t(7) by simp
  moreover obtain u where u: "VerifyDirectoryEntries a t = Some u" "fs_inv u" "idle u" "touch t u"
    using verify_idle [OF t(2,3,6)] by blast
  ultimately have "BitbucketCreateDirectory p name s = Some (a, u)"
    using C t(1) free by simp
  moreover have "dir_map u = (dir_map s)(a := [''.'' \<mapsto> a, ''..'' \<mapsto> p], p := (dir_map s p)(name \<mapsto> a))"
    using touch_dir_map [OF u(4)] t(5) free s5(7,13) by simp
  moreover have "Objects u = (Objects s)(a \<mapsto> add_reference 2 ?h2, p \<mapsto> add_reference 2 (add_reference 1 h))"
    using touchD(1) [OF u(4)] t(7) s5(7,14) by (simp add: fun_upd_twist)
  moreover have "Inodes s a = None"
    using fs_invD(10) [OF inv(1)] a by (simp add: fresh_ok_def)
  moreover have fr: "frame s5 u"
    by (rule frame_trans [OF t(4) touch_frame [OF u(4)]])
  moreover have "Inodes u b = None \<longleftrightarrow> Inodes s b = None \<and> b \<noteq> a" for b
    unfolding frame_dom [OF fr] using s5(10) by blast
  moreover note born_frame [OF s5(15) fr s5(8)]
  ultimately show "\<exists>t. BitbucketCreateDirectory p name s = Some (a, t) \<and> fs_inv t \<and> idle t
      \<and> dir_map t = (dir_map s)(a := [''.'' \<mapsto> a, ''..'' \<mapsto> p], p := (dir_map s p)(name \<mapsto> a))
      \<and> Objects t = (Objects s)(a \<mapsto> add_reference 2 (add_reference 2 (new_header 960)), p \<mapsto> add_reference 2 (add_reference 1 h))
      \<and> (\<exists>d. dirs t a = Some d \<and> Parent d = p) \<and> Inodes s a = None \<and> born DirectoryObjectAttributes s t a \<and> (\<forall>b. Inodes t b = None \<longleftrightarrow> Inodes s b = None \<and> b \<noteq> a)
      \<and> (\<forall>b. b \<noteq> a \<and> b \<noteq> p \<longrightarrow> dirs t b = dirs s b) \<and> dirs t p \<noteq> None"
    using u t(6,8,9) touch_dirs [OF u(4)] s5(12) by (intro exI [of _ u]) simp
qed

end
