(* ===== verification/FileOps.thy ===== *)
theory FileOps
  imports Dir "HOL-Library.Signed_Division"
begin

text \<open>
  Files and symbolic links, \<^verbatim>\<open>file.c\<close> and \<^verbatim>\<open>symlink.c\<close> of \<^verbatim>\<open>src/finesse/bitbucket\<close>, apart from the
  initialisation and deallocation of their inodes.

  The operating system answers the calls on storage files and on memory: an argument says
  with which error they fail, zero meaning success.  A failing \<^verbatim>\<open>ftruncate\<close> ends in an
  assertion.  Lengths are unsigned 64-bit numbers; the size of a file is signed.
\<close>

record storage_os =
  os_malloc :: bool
  os_open :: errno
  os_ftruncate :: errno
  os_mmap :: errno

section \<open>Files\<close>

definition storage_name :: "string \<Rightarrow> string \<Rightarrow> string" where
  "storage_name dir uuid = dir @ ''/'' @ uuid"

definition create_storage :: "storage_os \<Rightarrow> string \<Rightarrow> addr \<Rightarrow> bb_state \<Rightarrow> bb_state option" where
  "create_storage os dir a s = do {
     i \<leftarrow> Inodes s a;
     f \<leftarrow> the_file i;
     let name = storage_name dir (UuidString i);
     c_assert (os_open os = 0 \<and> Storage s name = None);
     Some (set_inode a (i\<lparr>Instance := File (f\<lparr>MapName := Some name\<rparr>)\<rparr>) (s\<lparr>Storage := (Storage s)(name \<mapsto> [])\<rparr>)) }"

definition BitbucketCreateFile ::
  "storage_os \<Rightarrow> string option \<Rightarrow> addr \<Rightarrow> string \<Rightarrow> bb_state \<Rightarrow> (addr \<times> bb_state) option" where
  "BitbucketCreateFile os storage_dir parent name s = do {
     c_assert (is_directory parent s);
     p \<leftarrow> Inodes s parent;
     c_assert (Table p);
     (newfile, s) \<leftarrow> BitbucketCreateInode (Some FileObjectAttributes) 0 s;
     c_assert (newfile \<noteq> NULL);
     i \<leftarrow> Inodes s newfile;
     c_assert (InodeType i = BITBUCKET_FILE_TYPE \<and> the_file i \<noteq> None);
     c_assert (st_mode (Attributes i) AND S_IFMT = S_IFREG);
     s \<leftarrow> (case storage_dir of None \<Rightarrow> Some s | Some dir \<Rightarrow> create_storage os dir newfile s);
     (status, s) \<leftarrow> BitbucketInsertDirectoryEntry parent newfile name s;
     c_assert (status = 0);
     Some (newfile, s) }"

definition BitbucketAddFileToDirectory :: "addr \<Rightarrow> addr \<Rightarrow> string \<Rightarrow> bb_state \<Rightarrow> (errno \<times> bb_state) option" where
  "BitbucketAddFileToDirectory parent file name s = do {
     c_assert (parent \<noteq> NULL);
     c_assert (file \<noteq> NULL);
     i \<leftarrow> Inodes s file;
     f \<leftarrow> the_file i;
     p \<leftarrow> Inodes s parent;
     d \<leftarrow> the_directory p;
     s \<leftarrow> BitbucketLockInode parent True s;
     (status, s) \<leftarrow> BitbucketInsertDirectoryEntry parent file name s;
     s \<leftarrow> BitbucketUnlockInode parent s;
     Some (status, s) }"

definition put_inode :: "addr \<Rightarrow> bb_state \<Rightarrow> bb_state option" where
  "put_inode inode s = (if inode \<noteq> NULL then BitbucketDereferenceInode inode INODE_LOOKUP_REFERENCE 1 s else Some s)"

definition BitbucketRemoveFileFromDirectory :: "addr \<Rightarrow> string \<Rightarrow> bb_state \<Rightarrow> (errno \<times> bb_state) option" where
  "BitbucketRemoveFileFromDirectory parent name s = do {
     c_assert (parent \<noteq> NULL);
     p \<leftarrow> Inodes s parent;
     d \<leftarrow> the_directory p;
     (file, s) \<leftarrow> BitbucketLookupObjectInDirectory parent name s;
     (status, s) \<leftarrow> (if file = NULL then Some (ENOENT, s)
        else do {
          i \<leftarrow> Inodes s file;
          if st_mode (Attributes i) AND S_IFDIR = S_IFDIR then Some (EISDIR, s)
          else do {
            c_assert (st_mode (Attributes i) AND S_IFREG = S_IFREG);
            c_assert (st_nlink (Attributes i) > 0);
            BitbucketDeleteDirectoryEntry parent name s } });
     s \<leftarrow> put_inode file s;
     Some (status, s) }"

section \<open>Storage\<close>

definition resize :: "nat \<Rightarrow> u8 list \<Rightarrow> u8 list" where
  "resize n bs = take n bs @ replicate (n - length bs) 0"

definition set_file :: "addr \<Rightarrow> bitbucket_inode \<Rightarrow> bitbucket_file \<Rightarrow> stat_attributes \<Rightarrow> bb_state \<Rightarrow> bb_state" where
  "set_file a i f attr s = set_inode a (i\<lparr>Attributes := attr, Instance := File f\<rparr>) s"

definition sized :: "u64 \<Rightarrow> stat_attributes \<Rightarrow> stat_attributes" where
  "sized n attr = attr\<lparr>st_size := sint n, st_blocks := 1 + sint n sdiv st_blksize attr\<rparr>"

text \<open>The first mapping of the file; the file is created when it is missing.\<close>

definition create_mapping :: "storage_os \<Rightarrow> addr \<Rightarrow> bitbucket_inode \<Rightarrow> bitbucket_file \<Rightarrow> u64 \<Rightarrow> bb_state \<Rightarrow> (errno \<times> bb_state) option" where
  "create_mapping os a i f n s = (case MapName f of
       None \<Rightarrow>
         if os_malloc os then Some (0, set_file a i (f\<lparr>Map := Some (Malloced (replicate (unat n) 0))\<rparr>) (Attributes i) s)
         else Some (ENOSPC, s)
     | Some name \<Rightarrow>
         if os_open os \<noteq> 0 then Some (os_open os, s)
         else do {
           c_assert (os_ftruncate os = 0);
           let old = (case Storage s name of None \<Rightarrow> [] | Some bs \<Rightarrow> bs);
           let s = s\<lparr>Storage := (Storage s)(name \<mapsto> resize (unat n) old)\<rparr>;
           if os_mmap os \<noteq> 0 then Some (os_mmap os, set_file a i (f\<lparr>Map := Some MapFailed\<rparr>) (Attributes i) s)
           else Some (0, set_file a i (f\<lparr>Map := Some (Mmapped (unat n))\<rparr>) (sized n (Attributes i)) s) })"

definition drop_mapping :: "addr \<Rightarrow> bitbucket_inode \<Rightarrow> bitbucket_file \<Rightarrow> bb_state \<Rightarrow> (errno \<times> bb_state) option" where
  "drop_mapping a i f s = do {
     c_assert (map_releasable f i);
     Some (0, set_file a i (f\<lparr>Map := None\<rparr>) ((Attributes i)\<lparr>st_size := 0, st_blocks := 0\<rparr>) s) }"

text \<open>
  The block that \<^verbatim>\<open>realloc\<close> returns is not stored in the inode and is freed at the end of the
  function, so the pointer in the inode is left without memory.
\<close>

definition resize_mapping :: "storage_os \<Rightarrow> addr \<Rightarrow> bitbucket_inode \<Rightarrow> bitbucket_file \<Rightarrow> u64 \<Rightarrow> bb_state \<Rightarrow> (errno \<times> bb_state) option" where
  "resize_mapping os a i f n s = (case MapName f of
       None \<Rightarrow> do {
         c_assert (map_releasable f i);
         if os_malloc os then Some (0, set_file a i (f\<lparr>Map := Some Dangling\<rparr>) (Attributes i) s)
         else Some (ENOSPC, s) }
     | Some name \<Rightarrow> do {
         bs \<leftarrow> Storage s name;
         c_assert (os_open os = 0 \<and> os_ftruncate os = 0 \<and> os_mmap os = 0);
         c_assert (map_releasable f i);
         Some (0, set_file a i (f\<lparr>Map := Some (Mmapped (unat n))\<rparr>) (sized n (Attributes i))
           (s\<lparr>Storage := (Storage s)(name \<mapsto> resize (unat n) bs)\<rparr>)) })"

definition BitbucketAdjustFileStorage :: "storage_os \<Rightarrow> addr \<Rightarrow> u64 \<Rightarrow> bb_state \<Rightarrow> (errno \<times> bb_state) option" where
  "BitbucketAdjustFileStorage os inode n s = do {
     c_assert (inode \<noteq> NULL);
     i \<leftarrow> Inodes s inode;
     c_assert (InodeType i = BITBUCKET_FILE_TYPE);
     f \<leftarrow> the_file i;
     s \<leftarrow> EnsureInodeLockedAgainstChanges inode s;
     i \<leftarrow> Inodes s inode;
     if n = word_of_int (st_size (Attributes i)) then Some (0, s)
     else if Map f = None then
       (if n = 0 then Some (0, s) else create_mapping os inode i f n s)
     else if n = 0 then drop_mapping inode i f s
     else resize_mapping os inode i f n s }"

section \<open>Reading and writing the contents\<close>

text \<open>
  The bytes at an offset of the contents, and the contents with bytes overwritten.  Outside
  the block or the mapping there is nothing to read or write.
\<close>

definition map_bytes :: "bitbucket_file \<Rightarrow> bb_state \<Rightarrow> u8 list option" where
  "map_bytes f s = (case (Map f, MapName f) of
       (Some (Malloced bs), _) \<Rightarrow> Some bs
     | (Some (Mmapped n), Some name) \<Rightarrow> map_option (take n) (Storage s name)
     | _ \<Rightarrow> None)"

definition map_read :: "bitbucket_file \<Rightarrow> nat \<Rightarrow> nat \<Rightarrow> bb_state \<Rightarrow> u8 list option" where
  "map_read f off n s = do {
     bs \<leftarrow> map_bytes f s;
     c_assert (off + n \<le> length bs);
     Some (take n (drop off bs)) }"

definition overwrite :: "nat \<Rightarrow> u8 list \<Rightarrow> u8 list \<Rightarrow> u8 list" where
  "overwrite off new bs = take off bs @ new @ drop (off + length new) bs"

definition map_write :: "addr \<Rightarrow> nat \<Rightarrow> u8 list \<Rightarrow> bb_state \<Rightarrow> bb_state option" where
  "map_write a off new s = do {
     i \<leftarrow> Inodes s a;
     f \<leftarrow> the_file i;
     bs \<leftarrow> map_bytes f s;
     c_assert (off + length new \<le> length bs);
     (case (Map f, MapName f) of
        (Some (Malloced bs), _) \<Rightarrow> Some (set_file a i (f\<lparr>Map := Some (Malloced (overwrite off new bs))\<rparr>) (Attributes i) s)
      | (Some (Mmapped n), Some name) \<Rightarrow> do {
          bs \<leftarrow> Storage s name;
          Some (s\<lparr>Storage := (Storage s)(name \<mapsto> overwrite off new bs)\<rparr>) }
      | _ \<Rightarrow> None) }"

section \<open>Symbolic links\<close>

text \<open>The space for the link inside the structure of an inode.\<close>

abbreviation (input) existing_space :: nat where "existing_space \<equiv> 88"

definition write_link :: "addr \<Rightarrow> string \<Rightarrow> bb_state \<Rightarrow> bb_state option" where
  "write_link a link s = do {
     i \<leftarrow> Inodes s a;
     Some (set_inode a (i\<lparr>Attributes := (Attributes i)\<lparr>st_mode := st_mode (Attributes i) OR 0x1FF, st_nlink := 1\<rparr>,
       Instance := SymbolicLink link\<rparr>) s) }"

definition BitbucketCreateSymlink :: "addr \<Rightarrow> string \<Rightarrow> string \<Rightarrow> bb_state \<Rightarrow> (addr \<times> bb_state) option" where
  "BitbucketCreateSymlink parent name link s = do {
     c_assert (is_directory parent s);
     p \<leftarrow> Inodes s parent;
     c_assert (Table p);
     let link_length = length link + 1;
     let len = (if link_length + 1 > existing_space then link_length + 1 - existing_space else 0);
     (newlink, s) \<leftarrow> BitbucketCreateInode (Some SymbolicLinkObjectAttributes) len s;
     c_assert (newlink \<noteq> NULL);
     i \<leftarrow> Inodes s newlink;
     c_assert (InodeType i = BITBUCKET_SYMLINK_TYPE);
     c_assert (st_mode (Attributes i) AND S_IFMT = S_IFLNK);
     c_assert (link_length \<le> len + existing_space);
     s \<leftarrow> write_link newlink link s;
     (status, s) \<leftarrow> BitbucketInsertDirectoryEntry parent newlink name s;
     c_assert (status = 0);
     Some (newlink, s) }"

text \<open>
  The check of the magic number of a directory is applied to the inode itself, whose magic
  number is that of inodes: it fails for every inode, so nothing after it runs.
\<close>

definition BITBUCKET_INODE_MAGIC :: u64 where "BITBUCKET_INODE_MAGIC = 0x3eb0674fe159eab4"
definition BITBUCKET_DIR_MAGIC :: u64 where "BITBUCKET_DIR_MAGIC = 0x895fe26d657f24bd"

definition BitbucketRemoveSymlinkFromDirectory :: "addr \<Rightarrow> string \<Rightarrow> bb_state \<Rightarrow> (errno \<times> bb_state) option" where
  "BitbucketRemoveSymlinkFromDirectory parent name s = do {
     c_assert (parent \<noteq> NULL);
     c_assert (BITBUCKET_INODE_MAGIC = BITBUCKET_DIR_MAGIC);
     (link, s) \<leftarrow> BitbucketLookupObjectInDirectory parent name s;
     (status, s) \<leftarrow> (if link = NULL then Some (ENOENT, s)
        else do {
          i \<leftarrow> Inodes s link;
          if st_mode (Attributes i) AND S_IFDIR = S_IFDIR then Some (EISDIR, s)
          else do {
            c_assert (st_mode (Attributes i) AND S_IFLNK = S_IFLNK);
            BitbucketDeleteDirectoryEntry parent name s } });
     s \<leftarrow> put_inode link s;
     Some (status, s) }"

definition BitbucketReadSymlink :: "addr \<Rightarrow> bb_state \<Rightarrow> (errno \<times> string option) option" where
  "BitbucketReadSymlink inode s = do {
     c_assert (inode \<noteq> NULL);
     i \<leftarrow> Inodes s inode;
     if InodeType i \<noteq> BITBUCKET_SYMLINK_TYPE then Some (EBADF, None)
     else do {
       c_assert (st_mode (Attributes i) AND S_IFLNK = S_IFLNK);
       (case Instance i of SymbolicLink link \<Rightarrow> Some (0, Some link) | _ \<Rightarrow> None) } }"

end
