(* ===== verification/Fuse.thy ===== *)
theory Fuse
  imports FileOps
begin

text \<open>
  What the request handlers of \<^verbatim>\<open>src/finesse/bitbucket\<close> share: the user data of the mounted file
  system (\<^verbatim>\<open>bitbucketdata.h\<close>), the requests and replies of the low-level interface of FUSE,
  the translation of an inode number into a referenced inode with which the handlers
  begin, and the bookkeeping of the calls with which they end.

  A handler gets the request, its arguments and the state, and gives the status it
  returns, the replies it sends, in order, and the new state.  The time out of
  attributes is a floating point number that is only passed on; its bits are kept here.
\<close>

section \<open>Requests and replies\<close>

record bitbucket_userdata =
  RootDirectory :: addr
  AttrTimeout :: u64
  StorageDir :: "string option"
  FsyncDisable :: int
  NoXattr :: bool
  BackgroundForget :: int
  FlushEnable :: int
  VerifyDirectories :: bool
  InodeTableSize :: nat
  BitbucketMagicDirectories :: "(nat \<times> addr) list"

text \<open>
  The answers of the operating system to a request: about storage, about reading from a
  file descriptor at an offset, and the numbers for the file system statistics.
\<close>

record statvfs =
  f_bsize :: u64
  f_frsize :: u64
  f_blocks :: u64
  f_bfree :: u64
  f_bavail :: u64
  f_files :: u64
  f_ffree :: u64
  f_fsid :: u64
  f_flag :: u64
  f_namemax :: u64

record fuse_req =
  userdata :: bitbucket_userdata
  req_id :: nat
  req_pid :: nat
  req_os :: storage_os
  req_pread :: "nat \<Rightarrow> nat \<Rightarrow> int \<Rightarrow> u8 list option"
  req_statvfs :: statvfs
  req_rlimit :: u64
  req_rusage :: u64

record fuse_file_info =
  fh :: addr
  fi_flags :: u32
  cache_readdir :: bool

record fuse_entry_param =
  fep_ino :: u64
  fep_generation :: u64
  fep_attr :: stat_attributes
  fep_attr_timeout :: u64
  fep_entry_timeout :: u64

record fuse_dirent =
  dirent_ino :: u64
  dirent_off :: u64
  dirent_type :: u32
  dirent_Name :: string
  dirent_entry :: "fuse_entry_param option"

datatype fuse_reply =
    reply_err errno
  | reply_none
  | reply_entry fuse_entry_param
  | reply_create fuse_entry_param fuse_file_info
  | reply_attr stat_attributes u64
  | reply_open fuse_file_info
  | reply_write u64
  | reply_buf "u8 list"
  | reply_dirents "fuse_dirent list"
  | reply_xattr u64
  | reply_statfs statvfs
  | reply_lseek int

type_synonym handled = "(errno \<times> fuse_reply list \<times> bb_state) option"

definition S_ISDIR :: "u32 \<Rightarrow> bool" where
  "S_ISDIR m \<longleftrightarrow> m AND S_IFMT = S_IFDIR"

definition S_ISREG :: "u32 \<Rightarrow> bool" where
  "S_ISREG m \<longleftrightarrow> m AND S_IFMT = S_IFREG"

abbreviation ENOSYS :: errno where "ENOSYS \<equiv> 38"

section \<open>The beginning of a handler\<close>

text \<open>The inode of a number, with one lookup reference more, or \<^verbatim>\<open>NULL\<close>.\<close>

definition get_inode :: "fuse_req \<Rightarrow> u64 \<Rightarrow> bb_state \<Rightarrow> (addr \<times> bb_state) option" where
  "get_inode req ino s =
     (if ino = FUSE_ROOT_ID then do {
        s \<leftarrow> BitbucketReferenceInode (RootDirectory (userdata req)) INODE_LOOKUP_REFERENCE s;
        Some (RootDirectory (userdata req), s) }
      else BitbucketLookupInodeInTable ino s)"

definition entry_param :: "fuse_req \<Rightarrow> bitbucket_inode \<Rightarrow> fuse_entry_param" where
  "entry_param req i = \<lparr>fep_ino = st_ino (Attributes i), fep_generation = Epoch i, fep_attr = Attributes i,
     fep_attr_timeout = AttrTimeout (userdata req), fep_entry_timeout = AttrTimeout (userdata req)\<rparr>"

definition set_attributes :: "addr \<Rightarrow> (stat_attributes \<Rightarrow> stat_attributes) \<Rightarrow> bb_state \<Rightarrow> bb_state option" where
  "set_attributes a g s = do {
     i \<leftarrow> Inodes s a;
     Some (set_inode a (i\<lparr>Attributes := g (Attributes i)\<rparr>) s) }"

section \<open>The bookkeeping around a handler\<close>

definition counted ::
  "nat \<Rightarrow> (bb_state \<Rightarrow> handled) \<Rightarrow> call_table \<times> bb_state \<Rightarrow> (fuse_reply list \<times> call_table \<times> bb_state) option" where
  "counted call internal = (\<lambda>(tab, s). do {
     let (start, s) = clock_gettime s;
     (status, replies, s) \<leftarrow> internal s;
     let (stop, s) = clock_gettime s;
     elapsed \<leftarrow> timespec_diff start stop;
     tab \<leftarrow> BitbucketCountCall call (if status \<noteq> 0 then 0 else 1) elapsed tab;
     Some (replies, tab, s) })"

end
