(* ===== verification/HandlersName.thy ===== *)
theory HandlersName
  imports Fuse
begin

text \<open>
  The request handlers that look up, create, link and remove names: \<^verbatim>\<open>lookup.c\<close>, \<^verbatim>\<open>create.c\<close>,
  \<^verbatim>\<open>mkdir.c\<close>, \<^verbatim>\<open>unlink.c\<close>, \<^verbatim>\<open>rmdir.c\<close>, \<^verbatim>\<open>link.c\<close>, \<^verbatim>\<open>rename.c\<close>, \<^verbatim>\<open>symlink.c\<close> and \<^verbatim>\<open>readlink.c\<close> of
  \<^verbatim>\<open>src/finesse/bitbucket\<close>.
\<close>

section \<open>Lookup\<close>

definition bitbucket_internal_lookup :: "fuse_req \<Rightarrow> u64 \<Rightarrow> string \<Rightarrow> bb_state \<Rightarrow> handled" where
  "bitbucket_internal_lookup req parent name s = do {
     (parentInode, s) \<leftarrow> get_inode req parent s;
     if parentInode = NULL then Some (EBADF, [reply_err EBADF], s)
     else do {
       (inode, s) \<leftarrow> BitbucketLookupObjectInDirectory parentInode name s;
       (status, replies, s) \<leftarrow>
         (if inode = NULL then Some (ENOENT, [reply_err ENOENT], s)
          else do {
            i \<leftarrow> Inodes s inode;
            s \<leftarrow> BitbucketReferenceInode inode INODE_FUSE_LOOKUP_REFERENCE s;
            Some (0, [reply_entry (entry_param req i)], s) });
       s \<leftarrow> put_inode parentInode s;
       s \<leftarrow> put_inode inode s;
       Some (status, replies, s) } }"

definition bitbucket_lookup where
  "bitbucket_lookup req parent name = counted 103 (bitbucket_internal_lookup req parent name)"

section \<open>Create\<close>

abbreviation (input) ALLPERMS :: u32 where "ALLPERMS \<equiv> 0xFFF"

text \<open>The new inode by the type in the mode; \<^verbatim>\<open>NULL\<close> for an unknown type, and no result for the types that are not implemented.\<close>

definition create_by_type :: "fuse_req \<Rightarrow> addr \<Rightarrow> string \<Rightarrow> u32 \<Rightarrow> bb_state \<Rightarrow> (addr \<times> bb_state) option" where
  "create_by_type req parentInode name filetype s =
     (if filetype = S_IFDIR then BitbucketCreateDirectory parentInode name s
      else if filetype \<in> {0x2000, 0x6000, 0x1000, S_IFLNK, 0xC000} then None
      else if filetype = 0 \<or> filetype = S_IFREG then BitbucketCreateFile (req_os req) (StorageDir (userdata req)) parentInode name s
      else Some (NULL, s))"

text \<open>
  When the name exists, \<^verbatim>\<open>EEXIST\<close> is replied and then the assertion that no inode is left over fails.  A handler that ends with
  a failed assertion has no result, so the reply that the kernel got before it is not seen in the result.
\<close>

definition bitbucket_internal_create :: "fuse_req \<Rightarrow> u64 \<Rightarrow> string \<Rightarrow> u32 \<Rightarrow> fuse_file_info \<Rightarrow> bb_state \<Rightarrow> handled" where
  "bitbucket_internal_create req parent name mode fi s = do {
     (parentInode, s) \<leftarrow> get_inode req parent s;
     if parentInode = NULL then Some (EBADF, [reply_err EBADF], s)
     else do {
       (found, s) \<leftarrow> BitbucketLookupObjectInDirectory parentInode name s;
       let filetype = mode AND S_IFMT;
       (status, replies, inode, s) \<leftarrow>
         (if found \<noteq> NULL then Some (EEXIST, [reply_err EEXIST], found, s)
          else do {
            (inode, s) \<leftarrow> create_by_type req parentInode name filetype s;
            if inode = NULL then do {
              let status = (if filetype \<in> {0, S_IFDIR, S_IFREG} then EEXIST else EINVAL);
              Some (status, [reply_err status], NULL, s) }
            else do {
              s \<leftarrow> set_attributes inode (\<lambda>attr. attr\<lparr>st_mode := filetype OR (mode AND ALLPERMS)\<rparr>) s;
              i \<leftarrow> Inodes s inode;
              s \<leftarrow> BitbucketReferenceInode inode INODE_FUSE_LOOKUP_REFERENCE s;
              s \<leftarrow> BitbucketReferenceInode inode INODE_FUSE_OPEN_REFERENCE s;
              s \<leftarrow> BitbucketDereferenceInode inode INODE_LOOKUP_REFERENCE 1 s;
              Some (0, [reply_create (entry_param req i) (fi\<lparr>fh := inode\<rparr>)], NULL, s) } });
       c_assert (inode = NULL);
       s \<leftarrow> put_inode parentInode s;
       Some (status, replies, s) } }"

definition bitbucket_create where
  "bitbucket_create req parent name mode fi = counted 131 (bitbucket_internal_create req parent name mode fi)"

section \<open>Make and remove directories\<close>

definition bitbucket_internal_mkdir :: "fuse_req \<Rightarrow> u64 \<Rightarrow> string \<Rightarrow> u32 \<Rightarrow> bb_state \<Rightarrow> handled" where
  "bitbucket_internal_mkdir req parent name mode s = do {
     (inode, s) \<leftarrow> get_inode req parent s;
     (status, replies, child, s) \<leftarrow>
       (if inode = NULL then Some (ENOENT, [reply_err ENOENT], NULL, s)
        else do {
          p \<leftarrow> Inodes s inode;
          if \<not> S_ISDIR (st_mode (Attributes p)) then Some (ENOTDIR, [reply_err ENOTDIR], NULL, s)
          else do {
            (child, s) \<leftarrow> BitbucketCreateDirectory inode name s;
            if child = NULL then Some (EEXIST, [reply_err EEXIST], NULL, s)
            else do {
              s \<leftarrow> set_attributes child (\<lambda>attr. attr\<lparr>st_mode := (st_mode attr AND S_IFMT) OR (mode AND NOT S_IFMT)\<rparr>) s;
              i \<leftarrow> Inodes s child;
              s \<leftarrow> BitbucketReferenceInode child INODE_FUSE_LOOKUP_REFERENCE s;
              Some (0, [reply_entry (entry_param req i)], child, s) } } });
     s \<leftarrow> put_inode inode s;
     s \<leftarrow> put_inode child s;
     Some (status, replies, s) }"

definition bitbucket_mkdir where
  "bitbucket_mkdir req parent name mode = counted 109 (bitbucket_internal_mkdir req parent name mode)"

text \<open>The reference on the child is given back only after its directory has been deleted.\<close>

definition remove_child :: "addr \<Rightarrow> string \<Rightarrow> bb_state \<Rightarrow> (errno \<times> bb_state) option" where
  "remove_child inode name s = do {
     (child, s) \<leftarrow> BitbucketLookupObjectInDirectory inode name s;
     if child = NULL then Some (ENOENT, s)
     else do {
       c \<leftarrow> Inodes s child;
       if InodeType c \<noteq> BITBUCKET_DIR_TYPE then Some (ENOTDIR, s)
       else do {
         (count, s) \<leftarrow> BitbucketDirectoryEntryCount child s;
         if (ucast count :: u32) > 2 then Some (ENOTEMPTY, s)
         else do {
           (status, s) \<leftarrow> BitbucketDeleteDirectoryEntry inode name s;
           if status \<noteq> 0 then Some (status, s)
           else do {
             (status, s) \<leftarrow> BitbucketDeleteDirectory child s;
             c_assert (status = 0);
             s \<leftarrow> BitbucketDereferenceInode child INODE_LOOKUP_REFERENCE 1 s;
             Some (0, s) } } } } }"

definition bitbucket_internal_rmdir :: "fuse_req \<Rightarrow> u64 \<Rightarrow> string \<Rightarrow> bb_state \<Rightarrow> handled" where
  "bitbucket_internal_rmdir req parent name s = do {
     (inode, s) \<leftarrow> get_inode req parent s;
     (status, s) \<leftarrow>
       (if inode = NULL then Some (EBADF, s)
        else do {
          p \<leftarrow> Inodes s inode;
          if InodeType p \<noteq> BITBUCKET_DIR_TYPE then Some (ENOTDIR, s) else remove_child inode name s });
     s \<leftarrow> put_inode inode s;
     Some (status, [reply_err status], s) }"

definition bitbucket_rmdir where
  "bitbucket_rmdir req parent name = counted 111 (bitbucket_internal_rmdir req parent name)"

section \<open>Links\<close>

definition bitbucket_internal_unlink :: "fuse_req \<Rightarrow> u64 \<Rightarrow> string \<Rightarrow> bb_state \<Rightarrow> handled" where
  "bitbucket_internal_unlink req parent name s = do {
     (inode, s) \<leftarrow> get_inode req parent s;
     (status, s) \<leftarrow>
       (if inode = NULL then Some (EBADF, s)
        else do {
          p \<leftarrow> Inodes s inode;
          if InodeType p \<noteq> BITBUCKET_DIR_TYPE then Some (EISDIR, s) else BitbucketDeleteDirectoryEntry inode name s });
     s \<leftarrow> put_inode inode s;
     Some (status, [reply_err status], s) }"

definition bitbucket_unlink where
  "bitbucket_unlink req parent name = counted 110 (bitbucket_internal_unlink req parent name)"

text \<open>
  The loop of \<^verbatim>\<open>link\<close> inserts the entry while the result is EEXIST.  When the name exists,
  the status is that of the removal of the old entry, so the loop ends after at most one
  round unless that removal itself reports EEXIST.
\<close>

partial_function (option) link_loop :: "addr \<Rightarrow> addr \<Rightarrow> string \<Rightarrow> bb_state \<Rightarrow> (errno \<times> bb_state) option" where
  "link_loop parent inode newname s = do {
     (status, s) \<leftarrow> BitbucketInsertDirectoryEntry parent inode newname s;
     (status, s) \<leftarrow> (if status = EEXIST then BitbucketRemoveFileFromDirectory parent newname s else Some (status, s));
     if status = EEXIST then link_loop parent inode newname s else Some (status, s) }"

definition bitbucket_internal_link :: "fuse_req \<Rightarrow> u64 \<Rightarrow> u64 \<Rightarrow> string \<Rightarrow> bb_state \<Rightarrow> handled" where
  "bitbucket_internal_link req ino newparent newname s =
     (if ino = FUSE_ROOT_ID then Some (EISDIR, [reply_err EISDIR], s)
      else do {
        (inode, s) \<leftarrow> BitbucketLookupInodeInTable ino s;
        (status, replies, parent, s) \<leftarrow>
          (if inode = NULL then Some (EBADF, [reply_err EBADF], NULL, s)
           else do {
             (parent, s) \<leftarrow> get_inode req newparent s;
             if parent = NULL then Some (EBADF, [reply_err EBADF], NULL, s)
             else do {
               i \<leftarrow> Inodes s inode;
               if InodeType i \<noteq> BITBUCKET_FILE_TYPE then do {
                 let status = (if InodeType i = BITBUCKET_DIR_TYPE then EISDIR else EINVAL);
                 Some (status, [reply_err status], parent, s) }
               else do {
                 (status, s) \<leftarrow> link_loop parent inode newname s;
                 i \<leftarrow> Inodes s inode;
                 s \<leftarrow> BitbucketReferenceInode inode INODE_FUSE_LOOKUP_REFERENCE s;
                 Some (0, [reply_entry (entry_param req i)], parent, s) } } });
        s \<leftarrow> put_inode inode s;
        s \<leftarrow> put_inode parent s;
        Some (status, replies, s) })"

definition bitbucket_link where
  "bitbucket_link req ino newparent newname = counted 114 (bitbucket_internal_link req ino newparent newname)"

section \<open>Rename\<close>

abbreviation (input) RENAME_NOREPLACE :: u32 where "RENAME_NOREPLACE \<equiv> 1"
abbreviation (input) RENAME_EXCHANGE :: u32 where "RENAME_EXCHANGE \<equiv> 2"

text \<open>Whether an inode that is in the way may be deleted; a directory has to have at most one entry.\<close>

definition replace_target :: "addr \<Rightarrow> string \<Rightarrow> addr \<Rightarrow> bb_state \<Rightarrow> (errno \<times> bb_state) option" where
  "replace_target new_parent newname new_inode s = do {
     n \<leftarrow> Inodes s new_inode;
     (count, s) \<leftarrow> (if InodeType n = BITBUCKET_DIR_TYPE then BitbucketDirectoryEntryCount new_inode s else Some (0, s));
     if count > 1 then Some (ENOTEMPTY, s) else BitbucketDeleteDirectoryEntry new_parent newname s }"

definition move_entry :: "addr \<Rightarrow> string \<Rightarrow> addr \<Rightarrow> string \<Rightarrow> addr \<Rightarrow> addr \<Rightarrow> bb_state \<Rightarrow> (errno \<times> bb_state) option" where
  "move_entry old_parent name new_parent newname old_inode new_inode s = do {
     (status, s) \<leftarrow> BitbucketInsertDirectoryEntry new_parent old_inode newname s;
     if status \<noteq> 0 then do {
       (status2, s) \<leftarrow> BitbucketInsertDirectoryEntry new_parent new_inode newname s;
       c_assert (status2 = 0);
       Some (status, s) }
     else BitbucketDeleteDirectoryEntry old_parent name s }"

definition rename_objects ::
  "fuse_req \<Rightarrow> addr \<Rightarrow> string \<Rightarrow> addr \<Rightarrow> string \<Rightarrow> u32 \<Rightarrow> bb_state \<Rightarrow> (errno \<times> addr \<times> addr \<times> bb_state) option" where
  "rename_objects req old_parent name new_parent newname flags s = do {
     (old_inode, s) \<leftarrow> BitbucketLookupObjectInDirectory old_parent name s;
     if old_inode = NULL then Some (ENOENT, NULL, NULL, s)
     else if old_inode = RootDirectory (userdata req) then Some (EINVAL, old_inode, NULL, s)
     else do {
       (new_inode, s) \<leftarrow> BitbucketLookupObjectInDirectory new_parent newname s;
       (status, moving, s) \<leftarrow>
         (if new_inode = NULL then Some (0, True, s)
          else if new_inode = RootDirectory (userdata req) then Some (EINVAL, False, s)
          else if flags AND RENAME_NOREPLACE \<noteq> 0 then Some (EEXIST, False, s)
          else if flags AND RENAME_EXCHANGE \<noteq> 0 then do {
            (status, s) \<leftarrow> BitbucketExchangeObjectsInDirectory old_parent new_parent name newname s;
            Some (status, False, s) }
          else do {
            (status, s) \<leftarrow> replace_target new_parent newname new_inode s;
            Some (status, status = 0, s) });
       (status, s) \<leftarrow> (if moving then move_entry old_parent name new_parent newname old_inode new_inode s else Some (status, s));
       Some (status, old_inode, new_inode, s) } }"

definition bitbucket_internal_rename ::
  "fuse_req \<Rightarrow> u64 \<Rightarrow> string \<Rightarrow> u64 \<Rightarrow> string \<Rightarrow> u32 \<Rightarrow> bb_state \<Rightarrow> handled" where
  "bitbucket_internal_rename req parent name newparent newname flags s =
     (if name = ''.'' \<or> name = ''..'' \<or> newname = ''.'' \<or> newname = ''..'' then Some (EINVAL, [], s)
      else do {
        (old_parent, s) \<leftarrow> get_inode req parent s;
        (new_parent, s) \<leftarrow> get_inode req newparent s;
        (status, old_inode, new_inode, s) \<leftarrow>
          (if old_parent = NULL \<or> new_parent = NULL then Some (EBADF, NULL, NULL, s)
           else do {
             p \<leftarrow> Inodes s old_parent;
             q \<leftarrow> Inodes s new_parent;
             if InodeType p \<noteq> BITBUCKET_DIR_TYPE \<or> InodeType q \<noteq> BITBUCKET_DIR_TYPE then Some (ENOTDIR, NULL, NULL, s)
             else rename_objects req old_parent name new_parent newname flags s });
        s \<leftarrow> put_inode old_parent s;
        s \<leftarrow> put_inode new_parent s;
        s \<leftarrow> put_inode old_inode s;
        s \<leftarrow> put_inode new_inode s;
        Some (status, [reply_err status], s) })"

definition bitbucket_rename where
  "bitbucket_rename req parent name newparent newname flags =
     counted 113 (bitbucket_internal_rename req parent name newparent newname flags)"

section \<open>Symbolic links\<close>

definition bitbucket_internal_symlink :: "fuse_req \<Rightarrow> string \<Rightarrow> u64 \<Rightarrow> string \<Rightarrow> bb_state \<Rightarrow> handled" where
  "bitbucket_internal_symlink req link parent name s = do {
     c_assert (link \<noteq> [] \<and> parent \<noteq> 0 \<and> name \<noteq> []);
     (inode, s) \<leftarrow> BitbucketLookupInodeInTable parent s;
     if inode = NULL then Some (EBADF, [reply_err EBADF], s)
     else do {
       (symlinkInode, s) \<leftarrow> BitbucketCreateSymlink inode name link s;
       s \<leftarrow> put_inode inode s;
       if symlinkInode = NULL then Some (EACCES, [reply_err EACCES], s)
       else do {
         i \<leftarrow> Inodes s symlinkInode;
         s \<leftarrow> BitbucketReferenceInode symlinkInode INODE_FUSE_LOOKUP_REFERENCE s;
         s \<leftarrow> BitbucketDereferenceInode symlinkInode INODE_LOOKUP_REFERENCE 1 s;
         Some (0, [reply_entry (entry_param req i)], s) } } }"

definition bitbucket_symlink where
  "bitbucket_symlink req link parent name = counted 112 (bitbucket_internal_symlink req link parent name)"

definition link_bytes :: "string \<Rightarrow> u8 list" where
  "link_bytes link = map (\<lambda>c. of_char c) link"

definition bitbucket_internal_readlink :: "fuse_req \<Rightarrow> u64 \<Rightarrow> bb_state \<Rightarrow> handled" where
  "bitbucket_internal_readlink req ino s = do {
     c_assert (ino \<noteq> 0);
     (inode, s) \<leftarrow> BitbucketLookupInodeInTable ino s;
     (status, replies) \<leftarrow>
       (if inode = NULL then Some (EBADF, [reply_err EBADF])
        else do {
          i \<leftarrow> Inodes s inode;
          if InodeType i \<noteq> BITBUCKET_SYMLINK_TYPE then Some (EBADF, [reply_err EBADF])
          else (case Instance i of SymbolicLink link \<Rightarrow> Some (0, [reply_buf (link_bytes link)]) | _ \<Rightarrow> None) });
     s \<leftarrow> put_inode inode s;
     Some (status, replies, s) }"

definition bitbucket_readlink where
  "bitbucket_readlink req ino = counted 107 (bitbucket_internal_readlink req ino)"

end
