(* ===== verification/HandlersFile.thy ===== *)
theory HandlersFile
  imports Fuse
begin

text \<open>
  The request handlers that open, read, write and close files and directories: \<^verbatim>\<open>open.c\<close>,
  \<^verbatim>\<open>release.c\<close>, \<^verbatim>\<open>opendir.c\<close>, \<^verbatim>\<open>releasedir.c\<close>, \<^verbatim>\<open>read.c\<close>, \<^verbatim>\<open>write.c\<close>, \<^verbatim>\<open>write_buf.c\<close>,
  \<^verbatim>\<open>copy_file_range.c\<close>, \<^verbatim>\<open>flush.c\<close>, \<^verbatim>\<open>fsync.c\<close>, \<^verbatim>\<open>fsyncdir.c\<close> and \<^verbatim>\<open>lseek.c\<close> of
  \<^verbatim>\<open>src/finesse/bitbucket\<close>.  Offsets are signed; a sum of an offset and a sz is unsigned, as
  in C.
\<close>

section \<open>Open and release\<close>

abbreviation (input) O_TRUNC :: u32 where "O_TRUNC \<equiv> 0x200"

definition truncate_inode :: "fuse_req \<Rightarrow> addr \<Rightarrow> bb_state \<Rightarrow> bb_state option" where
  "truncate_inode req inode s = do {
     s \<leftarrow> BitbucketLockInode inode True s;
     i \<leftarrow> Inodes s inode;
     (status, s) \<leftarrow> (if st_size (Attributes i) > 0 then BitbucketAdjustFileStorage (req_os req) inode 0 s else Some (0, s));
     s \<leftarrow> BitbucketUnlockInode inode s;
     c_assert (status = 0);
     Some s }"

definition bitbucket_internal_open :: "fuse_req \<Rightarrow> u64 \<Rightarrow> fuse_file_info \<Rightarrow> bb_state \<Rightarrow> handled" where
  "bitbucket_internal_open req ino fi s = do {
     (inode, s) \<leftarrow> get_inode req ino s;
     if inode = NULL then Some (EBADF, [reply_err EBADF], s)
     else do {
       s \<leftarrow> (if fi_flags fi AND O_TRUNC \<noteq> 0 then truncate_inode req inode s else Some s);
       s \<leftarrow> BitbucketReferenceInode inode INODE_FUSE_OPEN_REFERENCE s;
       s \<leftarrow> BitbucketDereferenceInode inode INODE_LOOKUP_REFERENCE 1 s;
       Some (0, [reply_open (fi\<lparr>fh := inode\<rparr>)], s) } }"

definition bitbucket_open where
  "bitbucket_open req ino fi = counted 115 (bitbucket_internal_open req ino fi)"

definition bitbucket_internal_release :: "fuse_req \<Rightarrow> u64 \<Rightarrow> bb_state \<Rightarrow> handled" where
  "bitbucket_internal_release req ino s = do {
     (inode, s) \<leftarrow> get_inode req ino s;
     if inode = NULL then Some (EBADF, [reply_err EBADF], s)
     else do {
       s \<leftarrow> BitbucketDereferenceInode inode INODE_FUSE_OPEN_REFERENCE 1 s;
       s \<leftarrow> BitbucketDereferenceInode inode INODE_LOOKUP_REFERENCE 1 s;
       Some (0, [reply_err 0], s) } }"

definition bitbucket_release where
  "bitbucket_release req ino = counted 119 (bitbucket_internal_release req ino)"

text \<open>The handle in the reply is the variable \<^verbatim>\<open>inode\<close> after it was set to null.\<close>

definition bitbucket_internal_opendir :: "fuse_req \<Rightarrow> u64 \<Rightarrow> fuse_file_info \<Rightarrow> bb_state \<Rightarrow> handled" where
  "bitbucket_internal_opendir req ino fi s = do {
     (inode, s) \<leftarrow> get_inode req ino s;
     if inode = NULL then Some (ENOENT, [reply_err ENOENT], s)
     else do {
       i \<leftarrow> Inodes s inode;
       s \<leftarrow> BitbucketReferenceInode inode INODE_FUSE_OPENDIR_REFERENCE s;
       s \<leftarrow> BitbucketDereferenceInode inode INODE_LOOKUP_REFERENCE 1 s;
       if S_ISDIR (st_mode (Attributes i)) then Some (0, [reply_open (fi\<lparr>fh := NULL, cache_readdir := True\<rparr>)], s)
       else Some (ENOTDIR, [reply_err ENOTDIR], s) } }"

definition bitbucket_opendir where
  "bitbucket_opendir req ino fi = counted 121 (bitbucket_internal_opendir req ino fi)"

definition bitbucket_internal_releasedir :: "fuse_req \<Rightarrow> u64 \<Rightarrow> bb_state \<Rightarrow> handled" where
  "bitbucket_internal_releasedir req ino s = do {
     (inode, s) \<leftarrow> get_inode req ino s;
     if inode = NULL then Some (EBADF, [reply_err EBADF], s)
     else do {
       s \<leftarrow> BitbucketDereferenceInode inode INODE_FUSE_OPENDIR_REFERENCE 1 s;
       s \<leftarrow> BitbucketDereferenceInode inode INODE_LOOKUP_REFERENCE 1 s;
       Some (0, [reply_err 0], s) } }"

definition bitbucket_releasedir where
  "bitbucket_releasedir req ino = counted 123 (bitbucket_internal_releasedir req ino)"

section \<open>Read\<close>

text \<open>
  The reply is written to the kernel from the mapped memory.  From an address that is not
  mapped the write fails and no reply is sent.
\<close>

definition reply_from_map :: "bitbucket_file \<Rightarrow> nat \<Rightarrow> nat \<Rightarrow> bb_state \<Rightarrow> fuse_reply list option" where
  "reply_from_map f off n s =
     (if Map f = None \<or> Map f = Some MapFailed then Some []
      else map_option (\<lambda>bs. [reply_buf bs]) (map_read f off n s))"

definition read_size :: "u64 \<Rightarrow> int \<Rightarrow> stat_attributes \<Rightarrow> u64" where
  "read_size sz off attr =
     (if off > st_size attr then 0
      else if sz + word_of_int off > word_of_int (st_size attr) then word_of_int (st_size attr - off)
      else sz)"

definition bitbucket_internal_read :: "fuse_req \<Rightarrow> u64 \<Rightarrow> u64 \<Rightarrow> int \<Rightarrow> bb_state \<Rightarrow> handled" where
  "bitbucket_internal_read req ino sz off s =
     (if sz = 0 then Some (0, [reply_buf []], s)
      else do {
        (inode, s) \<leftarrow> get_inode req ino s;
        s \<leftarrow> BitbucketLockInode inode False s;
        i \<leftarrow> Inodes s inode;
        (status, replies) \<leftarrow>
          (if InodeType i \<noteq> BITBUCKET_FILE_TYPE then Some (EINVAL, [reply_err EINVAL])
           else do {
             let outsize = read_size sz off (Attributes i);
             if outsize = 0 then Some (0, [reply_buf []])
             else do {
               f \<leftarrow> the_file i;
               replies \<leftarrow> reply_from_map f (nat off) (unat outsize) s;
               Some (0, replies) } });
        s \<leftarrow> BitbucketUnlockInode inode s;
        s \<leftarrow> put_inode inode s;
        Some (status, replies, s) })"

definition bitbucket_read where
  "bitbucket_read req ino sz off = counted 116 (bitbucket_internal_read req ino sz off)"

section \<open>Write\<close>

definition end_of_write :: "u64 \<Rightarrow> int \<Rightarrow> u64" where
  "end_of_write sz off = word_of_int off + sz"

definition extends :: "u64 \<Rightarrow> int \<Rightarrow> stat_attributes \<Rightarrow> bool" where
  "extends sz off attr \<longleftrightarrow> end_of_write sz off > word_of_int (st_size attr)"

definition move_eof :: "u64 \<Rightarrow> int \<Rightarrow> stat_attributes \<Rightarrow> stat_attributes" where
  "move_eof sz off attr =
     (let n = sint (end_of_write sz off) in attr\<lparr>st_size := n, st_blocks := n sdiv st_blksize attr\<rparr>)"

definition write_file :: "fuse_req \<Rightarrow> addr \<Rightarrow> u8 list \<Rightarrow> u64 \<Rightarrow> int \<Rightarrow> bb_state \<Rightarrow> bb_state option" where
  "write_file req inode buf sz off s = do {
     s \<leftarrow> BitbucketLockInode inode False s;
     i \<leftarrow> Inodes s inode;
     let extending = extends sz off (Attributes i);
     s \<leftarrow> (if extending then set_attributes inode (move_eof sz off) s
           else map_write inode (nat off) (take (unat sz) buf) s);
     s \<leftarrow> BitbucketUnlockInode inode s;
     if extending then do {
       s \<leftarrow> BitbucketLockInode inode True s;
       (status, s) \<leftarrow> BitbucketAdjustFileStorage (req_os req) inode (end_of_write sz off) s;
       s \<leftarrow> BitbucketUnlockInode inode s;
       c_assert (status = 0);
       Some s }
     else Some s }"

definition bitbucket_internal_write :: "fuse_req \<Rightarrow> u64 \<Rightarrow> u8 list \<Rightarrow> u64 \<Rightarrow> int \<Rightarrow> bb_state \<Rightarrow> handled" where
  "bitbucket_internal_write req ino buf sz off s =
     (if sz = 0 then Some (0, [reply_write 0], s)
      else do {
        (inode, s) \<leftarrow> get_inode req ino s;
        if inode = NULL then Some (EBADF, [reply_err EBADF], s)
        else do {
          i \<leftarrow> Inodes s inode;
          if InodeType i \<noteq> BITBUCKET_FILE_TYPE then Some (EINVAL, [reply_err EINVAL], s)
          else do {
            s \<leftarrow> write_file req inode buf sz off s;
            s \<leftarrow> BitbucketDereferenceInode inode INODE_LOOKUP_REFERENCE 1 s;
            Some (0, [reply_write sz], s) } } })"

definition bitbucket_write where
  "bitbucket_write req ino buf sz off = counted 117 (bitbucket_internal_write req ino buf sz off)"

section \<open>Write from buffers\<close>

record fuse_buf =
  buf_size :: u64
  buf_flags :: u32
  buf_mem :: "u8 list"
  buf_fd :: nat
  buf_pos :: int

record fuse_bufvec =
  idx :: nat
  bufs :: "fuse_buf list"

abbreviation (input) FUSE_BUF_IS_FD :: u32 where "FUSE_BUF_IS_FD \<equiv> 2"
abbreviation (input) FUSE_BUF_FD_SEEK :: u32 where "FUSE_BUF_FD_SEEK \<equiv> 4"

text \<open>The buffers with index at most \<^verbatim>\<open>idx\<close> are the ones that are used.\<close>

definition used_bufs :: "fuse_bufvec \<Rightarrow> fuse_buf list" where
  "used_bufs v = map snd (filter (\<lambda>(index, b). idx v \<ge> index) (enumerate 0 (bufs v)))"

definition bufs_size :: "fuse_bufvec option \<Rightarrow> u64" where
  "bufs_size v = (case v of None \<Rightarrow> 0 | Some v \<Rightarrow> foldl (\<lambda>n b. n + buf_size b) 0 (used_bufs v))"

definition copy_buf :: "fuse_req \<Rightarrow> addr \<Rightarrow> fuse_buf \<Rightarrow> u64 \<Rightarrow> bb_state \<Rightarrow> (u64 \<times> bb_state) option" where
  "copy_buf req inode b offset s = do {
     let foff = (if buf_flags b AND FUSE_BUF_FD_SEEK \<noteq> 0 then buf_pos b else sint offset);
     if buf_flags b AND FUSE_BUF_IS_FD \<noteq> 0 then
       (case req_pread req (buf_fd b) (unat (buf_size b)) foff of
          None \<Rightarrow> Some (offset - 1, s)
        | Some bs \<Rightarrow> do {
            s \<leftarrow> map_write inode (unat offset) bs s;
            Some (offset + word_of_nat (length bs), s) })
     else do {
       i \<leftarrow> Inodes s inode;
       c_assert (offset + buf_size b \<le> word_of_int (st_size (Attributes i)));
       s \<leftarrow> map_write inode (nat foff) (take (unat (buf_size b)) (buf_mem b)) s;
       Some (offset + buf_size b, s) } }"

fun copy_bufs :: "fuse_req \<Rightarrow> addr \<Rightarrow> fuse_buf list \<Rightarrow> u64 \<Rightarrow> bb_state \<Rightarrow> bb_state option" where
  "copy_bufs req inode [] offset s = Some s"
| "copy_bufs req inode (b # bs) offset s = do {
     (offset, s) \<leftarrow> copy_buf req inode b offset s;
     copy_bufs req inode bs offset s }"

definition write_buf_file :: "fuse_req \<Rightarrow> addr \<Rightarrow> fuse_bufvec \<Rightarrow> u64 \<Rightarrow> int \<Rightarrow> bb_state \<Rightarrow> bb_state option" where
  "write_buf_file req inode v sz off s = do {
     s \<leftarrow> BitbucketLockInode inode False s;
     i \<leftarrow> Inodes s inode;
     s \<leftarrow> (if extends sz off (Attributes i) then do {
             s \<leftarrow> BitbucketUnlockInode inode s;
             BitbucketLockInode inode True s }
           else Some s);
     i \<leftarrow> Inodes s inode;
     s \<leftarrow> (if extends sz off (Attributes i) then do {
             (status, s) \<leftarrow> BitbucketAdjustFileStorage (req_os req) inode (end_of_write sz off) s;
             c_assert (status = 0);
             set_attributes inode (move_eof sz off) s }
           else Some s);
     s \<leftarrow> copy_bufs req inode (used_bufs v) (word_of_int off) s;
     BitbucketUnlockInode inode s }"

definition bitbucket_internal_write_buf :: "fuse_req \<Rightarrow> u64 \<Rightarrow> fuse_bufvec option \<Rightarrow> int \<Rightarrow> bb_state \<Rightarrow> handled" where
  "bitbucket_internal_write_buf req ino bufv off s =
     (let sz = bufs_size bufv in
      if sz = 0 then Some (0, [reply_write 0], s)
      else do {
        (inode, s) \<leftarrow> get_inode req ino s;
        c_assert (inode \<noteq> NULL);
        i \<leftarrow> Inodes s inode;
        if InodeType i \<noteq> BITBUCKET_FILE_TYPE then Some (EINVAL, [reply_err EINVAL], s)
        else do {
          v \<leftarrow> bufv;
          s \<leftarrow> write_buf_file req inode v sz off s;
          s \<leftarrow> BitbucketDereferenceInode inode INODE_LOOKUP_REFERENCE 1 s;
          Some (0, [reply_write sz], s) } })"

definition bitbucket_write_buf where
  "bitbucket_write_buf req ino bufv off = counted 137 (bitbucket_internal_write_buf req ino bufv off)"

section \<open>Copy a range\<close>

definition to_int32 :: "int \<Rightarrow> int" where
  "to_int32 n = sint (word_of_int n :: 32 word)"

definition inode_size :: "addr \<Rightarrow> bb_state \<Rightarrow> int option" where
  "inode_size a s = map_option (\<lambda>i. st_size (Attributes i)) (Inodes s a)"

text \<open>One copy, under the locks, of a number of bytes that both files have room for.\<close>

definition copy_bytes :: "fuse_req \<Rightarrow> addr \<Rightarrow> int \<Rightarrow> addr \<Rightarrow> int \<Rightarrow> int \<Rightarrow> bb_state \<Rightarrow> bb_state option" where
  "copy_bytes req in_inode off_in out_inode off_out copy_size s = do {
     out_size \<leftarrow> inode_size out_inode s;
     (status, s) \<leftarrow> (if out_size < off_out + copy_size
        then BitbucketAdjustFileStorage (req_os req) out_inode (word_of_int (off_out + copy_size)) s else Some (0, s));
     out_size \<leftarrow> inode_size out_inode s;
     c_assert (out_size \<le> off_out + copy_size);
     i \<leftarrow> Inodes s in_inode;
     f \<leftarrow> the_file i;
     bs \<leftarrow> map_read f (nat off_in) (nat copy_size) s;
     map_write out_inode (nat off_out) bs s }"

text \<open>
  The inner loop of the handler: its result is the number of bytes that were copied.  It runs a
  second time after the locks have been taken exclusively.
\<close>

function copy_once ::
  "fuse_req \<Rightarrow> addr \<Rightarrow> int \<Rightarrow> addr \<Rightarrow> int \<Rightarrow> u64 \<Rightarrow> bool \<Rightarrow> bb_state \<Rightarrow> (int \<times> bool \<times> bb_state) option" where
  "copy_once req in_inode off_in out_inode off_out len exclusive s = do {
     let copy_size = to_int32 (uint len);
     if copy_size \<le> 0 then Some (copy_size, exclusive, s)
     else do {
       in_size \<leftarrow> inode_size in_inode s;
       if in_size \<le> off_in then Some (0, exclusive, s)
       else do {
         let copy_size = (if in_size < off_in + copy_size then to_int32 (off_in - in_size) else copy_size);
         c_assert (copy_size > 0);
         out_size \<leftarrow> inode_size out_inode s;
         if \<not> exclusive \<and> out_size < off_out + copy_size then do {
           s \<leftarrow> BitbucketUnlockInode in_inode s;
           s \<leftarrow> BitbucketUnlockInode out_inode s;
           s \<leftarrow> BitbucketLockTwoInodes in_inode out_inode True s;
           copy_once req in_inode off_in out_inode off_out len True s }
         else do {
           s \<leftarrow> copy_bytes req in_inode off_in out_inode off_out copy_size s;
           Some (copy_size, exclusive, s) } } } }"
  by pat_completeness auto
termination
  by (relation "measure (\<lambda>(req, in_inode, off_in, out_inode, off_out, len, exclusive, s). if exclusive then 0 else 1)") auto

text \<open>The outer loop ends only when nothing is left to copy.\<close>

partial_function (option) copy_loop ::
  "fuse_req \<Rightarrow> addr \<Rightarrow> int \<Rightarrow> addr \<Rightarrow> int \<Rightarrow> u64 \<Rightarrow> bool \<Rightarrow> bb_state \<Rightarrow> (errno \<times> int \<times> bb_state) option" where
  "copy_loop req in_inode off_in out_inode off_out len exclusive s = do {
     i \<leftarrow> Inodes s in_inode;
     j \<leftarrow> Inodes s out_inode;
     if InodeType i \<noteq> BITBUCKET_FILE_TYPE \<or> InodeType j \<noteq> BITBUCKET_FILE_TYPE then Some (EINVAL, 0, s)
     else do {
       (copy_size, exclusive, s) \<leftarrow> copy_once req in_inode off_in out_inode off_out len exclusive s;
       if copy_size = 0 then Some (0, 0, s)
       else copy_loop req in_inode off_in out_inode off_out len exclusive s } }"

definition bitbucket_internal_copy_file_range ::
  "fuse_req \<Rightarrow> u64 \<Rightarrow> int \<Rightarrow> u64 \<Rightarrow> int \<Rightarrow> u64 \<Rightarrow> bb_state \<Rightarrow> handled" where
  "bitbucket_internal_copy_file_range req ino_in off_in ino_out off_out len s =
     (if ino_in = FUSE_ROOT_ID \<or> ino_out = FUSE_ROOT_ID then Some (EISDIR, [reply_err EISDIR], s)
      else do {
        (in_inode, s) \<leftarrow> BitbucketLookupInodeInTable ino_in s;
        (out_inode, s) \<leftarrow> BitbucketLookupInodeInTable ino_out s;
        s \<leftarrow> BitbucketLockTwoInodes in_inode out_inode False s;
        (status, copy_size, s) \<leftarrow> copy_loop req in_inode off_in out_inode off_out len False s;
        s \<leftarrow> BitbucketUnlockInode out_inode s;
        s \<leftarrow> BitbucketUnlockInode in_inode s;
        s \<leftarrow> put_inode in_inode s;
        s \<leftarrow> put_inode out_inode s;
        Some (status, [if status \<noteq> 0 then reply_err status else reply_write (word_of_int copy_size)], s) })"

definition bitbucket_copy_file_range where
  "bitbucket_copy_file_range req ino_in off_in ino_out off_out len =
     counted 143 (bitbucket_internal_copy_file_range req ino_in off_in ino_out off_out len)"

section \<open>Flush and synchronise\<close>

text \<open>The kernel accepts whole pages of a mapping only.\<close>

definition msync_ok :: "bitbucket_file \<Rightarrow> bitbucket_inode \<Rightarrow> bool" where
  "msync_ok f i \<longleftrightarrow> (case Map f of Some (Mmapped n) \<Rightarrow> st_size (Attributes i) \<le> int ((n + 4095) div 4096 * 4096) | _ \<Rightarrow> False)"

definition sync_file :: "bool \<Rightarrow> addr \<Rightarrow> bb_state \<Rightarrow> bb_state option" where
  "sync_file enabled inode s = do {
     s \<leftarrow> BitbucketLockInode inode False s;
     i \<leftarrow> Inodes s inode;
     f \<leftarrow> the_file i;
     c_assert (Map f \<noteq> None \<and> enabled \<longrightarrow> msync_ok f i);
     BitbucketUnlockInode inode s }"

definition sync_inode :: "fuse_req \<Rightarrow> bool \<Rightarrow> u64 \<Rightarrow> bb_state \<Rightarrow> handled" where
  "sync_inode req enabled ino s = do {
     (inode, s) \<leftarrow> get_inode req ino s;
     if inode = NULL then Some (EBADF, [reply_err EBADF], s)
     else do {
       i \<leftarrow> Inodes s inode;
       s \<leftarrow> (if InodeType i = BITBUCKET_FILE_TYPE then sync_file enabled inode s else Some s);
       s \<leftarrow> put_inode inode s;
       Some (0, [reply_err 0], s) } }"

definition bitbucket_internal_flush :: "fuse_req \<Rightarrow> u64 \<Rightarrow> bb_state \<Rightarrow> handled" where
  "bitbucket_internal_flush req ino s =
     (if FlushEnable (userdata req) = 0 then Some (0, [reply_err 0], s)
      else sync_inode req (FsyncDisable (userdata req) = 0) ino s)"

definition bitbucket_flush where
  "bitbucket_flush req ino = counted 118 (bitbucket_internal_flush req ino)"

definition bitbucket_internal_fsync :: "fuse_req \<Rightarrow> u64 \<Rightarrow> bb_state \<Rightarrow> handled" where
  "bitbucket_internal_fsync req ino s =
     (if FsyncDisable (userdata req) = 1 then Some (0, [reply_err 0], s) else sync_inode req True ino s)"

definition bitbucket_fsync where
  "bitbucket_fsync req ino = counted 120 (bitbucket_internal_fsync req ino)"

definition bitbucket_internal_fsyncdir :: "fuse_req \<Rightarrow> u64 \<Rightarrow> bb_state \<Rightarrow> handled" where
  "bitbucket_internal_fsyncdir req ino s = do {
     (inode, s) \<leftarrow> get_inode req ino s;
     let status = (if inode = NULL then EBADF else 0);
     s \<leftarrow> put_inode inode s;
     Some (status, [reply_err status], s) }"

definition bitbucket_fsyncdir where
  "bitbucket_fsyncdir req ino = counted 124 (bitbucket_internal_fsyncdir req ino)"

definition bitbucket_internal_lseek :: "int \<Rightarrow> bb_state \<Rightarrow> handled" where
  "bitbucket_internal_lseek off s = Some (0, [reply_lseek off], s)"

definition bitbucket_lseek where
  "bitbucket_lseek off = counted 144 (bitbucket_internal_lseek off)"

end
