(* ===== verification/HandlersAttr.thy ===== *)
theory HandlersAttr
  imports Fuse
begin

text \<open>
  The request handlers for attributes: \<^verbatim>\<open>getattr.c\<close>, \<^verbatim>\<open>setattr.c\<close>, \<^verbatim>\<open>access.c\<close>, \<^verbatim>\<open>statfs.c\<close>,
  \<^verbatim>\<open>setxattr.c\<close>, \<^verbatim>\<open>getxattr.c\<close>, \<^verbatim>\<open>removexattr.c\<close> and \<^verbatim>\<open>ioctl.c\<close> of \<^verbatim>\<open>src/finesse/bitbucket\<close>, and the
  handlers that only assert that they are not called: \<^verbatim>\<open>bmap.c\<close>, \<^verbatim>\<open>fallocate.c\<close>, \<^verbatim>\<open>getlk.c\<close>,
  \<^verbatim>\<open>setlk.c\<close>, \<^verbatim>\<open>listxattr.c\<close>, \<^verbatim>\<open>mknod.c\<close>, \<^verbatim>\<open>poll.c\<close> and \<^verbatim>\<open>retrieve_reply.c\<close>.
\<close>

section \<open>Attributes\<close>

definition bitbucket_internal_getattr :: "fuse_req \<Rightarrow> u64 \<Rightarrow> fuse_file_info option \<Rightarrow> bb_state \<Rightarrow> handled" where
  "bitbucket_internal_getattr req ino fi s = do {
     (case fi of
        None \<Rightarrow> Some ()
      | Some fi \<Rightarrow> do {
          i \<leftarrow> Inodes s (fh fi);
          c_assert (ino = st_ino (Attributes i)) });
     (inode, s) \<leftarrow> get_inode req ino s;
     if inode = NULL then Some (EBADF, [reply_err EBADF], s)
     else do {
       i \<leftarrow> Inodes s inode;
       s \<leftarrow> BitbucketDereferenceInode inode INODE_LOOKUP_REFERENCE 1 s;
       Some (0, [reply_attr (Attributes i) (AttrTimeout (userdata req))], s) } }"

definition bitbucket_getattr where
  "bitbucket_getattr req ino fi = counted 105 (bitbucket_internal_getattr req ino fi)"

abbreviation (input) FUSE_SET_ATTR_MODE :: u32 where "FUSE_SET_ATTR_MODE \<equiv> 0x1"
abbreviation (input) FUSE_SET_ATTR_UID :: u32 where "FUSE_SET_ATTR_UID \<equiv> 0x2"
abbreviation (input) FUSE_SET_ATTR_GID :: u32 where "FUSE_SET_ATTR_GID \<equiv> 0x4"
abbreviation (input) FUSE_SET_ATTR_SIZE :: u32 where "FUSE_SET_ATTR_SIZE \<equiv> 0x8"
abbreviation (input) FUSE_SET_ATTR_ATIME :: u32 where "FUSE_SET_ATTR_ATIME \<equiv> 0x10"
abbreviation (input) FUSE_SET_ATTR_MTIME :: u32 where "FUSE_SET_ATTR_MTIME \<equiv> 0x20"
abbreviation (input) FUSE_SET_ATTR_ATIME_NOW :: u32 where "FUSE_SET_ATTR_ATIME_NOW \<equiv> 0x80"
abbreviation (input) FUSE_SET_ATTR_MTIME_NOW :: u32 where "FUSE_SET_ATTR_MTIME_NOW \<equiv> 0x100"
abbreviation (input) FUSE_SET_ATTR_CTIME :: u32 where "FUSE_SET_ATTR_CTIME \<equiv> 0x400"

definition set_owner :: "u32 \<Rightarrow> stat_attributes \<Rightarrow> stat_attributes \<Rightarrow> stat_attributes" where
  "set_owner to_set attr a =
     (let a = (if to_set AND FUSE_SET_ATTR_MODE \<noteq> 0 then a\<lparr>st_mode := (st_mode a AND S_IFMT) OR (st_mode attr AND NOT S_IFMT)\<rparr> else a);
          a = (if to_set AND FUSE_SET_ATTR_UID \<noteq> 0 then a\<lparr>st_uid := st_uid attr\<rparr> else a)
      in if to_set AND FUSE_SET_ATTR_GID \<noteq> 0 then a\<lparr>st_gid := st_gid attr\<rparr> else a)"

definition set_size :: "fuse_req \<Rightarrow> u32 \<Rightarrow> stat_attributes \<Rightarrow> addr \<Rightarrow> bb_state \<Rightarrow> bb_state option" where
  "set_size req to_set attr inode s = do {
     i \<leftarrow> Inodes s inode;
     if to_set AND FUSE_SET_ATTR_SIZE \<noteq> 0 \<and> st_size (Attributes i) \<noteq> st_size attr then do {
       s \<leftarrow> BitbucketLockInode inode True s;
       (status, s) \<leftarrow> BitbucketAdjustFileStorage (req_os req) inode (word_of_int (st_size attr)) s;
       c_assert (status = 0);
       BitbucketUnlockInode inode s }
     else Some s }"

definition set_times :: "u32 \<Rightarrow> stat_attributes \<Rightarrow> addr \<Rightarrow> bb_state \<Rightarrow> bb_state option" where
  "set_times to_set attr inode s = do {
     s \<leftarrow> (if to_set AND FUSE_SET_ATTR_ATIME \<noteq> 0
           then set_attributes inode (\<lambda>a. a\<lparr>st_atim := (st_atim a)\<lparr>tv_sec := tv_sec (st_atim attr)\<rparr>\<rparr>) s else Some s);
     s \<leftarrow> (if to_set AND FUSE_SET_ATTR_MTIME \<noteq> 0
           then set_attributes inode (\<lambda>a. a\<lparr>st_mtim := (st_mtim a)\<lparr>tv_sec := tv_sec (st_mtim attr)\<rparr>\<rparr>) s else Some s);
     s \<leftarrow> (if to_set AND FUSE_SET_ATTR_ATIME_NOW \<noteq> 0
           then (let (now, s) = clock_gettime s in set_attributes inode (\<lambda>a. a\<lparr>st_atim := now\<rparr>) s) else Some s);
     s \<leftarrow> (if to_set AND FUSE_SET_ATTR_MTIME_NOW \<noteq> 0
           then (let (now, s) = clock_gettime s in set_attributes inode (\<lambda>a. a\<lparr>st_mtim := now\<rparr>) s) else Some s);
     (if to_set AND FUSE_SET_ATTR_CTIME \<noteq> 0
      then set_attributes inode (\<lambda>a. a\<lparr>st_ctim := (st_ctim a)\<lparr>tv_sec := tv_sec (st_ctim attr)\<rparr>\<rparr>) s else Some s) }"

text \<open>The status stays EINVAL only when no attribute is set.\<close>

abbreviation (input) any_attribute :: u32 where "any_attribute \<equiv> 0x5BF"

definition bitbucket_internal_setattr :: "fuse_req \<Rightarrow> u64 \<Rightarrow> stat_attributes \<Rightarrow> u32 \<Rightarrow> bb_state \<Rightarrow> handled" where
  "bitbucket_internal_setattr req ino attr to_set s = do {
     (inode, s) \<leftarrow> get_inode req ino s;
     if inode = NULL then Some (EBADF, [reply_err EBADF], s)
     else do {
       s \<leftarrow> set_attributes inode (set_owner to_set attr) s;
       s \<leftarrow> set_size req to_set attr inode s;
       s \<leftarrow> set_times to_set attr inode s;
       i \<leftarrow> Inodes s inode;
       c_assert (InodeType i = BITBUCKET_DIR_TYPE \<longrightarrow> S_ISDIR (st_mode (Attributes i)));
       c_assert (InodeType i = BITBUCKET_FILE_TYPE \<longrightarrow> S_ISREG (st_mode (Attributes i)));
       let status = (if to_set AND any_attribute \<noteq> 0 then 0 else EINVAL);
       s \<leftarrow> put_inode inode s;
       Some (status, [if status = 0 then reply_attr (Attributes i) (AttrTimeout (userdata req)) else reply_err status], s) } }"

definition bitbucket_setattr where
  "bitbucket_setattr req ino attr to_set = counted 106 (bitbucket_internal_setattr req ino attr to_set)"

text \<open>The result of the comparison with the mode is overwritten.\<close>

definition bitbucket_internal_access :: "fuse_req \<Rightarrow> u64 \<Rightarrow> u32 \<Rightarrow> bb_state \<Rightarrow> handled" where
  "bitbucket_internal_access req ino amask s = do {
     (inode, s) \<leftarrow> get_inode req ino s;
     status \<leftarrow> (if inode = NULL then Some EBADF
        else do {
          i \<leftarrow> Inodes s inode;
          let mode = st_mode (Attributes i) AND NOT S_IFMT;
          let status = (if amask \<noteq> amask AND mode then EACCES else EBADF);
          let status = 0;
          Some status });
     s \<leftarrow> put_inode inode s;
     Some (status, [reply_err status], s) }"

definition bitbucket_access where
  "bitbucket_access req ino amask = counted 130 (bitbucket_internal_access req ino amask)"

section \<open>Statistics of the file system\<close>

text \<open>
  With a storage directory the numbers come from its file system; otherwise from the limit
  and the usage of memory of the process and from the number of inodes.
\<close>

definition memory_statfs :: "fuse_req \<Rightarrow> u64 \<Rightarrow> statvfs \<Rightarrow> statvfs" where
  "memory_statfs req count st =
     (let bfree = (req_rlimit req - req_rusage req) div f_bsize st;
          files = (10 * bfree) div 100
      in st\<lparr>f_blocks := req_rlimit req div f_bsize st, f_bfree := bfree, f_bavail := (90 * bfree) div 100,
            f_files := (if count > files then files else count + 1),
            f_ffree := (if count > files then count - files else 1)\<rparr>)"

definition bitbucket_internal_statfs :: "fuse_req \<Rightarrow> u64 \<Rightarrow> bb_state \<Rightarrow> handled" where
  "bitbucket_internal_statfs req ino s = do {
     c_assert (ino \<noteq> 0);
     (inode, s) \<leftarrow> get_inode req ino s;
     if inode = NULL then Some (EBADF, [reply_err EBADF], s)
     else do {
       i \<leftarrow> Inodes s inode;
       let bsize = word_of_int (st_blksize (Attributes i));
       let st = \<lparr>f_bsize = bsize, f_frsize = bsize, f_blocks = 0, f_bfree = 0, f_bavail = 0, f_files = 0, f_ffree = 0,
                 f_fsid = 42, f_flag = 0, f_namemax = word_of_nat MAX_FILE_NAME_SIZE\<rparr>;
       st \<leftarrow> (if StorageDir (userdata req) \<noteq> None then do {
               let sd = req_statvfs req;
               Some (st\<lparr>f_blocks := f_blocks sd, f_bfree := f_bfree sd, f_bavail := f_bavail sd, f_files := f_files sd, f_ffree := f_ffree sd\<rparr>) }
             else do {
               c_assert (bsize \<noteq> 0);
               Some (memory_statfs req (BitbucketGetInodeTableCount s) st) });
       s \<leftarrow> BitbucketDereferenceInode inode INODE_LOOKUP_REFERENCE 1 s;
       Some (0, [reply_statfs st], s) } }"

definition bitbucket_statfs where
  "bitbucket_statfs req ino = counted 125 (bitbucket_internal_statfs req ino)"

section \<open>Extended attributes\<close>

abbreviation (input) XATTR_CREATE :: u32 where "XATTR_CREATE \<equiv> 1"
abbreviation (input) XATTR_REPLACE :: u32 where "XATTR_REPLACE \<equiv> 2"

definition set_xattr :: "fuse_req \<Rightarrow> addr \<Rightarrow> string \<Rightarrow> u8 list \<Rightarrow> u32 \<Rightarrow> bb_state \<Rightarrow> (errno \<times> bb_state) option" where
  "set_xattr req inode name value flags s = do {
     s \<leftarrow> BitbucketLockInode inode False s;
     (status, data) \<leftarrow> BitbucketLookupExtendedAttribute inode name s;
     if status = 0 then
       (if flags AND XATTR_CREATE \<noteq> 0 then Some (EEXIST, s)
        else do {
          (status, s) \<leftarrow> BitbucketRemoveExtendedAttribute inode name s;
          c_assert (status = 0);
          BitbucketInsertExtendedAttribute (os_malloc (req_os req)) inode name value s })
     else if status = ENOENT then
       (if flags AND XATTR_REPLACE \<noteq> 0 then Some (ENODATA, s)
        else BitbucketInsertExtendedAttribute (os_malloc (req_os req)) inode name value s)
     else Some (status, s) }"

definition bitbucket_internal_setxattr :: "fuse_req \<Rightarrow> u64 \<Rightarrow> string \<Rightarrow> u8 list \<Rightarrow> u32 \<Rightarrow> bb_state \<Rightarrow> handled" where
  "bitbucket_internal_setxattr req ino name value flags s =
     (if NoXattr (userdata req) then Some (ENOSYS, [reply_err ENOSYS], s)
      else do {
        (inode, s) \<leftarrow> get_inode req ino s;
        if inode = NULL then Some (EBADF, [reply_err EBADF], s)
        else do {
          (status, s) \<leftarrow> set_xattr req inode name value flags s;
          s \<leftarrow> BitbucketUnlockInode inode s;
          s \<leftarrow> BitbucketDereferenceInode inode INODE_LOOKUP_REFERENCE 1 s;
          Some (status, [reply_err status], s) } })"

definition bitbucket_setxattr where
  "bitbucket_setxattr req ino name value flags = counted 126 (bitbucket_internal_setxattr req ino name value flags)"

text \<open>No reply is sent when the inode is unknown or the buffer too small.\<close>

definition bitbucket_internal_getxattr :: "fuse_req \<Rightarrow> u64 \<Rightarrow> string \<Rightarrow> u64 \<Rightarrow> bb_state \<Rightarrow> handled" where
  "bitbucket_internal_getxattr req ino name bufsize s =
     (if NoXattr (userdata req) then Some (ENOSYS, [reply_err ENOSYS], s)
      else do {
        (inode, s) \<leftarrow> get_inode req ino s;
        if inode = NULL then Some (EBADF, [], s)
        else do {
          s \<leftarrow> BitbucketLockInode inode False s;
          (status, data) \<leftarrow> BitbucketLookupExtendedAttribute inode name s;
          (status, replies) \<leftarrow>
            (if status \<noteq> 0 then Some (status, [reply_err status])
             else if bufsize = 0 then Some (0, [reply_xattr bufsize])
             else do {
               data \<leftarrow> data;
               if bufsize < word_of_nat (length data) then Some (ERANGE, []) else Some (0, [reply_buf data]) });
          s \<leftarrow> BitbucketUnlockInode inode s;
          s \<leftarrow> BitbucketDereferenceInode inode INODE_LOOKUP_REFERENCE 1 s;
          Some (status, replies, s) } })"

definition bitbucket_getxattr where
  "bitbucket_getxattr req ino name bufsize = counted 127 (bitbucket_internal_getxattr req ino name bufsize)"

definition bitbucket_internal_removexattr :: "fuse_req \<Rightarrow> u64 \<Rightarrow> string \<Rightarrow> bb_state \<Rightarrow> handled" where
  "bitbucket_internal_removexattr req ino name s =
     (if NoXattr (userdata req) then Some (ENOSYS, [reply_err ENOSYS], s)
      else do {
        (inode, s) \<leftarrow> get_inode req ino s;
        if inode = NULL then Some (EBADF, [reply_err EBADF], s)
        else do {
          s \<leftarrow> BitbucketLockInode inode False s;
          (status, data) \<leftarrow> BitbucketLookupExtendedAttribute inode name s;
          (status, s) \<leftarrow> (if status = ENOENT then Some (ENODATA, s) else BitbucketRemoveExtendedAttribute inode name s);
          s \<leftarrow> BitbucketUnlockInode inode s;
          s \<leftarrow> BitbucketDereferenceInode inode INODE_LOOKUP_REFERENCE 1 s;
          Some (status, [reply_err status], s) } })"

definition bitbucket_removexattr where
  "bitbucket_removexattr req ino name = counted 129 (bitbucket_internal_removexattr req ino name)"

section \<open>Requests without effect\<close>

text \<open>The status that is counted is success.\<close>

definition bitbucket_internal_ioctl :: "bb_state \<Rightarrow> handled" where
  "bitbucket_internal_ioctl s = Some (0, [reply_err EINVAL], s)"

definition bitbucket_ioctl where
  "bitbucket_ioctl = counted 135 bitbucket_internal_ioctl"

definition bitbucket_internal_bmap :: "bb_state \<Rightarrow> handled" where "bitbucket_internal_bmap s = None"
definition bitbucket_internal_fallocate :: "bb_state \<Rightarrow> handled" where "bitbucket_internal_fallocate s = None"
definition bitbucket_internal_getlk :: "bb_state \<Rightarrow> handled" where "bitbucket_internal_getlk s = None"
definition bitbucket_internal_setlk :: "bb_state \<Rightarrow> handled" where "bitbucket_internal_setlk s = None"
definition bitbucket_internal_listxattr :: "bb_state \<Rightarrow> handled" where "bitbucket_internal_listxattr s = None"
definition bitbucket_internal_mknod :: "bb_state \<Rightarrow> handled" where "bitbucket_internal_mknod s = None"
definition bitbucket_internal_poll :: "bb_state \<Rightarrow> handled" where "bitbucket_internal_poll s = None"
definition bitbucket_internal_retrieve_reply :: "bb_state \<Rightarrow> handled" where "bitbucket_internal_retrieve_reply s = None"

definition bitbucket_bmap where "bitbucket_bmap = counted 134 bitbucket_internal_bmap"
definition bitbucket_fallocate where "bitbucket_fallocate = counted 141 bitbucket_internal_fallocate"
definition bitbucket_getlk where "bitbucket_getlk = counted 132 bitbucket_internal_getlk"
definition bitbucket_setlk where "bitbucket_setlk = counted 133 bitbucket_internal_setlk"
definition bitbucket_listxattr where "bitbucket_listxattr = counted 128 bitbucket_internal_listxattr"
definition bitbucket_mknod where "bitbucket_mknod = counted 108 bitbucket_internal_mknod"
definition bitbucket_poll where "bitbucket_poll = counted 136 bitbucket_internal_poll"
definition bitbucket_retrieve_reply where "bitbucket_retrieve_reply = counted 138 bitbucket_internal_retrieve_reply"

end
