(* ===== verification/HandlersDir.thy ===== *)
theory HandlersDir
  imports Fuse
begin

text \<open>
  Reading directories: \<^verbatim>\<open>readdir.c\<close> and \<^verbatim>\<open>readdirplus.c\<close> of \<^verbatim>\<open>src/finesse/bitbucket\<close>, and the packing of
  entries into the buffer of the reply, \<^verbatim>\<open>src/lib/fuse_lowlevel.c\<close>.  A buffer is the list of
  the entries in it together with the number of bytes used.
\<close>

section \<open>Entries in the reply\<close>

abbreviation (input) FUSE_NAME_OFFSET :: nat where "FUSE_NAME_OFFSET \<equiv> 24"
abbreviation (input) FUSE_NAME_OFFSET_DIRENTPLUS :: nat where "FUSE_NAME_OFFSET_DIRENTPLUS \<equiv> 152"

definition FUSE_DIRENT_ALIGN :: "nat \<Rightarrow> nat" where
  "FUSE_DIRENT_ALIGN x = (x + 7) div 8 * 8"

text \<open>The length of the entry, and the entry when it fits.\<close>

definition fuse_add_direntry :: "nat \<Rightarrow> string \<Rightarrow> stat_attributes \<Rightarrow> u64 \<Rightarrow> nat \<times> fuse_dirent option" where
  "fuse_add_direntry bufsize name stbuf off =
     (let entlen_padded = FUSE_DIRENT_ALIGN (FUSE_NAME_OFFSET + length name) in
      (entlen_padded,
       if entlen_padded > bufsize then None
       else Some \<lparr>dirent_ino = st_ino stbuf, dirent_off = off, dirent_type = drop_bit 12 (st_mode stbuf AND S_IFMT),
                  dirent_Name = name, dirent_entry = None\<rparr>))"

definition fuse_add_direntry_plus :: "nat \<Rightarrow> string \<Rightarrow> fuse_entry_param \<Rightarrow> u64 \<Rightarrow> nat \<times> fuse_dirent option" where
  "fuse_add_direntry_plus bufsize name e off =
     (let entlen_padded = FUSE_DIRENT_ALIGN (FUSE_NAME_OFFSET_DIRENTPLUS + length name) in
      (entlen_padded,
       if entlen_padded > bufsize then None
       else Some \<lparr>dirent_ino = st_ino (fep_attr e), dirent_off = off, dirent_type = drop_bit 12 (st_mode (fep_attr e) AND S_IFMT),
                  dirent_Name = name, dirent_entry = Some e\<rparr>))"

lemma direntry_length [simp]:
  "0 < fst (fuse_add_direntry n name st off)" "0 < fst (fuse_add_direntry_plus n name e off)"
  by (simp_all add: fuse_add_direntry_def fuse_add_direntry_plus_def FUSE_DIRENT_ALIGN_def Let_def)

section \<open>Readdir\<close>

abbreviation (input) ERESTART :: errno where "ERESTART \<equiv> 85"

function readdir_loop ::
  "nat \<Rightarrow> nat \<Rightarrow> fuse_dirent list \<Rightarrow> bitbucket_dir_enum_context \<Rightarrow> bb_state \<Rightarrow> (errno \<times> fuse_dirent list \<times> bb_state) option" where
  "readdir_loop bufsize used entries c s =
     (if used + FUSE_NAME_OFFSET < bufsize then do {
        (dirEntry, c, s) \<leftarrow> BitbucketEnumerateDirectory c s;
        if dirEntry = NULL then Some (if used = 0 then ENOENT else 0, entries, s)
        else if ctx_LastError c = ERESTART then do {
          c_assert (used = 0);
          Some (ERESTART, entries, s) }
        else do {
          de \<leftarrow> Dirents s dirEntry;
          i \<leftarrow> Inodes s (de_Inode de);
          let (entrySize, d) = fuse_add_direntry (bufsize - used) (de_Name de) (Attributes i) (ctx_Offset c);
          if entrySize > bufsize - used then Some (0, entries, s)
          else do {
            d \<leftarrow> d;
            readdir_loop bufsize (used + entrySize) (entries @ [d]) c s } } }
      else Some (0, entries, s))"
  by pat_completeness auto
termination
  by (relation "measure (\<lambda>(bufsize, used, entries, c, s). bufsize - used)") (auto simp: fuse_add_direntry_def FUSE_DIRENT_ALIGN_def Let_def)

text \<open>What happens under the lock of the directory.\<close>

definition open_enumeration :: "fuse_req \<Rightarrow> addr \<Rightarrow> u64 \<Rightarrow> bb_state \<Rightarrow> (errno \<times> bitbucket_dir_enum_context option \<times> bb_state) option" where
  "open_enumeration req inode off s = do {
     i \<leftarrow> Inodes s inode;
     if \<not> S_ISDIR (st_mode (Attributes i)) then Some (ENOTDIR, None, s)
     else if \<not> os_malloc (req_os req) then Some (ENOMEM, None, s)
     else do {
       (c, s) \<leftarrow> BitbucketInitalizeDirectoryEnumerationContext inode s;
       (status, c, s) \<leftarrow> (if off \<noteq> 0 then BitbucketSeekDirectory c off s else Some (0, c, s));
       Some (status, if status = 0 then Some c else None, s) } }"

definition bitbucket_internal_readdir :: "fuse_req \<Rightarrow> u64 \<Rightarrow> nat \<Rightarrow> u64 \<Rightarrow> bb_state \<Rightarrow> handled" where
  "bitbucket_internal_readdir req ino bufsize off s =
     (if off = - 1 then Some (0, [reply_buf []], s)
      else do {
        (inode, s) \<leftarrow> get_inode req ino s;
        s \<leftarrow> BitbucketLockInode inode False s;
        (status, c, s) \<leftarrow> open_enumeration req inode off s;
        (status, entries, s) \<leftarrow> (case c of None \<Rightarrow> Some (status, [], s) | Some c \<Rightarrow> readdir_loop bufsize 0 [] c s);
        s \<leftarrow> BitbucketUnlockInode inode s;
        s \<leftarrow> put_inode inode s;
        Some (status, [if status \<noteq> 0 then reply_err status else reply_dirents entries], s) })"

definition bitbucket_readdir where
  "bitbucket_readdir req ino bufsize off = counted 122 (bitbucket_internal_readdir req ino bufsize off)"

section \<open>Readdirplus\<close>

text \<open>An entry that is returned counts as a lookup, unless it is the directory itself or its parent.\<close>

definition reference_entry :: "addr \<Rightarrow> addr \<Rightarrow> bb_state \<Rightarrow> bb_state option" where
  "reference_entry dir inode s = do {
     i \<leftarrow> Inodes s inode;
     p \<leftarrow> Inodes s dir;
     d \<leftarrow> the_directory p;
     if InodeType i \<noteq> BITBUCKET_DIR_TYPE \<or> dir \<noteq> inode \<and> Parent d \<noteq> inode
     then BitbucketReferenceInode inode INODE_FUSE_LOOKUP_REFERENCE s
     else Some s }"

function readdirplus_loop ::
  "fuse_req \<Rightarrow> addr \<Rightarrow> nat \<Rightarrow> nat \<Rightarrow> fuse_dirent list \<Rightarrow> bitbucket_dir_enum_context \<Rightarrow> bb_state \<Rightarrow> (errno \<times> fuse_dirent list \<times> bb_state) option" where
  "readdirplus_loop req inode bufsize used entries c s =
     (if used + FUSE_NAME_OFFSET_DIRENTPLUS < bufsize then do {
        (dirEntry, c, s) \<leftarrow> BitbucketEnumerateDirectory c s;
        if dirEntry = NULL then Some (if used = 0 then ENOENT else 0, entries, s)
        else if ctx_LastError c = ERESTART then do {
          c_assert (used = 0);
          Some (ERESTART, entries, s) }
        else do {
          de \<leftarrow> Dirents s dirEntry;
          i \<leftarrow> Inodes s (de_Inode de);
          let (entrySize, d) = fuse_add_direntry_plus (bufsize - used) (de_Name de) (entry_param req i) (ctx_Offset c);
          if entrySize > bufsize - used then Some (0, entries, s)
          else do {
            d \<leftarrow> d;
            s \<leftarrow> reference_entry inode (de_Inode de) s;
            readdirplus_loop req inode bufsize (used + entrySize) (entries @ [d]) c s } } }
      else Some (0, entries, s))"
  by pat_completeness auto
termination
  by (relation "measure (\<lambda>(req, inode, bufsize, used, entries, c, s). bufsize - used)")
    (auto simp: fuse_add_direntry_plus_def FUSE_DIRENT_ALIGN_def Let_def)

definition bitbucket_internal_readdirplus :: "fuse_req \<Rightarrow> u64 \<Rightarrow> nat \<Rightarrow> u64 \<Rightarrow> bb_state \<Rightarrow> handled" where
  "bitbucket_internal_readdirplus req ino bufsize off s =
     (if off = - 1 then Some (0, [reply_buf []], s)
      else do {
        (inode, s) \<leftarrow> get_inode req ino s;
        s \<leftarrow> BitbucketLockInode inode False s;
        (status, c, s) \<leftarrow> open_enumeration req inode off s;
        (status, entries, s) \<leftarrow>
          (case c of None \<Rightarrow> Some (status, [], s) | Some c \<Rightarrow> readdirplus_loop req inode bufsize 0 [] c s);
        s \<leftarrow> BitbucketUnlockInode inode s;
        s \<leftarrow> put_inode inode s;
        Some (status, [if status \<noteq> 0 then reply_err status else reply_dirents entries], s) })"

definition bitbucket_readdirplus where
  "bitbucket_readdirplus req ino bufsize off = counted 142 (bitbucket_internal_readdirplus req ino bufsize off)"

end
