(* ===== verification/Flock.thy ===== *)
theory Flock
  imports Fuse
begin

text \<open>
  Advisory locks on whole files, \<^verbatim>\<open>src/finesse/bitbucket/flock.c\<close>.  A file keeps the list of the
  locks that are held and the list of the requests that wait.  A handler may also answer
  requests that wait, so its replies are tagged with the request they belong to.
\<close>

section \<open>Unlock\<close>

text \<open>
  The first loop removes the locks of a process from the list of owners.  The variables
  \<^verbatim>\<open>count\<close> and \<^verbatim>\<open>exclusives\<close> are those of the code.
\<close>

fun release_locks ::
  "nat \<Rightarrow> nat \<Rightarrow> nat \<Rightarrow> bitbucket_flock_entry list \<Rightarrow> bitbucket_file \<Rightarrow> (nat \<times> nat \<times> bitbucket_flock_entry list \<times> bitbucket_file) option" where
  "release_locks pid count exclusives [] f = Some (count, exclusives, [], f)"
| "release_locks pid count exclusives (fe # es) f =
     (if flock_OwnerPid fe = pid then do {
        c_assert (exclusives < 2);
        let count = Suc count;
        if flock_Exclusive fe then do {
          c_assert (Writers f = 1);
          release_locks pid count (Suc exclusives) es (f\<lparr>Writers := Writers f - 1\<rparr>) }
        else do {
          c_assert (Readers f \<ge> word_of_nat count);
          release_locks pid count exclusives es (f\<lparr>Readers := Readers f - 1\<rparr>) } }
      else do {
        (count, exclusives, kept, f) \<leftarrow> release_locks pid count exclusives es f;
        Some (count, exclusives, fe # kept, f) })"

text \<open>
  The second loop answers the waiting readers at the head of the list.  It looks at the entry
  after the last one as well, which is not an entry.
\<close>

fun grant_readers :: "bitbucket_flock_entry list \<Rightarrow> bitbucket_file \<Rightarrow> ((nat \<times> fuse_reply) list \<times> bitbucket_file) option" where
  "grant_readers [] f = None"
| "grant_readers (fe # es) f =
     (if flock_Exclusive fe then Some ([], f\<lparr>LockWaitersList := fe # es\<rparr>)
      else do {
        r \<leftarrow> flock_Req fe;
        (replies, f) \<leftarrow> grant_readers es (f\<lparr>Readers := Readers f + 1, WaitingReaders := WaitingReaders f - 1\<rparr>);
        Some ((r, reply_err 0) # replies, f) })"

definition grant_waiters :: "bitbucket_file \<Rightarrow> (errno \<times> (nat \<times> fuse_reply) list \<times> bitbucket_file) option" where
  "grant_waiters f = (case LockWaitersList f of
       [] \<Rightarrow> None
     | fe # es \<Rightarrow>
         if flock_Exclusive fe then
           (if Readers f + Writers f > 0 then Some (0, [], f)
            else do {
              r \<leftarrow> flock_Req fe;
              Some (0, [(r, reply_err 0)],
                f\<lparr>Writers := Writers f + 1, WaitingWriters := WaitingWriters f - 1, LockWaitersList := es\<rparr>) })
         else do {
           c_assert (Writers f = 0);
           (replies, f) \<leftarrow> grant_readers (fe # es) f;
           c_assert (Readers f + Writers f \<noteq> 0 \<or> WaitingReaders f = 0 \<and> WaitingWriters f = 0);
           Some (0, replies, f) })"

definition bitbucket_flock_unlock :: "nat \<Rightarrow> bitbucket_file \<Rightarrow> (errno \<times> (nat \<times> fuse_reply) list \<times> bitbucket_file) option" where
  "bitbucket_flock_unlock pid f = do {
     (count, exclusives, owners, f) \<leftarrow> release_locks pid 0 0 (LockOwnersList f) f;
     let f = f\<lparr>LockOwnersList := owners\<rparr>;
     c_assert (count > 0);
     c_assert (exclusives = 0 \<or> Readers f = 0 \<and> Writers f = 0);
     if WaitingReaders f = 0 \<and> WaitingWriters f = 0 then Some (0, [], f)
     else grant_waiters f }"

section \<open>Lock\<close>

abbreviation (input) LOCK_SH :: nat where "LOCK_SH \<equiv> 1"
abbreviation (input) LOCK_EX :: nat where "LOCK_EX \<equiv> 2"
abbreviation (input) LOCK_NB_SH :: nat where "LOCK_NB_SH \<equiv> 5"
abbreviation (input) LOCK_NB_EX :: nat where "LOCK_NB_EX \<equiv> 6"
abbreviation (input) LOCK_UN :: nat where "LOCK_UN \<equiv> 8"

definition add_owner :: "bitbucket_flock_entry \<Rightarrow> bitbucket_file \<Rightarrow> bitbucket_file" where
  "add_owner fe f = f\<lparr>LockOwnersList := LockOwnersList f @ [fe\<lparr>flock_Req := None\<rparr>]\<rparr>"

definition add_waiter :: "bitbucket_flock_entry \<Rightarrow> bitbucket_file \<Rightarrow> bitbucket_file" where
  "add_waiter fe f = f\<lparr>LockWaitersList := LockWaitersList f @ [fe]\<rparr>"

text \<open>
  The switch over the operation.  The status of a shared lock without waiting is overwritten by
  zero; a waiting writer is not counted.
\<close>

definition flock_switch :: "fuse_req \<Rightarrow> nat \<Rightarrow> bitbucket_file \<Rightarrow> (errno \<times> (nat \<times> fuse_reply) list \<times> bitbucket_file) option" where
  "flock_switch req op f =
     (let fe = \<lparr>flock_Req = Some (req_id req), flock_OwnerPid = req_pid req, flock_Exclusive = False\<rparr>;
          fx = fe\<lparr>flock_Exclusive := True\<rparr> in
      if op = LOCK_SH then
        (if Writers f > 0 \<or> WaitingWriters f > 0
         then Some (0, [], add_waiter fe (f\<lparr>WaitingReaders := WaitingReaders f + 1\<rparr>))
         else Some (0, [], add_owner fe (f\<lparr>Readers := Readers f + 1\<rparr>)))
      else if op = LOCK_NB_SH then
        (if Writers f > 0 \<or> WaitingWriters f > 0 then Some (0, [], f)
         else Some (0, [], add_owner fe (f\<lparr>Readers := Readers f + 1\<rparr>)))
      else if op = LOCK_EX then
        (if Writers f > 0 \<or> WaitingWriters f > 0 \<or> WaitingReaders f > 0 then Some (0, [], add_waiter fx f)
         else Some (0, [], add_owner fx (f\<lparr>Writers := Writers f + 1\<rparr>)))
      else if op = LOCK_NB_EX then
        (if Writers f > 0 \<or> Readers f > 0 then Some (0, [], add_waiter fx f)
         else do {
           c_assert (LockWaitersList f = []);
           Some (0, [], add_owner fx (f\<lparr>Writers := Writers f + 1\<rparr>)) })
      else if op = LOCK_UN then bitbucket_flock_unlock (req_pid req) f
      else Some (EINVAL, [], f))"

definition bitbucket_internal_flock ::
  "fuse_req \<Rightarrow> u64 \<Rightarrow> nat \<Rightarrow> bb_state \<Rightarrow> (errno \<times> (nat \<times> fuse_reply) list \<times> bb_state) option" where
  "bitbucket_internal_flock req ino op s = do {
     (inode, s) \<leftarrow> get_inode req ino s;
     (status, replies, s) \<leftarrow>
       (if inode = NULL then Some (EBADF, [], s)
        else do {
          i \<leftarrow> Inodes s inode;
          if InodeType i \<noteq> BITBUCKET_FILE_TYPE then Some (EINVAL, [], s)
          else if op \<noteq> LOCK_UN \<and> \<not> os_malloc (req_os req) then Some (ENOMEM, [], s)
          else do {
            s \<leftarrow> BitbucketLockInode inode True s;
            i \<leftarrow> Inodes s inode;
            f \<leftarrow> the_file i;
            (status, replies, f) \<leftarrow> flock_switch req op f;
            s \<leftarrow> BitbucketUnlockInode inode (set_file inode i f (Attributes i) s);
            Some (status, replies, s) } });
     s \<leftarrow> put_inode inode s;
     Some (status, replies @ [(req_id req, reply_err status)], s) }"

definition bitbucket_flock ::
  "fuse_req \<Rightarrow> u64 \<Rightarrow> nat \<Rightarrow> call_table \<times> bb_state \<Rightarrow> ((nat \<times> fuse_reply) list \<times> call_table \<times> bb_state) option" where
  "bitbucket_flock req ino op = (\<lambda>(tab, s). do {
     let (start, s) = clock_gettime s;
     (status, replies, s) \<leftarrow> bitbucket_internal_flock req ino op s;
     let (stop, s) = clock_gettime s;
     elapsed \<leftarrow> timespec_diff start stop;
     tab \<leftarrow> BitbucketCountCall 140 (if status \<noteq> 0 then 0 else 1) elapsed tab;
     Some (replies, tab, s) })"

section \<open>Cleanup\<close>

fun cleanup_waiters :: "bitbucket_flock_entry list \<Rightarrow> bitbucket_file \<Rightarrow> ((nat \<times> fuse_reply) list \<times> bitbucket_file) option" where
  "cleanup_waiters [] f = Some ([], f\<lparr>LockWaitersList := []\<rparr>)"
| "cleanup_waiters (fe # es) f = do {
     r \<leftarrow> flock_Req fe;
     f \<leftarrow> (if flock_Exclusive fe then do {
             c_assert (WaitingWriters f > 0);
             Some (f\<lparr>WaitingWriters := WaitingWriters f - 1\<rparr>) }
           else do {
             c_assert (WaitingReaders f > 0);
             Some (f\<lparr>WaitingReaders := WaitingReaders f - 1\<rparr>) });
     (replies, f) \<leftarrow> cleanup_waiters es f;
     Some ((r, reply_err EBADF) # replies, f) }"

definition bitbucket_cleanup_flock :: "addr \<Rightarrow> bb_state \<Rightarrow> ((nat \<times> fuse_reply) list \<times> bb_state) option" where
  "bitbucket_cleanup_flock inode s = do {
     c_assert (inode \<noteq> NULL);
     i \<leftarrow> Inodes s inode;
     if InodeType i = BITBUCKET_FILE_TYPE then do {
       s \<leftarrow> BitbucketLockInode inode True s;
       i \<leftarrow> Inodes s inode;
       f \<leftarrow> the_file i;
       (replies, f) \<leftarrow> cleanup_waiters (LockWaitersList f) f;
       c_assert (LockOwnersList f = []);
       s \<leftarrow> BitbucketUnlockInode inode (set_file inode i f (Attributes i) s);
       Some (replies, s) }
     else Some ([], s) }"

end
