(* ===== verification/Forget.thy ===== *)
theory Forget
  imports Fuse
begin

text \<open>
  Forgetting inodes, \<^verbatim>\<open>src/finesse/bitbucket/forget.c\<close>: the handlers for one and for many
  numbers, and the background thread that works through a queue of them.
\<close>

abbreviation (input) BACKGROUND_FORGET_COUNT_MAX :: nat where "BACKGROUND_FORGET_COUNT_MAX \<equiv> 64"

type_synonym background_forget_work = "(u64 \<times> u64) list"

record background =
  background_thread_started :: bool
  background_thread_shutdown :: bool
  background_cleanup_queue :: "background_forget_work list"

definition background_forget :: "u64 \<Rightarrow> u64 \<Rightarrow> bb_state \<Rightarrow> bb_state option" where
  "background_forget ino nlookup s = do {
     (inode, s) \<leftarrow> BitbucketLookupInodeInTable ino s;
     if inode \<noteq> NULL then do {
       s \<leftarrow> BitbucketDereferenceInode inode INODE_FUSE_LOOKUP_REFERENCE nlookup s;
       BitbucketDereferenceInode inode INODE_LOOKUP_REFERENCE 1 s }
     else Some s }"

fun forget_all :: "background_forget_work \<Rightarrow> bb_state \<Rightarrow> bb_state option" where
  "forget_all [] s = Some s"
| "forget_all ((ino, nlookup) # work) s = do {
     s \<leftarrow> background_forget ino nlookup s;
     forget_all work s }"

text \<open>
  One round of the thread: nothing when the queue is empty, as the thread then waits, or after
  the shutdown.
\<close>

definition background_forget_worker :: "background \<times> bb_state \<Rightarrow> (background \<times> bb_state) option" where
  "background_forget_worker = (\<lambda>(b, s).
     if background_thread_shutdown b then Some (b, s)
     else (case background_cleanup_queue b of
         [] \<Rightarrow> Some (b, s)
       | work # rest \<Rightarrow> do {
           s \<leftarrow> forget_all work s;
           Some (b\<lparr>background_cleanup_queue := rest\<rparr>, s) }))"

definition background_forget_startup :: "background \<Rightarrow> background" where
  "background_forget_startup b = b\<lparr>background_thread_started := True\<rparr>"

definition enqueue_work :: "background_forget_work \<Rightarrow> background \<Rightarrow> background" where
  "enqueue_work work b = b\<lparr>background_cleanup_queue := background_cleanup_queue b @ [work]\<rparr>"

definition bitbucket_internal_forget ::
  "fuse_req \<Rightarrow> u64 \<Rightarrow> u64 \<Rightarrow> background \<times> bb_state \<Rightarrow> (errno \<times> fuse_reply list \<times> background \<times> bb_state) option" where
  "bitbucket_internal_forget req ino nlookup = (\<lambda>(b, s).
     if BackgroundForget (userdata req) = 0 then do {
       s \<leftarrow> background_forget ino nlookup s;
       Some (0, [reply_none], b, s) }
     else do {
       let b = (if background_thread_started b then b else background_forget_startup b);
       if \<not> os_malloc (req_os req) then do {
         s \<leftarrow> background_forget ino nlookup s;
         Some (0, [reply_none], b, s) }
       else Some (0, [reply_none], enqueue_work [(ino, nlookup)] b, s) })"

definition bitbucket_internal_forget_multi ::
  "fuse_req \<Rightarrow> background_forget_work \<Rightarrow> background \<times> bb_state \<Rightarrow> (errno \<times> fuse_reply list \<times> background \<times> bb_state) option" where
  "bitbucket_internal_forget_multi req forgets = (\<lambda>(b, s). do {
     let b = (if BackgroundForget (userdata req) = 1 \<and> \<not> background_thread_started b then background_forget_startup b else b);
     if BackgroundForget (userdata req) = 1 \<and> length forgets \<le> BACKGROUND_FORGET_COUNT_MAX \<and> os_malloc (req_os req)
     then Some (0, [reply_none], enqueue_work forgets b, s)
     else do {
       s \<leftarrow> forget_all forgets s;
       Some (0, [reply_none], b, s) } })"

text \<open>The bookkeeping around the two handlers.\<close>

definition counted_forget ::
  "nat \<Rightarrow> (background \<times> bb_state \<Rightarrow> (errno \<times> fuse_reply list \<times> background \<times> bb_state) option)
     \<Rightarrow> call_table \<times> background \<times> bb_state \<Rightarrow> (fuse_reply list \<times> call_table \<times> background \<times> bb_state) option" where
  "counted_forget call internal = (\<lambda>(tab, b, s). do {
     let (start, s) = clock_gettime s;
     (status, replies, b, s) \<leftarrow> internal (b, s);
     let (stop, s) = clock_gettime s;
     elapsed \<leftarrow> timespec_diff start stop;
     tab \<leftarrow> BitbucketCountCall call (if status \<noteq> 0 then 0 else 1) elapsed tab;
     Some (replies, tab, b, s) })"

definition bitbucket_forget where
  "bitbucket_forget req ino nlookup = counted_forget 104 (bitbucket_internal_forget req ino nlookup)"

definition bitbucket_forget_multi where
  "bitbucket_forget_multi req forgets = counted_forget 139 (bitbucket_internal_forget_multi req forgets)"

end
