(* ===== verification/Mount.thy ===== *)
theory Mount
  imports Fuse
begin

text \<open>
  Mounting and unmounting, \<^verbatim>\<open>src/finesse/bitbucket/init.c\<close>: the inode table, the root directory and
  the directories with fixed names.  Writing the statistics to the log is left out.
\<close>

definition BitbucketMagicNames :: "string list" where
  "BitbucketMagicNames =
     [''Bitbucket'', ''Size'', ''Name'', ''Creation'', ''Uuid'', ''Unused10'', ''Unused9'', ''Unused8'',
      ''Unused7'', ''Unused6'', ''Unused5'', ''Unused4'', ''Unused3'', ''Unused2'', ''Unused1'', ''Unused0'']"

definition is_unused :: "string \<Rightarrow> bool" where
  "is_unused name \<longleftrightarrow> take 6 name = ''Unused''"

definition create_magic :: "addr \<Rightarrow> string \<Rightarrow> bb_state \<Rightarrow> (addr \<times> bb_state) option" where
  "create_magic parent name s = do {
     (inode, s) \<leftarrow> BitbucketCreateDirectory parent name s;
     c_assert (inode \<noteq> NULL);
     s \<leftarrow> set_attributes inode (\<lambda>attr. attr\<lparr>st_mode := st_mode attr AND NOT 0x92\<rparr>) s;
     Some (inode, s) }"

fun create_magics :: "addr \<Rightarrow> (nat \<times> string) list \<Rightarrow> bb_state \<Rightarrow> ((nat \<times> addr) list \<times> bb_state) option" where
  "create_magics parent [] s = Some ([], s)"
| "create_magics parent ((index, name) # names) s =
     (if is_unused name then create_magics parent names s
      else do {
        (inode, s) \<leftarrow> create_magic parent name s;
        (rest, s) \<leftarrow> create_magics parent names s;
        Some ((index, inode) # rest, s) })"

text \<open>
  The capabilities the code asks for in the connection are not used by it; the user data
  are returned updated.  The counters that a fresh inode table leaves uninitialised are an argument.
\<close>

definition bitbucket_internal_init ::
  "(nat \<Rightarrow> u64 \<times> u64 \<times> u64) \<Rightarrow> bitbucket_userdata \<Rightarrow> call_table \<Rightarrow> bb_state \<Rightarrow> (bitbucket_userdata \<times> call_table \<times> bb_state) option" where
  "bitbucket_internal_init junk ud tab s = do {
     table \<leftarrow> BitbucketCreateInodeTable junk (InodeTableSize ud) 0;
     let s = s\<lparr>InodeTable := table\<rparr>;
     (root, s) \<leftarrow> BitbucketCreateRootDirectory s;
     c_assert (root \<noteq> NULL);
     (magic, s) \<leftarrow> create_magic root (BitbucketMagicNames ! 0) s;
     (rest, s) \<leftarrow> create_magics magic (tl (enumerate 0 BitbucketMagicNames)) s;
     tab \<leftarrow> BitbucketInitializeCallStatistics tab;
     let s = (if VerifyDirectories ud then BitbucketEnableDirectoryVerification s else s);
     Some (ud\<lparr>RootDirectory := root, BitbucketMagicDirectories := (0, magic) # rest\<rparr>, tab, s) }"

text \<open>The status of the deletion is not looked at.\<close>

fun delete_magics :: "addr list \<Rightarrow> bb_state \<Rightarrow> bb_state option" where
  "delete_magics [] s = Some s"
| "delete_magics (inode # inodes) s = do {
     (status, s) \<leftarrow> BitbucketDeleteDirectory inode s;
     s \<leftarrow> BitbucketDereferenceInode inode INODE_LOOKUP_REFERENCE 1 s;
     delete_magics inodes s }"

definition bitbucket_internal_destroy :: "bitbucket_userdata \<Rightarrow> bb_state \<Rightarrow> (bitbucket_userdata \<times> bb_state) option" where
  "bitbucket_internal_destroy ud s = do {
     s \<leftarrow> delete_magics (map snd (rev (BitbucketMagicDirectories ud))) s;
     Some (ud\<lparr>BitbucketMagicDirectories := []\<rparr>, s) }"

text \<open>Both are counted as calls of \<^verbatim>\<open>init\<close>.\<close>

definition count_mount :: "timespec \<Rightarrow> bb_state \<Rightarrow> call_table \<Rightarrow> (call_table \<times> bb_state) option" where
  "count_mount start s tab = do {
     let (stop, s) = clock_gettime s;
     elapsed \<leftarrow> timespec_diff start stop;
     tab \<leftarrow> BitbucketCountCall 101 1 elapsed tab;
     Some (tab, s) }"

definition bitbucket_init ::
  "(nat \<Rightarrow> u64 \<times> u64 \<times> u64) \<Rightarrow> bitbucket_userdata \<Rightarrow> call_table \<Rightarrow> bb_state \<Rightarrow> (bitbucket_userdata \<times> call_table \<times> bb_state) option" where
  "bitbucket_init junk ud tab s = do {
     let (start, s) = clock_gettime s;
     (ud, tab, s) \<leftarrow> bitbucket_internal_init junk ud tab s;
     (tab, s) \<leftarrow> count_mount start s tab;
     Some (ud, tab, s) }"

definition bitbucket_destroy :: "bitbucket_userdata \<Rightarrow> call_table \<Rightarrow> bb_state \<Rightarrow> (bitbucket_userdata \<times> call_table \<times> bb_state) option" where
  "bitbucket_destroy ud tab s = do {
     let (start, s) = clock_gettime s;
     (ud, s) \<leftarrow> bitbucket_internal_destroy ud s;
     (tab, s) \<leftarrow> count_mount start s tab;
     Some (ud, tab, s) }"

end
