(* ===== verification/FsView.thy ===== *)
theory FsView
  imports DirCreate HandlersName HandlersFile HandlersAttr HandlersDir Forget
begin

text \<open>
  What a client of the bitbucket file system can see: which names a directory has, how many
  references of each kind an inode has, and which number it has.  Taking and dropping
  references are simple updates of this view; an inode without references is gone.  The
  lemmas of this theory relate the operations of the code to these updates; the proofs
  about the request handlers use nothing else.
\<close>

section \<open>The view\<close>

record fs =
  names :: "addr \<Rightarrow> string \<Rightarrow> addr option"
  refs :: "addr \<Rightarrow> nat \<Rightarrow> nat"
  inos :: "addr \<Rightarrow> u64 option"
  kinds :: "addr \<Rightarrow> registered option"
  nums :: inode_numbers

definition fs_of :: "bb_state \<Rightarrow> fs" where
  "fs_of s = \<lparr>names = dir_map s, refs = (\<lambda>a r. if Inodes s a = None \<or> 12 \<le> r then 0 else reason_count s a r), inos = ino_of s,
     kinds = kind_of s, nums = InodeNumbers s\<rparr>"

definition ref_add :: "nat \<Rightarrow> addr \<Rightarrow> fs \<Rightarrow> fs" where
  "ref_add r a A = A\<lparr>refs := (refs A)(a := (refs A a)(r := refs A a r + 1))\<rparr>"

definition ref_sub :: "nat \<Rightarrow> nat \<Rightarrow> addr \<Rightarrow> fs \<Rightarrow> fs" where
  "ref_sub r n a A =
     (let c = (refs A a)(r := refs A a r - n) in
      if \<forall>q<12. c q = 0 then A\<lparr>refs := (refs A)(a := c), names := (names A)(a := Map.empty), inos := (inos A)(a := None), kinds := (kinds A)(a := None)\<rparr>
      else A\<lparr>refs := (refs A)(a := c)\<rparr>)"

text \<open>An inode that exists has a reference.\<close>

definition held :: "fs \<Rightarrow> bool" where
  "held A \<longleftrightarrow> (\<forall>a. inos A a \<noteq> None \<longrightarrow> (\<exists>q<12. 0 < refs A a q))"

definition roomy :: "nat \<Rightarrow> fs \<Rightarrow> bool" where
  "roomy k A \<longleftrightarrow> (\<forall>a r. refs A a r + k < 2 ^ 32)"

lemma ref_add_simps [simp]:
  "names (ref_add r a A) = names A" "inos (ref_add r a A) = inos A" "kinds (ref_add r a A) = kinds A" "nums (ref_add r a A) = nums A"
  "refs (ref_add r a A) b q = refs A b q + (if b = a \<and> q = r then 1 else 0)"
  by (simp_all add: ref_add_def)

lemma ref_sub_refs [simp]:
  "refs (ref_sub r n a A) b q = refs A b q - (if b = a \<and> q = r then n else 0)" "nums (ref_sub r n a A) = nums A"
  by (simp_all add: ref_sub_def Let_def)

lemma ref_sub_kept:
  "\<exists>q<12. 0 < ((refs A a)(r := refs A a r - n)) q \<Longrightarrow>
   names (ref_sub r n a A) = names A \<and> inos (ref_sub r n a A) = inos A \<and> kinds (ref_sub r n a A) = kinds A"
proof -
  assume "\<exists>q<12. 0 < ((refs A a)(r := refs A a r - n)) q"
  then have "\<not> (\<forall>q<12. ((refs A a)(r := refs A a r - n)) q = 0)"
    by (metis less_irrefl)
  then show ?thesis
    unfolding ref_sub_def Let_def by (simp only: if_False) simp
qed

lemma fs_eqI:
  assumes "names A = names B" "\<And>a r. refs A a r = refs B a r" "inos A = inos B" "kinds A = kinds B" "nums A = nums B"
  shows "A = (B :: fs)"
  using assms by (cases A; cases B) (simp add: fun_eq_iff)

lemma ref_sub_add:
  assumes "inos A a \<noteq> None" "held A"
  shows "ref_sub r 1 a (ref_add r a A) = A"
proof -
  obtain q where "q < 12" "0 < refs A a q"
    using assms by (auto simp: held_def)
  then have "names (ref_sub r 1 a (ref_add r a A)) = names (ref_add r a A) \<and> inos (ref_sub r 1 a (ref_add r a A)) = inos (ref_add r a A)
      \<and> kinds (ref_sub r 1 a (ref_add r a A)) = kinds (ref_add r a A)"
    by (intro ref_sub_kept) auto
  then show ?thesis
    by (intro fs_eqI) simp_all
qed

lemma ref_add_commute: "ref_add r a (ref_add q b A) = ref_add q b (ref_add r a A)"
  by (rule fs_eqI) simp_all

text \<open>A reference that is taken before and dropped after another one is dropped.\<close>

lemma ref_sub_order:
  assumes "r < 12" "r \<noteq> 0"
  shows "ref_sub 0 1 a (ref_sub r n a (ref_add 0 a A)) = ref_sub r n a A"
proof -
  have k: "names (ref_sub r n a (ref_add 0 a A)) = names A \<and> inos (ref_sub r n a (ref_add 0 a A)) = inos A
      \<and> kinds (ref_sub r n a (ref_add 0 a A)) = kinds A"
    using ref_sub_kept [of "ref_add 0 a A" a r n] assms by force
  let ?B = "ref_sub r n a (ref_add 0 a A)"
  have c: "(refs ?B a)(0 := refs ?B a 0 - 1) = (refs A a)(r := refs A a r - n)"
    using assms by (auto simp: fun_eq_iff)
  have e: "?B = A\<lparr>refs := (refs A)(a := refs ?B a)\<rparr>"
    using k by (intro fs_eqI) simp_all
  show ?thesis
    using k c unfolding ref_sub_def [of 0 1 a ?B] ref_sub_def [of r n a A] Let_def
    by (intro fs_eqI) (auto simp: fun_eq_iff)
qed

lemma roomy_add [simp]: "roomy (Suc k) A \<Longrightarrow> roomy k (ref_add r a A)"
proof -
  assume "roomy (Suc k) A"
  then have "refs A b q + Suc k < 2 ^ 32" for b q
    by (simp add: roomy_def)
  then have "refs (ref_add r a A) b q + k < 2 ^ 32" for b q
    by (cases "b = a \<and> q = r") (simp_all add: Suc_lessD)
  then show ?thesis
    by (simp add: roomy_def)
qed

lemma roomy_mono: "roomy n A \<Longrightarrow> k \<le> n \<Longrightarrow> roomy k A"
  unfolding roomy_def by (blast intro: le_less_trans [OF add_left_mono])

lemma roomy_sub [simp]: "roomy k A \<Longrightarrow> roomy k (ref_sub r n a A)"
  unfolding roomy_def ref_sub_refs by (blast intro: le_less_trans [OF add_right_mono [OF diff_le_self]])

lemma held_add [simp]: "held A \<Longrightarrow> held (ref_add r a A)"
  unfolding held_def ref_add_simps by (meson add_gr_0)

section \<open>States between requests\<close>

text \<open>Every directory has itself as an entry, unless it is empty and detached.\<close>

definition dots_ok :: "bb_state \<Rightarrow> bool" where
  "dots_ok s \<longleftrightarrow> (\<forall>a. dirs s a \<noteq> None \<longrightarrow> dir_map s a ''.'' = Some a \<or> childless s a)"

text \<open>
  Universally unique identifiers are different and have no slash.  A storage file is named
  by the identifier of its inode, so the names that are still to come are free.
\<close>

definition uuids_ok :: "environment \<Rightarrow> bool" where
  "uuids_ok env \<longleftrightarrow> inj (Uuid env) \<and> (\<forall>k. CHR ''/'' \<notin> set (Uuid env k))"

definition stored_ok :: "bb_state \<Rightarrow> bool" where
  "stored_ok s \<longleftrightarrow> uuids_ok (Environment s) \<and> (\<forall>dir k. Tick s \<le> k \<longrightarrow> Storage s (storage_name dir (Uuid (Environment s) k)) = None)"

lemma stored_step:
  assumes "stored_ok s" "Environment t = Environment s" "Tick s \<le> Tick t" "\<And>n. Storage s n = None \<Longrightarrow> Storage t n = None"
  shows "stored_ok t"
  using assms unfolding stored_ok_def by auto

definition fs_ok :: "addr \<Rightarrow> bb_state \<Rightarrow> bool" where
  "fs_ok root s \<longleftrightarrow> fs_inv s \<and> idle s \<and> dots_ok s \<and> dirs s root \<noteq> None \<and> 0 < refs (fs_of s) root INODE_LOOKUP_REFERENCE
     \<and> stored_ok s"

lemma fs_okD:
  assumes "fs_ok root s"
  shows "fs_inv s" "idle s" "dots_ok s" "dirs s root \<noteq> None" "0 < refs (fs_of s) root 0" "Inodes s root \<noteq> None" "stored_ok s"
  using assms by (cases "Inodes s root"; simp add: fs_ok_def dirs_def)+

lemma fs_of_touch:
  assumes "touch s t"
  shows "fs_of t = fs_of s"
  using touch_dir_map [OF assms] frame_rest(1) [OF touch_frame [OF assms]] touchD(1) [OF assms] touch_None [OF assms]
  by (simp add: fs_of_def reason_count_def rest_def fun_eq_iff)

lemma fs_ok_touch:
  assumes "fs_ok root s" "touch s t" "lock_of t = lock_of s"
  shows "fs_ok root t" "fs_of t = fs_of s"
  using assms fs_inv_touch [OF _ assms(2)] touch_dirs [OF assms(2)] touch_dir_map [OF assms(2)] fs_of_touch [OF assms(2)]
    stored_step [of s t] touchD(8,10,13) [OF assms(2)]
  by (auto simp: fs_ok_def dots_ok_def childless_def idle_lock_of)

lemma stored_header [simp]: "stored_ok (set_header a h s) = stored_ok s"
  by (simp add: stored_ok_def set_header_def)

lemma rest_header [simp]: "rest (set_header a h s) = rest s" "kind_of (set_header a h s) = kind_of s" "InodeNumbers (set_header a h s) = InodeNumbers s"
  by (simp_all add: rest_def ino_of_def kind_of_def set_header_def fun_eq_iff)

lemma inos_live: "inos (fs_of s) a = None \<longleftrightarrow> Inodes s a = None"
  by (auto simp: fs_of_def ino_of_def)

lemma held_fs:
  assumes "fs_inv s"
  shows "held (fs_of s)"
  unfolding held_def
proof (intro allI impI)
  fix a
  assume "inos (fs_of s) a \<noteq> None"
  then obtain i where i: "Inodes s a = Some i"
    by (auto simp: inos_live)
  with assms obtain h where h: "Objects s a = Some h" "header_ok h"
    by (rule fs_inv_inode)
  then have "sum_list (map unat (ReferenceReasons h)) \<noteq> 0" "length (ReferenceReasons h) = 12"
    by (simp_all only: header_ok_def unat_eq_zero, metis unat_0_iff)
  then obtain q where "q < 12" "unat (ReferenceReasons h ! q) \<noteq> 0"
    by (auto simp: sum_list_eq_0_iff in_set_conv_nth)
  then show "\<exists>q<12. 0 < refs (fs_of s) a q"
    using i h(1) by (intro exI [of _ q]) (simp add: fs_of_def reason_count_def)
qed

lemma refs_room:
  assumes "roomy (Suc k) (fs_of s)" "Inodes s a \<noteq> None" "r < 12"
  shows "room s a r"
proof -
  have "refs (fs_of s) a r + Suc k < 2 ^ 32"
    using assms(1) by (simp add: roomy_def)
  then show ?thesis
    using assms(2,3) by (simp add: room_def fs_of_def)
qed

section \<open>Taking and dropping references\<close>

lemma fs_of_add:
  assumes "fs_inv s" "Inodes s a = Some i" "Objects s a = Some h" "r < 12" "room s a r"
  shows "fs_of (set_header a (add_reference r h) s) = ref_add r a (fs_of s)"
proof -
  have "header_ok h"
    using fs_invD(5) [OF assms(1,2)] assms(3) by (auto simp: inode_ok_def)
  note c = add_reference_counts(1) [OF this assms(4) room_header [OF assms(5,3)]]
  have "dir_map (set_header a (add_reference r h) s) = dir_map s" "ino_of (set_header a (add_reference r h) s) = ino_of s"
    by (simp_all add: dir_map_def ino_of_def fun_eq_iff)
  then show ?thesis
    using c assms(2,3,4) by (intro fs_eqI) (simp_all add: fs_of_def reason_count_set_header, simp add: reason_count_def)
qed

lemma fs_ok_add:
  assumes ok: "fs_ok root s" and a: "Inodes s a \<noteq> None" and r: "r < 12" "r \<noteq> 1" "r \<noteq> 2" and room: "roomy (Suc k) (fs_of s)"
  shows "\<exists>t. BitbucketReferenceInode a r s = Some t \<and> fs_ok root t \<and> fs_of t = ref_add r a (fs_of s) \<and> dirs t = dirs s \<and> Inodes t = Inodes s"
proof -
  note s = fs_okD [OF ok]
  obtain i where i: "Inodes s a = Some i"
    using a by blast
  obtain h where h: "Objects s a = Some h" "header_ok h" "inode_ready a s"
    using s(1) i by (rule fs_inv_inode)
  have rm: "room s a r"
    using room a r(1) by (rule refs_room)
  let ?t = "set_header a (add_reference r h) s"
  have "fs_of ?t = ref_add r a (fs_of s)"
    by (rule fs_of_add [OF s(1) i h(1) r(1) rm])
  moreover from this have "dir_map ?t = dir_map s"
    by (simp add: dir_map_def fun_eq_iff)
  moreover have "fs_inv ?t"
    by (rule fs_inv_add [OF s(1) h(1) r rm])
  ultimately have "fs_ok root ?t"
    using s by (simp add: fs_ok_def idle_lock_of dots_ok_def childless_def)
  with \<open>fs_of ?t = ref_add r a (fs_of s)\<close> show ?thesis
    using reference_inode [OF h(3,1,2) r(1)] by auto
qed


lemma reason_zero:
  assumes "header_ok h" "ReferenceCount h = 1" "ReferenceReasons h ! r \<noteq> 0" "r < 12" "q < 12"
  shows "unat (ReferenceReasons h ! q) = (if q = r then 1 else 0)"
  using header_one [OF assms(1,2,4,3)] assms(5) by auto

lemma ref_sub_last:
  assumes "\<And>q. q < 12 \<Longrightarrow> refs A a q = (if q = r then 1 else 0)" "\<And>q. 12 \<le> q \<Longrightarrow> refs A a q = 0"
  shows "ref_sub r 1 a A = A\<lparr>names := (names A)(a := Map.empty), refs := (refs A)(a := \<lambda>_. 0), inos := (inos A)(a := None),
      kinds := (kinds A)(a := None)\<rparr>"
proof -
  have "(refs A a)(r := refs A a r - 1) = (\<lambda>_. 0)"
  proof
    fix q
    show "((refs A a)(r := refs A a r - 1)) q = 0"
      using assms(1,2) [of q] assms(1,2) [of r] by (cases "q < 12"; cases "r < 12") auto
  qed
  then show ?thesis
    by (simp add: ref_sub_def)
qed

lemma fs_of_dropped:
  assumes inv: "fs_inv s" and i: "Inodes s a = Some i" and r: "r < 12" "0 < reason_count s a r"
  shows "fs_of (dropped r a s) = ref_sub r 1 a (fs_of s)"
proof -
  obtain h where h: "Objects s a = Some h" "header_ok h"
    using inv i by (rule fs_inv_inode)
  have nz: "ReferenceReasons h ! r \<noteq> 0"
    using r(2) h(1) by (auto simp: reason_count_def)
  show ?thesis
  proof (cases "ReferenceCount h = 1")
    case True
    have "refs (fs_of s) a q = (if q = r then 1 else 0)" if "q < 12" for q
      using reason_zero [OF h(2) True nz r(1) that] i h(1) that by (simp add: fs_of_def reason_count_def)
    then have "ref_sub r 1 a (fs_of s) = (fs_of s)\<lparr>names := (names (fs_of s))(a := Map.empty), refs := (refs (fs_of s))(a := \<lambda>_. 0),
      inos := (inos (fs_of s))(a := None), kinds := (kinds (fs_of s))(a := None)\<rparr>"
      by (intro ref_sub_last) (simp_all add: fs_of_def)
    moreover have "dir_map (freed a s) = (dir_map s)(a := Map.empty)" "rest (freed a s) = without a (rest s)"
      using freed_rest(1) [OF i] by (auto simp: dir_map_def freed_views [OF i] fun_eq_iff)
    ultimately show ?thesis
      using True h(1) by (intro fs_eqI) (simp_all add: dropped_def fs_of_def reason_count_def freed_views [OF i] rest_def without_def)
  next
    case False
    note c = drop_reference_counts(1) [OF h(2) r(1) nz]
    have "\<exists>q<12. 0 < ((refs (fs_of s) a)(r := refs (fs_of s) a r - 1)) q"
    proof -
      have "header_ok (drop_reference r h)"
        by (rule header_ok_drop [OF h(2) r(1) nz False])
      then have "sum_list (map unat (ReferenceReasons (drop_reference r h))) \<noteq> 0" "length (ReferenceReasons (drop_reference r h)) = 12"
        by (simp_all only: header_ok_def unat_eq_zero, metis unat_0_iff)
      then obtain q where "q < 12" "unat (ReferenceReasons (drop_reference r h) ! q) \<noteq> 0"
        by (auto simp: sum_list_eq_0_iff in_set_conv_nth)
      then show ?thesis
        using c [of q] i h(1) r(1) by (intro exI [of _ q]) (auto simp: fs_of_def reason_count_def)
    qed
    note k = ref_sub_kept [OF this]
    have "dir_map (set_header a g s) = dir_map s" "ino_of (set_header a g s) = ino_of s" for g
      by (simp_all add: dir_map_def ino_of_def fun_eq_iff)
    then show ?thesis
      using k False h(1) c i r(1) by (intro fs_eqI) (simp_all add: dropped_def fs_of_def reason_count_set_header, simp add: reason_count_def)
  qed
qed

lemma fs_ok_sub:
  assumes ok: "fs_ok root s" and r: "r < 12" "r \<noteq> 1" "r \<noteq> 2" "0 < refs (fs_of s) a r" and root: "a = root \<Longrightarrow> r = 0 \<Longrightarrow> 1 < refs (fs_of s) a 0"
  shows "\<exists>t. BitbucketDereferenceInode a r 1 s = Some t \<and> fs_ok root t \<and> fs_of t = ref_sub r 1 a (fs_of s)
    \<and> (\<forall>b. b \<noteq> a \<longrightarrow> dirs t b = dirs s b)"
proof -
  note s = fs_okD [OF ok]
  obtain i where i: "Inodes s a = Some i" and rc: "0 < reason_count s a r"
    using r(4) by (cases "Inodes s a") (auto simp: fs_of_def split: if_splits)
  obtain h where h: "Objects s a = Some h" "header_ok h"
    using s(1) i by (rule fs_inv_inode)
  have nz: "ReferenceReasons h ! r \<noteq> 0"
    using rc h(1) by (auto simp: reason_count_def)
  have f: "lock_of s a = Some Unlocked \<and> childless s a" if "ReferenceCount h = 1"
  proof -
    have "entries_of s a = {}"
      using no_entries(1) [OF s(1) i h(1)] header_one(1) [OF h(2) that r(1) nz, of 2] r(3) by simp
    then have "dir_map s a ''.'' \<noteq> Some a"
      by (auto simp: dir_map_def entries_of_def split: bind_splits)
    then show ?thesis
      using s(3) idle_Unlocked [OF s(2) i] by (auto simp: dots_ok_def childless_def)
  qed
  then have may: "may_free s a"
    using h(1) by (simp add: may_free_def)
  note D = dereference_fs [OF s(1) i r(1-3) rc may] and F = fs_of_dropped [OF s(1) i r(1) rc]
  have pos: "0 < refs (fs_of (dropped r a s)) root 0"
    using s(5) root unfolding F by (cases "r = 0 \<and> a = root") auto
  have v: "dirs (dropped r a s) = (if ReferenceCount h = 1 then (dirs s)(a := None) else dirs s)"
    "lock_of (dropped r a s) = (if ReferenceCount h = 1 then (lock_of s)(a := None) else lock_of s)"
    "dir_map (dropped r a s) = (if ReferenceCount h = 1 then (dir_map s)(a := Map.empty) else dir_map s)"
    using freed_views [OF i] h(1) by (auto simp: dropped_def dir_map_def fun_eq_iff)
  have "a \<noteq> root" if "ReferenceCount h = 1"
  proof
    assume "a = root"
    then have "Inodes (dropped r a s) root = None"
      using that h(1) freed_views(1) [OF i] by (simp add: dropped_def)
    then show False
      using pos by (simp add: fs_of_def)
  qed
  moreover have "stored_ok (dropped r a s)"
  proof (cases "ReferenceCount h = 1")
    case True
    then show ?thesis
      using freed_rest [OF i] h(1) stored_step [OF s(7), of "freed a s"] by (simp add: dropped_def rest_def without_def)
  qed (use h(1) s(7) in \<open>simp add: dropped_def\<close>)
  ultimately have "fs_ok root (dropped r a s)"
    using s D(2) pos f v by (auto simp: fs_ok_def idle_lock_of dots_ok_def childless_def split: if_splits)
  then show ?thesis
    using D F v(1) by auto
qed

text \<open>Several references at once, when others are left.\<close>

lemma fs_ok_sub_many:
  assumes ok: "fs_ok root s" and a: "0 < refs (fs_of s) a 0" and r: "r < 12" "r \<noteq> 0" "r \<noteq> 1" "r \<noteq> 2" "unat n \<le> refs (fs_of s) a r"
  shows "\<exists>t. BitbucketDereferenceInode a r n s = Some t \<and> fs_ok root t \<and> fs_of t = ref_sub r (unat n) a (fs_of s)"
proof -
  note s = fs_okD [OF ok]
  obtain i where i: "Inodes s a = Some i" and rc: "0 < reason_count s a 0" "unat n \<le> reason_count s a r"
    using a r(1,5) by (cases "Inodes s a") (auto simp: fs_of_def split: if_splits)
  obtain h where h: "Objects s a = Some h" "header_ok h" "inode_ready a s"
    using s(1) i by (rule fs_inv_inode)
  let ?h = "sub_reason r n (sub_count n h)"
  let ?t = "set_header a ?h s"
  have le: "n \<le> ucast (ReferenceReasons h ! r)"
    using rc(2) h(1) by (simp add: word_le_nat_alt unat_ucast_reason reason_count_def)
  have lt: "n < ReferenceCount h"
  proof -
    have l: "length (ReferenceReasons h) = 12" and c: "unat (ReferenceCount h) = sum_list (map unat (ReferenceReasons h))"
      using h(2) by (simp_all add: header_ok_def)
    have "(\<Sum>q\<in>{0, r}. unat (ReferenceReasons h ! q)) \<le> (\<Sum>q<12. unat (ReferenceReasons h ! q))"
      using r(1) by (intro sum_mono2) auto
    also have "\<dots> = unat (ReferenceCount h)"
      using c l by (simp add: sum_list_sum_nth atLeast0LessThan)
    finally have "unat (ReferenceReasons h ! 0) + unat (ReferenceReasons h ! r) \<le> unat (ReferenceCount h)"
      using r(2) by simp
    then show ?thesis
      using rc h(1) by (simp add: word_less_nat_alt reason_count_def)
  qed
  have D: "BitbucketDereferenceInode a r n s = Some ?t"
    using iob.dereference_keeps [OF h(3,1) r(1) lt le] i by (simp add: BitbucketDereferenceInode_def)
  have hk: "header_ok ?h"
    by (rule header_ok_sub [OF h(2) r(1) lt le])
  have c: "unat (ReferenceReasons ?h ! q) = unat (ReferenceReasons h ! q) - (if q = r then unat n else 0)" if "q < 12" for q
    using that r(1) h(2) unat_sub_reason(1) [OF le] by (auto simp: sub_reason_def sub_count_def header_ok_def)
  have "fs_inv ?t"
    by (rule fs_inv_header [OF s(1) h(1)]) (use hk r in \<open>simp_all add: sub_reason_def sub_count_def\<close>)
  moreover have "names (ref_sub r (unat n) a (fs_of s)) = names (fs_of s) \<and> inos (ref_sub r (unat n) a (fs_of s)) = inos (fs_of s)
      \<and> kinds (ref_sub r (unat n) a (fs_of s)) = kinds (fs_of s)"
    using a r(2) by (intro ref_sub_kept exI [of _ 0]) simp
  moreover have m: "dir_map ?t = dir_map s" "ino_of ?t = ino_of s"
    by (simp_all add: dir_map_def ino_of_def fun_eq_iff)
  ultimately have F: "fs_of ?t = ref_sub r (unat n) a (fs_of s)"
    using c i h(1) by (intro fs_eqI) (auto simp: fs_of_def reason_count_set_header reason_count_def)
  have "0 < refs (fs_of ?t) root 0"
    unfolding F using s(5) r(2) by simp
  then have "fs_ok root ?t"
    using s \<open>fs_inv ?t\<close> m(1) by (simp add: fs_ok_def idle_lock_of dots_ok_def childless_def)
  then show ?thesis
    using D F by blast
qed

section \<open>Numbers and names\<close>

lemma ino_table: "fs_inv s \<Longrightarrow> table_map s n = Some a \<longleftrightarrow> ino_of s a = Some n"
  using table_map_ino [OF fs_invD(1), of s n a] fs_invD(5) [of s a] by (auto simp: ino_of_def inode_ok_def)

text \<open>The inode that a number in a request stands for.\<close>

definition target :: "addr \<Rightarrow> bb_state \<Rightarrow> u64 \<Rightarrow> addr option" where
  "target root s ino = (if ino = FUSE_ROOT_ID then Some root else table_map s ino)"

definition ref_opt :: "nat \<Rightarrow> addr option \<Rightarrow> fs \<Rightarrow> fs" where
  "ref_opt r x A = (case x of None \<Rightarrow> A | Some a \<Rightarrow> ref_add r a A)"

definition address :: "addr option \<Rightarrow> addr" where
  "address x = (case x of None \<Rightarrow> NULL | Some a \<Rightarrow> a)"

lemma target_live: "fs_ok root s \<Longrightarrow> target root s ino = Some a \<Longrightarrow> Inodes s a \<noteq> None \<and> a \<noteq> NULL"
proof -
  assume ok: "fs_ok root s" and t: "target root s ino = Some a"
  note s = fs_okD [OF ok]
  have "Inodes s a \<noteq> None"
    using t s(6) ino_table [OF s(1), of ino a] by (auto simp: target_def ino_of_def split: if_splits)
  moreover from this have "a \<noteq> NULL"
    using fs_invD(5) [OF s(1), of a] by (auto simp: inode_ok_def)
  ultimately show ?thesis
    by simp
qed

lemma fs_of_referenced:
  assumes "fs_inv s" "\<And>a. x = Some a \<Longrightarrow> Inodes s a \<noteq> None" "r < 12" "roomy (Suc k) (fs_of s)"
  shows "fs_of (referenced r x s) = ref_opt r x (fs_of s)"
proof (cases x)
  case (Some a)
  then obtain i where i: "Inodes s a = Some i"
    using assms(2) by blast
  with assms(1) obtain h where h: "Objects s a = Some h"
    by (rule fs_inv_inode)
  moreover have "room s a r"
    using assms(4) _ assms(3) by (rule refs_room) (simp add: i)
  ultimately show ?thesis
    using fs_of_add [OF assms(1) i h assms(3)] Some by (simp add: referenced_def ref_opt_def)
qed (simp add: referenced_def ref_opt_def)

lemma stored_referenced [simp]: "stored_ok (referenced r x s) = stored_ok s"
  by (cases x) (simp_all add: referenced_def)

lemma fs_ok_referenced:
  assumes ok: "fs_ok root s" and x: "\<And>a. x = Some a \<Longrightarrow> Inodes s a \<noteq> None" and r: "r < 12" "r \<noteq> 1" "r \<noteq> 2" and room: "roomy (Suc k) (fs_of s)"
  shows "fs_ok root (referenced r x s)"
proof -
  note s = fs_okD [OF ok]
  have "fs_inv (referenced r x s)"
    using x refs_room [OF room _ r(1)] by (intro fs_inv_referenced [OF s(1) r]) auto
  moreover have "0 < refs (ref_opt r x (fs_of s)) root 0"
    using s(5) by (cases x) (simp_all add: ref_opt_def)
  ultimately show ?thesis
    using s fs_of_referenced [OF s(1) x r(1) room] by (simp add: fs_ok_def idle_lock_of dots_ok_def childless_def)
qed

lemma fs_ok_table_lookup:
  assumes ok: "fs_ok root s" and ino: "ino \<noteq> 0" and room: "roomy (Suc k) (fs_of s)"
  shows "\<exists>t. BitbucketLookupInodeInTable ino s = Some (address (table_map s ino), t) \<and> fs_ok root t \<and> fs_of t = ref_opt 0 (table_map s ino) (fs_of s)
    \<and> dirs t = dirs s \<and> table_map t = table_map s \<and> lock_of t = lock_of s"
proof -
  note s = fs_okD [OF ok]
  have known: "\<exists>i. Inodes s a = Some i \<and> PrivateTable i \<and> Objects s a = Some (the (Objects s a)) \<and> header_ok (the (Objects s a))" if "table_map s ino = Some a" for a
    using that ino_table [OF s(1), of ino a] fs_invD(5) [OF s(1), of a] by (auto simp: ino_of_def inode_ok_def)
  let ?r = "referenced 0 (table_map s ino) s"
  obtain b B where L: "BitbucketLookupInodeInTable ino s = Some (address (table_map s ino), set_bucket b B ?r)"
    "itable_ok (set_bucket b B ?r)" "table_map (set_bucket b B ?r) = table_map s" "same_content (bucket s b) B"
    using lookup_inode [OF fs_invD(1,2) [OF s(1)] ino, of "\<lambda>a. the (Objects s a)"] known
    by (auto simp: Let_def address_def referenced_def split: option.splits)
  let ?t = "set_bucket b B ?r"
  have live: "Inodes s a \<noteq> None" if "table_map s ino = Some a" for a
    using known [OF that] by auto
  have ok': "fs_ok root ?r" "fs_of ?r = ref_opt 0 (table_map s ino) (fs_of s)"
    using fs_ok_referenced [OF ok live _ _ _ room] fs_of_referenced [OF s(1) live _ room] by simp_all
  have "bucket ?r b = bucket s b"
    by (cases "table_map s ino") (simp_all add: referenced_def bucket_def set_header_def)
  then have "touch ?r ?t"
    using L(4) by (intro touch_bucket) simp
  note fs_ok_touch [OF ok'(1) this] and touch_dirs [OF this]
  then show ?thesis
    using L(1,3) ok'(2) by auto
qed

lemma fs_ok_get_inode:
  assumes ok: "fs_ok root s" and root: "RootDirectory (userdata req) = root" and ino: "ino \<noteq> 0" and room: "roomy (Suc k) (fs_of s)"
  shows "\<exists>t. get_inode req ino s = Some (address (target root s ino), t) \<and> fs_ok root t \<and> fs_of t = ref_opt 0 (target root s ino) (fs_of s)
    \<and> dirs t = dirs s \<and> target root t = target root s \<and> lock_of t = lock_of s"
proof (cases "ino = FUSE_ROOT_ID")
  case True
  obtain t where t: "BitbucketReferenceInode root 0 s = Some t" "fs_ok root t" "fs_of t = ref_add 0 root (fs_of s)" "dirs t = dirs s" "Inodes t = Inodes s"
    using fs_ok_add [OF ok fs_okD(6) [OF ok] _ _ _ room, of 0] by auto
  have "target root t = target root s"
    using ino_table [OF fs_okD(1) [OF t(2)]] ino_table [OF fs_okD(1) [OF ok]] t(5)
    by (auto simp: target_def fun_eq_iff ino_of_def) (metis option.collapse option.distinct(1))+
  then show ?thesis
    using True t root by (auto simp: get_inode_def target_def address_def ref_opt_def lock_of_def fun_eq_iff)
next
  case False
  then show ?thesis
    using fs_ok_table_lookup [OF ok ino room] by (auto simp: get_inode_def target_def fun_eq_iff)
qed

lemma fs_ok_lookup:
  assumes ok: "fs_ok root s" and p: "dirs s p \<noteq> None" and room: "roomy (Suc k) (fs_of s)"
  shows "\<exists>t. BitbucketLookupObjectInDirectory p name s = Some (address (dir_map s p name), t) \<and> fs_ok root t
    \<and> fs_of t = ref_opt 0 (dir_map s p name) (fs_of s) \<and> dirs t = dirs s"
proof -
  note s = fs_okD [OF ok]
  obtain d where d: "dirs s p = Some d"
    using p by blast
  have live: "Inodes s x \<noteq> None" if "dir_map s p name = Some x" for x
    by (rule dir_map_live [OF s(1) that])
  then obtain t where t: "BitbucketLookupObjectInDirectory p name s = Some (address (dir_map s p name), t)"
    "touch (referenced 0 (dir_map s p name) s) t" "lock_of t = lock_of s"
    using lookup_entry [OF s(1,2) d, of name] refs_room [OF room] unfolding address_def by fastforce
  have ok': "fs_ok root (referenced 0 (dir_map s p name) s)" "fs_of (referenced 0 (dir_map s p name) s) = ref_opt 0 (dir_map s p name) (fs_of s)"
    using fs_ok_referenced [OF ok live _ _ _ room] fs_of_referenced [OF s(1) live _ room] by simp_all
  then show ?thesis
    using t fs_ok_touch [OF ok'(1) t(2)] touch_dirs [OF t(2)] by simp
qed

lemma fs_ok_put:
  assumes ok: "fs_ok root s" and s: "fs_of s = ref_add 0 p B" and B: "inos B p \<noteq> None" "held B" "0 < refs B root 0"
  shows "\<exists>t. put_inode p s = Some t \<and> BitbucketDereferenceInode p 0 1 s = Some t \<and> fs_ok root t \<and> fs_of t = B \<and> (\<forall>b. b \<noteq> p \<longrightarrow> dirs t b = dirs s b)"
proof -
  have "Inodes s p \<noteq> None"
    using B(1) inos_live [of s p] unfolding s ref_add_simps by metis
  then have "p \<noteq> NULL"
    using fs_invD(5) [OF fs_okD(1) [OF ok], of p] by (auto simp: inode_ok_def)
  moreover obtain t where "BitbucketDereferenceInode p 0 1 s = Some t" "fs_ok root t" "fs_of t = ref_sub 0 1 p (ref_add 0 p B)"
    "\<forall>b. b \<noteq> p \<longrightarrow> dirs t b = dirs s b"
    using fs_ok_sub [OF ok, of 0 p] B(3) s by auto
  ultimately show ?thesis
    using ref_sub_add [OF B(1,2)] by (simp add: put_inode_def)
qed

lemma put_NULL [simp]: "put_inode NULL s = Some s"
  by (simp add: put_inode_def)

text \<open>The number of an inode in a reply is the one under which it is known.\<close>

lemma ino_view: "Inodes s a = Some i \<Longrightarrow> inos (fs_of s) a = Some (st_ino (Attributes i))"
  by (simp add: fs_of_def ino_of_def)

lemma kind_type:
  assumes "fs_inv s" "Inodes s a = Some i"
  shows "InodeType i = BITBUCKET_DIR_TYPE \<longleftrightarrow> kinds (fs_of s) a = Some DirectoryObjectAttributes"
    "InodeType i = BITBUCKET_FILE_TYPE \<longleftrightarrow> kinds (fs_of s) a = Some FileObjectAttributes"
    "kinds (fs_of s) a = Some DirectoryObjectAttributes \<Longrightarrow> S_ISDIR (st_mode (Attributes i))"
  using fs_invD(5) [OF assms] assms(2)
  by (auto simp: fs_of_def kind_of_def inode_ok_def kind_ok_def S_ISDIR_def split: option.splits registered.splits)

text \<open>Attributes that describe an inode have its number and the file type of its kind.\<close>

fun kind_mode :: "registered \<Rightarrow> u32" where
  "kind_mode DirectoryObjectAttributes = S_IFDIR"
| "kind_mode FileObjectAttributes = S_IFREG"
| "kind_mode SymbolicLinkObjectAttributes = S_IFLNK"

definition described :: "fs \<Rightarrow> addr \<Rightarrow> stat_attributes \<Rightarrow> bool" where
  "described A a attr \<longleftrightarrow> inos A a = Some (st_ino attr) \<and> (\<exists>k. kinds A a = Some k \<and> st_mode attr AND S_IFMT = kind_mode k)"

lemma described_inode:
  assumes "fs_inv s" "Inodes s a = Some i"
  shows "described (fs_of s) a (Attributes i)"
  using fs_invD(5) [OF assms] assms(2)
  by (auto simp: described_def fs_of_def ino_of_def kind_of_def inode_ok_def kind_ok_def split: option.splits registered.splits)

lemma described_add [simp]: "described (ref_add r b A) a attr = described A a attr"
  by (simp add: described_def)

end
