(* ===== verification/FsRequests.thy ===== *)
theory FsRequests
  imports FsView
begin

text \<open>
  The effect of the request handlers on the view of the file system.  A handler takes lookup
  references on the inodes it works with and gives them back, so what is left is the
  effect that the reply promises.
\<close>

section \<open>The frame of a handler\<close>

lemma begin_unknown:
  assumes "fs_ok root s" "RootDirectory (userdata req) = root" "ino \<noteq> 0" "roomy (Suc k) (fs_of s)" "target root s ino = None"
  shows "\<exists>t. get_inode req ino s = Some (NULL, t) \<and> fs_ok root t \<and> fs_of t = fs_of s"
  using fs_ok_get_inode [OF assms(1-4)] assms(5) by (auto simp: address_def ref_opt_def)

lemma begin_known:
  assumes "fs_ok root s" "RootDirectory (userdata req) = root" "ino \<noteq> 0" "roomy (Suc k) (fs_of s)" "target root s ino = Some a"
  shows "\<exists>t i. get_inode req ino s = Some (a, t) \<and> fs_ok root t \<and> fs_of t = ref_add 0 a (fs_of s) \<and> dirs t = dirs s \<and> a \<noteq> NULL
    \<and> inos (fs_of s) a = Some (st_ino (Attributes i)) \<and> Inodes t a = Some i"
proof -
  obtain t where t: "get_inode req ino s = Some (a, t)" "fs_ok root t" "fs_of t = ref_add 0 a (fs_of s)" "dirs t = dirs s"
    using fs_ok_get_inode [OF assms(1-4)] assms(5) by (auto simp: address_def ref_opt_def)
  have a: "inos (fs_of s) a \<noteq> None" "a \<noteq> NULL"
    using target_live [OF assms(1,5)] inos_live [of s a] by (simp_all del: not_None_eq)
  then have "inos (fs_of t) a \<noteq> None"
    unfolding t(3) by simp
  then obtain i where "Inodes t a = Some i"
    using inos_live [of t a] by (cases "Inodes t a") simp_all
  then show ?thesis
    using t a ino_view [of t a i] by auto
qed

text \<open>The end of a handler that gives back its reference.\<close>

lemma finish_request:
  assumes "fs_ok root s" "fs_ok root t" "fs_of t = ref_add 0 p (fs_of s)" "inos (fs_of s) p \<noteq> None"
  shows "\<exists>u. put_inode p t = Some u \<and> BitbucketDereferenceInode p 0 1 t = Some u \<and> fs_ok root u \<and> fs_of u = fs_of s"
  using fs_ok_put [OF assms(2-4) held_fs] fs_okD(1,5) [OF assms(1)] by blast

section \<open>Looking up\<close>

lemma handle_lookup:
  assumes ok: "fs_ok root s" and req: "RootDirectory (userdata req) = root" "parent \<noteq> 0" and room3: "roomy 3 (fs_of s)"
    and p: "\<And>p. target root s parent = Some p \<Longrightarrow> dirs s p \<noteq> None"
  shows "\<exists>status replies t. bitbucket_internal_lookup req parent name s = Some (status, replies, t) \<and> fs_ok root t
    \<and> (case target root s parent of
         None \<Rightarrow> status = EBADF \<and> replies = [reply_err EBADF] \<and> fs_of t = fs_of s
       | Some p \<Rightarrow> (case names (fs_of s) p name of
           None \<Rightarrow> status = ENOENT \<and> replies = [reply_err ENOENT] \<and> fs_of t = fs_of s
         | Some x \<Rightarrow> status = 0 \<and> fs_of t = ref_add 5 x (fs_of s)
             \<and> (\<exists>i. replies = [reply_entry (entry_param req i)] \<and> described (fs_of s) x (Attributes i))))"
proof (cases "target root s parent")
  case None
  then show ?thesis
    using begin_unknown [OF ok req, of 2] room3 by (auto simp: bitbucket_internal_lookup_def)
next
  case P: (Some p)
  let ?A = "fs_of s"
  note s = fs_okD [OF ok] and H = held_fs [OF fs_okD(1) [OF ok]] and room = room3 [unfolded numeral_3_eq_3]
  obtain s1 where s1: "get_inode req parent s = Some (p, s1)" "fs_ok root s1" "fs_of s1 = ref_add 0 p ?A" "dirs s1 = dirs s" "p \<noteq> NULL" "inos ?A p \<noteq> None"
    using begin_known [OF ok req room P] by auto
  have m: "dir_map s1 p name = names ?A p name"
    using arg_cong [OF s1(3), of names] by (simp add: fs_of_def)
  obtain s2 where s2: "BitbucketLookupObjectInDirectory p name s1 = Some (address (names ?A p name), s2)" "fs_ok root s2"
    "fs_of s2 = ref_opt 0 (names ?A p name) (ref_add 0 p ?A)"
    using fs_ok_lookup [OF s1(2), of p "Suc 0" name] p [OF P] room s1(3,4) m by auto
  show ?thesis
  proof (cases "names ?A p name")
    case None
    then obtain t where "put_inode p s2 = Some t" "fs_ok root t" "fs_of t = ?A"
      using finish_request [OF ok s2(2)] s2(3) s1(6) by (auto simp: ref_opt_def)
    then show ?thesis
      using P None s1 s2 by (simp add: bitbucket_internal_lookup_def address_def)
  next
    case (Some x)
    have F2: "fs_of s2 = ref_add 0 x (ref_add 0 p ?A)"
      using s2(3) Some by (simp add: ref_opt_def)
    have x: "Inodes s x \<noteq> None" "x \<noteq> NULL"
      using dir_map_live [OF s(1), of p name x] fs_invD(5) [OF s(1), of x] Some by (auto simp: fs_of_def inode_ok_def)
    then have xl: "inos ?A x \<noteq> None"
      using inos_live [of s x] by metis
    then have "Inodes s2 x \<noteq> None"
      using inos_live [of s2 x] unfolding F2 ref_add_simps by metis
    then obtain i where i: "Inodes s2 x = Some i"
      by blast
    obtain s3 where s3: "BitbucketReferenceInode x 5 s2 = Some s3" "fs_ok root s3" "fs_of s3 = ref_add 5 x (ref_add 0 x (ref_add 0 p ?A))"
      using fs_ok_add [OF s2(2), of x 5 0] i F2 room by auto
    have "fs_of s3 = ref_add 0 p (ref_add 0 x (ref_add 5 x ?A))"
      unfolding s3(3) by (simp add: ref_add_commute)
    then obtain s4 where s4: "put_inode p s3 = Some s4" "fs_ok root s4" "fs_of s4 = ref_add 0 x (ref_add 5 x ?A)"
      using fs_ok_put [OF s3(2), of p "ref_add 0 x (ref_add 5 x ?A)"] s1(6) H s(5) by auto
    then obtain t where t: "put_inode x s4 = Some t" "fs_ok root t" "fs_of t = ref_add 5 x ?A"
      using fs_ok_put [OF s4(2), of x "ref_add 5 x ?A"] xl H s(5) by auto
    have "\<exists>i'. entry_param req i = entry_param req i' \<and> described ?A x (Attributes i')"
      using described_inode [OF fs_okD(1) [OF s2(2)] i] F2 by auto
    then show ?thesis
      using P Some s1 s2(1) i s3(1) s4(1) t x by (simp add: bitbucket_internal_lookup_def address_def)
  qed
qed

section \<open>Attributes\<close>

lemma handle_getattr:
  assumes ok: "fs_ok root s" and req: "RootDirectory (userdata req) = root" "ino \<noteq> 0" and room: "roomy 1 (fs_of s)"
  shows "\<exists>status replies t. bitbucket_internal_getattr req ino None s = Some (status, replies, t) \<and> fs_ok root t \<and> fs_of t = fs_of s
    \<and> (case target root s ino of
         None \<Rightarrow> status = EBADF \<and> replies = [reply_err EBADF]
       | Some a \<Rightarrow> status = 0 \<and> (\<exists>i :: bitbucket_inode. replies = [reply_attr (Attributes i) (AttrTimeout (userdata req))] \<and> described (fs_of s) a (Attributes i)))"
proof (cases "target root s ino")
  case None
  then show ?thesis
    using begin_unknown [OF ok req, of 0] room by (auto simp: bitbucket_internal_getattr_def)
next
  case (Some a)
  obtain s1 i where s1: "get_inode req ino s = Some (a, s1)" "fs_ok root s1" "fs_of s1 = ref_add 0 a (fs_of s)" "a \<noteq> NULL"
    "inos (fs_of s) a = Some (st_ino (Attributes i))" "Inodes s1 a = Some i"
    using begin_known [OF ok req, of 0 a] room Some by auto
  then obtain t where "BitbucketDereferenceInode a 0 1 s1 = Some t" "fs_ok root t" "fs_of t = fs_of s"
    using finish_request [OF ok s1(2,3)] by auto
  moreover have "described (fs_of s) a (Attributes i)"
    using described_inode [OF fs_okD(1) [OF s1(2)] s1(6)] s1(3) by simp
  ultimately show ?thesis
    using Some s1 by (auto simp: bitbucket_internal_getattr_def)
qed

lemma handle_access:
  assumes ok: "fs_ok root s" and req: "RootDirectory (userdata req) = root" "ino \<noteq> 0" and room: "roomy 1 (fs_of s)"
  shows "\<exists>t. bitbucket_internal_access req ino amask s = Some (if target root s ino = None then EBADF else 0,
      [reply_err (if target root s ino = None then EBADF else 0)], t) \<and> fs_ok root t \<and> fs_of t = fs_of s"
proof (cases "target root s ino")
  case None
  then show ?thesis
    using begin_unknown [OF ok req, of 0] room by (auto simp: bitbucket_internal_access_def)
next
  case (Some a)
  obtain s1 i where s1: "get_inode req ino s = Some (a, s1)" "fs_ok root s1" "fs_of s1 = ref_add 0 a (fs_of s)" "a \<noteq> NULL"
    "inos (fs_of s) a = Some (st_ino (Attributes i))" "Inodes s1 a = Some i"
    using begin_known [OF ok req, of 0 a] room Some by auto
  then obtain t where "put_inode a s1 = Some t" "fs_ok root t" "fs_of t = fs_of s"
    using finish_request [OF ok s1(2,3)] by auto
  then show ?thesis
    using Some s1 by (auto simp: bitbucket_internal_access_def)
qed

section \<open>Open and release\<close>

text \<open>Taking a reference for the kernel and giving back the one of the handler.\<close>

lemma exchange_reference:
  assumes ok: "fs_ok root s" and t: "fs_ok root t" "fs_of t = ref_add 0 a (fs_of s)" "inos (fs_of s) a \<noteq> None"
    and r: "r < 12" "r \<noteq> 1" "r \<noteq> 2" and room: "roomy 2 (fs_of s)"
  shows "\<exists>u v. BitbucketReferenceInode a r t = Some u \<and> BitbucketDereferenceInode a 0 1 u = Some v \<and> fs_ok root v \<and> fs_of v = ref_add r a (fs_of s)"
proof -
  note room = room [unfolded numeral_2_eq_2]
  have "Inodes t a \<noteq> None"
    using t(3) inos_live [of t a] unfolding t(2) ref_add_simps by metis
  then obtain u where u: "BitbucketReferenceInode a r t = Some u" "fs_ok root u" "fs_of u = ref_add 0 a (ref_add r a (fs_of s))"
    using fs_ok_add [OF t(1) _ r, of a 0] room t(2) by (auto simp: ref_add_commute)
  then show ?thesis
    using fs_ok_put [OF u(2), of a "ref_add r a (fs_of s)"] t(3) held_fs [OF fs_okD(1) [OF ok]] fs_okD(5) [OF ok] by auto
qed

text \<open>Dropping the reference of the kernel and giving back the one of the handler.\<close>

lemma drop_both:
  assumes ok: "fs_ok root s" and t: "fs_ok root t" "fs_of t = ref_add 0 a (fs_of s)" and r: "r < 12" "r \<noteq> 0" "r \<noteq> 1" "r \<noteq> 2" "0 < refs (fs_of s) a r"
  shows "\<exists>u v. BitbucketDereferenceInode a r 1 t = Some u \<and> BitbucketDereferenceInode a 0 1 u = Some v \<and> fs_ok root v \<and> fs_of v = ref_sub r 1 a (fs_of s)"
proof -
  obtain u where u: "BitbucketDereferenceInode a r 1 t = Some u" "fs_ok root u" "fs_of u = ref_sub r 1 a (ref_add 0 a (fs_of s))"
    using fs_ok_sub [OF t(1) r(1,3,4), of a] r(2,5) t(2) by auto
  have "\<exists>v. BitbucketDereferenceInode a 0 1 u = Some v \<and> fs_ok root v \<and> fs_of v = ref_sub 0 1 a (fs_of u) \<and> (\<forall>b. b \<noteq> a \<longrightarrow> dirs v b = dirs u b)"
    using r(2) fs_okD(5) [OF ok] by (intro fs_ok_sub [OF u(2)]) (auto simp: u(3))
  moreover have "ref_sub 0 1 a (ref_sub r 1 a (ref_add 0 a (fs_of s))) = ref_sub r 1 a (fs_of s)"
    using r(1,2) by (rule ref_sub_order)
  ultimately show ?thesis
    using u by auto
qed

lemma handle_open:
  assumes ok: "fs_ok root s" and req: "RootDirectory (userdata req) = root" "ino \<noteq> 0" and room: "roomy 2 (fs_of s)" and fi: "fi_flags fi AND O_TRUNC = 0"
  shows "\<exists>status replies t. bitbucket_internal_open req ino fi s = Some (status, replies, t) \<and> fs_ok root t
    \<and> (case target root s ino of
         None \<Rightarrow> status = EBADF \<and> replies = [reply_err EBADF] \<and> fs_of t = fs_of s
       | Some a \<Rightarrow> status = 0 \<and> replies = [reply_open (fi\<lparr>fh := a\<rparr>)] \<and> fs_of t = ref_add INODE_FUSE_OPEN_REFERENCE a (fs_of s))"
proof (cases "target root s ino")
  case None
  then show ?thesis
    using begin_unknown [OF ok req, of 1] room by (auto simp: numeral_2_eq_2 bitbucket_internal_open_def)
next
  case (Some a)
  obtain s1 i where s1: "get_inode req ino s = Some (a, s1)" "fs_ok root s1" "fs_of s1 = ref_add 0 a (fs_of s)" "a \<noteq> NULL"
    "inos (fs_of s) a = Some (st_ino (Attributes i))" "Inodes s1 a = Some i"
    using begin_known [OF ok req, of 1 a] room Some by (auto simp: numeral_2_eq_2)
  then show ?thesis
    using exchange_reference [OF ok s1(2,3) _ _ _ _ room, of 6] Some fi by (auto simp: bitbucket_internal_open_def)
qed

lemma handle_opendir:
  assumes ok: "fs_ok root s" and req: "RootDirectory (userdata req) = root" "ino \<noteq> 0" and room: "roomy 2 (fs_of s)"
  shows "\<exists>status replies t. bitbucket_internal_opendir req ino fi s = Some (status, replies, t) \<and> fs_ok root t
    \<and> (case target root s ino of
         None \<Rightarrow> status = ENOENT \<and> replies = [reply_err ENOENT] \<and> fs_of t = fs_of s
       | Some a \<Rightarrow> (status = 0 \<or> kinds (fs_of s) a \<noteq> Some DirectoryObjectAttributes \<and> status = ENOTDIR) \<and> fs_of t = ref_add INODE_FUSE_OPENDIR_REFERENCE a (fs_of s)
           \<and> replies = (if status = 0 then [reply_open (fi\<lparr>fh := NULL, cache_readdir := True\<rparr>)] else [reply_err ENOTDIR]))"
proof (cases "target root s ino")
  case None
  then show ?thesis
    using begin_unknown [OF ok req, of 1] room by (auto simp: numeral_2_eq_2 bitbucket_internal_opendir_def)
next
  case (Some a)
  obtain s1 i where s1: "get_inode req ino s = Some (a, s1)" "fs_ok root s1" "fs_of s1 = ref_add 0 a (fs_of s)" "a \<noteq> NULL"
    "inos (fs_of s) a = Some (st_ino (Attributes i))" "Inodes s1 a = Some i"
    using begin_known [OF ok req, of 1 a] room Some by (auto simp: numeral_2_eq_2)
  have "S_ISDIR (st_mode (Attributes i)) \<or> kinds (fs_of s) a \<noteq> Some DirectoryObjectAttributes"
    using kind_type(3) [OF fs_okD(1) [OF s1(2)] s1(6)] s1(3) by auto
  then show ?thesis
    using s1 exchange_reference [OF ok s1(2,3) _ _ _ _ room, of 7] Some
    by (cases "S_ISDIR (st_mode (Attributes i))") (auto simp: bitbucket_internal_opendir_def intro: exI [of _ ENOTDIR])
qed

lemma handle_release:
  assumes ok: "fs_ok root s" and req: "RootDirectory (userdata req) = root" "ino \<noteq> 0" and room: "roomy 1 (fs_of s)"
    and opened: "\<And>a. target root s ino = Some a \<Longrightarrow> 0 < refs (fs_of s) a INODE_FUSE_OPEN_REFERENCE"
  shows "\<exists>t. bitbucket_internal_release req ino s = Some (if target root s ino = None then EBADF else 0,
      [reply_err (if target root s ino = None then EBADF else 0)], t) \<and> fs_ok root t
    \<and> fs_of t = (case target root s ino of None \<Rightarrow> fs_of s | Some a \<Rightarrow> ref_sub INODE_FUSE_OPEN_REFERENCE 1 a (fs_of s))"
proof (cases "target root s ino")
  case None
  then show ?thesis
    using begin_unknown [OF ok req, of 0] room by (auto simp: bitbucket_internal_release_def)
next
  case (Some a)
  obtain s1 i where s1: "get_inode req ino s = Some (a, s1)" "fs_ok root s1" "fs_of s1 = ref_add 0 a (fs_of s)" "a \<noteq> NULL"
    "inos (fs_of s) a = Some (st_ino (Attributes i))" "Inodes s1 a = Some i"
    using begin_known [OF ok req, of 0 a] room Some by auto
  then show ?thesis
    using drop_both [OF ok s1(2,3), of 6] opened Some by (auto simp: bitbucket_internal_release_def)
qed

lemma handle_releasedir:
  assumes ok: "fs_ok root s" and req: "RootDirectory (userdata req) = root" "ino \<noteq> 0" and room: "roomy 1 (fs_of s)"
    and opened: "\<And>a. target root s ino = Some a \<Longrightarrow> 0 < refs (fs_of s) a INODE_FUSE_OPENDIR_REFERENCE"
  shows "\<exists>t. bitbucket_internal_releasedir req ino s = Some (if target root s ino = None then EBADF else 0,
      [reply_err (if target root s ino = None then EBADF else 0)], t) \<and> fs_ok root t
    \<and> fs_of t = (case target root s ino of None \<Rightarrow> fs_of s | Some a \<Rightarrow> ref_sub INODE_FUSE_OPENDIR_REFERENCE 1 a (fs_of s))"
proof (cases "target root s ino")
  case None
  then show ?thesis
    using begin_unknown [OF ok req, of 0] room by (auto simp: bitbucket_internal_releasedir_def)
next
  case (Some a)
  obtain s1 i where s1: "get_inode req ino s = Some (a, s1)" "fs_ok root s1" "fs_of s1 = ref_add 0 a (fs_of s)" "a \<noteq> NULL"
    "inos (fs_of s) a = Some (st_ino (Attributes i))" "Inodes s1 a = Some i"
    using begin_known [OF ok req, of 0 a] room Some by auto
  then show ?thesis
    using drop_both [OF ok s1(2,3), of 7] opened Some by (auto simp: bitbucket_internal_releasedir_def)
qed

section \<open>Forget\<close>

text \<open>
  Forgetting gives back as many lookup references of the kernel as it says.  The number of the
  root directory is not in the table of requests: its own number is used.
\<close>

lemma background_forget_view:
  assumes ok: "fs_ok root s" and ino: "ino \<noteq> 0" and room: "roomy 1 (fs_of s)"
    and held: "\<And>a. table_map s ino = Some a \<Longrightarrow> unat n \<le> refs (fs_of s) a INODE_FUSE_LOOKUP_REFERENCE"
  shows "\<exists>t. background_forget ino n s = Some t \<and> fs_ok root t
    \<and> fs_of t = (case table_map s ino of None \<Rightarrow> fs_of s | Some a \<Rightarrow> ref_sub INODE_FUSE_LOOKUP_REFERENCE (unat n) a (fs_of s))"
proof -
  obtain s1 where s1: "BitbucketLookupInodeInTable ino s = Some (address (table_map s ino), s1)" "fs_ok root s1"
    "fs_of s1 = ref_opt 0 (table_map s ino) (fs_of s)"
    using fs_ok_table_lookup [OF ok ino, of 0] room by auto
  show ?thesis
  proof (cases "table_map s ino")
    case None
    then show ?thesis
      using s1 by (simp add: background_forget_def address_def ref_opt_def)
  next
    case (Some a)
    let ?A = "fs_of s"
    have a: "a \<noteq> NULL" "inos ?A a \<noteq> None"
      using Some ino_table [OF fs_okD(1) [OF ok], of ino a] fs_invD(5) [OF fs_okD(1) [OF ok], of a] by (auto simp: fs_of_def ino_of_def inode_ok_def)
    have F: "fs_of s1 = ref_add 0 a ?A"
      using s1(3) Some by (simp add: ref_opt_def)
    have "unat n \<le> refs (fs_of s1) a 5" "0 < refs (fs_of s1) a 0"
      unfolding F using held [OF Some] by simp_all
    then obtain s2 where s2: "BitbucketDereferenceInode a 5 n s1 = Some s2" "fs_ok root s2" "fs_of s2 = ref_sub 5 (unat n) a (fs_of s1)"
      using fs_ok_sub_many [OF s1(2), of a 5 n] by auto
    have "\<exists>t. BitbucketDereferenceInode a 0 1 s2 = Some t \<and> fs_ok root t \<and> fs_of t = ref_sub 0 1 a (fs_of s2) \<and> (\<forall>b. b \<noteq> a \<longrightarrow> dirs t b = dirs s2 b)"
      using fs_okD(5) [OF ok] by (intro fs_ok_sub [OF s2(2)]) (auto simp: s2(3) F)
    moreover have "ref_sub 0 1 a (ref_sub 5 (unat n) a (ref_add 0 a ?A)) = ref_sub 5 (unat n) a ?A"
      by (rule ref_sub_order) simp_all
    ultimately show ?thesis
      using Some a s1(1) s2 F by (auto simp: background_forget_def address_def)
  qed
qed

end
