(* ===== verification/FsChange.thy ===== *)
theory FsChange
  imports FsView
begin

text \<open>
  Changes of directories in the view of the file system: inserting and deleting a name, and
  creating files and directories.
\<close>

section \<open>Updates of the view\<close>

definition set_name :: "addr \<Rightarrow> string \<Rightarrow> addr option \<Rightarrow> fs \<Rightarrow> fs" where
  "set_name p n x A = A\<lparr>names := (names A)(p := (names A p)(n := x))\<rparr>"

definition new_node :: "addr \<Rightarrow> registered \<Rightarrow> u64 \<Rightarrow> inode_numbers \<Rightarrow> fs \<Rightarrow> fs" where
  "new_node a k ino n A = A\<lparr>inos := (inos A)(a \<mapsto> ino), kinds := (kinds A)(a \<mapsto> k), nums := n, refs := (refs A)(a := (\<lambda>_. 0)(0 := 1))\<rparr>"

lemma set_name_simps [simp]:
  "names (set_name p n x A) = (names A)(p := (names A p)(n := x))" "refs (set_name p n x A) = refs A" "inos (set_name p n x A) = inos A"
  "kinds (set_name p n x A) = kinds A" "nums (set_name p n x A) = nums A"
  by (simp_all add: set_name_def)

lemma new_node_simps [simp]:
  "names (new_node a k ino n A) = names A" "refs (new_node a k ino n A) = (refs A)(a := (\<lambda>_. 0)(0 := 1))"
  "inos (new_node a k ino n A) = (inos A)(a \<mapsto> ino)" "kinds (new_node a k ino n A) = (kinds A)(a \<mapsto> k)" "nums (new_node a k ino n A) = n"
  by (simp_all add: new_node_def)

lemma roomy_set_name [simp]: "roomy k (set_name p n x A) = roomy k A"
  by (simp add: roomy_def)

lemma roomy_new_node: "roomy k A \<Longrightarrow> k + 1 < 2 ^ 32 \<Longrightarrow> roomy k (new_node a r ino n A)"
  by (simp add: roomy_def)

lemma set_name_add: "set_name p n x (ref_add r a A) = ref_add r a (set_name p n x A)"
  by (rule fs_eqI) simp_all

lemma held_set_name [simp]: "held (set_name p n x A) = held A"
  by (simp add: held_def)

lemma held_new_node [simp]: "held A \<Longrightarrow> held (new_node a k ino n A)"
  by (auto simp: held_def)

lemma kind_dirs: "fs_inv s \<Longrightarrow> dirs s a \<noteq> None \<longleftrightarrow> kinds (fs_of s) a = Some DirectoryObjectAttributes"
  using fs_invD(5) [of s a]
  by (cases "Inodes s a") (auto simp: fs_of_def dirs_def kind_of_def inode_ok_def kind_ok_def the_directory.simps split: option.splits registered.splits)

text \<open>A directory that has not been removed.\<close>

lemma in_use_dirs: "names (fs_of s) p n = Some x \<Longrightarrow> dirs s p \<noteq> None"
  by (auto simp: fs_of_def dir_map_def split: bind_splits)

section \<open>Inserting and deleting names\<close>

lemma frame_stored: "frame s t \<Longrightarrow> stored_ok s \<Longrightarrow> stored_ok t"
  using frame_rest [of s t] stored_step [of s t] by (simp add: rest_def)

lemma fs_of_frame:
  assumes "frame s t"
  shows "names (fs_of t) = dir_map t" "refs (fs_of t) a r = (if Inodes s a = None \<or> 12 \<le> r then 0 else reason_count t a r)"
    "inos (fs_of t) = inos (fs_of s)" "kinds (fs_of t) = kinds (fs_of s)" "nums (fs_of t) = nums (fs_of s)"
  using frame_rest(1) [OF assms] frame_dom [OF assms, of a] by (simp_all add: fs_of_def rest_def)

lemma fs_ok_insert:
  assumes ok: "fs_ok root s" and p: "names (fs_of s) p ''.'' = Some p" "names (fs_of s) p name = None" and name: "0 < length name" "length name < 1023"
    and x: "inos (fs_of s) x \<noteq> None" and room: "roomy (Suc k) (fs_of s)"
  shows "\<exists>t. BitbucketInsertDirectoryEntry p x name s = Some (0, t) \<and> fs_ok root t \<and> fs_of t = ref_add 2 x (set_name p name (Some x) (fs_of s)) \<and> frame s t"
proof -
  note s = fs_okD [OF ok]
  have xl: "Inodes s x \<noteq> None"
    using x inos_live [of s x] by metis
  then obtain j where j: "Inodes s x = Some j"
    by blast
  obtain h where h: "Objects s x = Some h" "header_ok h"
    using s(1) j by (rule fs_inv_inode)
  have rm: "room s x 2"
    using room xl by (rule refs_room) simp
  obtain d where d: "dirs s p = Some d"
    using in_use_dirs [OF p(1)] by blast
  have m: "dir_map s p name = None" "dir_map s p ''.'' = Some p" "name \<noteq> ''.''"
    using p by (auto simp: fs_of_def)
  obtain t d' where t: "BitbucketInsertDirectoryEntry p x name s = Some (0, t)" "fs_inv t" "idle t" "frame s t"
    "dir_map t = (dir_map s)(p := (dir_map s p)(name \<mapsto> x))" "dirs t = (dirs s)(p \<mapsto> d')" "Objects t = (Objects s)(x \<mapsto> add_reference 2 h)"
    using insert_free [OF s(1,2) d xl h(1) rm name m(1)] by blast
  note c = add_reference_counts(1) [OF h(2) _ room_header [OF rm h(1)]] and F = fs_of_frame [OF t(4)]
  have "fs_of t = ref_add 2 x (set_name p name (Some x) (fs_of s))"
  proof (rule fs_eqI)
    fix a r
    show "refs (fs_of t) a r = refs (ref_add 2 x (set_name p name (Some x) (fs_of s))) a r"
      unfolding F(2) using c [of r] t(7) j h(1) by (cases "a = x") (simp_all add: fs_of_def reason_count_def del: new_header_reasons)
  qed (simp_all add: F t(5), simp add: fs_of_def)
  moreover have "dots_ok t"
    using s(3) m t(5,6) by (auto simp: dots_ok_def childless_def)
  moreover have "dirs t root \<noteq> None"
    using t(6) s(4) by simp
  ultimately have "fs_ok root t"
    using t s(5) frame_stored [OF t(4) s(7)] by (simp add: fs_ok_def)
  then show ?thesis
    using t(1,4) \<open>fs_of t = _\<close> by blast
qed

text \<open>The view after a name has been deleted and its reference dropped.\<close>

lemma fs_of_release:
  assumes i: "Inodes s x \<noteq> None" and h: "Objects s x = Some h" "header_ok h" "ReferenceReasons h ! 2 \<noteq> 0" and x: "dir_map s x = Map.empty" "x \<noteq> dir"
    and t: "dir_map t = (dir_map s)(dir := (dir_map s dir)(name := None))"
      "Objects t = (Objects s)(x := if ReferenceCount h = 1 then None else Some (drop_reference 2 h))"
      "\<And>a. Inodes t a = None \<longleftrightarrow> Inodes s a = None \<or> a = x \<and> ReferenceCount h = 1"
      "rest t = (if ReferenceCount h = 1 then without x (rest s) else rest s)"
  shows "fs_of t = ref_sub 2 1 x (set_name dir name None (fs_of s))"
proof (cases "ReferenceCount h = 1")
  case True
  have c: "refs (set_name dir name None (fs_of s)) x q = (if q = 2 then 1 else 0)" if "q < 12" for q
    using reason_zero [OF h(2) True h(3) _ that] i h(1) that by (auto simp: fs_of_def reason_count_def)
  show ?thesis
    using True h(1) t x by (subst ref_sub_last [OF c]) (auto intro!: fs_eqI simp: fs_of_def reason_count_def rest_def without_def)
next
  case False
  note c = drop_reference_counts(1) [OF h(2) _ h(3)]
  have "header_ok (drop_reference 2 h)"
    by (rule header_ok_drop [OF h(2) _ h(3) False]) simp
  then have "sum_list (map unat (ReferenceReasons (drop_reference 2 h))) \<noteq> 0" "length (ReferenceReasons (drop_reference 2 h)) = 12"
    by (simp_all only: header_ok_def unat_eq_zero, metis unat_0_iff)
  then obtain q where "q < 12" "unat (ReferenceReasons (drop_reference 2 h) ! q) \<noteq> 0"
    by (auto simp: sum_list_eq_0_iff in_set_conv_nth)
  then have "\<exists>q<12. 0 < ((refs (set_name dir name None (fs_of s)) x)(2 := refs (set_name dir name None (fs_of s)) x 2 - 1)) q"
    using c [of q] i h(1) by (intro exI [of _ q]) (auto simp: fs_of_def reason_count_def)
  note k = ref_sub_kept [OF this]
  show ?thesis
    using k False h(1) c t i by (intro fs_eqI) (auto simp: fs_of_def reason_count_def rest_def)
qed

lemma fs_ok_delete:
  assumes ok: "fs_ok root s" and p: "names (fs_of s) p name = Some x" "name \<noteq> []" and x: "kinds (fs_of s) x \<noteq> Some DirectoryObjectAttributes"
    and room: "roomy (Suc k) (fs_of s)"
  shows "\<exists>t. BitbucketDeleteDirectoryEntry p name s = Some (0, t) \<and> fs_ok root t \<and> fs_of t = ref_sub 2 1 x (set_name p name None (fs_of s))"
proof -
  note s = fs_okD [OF ok]
  obtain d where d: "dirs s p = Some d"
    using in_use_dirs [OF p(1)] by blast
  have m: "dir_map s p name = Some x" "dirs s x = None"
    using p(1) x kind_dirs [OF s(1), of x] by (auto simp: fs_of_def)
  have xl: "Inodes s x \<noteq> None"
    by (rule dir_map_live [OF s(1) m(1)])
  then obtain j where j: "Inodes s x = Some j"
    by blast
  obtain h where h: "Objects s x = Some h" "header_ok h"
    using s(1) j by (rule fs_inv_inode)
  have rm: "room s x 0" "room s x 4"
    using refs_room [OF room xl] by simp_all
  obtain t where t: "BitbucketDeleteDirectoryEntry p name s = Some (0, t)" "fs_inv t" "idle t" "dir_map t = (dir_map s)(p := (dir_map s p)(name := None))"
    "Objects t = (Objects s)(x := if ReferenceCount h = 1 then None else Some (drop_reference 2 h))"
    "\<And>a. Inodes t a = None \<longleftrightarrow> Inodes s a = None \<or> a = x \<and> ReferenceCount h = 1" "\<And>a. a \<noteq> p \<Longrightarrow> dirs t a = dirs s a" "dirs t p \<noteq> None"
    "rest t = (if ReferenceCount h = 1 then without x (rest s) else rest s)" "\<And>n. Storage s n = None \<Longrightarrow> Storage t n = None" "Tick s \<le> Tick t"
    using delete_file_entry [OF s(1,2) d p(2) m h(1) rm] by blast
  obtain e de where e: "Dirents s e = Some de" "de_Inode de = x"
    using s(1) d m(1) by (rule dir_map_entry)
  have nz: "ReferenceReasons h ! 2 \<noteq> 0"
    using no_entries(1) [OF s(1) j h(1)] e by (auto simp: entries_of_def)
  have xp: "x \<noteq> p" "dir_map s x = Map.empty"
    using d m(2) by (auto simp: dir_map_def)
  have F: "fs_of t = ref_sub 2 1 x (set_name p name None (fs_of s))"
    using fs_of_release [OF xl h nz xp(2,1) t(4-6,9)] .
  have "name \<noteq> ''.''" if "dir_map s p ''.'' = Some p"
    using that m(1) xp(1) by auto
  moreover have "\<not> childless s p"
    using dir_map_entry [OF s(1) d m(1)] d by (force simp: childless_def)
  ultimately have "dots_ok t"
    using s(3) t(4,7) d unfolding dots_ok_def childless_def by (metis fun_upd_other fun_upd_same option.distinct(1))
  moreover have "dirs t root \<noteq> None"
    using t(7) [of root] t(8) s(4) by (cases "root = p") simp_all
  moreover have "stored_ok t"
    using t(9-11) s(7) by (intro stored_step [of s t]) (auto simp: rest_def without_def split: if_splits)
  ultimately have "fs_ok root t"
    using t s(5) F by (simp add: fs_ok_def)
  then show ?thesis
    using t(1) F by blast
qed

lemma fs_ok_delete_missing:
  assumes ok: "fs_ok root s" and p: "kinds (fs_of s) p = Some DirectoryObjectAttributes" "names (fs_of s) p name = None" "name \<noteq> []"
  shows "\<exists>t. BitbucketDeleteDirectoryEntry p name s = Some (ENOENT, t) \<and> fs_ok root t \<and> fs_of t = fs_of s"
proof -
  note s = fs_okD [OF ok]
  obtain d where d: "dirs s p = Some d"
    using kind_dirs [OF s(1), of p] p(1) by blast
  have "dir_map s p name = None"
    using p(2) by (simp add: fs_of_def)
  then obtain t where "BitbucketDeleteDirectoryEntry p name s = Some (ENOENT, t)" "touch s t" "lock_of t = lock_of s"
    using delete_missing [OF s(1,2) d p(3)] by blast
  then show ?thesis
    using fs_ok_touch [OF ok] by blast
qed

section \<open>New inodes\<close>

text \<open>The number of the next inode, when it is free.\<close>

definition next_ino :: "fs \<Rightarrow> u64 \<Rightarrow> inode_numbers \<Rightarrow> bool" where
  "next_ino A ino n \<longleftrightarrow> initialized (nums A) \<and> fetch_number (nums A) = Some (ino, n) \<and> ino \<noteq> 0 \<and> ino \<noteq> FUSE_ROOT_ID
     \<and> (\<forall>a. inos A a \<noteq> Some ino)"

lemma next_ino_fresh:
  assumes "fs_inv s" "next_ino (fs_of s) ino n"
  shows "fresh_number s" "get_new_inode_number r i (InodeNumbers s) = Some (ino, n, i)"
proof -
  show g: "get_new_inode_number r i (InodeNumbers s) = Some (ino, n, i)" for r i
    using assms(2) by (simp add: next_ino_def fs_of_def get_new_inode_number_def)
  have "table_map s ino = None"
    using assms(2) ino_table [OF assms(1), of ino] by (cases "table_map s ino") (auto simp: next_ino_def fs_of_def)
  then show "fresh_number s"
    using assms(2) g by (simp add: fresh_number_def next_ino_def)
qed

lemma born_view:
  assumes "fs_inv s" "next_ino (fs_of s) ino n" "born k s t a"
  shows "inos (fs_of t) = (inos (fs_of s))(a \<mapsto> ino)" "kinds (fs_of t) = (kinds (fs_of s))(a \<mapsto> k)" "nums (fs_of t) = n"
    "Environment t = Environment s" "Storage t = Storage s" "Tick s < Tick t"
  using assms(3) next_ino_fresh(2) [OF assms(1,2)] by (auto simp: born_def rest_def fs_of_def)

lemma born_stored:
  assumes "fs_inv s" "next_ino (fs_of s) ino n" "born k s t a" "stored_ok s"
  shows "stored_ok t"
  using born_view(4-6) [OF assms(1-3)] by (intro stored_step [OF assms(4)]) simp_all

text \<open>The view of a new directory, and of a new file.\<close>

definition made_directory :: "addr \<Rightarrow> string \<Rightarrow> addr \<Rightarrow> u64 \<Rightarrow> inode_numbers \<Rightarrow> fs \<Rightarrow> fs" where
  "made_directory p name a ino n A =
     set_name p name (Some a) (ref_add 2 a (set_name a ''..'' (Some p) (ref_add 2 p (set_name a ''.'' (Some a) (ref_add 2 a
       (ref_add 1 p (new_node a DirectoryObjectAttributes ino n A)))))))"

definition made_file :: "addr \<Rightarrow> string \<Rightarrow> addr \<Rightarrow> u64 \<Rightarrow> inode_numbers \<Rightarrow> fs \<Rightarrow> fs" where
  "made_file p name a ino n A = ref_add 2 a (set_name p name (Some a) (new_node a FileObjectAttributes ino n A))"

lemma fs_ok_mkdir:
  assumes ok: "fs_ok root s" and num: "next_ino (fs_of s) ino n" and p: "names (fs_of s) p ''.'' = Some p" "names (fs_of s) p name = None"
    and name: "0 < length name" "length name < 1023" and room: "roomy (Suc (Suc k)) (fs_of s)"
  shows "\<exists>a t. BitbucketCreateDirectory p name s = Some (a, t) \<and> fs_ok root t \<and> inos (fs_of s) a = None \<and> a \<noteq> NULL
    \<and> fs_of t = made_directory p name a ino n (fs_of s)"
proof -
  note s = fs_okD [OF ok]
  define a where "a = next_addr s + header_offset"
  obtain d where d: "dirs s p = Some d"
    using in_use_dirs [OF p(1)] by blast
  obtain j where j: "Inodes s p = Some j"
    using s(1) d by (rule dir_inode)
  obtain h where h: "Objects s p = Some h" "header_ok h"
    using s(1) j by (rule fs_inv_inode)
  have l: "length (ReferenceReasons h) = 12"
    using h(2) by (simp add: header_ok_def)
  have "Inodes s p \<noteq> None"
    using j by simp
  then have rm: "room s p 1" "room s p 2"
    using refs_room [OF room] by simp_all
  have m: "dir_map s p name = None" "name \<noteq> ''.''"
    using p by (auto simp: fs_of_def)
  obtain t da where t: "BitbucketCreateDirectory p name s = Some (a, t)" "fs_inv t" "idle t"
    "dir_map t = (dir_map s)(a := [''.'' \<mapsto> a, ''..'' \<mapsto> p], p := (dir_map s p)(name \<mapsto> a))"
    "Objects t = (Objects s)(a \<mapsto> add_reference 2 (add_reference 2 (new_header 960)), p \<mapsto> add_reference 2 (add_reference 1 h))"
    "dirs t a = Some da" "Parent da = p" "Inodes s a = None" "born DirectoryObjectAttributes s t a" "\<And>b. Inodes t b = None \<longleftrightarrow> Inodes s b = None \<and> b \<noteq> a"
    "\<And>b. b \<noteq> a \<Longrightarrow> b \<noteq> p \<Longrightarrow> dirs t b = dirs s b" "dirs t p \<noteq> None"
    using create_directory(1) [OF s(1,2) next_ino_fresh(1) [OF s(1) num] a_def d h(1) rm name m(1)] by blast
  note B = born_view [OF s(1) num t(9)]
  have ap: "a \<noteq> p" "dir_map s a = Map.empty"
    using t(8) j by (auto simp: dir_map_def dirs_def)
  have "room s p 1 \<and> ReferenceReasons h ! 1 \<noteq> -1" "ReferenceReasons h ! 2 \<noteq> -1"
    using rm room_header [OF _ h(1)] by auto
  then have c: "unat (ReferenceReasons h ! 1 + 1) = Suc (unat (ReferenceReasons h ! 1))" "unat (ReferenceReasons h ! 2 + 1) = Suc (unat (ReferenceReasons h ! 2))"
    using add_reference_counts(1) [OF h(2), of 1 1] add_reference_counts(1) [OF h(2), of 2 2] l by simp_all
  have new: "ReferenceReasons (new_header 960) ! r = (if r = 0 then 1 else 0)" if "r < 12" for r
    using that by (auto simp: new_header_def less_Suc_eq numeral_eq_Suc)
  have refs: "refs (fs_of t) b r = refs (made_directory p name a ino n (fs_of s)) b r" for b r
    unfolding made_directory_def
    using t(5,8,10) j h(1) l c new ap(1) by (cases "b = a"; cases "b = p") (auto simp: fs_of_def reason_count_def)
  have F: "fs_of t = made_directory p name a ino n (fs_of s)"
    using B ap t(4) by (intro fs_eqI refs) (simp_all add: made_directory_def, simp_all add: fs_of_def fun_eq_iff)
  have "dots_ok t"
    unfolding dots_ok_def childless_def
  proof (intro allI impI)
    fix b
    assume "dirs t b \<noteq> None"
    then show "dir_map t b ''.'' = Some b \<or> (\<forall>d. dirs t b = Some d \<longrightarrow> Entries d = [] \<and> Parent d = NULL)"
      using s(3) p(1) m(2) t(4,11) ap unfolding dots_ok_def childless_def by (cases "b = a"; cases "b = p") (auto simp: fs_of_def)
  qed
  moreover have "dirs t root \<noteq> None" "root \<noteq> a"
    using t(6,8,12) t(11) [of root] s(4,6) by (cases "root = p"; cases "root = a"; force)+
  moreover have "0 < refs (fs_of t) root 0"
    unfolding F made_directory_def using s(5) \<open>root \<noteq> a\<close> by simp
  ultimately have "fs_ok root t"
    using t(2,3) born_stored [OF s(1) num t(9) s(7)] by (simp add: fs_ok_def)
  moreover have "inos (fs_of s) a = None"
    using inos_live [of s a] t(8) by simp
  ultimately show ?thesis
    using t(1) F by (auto simp: a_def)
qed

section \<open>Files with a storage file\<close>

lemma kind_ok_mono: "kind_ok s k \<Longrightarrow> (\<And>n. Storage s n \<noteq> None \<Longrightarrow> Storage t n \<noteq> None) \<Longrightarrow> kind_ok t k"
  unfolding kind_ok_def by (simp split: option.splits registered.splits) blast

text \<open>A file gets a storage file of a name that no other file has.\<close>

lemma storage_given:
  assumes inv: "fs_inv s" and i: "Inodes s a = Some i" "Instance i = File f" "Map f = None" "MapName f = None" and name: "Storage s name = None"
  defines "t \<equiv> set_inode a (i\<lparr>Instance := File (f\<lparr>MapName := Some name\<rparr>)\<rparr>) (s\<lparr>Storage := (Storage s)(name \<mapsto> [])\<rparr>)"
  shows "fs_inv t" "dirs t = dirs s" "dir_map t = dir_map s" "lock_of t = lock_of s" "rest t = rest s" "Objects t = Objects s" "Inodes t b = None \<longleftrightarrow> Inodes s b = None"
    "Dirents t = Dirents s" "Tick t = Tick s" "table_map t = table_map s"
proof -
  note s = fs_invD [OF inv]
  let ?i = "i\<lparr>Instance := File (f\<lparr>MapName := Some name\<rparr>)\<rparr>"
  have v: "Inodes t = (Inodes s)(a \<mapsto> ?i)" "Objects t = Objects s" "Dirents t = Dirents s" "Xattrs t = Xattrs s" "Storage t = (Storage s)(name \<mapsto> [])"
    "InodeTable t = InodeTable s" "next_addr t = next_addr s" "InodeNumbers t = InodeNumbers s" "Environment t = Environment s" "Tick t = Tick s"
    by (simp_all add: t_def set_inode_def)
  have io: "ino_of t = ino_of s" "kind_of t = kind_of s" "nlink t = nlink s" "lock_of t = lock_of s" "dirs t = dirs s"
    using i(1,2) by (auto simp: ino_of_def kind_of_def nlink_def lock_of_def dirs_def v(1) the_directory.simps fun_eq_iff)
  have dm: "Inodes t b = None \<longleftrightarrow> Inodes s b = None" for b
    using i(1) by (simp add: v(1))
  have "same_table (InodeTable s) (InodeTable t)"
    by (simp add: same_table_def v(6))
  note T = same_table_ok [OF this io(1) s(1)]
  have ok: "inode_ok t b j" if j: "Inodes t b = Some j" for b j
  proof -
    obtain k where k: "Inodes s b = Some k" "b = a \<and> k = i \<and> j = ?i \<or> b \<noteq> a \<and> j = k"
      using j i(1) v(1) by (cases "b = a") auto
    have o: "inode_ok s b k"
      by (rule s(5) [OF k(1)])
    then have "kind_ok t j"
      using k(2)
    proof (elim disjE conjE)
      assume "k = i" "j = ?i"
      then show ?thesis
        using o i(2,3) v(5) by (auto simp: inode_ok_def kind_ok_def map_releasable_def split: option.splits registered.splits)
    next
      assume "j = k"
      then show ?thesis
        using o v(5) unfolding inode_ok_def by (auto intro: kind_ok_mono)
    qed
    moreover have "xattr_ok t j = xattr_ok s k"
      using k(2) by (intro xattr_ok_cong2 v(4)) auto
    ultimately show ?thesis
      using o k(2) T(2) v(2) by (auto simp: inode_ok_def)
  qed
  have other: "map_name k \<noteq> Some name" if "Inodes s b = Some k" for b k
    using s(5) [OF that] name by (auto simp: inode_ok_def kind_ok_def map_name_def split: option.splits registered.splits)
  have mi: "map_name ?i = Some name" "map_name i = None"
    using i(2,4) by (simp_all add: map_name_def)
  have "owners_ok t"
    unfolding owners_ok_def
  proof (intro allI impI)
    fix b c k l
    assume bc: "Inodes t b = Some k \<and> Inodes t c = Some l \<and> b \<noteq> c"
    obtain k' l' where o: "Inodes s b = Some k'" "Inodes s c = Some l'" "ExtendedAttributes k = ExtendedAttributes k'" "ExtendedAttributes l = ExtendedAttributes l'"
      "map_name k = (if b = a then Some name else map_name k')" "map_name l = (if c = a then Some name else map_name l')"
      using bc i(1) v(1) mi by (cases "b = a"; cases "c = a") auto
    then show "set (ExtendedAttributes k) \<inter> set (ExtendedAttributes l) = {} \<and> (map_name k \<noteq> None \<longrightarrow> map_name k \<noteq> map_name l)"
      using s(6) bc other [OF o(1)] other [OF o(2)] unfolding owners_ok_def by metis
  qed
  moreover have "reason_count t = reason_count s"
    by (simp add: reason_count_def v(2) fun_eq_iff)
  moreover have "dom (Inodes t) = dom (Inodes s)"
    using i(1) v(1) by auto
  moreover have "fresh_ok t"
    using s(10) unfolding fresh_ok_def dm v(3,4,7) .
  ultimately show "fs_inv t"
    using s ok T v(6) views_ok [OF io(5) v(3) dm] refs_ok_cong [OF io(5) v(3) dm] links_ok_cong [OF io(5) v(3) io(3)] v(3)
    by (simp add: fs_inv_def table_inv_def)
  show "dirs t = dirs s" "dir_map t = dir_map s" "lock_of t = lock_of s" "rest t = rest s" "Objects t = Objects s" "Inodes t b = None \<longleftrightarrow> Inodes s b = None"
    "Dirents t = Dirents s" "Tick t = Tick s" "table_map t = table_map s"
    using io v dm views_ok(2) [OF io(5) v(3) dm] T(2) by (simp_all add: rest_def)
qed

lemma slash_split:
  assumes "xs @ CHR ''/'' # u = ys @ CHR ''/'' # v" "CHR ''/'' \<notin> set u" "CHR ''/'' \<notin> set v"
  shows "u = v"
proof -
  have "takeWhile (\<lambda>c. c \<noteq> CHR ''/'') (rev (zs @ CHR ''/'' # w)) = rev w" if "CHR ''/'' \<notin> set w" for zs w :: string
    using that by (subst rev_append, subst rev.simps, subst append_assoc, subst takeWhile_append2) auto
  from this [OF assms(2), of xs] this [OF assms(3), of ys] assms(1) show ?thesis
    by simp
qed

lemma storage_name_inj:
  assumes "uuids_ok env" "storage_name dir (Uuid env k) = storage_name dir' (Uuid env l)"
  shows "k = l"
  using assms slash_split [of dir "Uuid env k" dir' "Uuid env l"] by (auto simp: uuids_ok_def storage_name_def dest: injD)

lemma created_storage:
  assumes inv: "fs_inv s" "stored_ok s" and c: "BitbucketCreateInode (Some FileObjectAttributes) 0 s = Some (a, s1)" "fs_inv s1"
    "Inodes s1 a = Some (new_inode FileObjectAttributes s 960 ino)" "Environment s1 = Environment s" "Storage s1 = Storage s" "Tick s < Tick s1"
    and os: "storage_dir \<noteq> None \<Longrightarrow> os_open os = 0"
  shows "\<exists>t. (case storage_dir of None \<Rightarrow> Some s1 | Some dir \<Rightarrow> create_storage os dir a s1) = Some t \<and> fs_inv t \<and> stored_ok t
    \<and> dirs t = dirs s1 \<and> dir_map t = dir_map s1 \<and> lock_of t = lock_of s1 \<and> rest t = rest s1 \<and> Objects t = Objects s1 \<and> (\<forall>b. Inodes t b = None \<longleftrightarrow> Inodes s1 b = None)
    \<and> (\<exists>j. Inodes t a = Some j \<and> Attributes j = Attributes (new_inode FileObjectAttributes s 960 ino))"
proof (cases storage_dir)
  case None
  then show ?thesis
    using c stored_step [OF inv(2), of s1] by auto
next
  case (Some dir)
  let ?i = "new_inode FileObjectAttributes s 960 ino" and ?name = "storage_name dir (Uuid (Environment s) (Tick s))"
  obtain f where f: "Instance ?i = File f" "MapName f = None" "Map f = None"
    by (simp add: new_inode_def)
  have u: "UuidString ?i = Uuid (Environment s) (Tick s)"
    by (simp add: new_inode_def plain_new_inode_def Let_def)
  have free: "Storage s1 ?name = None"
    using inv(2) c(5) by (simp add: stored_ok_def)
  let ?t = "set_inode a (?i\<lparr>Instance := File (f\<lparr>MapName := Some ?name\<rparr>)\<rparr>) (s1\<lparr>Storage := (Storage s1)(?name \<mapsto> [])\<rparr>)"
  note g = storage_given [OF c(2,3) f(1,3,2) free]
  have "stored_ok ?t"
    unfolding stored_ok_def
  proof (intro conjI allI impI)
    have e: "Environment ?t = Environment s" "Tick ?t = Tick s1" "Storage ?t = (Storage s)(?name \<mapsto> [])"
      using c(4,5) by (simp_all add: set_inode_def)
    show "uuids_ok (Environment ?t)"
      using inv(2) e(1) by (simp add: stored_ok_def)
    fix dir' k
    assume "Tick ?t \<le> k"
    then have "Tick s < k"
      using e(2) c(6) by simp
    moreover from this have "storage_name dir' (Uuid (Environment s) k) \<noteq> ?name"
      using inv(2) storage_name_inj [of "Environment s" dir' k dir "Tick s"] by (auto simp: stored_ok_def)
    ultimately show "Storage ?t (storage_name dir' (Uuid (Environment ?t) k)) = None"
      using inv(2) e by (simp add: stored_ok_def)
  qed
  moreover have "create_storage os dir a s1 = Some ?t"
    using Some os c(3) f(1) free u by (simp add: create_storage_def Let_def)
  moreover have "\<exists>j. Inodes ?t a = Some j \<and> Attributes j = Attributes ?i"
    by (simp add: set_inode_def)
  ultimately show ?thesis
    using Some g by (intro exI [of _ ?t] conjI allI) (simp_all only: option.case)
qed

lemma fs_ok_new_file:
  assumes ok: "fs_ok root s" and num: "next_ino (fs_of s) ino n" and os: "storage_dir \<noteq> None \<Longrightarrow> os_open os = 0"
  shows "\<exists>a i s1 t. BitbucketCreateInode (Some FileObjectAttributes) 0 s = Some (a, s1) \<and> Inodes s1 a = Some (new_inode FileObjectAttributes s 960 i)
    \<and> (case storage_dir of None \<Rightarrow> Some s1 | Some dir \<Rightarrow> create_storage os dir a s1) = Some t \<and> a \<noteq> NULL
    \<and> fs_ok root t \<and> inos (fs_of s) a = None \<and> fs_of t = new_node a FileObjectAttributes ino n (fs_of s)
    \<and> (\<exists>j. Inodes t a = Some j \<and> st_mode (Attributes j) AND S_IFMT = S_IFREG)"
proof -
  note s = fs_okD [OF ok]
  define a where "a = next_addr s + header_offset"
  obtain s1 i where s1: "BitbucketCreateInode (Some FileObjectAttributes) 0 s = Some (a, s1)" "fs_inv s1"
    "Inodes s1 = (Inodes s)(a \<mapsto> new_inode FileObjectAttributes s 960 i)" "Objects s1 = (Objects s)(a \<mapsto> new_header 960)"
    "Dirents s1 = Dirents s" "dirs s1 = (dirs s)(a := None)" "lock_of s1 = (lock_of s)(a \<mapsto> Unlocked)" "born FileObjectAttributes s s1 a" "Inodes s a = None"
    using create_fs [OF s(1) next_ino_fresh(1) [OF s(1) num] new_length [symmetric] _ a_def, of FileObjectAttributes] by auto
  note B = born_view [OF s(1) num s1(8)]
  have i: "Inodes s1 a = Some (new_inode FileObjectAttributes s 960 i)"
    using s1(3) by simp
  obtain t where t: "(case storage_dir of None \<Rightarrow> Some s1 | Some dir \<Rightarrow> create_storage os dir a s1) = Some t" "fs_inv t" "stored_ok t"
    "dirs t = dirs s1" "dir_map t = dir_map s1" "lock_of t = lock_of s1" "rest t = rest s1" "Objects t = Objects s1" "\<forall>b. Inodes t b = None \<longleftrightarrow> Inodes s1 b = None"
    "\<exists>j. Inodes t a = Some j \<and> Attributes j = Attributes (new_inode FileObjectAttributes s 960 i)"
    using created_storage [OF s(1,7) s1(1,2) i B(4-6), of storage_dir os] os by blast
  have da: "dirs s1 = dirs s" "dir_map s1 = dir_map s"
    using s1(5,6,9) by (auto simp: dir_map_def dirs_def fun_eq_iff)
  have new: "ReferenceReasons (new_header 960) ! r = (if r = 0 then 1 else 0)" if "r < 12" for r
    using that by (auto simp: new_header_def less_Suc_eq numeral_eq_Suc)
  have "refs (fs_of t) b r = refs (new_node a FileObjectAttributes ino n (fs_of s)) b r" for b r
    using t(8,9) s1(3,4,9) new [of r] by (cases "b = a") (auto simp: fs_of_def reason_count_def)
  then have F: "fs_of t = new_node a FileObjectAttributes ino n (fs_of s)"
    using B(1-3) t(5,7) da by (intro fs_eqI) (simp_all add: fs_of_def rest_def)
  have "root \<noteq> a"
    using s(6) s1(9) by auto
  then have "fs_ok root t"
    using s t(2-6) s1(7) da F by (auto simp: fs_ok_def dots_ok_def childless_def idle_lock_of)
  moreover have "inos (fs_of s) a = None" "a \<noteq> NULL"
    using s1(9) inos_live [of s a] by (simp_all add: a_def)
  moreover have "st_mode (Attributes (new_inode FileObjectAttributes s 960 i)) AND S_IFMT = S_IFREG"
    by (simp add: new_inode_def plain_new_inode_def Let_def)
  ultimately show ?thesis
    using s1(1) i t(1,10) F by metis
qed

lemma fs_ok_create_file:
  assumes ok: "fs_ok root s" and num: "next_ino (fs_of s) ino n" and p: "names (fs_of s) p ''.'' = Some p" "names (fs_of s) p name = None"
    and name: "0 < length name" "length name < 1023" and room: "roomy (Suc k) (fs_of s)" and os: "storage_dir \<noteq> None \<Longrightarrow> os_open os = 0"
  shows "\<exists>a t. BitbucketCreateFile os storage_dir p name s = Some (a, t) \<and> fs_ok root t \<and> inos (fs_of s) a = None \<and> a \<noteq> NULL
    \<and> fs_of t = made_file p name a ino n (fs_of s) \<and> (\<exists>j. Inodes t a = Some j \<and> st_mode (Attributes j) AND S_IFMT = S_IFREG)"
proof -
  note s = fs_okD [OF ok]
  obtain a i s1 s2 j2 where s2: "BitbucketCreateInode (Some FileObjectAttributes) 0 s = Some (a, s1)" "Inodes s1 a = Some (new_inode FileObjectAttributes s 960 i)"
    "(case storage_dir of None \<Rightarrow> Some s1 | Some dir \<Rightarrow> create_storage os dir a s1) = Some s2" "a \<noteq> NULL" "fs_ok root s2" "inos (fs_of s) a = None"
    "fs_of s2 = new_node a FileObjectAttributes ino n (fs_of s)" "Inodes s2 a = Some j2" "st_mode (Attributes j2) AND S_IFMT = S_IFREG"
    using fs_ok_new_file [OF ok num os] by blast
  obtain d where d: "dirs s p = Some d"
    using in_use_dirs [OF p(1)] by blast
  obtain j where j: "Inodes s p = Some j"
    using s(1) d by (rule dir_inode)
  have tj: "Table j" "is_directory p s"
    using fs_invD(5) [OF s(1) j] is_directory_dirs [OF s(1)] d by (auto simp: inode_ok_def)
  have ip: "inos (fs_of s2) a \<noteq> None" "roomy (Suc 0) (fs_of s2)"
    using roomy_mono [OF room, of "Suc 0"] by (simp_all add: s2(7) roomy_new_node)
  obtain t where t: "BitbucketInsertDirectoryEntry p a name s2 = Some (0, t)" "fs_ok root t" "fs_of t = ref_add 2 a (set_name p name (Some a) (fs_of s2))" "frame s2 t"
    using fs_ok_insert [OF s2(5), of p name a 0] p name ip by (auto simp: s2(7))
  have k: "InodeType (new_inode FileObjectAttributes s 960 i) = BITBUCKET_FILE_TYPE" "the_file (new_inode FileObjectAttributes s 960 i) \<noteq> None"
    "st_mode (Attributes (new_inode FileObjectAttributes s 960 i)) AND S_IFMT = S_IFREG"
    by (simp_all add: new_inode_def plain_new_inode_def Let_def)
  have "BitbucketCreateFile os storage_dir p name s = Some (a, t)"
    unfolding BitbucketCreateFile_def using tj j s2(1-4) t(1) k by simp
  moreover obtain j where "Inodes t a = Some j" "shape j = shape j2"
    using t(4) s2(8) unfolding frame_def by (metis map_option_eq_Some)
  ultimately show ?thesis
    using t(2,3) s2(4,6,7,9) shape_eqD(12) [of j j2] by (auto simp: made_file_def)
qed

end
