(* ===== verification/FsModify.thy ===== *)
theory FsModify
  imports FsChange FsRequests
begin

text \<open>The effect on the view of the request handlers that change directories.\<close>

section \<open>References and other updates\<close>

lemma ref_sub_add_other: "a \<noteq> b \<Longrightarrow> ref_sub r n b (ref_add q a A) = ref_add q a (ref_sub r n b A)"
  by (rule fs_eqI) (auto simp: ref_sub_def ref_add_def Let_def fun_eq_iff)

lemma held_sub [simp]: "held A \<Longrightarrow> held (ref_sub r n a A)"
  unfolding held_def
proof (intro allI impI)
  fix b
  assume A: "\<forall>a. inos A a \<noteq> None \<longrightarrow> (\<exists>q<12. 0 < refs A a q)" and b: "inos (ref_sub r n a A) b \<noteq> None"
  show "\<exists>q<12. 0 < refs (ref_sub r n a A) b q"
  proof (cases "b = a")
    case True
    have "\<not> (\<forall>q<12. ((refs A a)(r := refs A a r - n)) q = 0)"
    proof
      assume "\<forall>q<12. ((refs A a)(r := refs A a r - n)) q = 0"
      then have "inos (ref_sub r n a A) a = None"
        unfolding ref_sub_def Let_def by (subst if_P) simp_all
      then show False
        using b True by simp
    qed
    then show ?thesis
      using True by (auto split: if_splits)
  next
    case False
    then have "inos A b \<noteq> None"
      using b by (auto simp: ref_sub_def Let_def split: if_splits)
    then show ?thesis
      using A False by auto
  qed
qed

lemma inos_sub_other: "b \<noteq> a \<Longrightarrow> inos (ref_sub r n a A) b = inos A b"
  by (simp add: ref_sub_def Let_def)

lemma new_node_add: "a \<noteq> b \<Longrightarrow> new_node a k ino n (ref_add r b A) = ref_add r b (new_node a k ino n A)"
  by (rule fs_eqI) auto

lemma made_directory_add: "a \<noteq> b \<Longrightarrow> made_directory p name a ino n (ref_add r b A) = ref_add r b (made_directory p name a ino n A)"
  by (simp add: made_directory_def new_node_add set_name_add ref_add_commute [of _ _ r b])

lemma made_file_add: "a \<noteq> b \<Longrightarrow> made_file p name a ino n (ref_add r b A) = ref_add r b (made_file p name a ino n A)"
  by (simp add: made_file_def new_node_add set_name_add ref_add_commute [of _ _ r b])

lemma next_ino_add [simp]: "next_ino (ref_add r a A) ino n = next_ino A ino n"
  by (simp add: next_ino_def)

lemma names_live: "fs_ok root s \<Longrightarrow> names (fs_of s) p name = Some x \<Longrightarrow> inos (fs_of s) x \<noteq> None \<and> x \<noteq> NULL"
  using dir_map_live [OF fs_okD(1), of root s p name x] inos_live [of s x] fs_invD(5) [OF fs_okD(1), of root s x]
  by (auto simp: fs_of_def inode_ok_def)

text \<open>The end of a handler that has changed the view below its own reference.\<close>

lemma finish_changed:
  assumes "fs_ok root t" "fs_of t = ref_add 0 p B" "inos B p \<noteq> None" "held B" "0 < refs B root 0"
  shows "\<exists>u. put_inode p t = Some u \<and> BitbucketDereferenceInode p 0 1 t = Some u \<and> fs_ok root u \<and> fs_of u = B"
  using fs_ok_put [OF assms] by blast

lemma put_both:
  assumes "fs_ok root t" "fs_of t = ref_add 0 x (ref_add 0 p B)" "inos B x \<noteq> None" "inos B p \<noteq> None" "held B" "0 < refs B root 0"
  shows "\<exists>u v. put_inode x t = Some u \<and> put_inode p u = Some v \<and> fs_ok root v \<and> fs_of v = B"
  using fs_ok_put [OF assms(1,2)] fs_ok_put [of root _ p B] assms(3-6) by fastforce

section \<open>Unlink\<close>

definition after_unlink :: "addr \<Rightarrow> string \<Rightarrow> addr \<Rightarrow> fs \<Rightarrow> fs" where
  "after_unlink p name x A = ref_sub INODE_DIRENT_REFERENCE 1 x (set_name p name None A)"

lemma handle_unlink:
  assumes ok: "fs_ok root s" and req: "RootDirectory (userdata req) = root" "parent \<noteq> 0" and room: "roomy 2 (fs_of s)" and name: "name \<noteq> []"
    and x: "\<forall>p x. target root s parent = Some p \<and> names (fs_of s) p name = Some x \<longrightarrow> kinds (fs_of s) x \<noteq> Some DirectoryObjectAttributes"
  shows "\<exists>status t. bitbucket_internal_unlink req parent name s = Some (status, [reply_err status], t) \<and> fs_ok root t
    \<and> (case target root s parent of
         None \<Rightarrow> status = EBADF \<and> fs_of t = fs_of s
       | Some p \<Rightarrow> if kinds (fs_of s) p \<noteq> Some DirectoryObjectAttributes then status = EISDIR \<and> fs_of t = fs_of s
           else (case names (fs_of s) p name of
             None \<Rightarrow> status = ENOENT \<and> fs_of t = fs_of s
           | Some x \<Rightarrow> status = 0 \<and> fs_of t = after_unlink p name x (fs_of s)))"
proof (cases "target root s parent")
  case None
  then show ?thesis
    using begin_unknown [OF ok req, of 1] room by (auto simp: bitbucket_internal_unlink_def numeral_2_eq_2)
next
  case P: (Some p)
  let ?A = "fs_of s"
  note H = held_fs [OF fs_okD(1) [OF ok]]
  obtain s1 i where s1: "get_inode req parent s = Some (p, s1)" "fs_ok root s1" "fs_of s1 = ref_add 0 p ?A" "p \<noteq> NULL" "inos ?A p = Some (st_ino (Attributes i))" "Inodes s1 p = Some i"
    using begin_known [OF ok req, of 1 p] room P by (auto simp: numeral_2_eq_2)
  have k: "InodeType i = BITBUCKET_DIR_TYPE \<longleftrightarrow> kinds ?A p = Some DirectoryObjectAttributes"
    using kind_type(1) [OF fs_okD(1) [OF s1(2)] s1(6)] s1(3) by simp
  obtain t0 where t0: "put_inode p s1 = Some t0" "fs_ok root t0" "fs_of t0 = ?A"
    using finish_request [OF ok s1(2,3)] s1(5) by auto
  show ?thesis
  proof (cases "kinds ?A p = Some DirectoryObjectAttributes")
    case False
    then show ?thesis
      using P s1 k t0 by (simp add: bitbucket_internal_unlink_def)
  next
    case D: True
    show ?thesis
    proof (cases "names ?A p name")
      case None
      obtain s2 where s2: "BitbucketDeleteDirectoryEntry p name s1 = Some (ENOENT, s2)" "fs_ok root s2" "fs_of s2 = ref_add 0 p ?A"
        using fs_ok_delete_missing [OF s1(2), of p name] None D name s1(3) by auto
      then obtain t where "put_inode p s2 = Some t" "fs_ok root t" "fs_of t = ?A"
        using finish_request [OF ok s2(2,3)] s1(5) by auto
      then show ?thesis
        using P D None s1 k s2 by (simp add: bitbucket_internal_unlink_def)
    next
      case (Some x)
      let ?B = "after_unlink p name x ?A"
      have xp: "x \<noteq> p"
        using x P Some D by auto
      have "roomy (Suc 0) (fs_of s1)"
        unfolding s1(3) using room by (simp add: numeral_2_eq_2)
      then obtain s2 where s2: "BitbucketDeleteDirectoryEntry p name s1 = Some (0, s2)" "fs_ok root s2" "fs_of s2 = after_unlink p name x (ref_add 0 p ?A)"
        using fs_ok_delete [OF s1(2), of p name x] Some name x P s1(3) by (auto simp: after_unlink_def)
      have F: "fs_of s2 = ref_add 0 p ?B"
        using xp unfolding s2(3) after_unlink_def by (simp add: set_name_add ref_sub_add_other)
      obtain t where "put_inode p s2 = Some t" "fs_ok root t" "fs_of t = ?B"
        using finish_changed [OF s2(2) F] xp s1(5) H fs_okD(5) [OF ok] by (auto simp: after_unlink_def inos_sub_other)
      then show ?thesis
        using P D Some s1 k s2 by (simp add: bitbucket_internal_unlink_def)
    qed
  qed
qed

section \<open>New directories and files\<close>

text \<open>Setting the permissions, not the type, of an inode.\<close>

lemma set_mode_touch:
  assumes "Inodes s a = Some i" "m (Attributes i) AND S_IFMT = st_mode (Attributes i) AND S_IFMT"
  shows "\<exists>t. set_attributes a (\<lambda>attr. attr\<lparr>st_mode := m attr\<rparr>) s = Some t \<and> touch s t \<and> lock_of t = lock_of s"
proof -
  let ?j = "i\<lparr>Attributes := (Attributes i)\<lparr>st_mode := m (Attributes i)\<rparr>\<rparr>"
  have "touch s (set_inode a ?j s)"
    using assms by (intro touch_set_inode [of s a i]) (simp_all add: core_def)
  moreover have "lock_of (set_inode a ?j s) = lock_of s"
    using assms(1) by (simp add: lock_of_def fun_upd_idem)
  ultimately show ?thesis
    using assms(1) by (simp add: set_attributes_def)
qed

lemma permissions_only:
  "((x AND S_IFMT) OR (m AND NOT S_IFMT)) AND S_IFMT = x AND (S_IFMT :: u32)"
  "m AND S_IFMT = S_IFREG \<Longrightarrow> (m AND S_IFMT OR m AND ALLPERMS) AND S_IFMT = (S_IFREG :: u32)"
proof -
  show "((x AND S_IFMT) OR (m AND NOT S_IFMT)) AND S_IFMT = x AND (S_IFMT :: u32)"
    by (rule bit_word_eqI) (auto simp: bit_simps)
  assume "m AND S_IFMT = S_IFREG"
  moreover have "(m AND S_IFMT OR m AND ALLPERMS) AND S_IFMT = m AND (S_IFMT :: u32)"
  proof -
    have "(m AND S_IFMT OR m AND ALLPERMS) AND S_IFMT = m AND ((S_IFMT OR ALLPERMS) AND (S_IFMT :: u32))"
      by (simp only: and.assoc bit.conj_disj_distrib [symmetric])
    then show ?thesis
      by simp
  qed
  ultimately show "(m AND S_IFMT OR m AND ALLPERMS) AND S_IFMT = (S_IFREG :: u32)"
    by simp
qed

lemma roomy_made_directory: "roomy (Suc (Suc (Suc (Suc k)))) A \<Longrightarrow> k + 5 < 2 ^ 32 \<Longrightarrow> roomy k (made_directory p name a ino n A)"
  unfolding made_directory_def by (simp add: roomy_new_node)

lemma roomy_made_file: "roomy (Suc k) A \<Longrightarrow> k + 2 < 2 ^ 32 \<Longrightarrow> roomy k (made_file p name a ino n A)"
  unfolding made_file_def by (simp add: roomy_new_node)

definition after_mkdir :: "addr \<Rightarrow> string \<Rightarrow> addr \<Rightarrow> u64 \<Rightarrow> inode_numbers \<Rightarrow> fs \<Rightarrow> fs" where
  "after_mkdir p name a ino n A = ref_sub INODE_LOOKUP_REFERENCE 1 a (ref_add INODE_FUSE_LOOKUP_REFERENCE a (made_directory p name a ino n A))"

definition after_create :: "addr \<Rightarrow> string \<Rightarrow> addr \<Rightarrow> u64 \<Rightarrow> inode_numbers \<Rightarrow> fs \<Rightarrow> fs" where
  "after_create p name a ino n A = ref_sub INODE_LOOKUP_REFERENCE 1 a (ref_add INODE_FUSE_OPEN_REFERENCE a
     (ref_add INODE_FUSE_LOOKUP_REFERENCE a (made_file p name a ino n A)))"

lemma made_simps [simp]:
  "inos (made_directory p name a ino n A) = (inos A)(a \<mapsto> ino)" "inos (made_file p name a ino n A) = (inos A)(a \<mapsto> ino)"
  "held A \<Longrightarrow> held (made_directory p name a ino n A)" "held A \<Longrightarrow> held (made_file p name a ino n A)"
  "kinds (made_directory p name a ino n A) = (kinds A)(a \<mapsto> DirectoryObjectAttributes)" "kinds (made_file p name a ino n A) = (kinds A)(a \<mapsto> FileObjectAttributes)"
  by (simp_all add: made_directory_def made_file_def)

lemma made_refs:
  "b \<noteq> a \<Longrightarrow> refs (made_directory p name a ino n A) b 0 = refs A b 0" "a \<noteq> p \<Longrightarrow> refs (made_directory p name a ino n A) a 0 = 1"
  "b \<noteq> a \<Longrightarrow> refs (made_file p name a ino n A) b 0 = refs A b 0" "refs (made_file p name a ino n A) a 0 = 1"
  by (simp_all add: made_directory_def made_file_def)

lemma handle_mkdir:
  assumes ok: "fs_ok root s" and req: "RootDirectory (userdata req) = root" "parent \<noteq> 0" and room: "roomy 8 (fs_of s)"
    and p: "\<forall>p. target root s parent = Some p \<longrightarrow> names (fs_of s) p ''.'' = Some p \<and> names (fs_of s) p name = None"
    and name: "0 < length name" "length name < 1023" and num: "next_ino (fs_of s) ino n"
  shows "\<exists>status replies t. bitbucket_internal_mkdir req parent name mode s = Some (status, replies, t) \<and> fs_ok root t
    \<and> (case target root s parent of
         None \<Rightarrow> status = ENOENT \<and> replies = [reply_err ENOENT] \<and> fs_of t = fs_of s
       | Some p \<Rightarrow> status = 0 \<and> (\<exists>a e. inos (fs_of s) a = None \<and> replies = [reply_entry e] \<and> fep_ino e = ino \<and> fs_of t = after_mkdir p name a ino n (fs_of s)))"
proof (cases "target root s parent")
  case None
  then show ?thesis
    using begin_unknown [OF ok req, of 7] room by (auto simp: bitbucket_internal_mkdir_def)
next
  case P: (Some p)
  let ?A = "fs_of s"
  note H = held_fs [OF fs_okD(1) [OF ok]] and room = room [unfolded eval_nat_numeral BitM.simps numeral_1_eq_Suc_0]
  have in_use: "names ?A p ''.'' = Some p" "names ?A p name = None"
    using p P by simp_all
  obtain s1 i where s1: "get_inode req parent s = Some (p, s1)" "fs_ok root s1" "fs_of s1 = ref_add 0 p ?A" "p \<noteq> NULL" "inos ?A p = Some (st_ino (Attributes i))" "Inodes s1 p = Some i"
    using begin_known [OF ok req room P] by auto
  have d: "S_ISDIR (st_mode (Attributes i))"
    using kind_type(3) [OF fs_okD(1) [OF s1(2)] s1(6)] kind_dirs [OF fs_okD(1) [OF ok], of p] in_use_dirs [OF in_use(1)] s1(3) by simp
  have "roomy (Suc (Suc (Suc (Suc (Suc (Suc (Suc 0))))))) (fs_of s1)"
    unfolding s1(3) by (rule roomy_add [OF room])
  then obtain a s2 where s2: "BitbucketCreateDirectory p name s1 = Some (a, s2)" "fs_ok root s2" "inos ?A a = None" "a \<noteq> NULL"
    "fs_of s2 = made_directory p name a ino n (ref_add 0 p ?A)"
    using fs_ok_mkdir [OF s1(2), of ino n p name "Suc (Suc (Suc (Suc (Suc 0))))"] num in_use name s1(3) by auto
  have ap: "a \<noteq> p" "a \<noteq> root"
    using s2(3) s1(5) fs_okD(6) [OF ok] inos_live [of s root] by auto
  let ?M = "made_directory p name a ino n ?A"
  have F2: "fs_of s2 = ref_add 0 p ?M"
    using s2(5) ap(1) by (simp add: made_directory_add)
  have "Inodes s2 a \<noteq> None"
    using inos_live [of s2 a] by (simp add: F2)
  then obtain ja where ja: "Inodes s2 a = Some ja"
    by blast
  obtain s3 where s3: "set_attributes a (\<lambda>attr. attr\<lparr>st_mode := (st_mode attr AND S_IFMT) OR (mode AND NOT S_IFMT)\<rparr>) s2 = Some s3" "touch s2 s3" "lock_of s3 = lock_of s2"
    using set_mode_touch [OF ja, of "\<lambda>attr. (st_mode attr AND S_IFMT) OR (mode AND NOT S_IFMT)"] permissions_only(1) by blast
  note k3 = fs_ok_touch [OF s2(2) s3(2,3)]
  have "Inodes s3 a \<noteq> None"
    using ja touch_None [OF s3(2), of a] by simp
  then obtain i3 where i3: "Inodes s3 a = Some i3"
    by blast
  have "roomy (Suc 0) (fs_of s3)"
    unfolding k3(2) F2 using room by (intro roomy_add roomy_made_directory) (auto intro: roomy_mono)
  then obtain s4 where s4: "BitbucketReferenceInode a 5 s3 = Some s4" "fs_ok root s4" "fs_of s4 = ref_add 0 p (ref_add 5 a ?M)"
    using fs_ok_add [OF k3(1), of a 5 0] i3 F2 k3(2) by (auto simp: ref_add_commute)
  obtain s5 where s5: "put_inode p s4 = Some s5" "fs_ok root s5" "fs_of s5 = ref_add 5 a ?M"
    using finish_changed [OF s4(2,3)] ap s1(5) H fs_okD(5) [OF ok] by (auto simp: made_refs)
  obtain t where t: "BitbucketDereferenceInode a 0 1 s5 = Some t" "fs_ok root t" "fs_of t = after_mkdir p name a ino n ?A"
    using fs_ok_sub [OF s5(2), of 0 a] s5(3) ap by (auto simp: made_refs after_mkdir_def)
  have "fep_ino (entry_param req i3) = ino"
    using ino_view [OF i3] k3(2) F2 by (simp add: entry_param_def)
  then show ?thesis
    using P s1 d s2(1,3,4) s3(1) i3 s4(1) s5(1) t by (auto simp: bitbucket_internal_mkdir_def put_inode_def)
qed

text \<open>Creating a regular file under a free name.\<close>

lemma handle_create:
  assumes ok: "fs_ok root s" and req: "RootDirectory (userdata req) = root" "parent \<noteq> 0" and room: "roomy 8 (fs_of s)"
    and p: "\<forall>p. target root s parent = Some p \<longrightarrow> names (fs_of s) p ''.'' = Some p \<and> names (fs_of s) p name = None"
    and name: "0 < length name" "length name < 1023" and num: "next_ino (fs_of s) ino n" and mode: "mode AND S_IFMT = S_IFREG"
    and os: "StorageDir (userdata req) \<noteq> None \<Longrightarrow> os_open (req_os req) = 0"
  shows "\<exists>status replies t. bitbucket_internal_create req parent name mode fi s = Some (status, replies, t) \<and> fs_ok root t
    \<and> (case target root s parent of
         None \<Rightarrow> status = EBADF \<and> replies = [reply_err EBADF] \<and> fs_of t = fs_of s
       | Some p \<Rightarrow> status = 0 \<and> (\<exists>a e. inos (fs_of s) a = None \<and> replies = [reply_create e (fi\<lparr>fh := a\<rparr>)] \<and> fep_ino e = ino
           \<and> fs_of t = after_create p name a ino n (fs_of s)))"
proof (cases "target root s parent")
  case None
  then show ?thesis
    using begin_unknown [OF ok req, of 7] room by (auto simp: bitbucket_internal_create_def)
next
  case P: (Some p)
  let ?A = "fs_of s"
  note H = held_fs [OF fs_okD(1) [OF ok]] and room = room [unfolded eval_nat_numeral BitM.simps numeral_1_eq_Suc_0]
  have in_use: "names ?A p ''.'' = Some p" "names ?A p name = None"
    using p P by simp_all
  obtain s0 where s0: "get_inode req parent s = Some (p, s0)" "fs_ok root s0" "fs_of s0 = ref_add 0 p ?A" "p \<noteq> NULL" "inos ?A p \<noteq> None" "dirs s0 = dirs s"
    using begin_known [OF ok req room P] by auto
  have r0: "roomy (Suc (Suc (Suc (Suc (Suc (Suc (Suc 0))))))) (fs_of s0)"
    unfolding s0(3) by (rule roomy_add [OF room])
  have "dir_map s0 p name = None"
    using in_use(2) arg_cong [OF s0(3), of names] by (simp add: fs_of_def)
  then obtain s1 where s1: "BitbucketLookupObjectInDirectory p name s0 = Some (NULL, s1)" "fs_ok root s1" "fs_of s1 = ref_add 0 p ?A"
    using fs_ok_lookup [OF s0(2) _ r0, of p name] in_use_dirs [OF in_use(1)] s0(3,6) by (auto simp: address_def ref_opt_def)
  obtain a s2 ja where s2: "BitbucketCreateFile (req_os req) (StorageDir (userdata req)) p name s1 = Some (a, s2)" "fs_ok root s2" "inos ?A a = None" "a \<noteq> NULL"
    "fs_of s2 = made_file p name a ino n (ref_add 0 p ?A)" "Inodes s2 a = Some ja" "st_mode (Attributes ja) AND S_IFMT = S_IFREG"
    using fs_ok_create_file [OF s1(2) _ _ _ name, of ino n p "Suc (Suc (Suc (Suc (Suc (Suc 0)))))" "StorageDir (userdata req)" "req_os req"] num in_use os s1(3) s0(3) r0 by auto
  have ap: "a \<noteq> p" "a \<noteq> root"
    using s2(3) s0(5) fs_okD(6) [OF ok] inos_live [of s root] by auto
  let ?M = "made_file p name a ino n ?A"
  have F2: "fs_of s2 = ref_add 0 p ?M"
    using s2(5) ap(1) by (simp add: made_file_add)
  obtain s3 where s3: "set_attributes a (\<lambda>attr. attr\<lparr>st_mode := mode AND S_IFMT OR mode AND ALLPERMS\<rparr>) s2 = Some s3" "touch s2 s3" "lock_of s3 = lock_of s2"
    using set_mode_touch [OF s2(6), of "\<lambda>attr. mode AND S_IFMT OR mode AND ALLPERMS"] permissions_only(2) [OF mode] s2(7) by auto
  note k3 = fs_ok_touch [OF s2(2) s3(2,3)]
  have "Inodes s3 a \<noteq> None"
    using s2(6) touch_None [OF s3(2), of a] by simp
  then obtain i3 where i3: "Inodes s3 a = Some i3"
    by blast
  have r3: "roomy (Suc (Suc 0)) (fs_of s3)"
    unfolding k3(2) F2 using room by (intro roomy_add roomy_made_file) (auto intro: roomy_mono)
  then obtain s4 where s4: "BitbucketReferenceInode a 5 s3 = Some s4" "fs_ok root s4" "fs_of s4 = ref_add 0 p (ref_add 5 a ?M)" "Inodes s4 = Inodes s3"
    using fs_ok_add [OF k3(1), of a 5 "Suc 0"] i3 F2 k3(2) by (auto simp: ref_add_commute)
  have "roomy (Suc 0) (fs_of s4)"
    using r3 unfolding k3(2) F2 s4(3) by (subst ref_add_commute) (rule roomy_add)
  then obtain s5 where s5: "BitbucketReferenceInode a 6 s4 = Some s5" "fs_ok root s5" "fs_of s5 = ref_add 0 p (ref_add 6 a (ref_add 5 a ?M))"
    using fs_ok_add [OF s4(2), of a 6 0] i3 s4(3,4) by (auto simp: ref_add_commute)
  obtain s6 where s6: "BitbucketDereferenceInode a 0 1 s5 = Some s6" "fs_ok root s6" "fs_of s6 = ref_add 0 p (after_create p name a ino n ?A)"
    using fs_ok_sub [OF s5(2), of 0 a] s5(3) ap by (auto simp: made_refs after_create_def ref_sub_add_other)
  have B: "inos (after_create p name a ino n ?A) p \<noteq> None" "held (after_create p name a ino n ?A)" "0 < refs (after_create p name a ino n ?A) root 0"
    using ap s0(5) H fs_okD(5) [OF ok] by (auto simp: after_create_def inos_sub_other made_refs)
  obtain t where t: "put_inode p s6 = Some t" "fs_ok root t" "fs_of t = after_create p name a ino n ?A"
    using finish_changed [OF s6(2,3) B] by auto
  have e: "fep_ino (entry_param req i3) = ino"
    using ino_view [OF i3] k3(2) F2 by (simp add: entry_param_def)
  have "create_by_type req p name (mode AND S_IFMT) s1 = Some (a, s2)"
    using mode s2(1) by (simp add: create_by_type_def)
  then have "bitbucket_internal_create req parent name mode fi s = Some (0, [reply_create (entry_param req i3) (fi\<lparr>fh := a\<rparr>)], t)"
    using P s0(1,4) s1(1) s2(4) s3(1) i3 s4(1) s5(1) s6(1) t(1) by (simp add: bitbucket_internal_create_def Let_def)
  then show ?thesis
    using P t(2,3) s2(3) e by auto
qed

section \<open>Link\<close>

definition after_link :: "addr \<Rightarrow> string \<Rightarrow> addr \<Rightarrow> fs \<Rightarrow> fs" where
  "after_link p name x A = ref_add INODE_FUSE_LOOKUP_REFERENCE x (ref_add INODE_DIRENT_REFERENCE x (set_name p name (Some x) A))"

lemma link_loop_free:
  assumes "BitbucketInsertDirectoryEntry p x name s = Some (0, t)"
  shows "link_loop p x name s = Some (0, t)"
  using assms by (subst link_loop.simps) simp

lemma table_target: "ino \<noteq> FUSE_ROOT_ID \<Longrightarrow> target root s ino = table_map s ino"
  by (simp add: target_def)

text \<open>A new name for a file, where the name is free.\<close>

lemma handle_link_known:
  assumes ok: "fs_ok root s" and req: "RootDirectory (userdata req) = root" "ino \<noteq> 0" "ino \<noteq> FUSE_ROOT_ID" "newparent \<noteq> 0" and room: "roomy 8 (fs_of s)"
    and x: "target root s ino = Some x" and P: "target root s newparent = Some p"
    and p: "kinds (fs_of s) x = Some FileObjectAttributes \<Longrightarrow> names (fs_of s) p ''.'' = Some p \<and> names (fs_of s) p name = None"
    and name: "0 < length name" "length name < 1023"
  shows "\<exists>status replies t. bitbucket_internal_link req ino newparent name s = Some (status, replies, t) \<and> fs_ok root t
    \<and> (if kinds (fs_of s) x = Some FileObjectAttributes
       then status = 0 \<and> fs_of t = after_link p name x (fs_of s) \<and> (\<exists>e. replies = [reply_entry e] \<and> Some (fep_ino e) = inos (fs_of s) x)
       else status = (if kinds (fs_of s) x = Some DirectoryObjectAttributes then EISDIR else EINVAL) \<and> replies = [reply_err status] \<and> fs_of t = fs_of s)"
proof -
  let ?A = "fs_of s"
  note H = held_fs [OF fs_okD(1) [OF ok]] and room = room [unfolded eval_nat_numeral BitM.simps numeral_1_eq_Suc_0] and R = fs_okD(5) [OF ok]
  obtain s1 where s1: "BitbucketLookupInodeInTable ino s = Some (x, s1)" "fs_ok root s1" "fs_of s1 = ref_add 0 x ?A" "table_map s1 = table_map s"
    using fs_ok_table_lookup [OF ok req(2) room] x table_target [OF req(3)] by (auto simp: address_def ref_opt_def)
  have xl: "inos ?A x \<noteq> None" "x \<noteq> NULL"
    using target_live [OF ok x] inos_live [of s x] by (simp_all del: not_None_eq)
  have P1: "target root s1 newparent = Some p"
    using P s1(4) by (simp add: target_def split: if_splits)
  have r1: "roomy (Suc (Suc (Suc (Suc (Suc (Suc (Suc 0))))))) (fs_of s1)"
    unfolding s1(3) by (rule roomy_add [OF room])
  have pl: "inos ?A p \<noteq> None"
    using target_live [OF ok P] inos_live [of s p] by (simp del: not_None_eq)
  obtain s2 where s2: "get_inode req newparent s1 = Some (p, s2)" "fs_ok root s2" "fs_of s2 = ref_add 0 p (ref_add 0 x ?A)" "p \<noteq> NULL"
    using begin_known [OF s1(2) req(1,4) r1 P1] s1(3) by auto
  have "Inodes s2 x \<noteq> None"
    using xl(1) inos_live [of s2 x] unfolding s2(3) ref_add_simps by metis
  then obtain i where i: "Inodes s2 x = Some i"
    by blast
  have k: "InodeType i = BITBUCKET_DIR_TYPE \<longleftrightarrow> kinds ?A x = Some DirectoryObjectAttributes" "InodeType i = BITBUCKET_FILE_TYPE \<longleftrightarrow> kinds ?A x = Some FileObjectAttributes"
    using kind_type [OF fs_okD(1) [OF s2(2)] i] s2(3) by simp_all
  show ?thesis
  proof (cases "kinds ?A x = Some FileObjectAttributes")
    case False
    obtain u v where "put_inode x s2 = Some u" "put_inode p u = Some v" "fs_ok root v" "fs_of v = ?A"
      using put_both [OF s2(2), of x p ?A] s2(3) H R xl(1) pl by (auto simp: ref_add_commute)
    then show ?thesis
      using False req(3) s1(1) xl s2 i k by (auto simp: bitbucket_internal_link_def Let_def)
  next
    case True
    have "roomy (Suc (Suc (Suc (Suc (Suc (Suc 0)))))) (fs_of s2)"
      unfolding s2(3) using r1 unfolding s1(3) by (rule roomy_add)
    note r2 = this
    obtain s3 where s3: "BitbucketInsertDirectoryEntry p x name s2 = Some (0, s3)" "fs_ok root s3" "fs_of s3 = ref_add 2 x (set_name p name (Some x) (fs_of s2))"
      using fs_ok_insert [OF s2(2) _ _ name _ r2, of p x] p [OF True] xl(1) s2(3) by auto
    have "Inodes s3 x \<noteq> None"
      using xl(1) inos_live [of s3 x] unfolding s3(3) s2(3) ref_add_simps set_name_simps by metis
    then obtain j where j: "Inodes s3 x = Some j"
      by blast
    have "roomy (Suc (Suc (Suc (Suc (Suc 0))))) (fs_of s3)"
      unfolding s3(3) using r2 by (intro roomy_add) simp
    then obtain s4 where s4: "BitbucketReferenceInode x 5 s3 = Some s4" "fs_ok root s4" "fs_of s4 = ref_add 5 x (fs_of s3)"
      using fs_ok_add [OF s3(2), of x 5] j by auto
    have F4: "fs_of s4 = ref_add 0 x (ref_add 0 p (after_link p name x ?A))"
      by (rule fs_eqI) (simp_all add: s4(3) s3(3) s2(3) after_link_def)
    obtain u v where "put_inode x s4 = Some u" "put_inode p u = Some v" "fs_ok root v" "fs_of v = after_link p name x ?A"
      using put_both [OF s4(2) F4] H R xl(1) pl by (auto simp: after_link_def)
    moreover have "Some (fep_ino (entry_param req j)) = inos ?A x"
      using ino_view [OF j] by (simp add: entry_param_def s3(3) s2(3))
    ultimately show ?thesis
      using True req(3) s1(1) xl s2 i k link_loop_free [OF s3(1)] j s4(1) by (auto simp: bitbucket_internal_link_def)
  qed
qed

section \<open>Rename\<close>

definition after_rename :: "addr \<Rightarrow> string \<Rightarrow> addr \<Rightarrow> string \<Rightarrow> addr \<Rightarrow> fs \<Rightarrow> fs" where
  "after_rename p name q newname x A = set_name p name None (set_name q newname (Some x) A)"

lemma rename_view:
  assumes "inos A x \<noteq> None" "held A"
  shows "after_unlink p name x (ref_add 2 x (set_name q newname (Some x) A)) = after_rename p name q newname x A"
  using ref_sub_add [of "after_rename p name q newname x A" x 2] assms by (simp add: after_unlink_def after_rename_def set_name_add)

text \<open>An object moves to a free name.\<close>

lemma move_entry_free:
  assumes ok: "fs_ok root s" and q: "names (fs_of s) q ''.'' = Some q" "names (fs_of s) q newname = None" and name: "0 < length newname" "length newname < 1023"
    and x: "names (fs_of s) p name = Some x" "name \<noteq> []" "kinds (fs_of s) x \<noteq> Some DirectoryObjectAttributes" and room: "roomy (Suc (Suc k)) (fs_of s)"
  shows "\<exists>t. move_entry p name q newname x y s = Some (0, t) \<and> fs_ok root t \<and> fs_of t = after_rename p name q newname x (fs_of s)"
proof -
  note l = names_live [OF ok x(1)] and H = held_fs [OF fs_okD(1) [OF ok]]
  obtain s1 where s1: "BitbucketInsertDirectoryEntry q x newname s = Some (0, s1)" "fs_ok root s1" "fs_of s1 = ref_add 2 x (set_name q newname (Some x) (fs_of s))"
    using fs_ok_insert [OF ok q name _ room] l by blast
  have "names (fs_of s1) p name = Some x"
    using q(2) x(1) by (auto simp: s1(3))
  moreover have "roomy (Suc k) (fs_of s1)"
    unfolding s1(3) using room by (intro roomy_add) simp
  ultimately obtain t where "BitbucketDeleteDirectoryEntry p name s1 = Some (0, t)" "fs_ok root t" "fs_of t = after_unlink p name x (fs_of s1)"
    using fs_ok_delete [OF s1(2), of p name x k] x(2,3) by (auto simp: after_unlink_def s1(3))
  then show ?thesis
    using s1(1,3) rename_view [OF _ H] l by (auto simp: move_entry_def)
qed

lemma rename_objects_free:
  assumes ok: "fs_ok root s" and root: "RootDirectory (userdata req) = root" and p: "kinds (fs_of s) p = Some DirectoryObjectAttributes"
    and q: "names (fs_of s) q ''.'' = Some q" "names (fs_of s) q newname = None" and name: "name \<noteq> []" "0 < length newname" "length newname < 1023"
    and x: "\<And>x. names (fs_of s) p name = Some x \<Longrightarrow> kinds (fs_of s) x \<noteq> Some DirectoryObjectAttributes" and room: "roomy (Suc (Suc (Suc (Suc k)))) (fs_of s)"
  shows "\<exists>status t. rename_objects req p name q newname flags s = Some (status, address (names (fs_of s) p name), NULL, t) \<and> fs_ok root t
    \<and> (case names (fs_of s) p name of None \<Rightarrow> status = ENOENT \<and> fs_of t = fs_of s
       | Some x \<Rightarrow> status = 0 \<and> fs_of t = ref_add 0 x (after_rename p name q newname x (fs_of s)))"
proof -
  let ?A = "fs_of s"
  have d: "dirs s p \<noteq> None" "dir_map s = names ?A"
    using kind_dirs [OF fs_okD(1) [OF ok], of p] p by (simp_all add: fs_of_def)
  obtain s1 where s1: "BitbucketLookupObjectInDirectory p name s = Some (address (names ?A p name), s1)" "fs_ok root s1" "fs_of s1 = ref_opt 0 (names ?A p name) ?A"
    "dirs s1 = dirs s"
    using fs_ok_lookup [OF ok d(1) room, of name] d(2) by auto
  show ?thesis
  proof (cases "names ?A p name")
    case None
    then show ?thesis
      using s1 by (simp add: rename_objects_def address_def ref_opt_def)
  next
    case (Some y)
    note l = names_live [OF ok Some] and k = x [OF Some]
    have F1: "fs_of s1 = ref_add 0 y ?A"
      using s1(3) Some by (simp add: ref_opt_def)
    have r1: "roomy (Suc (Suc (Suc k))) (fs_of s1)"
      unfolding F1 by (rule roomy_add [OF room])
    have "dir_map s1 q newname = None"
      using arg_cong [OF F1, of names] q(2) by (simp add: fs_of_def)
    then obtain s2 where s2: "BitbucketLookupObjectInDirectory q newname s1 = Some (NULL, s2)" "fs_ok root s2" "fs_of s2 = ref_add 0 y ?A"
      using fs_ok_lookup [OF s1(2) _ r1, of q newname] s1(4) in_use_dirs [OF q(1)] F1 by (auto simp: address_def ref_opt_def)
    have "y \<noteq> root"
      using k kind_dirs [OF fs_okD(1) [OF ok], of root] fs_okD(4) [OF ok] by auto
    moreover obtain t where "move_entry p name q newname y NULL s2 = Some (0, t)" "fs_ok root t" "fs_of t = after_rename p name q newname y (ref_add 0 y ?A)"
      using move_entry_free [OF s2(2) _ _ name(2,3), of q p name y "Suc k" NULL] q Some name(1) k s2(3) r1 F1 by auto
    ultimately show ?thesis
      using Some s1(1) s2(1) l root by (auto simp: rename_objects_def address_def after_rename_def set_name_add)
  qed
qed

lemma handle_rename_known:
  assumes ok: "fs_ok root s" and req: "RootDirectory (userdata req) = root" "parent \<noteq> 0" "newparent \<noteq> 0" and room: "roomy 8 (fs_of s)"
    and P: "target root s parent = Some p" and Q: "target root s newparent = Some q" and p: "kinds (fs_of s) p = Some DirectoryObjectAttributes"
    and q: "names (fs_of s) q ''.'' = Some q" "names (fs_of s) q newname = None" and name: "name \<noteq> []" "0 < length newname" "length newname < 1023"
    and x: "\<And>x. names (fs_of s) p name = Some x \<Longrightarrow> kinds (fs_of s) x \<noteq> Some DirectoryObjectAttributes"
    and dots: "name \<notin> {''.'', ''..''}" "newname \<notin> {''.'', ''..''}"
  shows "\<exists>status t. bitbucket_internal_rename req parent name newparent newname flags s = Some (status, [reply_err status], t) \<and> fs_ok root t
    \<and> (case names (fs_of s) p name of None \<Rightarrow> status = ENOENT \<and> fs_of t = fs_of s
       | Some x \<Rightarrow> status = 0 \<and> fs_of t = after_rename p name q newname x (fs_of s))"
proof -
  let ?A = "fs_of s"
  note H = held_fs [OF fs_okD(1) [OF ok]] and room = room [unfolded eval_nat_numeral BitM.simps numeral_1_eq_Suc_0] and R = fs_okD(5) [OF ok]
  obtain s1 where s1: "get_inode req parent s = Some (p, s1)" "fs_ok root s1" "fs_of s1 = ref_add 0 p ?A" "target root s1 = target root s"
    using fs_ok_get_inode [OF ok req(1,2) room] P by (auto simp: address_def ref_opt_def)
  have r1: "roomy (Suc (Suc (Suc (Suc (Suc (Suc (Suc 0))))))) (fs_of s1)"
    unfolding s1(3) by (rule roomy_add [OF room])
  have Q1: "target root s1 newparent = Some q"
    using Q s1(4) by simp
  obtain s2 where s2: "get_inode req newparent s1 = Some (q, s2)" "fs_ok root s2" "fs_of s2 = ref_add 0 q (ref_add 0 p ?A)"
    using begin_known [OF s1(2) req(1,3) r1 Q1] s1(3) by auto
  have l: "inos ?A p \<noteq> None" "p \<noteq> NULL" "inos ?A q \<noteq> None" "q \<noteq> NULL"
    using target_live [OF ok P] inos_live [of s p] target_live [OF ok Q] inos_live [of s q] by (simp_all del: not_None_eq)
  then obtain i j where i: "Inodes s2 p = Some i" "Inodes s2 q = Some j"
    using inos_live [of s2 p] inos_live [of s2 q] unfolding s2(3) ref_add_simps by (metis option.collapse)
  have kq: "kinds ?A q = Some DirectoryObjectAttributes"
    using kind_dirs [OF fs_okD(1) [OF ok], of q] in_use_dirs [OF q(1)] by blast
  have k: "InodeType i = BITBUCKET_DIR_TYPE" "InodeType j = BITBUCKET_DIR_TYPE"
    using kind_type(1) [OF fs_okD(1) [OF s2(2)] i(1)] kind_type(1) [OF fs_okD(1) [OF s2(2)] i(2)] p kq s2(3) by simp_all
  have r2: "roomy (Suc (Suc (Suc (Suc (Suc (Suc 0)))))) (fs_of s2)"
    unfolding s2(3) using r1 unfolding s1(3) by (rule roomy_add)
  obtain status s3 where s3: "rename_objects req p name q newname flags s2 = Some (status, address (names ?A p name), NULL, s3)" "fs_ok root s3"
    "case names ?A p name of None \<Rightarrow> status = ENOENT \<and> fs_of s3 = fs_of s2
       | Some x \<Rightarrow> status = 0 \<and> fs_of s3 = ref_add 0 x (after_rename p name q newname x (fs_of s2))"
    using rename_objects_free [OF s2(2) req(1) _ _ _ name _ r2, of p q flags] p q x s2(3) by auto
  have B: "bitbucket_internal_rename req parent name newparent newname flags s = do {
      s \<leftarrow> put_inode p s3; s \<leftarrow> put_inode q s; s \<leftarrow> put_inode (address (names ?A p name)) s; Some (status, [reply_err status], s) }"
    using dots s1(1) s2(1) l i k s3(1) by (simp add: bitbucket_internal_rename_def)
  show ?thesis
  proof (cases "names ?A p name")
    case None
    then obtain u v where "put_inode p s3 = Some u" "put_inode q u = Some v" "fs_ok root v" "fs_of v = ?A"
      using put_both [OF s3(2), of p q ?A] s3(3) s2(3) l H R by (auto simp: ref_add_commute)
    then show ?thesis
      using B None s3(3) by (simp add: address_def)
  next
    case (Some y)
    let ?C = "after_rename p name q newname y ?A"
    note ly = names_live [OF ok Some]
    have C: "inos ?C = inos ?A" "held ?C" "0 < refs ?C root 0"
      using H R by (simp_all add: after_rename_def)
    have F3: "fs_of s3 = ref_add 0 p (ref_add 0 q (ref_add 0 y ?C))"
      using s3(3) Some s2(3) by (simp add: after_rename_def set_name_add ref_add_commute)
    then obtain u v where uv: "put_inode p s3 = Some u" "put_inode q u = Some v" "fs_ok root v" "fs_of v = ref_add 0 y ?C"
      using put_both [OF s3(2) F3] l C by auto
    then obtain w where "put_inode y v = Some w" "fs_ok root w" "fs_of w = ?C"
      using finish_changed [OF uv(3,4)] ly C by auto
    then show ?thesis
      using B Some s3(3) uv(1,2) by (simp add: address_def)
  qed
qed

end
