(* ===== verification/FsSpec.thy ===== *)
theory FsSpec
  imports FsModify Mount
begin

text \<open>
  What the requests of the kernel do to a mounted file system, stated over the view alone, and
  the proof that the request handlers do it.  The kernel keeps the rules of the protocol:
  it asks for numbers other than zero, gives back only references it holds, and opens for
  truncation nothing here.  Creating an object under a name that exists, and removing or
  renaming a directory, are outside of the statement, as are \<^verbatim>\<open>read\<close>, \<^verbatim>\<open>write\<close> and the rest
  of the table of operations.
\<close>

section \<open>Requests\<close>

datatype request =
    Lookup u64 string
  | Forget u64 u64
  | Getattr u64
  | Access u64 u32
  | Open u64 fuse_file_info
  | Release u64
  | Opendir u64 fuse_file_info
  | Releasedir u64
  | Mkdir u64 string u32
  | Create u64 string u32 fuse_file_info
  | Unlink u64 string
  | Link u64 u64 string
  | Rename u64 string u64 string u32

text \<open>The part of the table of operations that the requests go through; forgetting is done at once.\<close>

fun handle :: "fuse_req \<Rightarrow> request \<Rightarrow> bb_state \<Rightarrow> handled" where
  "handle req (Lookup parent name) s = bitbucket_internal_lookup req parent name s"
| "handle req (Forget ino nlookup) s =
     map_option (\<lambda>(status, replies, b, s). (status, replies, s)) (bitbucket_internal_forget req ino nlookup
       (\<lparr>background_thread_started = False, background_thread_shutdown = False, background_cleanup_queue = []\<rparr>, s))"
| "handle req (Getattr ino) s = bitbucket_internal_getattr req ino None s"
| "handle req (Access ino amask) s = bitbucket_internal_access req ino amask s"
| "handle req (Open ino fi) s = bitbucket_internal_open req ino fi s"
| "handle req (Release ino) s = bitbucket_internal_release req ino s"
| "handle req (Opendir ino fi) s = bitbucket_internal_opendir req ino fi s"
| "handle req (Releasedir ino) s = bitbucket_internal_releasedir req ino s"
| "handle req (Mkdir parent name mode) s = bitbucket_internal_mkdir req parent name mode s"
| "handle req (Create parent name mode fi) s = bitbucket_internal_create req parent name mode fi s"
| "handle req (Unlink parent name) s = bitbucket_internal_unlink req parent name s"
| "handle req (Link ino newparent newname) s = bitbucket_internal_link req ino newparent newname s"
| "handle req (Rename parent name newparent newname flags) s = bitbucket_internal_rename req parent name newparent newname flags s"

section \<open>The specification\<close>

definition known :: "addr \<Rightarrow> fs \<Rightarrow> u64 \<Rightarrow> addr \<Rightarrow> bool" where
  "known root A ino a \<longleftrightarrow> (if ino = FUSE_ROOT_ID then a = root else inos A a = Some ino)"

definition free_in :: "fs \<Rightarrow> addr \<Rightarrow> string \<Rightarrow> bool" where
  "free_in A p name \<longleftrightarrow> 0 < length name \<and> length name < 1023 \<and> names A p ''.'' = Some p \<and> names A p name = None"

definition not_dir :: "fs \<Rightarrow> addr \<Rightarrow> bool" where
  "not_dir A a \<longleftrightarrow> kinds A a \<noteq> Some DirectoryObjectAttributes"

text \<open>What the kernel may ask for.\<close>

fun allowed :: "addr \<Rightarrow> fs \<Rightarrow> request \<Rightarrow> bool" where
  "allowed root A (Lookup parent name) \<longleftrightarrow> parent \<noteq> 0 \<and> (\<forall>p. known root A parent p \<longrightarrow> \<not> not_dir A p)"
| "allowed root A (Forget ino n) \<longleftrightarrow> ino \<noteq> 0 \<and> (\<forall>a. inos A a = Some ino \<longrightarrow> unat n \<le> refs A a INODE_FUSE_LOOKUP_REFERENCE)"
| "allowed root A (Getattr ino) \<longleftrightarrow> ino \<noteq> 0"
| "allowed root A (Access ino amask) \<longleftrightarrow> ino \<noteq> 0"
| "allowed root A (Open ino fi) \<longleftrightarrow> ino \<noteq> 0 \<and> fi_flags fi AND O_TRUNC = 0"
| "allowed root A (Release ino) \<longleftrightarrow> ino \<noteq> 0 \<and> (\<forall>a. known root A ino a \<longrightarrow> 0 < refs A a INODE_FUSE_OPEN_REFERENCE)"
| "allowed root A (Opendir ino fi) \<longleftrightarrow> ino \<noteq> 0"
| "allowed root A (Releasedir ino) \<longleftrightarrow> ino \<noteq> 0 \<and> (\<forall>a. known root A ino a \<longrightarrow> 0 < refs A a INODE_FUSE_OPENDIR_REFERENCE)"
| "allowed root A (Mkdir parent name mode) \<longleftrightarrow> parent \<noteq> 0 \<and> 0 < length name \<and> length name < 1023 \<and> (\<forall>p. known root A parent p \<longrightarrow> free_in A p name)"
| "allowed root A (Create parent name mode fi) \<longleftrightarrow> parent \<noteq> 0 \<and> 0 < length name \<and> length name < 1023 \<and> mode AND S_IFMT = S_IFREG
     \<and> (\<forall>p. known root A parent p \<longrightarrow> free_in A p name)"
| "allowed root A (Unlink parent name) \<longleftrightarrow> parent \<noteq> 0 \<and> name \<noteq> [] \<and> (\<forall>p x. known root A parent p \<and> names A p name = Some x \<longrightarrow> not_dir A x)"
| "allowed root A (Link ino newparent newname) \<longleftrightarrow> ino \<noteq> 0 \<and> ino \<noteq> FUSE_ROOT_ID \<and> newparent \<noteq> 0 \<and> 0 < length newname \<and> length newname < 1023
     \<and> (\<exists>x p. known root A ino x \<and> known root A newparent p \<and> (kinds A x = Some FileObjectAttributes \<longrightarrow> free_in A p newname))"
| "allowed root A (Rename parent name newparent newname flags) \<longleftrightarrow> parent \<noteq> 0 \<and> newparent \<noteq> 0 \<and> name \<noteq> []
     \<and> name \<notin> {''.'', ''..''} \<and> newname \<notin> {''.'', ''..''}
     \<and> (\<exists>p q. known root A parent p \<and> known root A newparent q \<and> \<not> not_dir A p \<and> free_in A q newname \<and> (\<forall>x. names A p name = Some x \<longrightarrow> not_dir A x))"

text \<open>The number that a handler looks up first, and the status when it does not know it.\<close>

fun number_of :: "request \<Rightarrow> u64 option" where
  "number_of (Lookup parent name) = Some parent"
| "number_of (Getattr ino) = Some ino"
| "number_of (Access ino amask) = Some ino"
| "number_of (Open ino fi) = Some ino"
| "number_of (Release ino) = Some ino"
| "number_of (Opendir ino fi) = Some ino"
| "number_of (Releasedir ino) = Some ino"
| "number_of (Mkdir parent name mode) = Some parent"
| "number_of (Create parent name mode fi) = Some parent"
| "number_of (Unlink parent name) = Some parent"
| "number_of r = None"

definition unknown_status :: "request \<Rightarrow> errno" where
  "unknown_status r = (case r of Opendir ino fi \<Rightarrow> ENOENT | Mkdir parent name mode \<Rightarrow> ENOENT | _ \<Rightarrow> EBADF)"

inductive fs_step :: "addr \<Rightarrow> fs \<Rightarrow> request \<Rightarrow> errno \<Rightarrow> fuse_reply list \<Rightarrow> fs \<Rightarrow> bool" for root A where
  unknown: "\<lbrakk>number_of r = Some ino; \<forall>a. \<not> known root A ino a\<rbrakk> \<Longrightarrow> fs_step root A r (unknown_status r) [reply_err (unknown_status r)] A"
| missing: "\<lbrakk>known root A parent p; names A p name = None\<rbrakk> \<Longrightarrow> fs_step root A (Lookup parent name) ENOENT [reply_err ENOENT] A"
| found: "\<lbrakk>known root A parent p; names A p name = Some x; described A x (fep_attr e); fep_ino e = st_ino (fep_attr e)\<rbrakk> \<Longrightarrow>
    fs_step root A (Lookup parent name) 0 [reply_entry e] (ref_add INODE_FUSE_LOOKUP_REFERENCE x A)"
| forget_unknown: "\<forall>a. inos A a \<noteq> Some ino \<Longrightarrow> fs_step root A (Forget ino n) 0 [reply_none] A"
| forget: "inos A a = Some ino \<Longrightarrow> fs_step root A (Forget ino n) 0 [reply_none] (ref_sub INODE_FUSE_LOOKUP_REFERENCE (unat n) a A)"
| getattr: "\<lbrakk>known root A ino a; described A a attr\<rbrakk> \<Longrightarrow> fs_step root A (Getattr ino) 0 [reply_attr attr timeout] A"
| access: "known root A ino a \<Longrightarrow> fs_step root A (Access ino amask) 0 [reply_err 0] A"
| opened: "known root A ino a \<Longrightarrow> fs_step root A (Open ino fi) 0 [reply_open (fi\<lparr>fh := a\<rparr>)] (ref_add INODE_FUSE_OPEN_REFERENCE a A)"
| released: "known root A ino a \<Longrightarrow> fs_step root A (Release ino) 0 [reply_err 0] (ref_sub INODE_FUSE_OPEN_REFERENCE 1 a A)"
| opened_dir: "\<lbrakk>known root A ino a; status = 0 \<or> not_dir A a \<and> status = ENOTDIR; replies = (if status = 0 then [reply_open (fi\<lparr>fh := NULL, cache_readdir := True\<rparr>)] else [reply_err ENOTDIR])\<rbrakk> \<Longrightarrow>
    fs_step root A (Opendir ino fi) status replies (ref_add INODE_FUSE_OPENDIR_REFERENCE a A)"
| released_dir: "known root A ino a \<Longrightarrow> fs_step root A (Releasedir ino) 0 [reply_err 0] (ref_sub INODE_FUSE_OPENDIR_REFERENCE 1 a A)"
| made_dir: "\<lbrakk>known root A parent p; next_ino A ino n; inos A a = None; fep_ino e = ino\<rbrakk> \<Longrightarrow>
    fs_step root A (Mkdir parent name mode) 0 [reply_entry e] (after_mkdir p name a ino n A)"
| created: "\<lbrakk>known root A parent p; next_ino A ino n; inos A a = None; fep_ino e = ino\<rbrakk> \<Longrightarrow>
    fs_step root A (Create parent name mode fi) 0 [reply_create e (fi\<lparr>fh := a\<rparr>)] (after_create p name a ino n A)"
| unlink_nodir: "\<lbrakk>known root A parent p; not_dir A p\<rbrakk> \<Longrightarrow> fs_step root A (Unlink parent name) EISDIR [reply_err EISDIR] A"
| unlink_missing: "\<lbrakk>known root A parent p; \<not> not_dir A p; names A p name = None\<rbrakk> \<Longrightarrow> fs_step root A (Unlink parent name) ENOENT [reply_err ENOENT] A"
| unlinked: "\<lbrakk>known root A parent p; names A p name = Some x\<rbrakk> \<Longrightarrow> fs_step root A (Unlink parent name) 0 [reply_err 0] (after_unlink p name x A)"
| link_refused: "\<lbrakk>known root A ino x; status = (if not_dir A x then EINVAL else EISDIR); kinds A x \<noteq> Some FileObjectAttributes\<rbrakk> \<Longrightarrow>
    fs_step root A (Link ino newparent newname) status [reply_err status] A"
| linked: "\<lbrakk>known root A ino x; known root A newparent p; kinds A x = Some FileObjectAttributes; inos A x = Some (fep_ino e)\<rbrakk> \<Longrightarrow>
    fs_step root A (Link ino newparent newname) 0 [reply_entry e] (after_link p newname x A)"
| rename_missing: "\<lbrakk>known root A parent p; names A p name = None\<rbrakk> \<Longrightarrow> fs_step root A (Rename parent name newparent newname flags) ENOENT [reply_err ENOENT] A"
| renamed: "\<lbrakk>known root A parent p; known root A newparent q; names A p name = Some x\<rbrakk> \<Longrightarrow>
    fs_step root A (Rename parent name newparent newname flags) 0 [reply_err 0] (after_rename p name q newname x A)"

section \<open>The handlers implement the specification\<close>

definition served :: "fuse_req \<Rightarrow> addr \<Rightarrow> request \<Rightarrow> bb_state \<Rightarrow> bool" where
  "served req root r s \<longleftrightarrow> (\<exists>status replies t. handle req r s = Some (status, replies, t) \<and> fs_ok root t
     \<and> fs_step root (fs_of s) r status replies (fs_of t))"

lemma servedI:
  "handle req r s = Some (status, replies, t) \<Longrightarrow> fs_ok root t \<Longrightarrow> fs_step root (fs_of s) r status replies (fs_of t) \<Longrightarrow> served req root r s"
  by (auto simp: served_def)

lemma target_known: "fs_inv s \<Longrightarrow> target root s ino = Some a \<longleftrightarrow> known root (fs_of s) ino a"
  using ino_table [of s ino a] by (auto simp: target_def known_def fs_of_def)

lemma target_unknown: "fs_inv s \<Longrightarrow> target root s ino = None \<longleftrightarrow> (\<forall>a. \<not> known root (fs_of s) ino a)"
  using target_known [of s root ino] by (metis option.exhaust option.distinct(1))

lemma target_cases:
  assumes "fs_ok root s"
  obtains "target root s ino = None" "\<forall>a. \<not> known root (fs_of s) ino a"
  | a where "target root s ino = Some a" "known root (fs_of s) ino a"
  using target_known [OF fs_okD(1) [OF assms], of root ino] target_unknown [OF fs_okD(1) [OF assms], of root ino] by (cases "target root s ino") auto

text \<open>The assumptions on the mounted file system that every handler shares.\<close>

definition mounted :: "fuse_req \<Rightarrow> addr \<Rightarrow> bb_state \<Rightarrow> bool" where
  "mounted req root s \<longleftrightarrow> fs_ok root s \<and> RootDirectory (userdata req) = root \<and> BackgroundForget (userdata req) = 0
     \<and> (StorageDir (userdata req) \<noteq> None \<longrightarrow> os_open (req_os req) = 0) \<and> roomy 8 (fs_of s) \<and> (\<exists>ino n. next_ino (fs_of s) ino n)"

lemma mountedD:
  assumes "mounted req root s"
  shows "fs_ok root s" "RootDirectory (userdata req) = root" "k \<le> 8 \<Longrightarrow> roomy k (fs_of s)"
  using assms roomy_mono [of 8 "fs_of s" k] by (auto simp: mounted_def)

lemma serve_lookup:
  assumes m: "mounted req root s" and a: "allowed root (fs_of s) (Lookup parent name)"
  shows "served req root (Lookup parent name) s"
proof (rule target_cases [OF mountedD(1) [OF m], of parent])
  assume "target root s parent = None" "\<forall>a. \<not> known root (fs_of s) parent a"
  then show ?thesis
    using handle_lookup [OF mountedD(1,2) [OF m] _ mountedD(3) [OF m], of parent name] a fs_step.unknown [of "Lookup parent name" parent root "fs_of s"]
    by (auto simp: unknown_status_def served_def)
next
  fix p
  assume p: "target root s parent = Some p" "known root (fs_of s) parent p"
  then have "dirs s p \<noteq> None"
    using a kind_dirs [OF fs_okD(1) [OF mountedD(1) [OF m]], of p] by (auto simp: not_dir_def)
  then obtain status replies t where "bitbucket_internal_lookup req parent name s = Some (status, replies, t)" "fs_ok root t"
    "case names (fs_of s) p name of None \<Rightarrow> status = ENOENT \<and> replies = [reply_err ENOENT] \<and> fs_of t = fs_of s
       | Some x \<Rightarrow> status = 0 \<and> fs_of t = ref_add 5 x (fs_of s)
           \<and> (\<exists>i. replies = [reply_entry (entry_param req i)] \<and> described (fs_of s) x (Attributes i))"
    using handle_lookup [OF mountedD(1,2) [OF m] _ mountedD(3) [OF m], of parent name] a p(1) by auto
  then show ?thesis
    using p(2) by (intro servedI [of req "Lookup parent name" s status replies t])
      (auto split: option.splits intro: fs_step.missing fs_step.found simp: entry_param_def)
qed

lemma serve_forget:
  assumes m: "mounted req root s" and a: "allowed root (fs_of s) (Forget ino n)"
  shows "served req root (Forget ino n) s"
proof -
  note ok = mountedD(1) [OF m]
  have k: "table_map s ino = Some x \<longleftrightarrow> inos (fs_of s) x = Some ino" for x
    using ino_table [OF fs_okD(1) [OF ok], of ino x] by (simp add: fs_of_def)
  obtain t where t: "background_forget ino n s = Some t" "fs_ok root t"
    "fs_of t = (case table_map s ino of None \<Rightarrow> fs_of s | Some a \<Rightarrow> ref_sub 5 (unat n) a (fs_of s))"
    using background_forget_view [OF ok _ mountedD(3) [OF m], of ino n] a k by auto
  have "fs_step root (fs_of s) (Forget ino n) 0 [reply_none] (fs_of t)"
    using t(3) k by (cases "table_map s ino") (auto intro: fs_step.forget_unknown fs_step.forget)
  moreover have "handle req (Forget ino n) s = Some (0, [reply_none], t)"
    using t(1) m by (simp add: bitbucket_internal_forget_def mounted_def)
  ultimately show ?thesis
    using t(2) by (intro servedI)
qed

lemma serve_getattr:
  assumes m: "mounted req root s" and a: "allowed root (fs_of s) (Getattr ino)"
  shows "served req root (Getattr ino) s"
proof -
  note H = handle_getattr [OF mountedD(1,2) [OF m] _ mountedD(3) [OF m], of ino]
  show ?thesis
    by (rule target_cases [OF mountedD(1) [OF m], of ino])
      (use H a in \<open>auto simp: served_def unknown_status_def intro: fs_step.getattr dest: fs_step.unknown [of "Getattr ino" ino, simplified]\<close>)
qed

lemma serve_access:
  assumes m: "mounted req root s" and a: "allowed root (fs_of s) (Access ino amask)"
  shows "served req root (Access ino amask) s"
proof -
  note H = handle_access [OF mountedD(1,2) [OF m] _ mountedD(3) [OF m], of ino amask]
  show ?thesis
    by (rule target_cases [OF mountedD(1) [OF m], of ino])
      (use H a in \<open>auto simp: served_def unknown_status_def intro: fs_step.access dest: fs_step.unknown [of "Access ino amask" ino, simplified]\<close>)
qed

lemma serve_open:
  assumes m: "mounted req root s" and a: "allowed root (fs_of s) (Open ino fi)"
  shows "served req root (Open ino fi) s"
proof -
  note H = handle_open [OF mountedD(1,2) [OF m] _ mountedD(3) [OF m], of ino fi]
  show ?thesis
    by (rule target_cases [OF mountedD(1) [OF m], of ino])
      (use H a in \<open>auto simp: served_def unknown_status_def intro: fs_step.opened dest: fs_step.unknown [of "Open ino fi" ino, simplified]\<close>)
qed

lemma serve_release:
  assumes m: "mounted req root s" and a: "allowed root (fs_of s) (Release ino)"
  shows "served req root (Release ino) s"
proof -
  note H = handle_release [OF mountedD(1,2) [OF m] _ mountedD(3) [OF m], of ino]
  show ?thesis
    by (rule target_cases [OF mountedD(1) [OF m], of ino])
      (use H a in \<open>auto simp: served_def unknown_status_def intro: fs_step.released [of _ _ ino, simplified] dest: fs_step.unknown [of "Release ino" ino, simplified]\<close>)
qed

lemma serve_releasedir:
  assumes m: "mounted req root s" and a: "allowed root (fs_of s) (Releasedir ino)"
  shows "served req root (Releasedir ino) s"
proof -
  note H = handle_releasedir [OF mountedD(1,2) [OF m] _ mountedD(3) [OF m], of ino]
  show ?thesis
    by (rule target_cases [OF mountedD(1) [OF m], of ino])
      (use H a in \<open>auto simp: served_def unknown_status_def intro: fs_step.released_dir [of _ _ ino, simplified] dest: fs_step.unknown [of "Releasedir ino" ino, simplified]\<close>)
qed

lemma serve_opendir:
  assumes m: "mounted req root s" and a: "allowed root (fs_of s) (Opendir ino fi)"
  shows "served req root (Opendir ino fi) s"
proof -
  note H = handle_opendir [OF mountedD(1,2) [OF m] _ mountedD(3) [OF m], of ino fi]
  show ?thesis
  proof (rule target_cases [OF mountedD(1) [OF m], of ino])
    assume u: "target root s ino = None" "\<forall>a. \<not> known root (fs_of s) ino a"
    show ?thesis
      using H a u(1) fs_step.unknown [of "Opendir ino fi" ino, simplified, OF u(2)] by (auto simp: served_def unknown_status_def)
  next
    fix x
    assume x: "target root s ino = Some x" "known root (fs_of s) ino x"
    obtain status replies t where "handle req (Opendir ino fi) s = Some (status, replies, t)" "fs_ok root t" "fs_of t = ref_add 7 x (fs_of s)"
      "status = 0 \<or> kinds (fs_of s) x \<noteq> Some DirectoryObjectAttributes \<and> status = ENOTDIR"
      "replies = (if status = 0 then [reply_open (fi\<lparr>fh := NULL, cache_readdir := True\<rparr>)] else [reply_err ENOTDIR])"
      using H a x(1) by auto
    then show ?thesis
      using fs_step.opened_dir [OF x(2), of status replies fi] by (intro servedI [of req _ s status replies t]) (auto simp: not_dir_def)
  qed
qed

lemma serve_mkdir:
  assumes m: "mounted req root s" and a: "allowed root (fs_of s) (Mkdir parent name mode)"
  shows "served req root (Mkdir parent name mode) s"
proof -
  obtain ino n where num: "next_ino (fs_of s) ino n"
    using m by (auto simp: mounted_def)
  have "\<forall>p. target root s parent = Some p \<longrightarrow> names (fs_of s) p ''.'' = Some p \<and> names (fs_of s) p name = None"
    using a target_known [OF fs_okD(1) [OF mountedD(1) [OF m]], of root parent] by (auto simp: free_in_def)
  note H = handle_mkdir [OF mountedD(1,2) [OF m] _ mountedD(3) [OF m] this _ _ num, of mode]
  show ?thesis
  proof (rule target_cases [OF mountedD(1) [OF m], of parent])
    assume u: "target root s parent = None" "\<forall>a. \<not> known root (fs_of s) parent a"
    show ?thesis
      using H a u(1) fs_step.unknown [of "Mkdir parent name mode" parent, simplified, OF u(2)] by (auto simp: served_def unknown_status_def)
  next
    fix p
    assume p: "target root s parent = Some p" "known root (fs_of s) parent p"
    then show ?thesis
      using H a num fs_step.made_dir [OF p(2) num] by (auto simp: served_def)
  qed
qed

lemma serve_create:
  assumes m: "mounted req root s" and a: "allowed root (fs_of s) (Create parent name mode fi)"
  shows "served req root (Create parent name mode fi) s"
proof -
  obtain ino n where num: "next_ino (fs_of s) ino n"
    using m by (auto simp: mounted_def)
  have os: "StorageDir (userdata req) \<noteq> None \<Longrightarrow> os_open (req_os req) = 0"
    using m by (simp add: mounted_def)
  have "\<forall>p. target root s parent = Some p \<longrightarrow> names (fs_of s) p ''.'' = Some p \<and> names (fs_of s) p name = None"
    using a target_known [OF fs_okD(1) [OF mountedD(1) [OF m]], of root parent] by (auto simp: free_in_def)
  note H = handle_create [OF mountedD(1,2) [OF m] _ mountedD(3) [OF m] this _ _ num _ os, of mode fi]
  show ?thesis
  proof (rule target_cases [OF mountedD(1) [OF m], of parent])
    assume u: "target root s parent = None" "\<forall>a. \<not> known root (fs_of s) parent a"
    show ?thesis
      using H a u(1) fs_step.unknown [of "Create parent name mode fi" parent, simplified, OF u(2)] by (auto simp: served_def unknown_status_def)
  next
    fix p
    assume p: "target root s parent = Some p" "known root (fs_of s) parent p"
    then show ?thesis
      using H a num fs_step.created [OF p(2) num] by (auto simp: served_def)
  qed
qed

lemma serve_unlink:
  assumes m: "mounted req root s" and a: "allowed root (fs_of s) (Unlink parent name)"
  shows "served req root (Unlink parent name) s"
proof -
  note K = target_known [OF fs_okD(1) [OF mountedD(1) [OF m]], of root parent]
  have "\<forall>p x. target root s parent = Some p \<and> names (fs_of s) p name = Some x \<longrightarrow> kinds (fs_of s) x \<noteq> Some DirectoryObjectAttributes"
    using a K by (auto simp: not_dir_def)
  note H = handle_unlink [OF mountedD(1,2) [OF m] _ mountedD(3) [OF m] _ this]
  show ?thesis
  proof (rule target_cases [OF mountedD(1) [OF m], of parent])
    assume u: "target root s parent = None" "\<forall>a. \<not> known root (fs_of s) parent a"
    show ?thesis
      using H a u(1) fs_step.unknown [of "Unlink parent name" parent, simplified, OF u(2)] by (auto simp: served_def unknown_status_def)
  next
    fix p
    assume p: "target root s parent = Some p" "known root (fs_of s) parent p"
    then show ?thesis
      using H a fs_step.unlink_nodir [OF p(2)] fs_step.unlink_missing [OF p(2)] fs_step.unlinked [OF p(2)]
      by (auto simp: served_def not_dir_def split: option.splits if_splits)
  qed
qed

lemma serve_link:
  assumes m: "mounted req root s" and a: "allowed root (fs_of s) (Link ino newparent newname)"
  shows "served req root (Link ino newparent newname) s"
proof -
  note K = target_known [OF fs_okD(1) [OF mountedD(1) [OF m]], of root]
  obtain x p where x: "known root (fs_of s) ino x" "known root (fs_of s) newparent p" "kinds (fs_of s) x = Some FileObjectAttributes \<longrightarrow> free_in (fs_of s) p newname"
    using a by auto
  then have T: "target root s ino = Some x" "target root s newparent = Some p"
    using K by simp_all
  obtain status replies t where t: "handle req (Link ino newparent newname) s = Some (status, replies, t)" "fs_ok root t"
    "if kinds (fs_of s) x = Some FileObjectAttributes
       then status = 0 \<and> fs_of t = after_link p newname x (fs_of s) \<and> (\<exists>e. replies = [reply_entry e] \<and> Some (fep_ino e) = inos (fs_of s) x)
       else status = (if kinds (fs_of s) x = Some DirectoryObjectAttributes then EISDIR else EINVAL) \<and> replies = [reply_err status] \<and> fs_of t = fs_of s"
    using handle_link_known [OF mountedD(1,2) [OF m] _ _ _ mountedD(3) [OF m] T, of newname] a x(3) by (auto simp: free_in_def)
  have "fs_step root (fs_of s) (Link ino newparent newname) status replies (fs_of t)"
  proof (cases "kinds (fs_of s) x = Some FileObjectAttributes")
    case True
    then obtain e where "replies = [reply_entry e]" "inos (fs_of s) x = Some (fep_ino e)"
      using t(3) by auto
    then show ?thesis
      using fs_step.linked [OF x(1,2) True, of e newname] t(3) True by simp
  next
    case False
    then show ?thesis
      using fs_step.link_refused [OF x(1) _ False, of status newparent newname] t(3) by (simp add: not_dir_def split: if_splits)
  qed
  then show ?thesis
    using t(1,2) by (intro servedI)
qed

lemma serve_rename:
  assumes m: "mounted req root s" and a: "allowed root (fs_of s) (Rename parent name newparent newname flags)"
  shows "served req root (Rename parent name newparent newname flags) s"
proof -
  note K = target_known [OF fs_okD(1) [OF mountedD(1) [OF m]], of root]
  obtain p q where p: "known root (fs_of s) parent p" "known root (fs_of s) newparent q" "\<not> not_dir (fs_of s) p" "free_in (fs_of s) q newname"
    "\<forall>x. names (fs_of s) p name = Some x \<longrightarrow> not_dir (fs_of s) x"
    using a by auto
  then have T: "target root s parent = Some p" "target root s newparent = Some q"
    using K by simp_all
  obtain status t where t: "handle req (Rename parent name newparent newname flags) s = Some (status, [reply_err status], t)" "fs_ok root t"
    "case names (fs_of s) p name of None \<Rightarrow> status = ENOENT \<and> fs_of t = fs_of s
       | Some x \<Rightarrow> status = 0 \<and> fs_of t = after_rename p name q newname x (fs_of s)"
    using handle_rename_known [OF mountedD(1,2) [OF m] _ _ mountedD(3) [OF m] T, of newname name flags] a p(3-5) by (auto simp: free_in_def not_dir_def)
  then show ?thesis
    using fs_step.rename_missing [OF p(1)] fs_step.renamed [OF p(1,2)] by (intro servedI [OF t(1,2)]) (auto split: option.splits)
qed

lemma request_served:
  assumes "mounted req root s" "allowed root (fs_of s) r"
  shows "served req root r s"
proof (cases r)
  case (Lookup parent name)
  with assms show ?thesis
    by (simp only: serve_lookup)
next
  case (Forget ino n)
  with assms show ?thesis
    by (simp only: serve_forget)
next
  case (Getattr ino)
  with assms show ?thesis
    by (simp only: serve_getattr)
next
  case (Access ino amask)
  with assms show ?thesis
    by (simp only: serve_access)
next
  case (Open ino fi)
  with assms show ?thesis
    by (simp only: serve_open)
next
  case (Release ino)
  with assms show ?thesis
    by (simp only: serve_release)
next
  case (Opendir ino fi)
  with assms show ?thesis
    by (simp only: serve_opendir)
next
  case (Releasedir ino)
  with assms show ?thesis
    by (simp only: serve_releasedir)
next
  case (Mkdir parent name mode)
  with assms show ?thesis
    by (simp only: serve_mkdir)
next
  case (Create parent name mode fi)
  with assms show ?thesis
    by (simp only: serve_create)
next
  case (Unlink parent name)
  with assms show ?thesis
    by (simp only: serve_unlink)
next
  case (Link ino newparent newname)
  with assms show ?thesis
    by (simp only: serve_link)
next
  case (Rename parent name newparent newname flags)
  with assms show ?thesis
    by (simp only: serve_rename)
qed

end
