(* ===== verification/FsReach.thy ===== *)
theory FsReach
  imports FsSpec
begin

text \<open>
  Runs of a mounted file system.  The numbers of inodes come from a sequence with a fixed
  step, so they do not repeat for a long time, and a reference counter grows by at most
  two with a request; so within the first 2 to the 30 requests neither runs out.
\<close>

section \<open>Numbers and counters\<close>

definition steady :: "u64 \<Rightarrow> u64 \<Rightarrow> bool" where
  "steady x b \<longleftrightarrow> b \<noteq> 0 \<and> b < 2 ^ 31 \<and> (\<forall>j<2 ^ 33. x + of_nat j * b \<noteq> FUSE_ROOT_ID)"

definition numbered :: "u64 \<Rightarrow> u64 \<Rightarrow> nat \<Rightarrow> fs \<Rightarrow> bool" where
  "numbered x b m A \<longleftrightarrow> nums A = \<lparr>initialized = True, last_inode_number = x + of_nat m * b, inode_bias = b\<rparr>
     \<and> (\<forall>a ino. inos A a = Some ino \<longrightarrow> (\<exists>j<m. ino = x + of_nat j * b))"

definition budget :: "u64 \<Rightarrow> u64 \<Rightarrow> nat \<Rightarrow> fs \<Rightarrow> bool" where
  "budget x b k A \<longleftrightarrow> (\<exists>m\<le>k. numbered x b m A) \<and> (\<forall>a r. refs A a r \<le> k)"

lemma budget_mono: "budget x b k A \<Longrightarrow> k \<le> l \<Longrightarrow> budget x b l A"
  unfolding budget_def by (meson le_trans)

text \<open>The number that is fetched next, and its position in the sequence.\<close>

lemma fetch_numbered:
  assumes "numbered x b m A" "b \<noteq> 0"
  shows "\<exists>i. m \<le> i \<and> i \<le> Suc m \<and> fetch_number (nums A) = Some (x + of_nat i * b, \<lparr>initialized = True, last_inode_number = x + of_nat (Suc i) * b, inode_bias = b\<rparr>)
    \<and> x + of_nat i * b \<noteq> 0"
proof (cases "x + of_nat m * b = 0")
  case True
  have "x + of_nat (Suc m) * b = b" "x + of_nat (Suc (Suc m)) * b = 2 * b"
    using True by (simp_all add: algebra_simps)
  then show ?thesis
    using assms True by (intro exI [of _ "Suc m"]) (simp add: numbered_def fetch_number_spec del: of_nat_Suc)
next
  case False
  then show ?thesis
    using assms by (intro exI [of _ m]) (simp add: numbered_def fetch_number_spec algebra_simps)
qed

lemma numbered_next:
  assumes "numbered x b m A" "steady x b" "m + 2 < 2 ^ 33"
  shows "\<exists>ino n. next_ino A ino n"
proof -
  have b: "b \<noteq> 0" "b < 2 ^ 31"
    using assms(2) by (simp_all add: steady_def)
  obtain i where i: "m \<le> i" "i \<le> Suc m" "fetch_number (nums A) = Some (x + of_nat i * b, \<lparr>initialized = True, last_inode_number = x + of_nat (Suc i) * b, inode_bias = b\<rparr>)"
    "x + of_nat i * b \<noteq> 0"
    using fetch_numbered [OF assms(1) b(1)] by blast
  have "inos A a \<noteq> Some (x + of_nat i * b)" for a
  proof
    assume "inos A a = Some (x + of_nat i * b)"
    then obtain j where "j < m" "x + of_nat i * b = x + of_nat j * b"
      using assms(1) unfolding numbered_def by metis
    then show False
      using number_steps_distinct [OF b, of j i x] i(1,2) assms(3) by simp
  qed
  moreover have "x + of_nat i * b \<noteq> FUSE_ROOT_ID"
    using assms(2,3) i(2) by (simp add: steady_def)
  ultimately show ?thesis
    using i(3,4) assms(1) by (auto simp: next_ino_def numbered_def)
qed

lemma budget_mounted:
  assumes "budget x b k A" "steady x b" "k + 10 < 2 ^ 32"
  shows "roomy 8 A" "\<exists>ino n. next_ino A ino n"
proof -
  have "refs A a r \<le> k" for a r
    using assms(1) by (simp add: budget_def)
  from le_less_trans [OF add_right_mono [OF this], of 8 "2 ^ 32"] have "refs A a r + 8 < 2 ^ 32" for a r
    using assms(3) by simp
  then show "roomy 8 A"
    by (simp add: roomy_def)
  obtain m where m: "m \<le> k" "numbered x b m A"
    using assms(1) by (auto simp: budget_def)
  have "m + 2 < 2 ^ 33"
    using le_less_trans [OF add_right_mono [OF m(1)], of 2 "2 ^ 33"] assms(3) by simp
  then show "\<exists>ino n. next_ino A ino n"
    by (rule numbered_next [OF m(2) assms(2)])
qed

text \<open>What a creation leaves of the numbering.\<close>

lemma numbered_new:
  assumes "numbered x b m A" "b \<noteq> 0" "next_ino A ino n" "nums B = n" "\<And>c j. inos B c = Some j \<Longrightarrow> j = ino \<or> inos A c = Some j"
  shows "\<exists>m'\<le>m + 2. numbered x b m' B"
proof -
  obtain i where i: "m \<le> i" "i \<le> Suc m" "fetch_number (nums A) = Some (x + of_nat i * b, \<lparr>initialized = True, last_inode_number = x + of_nat (Suc i) * b, inode_bias = b\<rparr>)"
    using fetch_numbered [OF assms(1,2)] by blast
  then have "ino = x + of_nat i * b" "n = \<lparr>initialized = True, last_inode_number = x + of_nat (Suc i) * b, inode_bias = b\<rparr>"
    using assms(3) by (auto simp: next_ino_def)
  moreover have "\<exists>j<Suc i. d = x + of_nat j * b" if "inos A c = Some d" for c d
    using assms(1) that i(1) by (auto simp: numbered_def) (meson le_imp_less_Suc less_le_trans less_SucI)
  ultimately have "numbered x b (Suc i) B"
    unfolding numbered_def using assms(4,5) by (metis lessI)
  then show ?thesis
    using i(2) by (intro exI [of _ "Suc i"]) simp
qed

lemma numbered_old:
  assumes "numbered x b m A" "nums B = nums A" "\<And>c j. inos B c = Some j \<Longrightarrow> inos A c = Some j"
  shows "\<exists>m'\<le>m + 2. numbered x b m' B"
  using assms unfolding numbered_def by (metis le_add1)

lemma inos_sub_Some: "inos (ref_sub r n a A) c = Some j \<Longrightarrow> inos A c = Some j"
  by (simp add: ref_sub_def Let_def split: if_splits)

text \<open>Every request costs at most two.\<close>

lemma step_numbered:
  assumes "fs_step root A r status replies B" "numbered x b m A" "b \<noteq> 0"
  shows "\<exists>m'\<le>m + 2. numbered x b m' B"
  using assms(1)
proof cases
  case (made_dir parent p ino n a e name mode)
  then show ?thesis
    by (intro numbered_new [OF assms(2,3)]) (auto simp: after_mkdir_def made_directory_def dest!: inos_sub_Some split: if_splits)
next
  case (created parent p ino n a e name mode fi)
  then show ?thesis
    by (intro numbered_new [OF assms(2,3)]) (auto simp: after_create_def made_file_def dest!: inos_sub_Some split: if_splits)
qed (intro numbered_old [OF assms(2)]; auto simp: after_unlink_def after_link_def after_rename_def dest!: inos_sub_Some)+

lemma step_refs:
  assumes "fs_step root A r status replies B" "\<forall>a r. refs A a r \<le> k" "0 < k"
  shows "refs B c q \<le> k + 2"
proof -
  have k: "refs A c d \<le> k" "refs A c d \<le> Suc k" "refs A c d \<le> Suc (Suc k)" "refs A c d \<le> Suc (Suc (k + l))" "refs A c d \<le> Suc (Suc (Suc k))" for c d l
    using assms(2) by (simp_all add: le_SucI trans_le_add1)
  show ?thesis
    using assms(1)
  proof cases
    case (made_dir parent p ino n a e name mode)
    then show ?thesis
      using k assms(3) by (simp add: after_mkdir_def made_directory_def le_diff_conv trans_le_add1)
  next
    case (created parent p ino n a e name mode fi)
    then show ?thesis
      using k assms(3) by (simp add: after_create_def made_file_def le_diff_conv trans_le_add1)
  qed (use k in \<open>simp_all add: after_unlink_def after_link_def after_rename_def le_diff_conv trans_le_add1\<close>)
qed

lemma step_budget:
  assumes "fs_step root A r status replies B" "budget x b k A" "b \<noteq> 0" "0 < k"
  shows "budget x b (k + 2) B"
proof -
  obtain m where m: "m \<le> k" "numbered x b m A"
    using assms(2) by (auto simp: budget_def)
  obtain m' where "m' \<le> m + 2" "numbered x b m' B"
    using step_numbered [OF assms(1) m(2) assms(3)] by blast
  then show ?thesis
    using m(1) step_refs [OF assms(1) _ assms(4)] assms(2) unfolding budget_def by (meson add_le_mono1 le_trans)
qed

section \<open>States that serve requests\<close>

text \<open>A state from which requests are served: the root directory is there and nothing has run out.\<close>

definition ready :: "fuse_req \<Rightarrow> u64 \<Rightarrow> u64 \<Rightarrow> nat \<Rightarrow> bb_state \<Rightarrow> bool" where
  "ready req x b k s \<longleftrightarrow> fs_ok (RootDirectory (userdata req)) s \<and> BackgroundForget (userdata req) = 0
     \<and> (StorageDir (userdata req) \<noteq> None \<longrightarrow> os_open (req_os req) = 0) \<and> steady x b \<and> 0 < k \<and> budget x b k (fs_of s)"

lemma ready_mounted: "ready req x b k s \<Longrightarrow> k + 10 < 2 ^ 32 \<Longrightarrow> mounted req (RootDirectory (userdata req)) s"
  using budget_mounted [of x b k "fs_of s"] by (simp add: ready_def mounted_def)

lemma ready_step:
  assumes "ready req x b k s" "k + 10 < 2 ^ 32" "allowed (RootDirectory (userdata req)) (fs_of s) r"
  shows "\<exists>status replies t. handle req r s = Some (status, replies, t) \<and> ready req x b (k + 2) t
    \<and> fs_step (RootDirectory (userdata req)) (fs_of s) r status replies (fs_of t)"
proof -
  obtain status replies t where "handle req r s = Some (status, replies, t)" "fs_ok (RootDirectory (userdata req)) t"
    "fs_step (RootDirectory (userdata req)) (fs_of s) r status replies (fs_of t)"
    using request_served [OF ready_mounted [OF assms(1,2)] assms(3)] by (auto simp: served_def)
  moreover from this(3) have "budget x b (k + 2) (fs_of t)"
    using assms(1) by (intro step_budget) (auto simp: ready_def steady_def)
  ultimately show ?thesis
    using assms(1) by (auto simp: ready_def)
qed

end
