(* ===== verification/FsMount.thy ===== *)
theory FsMount
  imports FsReach
begin

text \<open>
  Mounting: from empty memory, \<^verbatim>\<open>bitbucket_internal_init\<close> makes a file system that serves
  requests, with the directories of fixed names in it.
\<close>

section \<open>Before the mount\<close>

definition blank :: "bb_state \<Rightarrow> bool" where
  "blank s \<longleftrightarrow> Inodes s = Map.empty \<and> Dirents s = Map.empty \<and> Xattrs s = Map.empty \<and> Storage s = Map.empty \<and> 0 < next_addr s
     \<and> InodeNumbers s = \<lparr>initialized = False, last_inode_number = 0, inode_bias = 0\<rparr> \<and> uuids_ok (Environment s)"

text \<open>The first number and the step that \<^verbatim>\<open>random\<close> yields.\<close>

definition drawn :: "bb_state \<Rightarrow> u64 \<Rightarrow> u64 \<Rightarrow> bool" where
  "drawn s x b \<longleftrightarrow> x = Random (Environment s) (Suc (Suc (Suc (Tick s)))) \<and> steady x b
     \<and> (\<exists>j. draw_bias (Random (Environment s)) (Suc (Suc (Suc (Suc (Tick s))))) = Some (b, j))"

lemma blank_views:
  assumes "blank s"
  shows "dirs s = Map.empty" "dir_map s = (\<lambda>_. Map.empty)" "ino_of s = Map.empty" "kind_of s = Map.empty" "lock_of s = Map.empty" "nlink s = Map.empty"
  using assms by (auto simp: blank_def dirs_def dir_map_def ino_of_def kind_of_def lock_of_def nlink_def fun_eq_iff)

lemma blank_inv:
  assumes "blank s" "itable_ok s" "quiet s" "InodeCount (InodeTable s) = 0"
  shows "fs_inv s" "idle s" "stored_ok s"
  using assms blank_views [OF assms(1)]
  by (simp_all add: fs_inv_def table_inv_def owners_ok_def entries_ok_def refs_ok_def fresh_ok_def links_ok_def idle_def stored_ok_def blank_def)

lemma blank_number:
  assumes "blank s" "drawn s x b"
  shows "\<exists>i n j. i \<le> 1 \<and> get_new_inode_number (Random (Environment s)) (Suc (Suc (Suc (Tick s)))) (InodeNumbers s) = Some (x + of_nat i * b, n, j)
    \<and> n = \<lparr>initialized = True, last_inode_number = x + of_nat (Suc i) * b, inode_bias = b\<rparr> \<and> x + of_nat i * b \<noteq> 0 \<and> x + of_nat i * b \<noteq> FUSE_ROOT_ID"
proof -
  let ?A = "\<lparr>names = \<lambda>_. Map.empty, refs = \<lambda>_ _. 0, inos = Map.empty, kinds = Map.empty, nums = \<lparr>initialized = True, last_inode_number = x, inode_bias = b\<rparr>\<rparr> :: fs"
  have b: "b \<noteq> 0" "\<And>j. j < 2 ^ 33 \<Longrightarrow> x + of_nat j * b \<noteq> FUSE_ROOT_ID"
    using assms(2) by (auto simp: drawn_def steady_def)
  have "numbered x b 0 ?A"
    by (simp add: numbered_def)
  from fetch_numbered [OF this b(1)] obtain i where i: "i \<le> 1"
    "fetch_number (nums ?A) = Some (x + of_nat i * b, \<lparr>initialized = True, last_inode_number = x + of_nat (Suc i) * b, inode_bias = b\<rparr>)" "x + of_nat i * b \<noteq> 0"
    by auto
  obtain j where "draw_bias (Random (Environment s)) (Suc (Suc (Suc (Suc (Tick s))))) = Some (b, j)"
    using assms(2) by (auto simp: drawn_def)
  then show ?thesis
    using assms i b(2) [of i] by (auto simp: get_new_inode_number_def blank_def drawn_def intro!: exI [of _ i])
qed

section \<open>The root directory\<close>

definition first_view :: "addr \<Rightarrow> u64 \<Rightarrow> inode_numbers \<Rightarrow> fs" where
  "first_view root ino n = \<lparr>names = (\<lambda>_. Map.empty)(root := [''.'' \<mapsto> root, ''..'' \<mapsto> root]),
     refs = (\<lambda>_ _. 0)(root := (\<lambda>_. 0)(0 := 1, 1 := 1, 2 := 2)), inos = [root \<mapsto> ino], kinds = [root \<mapsto> DirectoryObjectAttributes], nums = n\<rparr>"

lemma first_view_simps [simp]:
  "names (first_view root ino n) = (\<lambda>_. Map.empty)(root := [''.'' \<mapsto> root, ''..'' \<mapsto> root])"
  "refs (first_view root ino n) = (\<lambda>_ _. 0)(root := (\<lambda>_. 0)(0 := 1, 1 := 1, 2 := 2))" "inos (first_view root ino n) = [root \<mapsto> ino]"
  "kinds (first_view root ino n) = [root \<mapsto> DirectoryObjectAttributes]" "nums (first_view root ino n) = n"
  by (simp_all add: first_view_def)

lemma mount_root:
  assumes s: "blank s" "itable_ok s" "quiet s" "table_map s = Map.empty" "InodeCount (InodeTable s) = 0" and d: "drawn s x b"
  shows "\<exists>root t i. BitbucketCreateRootDirectory s = Some (root, t) \<and> root \<noteq> NULL \<and> fs_ok root t \<and> i \<le> 1
    \<and> fs_of t = first_view root (x + of_nat i * b) \<lparr>initialized = True, last_inode_number = x + of_nat (Suc i) * b, inode_bias = b\<rparr>"
proof -
  note inv = blank_inv [OF s(1-3,5)] and v = blank_views [OF s(1)]
  define a where "a = next_addr s + header_offset"
  obtain i n j where i: "i \<le> 1" "get_new_inode_number (Random (Environment s)) (Suc (Suc (Suc (Tick s)))) (InodeNumbers s) = Some (x + of_nat i * b, n, j)"
    "n = \<lparr>initialized = True, last_inode_number = x + of_nat (Suc i) * b, inode_bias = b\<rparr>" "x + of_nat i * b \<noteq> 0" "x + of_nat i * b \<noteq> FUSE_ROOT_ID"
    using blank_number [OF s(1) d] by blast
  then have "fresh_number s"
    using s(4) by (simp add: fresh_number_def)
  from create_root [OF inv(1,2) this a_def] obtain t da h where t: "BitbucketCreateRootDirectory s = Some (a, t)" "fs_inv t" "idle t" "dirs t a = Some da"
    "dir_map t = (dir_map s)(a := [''.'' \<mapsto> a, ''..'' \<mapsto> a])" "Objects t = (Objects s)(a \<mapsto> h)"
    "ReferenceReasons h ! 0 = 1" "ReferenceReasons h ! 1 = 1" "ReferenceReasons h ! 2 = 2" "\<forall>r. 2 < r \<and> r < 12 \<longrightarrow> ReferenceReasons h ! r = 0"
    "born DirectoryObjectAttributes s t a" "\<forall>b. b \<noteq> a \<longrightarrow> dirs t b = dirs s b" "\<forall>b. Inodes t b = None \<longleftrightarrow> Inodes s b = None \<and> b \<noteq> a"
    by blast
  have "rest t = ([a \<mapsto> x + of_nat i * b], [a \<mapsto> DirectoryObjectAttributes], n, Environment s)" "Storage t = Map.empty"
    using t(11) i(2) v s(1) by (auto simp: born_def blank_def)
  note R = this
  have refs: "refs (fs_of t) c r = refs (first_view a (x + of_nat i * b) n) c r" for c r
  proof (cases "c = a \<and> r < 12")
    case True
    have "reason_count t a r = ((\<lambda>_. 0)(0 := 1, 1 := 1, 2 := 2)) r"
    proof -
      consider "r = 0" | "r = 1" | "r = 2" | "2 < r"
        by linarith
      then show ?thesis
        using t(6-10) True by cases (simp_all add: reason_count_def)
    qed
    then show ?thesis
      using True t(13) by (simp add: fs_of_def)
  next
    case False
    moreover have "Inodes t c = None \<longleftrightarrow> c \<noteq> a"
      using t(13) s(1) by (simp add: blank_def)
    ultimately show ?thesis
      by (simp add: fs_of_def) linarith
  qed
  have F: "fs_of t = first_view a (x + of_nat i * b) n"
    using R(1) t(5) v(2) by (intro fs_eqI refs) (simp_all add: fs_of_def rest_def)
  have "dots_ok t"
    using t(5,12) v by (auto simp: dots_ok_def)
  moreover have "stored_ok t"
    using inv(3) R by (simp add: stored_ok_def rest_def)
  moreover have "0 < refs (fs_of t) a 0"
    by (simp add: F)
  ultimately have "fs_ok a t"
    using t(2-4) by (simp only: fs_ok_def) simp
  then show ?thesis
    using t(1) F i(1,3) by (intro exI [of _ a] exI [of _ t] exI [of _ i]) (simp add: a_def)
qed

section \<open>The directories of fixed names\<close>

lemma made_directory_names:
  "a \<noteq> p \<Longrightarrow> names (made_directory p name a ino n A) =
     (names A)(a := (names A a)(''.'' \<mapsto> a, ''..'' \<mapsto> p), p := (names A p)(name \<mapsto> a))"
  by (simp add: made_directory_def fun_upd_twist)

lemma made_directory_budget:
  assumes "budget x b k A" "b \<noteq> 0" "0 < k" "next_ino A ino n"
  shows "budget x b (k + 2) (made_directory p name a ino n A)"
proof -
  obtain m where m: "m \<le> k" "numbered x b m A"
    using assms(1) by (auto simp: budget_def)
  have "\<exists>m'\<le>m + 2. numbered x b m' (made_directory p name a ino n A)"
    by (rule numbered_new [OF m(2) assms(2,4)]) (auto simp: made_directory_def split: if_splits)
  then obtain m' where "m' \<le> m + 2" "numbered x b m' (made_directory p name a ino n A)"
    by blast
  moreover have "refs A c d \<le> k" "refs A c d \<le> Suc k" "refs A c d \<le> Suc (Suc k)" for c d
    using assms(1) by (simp_all add: budget_def le_SucI)
  then have "refs (made_directory p name a ino n A) c d \<le> k + 2" for c d
    using assms(3) by (simp add: made_directory_def)
  ultimately show ?thesis
    using m(1) unfolding budget_def by (meson add_le_mono1 le_trans)
qed

lemma magic_made:
  assumes ok: "fs_ok root s" and B: "budget x b k (fs_of s)" "steady x b" "0 < k" "k + 10 < 2 ^ 32" and f: "free_in (fs_of s) p name"
  shows "\<exists>a ino n t. create_magic p name s = Some (a, t) \<and> fs_ok root t \<and> inos (fs_of s) a = None \<and> a \<noteq> p \<and> a \<noteq> NULL \<and> names (fs_of s) a = Map.empty
    \<and> fs_of t = made_directory p name a ino n (fs_of s) \<and> budget x b (k + 2) (fs_of t)"
proof -
  obtain ino n where num: "next_ino (fs_of s) ino n"
    using budget_mounted(2) [OF B(1,2,4)] by blast
  have room: "roomy (Suc (Suc 0)) (fs_of s)"
    using budget_mounted(1) [OF B(1,2,4)] by (rule roomy_mono) simp
  obtain a t where t: "BitbucketCreateDirectory p name s = Some (a, t)" "fs_ok root t" "inos (fs_of s) a = None" "a \<noteq> NULL" "fs_of t = made_directory p name a ino n (fs_of s)"
    using fs_ok_mkdir [OF ok num _ _ _ _ room, of p name] f by (auto simp: free_in_def)
  have na: "names (fs_of s) a = Map.empty" "names (fs_of s) p ''.'' = Some p"
    using t(3) inos_live [of s a] f by (simp_all add: fs_of_def dir_map_def dirs_def fun_eq_iff free_in_def)
  have "Inodes t a \<noteq> None"
    using inos_live [of t a] by (simp add: t(5))
  then obtain i where i: "Inodes t a = Some i"
    by blast
  have "(st_mode (Attributes i) AND NOT 0x92) AND S_IFMT = st_mode (Attributes i) AND (NOT 0x92 AND (S_IFMT :: u32))"
    by (simp only: and.assoc)
  then have "(st_mode (Attributes i) AND NOT 0x92) AND S_IFMT = st_mode (Attributes i) AND S_IFMT"
    by simp
  then obtain u where u: "set_attributes a (\<lambda>attr. attr\<lparr>st_mode := st_mode attr AND NOT 0x92\<rparr>) t = Some u" "touch t u" "lock_of u = lock_of t"
    using set_mode_touch [OF i, of "\<lambda>attr. st_mode attr AND NOT 0x92"] by blast
  have "budget x b (k + 2) (fs_of u)"
    unfolding fs_ok_touch(2) [OF t(2) u(2,3)] t(5) using B num by (intro made_directory_budget) (auto simp: steady_def)
  moreover have "a \<noteq> p"
    using na by auto
  ultimately show ?thesis
    using t u(1) na(1) fs_ok_touch [OF t(2) u(2,3)] by (auto simp: create_magic_def)
qed

lemma magics_made:
  assumes "fs_ok root s" "budget x b k (fs_of s)" "steady x b" "0 < k" "k + 2 * length l + 10 < 2 ^ 32" "names (fs_of s) p ''.'' = Some p"
    and "distinct (map snd l)" "\<forall>name\<in>set (map snd l). name \<noteq> ''.'' \<and> 0 < length name \<and> length name < 1023 \<and> names (fs_of s) p name = None"
  shows "\<exists>res t. create_magics p l s = Some (res, t) \<and> fs_ok root t \<and> budget x b (k + 2 * length l) (fs_of t)
    \<and> map fst res = map fst (filter (\<lambda>(i, name). \<not> is_unused name) l)
    \<and> names (fs_of t) p = names (fs_of s) p ++ map_of (zip (filter (\<lambda>name. \<not> is_unused name) (map snd l)) (map snd res))
    \<and> (\<forall>c. inos (fs_of s) c \<noteq> None \<and> c \<noteq> p \<longrightarrow> names (fs_of t) c = names (fs_of s) c)"
  using assms
proof (induction l arbitrary: s k)
  case Nil
  then show ?case
    by simp
next
  case (Cons e l)
  obtain i name where e: "e = (i, name)"
    by (cases e)
  have le: "budget x b (k + 2 + 2 * length l) A" if "budget x b (k + 2 * length l) A" for A
    by (rule budget_mono [OF that]) simp
  show ?case
  proof (cases "is_unused name")
    case True
    then show ?thesis
      using Cons.IH [OF Cons.prems(1-4)] Cons.prems(5-8) e le by (fastforce simp: add.assoc)
  next
    case False
    have f: "free_in (fs_of s) p name"
      using Cons.prems(6,8) e by (simp add: free_in_def)
    have "k + 10 < 2 ^ 32"
      using Cons.prems(5) by simp
    then obtain a ino n t where t: "create_magic p name s = Some (a, t)" "fs_ok root t" "inos (fs_of s) a = None" "a \<noteq> p" "names (fs_of s) a = Map.empty"
      "fs_of t = made_directory p name a ino n (fs_of s)" "budget x b (k + 2) (fs_of t)"
      using magic_made [OF Cons.prems(1-4) _ f] by blast
    have nm: "names (fs_of t) = (names (fs_of s))(a := [''.'' \<mapsto> a, ''..'' \<mapsto> p], p := (names (fs_of s) p)(name \<mapsto> a))"
      using made_directory_names [OF t(4)] t(5,6) by simp
    have "\<exists>res u. create_magics p l t = Some (res, u) \<and> fs_ok root u \<and> budget x b (k + 2 + 2 * length l) (fs_of u)
      \<and> map fst res = map fst (filter (\<lambda>(i, name). \<not> is_unused name) l)
      \<and> names (fs_of u) p = names (fs_of t) p ++ map_of (zip (filter (\<lambda>name. \<not> is_unused name) (map snd l)) (map snd res))
      \<and> (\<forall>c. inos (fs_of t) c \<noteq> None \<and> c \<noteq> p \<longrightarrow> names (fs_of u) c = names (fs_of t) c)"
      using Cons.prems(3-8) e nm by (intro Cons.IH [OF t(2,7)]) (auto simp: free_in_def)
    then obtain res u where u: "create_magics p l t = Some (res, u)" "fs_ok root u" "budget x b (k + 2 + 2 * length l) (fs_of u)"
      "map fst res = map fst (filter (\<lambda>(i, name). \<not> is_unused name) l)"
      "names (fs_of u) p = names (fs_of t) p ++ map_of (zip (filter (\<lambda>name. \<not> is_unused name) (map snd l)) (map snd res))"
      "\<forall>c. inos (fs_of t) c \<noteq> None \<and> c \<noteq> p \<longrightarrow> names (fs_of u) c = names (fs_of t) c"
      by blast
    have "name \<notin> dom (map_of (zip (filter (\<lambda>name. \<not> is_unused name) (map snd l)) (map snd res)))"
      using Cons.prems(7) e by (auto dest!: map_of_SomeD dest: set_zip_leftD)
    then have "names (fs_of u) p = names (fs_of s) p ++ map_of (zip (name # filter (\<lambda>name. \<not> is_unused name) (map snd l)) (map snd ((i, a) # res)))"
      unfolding u(5) nm by (simp add: map_add_upd_left)
    moreover have "names (fs_of u) c = names (fs_of s) c" if "inos (fs_of s) c \<noteq> None" "c \<noteq> p" for c
      using u(6) that t(3,6) nm by (auto simp: made_simps)
    moreover have "filter (\<lambda>name. \<not> is_unused name) (map snd (e # l)) = name # filter (\<lambda>name. \<not> is_unused name) (map snd l)"
      "create_magics p (e # l) s = Some ((i, a) # res, u)" "map fst ((i, a) # res) = map fst (filter (\<lambda>(i, name). \<not> is_unused name) (e # l))"
      "k + 2 * length (e # l) = k + 2 + 2 * length l"
      using False e t(1) u(1,4) by simp_all
    ultimately show ?thesis
      using u(2,3) by (intro exI [of _ "(i, a) # res"] exI [of _ u]) (simp only: simp_thms, blast)
  qed
qed

section \<open>The whole mount\<close>

lemma verification_irrelevant:
  "fs_ok root (s\<lparr>VerifyDirectoriesEnabled := v\<rparr>) = fs_ok root s" "fs_of (s\<lparr>VerifyDirectoriesEnabled := v\<rparr>) = fs_of s"
proof -
  let ?t = "s\<lparr>VerifyDirectoriesEnabled := v\<rparr>"
  have v: "dirs ?t = dirs s" "dir_map ?t = dir_map s" "ino_of ?t = ino_of s" "kind_of ?t = kind_of s" "lock_of ?t = lock_of s" "nlink ?t = nlink s"
    "dirent_name ?t = dirent_name s" "entries_of ?t = entries_of s" "reason_count ?t = reason_count s" "hash_of ?t = hash_of s" "bucket ?t = bucket s"
    "xattr_name_of ?t = xattr_name_of s"
    by (simp_all add: dirs_def dir_map_def ino_of_def kind_of_def lock_of_def nlink_def dirent_name_def entries_of_def reason_count_def hash_of_def bucket_def
        xattr_name_of_def fun_eq_iff)
  have "table_map ?t = table_map s"
    by (rule ext) (simp add: table_map_def v)
  note v = v this
  show F: "fs_of ?t = fs_of s"
    by (rule fs_eqI) (simp_all add: fs_of_def v)
  have "children_of ?t = children_of s" "linked ?t = linked s"
    using v by (auto simp: children_of_def linked_def fun_eq_iff)
  moreover have "kind_ok ?t = kind_ok s"
    by (auto simp: kind_ok_def fun_eq_iff split: option.split registered.split)
  ultimately show "fs_ok root ?t = fs_ok root s"
    using v F
    by (simp add: fs_ok_def fs_inv_def table_inv_def itable_ok_def bucket_ok_def quiet_def inode_ok_def xattr_ok_def owners_ok_def entries_ok_def refs_ok_def
        fresh_ok_def links_ok_def idle_lock_of dots_ok_def childless_def stored_ok_def)
qed

lemma first_budget:
  assumes "i \<le> 1"
  shows "budget x b 4 (first_view root (x + of_nat i * b) \<lparr>initialized = True, last_inode_number = x + of_nat (Suc i) * b, inode_bias = b\<rparr>)"
proof -
  have "numbered x b (Suc i) (first_view root (x + of_nat i * b) \<lparr>initialized = True, last_inode_number = x + of_nat (Suc i) * b, inode_bias = b\<rparr>)"
    by (auto simp: numbered_def split: if_splits)
  then show ?thesis
    unfolding budget_def using assms by (intro conjI exI [of _ "Suc i"]) auto
qed

lemma magic_names:
  "BitbucketMagicNames ! 0 = ''Bitbucket''" "length (tl (enumerate 0 BitbucketMagicNames)) = 15"
  "filter (\<lambda>name. \<not> is_unused name) (map snd (tl (enumerate 0 BitbucketMagicNames))) = [''Size'', ''Name'', ''Creation'', ''Uuid'']"
  "map fst (filter (\<lambda>(i, name). \<not> is_unused name) (tl (enumerate 0 BitbucketMagicNames))) = [1, 2, 3, 4]"
  "distinct (map snd (tl (enumerate 0 BitbucketMagicNames)))"
  "\<forall>name\<in>set (map snd (tl (enumerate 0 BitbucketMagicNames))). name \<noteq> ''.'' \<and> name \<noteq> ''..'' \<and> 0 < length name \<and> length name < 1023"
  by (simp_all add: BitbucketMagicNames_def is_unused_def)

lemma init_ready:
  assumes s: "blank s" "drawn s x b" and ud: "InodeTableSize ud \<le> 32768" "length tab \<le> length BitbucketCallDataNames"
  shows "\<exists>root magic rest tab' t. bitbucket_internal_init junk ud tab s = Some (ud\<lparr>RootDirectory := root, BitbucketMagicDirectories := (0, magic) # rest\<rparr>, tab', t)
    \<and> fs_ok root t \<and> budget x b 64 (fs_of t) \<and> names (fs_of t) root = [''.'' \<mapsto> root, ''..'' \<mapsto> root, ''Bitbucket'' \<mapsto> magic]
    \<and> map fst rest = [1, 2, 3, 4]
    \<and> names (fs_of t) magic = [''.'' \<mapsto> magic, ''..'' \<mapsto> root] ++ map_of (zip [''Size'', ''Name'', ''Creation'', ''Uuid''] (map snd rest))"
proof -
  obtain T k where T: "BitbucketCreateInodeTable junk (InodeTableSize ud) 0 = Some T" "BucketCount T = 2 ^ k" "BucketCountShift T = k" "10 \<le> k"
    "InodeTableSize ud \<le> 32768 \<longleftrightarrow> k < 16" "InodeCount T = 0"
    "\<forall>b. ListEntry (Buckets T b) = [] \<and> BucketLock (Buckets T b) = Unlocked \<and> Count (Buckets T b) = 0 \<and> LastInodeTableEntry (Buckets T b) = None"
    by (rule fresh_table [of junk "InodeTableSize ud" 0])
  let ?s = "s\<lparr>InodeTable := T\<rparr>"
  have tab: "itable_ok ?s \<and> quiet ?s \<and> table_map ?s = Map.empty"
    using T ud(1) by (intro empty_table) simp_all
  have b: "blank ?s" "drawn ?s x b" "steady x b" "InodeCount (InodeTable ?s) = 0"
    using s T(6) by (auto simp: blank_def drawn_def)
  obtain root s1 i where s1: "BitbucketCreateRootDirectory ?s = Some (root, s1)" "root \<noteq> NULL" "fs_ok root s1" "i \<le> 1"
    "fs_of s1 = first_view root (x + of_nat i * b) \<lparr>initialized = True, last_inode_number = x + of_nat (Suc i) * b, inode_bias = b\<rparr>"
    using mount_root [OF b(1) _ _ _ b(4,2)] tab by blast
  have B1: "budget x b 4 (fs_of s1)"
    unfolding s1(5) by (rule first_budget [OF s1(4)])
  obtain m ino n s2 where s2: "create_magic root ''Bitbucket'' s1 = Some (m, s2)" "fs_ok root s2" "inos (fs_of s1) m = None" "m \<noteq> root"
    "names (fs_of s1) m = Map.empty" "fs_of s2 = made_directory root ''Bitbucket'' m ino n (fs_of s1)" "budget x b 6 (fs_of s2)"
    using magic_made [OF s1(3) B1 b(3), of root "''Bitbucket''"] by (auto simp: free_in_def s1(5))
  have n2: "names (fs_of s2) m = [''.'' \<mapsto> m, ''..'' \<mapsto> root]" "names (fs_of s2) root = [''.'' \<mapsto> root, ''..'' \<mapsto> root, ''Bitbucket'' \<mapsto> m]"
    "inos (fs_of s2) root \<noteq> None"
    using made_directory_names [OF s2(4)] s2(4,5) by (simp_all add: s2(6) s1(5))
  let ?l = "tl (enumerate 0 BitbucketMagicNames)"
  have "\<exists>res t. create_magics m ?l s2 = Some (res, t) \<and> fs_ok root t \<and> budget x b (6 + 2 * length ?l) (fs_of t)
    \<and> map fst res = map fst (filter (\<lambda>(i, name). \<not> is_unused name) ?l)
    \<and> names (fs_of t) m = names (fs_of s2) m ++ map_of (zip (filter (\<lambda>name. \<not> is_unused name) (map snd ?l)) (map snd res))
    \<and> (\<forall>c. inos (fs_of s2) c \<noteq> None \<and> c \<noteq> m \<longrightarrow> names (fs_of t) c = names (fs_of s2) c)"
    using magic_names(2,5,6) n2(1) b(3) by (intro magics_made [OF s2(2,7)]) auto
  then obtain rest t where t: "create_magics m ?l s2 = Some (rest, t)" "fs_ok root t" "budget x b 36 (fs_of t)" "map fst rest = [1, 2, 3, 4]"
    "names (fs_of t) m = [''.'' \<mapsto> m, ''..'' \<mapsto> root] ++ map_of (zip [''Size'', ''Name'', ''Creation'', ''Uuid''] (map snd rest))"
    "names (fs_of t) root = names (fs_of s2) root"
    unfolding magic_names n2(1) using n2(3) s2(4) by auto
  have B: "budget x b 64 (fs_of t)"
    by (rule budget_mono [OF t(3)]) simp
  obtain tab' where tab': "BitbucketInitializeCallStatistics tab = Some tab'"
    using ud(2) by (simp add: BitbucketInitializeCallStatistics_def)
  let ?t = "if VerifyDirectories ud then BitbucketEnableDirectoryVerification t else t"
  have "bitbucket_internal_init junk ud tab s = Some (ud\<lparr>RootDirectory := root, BitbucketMagicDirectories := (0, m) # rest\<rparr>, tab', ?t)"
    using T(1) s1(1,2) s2(1) t(1) tab' magic_names(1) by (simp add: bitbucket_internal_init_def Let_def)
  moreover have "fs_ok root ?t = fs_ok root t" "fs_of ?t = fs_of t"
    using verification_irrelevant [where v = True] by (simp_all add: BitbucketEnableDirectoryVerification_def)
  ultimately show ?thesis
    using t(2,4-6) B n2(2) by (intro exI [of _ root] exI [of _ m] exI [of _ rest] exI [of _ tab'] exI [of _ ?t]) (simp only: simp_thms)
qed

section \<open>Reachable states\<close>

text \<open>
  The states of the program: after a mount, and after every request that the kernel may send.
  The index counts the requests.  \<^verbatim>\<open>drawn\<close> is the assumption on \<^verbatim>\<open>random\<close>: the sequence of numbers does
  not hit the number of the root; \<^verbatim>\<open>blank\<close> includes that \<^verbatim>\<open>uuid_generate\<close> does not repeat itself.
\<close>

inductive reachable :: "fuse_req \<Rightarrow> nat \<Rightarrow> bb_state \<Rightarrow> bool" for req where
  mount: "\<lbrakk>blank s; drawn s x b; InodeTableSize ud \<le> 32768; length tab \<le> length BitbucketCallDataNames; BackgroundForget ud = 0;
    StorageDir ud \<noteq> None \<longrightarrow> os_open (req_os req) = 0; bitbucket_internal_init junk ud tab s = Some (userdata req, tab', t)\<rbrakk> \<Longrightarrow> reachable req 0 t"
| request: "\<lbrakk>reachable req n s; allowed (RootDirectory (userdata req)) (fs_of s) r; handle req r s = Some (status, replies, t)\<rbrakk> \<Longrightarrow>
    reachable req (Suc n) t"

lemma reachable_ready:
  assumes "reachable req n s" "n \<le> 2 ^ 30"
  shows "\<exists>x b. ready req x b (64 + 2 * n) s"
  using assms
proof (induction rule: reachable.induct)
  case (mount s x b ud tab junk tab' t)
  obtain root magic rest tab'' t' where "bitbucket_internal_init junk ud tab s = Some (ud\<lparr>RootDirectory := root, BitbucketMagicDirectories := (0, magic) # rest\<rparr>, tab'', t')"
    and t: "fs_ok root t'" "budget x b 64 (fs_of t')"
    using init_ready [OF mount(1-4), of junk] by blast
  then have eq: "userdata req = ud\<lparr>RootDirectory := root, BitbucketMagicDirectories := (0, magic) # rest\<rparr>" "t' = t"
    using mount(7) by simp_all
  have "steady x b"
    using mount(2) unfolding drawn_def by blast
  then have "ready req x b 64 t"
    using t mount(5,6) unfolding ready_def eq by simp
  then show ?case
    by auto
next
  case (request n s r status replies t)
  then obtain x b where "ready req x b (64 + 2 * n) s"
    by auto
  moreover have "64 + 2 * n + 10 < 2 ^ 32"
    using request.prems by simp
  ultimately have "ready req x b (64 + 2 * n + 2) t"
    using ready_step [OF _ _ request.hyps(2), of x b "64 + 2 * n"] request.hyps(3) by auto
  then show ?case
    by (auto simp: algebra_simps)
qed

lemma reachable_ok:
  assumes "reachable req n s" "n \<le> 2 ^ 30"
  shows "fs_ok (RootDirectory (userdata req)) s"
  using reachable_ready [OF assms] by (auto simp: ready_def)

lemma reachable_step:
  assumes "reachable req n s" "n < 2 ^ 30" "allowed (RootDirectory (userdata req)) (fs_of s) r"
  shows "\<exists>status replies t. handle req r s = Some (status, replies, t) \<and> fs_step (RootDirectory (userdata req)) (fs_of s) r status replies (fs_of t)
    \<and> reachable req (Suc n) t"
proof -
  obtain x b where "ready req x b (64 + 2 * n) s"
    using reachable_ready [OF assms(1)] assms(2) by auto
  then show ?thesis
    using ready_step [OF _ _ assms(3), of x b "64 + 2 * n"] assms(2) reachable.request [OF assms(1,3)] by fastforce
qed

section \<open>A mounted file system\<close>

definition sample_start :: bb_state where
  "sample_start = start_state\<lparr>Environment := (Environment start_state)\<lparr>Uuid := (\<lambda>k. replicate k CHR ''u'')\<rparr>\<rparr>"

definition sample_userdata :: bitbucket_userdata where
  "sample_userdata = \<lparr>RootDirectory = NULL, AttrTimeout = 0, StorageDir = Some ''/tmp/bitbucket'', FsyncDisable = 0, NoXattr = False, BackgroundForget = 0,
     FlushEnable = 0, VerifyDirectories = False, InodeTableSize = 8192, BitbucketMagicDirectories = []\<rparr>"

definition sample_request :: "bitbucket_userdata \<Rightarrow> fuse_req" where
  "sample_request ud = \<lparr>userdata = ud, req_id = 1, req_pid = 1, req_os = \<lparr>os_malloc = True, os_open = 0, os_ftruncate = 0, os_mmap = 0\<rparr>,
     req_pread = (\<lambda>_ _ _. None), 
     req_statvfs = \<lparr>f_bsize = 4096, f_frsize = 4096, f_blocks = 1000, f_bfree = 500, f_bavail = 500, f_files = 100, f_ffree = 50, f_fsid = 1, f_flag = 0, f_namemax = 255\<rparr>,
      req_rlimit = 0, req_rusage = 0\<rparr>"

lemma sample_blank: "blank sample_start" "drawn sample_start 9 9"
proof -
  have "(9 :: u64) + of_nat j * 9 \<noteq> 1" if "j < 2 ^ 33" for j
  proof
    have "unat (9 + of_nat j * 9 :: u64) = 9 + j * 9"
      using that by (simp add: unat_word_ariths unat_of_nat take_bit_eq_mod)
    moreover assume "(9 :: u64) + of_nat j * 9 = 1"
    ultimately show False
      by simp
  qed
  then show "drawn sample_start 9 9"
    by (simp add: drawn_def sample_start_def start_state_def steady_def draw_bias.simps [of _ "Suc (Suc (Suc (Suc 0)))"])
  have "inj (\<lambda>k. replicate k CHR ''u'')"
    by (rule injI) (metis length_replicate)
  then show "blank sample_start"
    by (simp add: blank_def sample_start_def start_state_def uuids_ok_def)
qed

lemma sample_mounted:
  obtains req t root magic where "reachable req 0 t" "RootDirectory (userdata req) = root" "names (fs_of t) root = [''.'' \<mapsto> root, ''..'' \<mapsto> root, ''Bitbucket'' \<mapsto> magic]"
proof -
  obtain root magic rest tab' t where t: "bitbucket_internal_init (\<lambda>_. (0, 0, 0)) sample_userdata [] sample_start =
      Some (sample_userdata\<lparr>RootDirectory := root, BitbucketMagicDirectories := (0, magic) # rest\<rparr>, tab', t)"
    "names (fs_of t) root = [''.'' \<mapsto> root, ''..'' \<mapsto> root, ''Bitbucket'' \<mapsto> magic]"
    using init_ready [OF sample_blank, of sample_userdata "[]" "\<lambda>_. (0, 0, 0)"] by (auto simp: sample_userdata_def)
  let ?req = "sample_request (sample_userdata\<lparr>RootDirectory := root, BitbucketMagicDirectories := (0, magic) # rest\<rparr>)"
  have "reachable ?req 0 t"
    using t(1) by (intro reachable.mount [OF sample_blank, of sample_userdata "[]"]) (simp_all add: sample_userdata_def sample_request_def)
  then show ?thesis
    using that t(2) by (simp add: sample_request_def)
qed

section \<open>Tables that are too large\<close>

text \<open>
  The hash function does not accept a table of 65536 buckets, which is made for more than 32768; with such a table no inode can be
  created, and a mount gives up at the root directory.
\<close>

lemma object_create_table:
  assumes "BitbucketObjectCreate (Some InodePrivateObjectAttributes) len reason s = Some (a, t)"
  shows "InodeTable t = InodeTable s"
  using assms by (auto simp: BitbucketObjectCreate_def InodePrivateObjectAttributes_def InodeInitialize_def BitbucketInitializeExtendedAttributes_def
      malloc_def IncrementObjectCount_def set_inode_def Let_def split: bind_splits if_splits)

lemma initialize_table: "registered_Initialize k a len s = Some t \<Longrightarrow> InodeTable t = InodeTable s"
  by (cases k) (auto simp: DirectoryInitialize_def FileInitialize_def SymlinkInitialize_def set_inode_def split: bind_splits if_splits)

lemma create_inode_needs_hash:
  assumes "\<forall>ino t. InodeTable t = InodeTable s \<longrightarrow> hash_of t ino = None"
  shows "BitbucketCreateInode (Some k) len s = None"
proof -
  have "BitbucketInsertInodeInTable a t = None" if "InodeTable t = InodeTable s" for a t
    using assms that by (simp add: BitbucketInsertInodeInTable_def Let_def split: bind_splits)
  then show ?thesis
    by (auto simp: BitbucketCreateInode_def Let_def set_inode_def dest!: object_create_table initialize_table split: bind_splits)
qed

lemma mount_large_table:
  assumes "32768 < InodeTableSize ud"
  shows "bitbucket_internal_init junk ud tab s = None"
proof -
  obtain T k where T: "BitbucketCreateInodeTable junk (InodeTableSize ud) 0 = Some T" "BucketCountShift T = k" "InodeTableSize ud \<le> 32768 \<longleftrightarrow> k < 16"
    by (rule fresh_table [of junk "InodeTableSize ud" 0])
  have "hash_of t ino = None" if "InodeTable t = T" for t ino
    using hash_inode_needs [of ino "HashSeed T" k] T(2,3) assms that by (cases "hash_of t ino") (auto simp: hash_of_def)
  then have "BitbucketCreateRootDirectory (s\<lparr>InodeTable := T\<rparr>) = None"
    using create_inode_needs_hash [of "s\<lparr>InodeTable := T\<rparr>" DirectoryObjectAttributes 0] by (simp add: BitbucketCreateRootDirectory_def)
  then show ?thesis
    using T(1) by (simp add: bitbucket_internal_init_def)
qed
end
