(* ===== verification/FsTraces.thy ===== *)
theory FsTraces
  imports FsMount
begin

text \<open>
  Consequences of the specification for sequences of requests: what each request answers in a
  reachable state, and the life of a file from its creation to the last reference that the
  kernel gives back.
\<close>

section \<open>The answers in a reachable state\<close>

inductive_cases lookup_stepE: "fs_step root A (Lookup parent name) status replies B"
inductive_cases getattr_stepE: "fs_step root A (Getattr ino) status replies B"
inductive_cases unlink_stepE: "fs_step root A (Unlink parent name) status replies B"
inductive_cases release_stepE: "fs_step root A (Release ino) status replies B"
inductive_cases forget_stepE: "fs_step root A (Forget ino n) status replies B"
inductive_cases create_stepE: "fs_step root A (Create parent name mode fi) status replies B"

lemma inos_inj:
  assumes "fs_ok root s" "inos (fs_of s) a = Some i" "inos (fs_of s) b = Some i"
  shows "a = b"
proof -
  have "table_map s i = Some a" "table_map s i = Some b"
    using assms(2,3) ino_table [OF fs_okD(1) [OF assms(1)], of i] by (simp_all add: fs_of_def)
  then show ?thesis
    by simp
qed

lemma known_unique: "fs_ok root s \<Longrightarrow> known root (fs_of s) i a \<Longrightarrow> known root (fs_of s) i b \<Longrightarrow> b = a"
  using inos_inj [of root s b i a] by (simp add: known_def split: if_splits)

lemma names_directory:
  assumes "fs_ok root s" "names (fs_of s) p name = Some x"
  shows "\<not> not_dir (fs_of s) p"
proof -
  have "dirs s p \<noteq> None"
    using assms(2) by (cases "dirs s p") (auto simp: fs_of_def dir_map_def)
  then show ?thesis
    using kind_dirs [OF fs_okD(1) [OF assms(1)], of p] by (simp add: not_dir_def)
qed

text \<open>A state that \<^verbatim>\<open>n\<close> requests have reached serves a further one.\<close>

definition serving :: "fuse_req \<Rightarrow> addr \<Rightarrow> nat \<Rightarrow> bb_state \<Rightarrow> bool" where
  "serving req root n s \<longleftrightarrow> reachable req n s \<and> n < 2 ^ 30 \<and> RootDirectory (userdata req) = root"

lemma servingD: "serving req root n s \<Longrightarrow> fs_ok root s"
  using reachable_ok [of req n s] by (auto simp: serving_def)

lemma serving_step:
  assumes "serving req root n s" "allowed root (fs_of s) r"
  obtains status replies t where "handle req r s = Some (status, replies, t)" "fs_step root (fs_of s) r status replies (fs_of t)"
    "reachable req (Suc n) t"
  using reachable_step [of req n s r] assms by (auto simp: serving_def)

lemma lookup_found:
  assumes s: "serving req root n s" and p: "known root (fs_of s) parent p" "parent \<noteq> 0" "names (fs_of s) p name = Some x"
  obtains e t where "handle req (Lookup parent name) s = Some (0, [reply_entry e], t)" "described (fs_of s) x (fep_attr e)" "fep_ino e = st_ino (fep_attr e)"
    "fs_of t = ref_add 5 x (fs_of s)" "reachable req (Suc n) t"
proof -
  note u = known_unique [OF servingD [OF s] p(1)]
  have "allowed root (fs_of s) (Lookup parent name)"
    using p(2) names_directory [OF servingD [OF s] p(3)] u by auto
  then obtain status replies t where t: "handle req (Lookup parent name) s = Some (status, replies, t)" "reachable req (Suc n) t"
    and "fs_step root (fs_of s) (Lookup parent name) status replies (fs_of t)"
    by (rule serving_step [OF s])
  from this(3) show thesis
    by (rule lookup_stepE) (use t p u that in \<open>auto\<close>)
qed

lemma lookup_missing:
  assumes s: "serving req root n s" and p: "known root (fs_of s) parent p" "parent \<noteq> 0" "names (fs_of s) p name = None" "\<not> not_dir (fs_of s) p"
  obtains t where "handle req (Lookup parent name) s = Some (ENOENT, [reply_err ENOENT], t)" "fs_of t = fs_of s" "reachable req (Suc n) t"
proof -
  note u = known_unique [OF servingD [OF s] p(1)]
  have "allowed root (fs_of s) (Lookup parent name)"
    using p(2,4) u by auto
  then obtain status replies t where t: "handle req (Lookup parent name) s = Some (status, replies, t)" "reachable req (Suc n) t"
    and "fs_step root (fs_of s) (Lookup parent name) status replies (fs_of t)"
    by (rule serving_step [OF s])
  from this(3) show thesis
    by (rule lookup_stepE) (use t p u that in \<open>auto\<close>)
qed

lemma getattr_known:
  assumes s: "serving req root n s" and a: "known root (fs_of s) ino a" "ino \<noteq> 0"
  obtains attr timeout t where "handle req (Getattr ino) s = Some (0, [reply_attr attr timeout], t)" "described (fs_of s) a attr"
    "fs_of t = fs_of s" "reachable req (Suc n) t"
proof -
  obtain status replies t where t: "handle req (Getattr ino) s = Some (status, replies, t)" "reachable req (Suc n) t"
    and "fs_step root (fs_of s) (Getattr ino) status replies (fs_of t)"
    by (rule serving_step [OF s, of "Getattr ino"]) (use a(2) in auto)
  from this(3) show thesis
    by (rule getattr_stepE) (use t a known_unique [OF servingD [OF s] a(1)] that in \<open>auto\<close>)
qed

lemma getattr_unknown:
  assumes s: "serving req root n s" and a: "\<forall>a. \<not> known root (fs_of s) ino a" "ino \<noteq> 0"
  obtains t where "handle req (Getattr ino) s = Some (EBADF, [reply_err EBADF], t)" "fs_of t = fs_of s" "reachable req (Suc n) t"
proof -
  obtain status replies t where t: "handle req (Getattr ino) s = Some (status, replies, t)" "reachable req (Suc n) t"
    and "fs_step root (fs_of s) (Getattr ino) status replies (fs_of t)"
    by (rule serving_step [OF s, of "Getattr ino"]) (use a(2) in auto)
  from this(3) show thesis
    by (rule getattr_stepE) (use t a that in \<open>auto simp: unknown_status_def\<close>)
qed

lemma unlink_found:
  assumes s: "serving req root n s" and p: "known root (fs_of s) parent p" "parent \<noteq> 0" "name \<noteq> []"
    and x: "names (fs_of s) p name = Some x" "not_dir (fs_of s) x"
  obtains t where "handle req (Unlink parent name) s = Some (0, [reply_err 0], t)" "fs_of t = after_unlink p name x (fs_of s)" "reachable req (Suc n) t"
proof -
  note u = known_unique [OF servingD [OF s] p(1)] and d = names_directory [OF servingD [OF s] x(1)]
  have "allowed root (fs_of s) (Unlink parent name)"
    using p(2,3) x u by auto
  then obtain status replies t where t: "handle req (Unlink parent name) s = Some (status, replies, t)" "reachable req (Suc n) t"
    and "fs_step root (fs_of s) (Unlink parent name) status replies (fs_of t)"
    by (rule serving_step [OF s])
  from this(3) show thesis
    by (rule unlink_stepE) (use t p x d u that in \<open>auto\<close>)
qed

lemma release_known:
  assumes s: "serving req root n s" and a: "known root (fs_of s) ino a" "ino \<noteq> 0" "0 < refs (fs_of s) a 6"
  obtains t where "handle req (Release ino) s = Some (0, [reply_err 0], t)" "fs_of t = ref_sub 6 1 a (fs_of s)" "reachable req (Suc n) t"
proof -
  note u = known_unique [OF servingD [OF s] a(1)]
  have "allowed root (fs_of s) (Release ino)"
    using a(2,3) u by auto
  then obtain status replies t where t: "handle req (Release ino) s = Some (status, replies, t)" "reachable req (Suc n) t"
    and "fs_step root (fs_of s) (Release ino) status replies (fs_of t)"
    by (rule serving_step [OF s])
  from this(3) show thesis
    by (rule release_stepE) (use t a u that in \<open>auto\<close>)
qed

lemma forget_known:
  assumes s: "serving req root n s" and a: "inos (fs_of s) a = Some ino" "ino \<noteq> 0" "unat k \<le> refs (fs_of s) a 5"
  obtains t where "handle req (Forget ino k) s = Some (0, [reply_none], t)" "fs_of t = ref_sub 5 (unat k) a (fs_of s)" "reachable req (Suc n) t"
proof -
  note u = inos_inj [OF servingD [OF s] _ a(1)]
  have "allowed root (fs_of s) (Forget ino k)"
    using a(2,3) by (auto dest: u)
  then obtain status replies t where t: "handle req (Forget ino k) s = Some (status, replies, t)" "reachable req (Suc n) t"
    and "fs_step root (fs_of s) (Forget ino k) status replies (fs_of t)"
    by (rule serving_step [OF s])
  from this(3) show thesis
    by (rule forget_stepE) (use t a(1) that in \<open>auto dest: u\<close>)
qed

lemma create_new:
  assumes s: "serving req root n s" and p: "known root (fs_of s) parent p" and a: "allowed root (fs_of s) (Create parent name mode fi)"
  obtains e a m t where "handle req (Create parent name mode fi) s = Some (0, [reply_create e (fi\<lparr>fh := a\<rparr>)], t)" "next_ino (fs_of s) (fep_ino e) m"
    "inos (fs_of s) a = None" "fs_of t = after_create p name a (fep_ino e) m (fs_of s)" "reachable req (Suc n) t"
proof -
  obtain status replies t where t: "handle req (Create parent name mode fi) s = Some (status, replies, t)" "reachable req (Suc n) t"
    and "fs_step root (fs_of s) (Create parent name mode fi) status replies (fs_of t)"
    by (rule serving_step [OF s a])
  from this(3) show thesis
    by (rule create_stepE) (use t p known_unique [OF servingD [OF s] p] that in \<open>auto\<close>)
qed

section \<open>Consistency\<close>

lemma consistent_state:
  assumes ok: "fs_ok root s"
  shows "(\<forall>p name x. names (fs_of s) p name = Some x \<longrightarrow> Inodes s x \<noteq> None)
    \<and> (\<forall>a i. Inodes s a = Some i \<longrightarrow> table_map s (st_ino (Attributes i)) = Some a \<and> InodeLock i = Unlocked
        \<and> refs (fs_of s) a 2 = card (entries_of s a) \<and> refs (fs_of s) a 1 = card (children_of s a)
        \<and> unat (st_nlink (Attributes i)) = (if dirs s a = None then 0 else 1) + card (linked s a) \<and> (\<exists>q<12. 0 < refs (fs_of s) a q))"
proof (intro conjI allI impI)
  note s = fs_okD [OF ok]
  show "Inodes s x \<noteq> None" if "names (fs_of s) p name = Some x" for p name x
    using dir_map_live [OF s(1)] that by (simp add: fs_of_def)
  fix a i
  assume a: "Inodes s a = Some i"
  show "table_map s (st_ino (Attributes i)) = Some a" "InodeLock i = Unlocked"
    using fs_invD(5) [OF s(1) a] s(2) a by (simp_all add: inode_ok_def idle_def)
  show "refs (fs_of s) a 2 = card (entries_of s a)" "refs (fs_of s) a 1 = card (children_of s a)"
    using s(1) a by (simp_all add: fs_inv_def refs_ok_def fs_of_def)
  show "unat (st_nlink (Attributes i)) = (if dirs s a = None then 0 else 1) + card (linked s a)"
    using s(1) a by (simp add: fs_inv_def links_ok_def nlink_def)
  show "\<exists>q<12. 0 < refs (fs_of s) a q"
    using held_fs [OF s(1)] inos_live [of s a] a by (simp add: held_def)
qed

section \<open>The life of a file\<close>

text \<open>The view with one further file: its name, if it still has it, and the names, lookups and open handles that refer to it.\<close>

definition held_by :: "nat \<Rightarrow> nat \<Rightarrow> nat \<Rightarrow> nat \<Rightarrow> nat" where
  "held_by d l h = (\<lambda>_. 0)(INODE_DIRENT_REFERENCE := d, INODE_FUSE_LOOKUP_REFERENCE := l, INODE_FUSE_OPEN_REFERENCE := h)"

definition with_file :: "addr \<Rightarrow> string \<Rightarrow> addr \<Rightarrow> u64 \<Rightarrow> inode_numbers \<Rightarrow> addr option \<Rightarrow> (nat \<Rightarrow> nat) \<Rightarrow> fs \<Rightarrow> fs" where
  "with_file p name a ino m x c A = A\<lparr>names := (names A)(p := (names A p)(name := x)), refs := (refs A)(a := c), inos := (inos A)(a \<mapsto> ino),
     kinds := (kinds A)(a \<mapsto> FileObjectAttributes), nums := m\<rparr>"

lemma with_file_simps [simp]:
  "names (with_file p name a ino m x c A) = (names A)(p := (names A p)(name := x))" "refs (with_file p name a ino m x c A) = (refs A)(a := c)"
  "inos (with_file p name a ino m x c A) = (inos A)(a \<mapsto> ino)" "kinds (with_file p name a ino m x c A) = (kinds A)(a \<mapsto> FileObjectAttributes)"
  "nums (with_file p name a ino m x c A) = m"
  by (simp_all add: with_file_def)

lemma held_by_simps [simp]: "held_by d l h 2 = d" "held_by d l h 5 = l" "held_by d l h 6 = h" "12 \<le> q \<Longrightarrow> held_by d l h q = 0"
  by (simp_all add: held_by_def)

lemma with_file_sub:
  assumes "q < 12" "0 < (c(r := c r - k)) q"
  shows "ref_sub r k a (with_file p name a ino m x c A) = with_file p name a ino m x (c(r := c r - k)) A"
proof -
  have "\<exists>q<12. 0 < ((refs (with_file p name a ino m x c A) a)(r := refs (with_file p name a ino m x c A) a r - k)) q"
    using assms by auto
  from ref_sub_kept [OF this] show ?thesis
    by (intro fs_eqI) auto
qed

lemma file_created:
  "after_create p name a ino m A = with_file p name a ino m (Some a) (held_by 1 1 1) A"
proof -
  let ?c = "(held_by 1 1 1)(0 := 1)"
  have made: "ref_add 6 a (ref_add 5 a (made_file p name a ino m A)) = with_file p name a ino m (Some a) ?c A"
    by (rule fs_eqI) (auto simp: made_file_def ref_add_def new_node_def set_name_def with_file_def held_by_def)
  have "ref_sub 0 1 a (with_file p name a ino m (Some a) ?c A) = with_file p name a ino m (Some a) (?c(0 := ?c 0 - 1)) A"
    by (rule with_file_sub [of 5]) simp_all
  also have "?c(0 := ?c 0 - 1) = held_by 1 1 1"
    by (auto simp: fun_eq_iff held_by_def)
  finally show ?thesis
    unfolding after_create_def made .
qed

lemma file_looked_up:
  "ref_add 5 a (with_file p name a ino m x (held_by d l h) A) = with_file p name a ino m x (held_by d (Suc l) h) A"
  by (rule fs_eqI) (auto simp: ref_add_def with_file_def held_by_def)

lemma file_unlinked:
  assumes "0 < l"
  shows "after_unlink p name a (with_file p name a ino m x (held_by 1 l h) A) = with_file p name a ino m None (held_by 0 l h) A"
proof -
  have named: "set_name p name None (with_file p name a ino m x (held_by 1 l h) A) = with_file p name a ino m None (held_by 1 l h) A"
    by (rule fs_eqI) simp_all
  have "(held_by 1 l h)(2 := held_by 1 l h 2 - 1) = held_by 0 l h"
    by (auto simp: held_by_def fun_eq_iff)
  then show ?thesis
    unfolding after_unlink_def named using with_file_sub [of 5 "held_by 1 l h" 2 1] assms by simp
qed

lemma file_released:
  assumes "0 < l"
  shows "ref_sub 6 1 a (with_file p name a ino m x (held_by d l 1) A) = with_file p name a ino m x (held_by d l 0) A"
proof -
  have "(held_by d l 1)(6 := held_by d l 1 6 - 1) = held_by d l 0"
    by (auto simp: held_by_def fun_eq_iff)
  then show ?thesis
    using with_file_sub [of 5 "held_by d l 1" 6 1] assms by simp
qed

text \<open>The last reference takes the file away.\<close>

lemma file_forgotten:
  assumes "names A p name = None" "p \<noteq> a" "inos A a = None" "names A a = Map.empty" "refs A a = (\<lambda>_. 0)" "kinds A a = None"
  shows "ref_sub 5 l a (with_file p name a ino m None (held_by 0 l 0) A) = A\<lparr>nums := m\<rparr>"
proof -
  have "(held_by 0 l 0)(5 := 0) = (\<lambda>_. 0)"
    by (auto simp: held_by_def)
  then show ?thesis
    using assms by (intro fs_eqI) (auto simp: ref_sub_def with_file_def fun_eq_iff)
qed

lemma dead_view:
  assumes "inos (fs_of s) a = None"
  shows "names (fs_of s) a = Map.empty" "refs (fs_of s) a = (\<lambda>_. 0)" "kinds (fs_of s) a = None"
  using assms by (auto simp: fs_of_def ino_of_def kind_of_def dir_map_def dirs_def fun_eq_iff)

text \<open>From the creation to the last reference, request by request; the state before comes back but for the sequence of numbers.\<close>

lemma file_opened:
  assumes s: "serving req root n s" and p: "known root (fs_of s) parent p" and a: "allowed root (fs_of s) (Create parent name mode fi)"
  obtains e x m t where "handle req (Create parent name mode fi) s = Some (0, [reply_create e (fi\<lparr>fh := x\<rparr>)], t)" "reachable req (Suc n) t"
    "fs_of t = with_file p name x (fep_ino e) m (Some x) (held_by 1 1 1) (fs_of s)" "inos (fs_of s) x = None" "p \<noteq> x" "names (fs_of s) p name = None"
    "\<forall>y c. known root (with_file p name x (fep_ino e) m y c (fs_of s)) parent p \<and> known root (with_file p name x (fep_ino e) m y c (fs_of s)) (fep_ino e) x"
    "fep_ino e \<noteq> 0" "\<forall>y. \<not> known root (fs_of s) (fep_ino e) y" "\<not> not_dir (fs_of s) p" "fep_ino e \<noteq> FUSE_ROOT_ID"
proof -
  obtain e x m t where t: "handle req (Create parent name mode fi) s = Some (0, [reply_create e (fi\<lparr>fh := x\<rparr>)], t)" "next_ino (fs_of s) (fep_ino e) m"
    "inos (fs_of s) x = None" "fs_of t = after_create p name x (fep_ino e) m (fs_of s)" "reachable req (Suc n) t"
    by (rule create_new [OF s p a])
  have free: "names (fs_of s) p ''.'' = Some p" "names (fs_of s) p name = None"
    using a p by (auto simp: free_in_def)
  have num: "fep_ino e \<noteq> 0" "fep_ino e \<noteq> FUSE_ROOT_ID" "\<forall>y. inos (fs_of s) y \<noteq> Some (fep_ino e)"
    using t(2) by (auto simp: next_ino_def)
  have px: "p \<noteq> x"
    using free(1) dead_view(1) [OF t(3)] by auto
  show thesis
    using p num px by (intro that [OF t(1,5) t(4) [unfolded file_created] t(3) px free(2) _ num(1) _ names_directory [OF servingD [OF s] free(1)] num(2)])
      (auto simp: known_def)
qed

lemma file_life:
  assumes s: "reachable req n s" "n + 7 < 2 ^ 30" and root: "RootDirectory (userdata req) = root" and p: "known root (fs_of s) parent p"
    and a: "allowed root (fs_of s) (Create parent name mode fi)"
  shows "\<exists>e x e' attr timeout t1 t2 t3 t4 t5 t6 t7 t8.
    handle req (Create parent name mode fi) s = Some (0, [reply_create e (fi\<lparr>fh := x\<rparr>)], t1)
    \<and> handle req (Lookup parent name) t1 = Some (0, [reply_entry e'], t2) \<and> fep_ino e' = fep_ino e
    \<and> handle req (Unlink parent name) t2 = Some (0, [reply_err 0], t3)
    \<and> handle req (Lookup parent name) t3 = Some (ENOENT, [reply_err ENOENT], t4)
    \<and> handle req (Getattr (fep_ino e)) t4 = Some (0, [reply_attr attr timeout], t5) \<and> st_ino attr = fep_ino e
    \<and> handle req (Release (fep_ino e)) t5 = Some (0, [reply_err 0], t6)
    \<and> handle req (Forget (fep_ino e) 2) t6 = Some (0, [reply_none], t7)
    \<and> handle req (Getattr (fep_ino e)) t7 = Some (EBADF, [reply_err EBADF], t8)
    \<and> fs_of t8 = (fs_of s)\<lparr>nums := nums (fs_of t1)\<rparr>"
proof -
  have S: "serving req root k t" if "reachable req k t" "k \<le> n + 7" for k t
    using that s(2) root by (simp add: serving_def)
  have par: "parent \<noteq> 0" "name \<noteq> []"
    using a by auto
  obtain e x m t1 where t1: "handle req (Create parent name mode fi) s = Some (0, [reply_create e (fi\<lparr>fh := x\<rparr>)], t1)" "reachable req (Suc n) t1"
    "fs_of t1 = with_file p name x (fep_ino e) m (Some x) (held_by 1 1 1) (fs_of s)" and x: "inos (fs_of s) x = None" "p \<noteq> x" "names (fs_of s) p name = None"
    "\<forall>y c. known root (with_file p name x (fep_ino e) m y c (fs_of s)) parent p \<and> known root (with_file p name x (fep_ino e) m y c (fs_of s)) (fep_ino e) x"
    "fep_ino e \<noteq> 0" "\<forall>y. \<not> known root (fs_of s) (fep_ino e) y" "\<not> not_dir (fs_of s) p" "fep_ino e \<noteq> FUSE_ROOT_ID"
    by (rule file_opened [OF S [OF s(1) le_add1] p a])
  let ?W = "\<lambda>y c. with_file p name x (fep_ino e) m y c (fs_of s)"
  have K: "known root (fs_of t) parent p" "known root (fs_of t) (fep_ino e) x" if "fs_of t = ?W y c" for t y c
    using x(4) that by simp_all
  obtain e' t2 where t2: "handle req (Lookup parent name) t1 = Some (0, [reply_entry e'], t2)" "inos (fs_of t1) x = Some (fep_ino e')"
    "fs_of t2 = ref_add 5 x (fs_of t1)" "reachable req (Suc (Suc n)) t2"
    by (rule lookup_found [OF S [OF t1(2)] K(1) [OF t1(3)] par(1)]) (use t1(3) in \<open>auto simp: described_def\<close>)
  have v2: "fs_of t2 = ?W (Some x) (held_by 1 2 1)"
    unfolding t2(3) t1(3) file_looked_up by (simp add: numeral_2_eq_2)
  obtain t3 where t3: "handle req (Unlink parent name) t2 = Some (0, [reply_err 0], t3)" "fs_of t3 = after_unlink p name x (fs_of t2)" "reachable req (Suc (Suc (Suc n))) t3"
    by (rule unlink_found [OF S [OF t2(4)] K(1) [OF v2] par, of x]) (auto simp: v2 not_dir_def)
  have v3: "fs_of t3 = ?W None (held_by 0 2 1)"
    unfolding t3(2) v2 by (rule file_unlinked) simp
  obtain t4 where t4: "handle req (Lookup parent name) t3 = Some (ENOENT, [reply_err ENOENT], t4)" "fs_of t4 = fs_of t3" "reachable req (Suc (Suc (Suc (Suc n)))) t4"
    by (rule lookup_missing [OF S [OF t3(3)] K(1) [OF v3] par(1)]) (use x(2,7) in \<open>auto simp: v3 not_dir_def\<close>)
  obtain attr timeout t5 where t5: "handle req (Getattr (fep_ino e)) t4 = Some (0, [reply_attr attr timeout], t5)" "inos (fs_of t4) x = Some (st_ino attr)"
    "fs_of t5 = fs_of t4" "reachable req (Suc (Suc (Suc (Suc (Suc n))))) t5"
    by (rule getattr_known [OF S [OF t4(3)] K(2) [OF t4(2) [unfolded v3]] x(5)]) (auto simp: described_def)
  note v5 = t5(3) [unfolded t4(2) v3]
  obtain t6 where t6: "handle req (Release (fep_ino e)) t5 = Some (0, [reply_err 0], t6)" "fs_of t6 = ref_sub 6 1 x (fs_of t5)"
    "reachable req (Suc (Suc (Suc (Suc (Suc (Suc n)))))) t6"
    by (rule release_known [OF S [OF t5(4)] K(2) [OF v5] x(5)]) (auto simp: v5)
  have v6: "fs_of t6 = ?W None (held_by 0 2 0)"
    unfolding t6(2) v5 by (rule file_released) simp
  obtain t7 where t7: "handle req (Forget (fep_ino e) 2) t6 = Some (0, [reply_none], t7)" "fs_of t7 = ref_sub 5 (unat (2 :: u64)) x (fs_of t6)"
    "reachable req (Suc (Suc (Suc (Suc (Suc (Suc (Suc n))))))) t7"
    by (rule forget_known [OF S [OF t6(3)] _ x(5), of x 2]) (auto simp: v6)
  have v7: "fs_of t7 = (fs_of s)\<lparr>nums := m\<rparr>"
    unfolding t7(2) v6 using file_forgotten [OF x(3,2,1) dead_view [OF x(1)], of 2] by simp
  obtain t8 where t8: "handle req (Getattr (fep_ino e)) t7 = Some (EBADF, [reply_err EBADF], t8)" "fs_of t8 = fs_of t7"
    by (rule getattr_unknown [OF S [OF t7(3)] _ x(5)]) (use x(6) in \<open>auto simp: v7 known_def\<close>)
  have "fep_ino e' = fep_ino e" "st_ino attr = fep_ino e" "m = nums (fs_of t1)"
    using t2(2) t5(2) by (simp_all add: t1(3) t4(2) v3)
  then show ?thesis
    using t1(1) t2(1) t3(1) t4(1) t5(1) t6(1) t7(1) t8(1) t8(2) [unfolded v7] by blast
qed

section \<open>Names that exist\<close>

lemma serving_mounted:
  assumes "serving req root n s"
  shows "roomy 8 (fs_of s)" "\<exists>ino m. next_ino (fs_of s) ino m"
proof -
  obtain x b where "ready req x b (64 + 2 * n) s"
    using reachable_ready [of req n s] assms by (auto simp: serving_def)
  then have "mounted req root s"
    using ready_mounted [of req x b "64 + 2 * n" s] assms by (simp add: serving_def)
  then show "roomy 8 (fs_of s)" "\<exists>ino m. next_ino (fs_of s) ino m"
    by (auto simp: mounted_def)
qed

lemma taken_directory_name:
  assumes ok: "fs_ok root s" and num: "next_ino (fs_of s) ino m" and x: "names (fs_of s) p name = Some x"
    and name: "0 < length name" "length name < 1023" and room: "roomy (Suc (Suc k)) (fs_of s)"
  shows "BitbucketCreateDirectory p name s = None"
proof -
  note s = fs_okD [OF ok]
  have m: "dir_map s p name \<noteq> None"
    using x by (simp add: fs_of_def)
  then obtain d where d: "dirs s p = Some d"
    by (cases "dirs s p") (auto simp: dir_map_def)
  obtain j where j: "Inodes s p = Some j"
    using s(1) d by (rule dir_inode)
  obtain h where h: "Objects s p = Some h"
    using s(1) j by (rule fs_inv_inode)
  have "room s p 1" "room s p 2"
    using refs_room [OF room] j by simp_all
  then show ?thesis
    by (rule create_directory(2) [OF s(1,2) next_ino_fresh(1) [OF s(1) num] refl d h _ _ name m])
qed

lemma mkdir_taken:
  assumes s: "serving req root n s" and p: "known root (fs_of s) parent p" "parent \<noteq> 0" and x: "names (fs_of s) p name = Some x"
    and name: "0 < length name" "length name < 1023"
  shows "handle req (Mkdir parent name mode) s = None"
proof -
  note ok = servingD [OF s]
  have req: "RootDirectory (userdata req) = root"
    using s by (simp add: serving_def)
  have P: "target root s parent = Some p"
    using p(1) target_known [OF fs_okD(1) [OF ok], of root parent p] by simp
  obtain ino m where num: "next_ino (fs_of s) ino m"
    using serving_mounted(2) [OF s] by blast
  note room = serving_mounted(1) [OF s, unfolded eval_nat_numeral BitM.simps numeral_1_eq_Suc_0]
  obtain t i where t: "get_inode req parent s = Some (p, t)" "fs_ok root t" "fs_of t = ref_add 0 p (fs_of s)" "p \<noteq> NULL" "Inodes t p = Some i"
    using begin_known [OF ok req p(2) room P] by auto
  have "S_ISDIR (st_mode (Attributes i))"
    using kind_type(3) [OF fs_okD(1) [OF t(2)] t(5)] names_directory [OF ok x] t(3) by (simp add: not_dir_def)
  moreover have "BitbucketCreateDirectory p name t = None"
    using num x by (intro taken_directory_name [OF t(2) _ _ name, of ino m p x "Suc 0"])
      (auto simp: t(3) next_ino_def intro: roomy_mono [OF roomy_add [OF room]])
  ultimately show ?thesis
    using t by (simp add: bitbucket_internal_mkdir_def)
qed

lemma create_taken:
  assumes s: "serving req root n s" and p: "known root (fs_of s) parent p" "parent \<noteq> 0" and x: "names (fs_of s) p name = Some x"
  shows "handle req (Create parent name mode fi) s = None"
proof -
  note ok = servingD [OF s]
  have req: "RootDirectory (userdata req) = root"
    using s by (simp add: serving_def)
  have P: "target root s parent = Some p"
    using p(1) target_known [OF fs_okD(1) [OF ok], of root parent p] by simp
  note room = serving_mounted(1) [OF s, unfolded eval_nat_numeral BitM.simps numeral_1_eq_Suc_0]
  obtain t where t: "get_inode req parent s = Some (p, t)" "fs_ok root t" "fs_of t = ref_add 0 p (fs_of s)" "p \<noteq> NULL" "dirs t = dirs s"
    using begin_known [OF ok req p(2) room P] by auto
  have m: "dir_map t p name = Some x" "dirs t p \<noteq> None"
    using x arg_cong [OF t(3), of names] names_directory [OF ok x] kind_dirs [OF fs_okD(1) [OF ok], of p] t(5) by (auto simp: fs_of_def not_dir_def)
  have "x \<noteq> NULL"
    using dir_map_live [OF fs_okD(1) [OF t(2)] m(1)] fs_invD(5) [OF fs_okD(1) [OF t(2)], of x] by (auto simp: inode_ok_def)
  then obtain u where "BitbucketLookupObjectInDirectory p name t = Some (x, u)" "x \<noteq> NULL"
    using fs_ok_lookup [OF t(2) m(2), of 0 name] roomy_mono [OF roomy_add [OF room], of "Suc 0"] m(1) t(3) by (auto simp: address_def)
  then show ?thesis
    using t by (simp add: bitbucket_internal_create_def)
qed

section \<open>A sample\<close>

definition sample_info :: fuse_file_info where
  "sample_info = \<lparr>fh = 0, fi_flags = 0, cache_readdir = False\<rparr>"

lemma sample_file:
  obtains req s root magic where "reachable req 0 s" "RootDirectory (userdata req) = root" "allowed root (fs_of s) (Create 1 ''file'' S_IFREG sample_info)"
    "known root (fs_of s) 1 root" "names (fs_of s) root ''Bitbucket'' = Some magic" "Inodes s root \<noteq> None"
proof -
  obtain req s root magic where s: "reachable req 0 s" "RootDirectory (userdata req) = root"
    "names (fs_of s) root = [''.'' \<mapsto> root, ''..'' \<mapsto> root, ''Bitbucket'' \<mapsto> magic]"
    by (rule sample_mounted)
  then show thesis
    using fs_okD(6) [OF reachable_ok [OF s(1)]] by (intro that [of req s root magic]) (simp_all add: known_def free_in_def)
qed

end
