(* ===== verification/FastLookup.thy ===== *)
theory FastLookup
  imports InodeHash
begin

text \<open>
  The object table of \<^verbatim>\<open>src/finesse/utils/fastlookup.c\<close>, which finds the objects of the server by
  inode number and by identifier.  An entry hangs in the list of the bucket of its number and in
  the list of the bucket of its identifier; a bucket remembers the entry found last.  The heads of the
  lists are part of the bucket, and a bucket keeps a hash over them which every lock and
  unlock compares.  A list is the list of the entries in it; the two pointers of its head follow from it.
  The magic numbers, the messages on stderr and the lock of the freed lists are left out.
\<close>

section \<open>Data\<close>

record finesse_object =
  inode :: u64
  uuid :: "u8 list"
  freed :: bool

record lookup_entry =
  ReferenceCount :: u64
  Object :: finesse_object

datatype lookup_entry_type = LookupEntryTypeLinkedLists | LookupEntryTypeLookupTable

record lookup_entry_table_bucket =
  EntryCount :: u64
  LastEntry :: addr
  LookupEntryType :: lookup_entry_type
  InodeTableEntry :: "addr list"
  UuidTableEntry :: "addr list"
  LastHashValue :: u64
  Lock :: rwlock

record lookup_entry_table =
  TableAddress :: addr
  TableEntryCount :: u64
  BucketCountShift :: nat
  Buckets :: "nat \<Rightarrow> lookup_entry_table_bucket"
  HashSeed :: u32

record lookup_state =
  Table :: lookup_entry_table
  Entries :: "addr \<Rightarrow> lookup_entry option"
  FreedInodeList :: "addr list"
  FreedUuidList :: "addr list"
  next_address :: addr

text \<open>The freed lists are a debugging aid that is switched on.\<close>

abbreviation (input) UseFreedLists :: bool where "UseFreedLists \<equiv> True"

definition uuid_is_null :: "u8 list \<Rightarrow> bool" where
  "uuid_is_null u \<longleftrightarrow> (\<forall>b\<in>set u. b = 0)"

abbreviation null_uuid :: "u8 list" where "null_uuid \<equiv> replicate 16 0"

definition bucket :: "lookup_state \<Rightarrow> nat \<Rightarrow> lookup_entry_table_bucket" where
  "bucket s i = Buckets (Table s) i"

definition set_bucket :: "nat \<Rightarrow> lookup_entry_table_bucket \<Rightarrow> lookup_state \<Rightarrow> lookup_state" where
  "set_bucket i b s = s\<lparr>Table := (Table s)\<lparr>Buckets := (Buckets (Table s))(i := b)\<rparr>\<rparr>"

section \<open>The hash of a bucket\<close>

text \<open>
  The bytes of the two list heads, next pointer first.  An empty list points to its own
  head.  The buckets follow the table, which has 128 bytes; a bucket has 192 bytes and the two
  heads at 32 and 48; the list entries of an entry are at 16 and 32.
\<close>

definition head_bytes :: "addr \<Rightarrow> nat \<Rightarrow> addr list \<Rightarrow> u8 list" where
  "head_bytes head offset l =
     (if l = [] then bytes64 (of_nat head) @ bytes64 (of_nat head)
      else bytes64 (of_nat (hd l + offset)) @ bytes64 (of_nat (last l + offset)))"

definition LookupBucketHashFunction :: "addr \<Rightarrow> lookup_entry_table_bucket \<Rightarrow> u64" where
  "LookupBucketHashFunction address b =
     (let (h1, h2) = MurmurHash3_x64_128 (head_bytes (address + 32) 16 (InodeTableEntry b) @ head_bytes (address + 48) 32 (UuidTableEntry b)) 0x7800c666;
          hash = h1 XOR h2
      in if hash = 0 then - 1 else hash)"

definition bucket_address :: "lookup_entry_table \<Rightarrow> nat \<Rightarrow> addr" where
  "bucket_address tab i = TableAddress tab + 128 + 192 * i"

definition bucket_hash :: "lookup_state \<Rightarrow> nat \<Rightarrow> u64" where
  "bucket_hash s i = LookupBucketHashFunction (bucket_address (Table s) i) (bucket s i)"

section \<open>Tables\<close>

fun bucket_count_shift :: "nat \<Rightarrow> nat option" where
  "bucket_count_shift n =
     (if n = 1024 then Some 10 else if n = 2048 then Some 11 else if n = 4096 then Some 12
      else if n = 8192 then Some 13 else if n = 16384 then Some 14 else if n = 32768 then Some 15 else None)"

definition new_bucket :: "addr \<Rightarrow> lookup_entry_table_bucket" where
  "new_bucket address =
     (let b = \<lparr>EntryCount = 0, LastEntry = NULL, LookupEntryType = LookupEntryTypeLinkedLists, InodeTableEntry = [], UuidTableEntry = [],
            LastHashValue = 0, Lock = Unlocked\<rparr>
      in b\<lparr>LastHashValue := LookupBucketHashFunction address b\<rparr>)"

definition CreateLookupTable :: "addr \<Rightarrow> nat \<Rightarrow> u32 \<Rightarrow> lookup_entry_table option" where
  "CreateLookupTable address count seed = do {
     shift \<leftarrow> bucket_count_shift count;
     Some \<lparr>TableAddress = address, TableEntryCount = 0, BucketCountShift = shift,
       Buckets = (\<lambda>i. new_bucket (address + 128 + 192 * i)), HashSeed = (if seed = 0 then 0x7800c666 else seed)\<rparr> }"

text \<open>The loop looks for the highest bit; it starts at bit ten.\<close>

partial_function (option) highest_bit :: "u64 \<Rightarrow> nat \<Rightarrow> nat option" where
  "highest_bit count index = (if drop_bit index count \<noteq> 1 then highest_bit count (Suc index) else Some index)"

definition FinesseCreateTable :: "addr \<Rightarrow> u64 \<Rightarrow> lookup_entry_table option" where
  "FinesseCreateTable address EstimatedSize = do {
     let bucket_count = EstimatedSize div 1024;
     let bucket_count = (if bucket_count = 0 then 10240 else bucket_count);
     let bucket_count = (if bucket_count < 1024 then 1024 else bucket_count);
     let bucket_count = (if 32768 < bucket_count then 32768 else bucket_count);
     index \<leftarrow> highest_bit bucket_count 10;
     CreateLookupTable address (2 ^ index) 0 }"

definition free_entry :: "addr \<Rightarrow> lookup_state \<Rightarrow> lookup_state option" where
  "free_entry a s = do {
     e \<leftarrow> Entries s a;
     Some (s\<lparr>Entries := (Entries s)(a := None)\<rparr>) }"

fun free_entries :: "addr list \<Rightarrow> lookup_state \<Rightarrow> lookup_state option" where
  "free_entries [] s = Some s"
| "free_entries (a # l) s = do { s \<leftarrow> free_entry a s; free_entries l s }"

fun destroy_buckets :: "nat list \<Rightarrow> lookup_state \<Rightarrow> lookup_state option" where
  "destroy_buckets [] s = Some s"
| "destroy_buckets (i # is) s = do {
     s \<leftarrow> free_entries (InodeTableEntry (bucket s i)) s;
     destroy_buckets is (set_bucket i ((bucket s i)\<lparr>InodeTableEntry := []\<rparr>) s) }"

definition DestroyLookupTable :: "lookup_state \<Rightarrow> lookup_state option" where
  "DestroyLookupTable s = destroy_buckets [0..<2 ^ BucketCountShift (Table s)] s"

section \<open>Locks\<close>

definition LockBucket :: "nat \<Rightarrow> bool \<Rightarrow> lookup_state \<Rightarrow> lookup_state option" where
  "LockBucket i exclusive s = do {
     (status, l) \<leftarrow> (if exclusive then wrlock (Lock (bucket s i)) else rdlock (Lock (bucket s i)));
     c_assert (LastHashValue (bucket s i) = bucket_hash s i);
     Some (set_bucket i ((bucket s i)\<lparr>Lock := l\<rparr>) s) }"

abbreviation (input) EAGAIN :: errno where "EAGAIN \<equiv> 11"

text \<open>Whether the lock is held exclusively is found out by trying.\<close>

definition UnlockBucket :: "nat \<Rightarrow> lookup_state \<Rightarrow> lookup_state option" where
  "UnlockBucket i s = do {
     let b = bucket s i;
     let currentHashValue = bucket_hash s i;
     let (status, l) = trywrlock (Lock b);
     c_assert (status \<noteq> 0);
     let (status, l) = tryrdlock l;
     (exclusive, l) \<leftarrow>
       (if status = 0 then Some (False, snd (rwunlock l))
        else if status = EDEADLK \<or> status = EBUSY then Some (True, l)
        else if status = EAGAIN then Some (False, l)
        else None);
     b \<leftarrow> (if exclusive then Some (b\<lparr>LastHashValue := currentHashValue\<rparr>)
          else do { c_assert (LastHashValue b = currentHashValue); Some b });
     Some (set_bucket i (b\<lparr>Lock := snd (rwunlock l)\<rparr>) s) }"

section \<open>Lookup\<close>

definition GetBucketIndex :: "lookup_entry_table \<Rightarrow> u8 list \<Rightarrow> nat option" where
  "GetBucketIndex tab key = do {
     c_assert (0 < length key);
     let (h1, h2) = MurmurHash3_x64_128 key (HashSeed tab);
     th \<leftarrow> truncate_hash (h1 XOR h2) (BucketCountShift tab);
     let index = unat (ucast th :: u16);
     c_assert (index < 2 ^ BucketCountShift tab);
     Some index }"

definition GetBucketIndexForInode :: "lookup_entry_table \<Rightarrow> u64 \<Rightarrow> nat option" where
  "GetBucketIndexForInode tab ino = do {
     c_assert (ino \<noteq> 0);
     GetBucketIndex tab (bytes64 ino) }"

definition GetBucketIndexForUuid :: "lookup_entry_table \<Rightarrow> u8 list \<Rightarrow> nat option" where
  "GetBucketIndexForUuid tab u = do {
     c_assert (\<not> uuid_is_null u);
     GetBucketIndex tab u }"

text \<open>The walk over a list of entries.\<close>

fun find_entry :: "(finesse_object \<Rightarrow> bool) \<Rightarrow> addr list \<Rightarrow> lookup_state \<Rightarrow> addr option" where
  "find_entry P [] s = Some NULL"
| "find_entry P (a # l) s = do {
     e \<leftarrow> Entries s a;
     if P (Object e) then Some a else find_entry P l s }"

text \<open>Only one of number and identifier is given.\<close>

definition lookup_match :: "u64 \<Rightarrow> u8 list \<Rightarrow> finesse_object \<Rightarrow> bool" where
  "lookup_match ino u x \<longleftrightarrow> (if ino \<noteq> 0 then inode x = ino else uuid x = u)"

definition lookup_entry_in :: "nat \<Rightarrow> u64 \<Rightarrow> u8 list \<Rightarrow> lookup_state \<Rightarrow> (addr \<times> lookup_state) option" where
  "lookup_entry_in i ino u s = do {
     c_assert (ino = 0 \<or> uuid_is_null u);
     c_assert (ino \<noteq> 0 \<or> \<not> uuid_is_null u);
     let b = bucket s i;
     c_assert (LookupEntryType b = LookupEntryTypeLinkedLists);
     hit \<leftarrow> (if LastEntry b = NULL then Some False
            else do { e \<leftarrow> Entries s (LastEntry b); Some (lookup_match ino u (Object e)) });
     if hit then Some (LastEntry b, s)
     else do {
       a \<leftarrow> find_entry (lookup_match ino u) (if ino \<noteq> 0 then InodeTableEntry b else UuidTableEntry b) s;
       Some (a, if a \<noteq> NULL then set_bucket i (b\<lparr>LastEntry := a\<rparr>) s else s) } }"

text \<open>The atomic change of a reference count yields the old value.\<close>

definition fetch_add :: "addr \<Rightarrow> u64 \<Rightarrow> lookup_state \<Rightarrow> (u64 \<times> lookup_state) option" where
  "fetch_add a n s = do {
     e \<leftarrow> Entries s a;
     Some (ReferenceCount e, s\<lparr>Entries := (Entries s)(a \<mapsto> e\<lparr>ReferenceCount := ReferenceCount e + n\<rparr>)\<rparr>) }"

definition FinesseObjectLookupByIno :: "u64 \<Rightarrow> lookup_state \<Rightarrow> (addr \<times> lookup_state) option" where
  "FinesseObjectLookupByIno ino s = do {
     index \<leftarrow> GetBucketIndexForInode (Table s) ino;
     c_assert (LookupEntryType (bucket s index) = LookupEntryTypeLinkedLists);
     s \<leftarrow> LockBucket index False s;
     (a, s) \<leftarrow> lookup_entry_in index ino null_uuid s;
     s \<leftarrow> (if a \<noteq> NULL then do { (refCount, s) \<leftarrow> fetch_add a 1 s; Some s } else Some s);
     s \<leftarrow> UnlockBucket index s;
     Some (a, s) }"

definition FinesseObjectLookupByUuid :: "u8 list \<Rightarrow> lookup_state \<Rightarrow> (addr \<times> lookup_state) option" where
  "FinesseObjectLookupByUuid u s = do {
     index \<leftarrow> GetBucketIndexForUuid (Table s) u;
     c_assert (LookupEntryType (bucket s index) = LookupEntryTypeLinkedLists);
     s \<leftarrow> LockBucket index False s;
     (a, s) \<leftarrow> lookup_entry_in index 0 u s;
     s \<leftarrow> (if a \<noteq> NULL then do { (refcount, s) \<leftarrow> fetch_add a 1 s; c_assert (0 < refcount); Some s } else Some s);
     s \<leftarrow> UnlockBucket index s;
     Some (a, s) }"

section \<open>Release\<close>

text \<open>
  The compare and exchange with NULL: the new value of the variable, and the expected value, which
  is overwritten when the exchange fails.
\<close>

fun exchange_null :: "addr \<times> addr \<Rightarrow> addr \<times> addr" where
  "exchange_null (current, expected) = (if current = expected then (NULL, expected) else (current, current))"

definition clear_last :: "nat \<Rightarrow> addr \<Rightarrow> lookup_state \<Rightarrow> lookup_state" where
  "clear_last i a s = (if LastEntry (bucket s i) = a then set_bucket i ((bucket s i)\<lparr>LastEntry := NULL\<rparr>) s else s)"

definition clear_caches :: "nat \<Rightarrow> nat \<Rightarrow> addr \<Rightarrow> lookup_state \<Rightarrow> lookup_state" where
  "clear_caches first second a s =
     (let (lastentry, a) = exchange_null (exchange_null (LastEntry (bucket s first), a));
          s = set_bucket first ((bucket s first)\<lparr>LastEntry := lastentry\<rparr>) s
      in clear_last second a (clear_last first a s))"

definition count_entry :: "nat \<Rightarrow> u64 \<Rightarrow> lookup_state \<Rightarrow> lookup_state" where
  "count_entry i n s = set_bucket i ((bucket s i)\<lparr>EntryCount := EntryCount (bucket s i) + n\<rparr>) s"

definition unlink_entry :: "nat \<Rightarrow> nat \<Rightarrow> addr \<Rightarrow> lookup_state \<Rightarrow> lookup_state" where
  "unlink_entry i u a s =
     (let s = set_bucket i ((bucket s i)\<lparr>InodeTableEntry := remove1 a (InodeTableEntry (bucket s i))\<rparr>) s
      in set_bucket u ((bucket s u)\<lparr>UuidTableEntry := remove1 a (UuidTableEntry (bucket s u))\<rparr>) s)"

definition lock_both :: "nat \<Rightarrow> nat \<Rightarrow> lookup_state \<Rightarrow> lookup_state option" where
  "lock_both first second s = do {
     s \<leftarrow> LockBucket first True s;
     if first \<noteq> second then LockBucket second True s else Some s }"

definition unlock_both :: "nat \<Rightarrow> nat \<Rightarrow> lookup_state \<Rightarrow> lookup_state option" where
  "unlock_both first second s = do {
     s \<leftarrow> (if first \<noteq> second then UnlockBucket second s else Some s);
     UnlockBucket first s }"

definition release_entry :: "addr \<Rightarrow> lookup_state \<Rightarrow> lookup_state option" where
  "release_entry a s = do {
     e \<leftarrow> Entries s a;
     i \<leftarrow> GetBucketIndexForInode (Table s) (inode (Object e));
     u \<leftarrow> GetBucketIndexForUuid (Table s) (uuid (Object e));
     let (first, second) = (min i u, max i u);
     s \<leftarrow> lock_both first second s;
     (refCount, s) \<leftarrow> fetch_add a (- 1) s;
     s \<leftarrow> (if refCount = 1 then do {
         let s = count_entry second (- 1) (count_entry first (- 1) (unlink_entry i u a s));
         s \<leftarrow> (if UseFreedLists then do {
             e \<leftarrow> Entries s a;
             Some (s\<lparr>FreedInodeList := FreedInodeList s @ [a], FreedUuidList := a # FreedUuidList s,
               Entries := (Entries s)(a \<mapsto> e\<lparr>Object := (Object e)\<lparr>freed := True\<rparr>\<rparr>)\<rparr>) }
           else free_entry a s);
         Some (clear_caches first second a s) }
       else Some s);
     unlock_both first second s }"

text \<open>
  The count is decremented and, when it was one, incremented again; the number that decides
  about the removal is then the one that the increment returns.
\<close>

definition FinesseObjectRelease :: "addr \<Rightarrow> lookup_state \<Rightarrow> lookup_state option" where
  "FinesseObjectRelease obj s = do {
     c_assert (obj \<noteq> NULL);
     x \<leftarrow> Entries s obj;
     index \<leftarrow> GetBucketIndexForUuid (Table s) (uuid (Object x));
     s \<leftarrow> LockBucket index False s;
     (a, s) \<leftarrow> lookup_entry_in index 0 (uuid (Object x)) s;
     c_assert (a \<noteq> NULL);
     (refCount, s) \<leftarrow> fetch_add a (- 1) s;
     c_assert (refCount \<noteq> 0);
     (refCount, s) \<leftarrow> (if refCount = 1 then fetch_add a 1 s else Some (refCount, s));
     s \<leftarrow> UnlockBucket index s;
     if refCount = 1 then release_entry a s else Some s }"

section \<open>Creation\<close>

text \<open>
  Both searches are done in the bucket of the number.  The new entry is allocated first and freed
  again when there is one for the number; nothing refers to it before it is linked, and it
  joins the heap of the model then.
\<close>

definition link_entry :: "nat \<Rightarrow> nat \<Rightarrow> addr \<Rightarrow> lookup_entry \<Rightarrow> lookup_state \<Rightarrow> lookup_state" where
  "link_entry i iu new e s =
     (let s = s\<lparr>Entries := (Entries s)(new \<mapsto> e)\<rparr>;
          s = set_bucket i ((bucket s i)\<lparr>InodeTableEntry := InodeTableEntry (bucket s i) @ [new]\<rparr>) s;
          s = set_bucket iu ((bucket s iu)\<lparr>UuidTableEntry := UuidTableEntry (bucket s iu) @ [new]\<rparr>) s
      in count_entry iu 1 (count_entry i 1 s))"

definition insert_entry :: "u64 \<Rightarrow> u8 list \<Rightarrow> lookup_state \<Rightarrow> (addr \<times> lookup_state) option" where
  "insert_entry ino u s = do {
     c_assert (ino \<noteq> 0);
     c_assert (\<not> uuid_is_null u);
     i \<leftarrow> GetBucketIndexForInode (Table s) ino;
     iu \<leftarrow> GetBucketIndexForUuid (Table s) u;
     let (first, second) = (min i iu, max i iu);
     let new = next_address s;
     let entry = \<lparr>ReferenceCount = 2, Object = \<lparr>inode = ino, uuid = u, freed = False\<rparr>\<rparr>;
     let s = s\<lparr>next_address := new + 80\<rparr>;
     s \<leftarrow> lock_both first second s;
     c_assert (LookupEntryType (bucket s i) = LookupEntryTypeLinkedLists);
     c_assert (LookupEntryType (bucket s iu) = LookupEntryTypeLinkedLists);
     (old, s) \<leftarrow> lookup_entry_in i ino null_uuid s;
     (a, s) \<leftarrow> (if old \<noteq> NULL then do {
         e \<leftarrow> Entries s old;
         c_assert (\<not> UseFreedLists \<or> \<not> freed (Object e));
         (refCount, s) \<leftarrow> fetch_add old 1 s;
         Some (old, s) }
       else do {
         (old, s) \<leftarrow> lookup_entry_in i 0 u s;
         c_assert (old = NULL);
         Some (new, link_entry i iu new entry s) });
     s \<leftarrow> unlock_both first second s;
     Some (a, s) }"

definition FinesseObjectCreate :: "u64 \<Rightarrow> u8 list \<Rightarrow> lookup_state \<Rightarrow> (addr \<times> lookup_state) option" where
  "FinesseObjectCreate ino u s = do {
     c_assert (ino \<noteq> 0);
     c_assert (\<not> uuid_is_null u);
     (a, s) \<leftarrow> insert_entry ino u s;
     c_assert (a \<noteq> NULL);
     Some (a, s) }"

definition FinesseObjectGetTableSize :: "lookup_state \<Rightarrow> u64" where
  "FinesseObjectGetTableSize s = TableEntryCount (Table s)"

definition FinesseDestroyTable :: "lookup_state \<Rightarrow> lookup_state option" where
  "FinesseDestroyTable s = DestroyLookupTable s"

section \<open>The table of the process\<close>

text \<open>The table is created with the first use; \<^verbatim>\<open>exists\<close> says that it was.\<close>

definition create_lookup_table :: "bool \<times> lookup_state \<Rightarrow> lookup_state option" where
  "create_lookup_table = (\<lambda>(exists, s).
     if exists then Some s
     else do {
       tab \<leftarrow> FinesseCreateTable (next_address s) 0;
       Some (s\<lparr>Table := tab, next_address := next_address s + 128 + 192 * 2 ^ BucketCountShift tab\<rparr>) })"

definition not_freed :: "addr \<Rightarrow> lookup_state \<Rightarrow> unit option" where
  "not_freed a s = (if a = NULL then Some () else do { e \<leftarrow> Entries s a; c_assert (\<not> freed (Object e)) })"

definition finesse_object_lookup_by_ino :: "u64 \<Rightarrow> bool \<times> lookup_state \<Rightarrow> (addr \<times> lookup_state) option" where
  "finesse_object_lookup_by_ino ino g = do {
     s \<leftarrow> create_lookup_table g;
     (a, s) \<leftarrow> FinesseObjectLookupByIno ino s;
     not_freed a s;
     Some (a, s) }"

definition finesse_object_lookup_by_uuid :: "u8 list \<Rightarrow> bool \<times> lookup_state \<Rightarrow> (addr \<times> lookup_state) option" where
  "finesse_object_lookup_by_uuid u g = do {
     s \<leftarrow> create_lookup_table g;
     c_assert (\<not> uuid_is_null u);
     (a, s) \<leftarrow> FinesseObjectLookupByUuid u s;
     not_freed a s;
     Some (a, s) }"

definition finesse_object_release :: "addr \<Rightarrow> bool \<times> lookup_state \<Rightarrow> lookup_state option" where
  "finesse_object_release obj g = do {
     s \<leftarrow> create_lookup_table g;
     x \<leftarrow> Entries s obj;
     c_assert (\<not> UseFreedLists \<or> \<not> freed (Object x));
     FinesseObjectRelease obj s }"

definition finesse_object_create :: "u64 \<Rightarrow> u8 list \<Rightarrow> bool \<times> lookup_state \<Rightarrow> (addr \<times> lookup_state) option" where
  "finesse_object_create ino u g = do {
     s \<leftarrow> create_lookup_table g;
     (a, s) \<leftarrow> FinesseObjectCreate ino u s;
     not_freed a s;
     Some (a, s) }"

text \<open>The size is read from the table whether there is one or not.\<close>

definition finesse_object_get_table_size :: "bool \<times> lookup_state \<Rightarrow> u64 option" where
  "finesse_object_get_table_size = (\<lambda>(exists, s). if exists then Some (TableEntryCount (Table s)) else None)"

section \<open>Buckets and indices\<close>

lemma bucket_set [simp]: "bucket (set_bucket i b s) j = (if j = i then b else bucket s j)"
  by (simp add: bucket_def set_bucket_def)

lemma set_bucket_same [simp]: "set_bucket i (bucket s i) s = s"
  by (simp add: set_bucket_def bucket_def)

lemma set_bucket_again [simp]: "set_bucket i b (set_bucket i c s) = set_bucket i b s"
  by (simp add: set_bucket_def)

lemma set_bucket_fields [simp]:
  "Entries (set_bucket i b s) = Entries s" "next_address (set_bucket i b s) = next_address s" "TableAddress (Table (set_bucket i b s)) = TableAddress (Table s)"
  "BucketCountShift (Table (set_bucket i b s)) = BucketCountShift (Table s)" "HashSeed (Table (set_bucket i b s)) = HashSeed (Table s)"
  "TableEntryCount (Table (set_bucket i b s)) = TableEntryCount (Table s)"
  by (simp_all add: set_bucket_def)

lemma index_same [simp]:
  "GetBucketIndexForInode (Table (set_bucket i b s)) ino = GetBucketIndexForInode (Table s) ino"
  "GetBucketIndexForUuid (Table (set_bucket i b s)) u = GetBucketIndexForUuid (Table s) u"
  by (simp_all add: GetBucketIndexForInode_def GetBucketIndexForUuid_def GetBucketIndex_def set_bucket_def)

lemma bucket_Entries [simp]: "bucket (s\<lparr>Entries := E\<rparr>) j = bucket s j" "bucket_hash (s\<lparr>Entries := E\<rparr>) j = bucket_hash s j"
  "bucket (s\<lparr>next_address := n, Entries := E\<rparr>) j = bucket s j" "bucket_hash (s\<lparr>next_address := n, Entries := E\<rparr>) j = bucket_hash s j"
  by (simp_all add: bucket_def bucket_hash_def)

lemma set_bucket_Entries [simp]: "(set_bucket i b s)\<lparr>Entries := E\<rparr> = set_bucket i b (s\<lparr>Entries := E\<rparr>)"
  by (simp add: set_bucket_def)

text \<open>The hash of a bucket depends on its lists only.\<close>

lemma bucket_hash_set [simp]:
  "bucket_hash (set_bucket i b s) j =
     (if j = i then LookupBucketHashFunction (bucket_address (Table s) i) b else bucket_hash s j)"
  by (simp add: bucket_hash_def bucket_address_def)

lemma hash_fields [simp]:
  "LookupBucketHashFunction x (b\<lparr>LastEntry := a\<rparr>) = LookupBucketHashFunction x b" "LookupBucketHashFunction x (b\<lparr>Lock := l\<rparr>) = LookupBucketHashFunction x b"
  "LookupBucketHashFunction x (b\<lparr>LastHashValue := h\<rparr>) = LookupBucketHashFunction x b" "LookupBucketHashFunction x (b\<lparr>EntryCount := n\<rparr>) = LookupBucketHashFunction x b"
  by (simp_all add: LookupBucketHashFunction_def)

lemma hash_bucket: "LookupBucketHashFunction (bucket_address (Table s) i) (bucket s i) = bucket_hash s i"
  by (simp add: bucket_hash_def)

lemma GetBucketIndex_total:
  assumes "10 \<le> BucketCountShift tab" "BucketCountShift tab < 16" "key \<noteq> []"
  shows "\<exists>i. GetBucketIndex tab key = Some i"
proof -
  obtain h1 h2 where h: "MurmurHash3_x64_128 key (HashSeed tab) = (h1, h2)"
    by fastforce
  let ?k = "BucketCountShift tab" and ?th = "take_bit (BucketCountShift tab) ((h1 XOR h2) XOR drop_bit (BucketCountShift tab) (h1 XOR h2))"
  have "truncate_hash (h1 XOR h2) ?k = Some ?th"
    using assms(1,2) by (intro truncate_hash_one_fold) auto
  moreover have "unat (ucast ?th :: u16) < 2 ^ ?k"
  proof -
    have "unat ?th < 2 ^ ?k"
      by (metis take_bit_nat_less_exp unsigned_take_bit_eq)
    moreover have "unat (ucast ?th :: u16) \<le> unat ?th"
      by (simp add: unsigned_ucast_eq)
    ultimately show ?thesis
      by simp
  qed
  ultimately show ?thesis
    using assms(3) h by (simp add: GetBucketIndex_def Let_def)
qed

section \<open>The invariant\<close>

definition bucket_inv :: "lookup_state \<Rightarrow> nat \<Rightarrow> bool" where
  "bucket_inv s i \<longleftrightarrow> LookupEntryType (bucket s i) = LookupEntryTypeLinkedLists
     \<and> (\<forall>a. a \<in> set (InodeTableEntry (bucket s i)) \<longleftrightarrow> (\<exists>e. Entries s a = Some e \<and> GetBucketIndexForInode (Table s) (inode (Object e)) = Some i))
     \<and> (\<forall>a. a \<in> set (UuidTableEntry (bucket s i)) \<longleftrightarrow> (\<exists>e. Entries s a = Some e \<and> GetBucketIndexForUuid (Table s) (uuid (Object e)) = Some i))
     \<and> (LastEntry (bucket s i) \<noteq> NULL \<longrightarrow> Entries s (LastEntry (bucket s i)) \<noteq> None)"

definition entry_inv :: "lookup_state \<Rightarrow> bool" where
  "entry_inv s \<longleftrightarrow> 0 < next_address s
     \<and> (\<forall>a e. Entries s a = Some e \<longrightarrow> 0 < a \<and> a < next_address s \<and> inode (Object e) \<noteq> 0 \<and> \<not> uuid_is_null (uuid (Object e)) \<and> \<not> freed (Object e)
          \<and> 0 < ReferenceCount e)
     \<and> (\<forall>a b e f. Entries s a = Some e \<and> Entries s b = Some f \<and> (inode (Object e) = inode (Object f) \<or> uuid (Object e) = uuid (Object f)) \<longrightarrow> a = b)"

definition lists_inv :: "lookup_state \<Rightarrow> bool" where
  "lists_inv s \<longleftrightarrow> 10 \<le> BucketCountShift (Table s) \<and> BucketCountShift (Table s) < 16 \<and> (\<forall>i. bucket_inv s i)"

definition unlocked :: "lookup_state \<Rightarrow> nat \<Rightarrow> bool" where
  "unlocked s i \<longleftrightarrow> Lock (bucket s i) = Unlocked \<and> LastHashValue (bucket s i) = bucket_hash s i"

definition lookup_inv :: "lookup_state \<Rightarrow> bool" where
  "lookup_inv s \<longleftrightarrow> lists_inv s \<and> entry_inv s \<and> (\<forall>i. unlocked s i)"

text \<open>What the table promises: objects at addresses, with number, identifier and references.\<close>

definition objects :: "lookup_state \<Rightarrow> addr \<rightharpoonup> u64 \<times> u8 list \<times> u64" where
  "objects s a = map_option (\<lambda>e. (inode (Object e), uuid (Object e), ReferenceCount e)) (Entries s a)"

lemma ino_index:
  assumes "lists_inv s" "ino \<noteq> 0"
  obtains i where "GetBucketIndexForInode (Table s) ino = Some i"
proof -
  have "bytes64 ino \<noteq> []"
    by (simp add: bytes64_def)
  then show thesis
    using that GetBucketIndex_total [of "Table s" "bytes64 ino"] assms by (auto simp: lists_inv_def GetBucketIndexForInode_def)
qed

lemma uuid_index:
  assumes "lists_inv s" "\<not> uuid_is_null u"
  obtains i where "GetBucketIndexForUuid (Table s) u = Some i"
proof -
  have "u \<noteq> []"
    using assms(2) by (auto simp: uuid_is_null_def)
  then show thesis
    using that GetBucketIndex_total [of "Table s" u] assms by (auto simp: lists_inv_def GetBucketIndexForUuid_def)
qed

section \<open>The search in a bucket\<close>

lemma find_entry_spec:
  assumes "\<forall>a\<in>set l. Entries s a \<noteq> None \<and> a \<noteq> NULL"
  shows "(\<exists>a e. a \<in> set l \<and> Entries s a = Some e \<and> P (Object e) \<and> find_entry P l s = Some a)
    \<or> (\<forall>a\<in>set l. \<forall>e. Entries s a = Some e \<longrightarrow> \<not> P (Object e)) \<and> find_entry P l s = Some NULL"
  using assms
proof (induction l)
  case Nil
  then show ?case
    by simp
next
  case (Cons b l)
  then obtain e where e: "Entries s b = Some e"
    by auto
  then show ?case
    using Cons by (cases "P (Object e)") auto
qed

definition remember :: "nat \<Rightarrow> addr \<Rightarrow> lookup_state \<Rightarrow> lookup_state" where
  "remember i a s = set_bucket i ((bucket s i)\<lparr>LastEntry := a\<rparr>) s"

lemma remember_last: "LastEntry (bucket s i) = a \<Longrightarrow> remember i a s = s"
proof -
  assume "LastEntry (bucket s i) = a"
  then have "(bucket s i)\<lparr>LastEntry := a\<rparr> = bucket s i"
    by auto
  then show ?thesis
    by (simp add: remember_def)
qed

text \<open>Whatever the bucket: the search finds an entry that matches, or there is none in the list that is searched.\<close>

lemma lookup_entry_in_spec:
  assumes inv: "lists_inv s" "entry_inv s" and arg: "ino = 0 \<longleftrightarrow> \<not> uuid_is_null u"
  shows "(\<exists>a e. Entries s a = Some e \<and> lookup_match ino u (Object e) \<and> lookup_entry_in i ino u s = Some (a, remember i a s))
    \<or> (\<forall>a\<in>set (if ino \<noteq> 0 then InodeTableEntry (bucket s i) else UuidTableEntry (bucket s i)). \<forall>e. Entries s a = Some e \<longrightarrow> \<not> lookup_match ino u (Object e))
      \<and> lookup_entry_in i ino u s = Some (NULL, s)"
proof -
  let ?b = "bucket s i"
  let ?l = "if ino \<noteq> 0 then InodeTableEntry ?b else UuidTableEntry ?b"
  have b: "bucket_inv s i"
    using inv(1) by (simp add: lists_inv_def)
  then have T: "LookupEntryType ?b = LookupEntryTypeLinkedLists" and L: "LastEntry ?b \<noteq> NULL \<Longrightarrow> \<exists>e. Entries s (LastEntry ?b) = Some e"
    by (auto simp: bucket_inv_def)
  have "\<forall>a\<in>set ?l. Entries s a \<noteq> None \<and> a \<noteq> NULL"
    using b inv(2) by (auto simp: bucket_inv_def entry_inv_def)
  note F = find_entry_spec [OF this, of "lookup_match ino u"]
  show ?thesis
  proof (cases "LastEntry ?b \<noteq> NULL \<and> (\<exists>e. Entries s (LastEntry ?b) = Some e \<and> lookup_match ino u (Object e))")
    case True
    then show ?thesis
      using arg T remember_last [of s i "LastEntry ?b"] by (auto simp: lookup_entry_in_def Let_def)
  next
    case False
    then have "lookup_entry_in i ino u s = do {
        a \<leftarrow> find_entry (lookup_match ino u) ?l s;
        Some (a, if a \<noteq> NULL then remember i a s else s) }"
      unfolding remember_def using arg T L by (auto simp: lookup_entry_in_def Let_def)
    moreover have "a \<noteq> NULL" if "Entries s a = Some e" for a e
      using inv(2) that by (auto simp: entry_inv_def)
    ultimately show ?thesis
      using F by (elim disjE exE conjE) auto
  qed
qed

lemma lookup_by_ino:
  assumes inv: "lists_inv s" "entry_inv s" and i: "GetBucketIndexForInode (Table s) ino = Some i"
  shows "(\<exists>a e. Entries s a = Some e \<and> inode (Object e) = ino \<and> lookup_entry_in i ino null_uuid s = Some (a, remember i a s))
    \<or> (\<forall>a e. Entries s a = Some e \<longrightarrow> inode (Object e) \<noteq> ino) \<and> lookup_entry_in i ino null_uuid s = Some (NULL, s)"
proof -
  have ino: "ino \<noteq> 0" "uuid_is_null null_uuid"
    using i by (auto simp: GetBucketIndexForInode_def uuid_is_null_def split: if_splits)
  have "a \<in> set (InodeTableEntry (bucket s i))" if "Entries s a = Some e" "inode (Object e) = ino" for a e
    using inv(1) i that by (auto simp: lists_inv_def bucket_inv_def)
  then show ?thesis
    using lookup_entry_in_spec [OF inv, of ino null_uuid i] ino unfolding lookup_match_def by auto
qed

lemma lookup_by_uuid:
  assumes inv: "lists_inv s" "entry_inv s" and i: "GetBucketIndexForUuid (Table s) u = Some i"
  shows "(\<exists>a e. Entries s a = Some e \<and> uuid (Object e) = u \<and> lookup_entry_in i 0 u s = Some (a, remember i a s))
    \<or> (\<forall>a e. Entries s a = Some e \<longrightarrow> uuid (Object e) \<noteq> u) \<and> lookup_entry_in i 0 u s = Some (NULL, s)"
proof -
  have u: "\<not> uuid_is_null u"
    using i by (auto simp: GetBucketIndexForUuid_def split: if_splits)
  have "a \<in> set (UuidTableEntry (bucket s i))" if "Entries s a = Some e" "uuid (Object e) = u" for a e
    using inv(1) i that by (auto simp: lists_inv_def bucket_inv_def)
  then show ?thesis
    using lookup_entry_in_spec [OF inv, of 0 u i] u unfolding lookup_match_def by auto
qed

section \<open>What keeps the invariant\<close>

lemma index_cong:
  assumes "HashSeed tab = HashSeed tab'" "BucketCountShift tab = BucketCountShift tab'"
  shows "GetBucketIndexForInode tab = GetBucketIndexForInode tab'" "GetBucketIndexForUuid tab = GetBucketIndexForUuid tab'"
  using assms by (simp_all add: fun_eq_iff GetBucketIndexForInode_def GetBucketIndexForUuid_def GetBucketIndex_def)

text \<open>Locks, hashes, counters and caches are not part of the lists.\<close>

definition same_lists :: "lookup_state \<Rightarrow> lookup_state \<Rightarrow> bool" where
  "same_lists s t \<longleftrightarrow> HashSeed (Table t) = HashSeed (Table s) \<and> BucketCountShift (Table t) = BucketCountShift (Table s)
     \<and> (\<forall>a. map_option Object (Entries t a) = map_option Object (Entries s a))
     \<and> (\<forall>i. LookupEntryType (bucket t i) = LookupEntryType (bucket s i) \<and> InodeTableEntry (bucket t i) = InodeTableEntry (bucket s i)
          \<and> UuidTableEntry (bucket t i) = UuidTableEntry (bucket s i)
          \<and> (LastEntry (bucket t i) = LastEntry (bucket s i) \<or> Entries s (LastEntry (bucket t i)) \<noteq> None))"

lemma same_lists_inv:
  assumes "same_lists s t" "lists_inv s"
  shows "lists_inv t"
proof -
  have e: "(\<exists>e. Entries t a = Some e \<and> P (Object e)) \<longleftrightarrow> (\<exists>e. Entries s a = Some e \<and> P (Object e))" for a P
    using assms(1) unfolding same_lists_def by (metis map_option_eq_Some)
  have n: "Entries t a = None \<longleftrightarrow> Entries s a = None" for a
    using assms(1) unfolding same_lists_def by (metis option.map_disc_iff)
  have x: "GetBucketIndexForInode (Table t) = GetBucketIndexForInode (Table s)" "GetBucketIndexForUuid (Table t) = GetBucketIndexForUuid (Table s)"
    using assms(1) by (simp_all add: index_cong [of "Table t" "Table s"] same_lists_def)
  have "bucket_inv t i" for i
  proof -
    have b: "LookupEntryType (bucket t i) = LookupEntryType (bucket s i)" "InodeTableEntry (bucket t i) = InodeTableEntry (bucket s i)"
      "UuidTableEntry (bucket t i) = UuidTableEntry (bucket s i)" "LastEntry (bucket t i) = LastEntry (bucket s i) \<or> Entries s (LastEntry (bucket t i)) \<noteq> None"
      using assms(1) unfolding same_lists_def by blast+
    have "bucket_inv s i"
      using assms(2) by (simp add: lists_inv_def)
    then show ?thesis
      using b(4) unfolding bucket_inv_def b(1-3) x n e [of _ "\<lambda>x. GetBucketIndexForInode (Table s) (inode x) = Some i"]
        e [of _ "\<lambda>x. GetBucketIndexForUuid (Table s) (uuid x) = Some i"] by auto
  qed
  then show ?thesis
    using assms by (simp add: lists_inv_def same_lists_def)
qed

lemma entry_inv_cong: "Entries t = Entries s \<Longrightarrow> next_address t = next_address s \<Longrightarrow> entry_inv t = entry_inv s"
  by (simp add: entry_inv_def)

text \<open>A reference more or less.\<close>

definition bump :: "addr \<Rightarrow> u64 \<Rightarrow> lookup_state \<Rightarrow> lookup_state" where
  "bump a n s = s\<lparr>Entries := (Entries s)(a := map_option (\<lambda>e. e\<lparr>ReferenceCount := ReferenceCount e + n\<rparr>) (Entries s a))\<rparr>"

lemma fetch_add_bump: "Entries s a = Some e \<Longrightarrow> fetch_add a n s = Some (ReferenceCount e, bump a n s)"
  by (simp add: fetch_add_def bump_def)

lemma bump_parts:
  assumes "lists_inv s" "entry_inv s" "Entries s a = Some e" "ReferenceCount e + n \<noteq> 0"
  shows "lists_inv (bump a n s)" "entry_inv (bump a n s)" "unlocked (bump a n s) i = unlocked s i"
proof -
  have "same_lists s (bump a n s)"
    using assms(3) by (auto simp: same_lists_def bump_def)
  then show "lists_inv (bump a n s)"
    using assms(1) by (rule same_lists_inv)
  show "unlocked (bump a n s) i = unlocked s i"
    by (simp add: unlocked_def bump_def)
  show "entry_inv (bump a n s)"
    using assms by (auto simp: entry_inv_def bump_def word_neq_0_conv split: if_splits)
qed

lemma remember_parts:
  assumes "lists_inv s" "entry_inv s" "Entries s a \<noteq> None"
  shows "lists_inv (remember i a s)" "entry_inv (remember i a s)" "unlocked (remember i a s) j = unlocked s j"
proof -
  have "same_lists s (remember i a s)"
    using assms(3) by (auto simp: same_lists_def remember_def)
  then show "lists_inv (remember i a s)"
    using assms(1) by (rule same_lists_inv)
  show "unlocked (remember i a s) j = unlocked s j"
    by (simp add: unlocked_def remember_def hash_bucket)
  show "entry_inv (remember i a s)"
    using assms(2) entry_inv_cong [of "remember i a s" s] by (simp add: remember_def)
qed

lemma bump_inv:
  assumes "lookup_inv s" "Entries s a = Some e" "ReferenceCount e + n \<noteq> 0"
  shows "lookup_inv (bump a n s)"
  using assms bump_parts [OF _ _ assms(2,3)] by (simp add: lookup_inv_def)

lemma remember_inv:
  assumes "lookup_inv s" "Entries s a \<noteq> None"
  shows "lookup_inv (remember i a s)"
  using assms remember_parts [OF _ _ assms(2)] by (simp add: lookup_inv_def)

lemma objects_simps [simp]: "objects (remember i a s) = objects s" "objects (set_bucket i b s) = objects s"
  "objects (bump a n s) = (objects s)(a := map_option (\<lambda>(ino, u, r). (ino, u, r + n)) (objects s a))"
  by (auto simp: objects_def remember_def bump_def fun_eq_iff option.map_comp comp_def)

section \<open>Lookups and release\<close>

definition shared :: "nat \<Rightarrow> lookup_state \<Rightarrow> lookup_state" where
  "shared i s = set_bucket i ((bucket s i)\<lparr>Lock := Shared 1\<rparr>) s"

lemma lock_bucket_shared: "unlocked s i \<Longrightarrow> LockBucket i False s = Some (shared i s)"
  by (simp add: LockBucket_def unlocked_def shared_def)

lemma shared_inv:
  assumes "lookup_inv s"
  shows "lists_inv (shared i s)" "entry_inv (shared i s)" "Entries (shared i s) = Entries s"
    "GetBucketIndexForInode (Table (shared i s)) = GetBucketIndexForInode (Table s)" "GetBucketIndexForUuid (Table (shared i s)) = GetBucketIndexForUuid (Table s)"
  using assms same_lists_inv [of s "shared i s"] entry_inv_cong [of "shared i s" s]
  by (simp_all add: lookup_inv_def same_lists_def shared_def fun_eq_iff)

text \<open>The way out of a shared section, in which the cache and a reference count may have changed.\<close>

lemma unlock_bucket_shared:
  assumes "Lock (bucket s i) = Shared 1" "LastHashValue (bucket s i) = bucket_hash s i"
  shows "UnlockBucket i s = Some (set_bucket i ((bucket s i)\<lparr>Lock := Unlocked\<rparr>) s)"
  using assms by (simp add: UnlockBucket_def Let_def)

lemma unlock_shared:
  assumes "unlocked s i"
  shows "UnlockBucket i (shared i s) = Some s" "UnlockBucket i (remember i a (shared i s)) = Some (remember i a s)"
    "UnlockBucket i (bump a n (remember i b (shared i s))) = Some (bump a n (remember i b s))"
proof -
  have l: "(bucket s i)\<lparr>Lock := Unlocked\<rparr> = bucket s i" "(bucket s i)\<lparr>LastEntry := x, Lock := Unlocked\<rparr> = (bucket s i)\<lparr>LastEntry := x\<rparr>" for x
    using assms by (auto simp: unlocked_def)
  have u: "LastHashValue (bucket s i) = bucket_hash s i"
    using assms by (simp add: unlocked_def)
  show "UnlockBucket i (shared i s) = Some s"
    by (subst unlock_bucket_shared) (simp_all add: shared_def u hash_bucket l)
  show "UnlockBucket i (remember i a (shared i s)) = Some (remember i a s)"
    by (subst unlock_bucket_shared) (simp_all add: shared_def remember_def u hash_bucket l)
  show "UnlockBucket i (bump a n (remember i b (shared i s))) = Some (bump a n (remember i b s))"
    by (subst unlock_bucket_shared) (simp_all add: shared_def remember_def bump_def u hash_bucket l)
qed

lemma lookup_inv_bucket:
  assumes "lookup_inv s"
  shows "unlocked s i" "LookupEntryType (bucket s i) = LookupEntryTypeLinkedLists" "lists_inv s" "entry_inv s"
  using assms by (auto simp: lookup_inv_def lists_inv_def bucket_inv_def)

lemma not_null_entry: "entry_inv s \<Longrightarrow> Entries s a = Some e \<Longrightarrow> a \<noteq> NULL \<and> 0 < ReferenceCount e"
  by (auto simp: entry_inv_def)

lemma lookup_by_ino_op:
  assumes inv: "lookup_inv s" and ino: "ino \<noteq> 0"
  shows "(\<exists>a e i. Entries s a = Some e \<and> inode (Object e) = ino \<and> FinesseObjectLookupByIno ino s = Some (a, bump a 1 (remember i a s)))
    \<or> (\<forall>a e. Entries s a = Some e \<longrightarrow> inode (Object e) \<noteq> ino) \<and> FinesseObjectLookupByIno ino s = Some (NULL, s)"
proof -
  note s = lookup_inv_bucket [OF inv]
  obtain i where i: "GetBucketIndexForInode (Table s) ino = Some i"
    using ino_index [OF s(3) ino] .
  note S = shared_inv [OF inv, of i]
  note L = lookup_by_ino [OF S(1,2), of ino i, unfolded S(3,4), OF i]
  then show ?thesis
  proof (elim disjE exE conjE)
    fix a e
    assume a: "Entries s a = Some e" "inode (Object e) = ino" "lookup_entry_in i ino null_uuid (shared i s) = Some (a, remember i a (shared i s))"
    have "Entries (remember i a (shared i s)) a = Some e"
      using a(1) S(3) by (simp add: remember_def)
    then have "FinesseObjectLookupByIno ino s = Some (a, bump a 1 (remember i a s))"
      using i s(1,2) a(3) not_null_entry [OF s(4) a(1)]
      by (simp add: FinesseObjectLookupByIno_def lock_bucket_shared fetch_add_bump unlock_shared)
    then show ?thesis
      using a by blast
  next
    assume a: "\<forall>a e. Entries s a = Some e \<longrightarrow> inode (Object e) \<noteq> ino" "lookup_entry_in i ino null_uuid (shared i s) = Some (NULL, shared i s)"
    then have "FinesseObjectLookupByIno ino s = Some (NULL, s)"
      using i s(1,2) by (simp add: FinesseObjectLookupByIno_def lock_bucket_shared unlock_shared)
    then show ?thesis
      using a(1) by blast
  qed
qed

lemma lookup_by_uuid_op:
  assumes inv: "lookup_inv s" and u: "\<not> uuid_is_null u"
  shows "(\<exists>a e i. Entries s a = Some e \<and> uuid (Object e) = u \<and> FinesseObjectLookupByUuid u s = Some (a, bump a 1 (remember i a s)))
    \<or> (\<forall>a e. Entries s a = Some e \<longrightarrow> uuid (Object e) \<noteq> u) \<and> FinesseObjectLookupByUuid u s = Some (NULL, s)"
proof -
  note s = lookup_inv_bucket [OF inv]
  obtain i where i: "GetBucketIndexForUuid (Table s) u = Some i"
    using uuid_index [OF s(3) u] .
  note S = shared_inv [OF inv, of i]
  note L = lookup_by_uuid [OF S(1,2), of u i, unfolded S(3,5), OF i]
  then show ?thesis
  proof (elim disjE exE conjE)
    fix a e
    assume a: "Entries s a = Some e" "uuid (Object e) = u" "lookup_entry_in i 0 u (shared i s) = Some (a, remember i a (shared i s))"
    have "Entries (remember i a (shared i s)) a = Some e"
      using a(1) S(3) by (simp add: remember_def)
    then have "FinesseObjectLookupByUuid u s = Some (a, bump a 1 (remember i a s))"
      using i s(1,2) a(3) not_null_entry [OF s(4) a(1)]
      by (simp add: FinesseObjectLookupByUuid_def lock_bucket_shared fetch_add_bump unlock_shared)
    then show ?thesis
      using a by blast
  next
    assume a: "\<forall>a e. Entries s a = Some e \<longrightarrow> uuid (Object e) \<noteq> u" "lookup_entry_in i 0 u (shared i s) = Some (NULL, shared i s)"
    then have "FinesseObjectLookupByUuid u s = Some (NULL, s)"
      using i s(1,2) by (simp add: FinesseObjectLookupByUuid_def lock_bucket_shared unlock_shared)
    then show ?thesis
      using a(1) by blast
  qed
qed

text \<open>The last reference is given back to the entry before the decision, so it is never dropped.\<close>

lemma release_op:
  assumes inv: "lookup_inv s" and a: "Entries s a = Some e"
  shows "\<exists>i. FinesseObjectRelease a s = Some (if ReferenceCount e = 1 then remember i a s else bump a (- 1) (remember i a s))"
proof -
  note s = lookup_inv_bucket [OF inv]
  let ?u = "uuid (Object e)"
  have u: "\<not> uuid_is_null ?u" and uni: "\<And>b f. Entries s b = Some f \<Longrightarrow> uuid (Object f) = ?u \<Longrightarrow> b = a"
    using s(4) a by (auto simp: entry_inv_def)
  obtain i where i: "GetBucketIndexForUuid (Table s) ?u = Some i"
    using uuid_index [OF s(3) u] .
  note S = shared_inv [OF inv, of i]
  have l: "lookup_entry_in i 0 ?u (shared i s) = Some (a, remember i a (shared i s))"
    using lookup_by_uuid [OF S(1,2), of ?u i, unfolded S(3,5), OF i] a uni by blast
  have e: "Entries (remember i a (shared i s)) a = Some e" "Entries (bump a (- 1) (remember i a (shared i s))) a = Some (e\<lparr>ReferenceCount := ReferenceCount e - 1\<rparr>)"
    using a S(3) by (simp_all add: remember_def bump_def)
  have again: "bump a 1 (bump a (- 1) (remember i a (shared i s))) = remember i a (shared i s)" if "ReferenceCount e = 1"
    using e(1) that by (simp add: bump_def fun_upd_idem_iff)
  show ?thesis
    using i s(1) l a not_null_entry [OF s(4) a] again e fetch_add_bump [OF e(1), of "- 1"] fetch_add_bump [OF e(2), of 1]
    by (intro exI [of _ i]) (auto simp: FinesseObjectRelease_def lock_bucket_shared unlock_shared)
qed

section \<open>Creation keeps the invariant\<close>

text \<open>Under the two exclusive locks, in index order.\<close>

definition seized :: "nat set \<Rightarrow> lookup_state \<Rightarrow> lookup_state" where
  "seized I s = s\<lparr>Table := (Table s)\<lparr>Buckets := (\<lambda>j. if j \<in> I then (Buckets (Table s) j)\<lparr>Lock := Exclusive\<rparr> else Buckets (Table s) j)\<rparr>\<rparr>"

definition freed_up :: "nat set \<Rightarrow> lookup_state \<Rightarrow> lookup_state" where
  "freed_up I s = s\<lparr>Table := (Table s)\<lparr>Buckets := (\<lambda>j. if j \<in> I then (Buckets (Table s) j)\<lparr>LastHashValue := bucket_hash s j, Lock := Unlocked\<rparr>
     else Buckets (Table s) j)\<rparr>\<rparr>"

lemma seized_simps [simp]:
  "bucket (seized I s) j = (if j \<in> I then (bucket s j)\<lparr>Lock := Exclusive\<rparr> else bucket s j)" "Entries (seized I s) = Entries s"
  "next_address (seized I s) = next_address s" "bucket_hash (seized I s) j = bucket_hash s j"
  "HashSeed (Table (seized I s)) = HashSeed (Table s)" "BucketCountShift (Table (seized I s)) = BucketCountShift (Table s)"
  by (simp_all add: seized_def bucket_def bucket_hash_def bucket_address_def)

lemma freed_up_simps [simp]:
  "bucket (freed_up I s) j = (if j \<in> I then (bucket s j)\<lparr>LastHashValue := bucket_hash s j, Lock := Unlocked\<rparr> else bucket s j)" "Entries (freed_up I s) = Entries s"
  "next_address (freed_up I s) = next_address s" "bucket_hash (freed_up I s) j = bucket_hash s j"
  "HashSeed (Table (freed_up I s)) = HashSeed (Table s)" "BucketCountShift (Table (freed_up I s)) = BucketCountShift (Table s)"
  by (simp_all add: freed_up_def bucket_def bucket_hash_def bucket_address_def)

lemma set_bucket_eqI:
  assumes "\<And>j. bucket s j = bucket t j" "s\<lparr>Table := (Table s)\<lparr>Buckets := B\<rparr>\<rparr> = t\<lparr>Table := (Table t)\<lparr>Buckets := B\<rparr>\<rparr>"
  shows "s = t"
proof -
  have "Buckets (Table s) = Buckets (Table t)"
    using assms(1) by (auto simp: bucket_def)
  then show ?thesis
    using assms(2) by (cases s; cases t; cases "Table s"; cases "Table t") auto
qed

lemma lock_both_seized:
  assumes "unlocked s i" "unlocked s j"
  shows "lock_both i j s = Some (seized {i, j} s)"
proof -
  have w: "LockBucket k True t = Some (set_bucket k ((bucket t k)\<lparr>Lock := Exclusive\<rparr>) t)" if "unlocked t k" for k t
    using that by (simp add: LockBucket_def unlocked_def)
  have "unlocked (set_bucket i ((bucket s i)\<lparr>Lock := Exclusive\<rparr>) s) j" if "i \<noteq> j"
    using that assms(2) by (auto simp: unlocked_def)
  then have "lock_both i j s = Some (if i = j then set_bucket i ((bucket s i)\<lparr>Lock := Exclusive\<rparr>) s
      else set_bucket j ((bucket s j)\<lparr>Lock := Exclusive\<rparr>) (set_bucket i ((bucket s i)\<lparr>Lock := Exclusive\<rparr>) s))"
    using w [OF assms(1)] w by (auto simp: lock_both_def)
  then show ?thesis
    by (auto simp: seized_def set_bucket_def bucket_def fun_eq_iff)
qed

lemma unlock_both_freed:
  assumes "Lock (bucket s i) = Exclusive" "Lock (bucket s j) = Exclusive"
  shows "unlock_both i j s = Some (freed_up {i, j} s)"
proof -
  have w: "UnlockBucket k t = Some (set_bucket k ((bucket t k)\<lparr>LastHashValue := bucket_hash t k, Lock := Unlocked\<rparr>) t)" if "Lock (bucket t k) = Exclusive" for k t
    using that by (simp add: UnlockBucket_def Let_def)
  show ?thesis
    using assms by (auto simp: unlock_both_def w freed_up_def set_bucket_def bucket_def bucket_hash_def bucket_address_def fun_eq_iff)
qed

lemma lookup_inv_next: "lookup_inv s \<Longrightarrow> lookup_inv (s\<lparr>next_address := next_address s + n\<rparr>)"
proof -
  assume "lookup_inv s"
  moreover have "same_lists s (s\<lparr>next_address := next_address s + n\<rparr>)" "unlocked (s\<lparr>next_address := next_address s + n\<rparr>) i = unlocked s i" for i
    by (auto simp: same_lists_def bucket_def unlocked_def bucket_hash_def)
  ultimately show ?thesis
    using same_lists_inv by (auto simp: lookup_inv_def entry_inv_def intro: trans_less_add1)
qed

lemma seized_inv:
  assumes "lookup_inv s"
  shows "lists_inv (seized I s)" "entry_inv (seized I s)" "GetBucketIndexForInode (Table (seized I s)) = GetBucketIndexForInode (Table s)"
    "GetBucketIndexForUuid (Table (seized I s)) = GetBucketIndexForUuid (Table s)"
  using assms same_lists_inv [of s "seized I s"] entry_inv_cong [of "seized I s" s] index_cong [of "Table (seized I s)" "Table s"]
  by (simp_all add: lookup_inv_def same_lists_def)

lemma freed_up_inv:
  assumes "lists_inv s" "entry_inv s" "\<And>j. j \<notin> I \<Longrightarrow> unlocked s j"
  shows "lookup_inv (freed_up I s)"
proof -
  have "same_lists s (freed_up I s)"
    by (auto simp: same_lists_def)
  moreover have "unlocked (freed_up I s) j" for j
    using assms(3) [of j] by (simp add: unlocked_def)
  ultimately show ?thesis
    using assms same_lists_inv entry_inv_cong [of "freed_up I s" s] by (auto simp: lookup_inv_def)
qed

text \<open>An entry for the number exists: it gets a reference, whatever the identifier.\<close>

lemma create_existing:
  assumes inv: "lookup_inv s" and u: "\<not> uuid_is_null u" and a: "Entries s a = Some e" "inode (Object e) = ino" "ReferenceCount e + 1 \<noteq> 0"
  shows "\<exists>t. FinesseObjectCreate ino u s = Some (a, t) \<and> lookup_inv t \<and> objects t = (objects s)(a \<mapsto> (ino, uuid (Object e), ReferenceCount e + 1))"
proof -
  define s1 where "s1 = s\<lparr>next_address := next_address s + 80\<rparr>"
  have inv1: "lookup_inv s1"
    unfolding s1_def by (rule lookup_inv_next [OF inv])
  note s = lookup_inv_bucket [OF inv] and s1 = lookup_inv_bucket [OF inv1]
  have ino: "ino \<noteq> 0" and fr: "\<not> freed (Object e)" and uni: "\<And>b f. Entries s b = Some f \<Longrightarrow> inode (Object f) = ino \<Longrightarrow> b = a"
    using s(4) a by (auto simp: entry_inv_def)
  obtain i iu where i: "GetBucketIndexForInode (Table s) ino = Some i" "GetBucketIndexForUuid (Table s) u = Some iu"
    using ino_index [OF s(3) ino] uuid_index [OF s(3) u] by metis
  let ?I = "{min i iu, max i iu}"
  note S = seized_inv [OF inv1, of ?I]
  have T: "Table s1 = Table s" "Entries s1 = Entries s" "next_address s1 = next_address s + 80"
    by (simp_all add: s1_def)
  have l: "lookup_entry_in i ino null_uuid (seized ?I s1) = Some (a, remember i a (seized ?I s1))"
    using lookup_by_ino [OF S(1,2), of ino i] i(1) a(1,2) uni unfolding S(3) T seized_simps by blast
  have e: "Entries (remember i a (seized ?I s1)) a = Some e"
    using a(1) by (simp add: remember_def T)
  let ?t = "bump a 1 (remember i a (seized ?I s1))"
  have L: "Lock (bucket ?t (min i iu)) = Exclusive" "Lock (bucket ?t (max i iu)) = Exclusive"
    by (simp_all add: bump_def remember_def)
  have type: "LookupEntryType (bucket (seized ?I s1) k) = LookupEntryTypeLinkedLists" for k
    using s1(2) by simp
  have r: "FinesseObjectCreate ino u s = Some (a, freed_up ?I ?t)"
    using ino u i lock_both_seized [OF s1(1,1), of "min i iu" "max i iu"] l e fr type not_null_entry [OF s(4) a(1)] unlock_both_freed [OF L] fetch_add_bump [OF e, of 1]
    by (simp add: FinesseObjectCreate_def insert_entry_def Let_def s1_def [symmetric])
  have a': "Entries (seized ?I s1) a \<noteq> None"
    using a(1) by (simp add: T)
  have "unlocked (remember i a (seized ?I s1)) k" if "k \<notin> ?I" for k
    using remember_parts(3) [OF S(1,2) a'] that s1(1) [of k] by (simp add: unlocked_def)
  then have "lookup_inv (freed_up ?I ?t)"
    using bump_parts [OF remember_parts(1,2) [OF S(1,2) a'] e a(3)] by (intro freed_up_inv) auto
  moreover have "objects (freed_up ?I ?t) = (objects s)(a \<mapsto> (ino, uuid (Object e), ReferenceCount e + 1))"
    using a(1,2) by (simp add: objects_def bump_def remember_def T fun_eq_iff)
  ultimately show ?thesis
    using r by blast
qed

lemma link_entry_simps:
  "Entries (link_entry i iu new e s) = (Entries s)(new \<mapsto> e)" "next_address (link_entry i iu new e s) = next_address s"
  "HashSeed (Table (link_entry i iu new e s)) = HashSeed (Table s)" "BucketCountShift (Table (link_entry i iu new e s)) = BucketCountShift (Table s)"
  "InodeTableEntry (bucket (link_entry i iu new e s) k) = InodeTableEntry (bucket s k) @ (if k = i then [new] else [])"
  "UuidTableEntry (bucket (link_entry i iu new e s) k) = UuidTableEntry (bucket s k) @ (if k = iu then [new] else [])"
  "LastEntry (bucket (link_entry i iu new e s) k) = LastEntry (bucket s k)" "LookupEntryType (bucket (link_entry i iu new e s) k) = LookupEntryType (bucket s k)"
  "Lock (bucket (link_entry i iu new e s) k) = Lock (bucket s k)"
  "k \<notin> {i, iu} \<Longrightarrow> unlocked (link_entry i iu new e s) k = unlocked s k"
  by (simp_all add: link_entry_def count_entry_def Let_def unlocked_def)

lemma link_entry_inv:
  assumes inv: "lists_inv s" "entry_inv (s\<lparr>next_address := new\<rparr>)" and new: "next_address s = new + 80" "0 < new"
    and i: "GetBucketIndexForInode (Table s) ino = Some i" "GetBucketIndexForUuid (Table s) u = Some iu"
    and fresh: "\<forall>a e. Entries s a = Some e \<longrightarrow> inode (Object e) \<noteq> ino \<and> uuid (Object e) \<noteq> u"
    and e: "e = \<lparr>ReferenceCount = 2, Object = \<lparr>inode = ino, uuid = u, freed = False\<rparr>\<rparr>"
  shows "lists_inv (link_entry i iu new e s)" "entry_inv (link_entry i iu new e s)"
proof -
  have E: "Entries s new = None"
    using inv(2) by (cases "Entries s new") (auto simp: entry_inv_def)
  have ino: "ino \<noteq> 0" "\<not> uuid_is_null u"
    using i by (auto simp: GetBucketIndexForInode_def GetBucketIndexForUuid_def split: if_splits)
  note x = index_cong [of "Table (link_entry i iu new e s)" "Table s", unfolded link_entry_simps, OF refl refl]
  have "bucket_inv (link_entry i iu new e s) k" for k
  proof -
    have "bucket_inv s k"
      using inv(1) by (simp add: lists_inv_def)
    then show ?thesis
      unfolding bucket_inv_def link_entry_simps x using i E e by auto
  qed
  then show "lists_inv (link_entry i iu new e s)"
    using inv(1) by (simp add: lists_inv_def link_entry_simps)
  show "entry_inv (link_entry i iu new e s)"
    using inv(2) new ino e fresh unfolding entry_inv_def link_entry_simps by (fastforce split: if_splits)
qed

lemma lookup_uuid_fresh:
  assumes "lists_inv s" "entry_inv s" "\<not> uuid_is_null u" "\<forall>a e. Entries s a = Some e \<longrightarrow> uuid (Object e) \<noteq> u"
  shows "lookup_entry_in i 0 u s = Some (NULL, s)"
  using lookup_entry_in_spec [OF assms(1,2), of 0 u i] assms(3,4) by (auto simp: lookup_match_def)

lemma create_fresh:
  assumes inv: "lookup_inv s" and ino: "ino \<noteq> 0" and u: "\<not> uuid_is_null u"
    and fresh: "\<forall>a e. Entries s a = Some e \<longrightarrow> inode (Object e) \<noteq> ino \<and> uuid (Object e) \<noteq> u"
  shows "\<exists>t. FinesseObjectCreate ino u s = Some (next_address s, t) \<and> lookup_inv t \<and> objects t = (objects s)(next_address s \<mapsto> (ino, u, 2))
    \<and> objects s (next_address s) = None"
proof -
  define new where "new = next_address s"
  define s1 where "s1 = s\<lparr>next_address := new + 80\<rparr>"
  have inv1: "lookup_inv s1"
    unfolding s1_def new_def by (rule lookup_inv_next [OF inv])
  note s = lookup_inv_bucket [OF inv] and s1 = lookup_inv_bucket [OF inv1]
  obtain i iu where i: "GetBucketIndexForInode (Table s) ino = Some i" "GetBucketIndexForUuid (Table s) u = Some iu"
    using ino_index [OF s(3) ino] uuid_index [OF s(3) u] by metis
  let ?I = "{min i iu, max i iu}"
  note S = seized_inv [OF inv1, of ?I]
  have T: "Table s1 = Table s" "Entries s1 = Entries s" "next_address s1 = new + 80" "0 < new" "Entries s new = None"
    using s(4) by (cases "Entries s new"; auto simp: s1_def new_def entry_inv_def)+
  have l: "lookup_entry_in i ino null_uuid (seized ?I s1) = Some (NULL, seized ?I s1)" "lookup_entry_in i 0 u (seized ?I s1) = Some (NULL, seized ?I s1)"
    using lookup_by_ino [OF S(1,2), of ino i] lookup_uuid_fresh [OF S(1,2) u, of i] i(1) fresh unfolding S(3) T seized_simps by blast+
  define e where "e = \<lparr>ReferenceCount = 2 :: u64, Object = \<lparr>inode = ino, uuid = u, freed = False\<rparr>\<rparr>"
  let ?t = "link_entry i iu new e (seized ?I s1)"
  have L: "Lock (bucket ?t (min i iu)) = Exclusive" "Lock (bucket ?t (max i iu)) = Exclusive"
    by (simp_all add: link_entry_simps)
  have type: "LookupEntryType (bucket (seized ?I s1) k) = LookupEntryTypeLinkedLists" for k
    using s1(2) by simp
  have r: "FinesseObjectCreate ino u s = Some (new, freed_up ?I ?t)"
    using ino u i lock_both_seized [OF s1(1,1), of "min i iu" "max i iu"] l type T(4) unlock_both_freed [OF L]
    by (simp add: FinesseObjectCreate_def insert_entry_def Let_def new_def [symmetric] s1_def [symmetric] e_def)
  have "entry_inv ((seized ?I s1)\<lparr>next_address := new\<rparr>)"
    using s(4) by (simp add: entry_inv_def T new_def)
  then have "lists_inv ?t" "entry_inv ?t"
    using link_entry_inv [OF S(1) _ _ T(4), of ino i u iu e] i fresh unfolding S(3,4) T seized_simps e_def by auto
  moreover have "unlocked ?t k" if "k \<notin> ?I" for k
    using that s1(1) [of k] by (subst link_entry_simps) (auto simp: unlocked_def min_def max_def split: if_splits)
  ultimately have "lookup_inv (freed_up ?I ?t)"
    by (rule freed_up_inv)
  moreover have "objects (freed_up ?I ?t) = (objects s)(new \<mapsto> (ino, u, 2))"
    by (simp add: objects_def link_entry_simps T fun_eq_iff e_def)
  ultimately show ?thesis
    using r T(5) by (simp add: new_def [symmetric] objects_def)
qed

section \<open>A new table\<close>

lemma highest_bit_range:
  assumes "1024 \<le> unat c" "unat c \<le> 32768"
  shows "\<exists>k. highest_bit c 10 = Some k \<and> k \<in> {10..15}"
proof -
  have "drop_bit j c = 1 \<longleftrightarrow> unat c div 2 ^ j = 1" for j
    by (metis drop_bit_eq_div unat_1 unat_drop_bit_eq word_unat_eq_iff)
  then have h: "highest_bit c j = (if unat c div 2 ^ j = 1 then Some j else highest_bit c (Suc j))" for j
    by (subst highest_bit.simps) simp
  have q: "unat c div m = 1" if "m \<le> unat c" "unat c < 2 * m" for m
    using that by (intro div_nat_eqI) simp_all
  consider "unat c < 2048" | "2048 \<le> unat c" "unat c < 4096" | "4096 \<le> unat c" "unat c < 8192" | "8192 \<le> unat c" "unat c < 16384"
    | "16384 \<le> unat c" "unat c < 32768" | "unat c = 32768"
    using assms by linarith
  then have "unat c div 1024 = 1 \<or> unat c div 2048 = 1 \<or> unat c div 4096 = 1 \<or> unat c div 8192 = 1 \<or> unat c div 16384 = 1 \<or> unat c div 32768 = 1"
    using assms(1) q [of 1024] q [of 2048] q [of 4096] q [of 8192] q [of 16384] by cases simp_all
  then show ?thesis
    unfolding h [of 10] by (simp add: h [of 11] h [of 12] h [of 13] h [of 14] h [of 15]) blast
qed

lemma new_bucket_hash: "LookupBucketHashFunction address (new_bucket address) = LastHashValue (new_bucket address)"
  by (simp add: new_bucket_def Let_def LookupBucketHashFunction_def)

lemma new_bucket_simps: "LastEntry (new_bucket x) = NULL" "LookupEntryType (new_bucket x) = LookupEntryTypeLinkedLists" "InodeTableEntry (new_bucket x) = []"
  "UuidTableEntry (new_bucket x) = []" "Lock (new_bucket x) = Unlocked"
  by (simp_all add: new_bucket_def Let_def)

lemma new_table_inv:
  assumes "k \<in> {10..15}"
  shows "\<exists>tab. CreateLookupTable address (2 ^ k) seed = Some tab \<and> BucketCountShift tab = k
    \<and> (\<forall>s. Entries s = Map.empty \<and> 0 < next_address s \<longrightarrow> lookup_inv (s\<lparr>Table := tab\<rparr>) \<and> objects (s\<lparr>Table := tab\<rparr>) = Map.empty)"
proof -
  have "k = 10 \<or> k = 11 \<or> k = 12 \<or> k = 13 \<or> k = 14 \<or> k = 15"
    using assms by auto
  then have "bucket_count_shift (2 ^ k) = Some k"
    by auto
  then show ?thesis
    using assms by (auto simp: CreateLookupTable_def lookup_inv_def lists_inv_def bucket_inv_def entry_inv_def unlocked_def bucket_def bucket_hash_def
        new_bucket_hash new_bucket_simps bucket_address_def objects_def fun_eq_iff Let_def)
qed

lemma create_table:
  obtains k tab where "FinesseCreateTable address n = Some tab" "k \<in> {10..15}" "BucketCountShift tab = k"
    "\<forall>s. Entries s = Map.empty \<and> 0 < next_address s \<longrightarrow> lookup_inv (s\<lparr>Table := tab\<rparr>) \<and> objects (s\<lparr>Table := tab\<rparr>) = Map.empty"
proof -
  define c where "c = (let c = n div 1024; c = (if c = 0 then 10240 else c); c = (if c < 1024 then 1024 else c) in if 32768 < c then 32768 else c)"
  have "1024 \<le> c" "c \<le> 32768"
    by (auto simp: c_def Let_def not_less)
  then have "1024 \<le> unat c" "unat c \<le> 32768"
    by (simp_all add: word_le_nat_alt)
  then obtain k where k: "highest_bit c 10 = Some k" "k \<in> {10..15}"
    using highest_bit_range by blast
  obtain tab where "CreateLookupTable address (2 ^ k) 0 = Some tab" "BucketCountShift tab = k"
    "\<forall>s. Entries s = Map.empty \<and> 0 < next_address s \<longrightarrow> lookup_inv (s\<lparr>Table := tab\<rparr>) \<and> objects (s\<lparr>Table := tab\<rparr>) = Map.empty"
    using new_table_inv [OF k(2)] by blast
  then show thesis
    using that k unfolding FinesseCreateTable_def c_def Let_def by simp
qed

section \<open>The table as a map\<close>

lemma objects_entry: "objects s a = Some (ino, u, r) \<longleftrightarrow> (\<exists>e. Entries s a = Some e \<and> inode (Object e) = ino \<and> uuid (Object e) = u \<and> ReferenceCount e = r)"
  by (auto simp: objects_def)

lemma objects_fresh:
  "(\<forall>a v r. objects s a \<noteq> Some (ino, v, r)) \<longleftrightarrow> (\<forall>a e. Entries s a = Some e \<longrightarrow> inode (Object e) \<noteq> ino)"
  "(\<forall>a j r. objects s a \<noteq> Some (j, u, r)) \<longleftrightarrow> (\<forall>a e. Entries s a = Some e \<longrightarrow> uuid (Object e) \<noteq> u)"
  by (auto simp: objects_entry)

text \<open>One more reference: both lookups leave the same state but for the cache.\<close>

lemma looked_up:
  assumes "lookup_inv s" "objects s a = Some (ino, u, r)" "r + 1 \<noteq> 0"
  shows "lookup_inv (bump a 1 (remember i a s)) \<and> objects (bump a 1 (remember i a s)) = (objects s)(a \<mapsto> (ino, u, r + 1))"
proof -
  obtain e where e: "Entries s a = Some e" "ReferenceCount e = r"
    using assms(2) by (auto simp: objects_entry)
  have "Entries (remember i a s) a = Some e"
    using e(1) by (simp add: remember_def)
  then show ?thesis
    using bump_inv [OF remember_inv [OF assms(1), of a i], of a e 1] e assms(2,3) by (auto simp: fun_eq_iff)
qed

lemma object_unique:
  assumes "lookup_inv s" "objects s a = Some (ino, u, r)" "Entries s b = Some f" "inode (Object f) = ino \<or> uuid (Object f) = u"
  shows "b = a"
  using assms by (auto simp: lookup_inv_def entry_inv_def objects_entry)

lemma released:
  assumes inv: "lookup_inv s" and a: "objects s a = Some (ino, u, r)"
  shows "\<exists>t. FinesseObjectRelease a s = Some t \<and> lookup_inv t \<and> objects t = (objects s)(a \<mapsto> (ino, u, if r = 1 then 1 else r - 1))"
proof -
  obtain e where e: "Entries s a = Some e" "ReferenceCount e = r"
    using a by (auto simp: objects_entry)
  obtain i where i: "FinesseObjectRelease a s = Some (if r = 1 then remember i a s else bump a (- 1) (remember i a s))"
    using release_op [OF inv e(1)] e(2) by auto
  note R = remember_inv [OF inv, of a i]
  have "Entries (remember i a s) a = Some e"
    using e(1) by (simp add: remember_def)
  then have "lookup_inv (bump a (- 1) (remember i a s))" if "r \<noteq> 1"
    using bump_inv [OF R, of a e "- 1"] e that by simp
  then show ?thesis
    using i R e(1) a by (auto simp: fun_eq_iff)
qed

text \<open>
  C37: The object table implements a map.  While its invariant holds, which a new table
  has, a lookup by number or by identifier finds exactly the object with it, as long as its count does not wrap around, and takes a
  reference, or finds nothing and changes nothing; creating an object for a known number takes a reference of the object with that
  number, whatever its identifier, and creating one for a new number and a new identifier adds it with
  two references; releasing gives a reference back, except the last one: an object is never
  removed.  The creation with a new number and an identifier that another object has is not covered: the code looks
  for the identifier in the bucket of the number, so that it may add a second object with it.
\<close>

theorem object_table_refines_a_map:
  assumes "lookup_inv s"
  shows "(\<forall>a ino u r. objects s a = Some (ino, u, r) \<longrightarrow>
        (r + 1 \<noteq> 0 \<longrightarrow> (\<exists>t. FinesseObjectLookupByIno ino s = Some (a, t) \<and> lookup_inv t \<and> objects t = (objects s)(a \<mapsto> (ino, u, r + 1)))
          \<and> (\<exists>t. FinesseObjectLookupByUuid u s = Some (a, t) \<and> lookup_inv t \<and> objects t = (objects s)(a \<mapsto> (ino, u, r + 1)))
          \<and> (\<forall>v. \<not> uuid_is_null v \<longrightarrow> (\<exists>t. FinesseObjectCreate ino v s = Some (a, t) \<and> lookup_inv t \<and> objects t = (objects s)(a \<mapsto> (ino, u, r + 1)))))
        \<and> (\<exists>t. FinesseObjectRelease a s = Some t \<and> lookup_inv t \<and> objects t = (objects s)(a \<mapsto> (ino, u, if r = 1 then 1 else r - 1))))
    \<and> (\<forall>ino. ino \<noteq> 0 \<and> (\<forall>a v r. objects s a \<noteq> Some (ino, v, r)) \<longrightarrow> FinesseObjectLookupByIno ino s = Some (NULL, s)
        \<and> (\<forall>u. \<not> uuid_is_null u \<and> (\<forall>a j r. objects s a \<noteq> Some (j, u, r)) \<longrightarrow>
            (\<exists>a t. FinesseObjectCreate ino u s = Some (a, t) \<and> lookup_inv t \<and> objects s a = None \<and> objects t = (objects s)(a \<mapsto> (ino, u, 2)))))
    \<and> (\<forall>u. \<not> uuid_is_null u \<and> (\<forall>a j r. objects s a \<noteq> Some (j, u, r)) \<longrightarrow> FinesseObjectLookupByUuid u s = Some (NULL, s))"
proof (intro conjI allI impI; (elim conjE)?)
  note inv = assms
  fix a ino u r
  assume a: "objects s a = Some (ino, u, r)"
  then obtain e where e: "Entries s a = Some e" "inode (Object e) = ino" "uuid (Object e) = u" "ReferenceCount e = r"
    by (auto simp: objects_entry)
  have nz: "ino \<noteq> 0" "\<not> uuid_is_null u"
    using inv e by (auto simp: lookup_inv_def entry_inv_def)
  show "\<exists>t. FinesseObjectRelease a s = Some t \<and> lookup_inv t \<and> objects t = (objects s)(a \<mapsto> (ino, u, if r = 1 then 1 else r - 1))"
    by (rule released [OF inv a])
  assume r: "r + 1 \<noteq> 0"
  show "\<exists>t. FinesseObjectLookupByIno ino s = Some (a, t) \<and> lookup_inv t \<and> objects t = (objects s)(a \<mapsto> (ino, u, r + 1))"
    using lookup_by_ino_op [OF inv nz(1)] e looked_up [OF inv a r] object_unique [OF inv a] by metis
  show "\<exists>t. FinesseObjectLookupByUuid u s = Some (a, t) \<and> lookup_inv t \<and> objects t = (objects s)(a \<mapsto> (ino, u, r + 1))"
    using lookup_by_uuid_op [OF inv nz(2)] e looked_up [OF inv a r] object_unique [OF inv a] by metis
  show "\<exists>t. FinesseObjectCreate ino v s = Some (a, t) \<and> lookup_inv t \<and> objects t = (objects s)(a \<mapsto> (ino, u, r + 1))" if "\<not> uuid_is_null v" for v
    using create_existing [OF inv that e(1,2)] e r by auto
next
  fix ino
  assume ino: "ino \<noteq> 0" "\<forall>a v r. objects s a \<noteq> Some (ino, v, r)"
  show "FinesseObjectLookupByIno ino s = Some (NULL, s)"
    using lookup_by_ino_op [OF assms ino(1)] ino(2) [unfolded objects_fresh] by blast
  fix u
  assume "\<not> uuid_is_null u" "\<forall>a j r. objects s a \<noteq> Some (j, u, r)"
  then show "\<exists>a t. FinesseObjectCreate ino u s = Some (a, t) \<and> lookup_inv t \<and> objects s a = None \<and> objects t = (objects s)(a \<mapsto> (ino, u, 2))"
    using create_fresh [OF assms ino(1)] ino(2) unfolding objects_fresh by blast
next
  fix u
  assume u: "\<not> uuid_is_null u" "\<forall>a j r. objects s a \<noteq> Some (j, u, r)"
  show "FinesseObjectLookupByUuid u s = Some (NULL, s)"
    using lookup_by_uuid_op [OF assms u(1)] u(2) [unfolded objects_fresh] by blast
qed

theorem object_table_refines_a_map_witness:
  "\<exists>s a t u. lookup_inv s \<and> objects s = Map.empty \<and> FinesseObjectCreate 7 (replicate 16 1) s = Some (a, t) \<and> lookup_inv t
    \<and> FinesseObjectLookupByIno 7 t = Some (a, u) \<and> objects u = [a \<mapsto> (7, replicate 16 1, 3)]"
proof -
  obtain k tab where tab: "FinesseCreateTable 64 0 = Some tab" "k \<in> {10..15}" "BucketCountShift tab = k"
    "\<forall>s. Entries s = Map.empty \<and> 0 < next_address s \<longrightarrow> lookup_inv (s\<lparr>Table := tab\<rparr>) \<and> objects (s\<lparr>Table := tab\<rparr>) = Map.empty"
    by (rule create_table)
  define s where "s = \<lparr>Table = tab, Entries = Map.empty, FreedInodeList = [], FreedUuidList = [], next_address = 4096\<rparr>"
  have s: "lookup_inv s" "objects s = Map.empty"
    using tab(4) [rule_format, of s] by (simp_all add: s_def)
  have u: "\<not> uuid_is_null (replicate 16 1)"
    by (simp add: uuid_is_null_def)
  obtain a t where t: "FinesseObjectCreate 7 (replicate 16 1) s = Some (a, t)" "lookup_inv t" "objects t = [a \<mapsto> (7, replicate 16 1, 2)]"
    using conjunct1 [OF conjunct2 [OF object_table_refines_a_map [OF s(1)]], rule_format, of 7] u unfolding s(2) by fastforce
  have "objects t a = Some (7, replicate 16 1, 2)" "(2 :: u64) + 1 \<noteq> 0"
    by (simp_all add: t(3))
  then obtain v where "FinesseObjectLookupByIno 7 t = Some (a, v)" "objects v = [a \<mapsto> (7, replicate 16 1, 3)]"
    using conjunct1 [OF object_table_refines_a_map [OF t(2)]] unfolding t(3) by fastforce
  then show ?thesis
    using s t(1,2) by blast
qed

end
