(* ===== verification/Crc.thy ===== *)
theory Crc
  imports Murmur
begin

text \<open>
  The checksum CRC-32C of \<^verbatim>\<open>src/finesse/utils/crc.c\<close>, in its table-driven version and in the version for
  the \<^verbatim>\<open>crc32\<close> instructions of the processor, which works on three blocks at a time and joins the three
  results with an operator that appends zeros.  Both are shown to compute the checksum that is
  defined bit by bit.  The data is the list of its bytes, and \<^verbatim>\<open>next\<close> the address of the first one.
  The tables, which the code builds once, are lists of rows of 256 words; reading a row or an entry that a table does not
  have, or eight bytes that the data does not have, has no result.
\<close>

abbreviation (input) POLY :: u32 where "POLY \<equiv> 0x82f63b78"

section \<open>The tables of the software version\<close>

definition crc_bit :: "u32 \<Rightarrow> u32" where
  "crc_bit crc = (if crc AND 1 \<noteq> 0 then drop_bit 1 crc XOR POLY else drop_bit 1 crc)"

definition crc32c_table_0 :: "u32 \<Rightarrow> u32" where
  "crc32c_table_0 n = crc_bit (crc_bit (crc_bit (crc_bit (crc_bit (crc_bit (crc_bit (crc_bit n)))))))"

type_synonym crc_table = "u32 list list"

definition row_at :: "u32 list \<Rightarrow> nat \<Rightarrow> u32 option" where
  "row_at row n = (if n < length row then Some (row ! n) else None)"

definition table_at :: "crc_table \<Rightarrow> nat \<Rightarrow> nat \<Rightarrow> u32 option" where
  "table_at table k n = (if k < length table then row_at (table ! k) n else None)"

text \<open>
  The code fills the entries of the rows 1 to 7 for one index after the other, each from the entry above
  it and row 0; here a whole row is made from the row above it.
\<close>

definition next_row :: "u32 list \<Rightarrow> u32 list \<Rightarrow> u32 list option" where
  "next_row row0 row = those (map (\<lambda>crc. do { x \<leftarrow> row_at row0 (unat (crc AND 0xff)); Some (x XOR drop_bit 8 crc) }) row)"

fun table_rows :: "u32 list \<Rightarrow> nat \<Rightarrow> u32 list \<Rightarrow> crc_table option" where
  "table_rows row0 0 row = Some [row]"
| "table_rows row0 (Suc k) row = do {
     row' \<leftarrow> next_row row0 row;
     rows \<leftarrow> table_rows row0 k row';
     Some (row # rows) }"

definition crc32c_table :: "crc_table option" where
  "crc32c_table =
     (let row0 = map (\<lambda>n. crc32c_table_0 (of_nat n)) [0..<256]
      in table_rows row0 7 row0)"

section \<open>The software version\<close>

text \<open>The checksum is kept in 64 bits; an index into a table is computed from it.\<close>

definition table_byte :: "crc_table \<Rightarrow> nat \<Rightarrow> u64 \<Rightarrow> u64 option" where
  "table_byte table k index = map_option ucast (table_at table k (unat index))"

definition sw_byte :: "crc_table \<Rightarrow> u64 \<Rightarrow> u8 \<Rightarrow> u64 option" where
  "sw_byte table crc b = do {
     x \<leftarrow> table_byte table 0 ((crc XOR ucast b) AND 0xff);
     Some (x XOR drop_bit 8 crc) }"

definition sw_word :: "crc_table \<Rightarrow> u64 \<Rightarrow> u8 list \<Rightarrow> u64 option" where
  "sw_word table crc bytes = do {
     let crc = crc XOR le_word bytes;
     x7 \<leftarrow> table_byte table 7 (crc AND 0xff);
     x6 \<leftarrow> table_byte table 6 (drop_bit 8 crc AND 0xff);
     x5 \<leftarrow> table_byte table 5 (drop_bit 16 crc AND 0xff);
     x4 \<leftarrow> table_byte table 4 (drop_bit 24 crc AND 0xff);
     x3 \<leftarrow> table_byte table 3 (drop_bit 32 crc AND 0xff);
     x2 \<leftarrow> table_byte table 2 (drop_bit 40 crc AND 0xff);
     x1 \<leftarrow> table_byte table 1 (drop_bit 48 crc AND 0xff);
     x0 \<leftarrow> table_byte table 0 (drop_bit 56 crc);
     Some (x7 XOR x6 XOR x5 XOR x4 XOR x3 XOR x2 XOR x1 XOR x0) }"

text \<open>The loops: single bytes up to an address that is a multiple of eight, words, and the rest.\<close>

fun align_loop :: "(u64 \<Rightarrow> u8 \<Rightarrow> u64 option) \<Rightarrow> addr \<Rightarrow> u64 \<Rightarrow> u8 list \<Rightarrow> (u64 \<times> u8 list) option" where
  "align_loop step next crc [] = Some (crc, [])"
| "align_loop step next crc (b # bs) =
     (if next mod 8 \<noteq> 0 then do { crc \<leftarrow> step crc b; align_loop step (Suc next) crc bs } else Some (crc, b # bs))"

function word_loop :: "(u64 \<Rightarrow> u8 list \<Rightarrow> u64 option) \<Rightarrow> u64 \<Rightarrow> u8 list \<Rightarrow> (u64 \<times> u8 list) option" where
  "word_loop step crc bs =
     (if 8 \<le> length bs then do { crc \<leftarrow> step crc (take 8 bs); word_loop step crc (drop 8 bs) } else Some (crc, bs))"
  by auto
termination by (relation "measure (\<lambda>(step, crc, bs). length bs)") auto

declare word_loop.simps [simp del]

fun byte_loop :: "(u64 \<Rightarrow> u8 \<Rightarrow> u64 option) \<Rightarrow> u64 \<Rightarrow> u8 list \<Rightarrow> u64 option" where
  "byte_loop step crc [] = Some crc"
| "byte_loop step crc (b # bs) = do { crc \<leftarrow> step crc b; byte_loop step crc bs }"

definition crc32c_sw :: "u32 \<Rightarrow> addr \<Rightarrow> u8 list \<Rightarrow> u32 option" where
  "crc32c_sw crci next buf = do {
     table \<leftarrow> crc32c_table;
     let crc = ucast (crci XOR 0xffffffff);
     (crc, bs) \<leftarrow> align_loop (sw_byte table) next crc buf;
     (crc, bs) \<leftarrow> word_loop (sw_word table) crc bs;
     crc \<leftarrow> byte_loop (sw_byte table) crc bs;
     Some (ucast crc XOR 0xffffffff) }"

section \<open>Matrices over the field of two elements\<close>

text \<open>The loop ends with the highest bit of the vector; past the last row there is nothing to read.\<close>

fun matrix_loop :: "u32 list \<Rightarrow> u32 \<Rightarrow> u32 \<Rightarrow> u32 option" where
  "matrix_loop [] vec acc = (if vec = 0 then Some acc else None)"
| "matrix_loop (row # rows) vec acc =
     (if vec = 0 then Some acc else matrix_loop rows (drop_bit 1 vec) (if vec AND 1 \<noteq> 0 then acc XOR row else acc))"

definition gf2_matrix_times :: "u32 list \<Rightarrow> u32 \<Rightarrow> u32 option" where
  "gf2_matrix_times mat vec = matrix_loop mat vec 0"

definition gf2_matrix_square :: "u32 list \<Rightarrow> u32 list option" where
  "gf2_matrix_square mat = those (map (\<lambda>n. gf2_matrix_times mat (mat ! n)) [0..<32])"

definition zero_bit_operator :: "u32 list" where
  "zero_bit_operator = POLY # map (\<lambda>n. push_bit n 1) [0..<31]"

text \<open>The loop that squares until the length is used up.\<close>

function zeros_loop :: "u32 list \<Rightarrow> nat \<Rightarrow> u32 list option" where
  "zeros_loop odd_op len = do {
     even_op \<leftarrow> gf2_matrix_square odd_op;
     let len = len div 2;
     if len = 0 then Some even_op
     else do {
       odd_op \<leftarrow> gf2_matrix_square even_op;
       let len = len div 2;
       if len \<noteq> 0 then zeros_loop odd_op len else Some odd_op } }"
  by auto
termination by (relation "measure snd") auto

declare zeros_loop.simps [simp del]

definition crc32c_zeros_op :: "nat \<Rightarrow> u32 list option" where
  "crc32c_zeros_op len = do {
     let odd_op = zero_bit_operator;
     even_op \<leftarrow> gf2_matrix_square odd_op;
     odd_op \<leftarrow> gf2_matrix_square even_op;
     zeros_loop odd_op len }"

text \<open>The four tables: the operator applied to one byte at each position.\<close>

definition crc32c_zeros :: "nat \<Rightarrow> crc_table option" where
  "crc32c_zeros len = do {
     op \<leftarrow> crc32c_zeros_op len;
     those (map (\<lambda>k. those (map (\<lambda>n. gf2_matrix_times op (push_bit (8 * k) (of_nat n))) [0..<256])) [0..<4]) }"

definition crc32c_shift :: "crc_table \<Rightarrow> u32 \<Rightarrow> u32 option" where
  "crc32c_shift zeros crc = do {
     a \<leftarrow> table_at zeros 0 (unat (crc AND 0xff));
     b \<leftarrow> table_at zeros 1 (unat (drop_bit 8 crc AND 0xff));
     c \<leftarrow> table_at zeros 2 (unat (drop_bit 16 crc AND 0xff));
     d \<leftarrow> table_at zeros 3 (unat (drop_bit 24 crc));
     Some (a XOR b XOR c XOR d) }"

section \<open>The hardware version\<close>

text \<open>
  The instructions \<^verbatim>\<open>crc32b\<close> and \<^verbatim>\<open>crc32q\<close>: the checksum in the low half of the register is advanced by
  the bits of the operand, lowest first, and the high half is cleared.
\<close>

definition crc32b :: "u64 \<Rightarrow> u8 \<Rightarrow> u64" where
  "crc32b crc b = ucast ((crc_bit ^^ 8) (ucast crc XOR ucast b))"

definition crc32q :: "u64 \<Rightarrow> u8 list \<Rightarrow> u64" where
  "crc32q crc bytes = foldl crc32b crc bytes"

abbreviation (input) LONG :: nat where "LONG \<equiv> 8192"
abbreviation (input) SHORT :: nat where "SHORT \<equiv> 256"

text \<open>The inner loop: one word from each of three blocks at a time.\<close>

definition word_at :: "u8 list \<Rightarrow> nat \<Rightarrow> u8 list option" where
  "word_at buf offset = (if offset + 8 \<le> length buf then Some (take 8 (drop offset buf)) else None)"

function three_loop :: "nat \<Rightarrow> nat \<Rightarrow> u8 list \<Rightarrow> u64 \<times> u64 \<times> u64 \<Rightarrow> (u64 \<times> u64 \<times> u64) option" where
  "three_loop block offset buf (crc0, crc1, crc2) = do {
     w0 \<leftarrow> word_at buf offset;
     w1 \<leftarrow> word_at buf (block + offset);
     w2 \<leftarrow> word_at buf (block * 2 + offset);
     let crcs = (crc32q crc0 w0, crc32q crc1 w1, crc32q crc2 w2);
     let offset = offset + 8;
     if offset < block then three_loop block offset buf crcs else Some crcs }"
  by auto
termination by (relation "measure (\<lambda>(block, offset, buf, crcs). block - offset)") auto

declare three_loop.simps [simp del]

definition block_step :: "nat \<Rightarrow> crc_table \<Rightarrow> u64 \<Rightarrow> u8 list \<Rightarrow> u64 option" where
  "block_step block zeros crc0 buf = do {
     (crc0, crc1, crc2) \<leftarrow> three_loop block 0 buf (crc0, 0, 0);
     shifted \<leftarrow> crc32c_shift zeros (ucast crc0);
     let crc0 = ucast shifted XOR crc1;
     shifted \<leftarrow> crc32c_shift zeros (ucast crc0);
     Some (ucast shifted XOR crc2) }"

function block_loop :: "nat \<Rightarrow> crc_table \<Rightarrow> u64 \<Rightarrow> u8 list \<Rightarrow> (u64 \<times> u8 list) option" where
  "block_loop block zeros crc0 buf =
     (if 0 < block \<and> block * 3 \<le> length buf then do {
        crc0 \<leftarrow> block_step block zeros crc0 buf;
        block_loop block zeros crc0 (drop (block * 3) buf) }
      else Some (crc0, buf))"
  by auto
termination by (relation "measure (\<lambda>(block, zeros, crc0, buf). length buf)") auto

declare block_loop.simps [simp del]

definition crc32c_hw :: "u32 \<Rightarrow> addr \<Rightarrow> u8 list \<Rightarrow> u32 option" where
  "crc32c_hw crc next buf = do {
     crc32c_long \<leftarrow> crc32c_zeros LONG;
     crc32c_short \<leftarrow> crc32c_zeros SHORT;
     let crc0 = ucast (crc XOR 0xffffffff);
     (crc0, bs) \<leftarrow> align_loop (\<lambda>c b. Some (crc32b c b)) next crc0 buf;
     (crc0, bs) \<leftarrow> block_loop LONG crc32c_long crc0 bs;
     (crc0, bs) \<leftarrow> block_loop SHORT crc32c_short crc0 bs;
     (crc0, bs) \<leftarrow> word_loop (\<lambda>c w. Some (crc32q c w)) crc0 bs;
     crc0 \<leftarrow> byte_loop (\<lambda>c b. Some (crc32b c b)) crc0 bs;
     Some (ucast crc0 XOR 0xffffffff) }"

text \<open>The processor decides which version is used.\<close>

definition crc32c :: "bool \<Rightarrow> u32 \<Rightarrow> addr \<Rightarrow> u8 list \<Rightarrow> u32 option" where
  "crc32c sse42 crc next buf = (if sse42 then crc32c_hw crc next buf else crc32c_sw crc next buf)"

section \<open>The checksum bit by bit\<close>

definition crc_byte :: "u32 \<Rightarrow> u8 \<Rightarrow> u32" where
  "crc_byte crc b = (crc_bit ^^ 8) (crc XOR ucast b)"

definition crc32c_spec :: "u32 \<Rightarrow> u8 list \<Rightarrow> u32" where
  "crc32c_spec crc bytes = foldl crc_byte (crc XOR 0xffffffff) bytes XOR 0xffffffff"

text \<open>A step is linear over the field of two elements.\<close>

lemma and_one_bit: "(x :: 'a :: len word) AND 1 \<noteq> 0 \<longleftrightarrow> bit x 0"
  by (simp add: and_one_eq odd_iff_mod_2_eq_one bit_0)

lemma crc_bit_alt: "crc_bit c = drop_bit 1 c XOR (if bit c 0 then POLY else 0)"
  by (simp add: crc_bit_def and_one_bit)

lemma crc_bit_xor: "crc_bit (x XOR y) = crc_bit x XOR crc_bit y"
  by (cases "bit x 0"; cases "bit y 0") (simp_all add: crc_bit_alt drop_bit_xor bit_xor_iff xor.assoc xor.left_commute xor.commute)

lemma crc_bit_zero [simp]: "crc_bit 0 = 0" "(crc_bit ^^ n) 0 = 0"
proof -
  show z: "crc_bit 0 = 0"
    by (simp add: crc_bit_alt)
  show "(crc_bit ^^ n) 0 = 0"
    by (induction n) (simp_all add: z)
qed

lemma crc_bits_xor: "(crc_bit ^^ n) (x XOR y) = (crc_bit ^^ n) x XOR (crc_bit ^^ n) y"
  by (induction n) (simp_all add: crc_bit_xor)

lemma crc_bits_low_zero: "take_bit n x = 0 \<Longrightarrow> (crc_bit ^^ n) x = drop_bit n x"
proof (induction n arbitrary: x)
  case (Suc n)
  have b: "\<not> bit x j" if "j < Suc n" for j
    using Suc.prems that by (metis bit_take_bit_iff bit_0_eq bot_apply bot_bool_def)
  have "take_bit n (drop_bit 1 x) = 0"
    using b by (intro bit_word_eqI) (auto simp: bit_simps)
  then have "(crc_bit ^^ n) (drop_bit 1 x) = drop_bit n (drop_bit 1 x)"
    by (rule Suc.IH)
  moreover have "crc_bit x = drop_bit 1 x"
    using b [of 0] by (simp add: crc_bit_alt)
  ultimately show ?case
    by (simp add: funpow_swap1)
qed simp

lemma byte_mask: "(0xff :: 'a :: len word) = mask 8"
  by (simp add: mask_eq_exp_minus_1)

lemma crc_bits_split: "(crc_bit ^^ 8) c = (crc_bit ^^ 8) (c AND 0xff) XOR drop_bit 8 c"
proof -
  have "take_bit 8 (c AND NOT 0xff) = 0" "drop_bit 8 (c AND NOT 0xff) = drop_bit 8 c"
    unfolding byte_mask by (intro bit_word_eqI; auto simp: bit_simps dest: bit_imp_le_length)+
  then have "(crc_bit ^^ 8) (c AND NOT 0xff) = drop_bit 8 c"
    using crc_bits_low_zero [of 8 "c AND NOT 0xff"] by simp
  moreover have "c = (c AND 0xff) XOR (c AND NOT 0xff)"
    by (intro bit_word_eqI) (auto simp: bit_simps)
  ultimately show ?thesis
    by (metis crc_bits_xor)
qed

lemma crc_bits_add: "(crc_bit ^^ m) ((crc_bit ^^ n) x) = (crc_bit ^^ (m + n)) x"
  by (simp add: funpow_add)

lemma crc_bits_byte: "(crc_bit ^^ (8 + n)) c = (crc_bit ^^ (8 + n)) (c AND 0xff) XOR (crc_bit ^^ n) (drop_bit 8 c)"
  using arg_cong [OF crc_bits_split [of c], of "crc_bit ^^ n"] by (simp add: crc_bits_xor crc_bits_add add.commute)

lemma foldl_crc_byte_zeros: "foldl crc_byte c bs = (crc_bit ^^ (8 * length bs)) c XOR foldl crc_byte 0 bs"
proof (induction bs arbitrary: c)
  case (Cons b bs)
  show ?case
    using Cons [of "crc_byte c b"] Cons [of "crc_byte 0 b"]
    by (simp add: crc_byte_def crc_bits_xor crc_bits_add add.commute xor.assoc xor.left_commute)
qed simp

section \<open>The software version computes it\<close>

lemma table_0: "crc32c_table_0 n = (crc_bit ^^ 8) n"
  by (simp add: crc32c_table_0_def eval_nat_numeral)

text \<open>A published test vector, as a check of the definition.\<close>

lemma crc32c_vector: "crc32c_spec 0 (map (\<lambda>c. of_nat (of_char c)) ''a'') = 0xc1d04330"
  by (simp add: crc32c_spec_def crc_byte_def crc32c_table_0_def crc_bit_def flip: table_0)

text \<open>Row \<^verbatim>\<open>k\<close> of the table advances a byte by \<^verbatim>\<open>k + 1\<close> bytes.\<close>

definition steps_row :: "nat \<Rightarrow> u32 list" where
  "steps_row k = map (\<lambda>n. (crc_bit ^^ (8 + 8 * k)) (of_nat n)) [0..<256]"

definition steps_table :: crc_table where
  "steps_table = map steps_row [0..<8]"

lemma those_map_Some: "those (map (\<lambda>n. Some (g n)) ns) = Some (map g ns)"
  by (induction ns) simp_all

lemma byte_below: "unat ((c :: 'a :: len word) AND 0xff) < 256"
  unfolding byte_mask using take_bit_nat_less_exp [of 8 "unat c"] by (simp add: take_bit_eq_mask [symmetric] unsigned_take_bit_eq)

lemma table_at_map:
  assumes "k < m" "n < 256"
  shows "table_at (map (\<lambda>k. map (f k) [0..<256]) [0..<m]) k n = Some (f k n)"
  using assms by (simp add: table_at_def row_at_def)

lemma next_steps_row: "next_row (steps_row 0) (steps_row k) = Some (steps_row (Suc k))"
proof -
  have "row_at (steps_row 0) (unat (crc AND 0xff)) = Some ((crc_bit ^^ 8) (crc AND 0xff))" for crc
    using byte_below [of crc] by (simp add: steps_row_def row_at_def)
  then have "next_row (steps_row 0) (steps_row k) = Some (map (\<lambda>crc. (crc_bit ^^ 8) (crc AND 0xff) XOR drop_bit 8 crc) (steps_row k))"
    by (simp add: next_row_def those_map_Some)
  then show ?thesis
    by (simp add: steps_row_def crc_bits_split [symmetric] crc_bits_add)
qed

lemma table_rows_steps: "table_rows (steps_row 0) k (steps_row j) = Some (map steps_row [j..<Suc (j + k)])"
proof (induction k arbitrary: j)
  case (Suc k)
  have "steps_row j # map steps_row [Suc j..<Suc (Suc j + k)] = map steps_row [j..<Suc (j + Suc k)]"
    by (simp add: upt_conv_Cons del: upt_Suc)
  then show ?case
    by (simp add: next_steps_row Suc.IH del: upt_Suc)
qed simp

lemma table_steps: "crc32c_table = Some steps_table"
proof -
  have "map (\<lambda>n. crc32c_table_0 (of_nat n)) [0..<256] = steps_row 0"
    by (simp add: steps_row_def table_0)
  then show ?thesis
    using table_rows_steps [of 7 0] by (simp add: crc32c_table_def steps_table_def Let_def del: upt_Suc)
qed

definition steps_byte :: "nat \<Rightarrow> u64 \<Rightarrow> u64" where
  "steps_byte k index = ucast ((crc_bit ^^ (8 + 8 * k)) (ucast index))"

lemma table_byte_steps:
  assumes "k < 8" "unat index < 256"
  shows "table_byte steps_table k index = Some (steps_byte k index)"
proof -
  have "steps_table = map (\<lambda>k. map (\<lambda>n. (crc_bit ^^ (8 + 8 * k)) (of_nat n)) [0..<256]) [0..<8]"
    by (simp only: steps_table_def steps_row_def [abs_def])
  then have "table_at steps_table k (unat index) = Some ((crc_bit ^^ (8 + 8 * k)) (ucast index))"
    using table_at_map [OF assms, of "\<lambda>k n. (crc_bit ^^ (8 + 8 * k)) (of_nat n)"] by simp
  then show ?thesis
    by (simp add: table_byte_def steps_byte_def)
qed

lemma byte_index: "ucast ((w :: u64) AND 0xff) = (ucast w AND 0xff :: u32)" "ucast (drop_bit j (w :: u64) AND 0xff) = (ucast (drop_bit j w) AND 0xff :: u32)"
  unfolding byte_mask by (intro bit_word_eqI; auto simp: bit_simps)+

lemma sw_byte_step: "sw_byte steps_table (ucast c) b = Some (ucast (crc_byte c b))"
proof -
  have "drop_bit 8 (c XOR ucast b) = drop_bit 8 c"
    by (intro bit_word_eqI) (auto simp: bit_simps dest: bit_imp_le_length)
  then have "crc_byte c b = (crc_bit ^^ 8) ((c XOR ucast b) AND 0xff) XOR drop_bit 8 c"
    using crc_bits_split [of "c XOR ucast b"] by (simp add: crc_byte_def)
  moreover have "ucast (ucast c XOR ucast b :: u64) = (c XOR ucast b :: u32)"
    by (intro bit_word_eqI) (auto simp: bit_simps dest: bit_imp_le_length)
  moreover have "ucast (x XOR drop_bit 8 c) = (ucast x XOR drop_bit 8 (ucast c) :: u64)" for x
    by (intro bit_word_eqI) (auto simp: bit_simps dest: bit_imp_le_length)
  ultimately show ?thesis
    by (simp add: sw_byte_def table_byte_steps byte_below steps_byte_def byte_index)
qed

text \<open>A word is eaten byte by byte from its low end.\<close>

fun sw_sum :: "nat \<Rightarrow> u64 \<Rightarrow> u64" where
  "sw_sum 0 w = w"
| "sw_sum (Suc n) w = steps_byte n (w AND 0xff) XOR sw_sum n (drop_bit 8 w)"

lemma le_word_bits: "bit (le_word bs :: 'a :: len word) j \<Longrightarrow> j < 8 * length bs"
proof (induction bs arbitrary: j)
  case (Cons b bs)
  then have "bit (ucast b :: 'a word) j \<or> 8 \<le> j \<and> bit (le_word bs :: 'a word) (j - 8)"
    by (auto simp: bit_simps)
  then show ?case
    using Cons.IH [of "j - 8"] by (auto simp: bit_simps dest: bit_imp_le_length)
qed simp

lemma word_low_byte: "((ucast c :: u64) XOR le_word (b # bs)) AND 0xff = ucast ((c XOR ucast b) AND 0xff :: u32)"
  unfolding byte_mask by (intro bit_word_eqI) (auto simp: bit_simps)

lemma word_rest:
  assumes "length bs < 8"
  shows "drop_bit 8 ((ucast (c :: u32) :: u64) XOR le_word (b # bs)) = ucast (drop_bit 8 c) XOR le_word bs"
proof -
  have "8 + j < 64" if "bit (le_word bs :: u64) j" for j
    using le_word_bits [OF that] assms by simp
  then have "drop_bit 8 (le_word (b # bs) :: u64) = le_word bs"
    by (intro bit_word_eqI) (auto simp: bit_simps dest: bit_imp_le_length)
  moreover have "drop_bit 8 (ucast c :: u64) = ucast (drop_bit 8 c)"
    by (intro bit_word_eqI) (auto simp: bit_simps dest: bit_imp_le_length)
  ultimately show ?thesis
    by (simp only: drop_bit_xor)
qed

lemma foldl_crc_byte_Cons:
  "foldl crc_byte c (b # bs) = (crc_bit ^^ (8 + 8 * length bs)) ((c XOR ucast b) AND 0xff) XOR foldl crc_byte (drop_bit 8 c) bs"
proof -
  have "drop_bit 8 (c XOR ucast b) = drop_bit 8 c"
    by (intro bit_word_eqI) (auto simp: bit_simps dest: bit_imp_le_length)
  then have "crc_byte c b = (crc_bit ^^ 8) ((c XOR ucast b) AND 0xff) XOR drop_bit 8 c"
    using crc_bits_split [of "c XOR ucast b"] by (simp add: crc_byte_def)
  then show ?thesis
    using foldl_crc_byte_zeros [of "crc_byte c b" bs] foldl_crc_byte_zeros [of "drop_bit 8 c" bs]
    by (simp add: crc_bits_xor crc_bits_add add.commute xor.assoc)
qed

lemma ucast_xor: "(ucast (x XOR y :: u32) :: u64) = ucast x XOR ucast y" "(ucast (ucast (x :: u32) :: u64) :: u32) = x"
  by (intro bit_word_eqI; auto simp: bit_simps dest: bit_imp_le_length)+

lemma sw_sum_fold: "length bs \<le> 8 \<Longrightarrow> sw_sum (length bs) (ucast c XOR le_word bs) = ucast (foldl crc_byte c bs)"
proof (induction bs arbitrary: c)
  case (Cons b bs)
  then have "sw_sum (length bs) (ucast (drop_bit 8 c) XOR le_word bs) = ucast (foldl crc_byte (drop_bit 8 c) bs)" "length bs < 8"
    by auto
  then show ?case
    unfolding length_Cons sw_sum.simps word_low_byte word_rest [OF \<open>length bs < 8\<close>] foldl_crc_byte_Cons by (simp add: steps_byte_def ucast_xor)
qed simp

lemma sw_word_step:
  assumes "length bs = 8"
  shows "sw_word steps_table (ucast c) bs = Some (ucast (foldl crc_byte c bs))"
proof -
  let ?w = "ucast c XOR le_word bs :: u64"
  have top: "drop_bit 56 ?w AND 0xff = drop_bit 56 ?w" "drop_bit 64 ?w = 0"
    unfolding byte_mask by (intro bit_word_eqI; auto simp: bit_simps dest: bit_imp_le_length)+
  have "unat (drop_bit 56 ?w) < 256"
    using byte_below [of "drop_bit 56 ?w"] unfolding top(1) .
  then have "sw_word steps_table (ucast c) bs = Some (steps_byte 7 (?w AND 0xff) XOR steps_byte 6 (drop_bit 8 ?w AND 0xff)
      XOR steps_byte 5 (drop_bit 16 ?w AND 0xff) XOR steps_byte 4 (drop_bit 24 ?w AND 0xff) XOR steps_byte 3 (drop_bit 32 ?w AND 0xff)
      XOR steps_byte 2 (drop_bit 40 ?w AND 0xff) XOR steps_byte 1 (drop_bit 48 ?w AND 0xff) XOR steps_byte 0 (drop_bit 56 ?w))"
    by (simp add: sw_word_def Let_def table_byte_steps byte_below del: drop_bit_xor)
  also have "\<dots> = Some (sw_sum 8 ?w)"
    using top by (simp add: eval_nat_numeral xor.assoc)
  finally have "sw_word steps_table (ucast c) bs = Some (sw_sum 8 ?w)" .
  then show ?thesis
    using sw_sum_fold [of bs c] assms by simp
qed

text \<open>The loops, for every way to eat a byte or a word.\<close>

lemma align_loop_fold:
  assumes "\<And>c b. step (ucast c) b = Some (ucast (crc_byte c b))"
  shows "\<exists>c' bs'. align_loop step a (ucast c) bs = Some (ucast c', bs') \<and> foldl crc_byte c' bs' = foldl crc_byte c bs"
proof (induction bs arbitrary: a c)
  case (Cons b bs)
  then show ?case
    using assms [of c b] by auto
qed auto

lemma word_loop_fold:
  assumes "\<And>c bs. length bs = 8 \<Longrightarrow> step (ucast c) bs = Some (ucast (foldl crc_byte c bs))"
  shows "\<exists>c' bs'. word_loop step (ucast c) bs = Some (ucast c', bs') \<and> foldl crc_byte c' bs' = foldl crc_byte c bs"
proof (induction "length bs" arbitrary: c bs rule: less_induct)
  case less
  show ?case
  proof (cases "8 \<le> length bs")
    case True
    let ?c = "foldl crc_byte c (take 8 bs)"
    have "foldl crc_byte ?c (drop 8 bs) = foldl crc_byte c bs"
      by (metis append_take_drop_id foldl_append)
    moreover have "word_loop step (ucast c) bs = word_loop step (ucast ?c) (drop 8 bs)"
      using True assms [of "take 8 bs" c] by (simp add: word_loop.simps [of step _ bs])
    ultimately show ?thesis
      using less [of "drop 8 bs" ?c] True by auto
  next
    case False
    then show ?thesis
      by (auto simp: word_loop.simps [of step _ bs])
  qed
qed

lemma byte_loop_fold:
  "(\<And>c b. step (ucast c) b = Some (ucast (crc_byte c b))) \<Longrightarrow> byte_loop step (ucast c) bs = Some (ucast (foldl crc_byte c bs))"
  by (induction bs arbitrary: c) simp_all

lemma crc32c_sw_spec: "crc32c_sw crc a bs = Some (crc32c_spec crc bs)"
proof -
  obtain c1 bs1 where 1: "align_loop (sw_byte steps_table) a (ucast (crc XOR 0xffffffff)) bs = Some (ucast c1, bs1)"
      "foldl crc_byte c1 bs1 = foldl crc_byte (crc XOR 0xffffffff) bs"
    using align_loop_fold [of "sw_byte steps_table" a "crc XOR 0xffffffff" bs] sw_byte_step by blast
  obtain c2 bs2 where 2: "word_loop (sw_word steps_table) (ucast c1) bs1 = Some (ucast c2, bs2)" "foldl crc_byte c2 bs2 = foldl crc_byte c1 bs1"
    using word_loop_fold [of "sw_word steps_table" c1 bs1] sw_word_step by blast
  show ?thesis
    unfolding crc32c_sw_def crc32c_spec_def Let_def table_steps bind.bind_lunit 1(1) prod.case 2(1)
    by (simp only: byte_loop_fold [of "sw_byte steps_table", OF sw_byte_step] bind.bind_lunit ucast_xor 2(2) 1(2))
qed

section \<open>The operator that appends zeros\<close>

definition linear :: "(u32 \<Rightarrow> u32) \<Rightarrow> bool" where
  "linear f \<longleftrightarrow> (\<forall>x y. f (x XOR y) = f x XOR f y)"

definition represents :: "u32 list \<Rightarrow> (u32 \<Rightarrow> u32) \<Rightarrow> bool" where
  "represents mat f \<longleftrightarrow> length mat = 32 \<and> (\<forall>n<32. mat ! n = f (push_bit n 1)) \<and> linear f"

lemma linear_zero: "linear f \<Longrightarrow> f 0 = 0"
  unfolding linear_def by (metis xor_self_eq)

lemma low_bit_split:
  fixes x :: u32
  shows "push_bit j x = (if bit x 0 then push_bit j 1 else 0) XOR push_bit (Suc j) (drop_bit 1 x)"
proof -
  have b: "bit (push_bit (Suc j) (drop_bit 1 x)) n \<longleftrightarrow> j < n \<and> n < 32 \<and> bit x (n - j)" for n
  proof (cases "j < n")
    case True
    then have "Suc (n - Suc j) = n - j"
      by simp
    then show ?thesis
      using True by (simp add: bit_push_bit_iff bit_drop_bit_eq del: push_bit_Suc)
  qed (simp add: bit_push_bit_iff del: push_bit_Suc)
  show ?thesis
  proof (rule bit_word_eqI)
    fix n
    assume "n < LENGTH(32)"
    then show "bit (push_bit j x) n = bit ((if bit x 0 then push_bit j 1 else 0) XOR push_bit (Suc j) (drop_bit 1 x)) n"
      unfolding bit_xor_iff b by (cases "n = j"; cases "bit x 0"; cases "j < n") (simp_all add: bit_push_bit_iff bit_1_iff bit_exp_iff)
  qed
qed

lemma matrix_loop_linear:
  assumes "linear f" "\<forall>n<length rows. rows ! n = f (push_bit (j + n) 1)" "take_bit (length rows) vec = vec"
  shows "matrix_loop rows vec acc = Some (acc XOR f (push_bit j vec))"
  using assms(2,3)
proof (induction rows arbitrary: j vec acc)
  case Nil
  then show ?case
    using linear_zero [OF assms(1)] by simp
next
  case (Cons row rows)
  have split: "push_bit j vec = (if bit vec 0 then push_bit j 1 else 0) XOR push_bit (Suc j) (drop_bit 1 vec)"
    by (rule low_bit_split)
  have "\<forall>n<length rows. rows ! n = f (push_bit (Suc j + n) 1)"
    using Cons.prems(1) by force
  moreover have "take_bit (length rows) (drop_bit 1 vec) = drop_bit 1 vec"
    using arg_cong [OF Cons.prems(2), of "drop_bit 1"] by (simp add: drop_bit_take_bit)
  ultimately have "matrix_loop rows (drop_bit 1 vec) b = Some (b XOR f (push_bit (Suc j) (drop_bit 1 vec)))" for b
    by (rule Cons.IH)
  moreover have "row = f (push_bit j 1)"
    using Cons.prems(1) by force
  moreover have "f (push_bit j vec) = (if bit vec 0 then f (push_bit j 1) else 0) XOR f (push_bit (Suc j) (drop_bit 1 vec))"
    using assms(1) linear_zero [OF assms(1)] unfolding split linear_def by simp
  ultimately show ?case
    using linear_zero [OF assms(1)] by (auto simp: and_one_bit xor.assoc)
qed

lemma matrix_times: "represents mat f \<Longrightarrow> gf2_matrix_times mat vec = Some (f vec)"
  using matrix_loop_linear [of f mat 0 vec 0] by (simp add: represents_def gf2_matrix_times_def take_bit_word_eq_self)

lemma matrix_square:
  assumes "represents mat f"
  shows "\<exists>sq. gf2_matrix_square mat = Some sq \<and> represents sq (f \<circ> f)"
proof -
  have "gf2_matrix_square mat = Some (map (\<lambda>n. f (mat ! n)) [0..<32])"
    by (simp add: gf2_matrix_square_def matrix_times [OF assms] those_map_Some)
  moreover have "represents (map (\<lambda>n. f (mat ! n)) [0..<32]) (f \<circ> f)"
    using assms by (simp add: represents_def linear_def)
  ultimately show ?thesis
    by blast
qed

lemma zero_bit_represents: "represents zero_bit_operator crc_bit"
proof -
  have "crc_bit (push_bit (Suc n) 1) = push_bit n 1" if "n < 31" for n
  proof -
    have "take_bit 1 (push_bit (Suc n) (1 :: u32)) = 0" "drop_bit 1 (push_bit (Suc n) (1 :: u32)) = push_bit n 1"
      using that by (intro bit_word_eqI; auto simp: bit_simps simp del: push_bit_Suc)+
    then show ?thesis
      using crc_bits_low_zero [of 1 "push_bit (Suc n) 1"] by simp
  qed
  then have "zero_bit_operator ! n = crc_bit (push_bit n 1)" if "n < 32" for n
    using that by (cases n) (simp_all add: zero_bit_operator_def crc_bit_alt del: push_bit_Suc)
  then show ?thesis
    by (simp add: represents_def linear_def crc_bit_xor zero_bit_operator_def)
qed

lemma funpow_comp: "(f ^^ n) \<circ> (f ^^ n) = f ^^ (2 * n)"
  by (simp add: mult_2 funpow_add)

lemma zeros_loop_power:
  assumes "represents mat (crc_bit ^^ n)"
  shows "\<exists>op. zeros_loop mat (2 ^ k) = Some op \<and> represents op (crc_bit ^^ (n * 2 ^ Suc k))"
  using assms
proof (induction k arbitrary: mat n rule: less_induct)
  case (less k)
  obtain ev where ev: "gf2_matrix_square mat = Some ev" "represents ev (crc_bit ^^ (2 * n))"
    using matrix_square [OF less.prems] by (auto simp: funpow_comp)
  obtain od where od: "gf2_matrix_square ev = Some od" "represents od (crc_bit ^^ (4 * n))"
    using matrix_square [OF ev(2)] by (auto simp: funpow_comp)
  consider "k = 0" | "k = 1" | j where "k = Suc (Suc j)"
    by (metis One_nat_def not0_implies_Suc)
  then show ?case
  proof cases
    case 3
    have "zeros_loop mat (2 ^ k) = zeros_loop od (2 ^ j)"
      using ev(1) od(1) by (simp add: zeros_loop.simps [of mat] 3)
    moreover have "crc_bit ^^ (4 * n * 2 ^ Suc j) = crc_bit ^^ (n * 2 ^ Suc k)"
      by (simp add: 3 ac_simps)
    ultimately show ?thesis
      using less.IH [OF _ od(2), of j] 3 by simp
  qed (use ev od in \<open>auto simp: zeros_loop.simps [of mat] mult.commute\<close>)
qed

lemma zeros_op_power: "\<exists>op. crc32c_zeros_op (2 ^ k) = Some op \<and> represents op (crc_bit ^^ (8 * 2 ^ k))"
proof -
  obtain ev where ev: "gf2_matrix_square zero_bit_operator = Some ev" "represents ev (crc_bit ^^ 2)"
    using matrix_square [OF zero_bit_represents] funpow_comp [of 1 crc_bit] by auto
  obtain od where od: "gf2_matrix_square ev = Some od" "represents od (crc_bit ^^ 4)"
    using matrix_square [OF ev(2)] funpow_comp [of 2 crc_bit] by auto
  show ?thesis
    using zeros_loop_power [OF od(2), of k] ev(1) od(1) by (simp add: crc32c_zeros_op_def)
qed

lemma byte_positions: "(c :: u32) = (c AND 0xff) XOR push_bit 8 (drop_bit 8 c AND 0xff) XOR push_bit 16 (drop_bit 16 c AND 0xff) XOR push_bit 24 (drop_bit 24 c)"
  unfolding byte_mask by (intro bit_word_eqI) (auto simp: bit_simps)

lemma shift_power:
  obtains zeros where "crc32c_zeros (2 ^ k) = Some zeros" "\<forall>c. crc32c_shift zeros c = Some ((crc_bit ^^ (8 * 2 ^ k)) c)"
proof -
  obtain op where op: "crc32c_zeros_op (2 ^ k) = Some op" "represents op (crc_bit ^^ (8 * 2 ^ k))"
    using zeros_op_power by blast
  let ?f = "crc_bit ^^ (8 * 2 ^ k)"
  define zeros where "zeros = map (\<lambda>j. map (\<lambda>n. ?f (push_bit (8 * j) (of_nat n))) [0..<256]) [0..<4]"
  have "crc32c_zeros (2 ^ k) = Some zeros"
    by (simp only: crc32c_zeros_def zeros_def op(1) bind.bind_lunit matrix_times [OF op(2)] those_map_Some)
  moreover have "crc32c_shift zeros c = Some (?f c)" for c
  proof -
    have high: "drop_bit 24 c AND 0xff = drop_bit 24 c"
      unfolding byte_mask by (intro bit_word_eqI) (auto simp: bit_simps dest: bit_imp_le_length)
    have "?f c = ?f (c AND 0xff) XOR ?f (push_bit 8 (drop_bit 8 c AND 0xff)) XOR ?f (push_bit 16 (drop_bit 16 c AND 0xff)) XOR ?f (push_bit 24 (drop_bit 24 c))"
      using arg_cong [OF byte_positions [of c], of ?f] by (simp only: crc_bits_xor)
    moreover have "table_at zeros j (unat n) = Some (?f (push_bit (8 * j) n))" if "j < 4" "unat n < 256" for j and n :: u32
      using table_at_map [OF that, of "\<lambda>j n. ?f (push_bit (8 * j) (of_nat n))"] by (simp add: zeros_def)
    moreover have "unat (drop_bit 24 c) < 256"
      using byte_below [of "drop_bit 24 c"] by (simp only: high)
    ultimately show ?thesis
      by (simp add: crc32c_shift_def byte_below)
  qed
  ultimately show thesis
    by (intro that allI)
qed

section \<open>The hardware version computes it\<close>

lemma crc32b_step: "crc32b (ucast c) b = ucast (crc_byte c b)"
  by (simp add: crc32b_def crc_byte_def ucast_xor)

lemma crc32q_step: "crc32q (ucast c) bs = ucast (foldl crc_byte c bs)"
  unfolding crc32q_def by (induction bs arbitrary: c) (simp_all add: crc32b_step)

lemma three_loop_fold:
  assumes "offset < block" "8 dvd block - offset" "block * 3 \<le> length buf"
  shows "three_loop block offset buf (ucast a, ucast b, ucast c) =
    Some (ucast (foldl crc_byte a (take (block - offset) (drop offset buf))), ucast (foldl crc_byte b (take (block - offset) (drop (block + offset) buf))),
     ucast (foldl crc_byte c (take (block - offset) (drop (block * 2 + offset) buf))))"
  using assms(1,2)
proof (induction "block - offset" arbitrary: offset a b c rule: less_induct)
  case less
  have eight: "8 \<le> block - offset"
    using less.prems by (auto dest: dvd_imp_le)
  have "word_at buf o' = Some (take 8 (drop o' buf))" if "o' \<in> {offset, block + offset, block * 2 + offset}" for o'
    using that eight assms(3) by (auto simp: word_at_def)
  then have w: "word_at buf offset = Some (take 8 (drop offset buf))" "word_at buf (block + offset) = Some (take 8 (drop (block + offset) buf))"
    "word_at buf (block * 2 + offset) = Some (take 8 (drop (block * 2 + offset) buf))"
    by simp_all
  note step = three_loop.simps [of block offset buf "ucast a" "ucast b" "ucast c", unfolded w bind.bind_lunit crc32q_step Let_def]
  have cut: "foldl crc_byte x (take (block - offset) (drop o' buf))
      = foldl crc_byte (foldl crc_byte x (take 8 (drop o' buf))) (take (block - (offset + 8)) (drop (o' + 8) buf))" for x o'
  proof -
    have "take (block - offset) (drop o' buf) = take 8 (drop o' buf) @ take (block - (offset + 8)) (drop 8 (drop o' buf))"
      using eight take_add [of 8 "block - (offset + 8)" "drop o' buf"] by simp
    then show ?thesis
      by (simp add: add.commute)
  qed
  show ?case
  proof (cases "offset + 8 < block")
    case True
    have "8 dvd block - (offset + 8)"
      using less.prems(2) by (metis diff_diff_left dvd_diff_nat dvd_refl)
    from less.hyps [OF _ True this] True show ?thesis
      by (simp only: step if_True cut [of _ offset] cut [of _ "block + offset"] cut [of _ "block * 2 + offset"] add.assoc)
  next
    case False
    then have "block - offset = 8"
      using eight less.prems(1) by linarith
    then show ?thesis
      using False by (simp only: step if_False)
  qed
qed

lemma block_step_fold:
  assumes z: "\<And>c. crc32c_shift zeros c = Some ((crc_bit ^^ (8 * block)) c)" and b: "0 < block" "8 dvd block" "block * 3 \<le> length buf"
  shows "block_step block zeros (ucast c) buf = Some (ucast (foldl crc_byte c (take (block * 3) buf)))"
proof -
  let ?d0 = "take block buf" and ?d1 = "take block (drop block buf)" and ?d2 = "take block (drop (block * 2) buf)"
  have l: "length ?d1 = block" "length ?d2 = block"
    using b(3) by auto
  have "take (block * 3) buf = ?d0 @ ?d1 @ ?d2"
    using take_add [of block "block + block" buf] take_add [of block block "drop block buf"] by (simp add: mult_2_right numeral_3_eq_3 add.assoc)
  then have "foldl crc_byte c (take (block * 3) buf) = (crc_bit ^^ (8 * block)) ((crc_bit ^^ (8 * block)) (foldl crc_byte c ?d0) XOR foldl crc_byte 0 ?d1) XOR foldl crc_byte 0 ?d2"
    using foldl_crc_byte_zeros [of "foldl crc_byte c ?d0" ?d1] foldl_crc_byte_zeros [of "foldl crc_byte (foldl crc_byte c ?d0) ?d1" ?d2] l by simp
  then show ?thesis
    using three_loop_fold [of 0 block buf c 0 0] b by (simp add: block_step_def z ucast_xor flip: ucast_xor(1))
qed

lemma block_loop_fold:
  assumes z: "\<And>c. crc32c_shift zeros c = Some ((crc_bit ^^ (8 * block)) c)" and b: "0 < block" "8 dvd block"
  shows "\<exists>c' bs'. block_loop block zeros (ucast c) bs = Some (ucast c', bs') \<and> foldl crc_byte c' bs' = foldl crc_byte c bs"
proof (induction "length bs" arbitrary: c bs rule: less_induct)
  case less
  show ?case
  proof (cases "block * 3 \<le> length bs")
    case True
    let ?c = "foldl crc_byte c (take (block * 3) bs)"
    have "foldl crc_byte ?c (drop (block * 3) bs) = foldl crc_byte c bs"
      by (metis append_take_drop_id foldl_append)
    moreover have "block_loop block zeros (ucast c) bs = block_loop block zeros (ucast ?c) (drop (block * 3) bs)"
      using True b block_step_fold [OF z b True, of c] by (simp add: block_loop.simps [of block zeros _ bs])
    ultimately show ?thesis
      using less [of "drop (block * 3) bs" ?c] True b(1) by auto
  qed (auto simp: block_loop.simps [of block zeros _ bs])
qed

lemma crc32c_hw_spec: "crc32c_hw crc a bs = Some (crc32c_spec crc bs)"
proof -
  obtain long where long: "crc32c_zeros (2 ^ 13) = Some long" "\<forall>c. crc32c_shift long c = Some ((crc_bit ^^ (8 * 2 ^ 13)) c)"
    using shift_power [of 13] .
  obtain short where short: "crc32c_zeros (2 ^ 8) = Some short" "\<forall>c. crc32c_shift short c = Some ((crc_bit ^^ (8 * 2 ^ 8)) c)"
    using shift_power [of 8] .
  have z: "crc32c_zeros 8192 = Some long" "crc32c_zeros 256 = Some short"
    using long(1) short(1) by simp_all
  obtain c1 bs1 where 1: "align_loop (\<lambda>c b. Some (crc32b c b)) a (ucast (crc XOR 0xffffffff)) bs = Some (ucast c1, bs1)"
      "foldl crc_byte c1 bs1 = foldl crc_byte (crc XOR 0xffffffff) bs"
    using align_loop_fold [of "\<lambda>c b. Some (crc32b c b)" a "crc XOR 0xffffffff" bs] crc32b_step by auto
  obtain c2 bs2 where 2: "block_loop 8192 long (ucast c1) bs1 = Some (ucast c2, bs2)" "foldl crc_byte c2 bs2 = foldl crc_byte c1 bs1"
    using block_loop_fold [OF long(2) [rule_format], of c1 bs1] by auto
  obtain c3 bs3 where 3: "block_loop 256 short (ucast c2) bs2 = Some (ucast c3, bs3)" "foldl crc_byte c3 bs3 = foldl crc_byte c2 bs2"
    using block_loop_fold [OF short(2) [rule_format], of c2 bs2] by auto
  obtain c4 bs4 where 4: "word_loop (\<lambda>c w. Some (crc32q c w)) (ucast c3) bs3 = Some (ucast c4, bs4)" "foldl crc_byte c4 bs4 = foldl crc_byte c3 bs3"
    using word_loop_fold [of "\<lambda>c w. Some (crc32q c w)" c3 bs3] crc32q_step by auto
  have 5: "byte_loop (\<lambda>c b. Some (crc32b c b)) (ucast c4) bs4 = Some (ucast (foldl crc_byte c4 bs4))"
    by (rule byte_loop_fold) (simp add: crc32b_step)
  show ?thesis
    unfolding crc32c_hw_def crc32c_spec_def Let_def z bind.bind_lunit 1(1)
    by (simp only: bind.bind_lunit prod.case 2(1) 3(1) 4(1) 5 ucast_xor 4(2) 3(2) 2(2) 1(2))
qed

text \<open>
  C38: The checksum function returns the CRC-32C of the data, for every start value, alignment and
  length, with the processor's instructions and without: the slicing by eight tables and the
  three-way computation with the matrix of appended zeros both compute what the bitwise definition
  does.  No access leaves a table or the data: such an access would have no result.
\<close>

theorem crc32c_correct: "crc32c sse42 crc next buf = Some (crc32c_spec crc buf)"
  by (simp add: crc32c_def crc32c_hw_spec crc32c_sw_spec)

end
