(* ===== verification/Messages.thy ===== *)
theory Messages
  imports ShmProtocol Fuse
begin

text \<open>
  The messages between client and server: \<^verbatim>\<open>stat.c\<close>, \<^verbatim>\<open>unlink.c\<close>, \<^verbatim>\<open>access.c\<close>, \<^verbatim>\<open>statfs.c\<close>, \<^verbatim>\<open>create.c\<close>, \<^verbatim>\<open>namemap.c\<close>,
  \<^verbatim>\<open>testmsg.c\<close> and \<^verbatim>\<open>serverstat.c\<close> under \<^verbatim>\<open>src/finesse/communications\<close>.  For each kind of message there are a
  function of the client that fills in and queues a request, one of the server that writes the
  response over it, and one of the client that waits for the response and reads it.

  A channel is a shared memory region with the parameters of its messages, the union of \<^verbatim>\<open>fincomm.h\<close>; a
  constructor of \<^verbatim>\<open>parameters\<close> is the member of the union that was written last.  Where the
  code writes no parameters the old ones stay.  The time out of attributes is a floating point number that is
  passed on as it is.
\<close>

section \<open>Types of messages\<close>

abbreviation (input) FINESSE_FUSE_REQ_STAT :: nat where "FINESSE_FUSE_REQ_STAT \<equiv> 44"
abbreviation (input) FINESSE_FUSE_REQ_UNLINK :: nat where "FINESSE_FUSE_REQ_UNLINK \<equiv> 50"
abbreviation (input) FINESSE_FUSE_REQ_STATFS :: nat where "FINESSE_FUSE_REQ_STATFS \<equiv> 65"
abbreviation (input) FINESSE_FUSE_REQ_ACCESS :: nat where "FINESSE_FUSE_REQ_ACCESS \<equiv> 70"
abbreviation (input) FINESSE_FUSE_REQ_CREATE :: nat where "FINESSE_FUSE_REQ_CREATE \<equiv> 71"
abbreviation (input) FINESSE_FUSE_RSP_NONE :: nat where "FINESSE_FUSE_RSP_NONE \<equiv> 512"
abbreviation (input) FINESSE_FUSE_RSP_ERR :: nat where "FINESSE_FUSE_RSP_ERR \<equiv> 513"
abbreviation (input) FINESSE_FUSE_RSP_CREATE :: nat where "FINESSE_FUSE_RSP_CREATE \<equiv> 515"
abbreviation (input) FINESSE_FUSE_RSP_ATTR :: nat where "FINESSE_FUSE_RSP_ATTR \<equiv> 516"
abbreviation (input) FINESSE_FUSE_RSP_STATFS :: nat where "FINESSE_FUSE_RSP_STATFS \<equiv> 523"
abbreviation (input) FINESSE_FUSE_RSP_MAX :: nat where "FINESSE_FUSE_RSP_MAX \<equiv> 536"
abbreviation (input) FINESSE_NATIVE_REQ_TEST :: nat where "FINESSE_NATIVE_REQ_TEST \<equiv> 1024"
abbreviation (input) FINESSE_NATIVE_REQ_SERVER_STAT :: nat where "FINESSE_NATIVE_REQ_SERVER_STAT \<equiv> 1025"
abbreviation (input) FINESSE_NATIVE_REQ_MAP :: nat where "FINESSE_NATIVE_REQ_MAP \<equiv> 1026"
abbreviation (input) FINESSE_NATIVE_REQ_MAP_RELEASE :: nat where "FINESSE_NATIVE_REQ_MAP_RELEASE \<equiv> 1027"
abbreviation (input) FINESSE_NATIVE_RSP_ERR :: nat where "FINESSE_NATIVE_RSP_ERR \<equiv> 1152"
abbreviation (input) FINESSE_NATIVE_RSP_TEST :: nat where "FINESSE_NATIVE_RSP_TEST \<equiv> 1153"
abbreviation (input) FINESSE_NATIVE_RSP_SERVER_STAT :: nat where "FINESSE_NATIVE_RSP_SERVER_STAT \<equiv> 1154"
abbreviation (input) FINESSE_NATIVE_RSP_MAP :: nat where "FINESSE_NATIVE_RSP_MAP \<equiv> 1155"
abbreviation (input) FINESSE_NATIVE_RSP_MAP_RELEASE :: nat where "FINESSE_NATIVE_RSP_MAP_RELEASE \<equiv> 1156"
abbreviation (input) FINESSE_NATIVE_RSP_MAX :: nat where "FINESSE_NATIVE_RSP_MAX \<equiv> 1159"
abbreviation (input) TEST_VERSION :: u64 where "TEST_VERSION \<equiv> 0x10"

type_synonym uuid_t = "u8 list"

record FinesseServerStat =
  StatVersion :: u16
  StatLength :: u16
  ClientConnectionCount :: u16
  ActiveNameMaps :: u32
  FuseRequests :: "u64 list"
  FuseResponses :: "u64 list"
  NativeRequests :: "u64 list"
  NativeResponses :: "u64 list"

datatype parameters =
    StatRequest uuid_t uuid_t int string
  | UnlinkRequest uuid_t string
  | AccessRequest uuid_t string u32
  | StatfsRequest string
  | FstatfsRequest uuid_t
  | CreateRequest uuid_t stat_attributes string
  | MapRequest uuid_t int string
  | MapReleaseRequest uuid_t
  | TestRequest u64
  | ServerStatRequest u16
  | AttrResponse stat_attributes u64
  | StatfsResponse statvfs
  | CreateResponse uuid_t u64 stat_attributes u64
  | MapResponse int uuid_t
  | MapReleaseResponse int
  | TestResponse u64
  | ServerStatResponse int FinesseServerStat

record channel =
  Base :: nat
  Region :: fincomm_shared_memory_region
  Params :: "nat \<Rightarrow> parameters"

text \<open>The server's table of connected clients.\<close>

type_synonym client_table = "nat \<Rightarrow> channel option"

section \<open>What all requests share\<close>

text \<open>The times are those of the two readings of the clock.\<close>

definition open_request :: "timespec \<Rightarrow> nat \<Rightarrow> nat \<Rightarrow> channel \<Rightarrow> (nat \<times> nat \<times> channel) option" where
  "open_request now cls ty c = do {
     (message, r) \<leftarrow> FinesseGetRequestBuffer now (Base c) cls ty (Region c);
     c_assert (message \<noteq> NULL);
     index \<leftarrow> message_slot (Base c) message;
     Some (message, index, c\<lparr>Region := r\<rparr>) }"

definition ready_request :: "timespec \<Rightarrow> nat \<Rightarrow> channel \<Rightarrow> (nat \<times> channel) option" where
  "ready_request now message c = do {
     (request_id, r) \<leftarrow> FinesseRequestReady now (Base c) message (Region c);
     c_assert (request_id \<noteq> 0);
     Some (message, c\<lparr>Region := r\<rparr>) }"

definition fill_request :: "timespec \<times> timespec \<Rightarrow> nat \<Rightarrow> nat \<Rightarrow> parameters \<Rightarrow> channel \<Rightarrow> (nat \<times> channel) option" where
  "fill_request nows cls ty p c = do {
     (message, index, c) \<leftarrow> open_request (fst nows) cls ty c;
     ready_request (snd nows) message (c\<lparr>Params := (Params c)(index := p)\<rparr>) }"

text \<open>
  A name is copied with its terminator to the given offset of the data.  The code compares its length with what is
  left of a page, but the data of a message begins 16 bytes into the page: the second condition is not
  tested, and a name that violates it is written over the beginning of the next message.
\<close>

definition name_fits :: "nat \<Rightarrow> string \<Rightarrow> unit option" where
  "name_fits offset name = do {
     c_assert (length name < SHM_PAGE_SIZE - offset);
     c_assert (offset + length name + 1 \<le> SHM_PAGE_SIZE - 16) }"

abbreviation (input) null_key :: uuid_t where "null_key \<equiv> replicate 16 0"

text \<open>A pointer to an identifier that may be null.\<close>

definition key_or_null :: "uuid_t option \<Rightarrow> uuid_t" where
  "key_or_null u = (case u of None \<Rightarrow> null_key | Some k \<Rightarrow> k)"

section \<open>What all responses share\<close>

definition FcGetSharedMemoryRegion :: "nat \<Rightarrow> client_table \<Rightarrow> channel option" where
  "FcGetSharedMemoryRegion index clients = do {
     c_assert (index < SHM_MESSAGE_COUNT);
     clients index }"

text \<open>The result of the block is an unsigned number; \<^verbatim>\<open>result\<close> is the one of the message, where it is written.\<close>

definition fill_response ::
  "timespec \<Rightarrow> nat \<Rightarrow> nat \<Rightarrow> int \<Rightarrow> nat \<Rightarrow> nat \<Rightarrow> int option \<Rightarrow> parameters option \<Rightarrow> client_table \<Rightarrow> client_table option" where
  "fill_response now client message block_result cls ty result p clients = do {
     c \<leftarrow> FcGetSharedMemoryRegion client clients;
     c_assert (message \<noteq> NULL);
     index \<leftarrow> message_slot (Base c) message;
     let b = Messages (Region c) ! index;
     c_assert (MessageType b = FINESSE_REQUEST);
     let msg = (Data b)\<lparr>Version := FINESSE_MESSAGE_VERSION, MessageClass := cls, MsgKind := ty,
       MsgResult := (case result of None \<Rightarrow> MsgResult (Data b) | Some r \<Rightarrow> r)\<rparr>;
     let r = update_message index (\<lambda>_. b\<lparr>BlockResult := block_result mod 2 ^ 32, MessageType := FINESSE_RESPONSE, Data := msg\<rparr>) (Region c);
     r \<leftarrow> FinesseResponseReady now (Base c) message r;
     Some (clients(client \<mapsto> c\<lparr>Region := r, Params := (case p of None \<Rightarrow> Params c | Some q \<Rightarrow> (Params c)(index := q))\<rparr>)) }"

text \<open>A client waits for the response.\<close>

definition take_response :: "timespec \<Rightarrow> nat \<Rightarrow> channel \<Rightarrow> (fincomm_message_block \<times> parameters \<times> channel) option" where
  "take_response now message c = do {
     c_assert (message \<noteq> NULL);
     (ready, r) \<leftarrow> FinesseGetResponse now (Base c) message True (Region c);
     c_assert ready;
     index \<leftarrow> message_slot (Base c) message;
     let b = Messages r ! index;
     c_assert (MessageType b = FINESSE_RESPONSE);
     Some (b, Params c index, c\<lparr>Region := r\<rparr>) }"

definition is_fuse_response :: "nat \<Rightarrow> fincomm_message_block \<Rightarrow> unit option" where
  "is_fuse_response ty b = do {
     c_assert (Version (Data b) = FINESSE_MESSAGE_VERSION);
     c_assert (MessageClass (Data b) = FINESSE_FUSE_MESSAGE);
     c_assert (MsgKind (Data b) = ty) }"

definition FinesseFreeClientResponse :: "timespec \<Rightarrow> nat \<Rightarrow> channel \<Rightarrow> fincomm_call_data \<Rightarrow> (channel \<times> fincomm_call_data) option" where
  "FinesseFreeClientResponse now message c cd = do {
     (r, cd) \<leftarrow> FinesseReleaseRequestBuffer now (Base c) message (Region c) cd;
     Some (c\<lparr>Region := r\<rparr>, cd) }"

definition FinesseGetReplyErrResponse :: "timespec \<Rightarrow> nat \<Rightarrow> channel \<Rightarrow> (errno \<times> int \<times> channel) option" where
  "FinesseGetReplyErrResponse now message c = do {
     (b, p, c) \<leftarrow> take_response now message c;
     is_fuse_response FINESSE_FUSE_RSP_ERR b;
     Some (0, MsgResult (Data b), c) }"

section \<open>Attributes\<close>

definition FinesseSendCommonStatRequest ::
  "timespec \<times> timespec \<Rightarrow> uuid_t option \<Rightarrow> uuid_t option \<Rightarrow> int \<Rightarrow> string option \<Rightarrow> channel \<Rightarrow> (nat \<times> channel) option" where
  "FinesseSendCommonStatRequest nows parent key flags path c = do {
     c_assert (path \<noteq> None \<or> key \<noteq> None);
     name \<leftarrow> (case path of None \<Rightarrow> Some [] | Some path \<Rightarrow> do { name_fits 164 path; Some path });
     fill_request nows FINESSE_FUSE_MESSAGE FINESSE_FUSE_REQ_STAT (StatRequest (key_or_null parent) (key_or_null key) flags name) c }"

definition FinesseSendStatResponse ::
  "timespec \<Rightarrow> nat \<Rightarrow> nat \<Rightarrow> stat_attributes option \<Rightarrow> u64 \<Rightarrow> int \<Rightarrow> client_table \<Rightarrow> client_table option" where
  "FinesseSendStatResponse now client message attr timeout result clients = do {
     st \<leftarrow> attr;
     fill_response now client message result FINESSE_FUSE_MESSAGE FINESSE_FUSE_RSP_ATTR (Some result) (Some (AttrResponse st timeout)) clients }"

definition FinesseGetStatResponse :: "timespec \<Rightarrow> nat \<Rightarrow> channel \<Rightarrow> (stat_attributes \<times> u64 \<times> int \<times> channel) option" where
  "FinesseGetStatResponse now message c = do {
     (b, p, c) \<leftarrow> take_response now message c;
     is_fuse_response FINESSE_FUSE_RSP_ATTR b;
     (case p of AttrResponse attr timeout \<Rightarrow> Some (attr, timeout, MsgResult (Data b), c) | _ \<Rightarrow> None) }"

section \<open>Removal of names\<close>

definition FinesseSendUnlinkRequest :: "timespec \<times> timespec \<Rightarrow> uuid_t \<Rightarrow> string \<Rightarrow> channel \<Rightarrow> (nat \<times> channel) option" where
  "FinesseSendUnlinkRequest nows parent name c = do {
     name_fits 144 name;
     fill_request nows FINESSE_FUSE_MESSAGE FINESSE_FUSE_REQ_UNLINK (UnlinkRequest parent name) c }"

definition FinesseSendUnlinkResponse :: "timespec \<Rightarrow> nat \<Rightarrow> nat \<Rightarrow> int \<Rightarrow> client_table \<Rightarrow> client_table option" where
  "FinesseSendUnlinkResponse now client message result clients =
     fill_response now client message result FINESSE_FUSE_MESSAGE FINESSE_FUSE_RSP_ERR None None clients"

definition FinesseGetUnlinkResponse :: "timespec \<Rightarrow> nat \<Rightarrow> channel \<Rightarrow> (errno \<times> channel) option" where
  "FinesseGetUnlinkResponse now message c = do {
     (b, p, c) \<leftarrow> take_response now message c;
     is_fuse_response FINESSE_FUSE_RSP_ERR b;
     Some (0, c) }"

section \<open>Access\<close>

text \<open>
  The parent is never sent, because the test for it compares two constants.  The field \<^verbatim>\<open>Mask\<close> is not written; it lies behind a name of
  one character, so a longer name is written over it: \<^verbatim>\<open>overlaid\<close> is what it holds then.
\<close>

definition FinesseSendAccessRequest :: "timespec \<times> timespec \<Rightarrow> uuid_t option \<Rightarrow> string \<Rightarrow> u32 \<Rightarrow> channel \<Rightarrow> (nat \<times> channel) option" where
  "FinesseSendAccessRequest nows parent path overlaid c = do {
     name_fits 144 path;
     fill_request nows FINESSE_FUSE_MESSAGE FINESSE_FUSE_REQ_ACCESS (AccessRequest null_key path overlaid) c }"

definition FinesseSendAccessResponse :: "timespec \<Rightarrow> nat \<Rightarrow> nat \<Rightarrow> int \<Rightarrow> client_table \<Rightarrow> client_table option" where
  "FinesseSendAccessResponse now client message result clients =
     fill_response now client message result FINESSE_FUSE_MESSAGE FINESSE_FUSE_RSP_ERR None None clients"

definition FinesseGetAccessResponse :: "timespec \<Rightarrow> nat \<Rightarrow> channel \<Rightarrow> (errno \<times> int \<times> channel) option" where
  "FinesseGetAccessResponse now message c = do {
     (b, p, c) \<leftarrow> take_response now message c;
     is_fuse_response FINESSE_FUSE_RSP_ERR b;
     Some (0, MsgResult (Data b), c) }"

section \<open>File system statistics\<close>

definition FinesseSendStatfsRequest :: "timespec \<times> timespec \<Rightarrow> string \<Rightarrow> channel \<Rightarrow> (nat \<times> channel) option" where
  "FinesseSendStatfsRequest nows path c = do {
     name_fits 132 path;
     fill_request nows FINESSE_FUSE_MESSAGE FINESSE_FUSE_REQ_STATFS (StatfsRequest path) c }"

definition FinesseSendStatfsResponse ::
  "timespec \<Rightarrow> nat \<Rightarrow> nat \<Rightarrow> statvfs option \<Rightarrow> int \<Rightarrow> client_table \<Rightarrow> client_table option" where
  "FinesseSendStatfsResponse now client message buf result clients = do {
     c_assert (result = 0 \<longrightarrow> buf \<noteq> None);
     fill_response now client message result FINESSE_FUSE_MESSAGE FINESSE_FUSE_RSP_STATFS None
       (if result = 0 then map_option StatfsResponse buf else None) clients }"

text \<open>The buffer is copied whatever the result was.\<close>

definition FinesseGetStatfsResponse :: "timespec \<Rightarrow> nat \<Rightarrow> channel \<Rightarrow> (errno \<times> parameters \<times> channel) option" where
  "FinesseGetStatfsResponse now message c = do {
     (b, p, c) \<leftarrow> take_response now message c;
     is_fuse_response FINESSE_FUSE_RSP_STATFS b;
     Some (0, p, c) }"

definition FinesseSendFstatfsRequest :: "timespec \<times> timespec \<Rightarrow> uuid_t \<Rightarrow> channel \<Rightarrow> (nat \<times> channel) option" where
  "FinesseSendFstatfsRequest nows key c = do {
     c_assert (\<exists>b\<in>set key. b \<noteq> 0);
     fill_request nows FINESSE_FUSE_MESSAGE FINESSE_FUSE_REQ_STATFS (FstatfsRequest key) c }"

definition FinesseSendFstatfsResponse where
  "FinesseSendFstatfsResponse = FinesseSendStatfsResponse"

definition FinesseGetFstatfsResponse where
  "FinesseGetFstatfsResponse = FinesseGetStatfsResponse"


section \<open>Creation\<close>

text \<open>No server function answers this request.\<close>

definition FinesseSendCreateRequest :: "timespec \<times> timespec \<Rightarrow> uuid_t \<Rightarrow> string \<Rightarrow> stat_attributes \<Rightarrow> channel \<Rightarrow> (nat \<times> channel) option" where
  "FinesseSendCreateRequest nows parent path attr c = do {
     name_fits 288 path;
     fill_request nows FINESSE_FUSE_MESSAGE FINESSE_FUSE_REQ_CREATE (CreateRequest parent attr path) c }"

definition FinesseSendCreateResponse ::
  "timespec \<Rightarrow> nat \<Rightarrow> nat \<Rightarrow> uuid_t \<Rightarrow> u64 \<Rightarrow> stat_attributes option \<Rightarrow> u64 \<Rightarrow> int \<Rightarrow> client_table \<Rightarrow> client_table option" where
  "FinesseSendCreateResponse now client message key generation attr timeout result clients = do {
     st \<leftarrow> attr;
     fill_response now client message 0 FINESSE_FUSE_MESSAGE FINESSE_FUSE_RSP_CREATE (Some result)
       (Some (CreateResponse key generation st timeout)) clients }"

definition FinesseGetCreateResponse ::
  "timespec \<Rightarrow> nat \<Rightarrow> channel \<Rightarrow> (uuid_t \<times> u64 \<times> stat_attributes \<times> u64 \<times> int \<times> channel) option" where
  "FinesseGetCreateResponse now message c = do {
     (b, p, c) \<leftarrow> take_response now message c;
     is_fuse_response FINESSE_FUSE_RSP_CREATE b;
     (case p of CreateResponse key generation attr timeout \<Rightarrow> Some (key, generation, attr, timeout, MsgResult (Data b), c) | _ \<Rightarrow> None) }"

section \<open>Names and identifiers\<close>

text \<open>The parent is filled in and then overwritten with zeros.\<close>

definition FinesseSendNameMapRequest ::
  "timespec \<times> timespec \<Rightarrow> uuid_t option \<Rightarrow> string \<Rightarrow> int \<Rightarrow> channel \<Rightarrow> (nat \<times> channel) option" where
  "FinesseSendNameMapRequest nows parent name flags c = do {
     name_fits 148 name;
     fill_request nows FINESSE_NATIVE_MESSAGE FINESSE_NATIVE_REQ_MAP (MapRequest null_key flags name) c }"

text \<open>The place of the identifier keeps what it had when there is none; that is left open as \<^verbatim>\<open>old_key\<close>.\<close>

definition FinesseSendNameMapResponse ::
  "timespec \<Rightarrow> nat \<Rightarrow> nat \<Rightarrow> uuid_t option \<Rightarrow> uuid_t \<Rightarrow> int \<Rightarrow> client_table \<Rightarrow> client_table option" where
  "FinesseSendNameMapResponse now client message MapKey old_key result clients = do {
     c_assert (result \<noteq> 0 \<or> MapKey \<noteq> None);
     fill_response now client message result FINESSE_NATIVE_MESSAGE FINESSE_NATIVE_RSP_MAP None
       (Some (MapResponse result (case MapKey of None \<Rightarrow> old_key | Some k \<Rightarrow> k))) clients }"

text \<open>A client that asks for a name that does not exist stops at the second of these assertions.\<close>

definition FinesseGetNameMapResponse :: "timespec \<Rightarrow> nat \<Rightarrow> channel \<Rightarrow> (uuid_t \<times> channel) option" where
  "FinesseGetNameMapResponse now message c = do {
     (b, p, c) \<leftarrow> take_response now message c;
     c_assert (BlockResult b = 0);
     c_assert (MessageClass (Data b) = FINESSE_NATIVE_MESSAGE);
     c_assert (MsgKind (Data b) = FINESSE_NATIVE_RSP_MAP);
     (case p of MapResponse result key \<Rightarrow> do {
        c_assert (result = 0);
        c_assert (\<exists>b\<in>set key. b \<noteq> 0);
        Some (key, c) } | _ \<Rightarrow> None) }"

definition FinesseSendNameMapReleaseRequest :: "timespec \<times> timespec \<Rightarrow> uuid_t \<Rightarrow> channel \<Rightarrow> (nat \<times> channel) option" where
  "FinesseSendNameMapReleaseRequest nows MapKey c =
     fill_request nows FINESSE_NATIVE_MESSAGE FINESSE_NATIVE_REQ_MAP_RELEASE (MapReleaseRequest MapKey) c"

definition FinesseSendNameMapReleaseResponse :: "timespec \<Rightarrow> nat \<Rightarrow> nat \<Rightarrow> int \<Rightarrow> client_table \<Rightarrow> client_table option" where
  "FinesseSendNameMapReleaseResponse now client message result clients =
     fill_response now client message result FINESSE_NATIVE_MESSAGE FINESSE_NATIVE_RSP_MAP_RELEASE None (Some (MapReleaseResponse result)) clients"

definition FinesseGetNameMapReleaseResponse :: "timespec \<Rightarrow> nat \<Rightarrow> channel \<Rightarrow> (errno \<times> channel) option" where
  "FinesseGetNameMapReleaseResponse now message c = do {
     (b, p, c) \<leftarrow> take_response now message c;
     c_assert (BlockResult b = 0);
     c_assert (MessageClass (Data b) = FINESSE_NATIVE_MESSAGE);
     c_assert (MsgKind (Data b) = FINESSE_NATIVE_RSP_MAP_RELEASE);
     c_assert (p = MapReleaseResponse 0);
     Some (0, c) }"

section \<open>Test messages and statistics of the server\<close>

definition FinesseSendTestRequest :: "timespec \<times> timespec \<Rightarrow> channel \<Rightarrow> (nat \<times> channel) option" where
  "FinesseSendTestRequest nows c = fill_request nows FINESSE_NATIVE_MESSAGE FINESSE_NATIVE_REQ_TEST (TestRequest TEST_VERSION) c"

definition FinesseSendTestResponse :: "timespec \<Rightarrow> nat \<Rightarrow> nat \<Rightarrow> int \<Rightarrow> client_table \<Rightarrow> client_table option" where
  "FinesseSendTestResponse now client message result clients =
     fill_response now client message result FINESSE_NATIVE_MESSAGE FINESSE_NATIVE_RSP_TEST None (Some (TestResponse TEST_VERSION)) clients"

definition FinesseGetTestResponse :: "timespec \<Rightarrow> nat \<Rightarrow> channel \<Rightarrow> (errno \<times> channel) option" where
  "FinesseGetTestResponse now message c = do {
     (b, p, c) \<leftarrow> take_response now message c;
     c_assert (p = TestResponse TEST_VERSION);
     Some (0, c) }"

abbreviation (input) FINESSE_SERVER_STAT_VERSION :: u16 where "FINESSE_SERVER_STAT_VERSION \<equiv> 1"
abbreviation (input) FINESSE_SERVER_STAT_LENGTH :: u16 where "FINESSE_SERVER_STAT_LENGTH \<equiv> 664"

definition FinesseSendServerStatRequest :: "timespec \<times> timespec \<Rightarrow> channel \<Rightarrow> (nat \<times> channel) option" where
  "FinesseSendServerStatRequest nows c = fill_request nows FINESSE_NATIVE_MESSAGE FINESSE_NATIVE_REQ_SERVER_STAT (ServerStatRequest 1) c"

definition FinesseSendServerStatResponse :: "timespec \<Rightarrow> nat \<Rightarrow> nat \<Rightarrow> FinesseServerStat \<Rightarrow> int \<Rightarrow> client_table \<Rightarrow> client_table option" where
  "FinesseSendServerStatResponse now client message stats result clients =
     fill_response now client message result FINESSE_NATIVE_MESSAGE FINESSE_NATIVE_RSP_SERVER_STAT None (Some (ServerStatResponse 0 stats)) clients"

definition FinesseGetServerStatResponse :: "timespec \<Rightarrow> nat \<Rightarrow> channel \<Rightarrow> (FinesseServerStat \<times> channel) option" where
  "FinesseGetServerStatResponse now message c = do {
     (b, p, c) \<leftarrow> take_response now message c;
     (case p of ServerStatResponse result stats \<Rightarrow> do {
        c_assert (StatVersion stats = FINESSE_SERVER_STAT_VERSION);
        c_assert (StatLength stats = FINESSE_SERVER_STAT_LENGTH);
        Some (stats, c) } | _ \<Rightarrow> None) }"

end
