(* ===== verification/MessageTrip.thy ===== *)
theory MessageTrip
  imports Messages
begin

text \<open>
  A message from the client to the server and back: what a client has queued in an idle channel is what the server takes,
  and what the server answers is what the client reads.
\<close>

text \<open>No message is on its way, and one is free.\<close>

definition channel_idle :: "channel \<Rightarrow> bool" where
  "channel_idle c \<longleftrightarrow> region_ok (Region c) \<and> length (Messages (Region c)) = SHM_MESSAGE_COUNT \<and> \<not> ShutdownRequested (Region c)
     \<and> RequestBitmap (Region c) = 0 \<and> ResponseBitmap (Region c) = 0 \<and> slots (MsgAllocationBitmap (Region c)) \<noteq> {..<SHM_MESSAGE_COUNT}"

text \<open>The server works on the request in message \<^verbatim>\<open>i\<close>.\<close>

definition working :: "channel \<Rightarrow> nat \<Rightarrow> nat \<Rightarrow> nat \<Rightarrow> parameters \<Rightarrow> bool" where
  "working c i cls ty p \<longleftrightarrow> i < SHM_MESSAGE_COUNT \<and> ShmSignature (Region c) \<and> length (Messages (Region c)) = SHM_MESSAGE_COUNT
     \<and> i \<notin> slots (ResponseBitmap (Region c)) \<and> Params c i = p
     \<and> (let b = Messages (Region c) ! i in MessageType b = FINESSE_REQUEST \<and> MsgRequestId b \<noteq> 0 \<and> MessageClass (Data b) = cls \<and> MsgKind (Data b) = ty)"

lemma request_taken:
  assumes c: "channel_idle c" and ty: "request_type_ok cls ty" and now: "clock_ok (fst nows)"
  shows "\<exists>i c' r. fill_request nows cls ty p c = Some (message_address (Base c) i, c') \<and> Base c' = Base c
    \<and> FinesseGetReadyRequest later (Base c) rnd (Region c') = Some (0, message_address (Base c) i, r) \<and> working (c'\<lparr>Region := r\<rparr>) i cls ty p"
proof -
  let ?r = "Region c"
  note I = c [unfolded channel_idle_def]
  obtain i r where a: "allocate_slot ?r = Some (Some i, r)" "i < 64" "r = ?r\<lparr>MsgAllocationBitmap := MsgAllocationBitmap ?r OR make_mask64 i, LastBufferAllocated := i\<rparr>"
    using allocate_slot_spec [of ?r] I by auto
  obtain m where m: "start_message (fst nows) cls ty (Messages r ! i) = Some m" "MessageType m = FINESSE_REQUEST" "MessageClass (Data m) = cls" "MsgKind (Data m) = ty"
    using ty by (simp add: start_message_def FincommCallStatRequestStart_def Let_def)
  obtain rid nxt' where n: "get_request_number (RequestId ?r) = (rid, nxt')" "rid \<noteq> 0"
    by (cases "RequestId ?r = 0") (auto simp: get_request_number_spec)
  let ?r1 = "update_message i (update_data (FincommCallStatQueueRequest (snd nows))) (update_message i (\<lambda>m. m\<lparr>MsgRequestId := rid\<rparr>)
    ((update_message i (\<lambda>_. m) r)\<lparr>RequestId := nxt'\<rparr>))"
  let ?r2 = "?r1\<lparr>RequestBitmap := make_mask64 i\<rparr>"
  have l: "i < length (Messages ?r)" "ShmSignature ?r" "RequestBitmap ?r = 0"
    using I a(2) by (auto simp: region_ok_def)
  have "RequestId (update_message i (\<lambda>_. m) r) = RequestId ?r"
    by (simp add: update_message_def a(3))
  then have f: "fill_request nows cls ty p c = Some (message_address (Base c) i, c\<lparr>Region := ?r2, Params := (Params c)(i := p)\<rparr>)"
    using a(1,2) m(1) n l by (simp add: fill_request_def open_request_def ready_request_def FinesseGetRequestBuffer_def FinesseRequestReady_def and_mask64_iff a(3))
  have "slots (make_mask64 i) = {i}"
    using slots_set [OF a(2), of 0] by simp
  then have "find_request (rnd mod 64) (make_mask64 i) = Some i"
    using find_request_None [of "rnd mod 64" "make_mask64 i"] find_request_set [of "rnd mod 64" "make_mask64 i"]
    by (cases "find_request (rnd mod 64) (make_mask64 i)") auto
  then have "FinesseGetReadyRequest later (Base c) rnd ?r2
    = Some (0, message_address (Base c) i, update_message i (update_data (FincommCallStatDequeueRequest later)) (?r2\<lparr>RequestBitmap := 0\<rparr>))"
    using I n(2) l \<open>slots (make_mask64 i) = {i}\<close> by (auto simp: FinesseGetReadyRequest_def Let_def a(3))
  then show ?thesis
    using f m(2-4) n(2) l a(2) I
    by (intro exI [of _ i]) (auto simp: working_def Let_def a(3) update_data_def FincommCallStatQueueRequest_def FincommCallStatDequeueRequest_def)
qed

text \<open>What the client finds once the server has answered.\<close>

definition reads :: "channel \<Rightarrow> nat \<Rightarrow> nat \<Rightarrow> nat \<Rightarrow> int option \<Rightarrow> parameters \<Rightarrow> bool" where
  "reads c i cls ty result p \<longleftrightarrow> (\<forall>later. \<exists>b c'. take_response later (message_address (Base c) i) c = Some (b, p, c')
     \<and> Version (Data b) = FINESSE_MESSAGE_VERSION \<and> MessageClass (Data b) = cls \<and> MsgKind (Data b) = ty \<and> (\<forall>r. result = Some r \<longrightarrow> MsgResult (Data b) = r))"

lemma response_taken:
  assumes w: "working c i cls ty p" and c: "clients client = Some c" "client < SHM_MESSAGE_COUNT"
  shows "\<exists>c'. fill_response now client (message_address (Base c) i) res cls' ty' result p' clients = Some (clients(client \<mapsto> c')) \<and> Base c' = Base c
    \<and> reads c' i cls' ty' result (case p' of None \<Rightarrow> p | Some q \<Rightarrow> q)"
proof -
  let ?b = "Messages (Region c) ! i"
  let ?m = "(Data ?b)\<lparr>Version := FINESSE_MESSAGE_VERSION, MessageClass := cls', MsgKind := ty', MsgResult := (case result of None \<Rightarrow> MsgResult (Data ?b) | Some r \<Rightarrow> r)\<rparr>"
  let ?r = "update_message i (update_data (FincommCallStatQueueResponse now))
    (update_message i (\<lambda>_. ?b\<lparr>BlockResult := res mod 2 ^ 32, MessageType := FINESSE_RESPONSE, Data := ?m\<rparr>) (Region c))"
  let ?c = "c\<lparr>Region := ?r\<lparr>ResponseBitmap := ResponseBitmap (Region c) OR make_mask64 i\<rparr>, Params := (case p' of None \<Rightarrow> Params c | Some q \<Rightarrow> (Params c)(i := q))\<rparr>"
  note W = w [unfolded working_def Let_def]
  have "fill_response now client (message_address (Base c) i) res cls' ty' result p' clients = Some (clients(client \<mapsto> ?c))"
    using W c by (simp add: fill_response_def FcGetSharedMemoryRegion_def FinesseResponseReady_def and_mask64_iff Let_def)
  moreover have "reads ?c i cls' ty' result (case p' of None \<Rightarrow> p | Some q \<Rightarrow> q)"
    using W by (auto simp: reads_def take_response_def FinesseGetResponse_def and_mask64_iff Let_def update_data_def FincommCallStatQueueResponse_def
        FincommCallStatDequeueResponse_def split: option.splits)
  ultimately show ?thesis
    by (intro exI [of _ ?c]) simp
qed

end
