(* ===== verification/FuseCall.thy ===== *)
theory FuseCall
  imports Messages FastLookup
begin

text \<open>
  How the server calls the file system: the requests it makes for itself (\<^verbatim>\<open>finesse-req.c\<close> and \<^verbatim>\<open>util.c\<close> under
  \<^verbatim>\<open>src/finesse/server\<close>) and the replies that the FUSE library hands back to it instead of
  sending them to the kernel (\<^verbatim>\<open>src/lib/fuse_lowlevel.c\<close>, \<^verbatim>\<open>finesse_send_reply_iov\<close> in \<^verbatim>\<open>src/lib/finesse.c\<close>).

  A request has a counter, the captured reply and a flag that the reply has come.  Its owner
  takes a second count, calls the file system, waits for the flag and gives the count back; the reply
  gives back the other.  A request without counts is destroyed, and using it then has no result.
  The operations of the file system are a table of functions, \<^verbatim>\<open>finesse_original_ops\<close>; each gives the replies that it sends.
  Allocation of memory does not fail, and the device number of an inode is not modelled.
\<close>

section \<open>The session and the server\<close>

record 's fuse_lowlevel_ops =
  op_lookup :: "u64 \<Rightarrow> string \<Rightarrow> 's \<Rightarrow> (fuse_reply list \<times> 's) option"
  op_forget :: "u64 \<Rightarrow> u64 \<Rightarrow> 's \<Rightarrow> (fuse_reply list \<times> 's) option"
  op_getattr :: "u64 \<Rightarrow> 's \<Rightarrow> (fuse_reply list \<times> 's) option"
  op_unlink :: "u64 \<Rightarrow> string \<Rightarrow> 's \<Rightarrow> (fuse_reply list \<times> 's) option"
  op_access :: "u64 \<Rightarrow> u32 \<Rightarrow> 's \<Rightarrow> (fuse_reply list \<times> 's) option"
  op_statfs :: "u64 \<Rightarrow> 's \<Rightarrow> (fuse_reply list \<times> 's) option"

text \<open>
  Of the session the server uses the mount point and the minor version of the protocol;
  \<^verbatim>\<open>connected\<close> says that the server handle is not null.  \<^verbatim>\<open>resent_timeout\<close> is the computation with
  floating point numbers that the server does on the time out of a reply.
\<close>

record 's fuse_session =
  mountpoint :: string
  proto_minor :: nat
  connected :: bool
  finesse_original_ops :: "'s fuse_lowlevel_ops"
  resent_timeout :: "u64 \<Rightarrow> u64"

text \<open>The state of the server; new identifiers come from the operating system.\<close>

record 's server =
  FileSystem :: 's
  ObjectTable :: "bool \<times> lookup_state"
  Clients :: client_table
  finesse_alloc_count :: u64
  finesse_free_count :: u64
  new_uuid :: "nat \<Rightarrow> uuid_t"
  uuid_count :: nat
  FinesseServerStats :: FinesseServerStat

section \<open>Replies\<close>

record fuse_attr =
  attr_ino :: u64
  attr_size :: u64
  attr_blocks :: u64
  attr_atime :: u64
  attr_mtime :: u64
  attr_ctime :: u64
  attr_atimensec :: u32
  attr_mtimensec :: u32
  attr_ctimensec :: u32
  attr_mode :: u32
  attr_nlink :: u32
  attr_uid :: u32
  attr_gid :: u32
  attr_blksize :: u32

record fuse_entry_out =
  nodeid :: u64
  generation :: u64
  entry_valid :: u64
  entry_attr_valid :: u64
  entry_attr :: fuse_attr

record fuse_attr_out =
  attr_valid :: u64
  out_attr :: fuse_attr

record fuse_kstatfs =
  kblocks :: u64
  kbfree :: u64
  kbavail :: u64
  kfiles :: u64
  kffree :: u64
  kbsize :: u32
  knamelen :: u32
  kfrsize :: u32

text \<open>What follows the header of a reply, and how many bytes of it.\<close>

datatype reply_data = entry_out fuse_entry_out | attr_out fuse_attr_out | statfs_out fuse_kstatfs

type_synonym captured = "int \<times> (nat \<times> reply_data) option"

definition convert_stat :: "stat_attributes \<Rightarrow> fuse_attr" where
  "convert_stat st = \<lparr>attr_ino = st_ino st, attr_size = word_of_int (st_size st), attr_blocks = word_of_int (st_blocks st),
     attr_atime = word_of_int (tv_sec (st_atim st)), attr_mtime = word_of_int (tv_sec (st_mtim st)), attr_ctime = word_of_int (tv_sec (st_ctim st)),
     attr_atimensec = word_of_int (tv_nsec (st_atim st)), attr_mtimensec = word_of_int (tv_nsec (st_mtim st)), attr_ctimensec = word_of_int (tv_nsec (st_ctim st)),
     attr_mode = st_mode st, attr_nlink = ucast (st_nlink st), attr_uid = st_uid st, attr_gid = st_gid st,
     attr_blksize = word_of_int (st_blksize st)\<rparr>"

definition convert_statfs :: "statvfs \<Rightarrow> fuse_kstatfs" where
  "convert_statfs st = \<lparr>kblocks = f_blocks st, kbfree = f_bfree st, kbavail = f_bavail st, kfiles = f_files st, kffree = f_ffree st,
     kbsize = ucast (f_bsize st), knamelen = ucast (f_namemax st), kfrsize = ucast (f_frsize st)\<rparr>"

text \<open>The time outs are kept as they are; the code splits them into seconds and nanoseconds.\<close>

definition fill_entry :: "fuse_entry_param \<Rightarrow> fuse_entry_out" where
  "fill_entry e = \<lparr>nodeid = fep_ino e, generation = fep_generation e, entry_valid = fep_entry_timeout e,
     entry_attr_valid = fep_attr_timeout e, entry_attr = convert_stat (fep_attr e)\<rparr>"

section \<open>Requests of the server\<close>

record finesse_req =
  ctr :: int
  iov :: "captured option"
  completed :: bool

definition FinesseAllocFuseRequest :: "'s server \<Rightarrow> finesse_req \<times> 's server" where
  "FinesseAllocFuseRequest s =
     (\<lparr>ctr = 1, iov = None, completed = False\<rparr>, s\<lparr>finesse_alloc_count := finesse_alloc_count s + 1\<rparr>)"

text \<open>Giving a count back; the last one destroys the request with the captured reply.\<close>

definition FinesseFreeFuseRequest :: "finesse_req \<Rightarrow> 's server \<Rightarrow> (finesse_req \<times> 's server) option" where
  "FinesseFreeFuseRequest req s = do {
     c_assert (0 < ctr req);
     let req = req\<lparr>ctr := ctr req - 1\<rparr>;
     Some (req, if ctr req = 0 then s\<lparr>finesse_free_count := finesse_free_count s + 1\<rparr> else s) }"

definition FinesseSignalFuseRequestCompletion :: "finesse_req \<Rightarrow> finesse_req option" where
  "FinesseSignalFuseRequestCompletion req = do {
     c_assert (\<not> completed req);
     Some (req\<lparr>completed := True\<rparr>) }"

text \<open>A thread that waits for a reply that never comes has no result.\<close>

definition FinesseWaitForFuseRequestCompletion :: "finesse_req \<Rightarrow> unit option" where
  "FinesseWaitForFuseRequestCompletion req = c_assert (completed req)"

definition finesse_send_reply_iov :: "captured \<Rightarrow> finesse_req \<Rightarrow> finesse_req option" where
  "finesse_send_reply_iov reply req = do {
     c_assert (- 1000 < fst reply \<and> fst reply \<le> 0);
     c_assert (0 < ctr req);
     c_assert (iov req = None);
     FinesseSignalFuseRequestCompletion (req\<lparr>iov := Some reply\<rparr>) }"

abbreviation (input) ERANGE :: errno where "ERANGE \<equiv> 34"

definition fuse_send_reply_iov_nofree :: "captured \<Rightarrow> finesse_req \<Rightarrow> finesse_req option" where
  "fuse_send_reply_iov_nofree = (\<lambda>(err, data) req.
     finesse_send_reply_iov (if err \<le> - 1000 \<or> 0 < err then - ERANGE else err, data) req)"

definition send_reply_iov :: "captured \<Rightarrow> finesse_req \<Rightarrow> 's server \<Rightarrow> (finesse_req \<times> 's server) option" where
  "send_reply_iov reply req s = do {
     req \<leftarrow> fuse_send_reply_iov_nofree reply req;
     FinesseFreeFuseRequest req s }"

definition fuse_reply_err :: "errno \<Rightarrow> finesse_req \<Rightarrow> 's server \<Rightarrow> (finesse_req \<times> 's server) option" where
  "fuse_reply_err err = send_reply_iov (- err, None)"

abbreviation (input) FUSE_COMPAT_ENTRY_OUT_SIZE :: nat where "FUSE_COMPAT_ENTRY_OUT_SIZE \<equiv> 120"
abbreviation (input) FUSE_ENTRY_OUT_SIZE :: nat where "FUSE_ENTRY_OUT_SIZE \<equiv> 128"
abbreviation (input) FUSE_COMPAT_ATTR_OUT_SIZE :: nat where "FUSE_COMPAT_ATTR_OUT_SIZE \<equiv> 96"
abbreviation (input) FUSE_ATTR_OUT_SIZE :: nat where "FUSE_ATTR_OUT_SIZE \<equiv> 104"
abbreviation (input) FUSE_COMPAT_STATFS_SIZE :: nat where "FUSE_COMPAT_STATFS_SIZE \<equiv> 48"
abbreviation (input) FUSE_STATFS_OUT_SIZE :: nat where "FUSE_STATFS_OUT_SIZE \<equiv> 80"

definition fuse_reply_entry :: "'s fuse_session \<Rightarrow> fuse_entry_param \<Rightarrow> finesse_req \<Rightarrow> 's server \<Rightarrow> (finesse_req \<times> 's server) option" where
  "fuse_reply_entry se e =
     (if fep_ino e = 0 \<and> proto_minor se < 4 then fuse_reply_err ENOENT
      else send_reply_iov (0, Some (if proto_minor se < 9 then FUSE_COMPAT_ENTRY_OUT_SIZE else FUSE_ENTRY_OUT_SIZE, entry_out (fill_entry e))))"

definition fuse_reply_attr :: "'s fuse_session \<Rightarrow> stat_attributes \<Rightarrow> u64 \<Rightarrow> finesse_req \<Rightarrow> 's server \<Rightarrow> (finesse_req \<times> 's server) option" where
  "fuse_reply_attr se st timeout =
     send_reply_iov (0, Some (if proto_minor se < 9 then FUSE_COMPAT_ATTR_OUT_SIZE else FUSE_ATTR_OUT_SIZE,
       attr_out \<lparr>attr_valid = timeout, out_attr = convert_stat st\<rparr>))"

definition fuse_reply_statfs :: "'s fuse_session \<Rightarrow> statvfs \<Rightarrow> finesse_req \<Rightarrow> 's server \<Rightarrow> (finesse_req \<times> 's server) option" where
  "fuse_reply_statfs se st =
     send_reply_iov (0, Some (if proto_minor se < 4 then FUSE_COMPAT_STATFS_SIZE else FUSE_STATFS_OUT_SIZE, statfs_out (convert_statfs st)))"

text \<open>No reply is captured, and no one is told.\<close>

definition fuse_reply_none :: "finesse_req \<Rightarrow> 's server \<Rightarrow> (finesse_req \<times> 's server) option" where
  "fuse_reply_none = FinesseFreeFuseRequest"

text \<open>The operations that the server calls send no other replies than these.\<close>

fun fuse_reply_with :: "'s fuse_session \<Rightarrow> fuse_reply \<Rightarrow> finesse_req \<Rightarrow> 's server \<Rightarrow> (finesse_req \<times> 's server) option" where
  "fuse_reply_with se (reply_err err) = fuse_reply_err err"
| "fuse_reply_with se (reply_entry e) = fuse_reply_entry se e"
| "fuse_reply_with se (reply_attr st timeout) = fuse_reply_attr se st timeout"
| "fuse_reply_with se (reply_statfs st) = fuse_reply_statfs se st"
| "fuse_reply_with se reply_none = fuse_reply_none"
| "fuse_reply_with se _ = (\<lambda>req s. None)"

fun deliver :: "'s fuse_session \<Rightarrow> fuse_reply list \<Rightarrow> finesse_req \<Rightarrow> 's server \<Rightarrow> (finesse_req \<times> 's server) option" where
  "deliver se [] req s = Some (req, s)"
| "deliver se (r # rs) req s = do {
     (req, s) \<leftarrow> fuse_reply_with se r req s;
     deliver se rs req s }"

section \<open>Calling the file system\<close>

text \<open>From the second count to the end of the wait; the callers allocate the request before and free it afterwards.\<close>

definition call_file_system ::
  "'s fuse_session \<Rightarrow> ('s \<Rightarrow> (fuse_reply list \<times> 's) option) \<Rightarrow> finesse_req \<Rightarrow> 's server \<Rightarrow> (finesse_req \<times> 's server) option" where
  "call_file_system se op req s = do {
     let req = req\<lparr>ctr := ctr req + 1\<rparr>;
     (replies, f) \<leftarrow> op (FileSystem s);
     (req, s) \<leftarrow> deliver se replies req (s\<lparr>FileSystem := f\<rparr>);
     FinesseWaitForFuseRequestCompletion req;
     Some (req, s) }"

text \<open>The reply is there once the wait has ended, and the request is still allocated.\<close>

definition captured_reply :: "finesse_req \<Rightarrow> captured option" where
  "captured_reply req = do {
     c_assert (0 < ctr req);
     iov req }"

definition FinesseReleaseInode :: "'s fuse_session \<Rightarrow> u64 \<Rightarrow> 's server \<Rightarrow> 's server option" where
  "FinesseReleaseInode se ino s = do {
     let (req, s) = FinesseAllocFuseRequest s;
     (replies, f) \<leftarrow> op_forget (finesse_original_ops se) ino 1 (FileSystem s);
     (req, s) \<leftarrow> deliver se replies req (s\<lparr>FileSystem := f\<rparr>);
     Some s }"

section \<open>Objects and identifiers\<close>

definition lookup_object :: "uuid_t \<Rightarrow> 's server \<Rightarrow> (addr \<times> 's server) option" where
  "lookup_object u s = do {
     (a, tab) \<leftarrow> finesse_object_lookup_by_uuid u (ObjectTable s);
     Some (a, s\<lparr>ObjectTable := (True, tab)\<rparr>) }"

definition release_object :: "addr \<Rightarrow> 's server \<Rightarrow> 's server option" where
  "release_object a s = do {
     tab \<leftarrow> finesse_object_release a (ObjectTable s);
     Some (s\<lparr>ObjectTable := (True, tab)\<rparr>) }"

definition create_object :: "u64 \<Rightarrow> uuid_t \<Rightarrow> 's server \<Rightarrow> (addr \<times> 's server) option" where
  "create_object ino u s = do {
     (a, tab) \<leftarrow> finesse_object_create ino u (ObjectTable s);
     Some (a, s\<lparr>ObjectTable := (True, tab)\<rparr>) }"

definition object_at :: "addr \<Rightarrow> 's server \<Rightarrow> finesse_object option" where
  "object_at a s = map_option FastLookup.Object (Entries (snd (ObjectTable s)) a)"

definition uuid_generate_time_safe :: "'s server \<Rightarrow> uuid_t \<times> 's server" where
  "uuid_generate_time_safe s = (new_uuid s (uuid_count s), s\<lparr>uuid_count := uuid_count s + 1\<rparr>)"

end
