(* ===== verification/PathName.thy ===== *)
theory PathName
  imports FuseCall
begin

text \<open>
  How the server finds the inode of a path: the lookup of one name (\<^verbatim>\<open>FinesseServerInternalNameLookup\<close> in
  \<^verbatim>\<open>src/finesse/server/namemap.c\<close>) and the resolution of a path name in \<^verbatim>\<open>src/finesse/server/pathname.c\<close>, which
  asks the file system for one component after the other.  The copy of the path that the code cuts up with
  terminators is kept whole here; a component is what lies before the next separator.
\<close>

section \<open>Looking up one name\<close>

record statx =
  stx_blksize :: u32
  stx_nlink :: u32
  stx_uid :: u32
  stx_gid :: u32
  stx_mode :: u16
  stx_ino :: u64
  stx_size :: u64
  stx_blocks :: u64
  stx_atime :: "u64 \<times> u32"
  stx_ctime :: "u64 \<times> u32"
  stx_mtime :: "u64 \<times> u32"

definition zero_statx :: statx where
  "zero_statx = \<lparr>stx_blksize = 0, stx_nlink = 0, stx_uid = 0, stx_gid = 0, stx_mode = 0, stx_ino = 0, stx_size = 0, stx_blocks = 0,
     stx_atime = (0, 0), stx_ctime = (0, 0), stx_mtime = (0, 0)\<rparr>"

definition statx_of :: "fuse_entry_out \<Rightarrow> statx" where
  "statx_of arg = (let attr = entry_attr arg in \<lparr>stx_blksize = attr_blksize attr, stx_nlink = attr_nlink attr, stx_uid = attr_uid attr, stx_gid = attr_gid attr,
     stx_mode = ucast (attr_mode attr), stx_ino = nodeid arg, stx_size = attr_size attr, stx_blocks = attr_blocks attr,
     stx_atime = (attr_atime attr, attr_atimensec attr), stx_ctime = (attr_ctime attr, attr_ctimensec attr), stx_mtime = (attr_mtime attr, attr_mtimensec attr)\<rparr>)"

text \<open>
  The status and the attributes in a captured reply.  A reply that is too short leaves the attributes
  zero and gives the status of the header; data of another kind is not looked at by the model.
\<close>

fun entry_reply :: "captured \<Rightarrow> (int \<times> statx) option" where
  "entry_reply (err, data) =
     (case data of
        None \<Rightarrow> Some (err, zero_statx)
      | Some (len, d) \<Rightarrow>
          if err \<noteq> 0 \<or> len < FUSE_ENTRY_OUT_SIZE then Some (err, zero_statx)
          else (case d of
              entry_out arg \<Rightarrow> do { c_assert (nodeid arg = attr_ino (entry_attr arg)); Some (0, statx_of arg) }
            | _ \<Rightarrow> None))"

definition FinesseServerInternalNameLookup :: "'s fuse_session \<Rightarrow> u64 \<Rightarrow> string \<Rightarrow> 's server \<Rightarrow> (int \<times> statx \<times> 's server) option" where
  "FinesseServerInternalNameLookup se parent name s = do {
     c_assert (CHR ''/'' \<notin> set name);
     let (req, s) = FinesseAllocFuseRequest s;
     (req, s) \<leftarrow> call_file_system se (op_lookup (finesse_original_ops se) parent name) req s;
     reply \<leftarrow> captured_reply req;
     (status, attr) \<leftarrow> entry_reply reply;
     (req, s) \<leftarrow> FinesseFreeFuseRequest req s;
     Some (status, attr, s) }"

section \<open>The parameters of a resolution\<close>

text \<open>
  The cursor points into the path, or, after one of the failures, into the working copy of the path, which is freed.
\<close>

datatype cursor = NoCursor | InPath nat | Dangling

record path_parameters =
  FollowSymlinks :: bool
  CheckSecurity :: bool
  GetFinalParent :: bool
  ParentIno :: u64
  PathString :: string
  Cursor :: cursor
  FinalName :: cursor
  StatxBuffer :: statx
  PathNameBufferLength :: nat

definition FinesseAllocateServerPathResolutionParameters :: "u64 \<Rightarrow> string \<Rightarrow> int \<Rightarrow> path_parameters" where
  "FinesseAllocateServerPathResolutionParameters parent path flags =
     \<lparr>FollowSymlinks = odd flags, CheckSecurity = odd (flags div 2), GetFinalParent = odd (flags div 4), ParentIno = parent, PathString = path,
      Cursor = NoCursor, FinalName = NoCursor, StatxBuffer = zero_statx, PathNameBufferLength = length path + 1\<rparr>"

section \<open>Resolution\<close>

abbreviation (input) slash :: char where "slash \<equiv> CHR ''/''"

text \<open>The position of the last separator.\<close>

definition rindex :: "string \<Rightarrow> nat option" where
  "rindex path = (if slash \<in> set path then Some (length path - Suc (length (takeWhile (\<lambda>c. c \<noteq> slash) (rev path)))) else None)"

definition S_ISLNK :: "u32 \<Rightarrow> bool" where
  "S_ISLNK m \<longleftrightarrow> m AND S_IFMT = S_IFLNK"

definition not_found :: "int \<Rightarrow> unit option" where
  "not_found status = c_assert (status = ENOENT \<or> status = - ENOENT)"

text \<open>
  The loop over the components before the last one.  The result is the status, the position in the
  path and the inode that was reached.  At a symbolic link the code looks up once more and stops.
\<close>

function resolve_loop ::
  "'s fuse_session \<Rightarrow> string \<Rightarrow> nat \<Rightarrow> int \<Rightarrow> nat \<Rightarrow> u64 \<Rightarrow> path_parameters \<Rightarrow> 's server \<Rightarrow> (int \<times> nat \<times> u64 \<times> path_parameters \<times> 's server) option" where
  "resolve_loop se workpath workend status workcurrent ino p s =
     (if workcurrent = workend then Some (status, workcurrent, ino, p, s)
      else do {
        let rest = drop workcurrent workpath;
        let name = takeWhile (\<lambda>c. c \<noteq> slash) rest;
        c_assert (rest = [] \<or> hd rest \<noteq> slash);
        c_assert (length name < length rest);
        c_assert (\<not> CheckSecurity p);
        (status, attr, s) \<leftarrow> FinesseServerInternalNameLookup se ino name s;
        let p = p\<lparr>StatxBuffer := attr\<rparr>;
        if status \<noteq> 0 then do {
          not_found status;
          Some (status, workcurrent, ino, p\<lparr>Cursor := InPath workcurrent, ParentIno := ino\<rparr>, s) }
        else do {
          c_assert (\<not> S_ISLNK (ucast (stx_mode attr)));
          c_assert (stx_ino attr \<noteq> 0);
          resolve_loop se workpath workend status (workcurrent + length name + 1) (stx_ino attr) p s } })"
  by auto
termination
  by (relation "measure (\<lambda>(se, workpath, workend, status, workcurrent, ino, p, s). length workpath - workcurrent)") (auto split: if_splits)

declare resolve_loop.simps [simp del]

definition strip_mountpoint :: "'s fuse_session \<Rightarrow> path_parameters \<Rightarrow> string" where
  "strip_mountpoint se p =
     (let mp_length = length (mountpoint se);
          mp_length = (if PathNameBufferLength p < mp_length \<or> take mp_length (PathString p) \<noteq> mountpoint se then 0 else mp_length)
      in drop mp_length (PathString p))"

definition FinesseServerResolvePathName :: "'s fuse_session \<Rightarrow> path_parameters \<Rightarrow> 's server \<Rightarrow> (int \<times> path_parameters \<times> 's server) option" where
  "FinesseServerResolvePathName se p s = do {
     let parentino = (if ParentIno p = 0 then FUSE_ROOT_ID else ParentIno p);
     if PathNameBufferLength p = 0 then Some (EINVAL, p, s)
     else do {
       let workpath = strip_mountpoint se p;
       case rindex workpath of
         None \<Rightarrow> Some (EINVAL, p, s)
       | Some 0 \<Rightarrow> do {
           (status, attr, s) \<leftarrow> FinesseServerInternalNameLookup se parentino (drop 1 workpath) s;
           let p = p\<lparr>StatxBuffer := attr\<rparr>;
           if status \<noteq> 0 then do {
             not_found status;
             Some (status, p\<lparr>Cursor := Dangling, ParentIno := 0\<rparr>, s) }
           else do {
             c_assert (stx_ino attr \<noteq> 0);
             Some (status, p, s) } }
       | Some finalsep \<Rightarrow> do {
           let workend = finalsep + 1;
           c_assert (hd workpath = slash);
           (status, workcurrent, ino, p, s) \<leftarrow> resolve_loop se workpath workend EINVAL 1 parentino p s;
           if status \<noteq> 0 then Some (status, p, s)
           else do {
             let p = p\<lparr>Cursor := InPath workcurrent, FinalName := InPath (workcurrent + 1), ParentIno := ino\<rparr>;
             (status, attr, s) \<leftarrow> FinesseServerInternalNameLookup se ino (drop workend workpath) s;
             let p = p\<lparr>StatxBuffer := attr\<rparr>;
             if status \<noteq> 0 then do {
               not_found status;
               Some (if GetFinalParent p then 0 else status, p, s) }
             else Some (status, p, s) } } } }"

definition FinesseGetResolvedStatx :: "path_parameters \<Rightarrow> errno \<times> statx" where
  "FinesseGetResolvedStatx p = (if stx_ino (StatxBuffer p) = 0 then (EINVAL, zero_statx) else (0, StatxBuffer p))"

definition FinesseGetResolvedInode :: "path_parameters \<Rightarrow> errno \<times> u64" where
  "FinesseGetResolvedInode p =
     (let (status, statxbuf) = FinesseGetResolvedStatx p in (status, if status = 0 then stx_ino statxbuf else 0))"

end
