(* ===== verification/NameMap.thy ===== *)
theory NameMap
  imports PathName
begin

text \<open>
  Name mapping in the server, \<^verbatim>\<open>src/finesse/server/namemap.c\<close>: a name is resolved and gets an
  object with an identifier by which the client refers to the inode from then on.  A pointer to an
  identifier that may be null is an option.  The result of a mapping is the status and the object, or null.
\<close>

definition uuid_given :: "uuid_t option \<Rightarrow> bool" where
  "uuid_given u \<longleftrightarrow> (case u of None \<Rightarrow> False | Some k \<Rightarrow> \<not> uuid_is_null k)"

text \<open>The object for an inode number: an existing one, or a new one with the given identifier.\<close>

definition map_inode :: "u64 \<Rightarrow> uuid_t \<Rightarrow> 's server \<Rightarrow> (addr \<times> finesse_object \<times> 's server) option" where
  "map_inode ino u s = do {
     (finobj, s) \<leftarrow> create_object ino u s;
     c_assert (finobj \<noteq> NULL);
     obj \<leftarrow> object_at finobj s;
     Some (finobj, obj, s) }"

text \<open>A new object has two references, one of which is given back.\<close>

definition release_if_created :: "bool \<Rightarrow> addr \<Rightarrow> 's server \<Rightarrow> 's server option" where
  "release_if_created created finobj s = (if created then release_object finobj s else Some s)"

text \<open>The inode number of the parent that the identifier stands for, or null.\<close>

definition parent_inode :: "uuid_t \<Rightarrow> 's server \<Rightarrow> (u64 option \<times> 's server) option" where
  "parent_inode u s = do {
     (finobj, s) \<leftarrow> lookup_object u s;
     if finobj = NULL then Some (None, s)
     else do {
       obj \<leftarrow> object_at finobj s;
       s \<leftarrow> release_object finobj s;
       Some (Some (FastLookup.inode obj), s) } }"

definition map_path :: "'s fuse_session \<Rightarrow> u64 \<Rightarrow> string \<Rightarrow> int \<Rightarrow> 's server \<Rightarrow> (int \<times> addr \<times> 's server) option" where
  "map_path se ParentInode name flags s = do {
     c_assert (ParentInode \<noteq> 0);
     let parameters = FinesseAllocateServerPathResolutionParameters ParentInode name flags;
     (status, parameters, s) \<leftarrow> FinesseServerResolvePathName se parameters s;
     if status \<noteq> 0 then Some (status, NULL, s)
     else do {
       let (status, ino) = FinesseGetResolvedInode parameters;
       if status \<noteq> 0 then Some (status, NULL, s)
       else do {
         c_assert (ino \<noteq> 0);
         let (u, s) = uuid_generate_time_safe s;
         c_assert (\<not> uuid_is_null u);
         (finobj, obj, s) \<leftarrow> map_inode ino u s;
         c_assert (\<not> uuid_is_null (FastLookup.uuid obj));
         c_assert (FastLookup.inode obj \<noteq> 0);
         s \<leftarrow> release_if_created (FastLookup.uuid obj = u) finobj s;
         Some (0, finobj, s) } } }"

definition FinsesseServerInternalPathMapRequest ::
  "'s fuse_session \<Rightarrow> u64 \<Rightarrow> uuid_t option \<Rightarrow> string \<Rightarrow> int \<Rightarrow> 's server \<Rightarrow> (int \<times> addr \<times> 's server) option" where
  "FinsesseServerInternalPathMapRequest se ParentInode ParentUuid name flags s = do {
     let mp_length = length (mountpoint se);
     c_assert (mp_length < length name \<or> take mp_length name \<noteq> mountpoint se);
     let ParentInode = (if ParentInode = 0 then FUSE_ROOT_ID else ParentInode);
     c_assert (ParentInode = FUSE_ROOT_ID \<or> \<not> uuid_given ParentUuid);
     if uuid_given ParentUuid then do {
       (parent, s) \<leftarrow> parent_inode (the ParentUuid) s;
       (case parent of
          None \<Rightarrow> Some (EBADF, NULL, s)
        | Some ParentInode \<Rightarrow> map_path se ParentInode name flags s) }
     else map_path se ParentInode name flags s }"

text \<open>
  A name without a separator.  When the object existed already the lookup is undone, with the
  request that was allocated for it; no reply comes for that.
\<close>

definition map_name_in :: "'s fuse_session \<Rightarrow> u64 \<Rightarrow> string \<Rightarrow> 's server \<Rightarrow> (int \<times> addr \<times> 's server) option" where
  "map_name_in se parent_ino name s = do {
     let (req, s) = FinesseAllocFuseRequest s;
     (status, attr, s) \<leftarrow> FinesseServerInternalNameLookup se parent_ino name s;
     if status \<noteq> 0 then do {
       (req, s) \<leftarrow> FinesseFreeFuseRequest req s;
       Some (status, NULL, s) }
     else do {
       let ino = stx_ino attr;
       c_assert (ino \<noteq> 0);
       let (u, s) = uuid_generate_time_safe s;
       (finobj, obj, s) \<leftarrow> map_inode ino u s;
       let created = (FastLookup.uuid obj = u);
       c_assert (created \<longrightarrow> FastLookup.inode obj = ino);
       (req, s) \<leftarrow> (if created then Some (req, s) else call_file_system se (op_forget (finesse_original_ops se) ino 1) req s);
       s \<leftarrow> release_if_created created finobj s;
       (req, s) \<leftarrow> FinesseFreeFuseRequest req s;
       Some (0, finobj, s) } }"

definition FinesseServerInternalNameMapRequest ::
  "'s fuse_session \<Rightarrow> u64 \<Rightarrow> uuid_t option \<Rightarrow> string \<Rightarrow> int \<Rightarrow> 's server \<Rightarrow> (int \<times> addr \<times> 's server) option" where
  "FinesseServerInternalNameMapRequest se ParentInode ParentUuid name flags s = do {
     c_assert (ParentInode \<noteq> 0 \<longrightarrow> ParentUuid \<noteq> None);
     (parent, s) \<leftarrow> (if ParentInode \<noteq> 0 \<and> uuid_given ParentUuid then parent_inode (the ParentUuid) s else Some (Some FUSE_ROOT_ID, s));
     (case parent of
        None \<Rightarrow> Some (EBADF, NULL, s)
      | Some parent_ino \<Rightarrow>
          if length name < length (mountpoint se) \<or> take (length (mountpoint se)) name \<noteq> mountpoint se then Some (ENOTDIR, NULL, s)
          else map_name_in se parent_ino name s) }"

definition FinesseServerInternalMapRequest ::
  "'s fuse_session \<Rightarrow> u64 \<Rightarrow> uuid_t option \<Rightarrow> string \<Rightarrow> int \<Rightarrow> 's server \<Rightarrow> (int \<times> addr \<times> 's server) option" where
  "FinesseServerInternalMapRequest se ParentInode ParentUuid name flags s = do {
     let mp_length = length (mountpoint se);
     (ParentInode, name_to_parse) \<leftarrow>
       (if mp_length < length name \<and> take mp_length name = mountpoint se then do {
          let ParentInode = (if ParentInode = 0 then FUSE_ROOT_ID else ParentInode);
          c_assert (ParentInode = FUSE_ROOT_ID);
          c_assert (\<not> uuid_given ParentUuid);
          Some (ParentInode, drop mp_length name) }
        else Some (ParentInode, name));
     if slash \<in> set name_to_parse
     then FinsesseServerInternalPathMapRequest se ParentInode ParentUuid name_to_parse flags s
     else FinesseServerInternalNameMapRequest se ParentInode ParentUuid name_to_parse flags s }"

end
