(* ===== verification/Server.thy ===== *)
theory Server
  imports NameMap
begin

text \<open>
  The request handlers of the server, \<^verbatim>\<open>src/finesse/server\<close>: attributes, removal of names, access and statistics of the
  file system, and the native requests, with the dispatch on the type of a message, and the
  loop of a worker thread (\<^verbatim>\<open>src/lib/finesse.c\<close>) that takes a message and dispatches on its class.
  A message is given by the number of the client and the address of the message; a handler reads
  its parameters from the client's channel and writes the response there.
\<close>

section \<open>Counting\<close>

definition count_at :: "nat \<Rightarrow> nat \<Rightarrow> nat \<Rightarrow> u64 list \<Rightarrow> u64 list option" where
  "count_at first limit ty counts = do {
     c_assert (first \<le> ty);
     c_assert (ty < limit);
     Some (counts[ty - first := counts ! (ty - first) + 1]) }"

definition FinesseCountFuseRequest :: "nat \<Rightarrow> 's server \<Rightarrow> 's server option" where
  "FinesseCountFuseRequest ty s = do {
     counts \<leftarrow> count_at FINESSE_FUSE_REQ_BASE_TYPE FINESSE_FUSE_REQ_MAX ty (FuseRequests (FinesseServerStats s));
     Some (s\<lparr>FinesseServerStats := (FinesseServerStats s)\<lparr>FuseRequests := counts\<rparr>\<rparr>) }"

definition FinesseCountFuseResponse :: "nat \<Rightarrow> 's server \<Rightarrow> 's server option" where
  "FinesseCountFuseResponse ty s = do {
     counts \<leftarrow> count_at FINESSE_FUSE_RSP_NONE FINESSE_FUSE_RSP_MAX ty (FuseResponses (FinesseServerStats s));
     Some (s\<lparr>FinesseServerStats := (FinesseServerStats s)\<lparr>FuseResponses := counts\<rparr>\<rparr>) }"

definition FinesseCountNativeRequest :: "nat \<Rightarrow> 's server \<Rightarrow> 's server option" where
  "FinesseCountNativeRequest ty s = do {
     counts \<leftarrow> count_at FINESSE_NATIVE_REQ_TEST FINESSE_NATIVE_REQ_MAX ty (NativeRequests (FinesseServerStats s));
     Some (s\<lparr>FinesseServerStats := (FinesseServerStats s)\<lparr>NativeRequests := counts\<rparr>\<rparr>) }"

definition FinesseCountNativeResponse :: "nat \<Rightarrow> 's server \<Rightarrow> 's server option" where
  "FinesseCountNativeResponse ty s = do {
     counts \<leftarrow> count_at FINESSE_NATIVE_RSP_ERR FINESSE_NATIVE_RSP_MAX ty (NativeResponses (FinesseServerStats s));
     Some (s\<lparr>FinesseServerStats := (FinesseServerStats s)\<lparr>NativeResponses := counts\<rparr>\<rparr>) }"

section \<open>Messages of a client\<close>

definition message_block :: "nat \<Rightarrow> nat \<Rightarrow> 's server \<Rightarrow> (fincomm_message_block \<times> parameters) option" where
  "message_block client message s = do {
     c \<leftarrow> Clients s client;
     index \<leftarrow> message_slot (Base c) message;
     Some (Messages (Region c) ! index, Params c index) }"

definition send :: "(client_table \<Rightarrow> client_table option) \<Rightarrow> 's server \<Rightarrow> 's server option" where
  "send response s = do {
     clients \<leftarrow> response (Clients s);
     Some (s\<lparr>Clients := clients\<rparr>) }"

text \<open>The general response; the message stays marked as a request.\<close>

definition FinesseSendResponse :: "timespec \<Rightarrow> nat \<Rightarrow> nat \<Rightarrow> 's server \<Rightarrow> (errno \<times> 's server) option" where
  "FinesseSendResponse now client message s = do {
     c_assert (client < SHM_MESSAGE_COUNT);
     (case Clients s client of
        None \<Rightarrow> Some (ENOTCONN, s)
      | Some c \<Rightarrow> do {
          r \<leftarrow> FinesseResponseReady now (Base c) message (Region c);
          Some (0, s\<lparr>Clients := (Clients s)(client \<mapsto> c\<lparr>Region := r\<rparr>)\<rparr>) }) }"

abbreviation (input) ENOTSUP :: errno where "ENOTSUP \<equiv> 95"
abbreviation (input) EOVERFLOW :: errno where "EOVERFLOW \<equiv> 75"

text \<open>The response to a request that is not supported.\<close>

definition send_unsupported :: "timespec \<Rightarrow> nat \<Rightarrow> nat \<Rightarrow> nat \<Rightarrow> 's server \<Rightarrow> 's server option" where
  "send_unsupported now client message ty s = do {
     c \<leftarrow> Clients s client;
     index \<leftarrow> message_slot (Base c) message;
     let r = update_message index (update_data (\<lambda>m. m\<lparr>MsgKind := ty, MsgResult := ENOTSUP\<rparr>)) (Region c);
     (status, s) \<leftarrow> FinesseSendResponse now client message (s\<lparr>Clients := (Clients s)(client \<mapsto> c\<lparr>Region := r\<rparr>)\<rparr>);
     Some s }"

section \<open>Attributes\<close>

definition zerostat :: stat_attributes where
  "zerostat = \<lparr>st_ino = 0, st_mode = 0, st_nlink = 0, st_uid = 0, st_gid = 0, st_size = 0, st_blksize = 0, st_blocks = 0,
     st_atim = zero_time, st_mtim = zero_time, st_ctim = zero_time\<rparr>"

text \<open>The seconds of the last time are stored in the field for the nanoseconds and overwritten there.\<close>

definition statout_of :: "fuse_attr \<Rightarrow> stat_attributes" where
  "statout_of attr = zerostat\<lparr>st_ino := attr_ino attr, st_mode := attr_mode attr, st_nlink := ucast (attr_nlink attr), st_uid := attr_uid attr, st_gid := attr_gid attr,
     st_size := sint (attr_size attr), st_blksize := uint (attr_blksize attr), st_blocks := sint (attr_blocks attr),
     st_atim := \<lparr>tv_sec = sint (attr_atime attr), tv_nsec = uint (attr_atimensec attr)\<rparr>,
     st_mtim := \<lparr>tv_sec = sint (attr_mtime attr), tv_nsec = uint (attr_mtimensec attr)\<rparr>,
     st_ctim := \<lparr>tv_sec = 0, tv_nsec = uint (attr_ctimensec attr)\<rparr>\<rparr>"

text \<open>The inode that the request names: an object, or the status with which the request ends.\<close>

definition stat_object :: "'s fuse_session \<Rightarrow> uuid_t \<Rightarrow> uuid_t \<Rightarrow> string \<Rightarrow> 's server \<Rightarrow> (int \<times> addr \<times> 's server) option" where
  "stat_object se parent key name s =
     (if name = [] then
        if uuid_is_null parent \<or> \<not> uuid_is_null key then Some (EINVAL, NULL, s)
        else do { (finobj, s) \<leftarrow> lookup_object key s; Some (0, finobj, s) }
      else FinesseServerInternalMapRequest se (if uuid_is_null parent then FUSE_ROOT_ID else 0) (Some parent) name 0 s)"

text \<open>A reply with an error is passed on without attributes, which the response does not allow.\<close>

definition attr_response :: "'s fuse_session \<Rightarrow> timespec \<Rightarrow> nat \<Rightarrow> nat \<Rightarrow> captured \<Rightarrow> 's server \<Rightarrow> 's server option" where
  "attr_response se now client message reply s =
     (case reply of (err, data) \<Rightarrow>
        if err \<noteq> 0 \<or> (case data of None \<Rightarrow> True | Some (len, d) \<Rightarrow> len < FUSE_ATTR_OUT_SIZE)
        then send (FinesseSendStatResponse now client message None 0 err) s
        else (case data of
            Some (len, attr_out arg) \<Rightarrow> do {
              c_assert (\<not> S_ISLNK (attr_mode (out_attr arg)));
              send (FinesseSendStatResponse now client message (Some (statout_of (out_attr arg))) (resent_timeout se (attr_valid arg)) err) s }
          | _ \<Rightarrow> None))"

definition Stat :: "'s fuse_session \<Rightarrow> timespec \<Rightarrow> nat \<Rightarrow> nat \<Rightarrow> 's server \<Rightarrow> (errno \<times> 's server) option" where
  "Stat se now client message s = do {
     (b, p) \<leftarrow> message_block client message s;
     (case p of
        StatRequest parent key flags name \<Rightarrow> do {
          (status, finobj, s) \<leftarrow> stat_object se parent key name s;
          if status \<noteq> 0 then do {
            s \<leftarrow> send (FinesseSendStatResponse now client message (Some zerostat) 0 status) s;
            s \<leftarrow> FinesseCountFuseResponse FINESSE_FUSE_RSP_ATTR s;
            Some (0, s) }
          else do {
            c_assert (flags = 0);
            c_assert (finobj \<noteq> NULL);
            obj \<leftarrow> object_at finobj s;
            s \<leftarrow> release_object finobj s;
            let (req, s) = FinesseAllocFuseRequest s;
            (req, s) \<leftarrow> call_file_system se (op_getattr (finesse_original_ops se) (FastLookup.inode obj)) req s;
            reply \<leftarrow> captured_reply req;
            s \<leftarrow> attr_response se now client message reply s;
            s \<leftarrow> FinesseCountFuseResponse FINESSE_FUSE_RSP_ATTR s;
            (req, s) \<leftarrow> FinesseFreeFuseRequest req s;
            Some (0, s) } }
      | _ \<Rightarrow> None) }"

section \<open>Removal of names\<close>

text \<open>The file system is asked to remove the whole name from the inode that the name stands for.\<close>

definition Unlink :: "'s fuse_session \<Rightarrow> timespec \<Rightarrow> nat \<Rightarrow> nat \<Rightarrow> 's server \<Rightarrow> (errno \<times> 's server) option" where
  "Unlink se now client message s = do {
     (b, p) \<leftarrow> message_block client message s;
     (case p of
        UnlinkRequest parent name \<Rightarrow> do {
          (status, finobj, s) \<leftarrow> FinesseServerInternalMapRequest se (if uuid_is_null parent then FUSE_ROOT_ID else 0) (Some parent) name 0 s;
          if status \<noteq> 0 then do {
            s \<leftarrow> send (FinesseSendUnlinkResponse now client message status) s;
            s \<leftarrow> FinesseCountFuseResponse FINESSE_FUSE_RSP_ATTR s;
            Some (0, s) }
          else do {
            let (req, s) = FinesseAllocFuseRequest s;
            obj \<leftarrow> object_at finobj s;
            (req, s) \<leftarrow> call_file_system se (op_unlink (finesse_original_ops se) (FastLookup.inode obj) name) req s;
            (err, data) \<leftarrow> captured_reply req;
            s \<leftarrow> send (FinesseSendUnlinkResponse now client message err) s;
            s \<leftarrow> release_object finobj s;
            s \<leftarrow> FinesseCountFuseResponse FINESSE_FUSE_RSP_ATTR s;
            (req, s) \<leftarrow> FinesseFreeFuseRequest req s;
            Some (0, s) } }
      | _ \<Rightarrow> None) }"

section \<open>Access\<close>

text \<open>The inode asked about is always the root, and the answer is one for the statistics of the file system.\<close>

definition Access :: "'s fuse_session \<Rightarrow> timespec \<Rightarrow> nat \<Rightarrow> nat \<Rightarrow> 's server \<Rightarrow> (errno \<times> 's server) option" where
  "Access se now client message s = do {
     (b, p) \<leftarrow> message_block client message s;
     (case p of
        AccessRequest parent name msk \<Rightarrow> do {
          (finobj, s) \<leftarrow> (if uuid_is_null parent then Some (NULL, s) else lookup_object parent s);
          if \<not> uuid_is_null parent \<and> finobj = NULL then do {
            s \<leftarrow> send (FinesseSendAccessResponse now client message EBADF) s;
            s \<leftarrow> FinesseCountFuseResponse FINESSE_FUSE_RSP_ERR s;
            Some (0, s) }
          else do {
            let (req, s) = FinesseAllocFuseRequest s;
            (req, s) \<leftarrow> call_file_system se (op_access (finesse_original_ops se) FUSE_ROOT_ID msk) req s;
            (err, data) \<leftarrow> captured_reply req;
            s \<leftarrow> send (FinesseSendStatfsResponse now client message None err) s;
            s \<leftarrow> FinesseCountFuseResponse FINESSE_FUSE_RSP_STATFS s;
            (req, s) \<leftarrow> FinesseFreeFuseRequest req s;
            s \<leftarrow> (if finobj \<noteq> NULL then release_object finobj s else Some s);
            Some (0, s) } }
      | _ \<Rightarrow> None) }"


section \<open>Statistics of the file system\<close>

definition statvfs_of :: "fuse_kstatfs \<Rightarrow> statvfs" where
  "statvfs_of st = \<lparr>f_bsize = ucast (kbsize st), f_frsize = ucast (kfrsize st), f_blocks = kblocks st, f_bfree = kbfree st, f_bavail = kbavail st,
     f_files = kfiles st, f_ffree = kffree st, f_fsid = 0, f_flag = 0, f_namemax = ucast (knamelen st)\<rparr>"

definition statfs_response :: "timespec \<Rightarrow> nat \<Rightarrow> nat \<Rightarrow> (nat \<times> reply_data) option \<Rightarrow> 's server \<Rightarrow> 's server option" where
  "statfs_response now client message data s = do {
     (len, d) \<leftarrow> data;
     if len < FUSE_STATFS_OUT_SIZE then send (FinesseSendStatfsResponse now client message None EOVERFLOW) s
     else (case d of
         statfs_out arg \<Rightarrow> send (FinesseSendStatfsResponse now client message (Some (statvfs_of arg)) 0) s
       | _ \<Rightarrow> None) }"

text \<open>After an error of the file system the reference to the object is not given back.\<close>

definition finesse_fstatfs_handler :: "'s fuse_session \<Rightarrow> timespec \<Rightarrow> nat \<Rightarrow> nat \<Rightarrow> uuid_t \<Rightarrow> 's server \<Rightarrow> (errno \<times> 's server) option" where
  "finesse_fstatfs_handler se now client message key s = do {
     c_assert (\<not> uuid_is_null key);
     (finobj, s) \<leftarrow> lookup_object key s;
     if finobj = NULL then do {
       s \<leftarrow> send (FinesseSendFstatfsResponse now client message None EBADF) s;
       s \<leftarrow> FinesseCountFuseResponse FINESSE_FUSE_RSP_STATFS s;
       Some (0, s) }
     else do {
       let (req, s) = FinesseAllocFuseRequest s;
       obj \<leftarrow> object_at finobj s;
       (req, s) \<leftarrow> call_file_system se (op_statfs (finesse_original_ops se) (FastLookup.inode obj)) req s;
       (err, data) \<leftarrow> captured_reply req;
       if err \<noteq> 0 then do {
         s \<leftarrow> send (FinesseSendStatfsResponse now client message None err) s;
         s \<leftarrow> FinesseCountFuseResponse FINESSE_FUSE_RSP_STATFS s;
         (req, s) \<leftarrow> FinesseFreeFuseRequest req s;
         Some (0, s) }
       else do {
         s \<leftarrow> statfs_response now client message data s;
         s \<leftarrow> FinesseCountFuseResponse FINESSE_FUSE_RSP_STATFS s;
         s \<leftarrow> release_object finobj s;
         (req, s) \<leftarrow> FinesseFreeFuseRequest req s;
         Some (0, s) } } }"

text \<open>A path that is not found gets no response.\<close>

definition finesse_statfs_handler :: "'s fuse_session \<Rightarrow> timespec \<Rightarrow> nat \<Rightarrow> nat \<Rightarrow> string \<Rightarrow> 's server \<Rightarrow> (errno \<times> 's server) option" where
  "finesse_statfs_handler se now client message path s = do {
     (status, finobj, s) \<leftarrow> FinesseServerInternalMapRequest se 0 None path 0 s;
     if status \<noteq> 0 then Some (0, s)
     else do {
       c_assert (finobj \<noteq> NULL);
       obj \<leftarrow> object_at finobj s;
       (status, s) \<leftarrow> finesse_fstatfs_handler se now client message (FastLookup.uuid obj) s;
       c_assert (status = 0);
       s \<leftarrow> release_object finobj s;
       Some (0, s) } }"

definition FinesseServerFuseStatFs :: "'s fuse_session \<Rightarrow> timespec \<Rightarrow> nat \<Rightarrow> nat \<Rightarrow> 's server \<Rightarrow> (errno \<times> 's server) option" where
  "FinesseServerFuseStatFs se now client message s = do {
     (b, p) \<leftarrow> message_block client message s;
     (case p of
        StatfsRequest path \<Rightarrow> finesse_statfs_handler se now client message path s
      | FstatfsRequest key \<Rightarrow> finesse_fstatfs_handler se now client message key s
      | _ \<Rightarrow> None) }"

section \<open>Native requests\<close>

definition FinesseGetActiveClientCount :: "'s server \<Rightarrow> nat" where
  "FinesseGetActiveClientCount s = length (filter (\<lambda>i. Clients s i \<noteq> None) [0..<SHM_MESSAGE_COUNT])"

definition FinesseServerNativeTestRequest :: "timespec \<Rightarrow> nat \<Rightarrow> nat \<Rightarrow> 's server \<Rightarrow> (errno \<times> 's server) option" where
  "FinesseServerNativeTestRequest now client message s = do {
     s \<leftarrow> send (FinesseSendTestResponse now client message 0) s;
     s \<leftarrow> FinesseCountNativeResponse FINESSE_NATIVE_RSP_TEST s;
     Some (0, s) }"

definition FinesseServerNativeServerStatRequest :: "timespec \<Rightarrow> nat \<Rightarrow> nat \<Rightarrow> 's server \<Rightarrow> (errno \<times> 's server) option" where
  "FinesseServerNativeServerStatRequest now client message s = do {
     size \<leftarrow> finesse_object_get_table_size (ObjectTable s);
     let s = s\<lparr>FinesseServerStats := (FinesseServerStats s)\<lparr>ClientConnectionCount := of_nat (FinesseGetActiveClientCount s), ActiveNameMaps := ucast size\<rparr>\<rparr>;
     s \<leftarrow> send (FinesseSendServerStatResponse now client message (FinesseServerStats s) 0) s;
     s \<leftarrow> FinesseCountNativeResponse FINESSE_NATIVE_RSP_SERVER_STAT s;
     Some (0, s) }"

text \<open>Every failure is answered as a name that does not exist; \<^verbatim>\<open>old_key\<close> is what the place of the identifier holds then.\<close>

definition FinesseServerNativeMapRequest :: "'s fuse_session \<Rightarrow> timespec \<Rightarrow> uuid_t \<Rightarrow> nat \<Rightarrow> nat \<Rightarrow> 's server \<Rightarrow> (errno \<times> 's server) option" where
  "FinesseServerNativeMapRequest se now old_key client message s =
     (if \<not> connected se then Some (ENOTCONN, s)
      else do {
        (b, p) \<leftarrow> message_block client message s;
        (case p of
           MapRequest parent flags name \<Rightarrow> do {
             c_assert (slash \<in> set name);
             (status, finobj, s) \<leftarrow> FinesseServerInternalMapRequest se 0 (Some parent) name flags s;
             s \<leftarrow> (if status = 0 then do {
                 c_assert (finobj \<noteq> NULL);
                 obj \<leftarrow> object_at finobj s;
                 send (FinesseSendNameMapResponse now client message (Some (FastLookup.uuid obj)) old_key 0) s }
               else do {
                 c_assert (finobj = NULL);
                 send (FinesseSendNameMapResponse now client message None old_key ENOENT) s });
             s \<leftarrow> FinesseCountNativeResponse FINESSE_NATIVE_RSP_MAP s;
             Some (0, s) }
         | _ \<Rightarrow> None) })"

definition FinesseServerNativeMapReleaseRequest :: "timespec \<Rightarrow> nat \<Rightarrow> nat \<Rightarrow> 's server \<Rightarrow> (errno \<times> 's server) option" where
  "FinesseServerNativeMapReleaseRequest now client message s = do {
     (b, p) \<leftarrow> message_block client message s;
     (case p of
        MapReleaseRequest key \<Rightarrow> do {
          (finobj, s) \<leftarrow> lookup_object key s;
          s \<leftarrow> (if finobj \<noteq> NULL then release_object finobj s else Some s);
          s \<leftarrow> send (FinesseSendNameMapReleaseResponse now client message 0) s;
          s \<leftarrow> FinesseCountNativeResponse FINESSE_NATIVE_RSP_MAP_RELEASE s;
          Some (0, s) }
      | _ \<Rightarrow> None) }"

section \<open>Dispatch\<close>

definition FinesseServerHandleFuseRequest :: "'s fuse_session \<Rightarrow> timespec \<Rightarrow> nat \<Rightarrow> nat \<Rightarrow> 's server \<Rightarrow> (errno \<times> 's server) option" where
  "FinesseServerHandleFuseRequest se now client message s =
     (if \<not> connected se then Some (ENOTCONN, s)
      else do {
        (b, p) \<leftarrow> message_block client message s;
        c_assert (MessageType b = FINESSE_REQUEST);
        c_assert (MessageClass (Data b) = FINESSE_FUSE_MESSAGE);
        let ty = MsgKind (Data b);
        s \<leftarrow> FinesseCountFuseRequest ty s;
        (status, s) \<leftarrow>
          (if ty = FINESSE_FUSE_REQ_STATFS then FinesseServerFuseStatFs se now client message s
           else if ty = FINESSE_FUSE_REQ_STAT then Stat se now client message s
           else if ty = FINESSE_FUSE_REQ_ACCESS then Access se now client message s
           else if ty = FINESSE_FUSE_REQ_UNLINK then Unlink se now client message s
           else do { s \<leftarrow> send_unsupported now client message FINESSE_FUSE_RSP_ERR s; Some (0, s) });
        Some (0, s) })"

definition FinesseServerHandleNativeRequest :: "'s fuse_session \<Rightarrow> timespec \<Rightarrow> uuid_t \<Rightarrow> nat \<Rightarrow> nat \<Rightarrow> 's server \<Rightarrow> (errno \<times> 's server) option" where
  "FinesseServerHandleNativeRequest se now old_key client message s =
     (if \<not> connected se then Some (ENOTCONN, s)
      else do {
        (b, p) \<leftarrow> message_block client message s;
        c_assert (MessageType b = FINESSE_REQUEST);
        c_assert (MessageClass (Data b) = FINESSE_NATIVE_MESSAGE);
        let ty = MsgKind (Data b);
        s \<leftarrow> FinesseCountNativeRequest ty s;
        (status, s) \<leftarrow>
          (if ty = FINESSE_NATIVE_REQ_TEST then FinesseServerNativeTestRequest now client message s
           else if ty = FINESSE_NATIVE_REQ_SERVER_STAT then FinesseServerNativeServerStatRequest now client message s
           else if ty = FINESSE_NATIVE_REQ_MAP then FinesseServerNativeMapRequest se now old_key client message s
           else if ty = FINESSE_NATIVE_REQ_MAP_RELEASE then FinesseServerNativeMapReleaseRequest now client message s
           else do {
             s \<leftarrow> send_unsupported now client message FINESSE_NATIVE_RSP_ERR s;
             s \<leftarrow> FinesseCountNativeResponse FINESSE_NATIVE_RSP_ERR s;
             Some (0, s) });
        c_assert (status = 0);
        Some (0, s) })"

section \<open>Worker threads\<close>

text \<open>
  The search for a client with a message.  \<^verbatim>\<open>rnd\<close> gives the random numbers.  The bit map has the clients
  that may have a message; a client that is shutting down is removed.
\<close>

fun scan_for_request ::
  "timespec \<Rightarrow> nat \<Rightarrow> nat list \<Rightarrow> u64 \<Rightarrow> 's server \<Rightarrow> (errno \<times> (nat \<times> nat) option \<times> u64 \<times> 's server) option" where
  "scan_for_request now rnd [] bitmap s = Some (ENOENT, None, bitmap, s)"
| "scan_for_request now rnd (i # is) bitmap s =
     (case Clients s i of
        None \<Rightarrow> do {
          c_assert (bitmap AND make_mask64 i = 0);
          scan_for_request now rnd is bitmap s }
      | Some c \<Rightarrow>
          if bitmap AND make_mask64 i \<noteq> 0 then do {
            (status, message, r) \<leftarrow> FinesseGetReadyRequest now (Base c) rnd (Region c);
            let s = s\<lparr>Clients := (Clients s)(i \<mapsto> c\<lparr>Region := r\<rparr>)\<rparr>;
            if status = 0 then Some (0, Some (i, message), bitmap, s)
            else if status = ENOTCONN then scan_for_request now rnd is bitmap (s\<lparr>Clients := (Clients s)(i := None)\<rparr>)
            else do {
              c_assert (status = ENOENT);
              scan_for_request now rnd is (bitmap AND NOT (make_mask64 i)) s } }
          else scan_for_request now rnd is bitmap s)"

text \<open>One round of the worker with the message that it got.\<close>

definition finesse_process_request :: "'s fuse_session \<Rightarrow> timespec \<Rightarrow> uuid_t \<Rightarrow> nat \<Rightarrow> nat \<Rightarrow> 's server \<Rightarrow> 's server option" where
  "finesse_process_request se now old_key client message s = do {
     c_assert (message \<noteq> NULL);
     c_assert (client < SHM_MESSAGE_COUNT);
     (b, p) \<leftarrow> message_block client message s;
     c_assert (MsgRequestId b \<noteq> 0);
     c_assert (MessageType b = FINESSE_REQUEST);
     (status, s) \<leftarrow>
       (if MessageClass (Data b) = FINESSE_FUSE_MESSAGE then FinesseServerHandleFuseRequest se now client message s
        else if MessageClass (Data b) = FINESSE_NATIVE_MESSAGE then FinesseServerHandleNativeRequest se now old_key client message s
        else do {
          c \<leftarrow> Clients s client;
          index \<leftarrow> message_slot (Base c) message;
          let r = update_message index (\<lambda>b. b\<lparr>BlockResult := EINVAL, MessageType := FINESSE_RESPONSE\<rparr>) (Region c);
          FinesseSendResponse now client message (s\<lparr>Clients := (Clients s)(client \<mapsto> c\<lparr>Region := r\<rparr>)\<rparr>) });
     c_assert (status = 0);
     Some s }"

end
