(* ===== verification/ServerCalls.thy ===== *)
theory ServerCalls
  imports Server
begin

text \<open>
  What the calls of the server do, for any file system that keeps a contract: the locale
  \<^verbatim>\<open>file_system\<close> states what the lookup and the attributes of a file system promise about the tree of names,
  and what follows from it for the resolution of paths, the mapping of names and the request for attributes; the locale
  \<^verbatim>\<open>aborting_system\<close> adds what happens where a path goes on below a file.
\<close>

section \<open>Requests of the server\<close>

text \<open>Calls that are answered change the file system; their requests are destroyed again.\<close>

definition called :: "nat \<Rightarrow> 's \<Rightarrow> 's server \<Rightarrow> 's server" where
  "called k f s = s\<lparr>FileSystem := f, finesse_alloc_count := finesse_alloc_count s + of_nat k, finesse_free_count := finesse_free_count s + of_nat k\<rparr>"

lemma called_simps [simp]:
  "FileSystem (called k f s) = f" "ObjectTable (called k f s) = ObjectTable s" "Clients (called k f s) = Clients s"
  "new_uuid (called k f s) = new_uuid s" "uuid_count (called k f s) = uuid_count s" "FinesseServerStats (called k f s) = FinesseServerStats s"
  "called k f (called l g s) = called (l + k) f s"
  by (simp_all add: called_def add.assoc)

lemma called_inject [simp]: "called k f s = called k g s \<longleftrightarrow> f = g"
  using called_simps(1) [of k f s] called_simps(1) [of k g s] by metis

lemmas call_defs = FinesseAllocFuseRequest_def call_file_system_def fuse_reply_err_def fuse_reply_entry_def fuse_reply_attr_def send_reply_iov_def
  fuse_send_reply_iov_nofree_def finesse_send_reply_iov_def FinesseSignalFuseRequestCompletion_def FinesseFreeFuseRequest_def
  FinesseWaitForFuseRequestCompletion_def captured_reply_def Let_def

lemma name_lookup_entry:
  assumes "op_lookup (finesse_original_ops se) parent name (FileSystem s) = Some ([reply_entry e], f)" "slash \<notin> set name" "9 \<le> proto_minor se"
    "fep_ino e = st_ino (fep_attr e)"
  shows "FinesseServerInternalNameLookup se parent name s = Some (0, statx_of (fill_entry e), called 1 f s)"
  using assms by (simp add: FinesseServerInternalNameLookup_def call_defs fill_entry_def convert_stat_def called_def)

lemma name_lookup_err:
  assumes "op_lookup (finesse_original_ops se) parent name (FileSystem s) = Some ([reply_err err], f)" "slash \<notin> set name" "0 \<le> err" "err < 1000"
  shows "FinesseServerInternalNameLookup se parent name s = Some (- err, zero_statx, called 1 f s)"
  using assms by (simp add: FinesseServerInternalNameLookup_def call_defs called_def)

lemma entry_statx [simp]: "stx_ino (statx_of (fill_entry e)) = fep_ino e" "stx_mode (statx_of (fill_entry e)) = ucast (st_mode (fep_attr e))"
  by (simp_all add: statx_of_def fill_entry_def convert_stat_def Let_def)

text \<open>The sixteen bits that are kept of a mode have the file type.\<close>

lemma link_mode [simp]: "S_ISLNK (ucast (ucast m :: u16)) = S_ISLNK m"
proof -
  have F: "(0xF000 :: u32) = push_bit 12 (mask 4)"
    by (simp add: mask_eq_exp_minus_1 push_bit_eq_mult)
  have "ucast (ucast m :: u16) AND (0xF000 :: u32) = m AND 0xF000"
    unfolding F by (rule bit_eqI) (auto simp: bit_simps simp del: push_bit_Suc dest: bit_imp_le_length)
  then show ?thesis
    by (simp add: S_ISLNK_def)
qed

section \<open>Paths\<close>

text \<open>The components of a path before the last one, with the separators that follow them.\<close>

definition steps :: "string list \<Rightarrow> string" where
  "steps ds = concat (map (\<lambda>d. d @ [slash]) ds)"

definition path_of :: "string list \<Rightarrow> string" where
  "path_of cs = concat (map (\<lambda>c. slash # c) cs)"

definition component :: "string \<Rightarrow> bool" where
  "component c \<longleftrightarrow> c \<noteq> [] \<and> slash \<notin> set c"

lemma steps_simps [simp]: "steps [] = []" "steps (d # ds) = d @ slash # steps ds"
  by (simp_all add: steps_def)

lemma path_of_steps: "path_of (ds @ [c]) = slash # steps ds @ c"
  by (induction ds) (simp_all add: path_of_def)

lemma take_component: "slash \<notin> set d \<Longrightarrow> takeWhile (\<lambda>c. c \<noteq> slash) (d @ slash # x) = d"
  by (induction d) auto

lemma rindex_path:
  assumes "slash \<notin> set c"
  shows "rindex (path_of (ds @ [c])) = Some (length (steps ds))"
proof -
  have "path_of (ds @ [c]) = path_of ds @ slash # c"
    by (simp add: path_of_def)
  then have "takeWhile (\<lambda>x. x \<noteq> slash) (rev (path_of (ds @ [c]))) = rev c"
    using take_component [of "rev c"] assms by simp
  then show ?thesis
    by (simp add: rindex_def path_of_steps)
qed

section \<open>The tree of names\<close>

text \<open>
  A file system shows a number for a name in a directory.  \<^verbatim>\<open>walk\<close> is the number at the end of a path, \<^verbatim>\<open>visited\<close>
  the numbers along it, and \<^verbatim>\<open>passable\<close> says that everything a further name is looked up in is a directory.
\<close>

fun walk :: "(u64 \<Rightarrow> string \<Rightarrow> u64 option) \<Rightarrow> u64 \<Rightarrow> string list \<Rightarrow> u64 option" where
  "walk child ino [] = Some ino"
| "walk child ino (c # cs) = Option.bind (child ino c) (\<lambda>j. walk child j cs)"

fun visited :: "(u64 \<Rightarrow> string \<Rightarrow> u64 option) \<Rightarrow> u64 \<Rightarrow> string list \<Rightarrow> u64 list" where
  "visited child ino [] = []"
| "visited child ino (c # cs) = (case child ino c of None \<Rightarrow> [] | Some j \<Rightarrow> j # visited child j cs)"

fun passable :: "(u64 \<Rightarrow> bool) \<Rightarrow> (u64 \<Rightarrow> string \<Rightarrow> u64 option) \<Rightarrow> u64 \<Rightarrow> string list \<Rightarrow> bool" where
  "passable directory child ino [] = True"
| "passable directory child ino (c # cs) \<longleftrightarrow> directory ino \<and> (case child ino c of None \<Rightarrow> True | Some j \<Rightarrow> passable directory child j cs)"


lemma walk_snoc: "walk ch ino (ds @ [c]) = Option.bind (walk ch ino ds) (\<lambda>j. ch j c)"
  by (induction ds arbitrary: ino) (auto split: bind_splits)

lemma visited_snoc:
  "visited ch ino (ds @ [c]) = visited ch ino ds @ (case walk ch ino (ds @ [c]) of None \<Rightarrow> [] | Some j \<Rightarrow> [j])"
  by (induction ds arbitrary: ino) (auto split: option.splits bind_splits)

lemma passable_last: "passable dr ch ino (ds @ [c]) \<Longrightarrow> walk ch ino ds = Some q \<Longrightarrow> dr q"
  by (induction ds arbitrary: ino) (auto split: option.splits bind_splits)

text \<open>The type of a file is that of its mode.\<close>

definition is_dir :: "(u64 \<Rightarrow> u32) \<Rightarrow> u64 \<Rightarrow> bool" where
  "is_dir types j \<longleftrightarrow> types j = S_IFDIR"

lemma directory_no_link: "m AND S_IFMT = types j \<Longrightarrow> is_dir types j \<Longrightarrow> \<not> S_ISLNK m"
  by (simp add: is_dir_def S_ISLNK_def)

text \<open>The tree and the types are the same, and each number in the list has been looked up once more.\<close>

definition looked_up ::
  "('s \<Rightarrow> u64 \<Rightarrow> string \<Rightarrow> u64 option) \<Rightarrow> ('s \<Rightarrow> u64 \<Rightarrow> u32) \<Rightarrow> ('s \<Rightarrow> u64 \<Rightarrow> nat) \<Rightarrow> u64 list \<Rightarrow> 's \<Rightarrow> 's \<Rightarrow> bool" where
  "looked_up child ftype lookups js f g \<longleftrightarrow> child g = child f \<and> ftype g = ftype f \<and> lookups g = (\<lambda>j. lookups f j + count_list js j)"

lemma looked_up_nil: "looked_up child ftype lookups [] f g \<longleftrightarrow> child g = child f \<and> ftype g = ftype f \<and> lookups g = lookups f"
  by (simp add: looked_up_def)

lemma looked_up_cons:
  "\<lbrakk>child g = child f; ftype g = ftype f; lookups g = (lookups f)(j := lookups f j + 1); looked_up child ftype lookups js g h\<rbrakk>
    \<Longrightarrow> looked_up child ftype lookups (j # js) f h"
  by (auto simp: looked_up_def fun_eq_iff)

lemma looked_up_append:
  "looked_up child ftype lookups js f g \<Longrightarrow> looked_up child ftype lookups ks g h \<Longrightarrow> looked_up child ftype lookups (js @ ks) f h"
  by (auto simp: looked_up_def)

section \<open>The contract of a file system\<close>

text \<open>
  \<^verbatim>\<open>ok n\<close> holds of a file system that serves \<^verbatim>\<open>n\<close> more requests.  A lookup that finds a name takes a
  reference for the number found, which \<^verbatim>\<open>lookups\<close> counts.
\<close>

locale file_system =
  fixes se :: "'s fuse_session"
    and ok :: "nat \<Rightarrow> 's \<Rightarrow> bool"
    and child :: "'s \<Rightarrow> u64 \<Rightarrow> string \<Rightarrow> u64 option"
    and ftype :: "'s \<Rightarrow> u64 \<Rightarrow> u32"
    and lookups :: "'s \<Rightarrow> u64 \<Rightarrow> nat"
  assumes protocol: "9 \<le> proto_minor se"
    and found: "\<lbrakk>ok (Suc n) f; is_dir (ftype f) ino; child f ino name = Some j\<rbrakk> \<Longrightarrow>
      \<exists>e g. op_lookup (finesse_original_ops se) ino name f = Some ([reply_entry e], g) \<and> fep_ino e = j \<and> st_ino (fep_attr e) = j \<and> j \<noteq> 0
        \<and> st_mode (fep_attr e) AND S_IFMT = ftype f j
        \<and> ok n g \<and> child g = child f \<and> ftype g = ftype f \<and> lookups g = (lookups f)(j := lookups f j + 1)"
    and missing: "\<lbrakk>ok (Suc n) f; is_dir (ftype f) ino; child f ino name = None\<rbrakk> \<Longrightarrow>
      \<exists>g. op_lookup (finesse_original_ops se) ino name f = Some ([reply_err ENOENT], g)
        \<and> ok n g \<and> child g = child f \<and> ftype g = ftype f \<and> lookups g = lookups f"
begin

lemma name_found:
  assumes "ok (Suc n) (FileSystem s)" "is_dir (ftype (FileSystem s)) ino" "child (FileSystem s) ino name = Some j" "slash \<notin> set name"
  obtains attr g where "FinesseServerInternalNameLookup se ino name s = Some (0, attr, called 1 g s)" "stx_ino attr = j" "j \<noteq> 0"
    "is_dir (ftype (FileSystem s)) j \<longrightarrow> \<not> S_ISLNK (ucast (stx_mode attr))" "ok n g" "child g = child (FileSystem s)" "ftype g = ftype (FileSystem s)"
    "lookups g = (lookups (FileSystem s))(j := lookups (FileSystem s) j + 1)"
proof -
  obtain e g where e: "op_lookup (finesse_original_ops se) ino name (FileSystem s) = Some ([reply_entry e], g)" "fep_ino e = j" "st_ino (fep_attr e) = j" "j \<noteq> 0"
    "st_mode (fep_attr e) AND S_IFMT = ftype (FileSystem s) j" "ok n g" "child g = child (FileSystem s)" "ftype g = ftype (FileSystem s)"
    "lookups g = (lookups (FileSystem s))(j := lookups (FileSystem s) j + 1)"
    using found [OF assms(1-3)] by blast
  show thesis
    by (rule that [of "statx_of (fill_entry e)" g]) (use e assms(4) name_lookup_entry [OF e(1) _ protocol] directory_no_link in simp_all)
qed

lemma name_missing:
  assumes "ok (Suc n) (FileSystem s)" "is_dir (ftype (FileSystem s)) ino" "child (FileSystem s) ino name = None" "slash \<notin> set name"
  obtains g where "FinesseServerInternalNameLookup se ino name s = Some (- ENOENT, zero_statx, called 1 g s)"
    "ok n g" "child g = child (FileSystem s)" "ftype g = ftype (FileSystem s)" "lookups g = lookups (FileSystem s)"
proof -
  obtain g where g: "op_lookup (finesse_original_ops se) ino name (FileSystem s) = Some ([reply_err ENOENT], g)"
    "ok n g" "child g = child (FileSystem s)" "ftype g = ftype (FileSystem s)" "lookups g = lookups (FileSystem s)"
    using missing [OF assms(1-3)] by blast
  show thesis
    by (rule that [of g]) (use g assms(4) name_lookup_err [OF g(1)] in simp_all)
qed

lemma loop:
  assumes "ok n (FileSystem s)" "length ds \<le> n" "\<forall>d\<in>set ds. component d" "passable (is_dir (ftype (FileSystem s))) (child (FileSystem s)) ino (ds @ [c])"
    "\<not> CheckSecurity p"
  shows "\<exists>x i q p' k g. resolve_loop se (w @ steps ds @ c) (length w + length (steps ds)) status (length w) ino p s = Some (x, i, q, p', called k g s)
    \<and> k \<le> length ds \<and> ok (n - k) g \<and> GetFinalParent p' = GetFinalParent p
    \<and> looked_up child ftype lookups (visited (child (FileSystem s)) ino ds) (FileSystem s) g
    \<and> (case walk (child (FileSystem s)) ino ds of None \<Rightarrow> x = - ENOENT | Some j \<Rightarrow> x = (if ds = [] then status else 0) \<and> q = j)"
  using assms
proof (induction ds arbitrary: n s ino p status w)
  case Nil
  then show ?case
    by (intro exI [of _ status] exI [of _ "length w"] exI [of _ ino] exI [of _ p] exI [of _ 0] exI [of _ "FileSystem s"])
      (simp add: resolve_loop.simps looked_up_nil called_def)
next
  case (Cons d ds)
  let ?f = "FileSystem s"
  obtain m where n: "n = Suc m"
    using Cons.prems(2) by (cases n) auto
  have d: "d \<noteq> []" "slash \<notin> set d" "takeWhile (\<lambda>c. c \<noteq> slash) (d @ slash # steps ds @ c) = d"
    using Cons.prems(3) take_component by (auto simp: component_def)
  have hd: "hd (d @ slash # steps ds @ c) \<noteq> slash"
    using d(1,2) by (cases d) auto
  note step = resolve_loop.simps [of se "w @ steps (d # ds) @ c" "length w + length (steps (d # ds))" status "length w" ino p s]
  have dir: "is_dir (ftype ?f) ino"
    using Cons.prems(4) by simp
  show ?case
  proof (cases "child ?f ino d")
    case None
    obtain g where g: "FinesseServerInternalNameLookup se ino d s = Some (- ENOENT, zero_statx, called 1 g s)" "ok m g" "looked_up child ftype lookups [] ?f g"
      using name_missing [OF Cons.prems(1) [unfolded n] dir None d(2)] looked_up_nil [of child ftype lookups ?f] by metis
    then show ?thesis
      using None n d hd Cons.prems(5) by (subst step) (auto simp: not_found_def intro!: exI [of _ "Suc 0"] exI [of _ g])
  next
    case (Some j)
    obtain attr g where g: "FinesseServerInternalNameLookup se ino d s = Some (0, attr, called 1 g s)" "stx_ino attr = j" "j \<noteq> 0"
      "is_dir (ftype ?f) j \<longrightarrow> \<not> S_ISLNK (ucast (stx_mode attr))" "ok m g" "child g = child ?f" "ftype g = ftype ?f" "lookups g = (lookups ?f)(j := lookups ?f j + 1)"
      by (rule name_found [OF Cons.prems(1) [unfolded n] dir Some d(2)])
    have "is_dir (ftype ?f) j" "passable (is_dir (ftype ?f)) (child ?f) j (ds @ [c])"
      using Cons.prems(4) Some by (cases ds; simp)+
    then obtain x i q p' k h where h: "resolve_loop se ((w @ d @ [slash]) @ steps ds @ c) (length (w @ d @ [slash]) + length (steps ds)) 0 (length (w @ d @ [slash])) j
        (p\<lparr>StatxBuffer := attr\<rparr>) (called 1 g s) = Some (x, i, q, p', called k h (called 1 g s))" "k \<le> length ds" "ok (m - k) h" "GetFinalParent p' = GetFinalParent p"
      "looked_up child ftype lookups (visited (child ?f) j ds) g h"
      "case walk (child ?f) j ds of None \<Rightarrow> x = - ENOENT | Some j \<Rightarrow> x = 0 \<and> q = j"
      using Cons.IH [of m "called 1 g s" j "p\<lparr>StatxBuffer := attr\<rparr>" "w @ d @ [slash]" 0] g Cons.prems(2,3,5) n by (auto split: option.splits)
    have "resolve_loop se (w @ steps (d # ds) @ c) (length w + length (steps (d # ds))) status (length w) ino p s = Some (x, i, q, p', called (Suc k) h s)"
      using g(1-4) h(1) d hd \<open>is_dir (ftype ?f) j\<close> Cons.prems(5) by (subst step) (simp add: add.assoc)
    moreover have "looked_up child ftype lookups (visited (child ?f) ino (d # ds)) ?f h"
      using looked_up_cons [of child g ?f ftype lookups j, OF g(6-8) h(5)] Some by simp
    ultimately show ?thesis
      using h(2-4,6) Some n
      by (intro exI [of _ x] exI [of _ i] exI [of _ q] exI [of _ p'] exI [of _ "Suc k"] exI [of _ h]) (auto split: option.splits)
  qed
qed

text \<open>The resolution of a path follows the tree.\<close>

lemma resolve_one:
  assumes s: "ok (Suc n) (FileSystem s)" "is_dir (ftype (FileSystem s)) (ParentIno p)" and c: "slash \<notin> set c" and p: "ParentIno p \<noteq> 0"
    "strip_mountpoint se p = path_of [c]" "PathNameBufferLength p \<noteq> 0"
  shows "\<exists>status p' g. FinesseServerResolvePathName se p s = Some (status, p', called 1 g s) \<and> ok n g
    \<and> looked_up child ftype lookups (visited (child (FileSystem s)) (ParentIno p) [c]) (FileSystem s) g
    \<and> (case child (FileSystem s) (ParentIno p) c of None \<Rightarrow> status = - ENOENT | Some j \<Rightarrow> status = 0 \<and> stx_ino (StatxBuffer p') = j \<and> j \<noteq> 0)"
proof (cases "child (FileSystem s) (ParentIno p) c")
  case None
  obtain g where "FinesseServerInternalNameLookup se (ParentIno p) c s = Some (- ENOENT, zero_statx, called 1 g s)" "ok n g"
    "looked_up child ftype lookups [] (FileSystem s) g"
    using name_missing [OF s None c] looked_up_nil [of child ftype lookups "FileSystem s"] by metis
  then show ?thesis
    using None rindex_path [OF c, of "[]"] p by (auto simp: FinesseServerResolvePathName_def not_found_def path_of_def)
next
  case (Some j)
  obtain attr g where "FinesseServerInternalNameLookup se (ParentIno p) c s = Some (0, attr, called 1 g s)" "stx_ino attr = j" "j \<noteq> 0" "ok n g"
    "looked_up child ftype lookups [j] (FileSystem s) g"
    by (rule name_found [OF s Some c]) (metis looked_up_cons looked_up_nil)
  then show ?thesis
    using Some rindex_path [OF c, of "[]"] p by (auto simp: FinesseServerResolvePathName_def path_of_def)
qed

text \<open>After the loop over the components before it, the last one is looked up.\<close>

lemma resolve_final:
  assumes "resolve_loop se (path_of (ds @ [c])) (Suc (length (steps ds))) EINVAL (Suc 0) (ParentIno p) p s = Some (0, i, q, p', t)" "ds \<noteq> []"
    and t: "ok (Suc n) (FileSystem t)" "is_dir (ftype (FileSystem t)) q" and c: "slash \<notin> set c" and p: "ParentIno p \<noteq> 0" "\<not> GetFinalParent p'"
    "strip_mountpoint se p = path_of (ds @ [c])" "PathNameBufferLength p \<noteq> 0"
  shows "\<exists>status p' g. FinesseServerResolvePathName se p s = Some (status, p', called 1 g t) \<and> ok n g
    \<and> looked_up child ftype lookups (case child (FileSystem t) q c of None \<Rightarrow> [] | Some j \<Rightarrow> [j]) (FileSystem t) g
    \<and> (case child (FileSystem t) q c of None \<Rightarrow> status = - ENOENT | Some j \<Rightarrow> status = 0 \<and> stx_ino (StatxBuffer p') = j \<and> j \<noteq> 0)"
proof -
  obtain l where l: "length (steps ds) = Suc l"
    using assms(2) by (cases ds) auto
  note R = FinesseServerResolvePathName_def [of se p s] and w = rindex_path [OF c, of ds] path_of_steps [of ds c]
  show ?thesis
  proof (cases "child (FileSystem t) q c")
    case None
    obtain g where "FinesseServerInternalNameLookup se q c t = Some (- ENOENT, zero_statx, called 1 g t)" "ok n g" "looked_up child ftype lookups [] (FileSystem t) g"
      using name_missing [OF t None c] looked_up_nil [of child ftype lookups "FileSystem t"] by metis
    then show ?thesis
      using None assms(1) w l p by (auto simp: R not_found_def)
  next
    case (Some j)
    obtain attr g where "FinesseServerInternalNameLookup se q c t = Some (0, attr, called 1 g t)" "stx_ino attr = j" "j \<noteq> 0" "ok n g"
      "looked_up child ftype lookups [j] (FileSystem t) g"
      by (rule name_found [OF t Some c]) (metis looked_up_cons looked_up_nil)
    then show ?thesis
      using Some assms(1) w l p by (auto simp: R)
  qed
qed

lemma resolve:
  assumes s: "ok n (FileSystem s)" "length cs \<le> n" and cs: "cs \<noteq> []" "\<forall>c\<in>set cs. component c"
    and p: "passable (is_dir (ftype (FileSystem s))) (child (FileSystem s)) (ParentIno p) cs" "ParentIno p \<noteq> 0" "\<not> CheckSecurity p" "\<not> GetFinalParent p"
    "strip_mountpoint se p = path_of cs" "PathNameBufferLength p \<noteq> 0"
  shows "\<exists>status p' k g. FinesseServerResolvePathName se p s = Some (status, p', called k g s) \<and> k \<le> length cs \<and> ok (n - k) g
    \<and> looked_up child ftype lookups (visited (child (FileSystem s)) (ParentIno p) cs) (FileSystem s) g
    \<and> (case walk (child (FileSystem s)) (ParentIno p) cs of None \<Rightarrow> status = - ENOENT | Some j \<Rightarrow> status = 0 \<and> stx_ino (StatxBuffer p') = j \<and> j \<noteq> 0)"
proof -
  let ?f = "FileSystem s" and ?i = "ParentIno p"
  obtain ds c where dc: "cs = ds @ [c]"
    using cs(1) by (cases cs rule: rev_cases) auto
  have c: "slash \<notin> set c" "\<forall>d\<in>set ds. component d" "path_of cs = [slash] @ steps ds @ c"
    using cs(2) path_of_steps [of ds c] by (auto simp: dc component_def)
  show ?thesis
  proof (cases "ds = []")
    case True
    obtain m where n: "n = Suc m"
      using s(2) dc by (cases n) auto
    then show ?thesis
      using resolve_one [OF s(1) [unfolded n] _ c(1) p(2) _ p(6)] p(1,5) True dc by (auto split: option.splits bind_splits intro!: exI [of _ "Suc 0"])
  next
    case False
    obtain x i q p' k g where g: "resolve_loop se (path_of cs) (Suc (length (steps ds))) EINVAL (Suc 0) ?i p s = Some (x, i, q, p', called k g s)"
      "k \<le> length ds" "ok (n - k) g" "\<not> GetFinalParent p'" "looked_up child ftype lookups (visited (child ?f) ?i ds) ?f g"
      "case walk (child ?f) ?i ds of None \<Rightarrow> x = - ENOENT | Some j \<Rightarrow> x = (if ds = [] then EINVAL else 0) \<and> q = j"
      using loop [OF s(1) _ c(2) p(1) [unfolded dc] p(3), of "[slash]" EINVAL] s(2) p(4) unfolding c(3) by (auto simp: dc)
    show ?thesis
    proof (cases "walk (child ?f) ?i ds")
      case None
      obtain l where "length (steps ds) = Suc l"
        using False by (cases ds) auto
      then have "FinesseServerResolvePathName se p s = Some (- ENOENT, p', called k g s)"
        using g(1,6) None rindex_path [OF c(1), of ds] p(2,5,6) unfolding c(3) [symmetric] by (simp add: FinesseServerResolvePathName_def dc c(3) [unfolded dc])
      then show ?thesis
        using g(2,3,5) None by (auto simp: dc walk_snoc visited_snoc intro!: exI [of _ k])
    next
      case (Some j)
      then have x: "x = 0" "q = j" "is_dir (ftype ?f) j" "child g = child ?f" "ftype g = ftype ?f"
        using g(5,6) passable_last [OF p(1) [unfolded dc]] False by (auto simp: looked_up_def)
      obtain m where m: "n - k = Suc m"
        using s(2) g(2) dc by (cases "n - k") auto
      obtain status p'' h where h: "FinesseServerResolvePathName se p s = Some (status, p'', called (Suc k) h s)" "ok m h"
        "looked_up child ftype lookups (case child ?f j c of None \<Rightarrow> [] | Some j \<Rightarrow> [j]) g h"
        "case child ?f j c of None \<Rightarrow> status = - ENOENT | Some j \<Rightarrow> status = 0 \<and> stx_ino (StatxBuffer p'') = j \<and> j \<noteq> 0"
        using resolve_final [OF g(1) [unfolded x(1) dc] False, of m] g(3,4) x c(1) p(2,5,6) m by (auto simp: dc)
      have "looked_up child ftype lookups (visited (child ?f) ?i cs) ?f h"
        using looked_up_append [OF g(5) h(3)] Some by (simp add: dc walk_snoc visited_snoc)
      moreover have "n - Suc k = m"
        using m by simp
      ultimately show ?thesis
        using h(1,2,4) g(2) Some by (intro exI [of _ status] exI [of _ p''] exI [of _ "Suc k"] exI [of _ h]) (simp add: dc walk_snoc)
    qed
  qed
qed

end

section \<open>A file system that gives up\<close>

text \<open>
  A file system that does not answer the lookup of a name in something that is not a directory, but aborts.  The root is
  a directory.
\<close>

locale aborting_system = file_system se ok child ftype lookups
  for se :: "'s fuse_session" and ok child ftype lookups +
  assumes root_directory: "ok (Suc n) f \<Longrightarrow> is_dir (ftype f) FUSE_ROOT_ID"
    and barred: "\<lbrakk>ok (Suc n) f; is_dir (ftype f) ino; child f ino name = Some j; \<not> is_dir (ftype f) j\<rbrakk> \<Longrightarrow>
      op_lookup (finesse_original_ops se) j other f = None"
begin

lemma name_barred:
  assumes "ok (Suc n) (FileSystem s)" "is_dir (ftype (FileSystem s)) ino" "child (FileSystem s) ino name = Some j" "\<not> is_dir (ftype (FileSystem s)) j"
  shows "FinesseServerInternalNameLookup se j other s = None"
  using barred [OF assms] by (simp add: FinesseServerInternalNameLookup_def call_defs)

text \<open>The loop aborts, or it ends at something in which the last name is not looked up.\<close>

lemma loop_barred:
  assumes "ok (Suc n) (FileSystem s)" "length ds \<le> n" "\<forall>d\<in>set ds. component d" "\<not> CheckSecurity p"
    and "is_dir (ftype (FileSystem s)) ino \<or> (\<exists>i a. is_dir (ftype (FileSystem s)) i \<and> child (FileSystem s) i a = Some ino)"
    and "\<not> passable (is_dir (ftype (FileSystem s))) (child (FileSystem s)) ino (ds @ [c])"
    and "resolve_loop se (w @ steps ds @ c) (length w + length (steps ds)) status (length w) ino p s = Some (x, i, q, p', t)"
  shows "x = (if ds = [] then status else 0) \<and> FinesseServerInternalNameLookup se q other t = None"
  using assms
proof (induction ds arbitrary: n s ino p status w)
  case Nil
  then show ?case
    using name_barred [OF Nil.prems(1)] by (auto simp: resolve_loop.simps split: option.splits)
next
  case (Cons d ds)
  let ?f = "FileSystem s"
  obtain m where n: "n = Suc m"
    using Cons.prems(2) by (cases n) auto
  have d: "d \<noteq> []" "slash \<notin> set d" "takeWhile (\<lambda>c. c \<noteq> slash) (d @ slash # steps ds @ c) = d"
    using Cons.prems(3) take_component by (auto simp: component_def)
  have hd: "hd (d @ slash # steps ds @ c) \<noteq> slash"
    using d(1,2) by (cases d) auto
  note step = resolve_loop.simps [of se "w @ steps (d # ds) @ c" "length w + length (steps (d # ds))" status "length w" ino p s]
  have l: "FinesseServerInternalNameLookup se ino d s \<noteq> None"
    using Cons.prems(7) d hd by (subst (asm) step) (auto split: bind_splits)
  have dir: "is_dir (ftype ?f) ino"
  proof (rule ccontr)
    assume no: "\<not> is_dir (ftype ?f) ino"
    then obtain i a where "is_dir (ftype ?f) i" "child ?f i a = Some ino"
      using Cons.prems(5) by blast
    then have "FinesseServerInternalNameLookup se ino d s = None"
      by (rule name_barred [OF Cons.prems(1) _ _ no])
    then show False
      using l by simp
  qed
  then obtain j where j: "child ?f ino d = Some j" "\<not> passable (is_dir (ftype ?f)) (child ?f) j (ds @ [c])"
    using Cons.prems(6) by (auto split: option.splits)
  obtain attr g where g: "FinesseServerInternalNameLookup se ino d s = Some (0, attr, called 1 g s)" "stx_ino attr = j" "j \<noteq> 0"
    "ok n g" "child g = child ?f" "ftype g = ftype ?f"
    by (rule name_found [OF Cons.prems(1) dir j(1) d(2)])
  have "resolve_loop se ((w @ d @ [slash]) @ steps ds @ c) (length (w @ d @ [slash]) + length (steps ds)) 0 (length (w @ d @ [slash])) j (p\<lparr>StatxBuffer := attr\<rparr>) (called 1 g s)
      = Some (x, i, q, p', t)"
    using Cons.prems(7) g(1-3) d hd Cons.prems(4) by (subst (asm) step) (simp add: add.assoc split: if_splits)
  then show ?case
    using Cons.IH [of m "called 1 g s" "p\<lparr>StatxBuffer := attr\<rparr>" j "w @ d @ [slash]" 0] g(4-6) j dir Cons.prems(2-4) n by auto
qed

lemma resolve_barred:
  assumes s: "ok (Suc n) (FileSystem s)" "length cs \<le> n" and cs: "cs \<noteq> []" "\<forall>c\<in>set cs. component c"
    and p: "\<not> passable (is_dir (ftype (FileSystem s))) (child (FileSystem s)) FUSE_ROOT_ID cs" "ParentIno p = FUSE_ROOT_ID" "\<not> CheckSecurity p"
    "strip_mountpoint se p = path_of cs" "PathNameBufferLength p \<noteq> 0"
  shows "FinesseServerResolvePathName se p s = None"
proof -
  obtain ds c where dc: "cs = ds @ [c]"
    using cs(1) by (cases cs rule: rev_cases) auto
  have c: "slash \<notin> set c" "\<forall>d\<in>set ds. component d" "path_of cs = [slash] @ steps ds @ c"
    using cs(2) path_of_steps [of ds c] by (auto simp: dc component_def)
  note root = root_directory [OF s(1)]
  have "ds \<noteq> []"
    using p(1) root by (auto simp: dc split: option.splits)
  then obtain l where "length (steps ds) = Suc l"
    by (cases ds) auto
  moreover have "x = 0 \<and> FinesseServerInternalNameLookup se q c t = None"
    if "resolve_loop se (path_of cs) (Suc (length (steps ds))) EINVAL (Suc 0) FUSE_ROOT_ID p s = Some (x, i, q, p', t)" for x i q p' t
    using loop_barred [OF s(1) _ c(2) p(3), of FUSE_ROOT_ID c "[slash]" EINVAL x i q p' t c] that s(2) p(1) root \<open>ds \<noteq> []\<close> unfolding c(3) by (simp add: dc)
  ultimately show ?thesis
    using rindex_path [OF c(1), of ds] p(2,4,5)
    by (cases "resolve_loop se (path_of cs) (Suc (length (steps ds))) EINVAL (Suc 0) FUSE_ROOT_ID p s")
      (auto simp: FinesseServerResolvePathName_def dc c(3) [unfolded dc])
qed

end

end
