(* ===== verification/ServerObjects.thy ===== *)
theory ServerObjects
  imports ServerCalls
begin

text \<open>
  The object table in the server: mapping the number of an inode to an object, and giving the object back.  The
  next identifier that the operating system makes is new.
\<close>

abbreviation objs :: "'s server \<Rightarrow> addr \<rightharpoonup> u64 \<times> uuid_t \<times> u64" where
  "objs s \<equiv> objects (snd (ObjectTable s))"

definition objects_ok :: "'s server \<Rightarrow> bool" where
  "objects_ok s \<longleftrightarrow> fst (ObjectTable s) \<and> lookup_inv (snd (ObjectTable s))
     \<and> \<not> uuid_is_null (new_uuid s (uuid_count s)) \<and> (\<forall>a j r. objs s a \<noteq> Some (j, new_uuid s (uuid_count s), r))
     \<and> (\<forall>a j u r. objs s a = Some (j, u, r) \<longrightarrow> unat r + 2 < 2 ^ 64)"

lemma objects_okD:
  assumes "objects_ok s"
  shows "fst (ObjectTable s)" "lookup_inv (snd (ObjectTable s))"
    "\<not> uuid_is_null (new_uuid s (uuid_count s))" "objs s a \<noteq> Some (j, new_uuid s (uuid_count s), r)"
    "objs s a = Some (j, u, r) \<Longrightarrow> unat r + 2 < 2 ^ 64"
  using assms unfolding objects_ok_def by blast+

lemma object_facts:
  assumes "lookup_inv tab" "objects tab a = Some (j, u, r)"
  obtains e where "Entries tab a = Some e" "FastLookup.inode (FastLookup.Object e) = j" "FastLookup.uuid (FastLookup.Object e) = u" "\<not> freed (FastLookup.Object e)"
    "j \<noteq> 0" "\<not> uuid_is_null u" "r \<noteq> 0" "a \<noteq> NULL"
  using assms by (auto simp: lookup_inv_def entry_inv_def objects_entry word_neq_0_conv)

lemma object_at_some:
  assumes "lookup_inv (snd (ObjectTable s))" "objs s a = Some (j, u, r)"
  obtains x where "object_at a s = Some x" "FastLookup.inode x = j" "FastLookup.uuid x = u"
proof -
  obtain e where "Entries (snd (ObjectTable s)) a = Some e" "FastLookup.inode (FastLookup.Object e) = j" "FastLookup.uuid (FastLookup.Object e) = u"
    by (rule object_facts [OF assms])
  then show thesis
    using that by (simp add: object_at_def)
qed

lemma release_object_op:
  assumes "fst (ObjectTable s)" "lookup_inv (snd (ObjectTable s))" "objs s a = Some (j, u, r)"
  obtains tab where "release_object a s = Some (s\<lparr>ObjectTable := (True, tab)\<rparr>)" "lookup_inv tab"
    "objects tab = (objs s)(a \<mapsto> (j, u, if r = 1 then 1 else r - 1))"
proof -
  obtain e where e: "Entries (snd (ObjectTable s)) a = Some e" "\<not> freed (FastLookup.Object e)"
    using object_facts [OF assms(2,3)] by metis
  obtain tab where "FinesseObjectRelease a (snd (ObjectTable s)) = Some tab" "lookup_inv tab" "objects tab = (objs s)(a \<mapsto> (j, u, if r = 1 then 1 else r - 1))"
    using released [OF assms(2,3)] by blast
  then show thesis
    using that e assms(1) by (cases "ObjectTable s") (simp add: release_object_def finesse_object_release_def create_lookup_table_def)
qed

lemma create_object_op:
  assumes "fst (ObjectTable s)" "FinesseObjectCreate ino u (snd (ObjectTable s)) = Some (a, tab)" "lookup_inv tab" "objects tab a = Some (j, v, r)"
  shows "create_object ino u s = Some (a, s\<lparr>ObjectTable := (True, tab)\<rparr>)"
proof -
  obtain e where "Entries tab a = Some e" "\<not> freed (FastLookup.Object e)"
    using object_facts [OF assms(3,4)] by metis
  then show ?thesis
    using assms(1,2) by (cases "ObjectTable s") (simp add: create_object_def finesse_object_create_def create_lookup_table_def not_freed_def)
qed

text \<open>
  The object for a number that the mapping of a name returns: the one that the table has, with a
  reference more, or a new one with one reference.
\<close>

definition mapped :: "u64 \<Rightarrow> addr \<Rightarrow> 's server \<Rightarrow> (addr \<rightharpoonup> u64 \<times> uuid_t \<times> u64) \<Rightarrow> bool" where
  "mapped j a s ob \<longleftrightarrow>
     (\<exists>v r. objs s a = Some (j, v, r) \<and> ob = (objs s)(a \<mapsto> (j, v, r + 1)))
   \<or> (\<forall>b v r. objs s b \<noteq> Some (j, v, r)) \<and> objs s a = None \<and> ob = (objs s)(a \<mapsto> (j, new_uuid s (uuid_count s), 1))"

lemma one_more:
  assumes "unat (r :: u64) + 2 < 2 ^ 64"
  shows "r + 1 \<noteq> 0" "r \<noteq> 0 \<Longrightarrow> r + 1 \<noteq> 1" "unat (r + 1) = unat r + 1"
proof -
  show "unat (r + 1) = unat r + 1"
    using assms by (simp add: unat_word_ariths)
  then show "r + 1 \<noteq> 0"
    by (metis add_is_0 one_neq_zero unsigned_0)
qed simp

lemma map_inode_op:
  assumes s: "fst (ObjectTable s)" "lookup_inv (snd (ObjectTable s))" "\<forall>a i v r. objs s a = Some (i, v, r) \<longrightarrow> unat r + 2 < 2 ^ 64"
    and j: "j \<noteq> 0" and u: "\<not> uuid_is_null u" "\<forall>a i r. objs s a \<noteq> Some (i, u, r)"
  shows "\<exists>a x tab. map_inode j u s = Some (a, x, s\<lparr>ObjectTable := (True, tab)\<rparr>) \<and> a \<noteq> NULL \<and> FastLookup.inode x = j \<and> \<not> uuid_is_null (FastLookup.uuid x) \<and> lookup_inv tab
    \<and> ((\<exists>v r. objs s a = Some (j, v, r) \<and> FastLookup.uuid x = v \<and> v \<noteq> u \<and> objects tab = (objs s)(a \<mapsto> (j, v, r + 1)))
      \<or> (\<forall>b v r. objs s b \<noteq> Some (j, v, r)) \<and> FastLookup.uuid x = u \<and> objs s a = None \<and> objects tab = (objs s)(a \<mapsto> (j, u, 2)))"
proof -
  obtain a v r tab where c: "FinesseObjectCreate j u (snd (ObjectTable s)) = Some (a, tab)" "lookup_inv tab" "objects tab = (objs s)(a \<mapsto> (j, v, r))"
    "(\<exists>q. objs s a = Some (j, v, q) \<and> v \<noteq> u \<and> r = q + 1) \<or> (\<forall>b v r. objs s b \<noteq> Some (j, v, r)) \<and> v = u \<and> objs s a = None \<and> r = 2"
  proof (cases "\<exists>a v r. objs s a = Some (j, v, r)")
    case True
    then obtain a v q where a: "objs s a = Some (j, v, q)"
      by blast
    then obtain e where "Entries (snd (ObjectTable s)) a = Some e" "FastLookup.inode (FastLookup.Object e) = j" "FastLookup.uuid (FastLookup.Object e) = v"
      "FastLookup.ReferenceCount e = q"
      by (auto simp: objects_entry)
    then obtain tab where "FinesseObjectCreate j u (snd (ObjectTable s)) = Some (a, tab)" "lookup_inv tab" "objects tab = (objs s)(a \<mapsto> (j, v, q + 1))"
      using create_existing [OF s(2) u(1), of a e j] one_more(1) [OF s(3) [rule_format, OF a]] by auto
    then show thesis
      by (rule that) (use a u(2) in auto)
  next
    case False
    then have "\<forall>a e. Entries (snd (ObjectTable s)) a = Some e \<longrightarrow> FastLookup.inode (FastLookup.Object e) \<noteq> j \<and> FastLookup.uuid (FastLookup.Object e) \<noteq> u"
      using u(2) [unfolded objects_fresh] by (auto simp: objects_entry)
    then obtain tab where "FinesseObjectCreate j u (snd (ObjectTable s)) = Some (next_address (snd (ObjectTable s)), tab)" "lookup_inv tab"
      "objects tab = (objs s)(next_address (snd (ObjectTable s)) \<mapsto> (j, u, 2))" "objs s (next_address (snd (ObjectTable s))) = None"
      using create_fresh [OF s(2) j u(1)] by blast
    then show thesis
      using False by (intro that) auto
  qed
  then have "objects tab a = Some (j, v, r)"
    by simp
  then obtain e where e: "Entries tab a = Some e" "FastLookup.inode (FastLookup.Object e) = j" "FastLookup.uuid (FastLookup.Object e) = v" "\<not> uuid_is_null v" "a \<noteq> NULL"
    by (rule object_facts [OF c(2)])
  then have "object_at a (s\<lparr>ObjectTable := (True, tab)\<rparr>) = Some (FastLookup.Object e)"
    by (simp add: object_at_def)
  moreover have "create_object j u s = Some (a, s\<lparr>ObjectTable := (True, tab)\<rparr>)"
    by (rule create_object_op [OF s(1) c(1,2)]) (simp add: c(3))
  ultimately have "map_inode j u s = Some (a, FastLookup.Object e, s\<lparr>ObjectTable := (True, tab)\<rparr>)"
    using e(5) by (simp add: map_inode_def)
  then show ?thesis
    using c(2-4) e by (intro exI [of _ a] exI [of _ "FastLookup.Object e"] exI [of _ tab]) auto
qed

text \<open>The end of the mapping of a path.\<close>

lemma map_path_found:
  assumes ok: "objects_ok t" and j: "j \<noteq> 0" and r: "FinesseServerResolvePathName se (FinesseAllocateServerPathResolutionParameters parent name flags) s = Some (0, p, t)"
    "stx_ino (StatxBuffer p) = j" "parent \<noteq> 0"
  shows "\<exists>a tab. map_path se parent name flags s = Some (0, a, t\<lparr>uuid_count := uuid_count t + 1, ObjectTable := (True, tab)\<rparr>) \<and> a \<noteq> NULL \<and> lookup_inv tab
    \<and> mapped j a t (objects tab)"
proof -
  let ?t = "t\<lparr>uuid_count := uuid_count t + 1\<rparr>" and ?u = "new_uuid t (uuid_count t)"
  note t = objects_okD [OF ok]
  obtain a x tab where a: "map_inode j ?u ?t = Some (a, x, ?t\<lparr>ObjectTable := (True, tab)\<rparr>)" "a \<noteq> NULL" "FastLookup.inode x = j" "\<not> uuid_is_null (FastLookup.uuid x)" "lookup_inv tab"
    "(\<exists>v r. objs t a = Some (j, v, r) \<and> FastLookup.uuid x = v \<and> v \<noteq> ?u \<and> objects tab = (objs t)(a \<mapsto> (j, v, r + 1)))
      \<or> (\<forall>b v r. objs t b \<noteq> Some (j, v, r)) \<and> FastLookup.uuid x = ?u \<and> objs t a = None \<and> objects tab = (objs t)(a \<mapsto> (j, ?u, 2))"
    using map_inode_op [of ?t j ?u] t(1,2) t(3,4,5) j by auto
  have m: "map_path se parent name flags s = do {
      s \<leftarrow> release_if_created (FastLookup.uuid x = ?u) a (?t\<lparr>ObjectTable := (True, tab)\<rparr>);
      Some (0, a, s) }"
    using r j a(1-4) t(3)
    by (simp add: map_path_def FinesseGetResolvedInode_def FinesseGetResolvedStatx_def uuid_generate_time_safe_def)
  from a(6) show ?thesis
  proof (elim disjE exE conjE)
    fix v r
    assume "objs t a = Some (j, v, r)" "FastLookup.uuid x = v" "v \<noteq> ?u" "objects tab = (objs t)(a \<mapsto> (j, v, r + 1))"
    then show ?thesis
      using m a(2,5) by (auto simp: release_if_created_def mapped_def)
  next
    assume n: "\<forall>b v r. objs t b \<noteq> Some (j, v, r)" "FastLookup.uuid x = ?u" "objs t a = None" "objects tab = (objs t)(a \<mapsto> (j, ?u, 2))"
    obtain tab' where "release_object a (?t\<lparr>ObjectTable := (True, tab)\<rparr>) = Some (?t\<lparr>ObjectTable := (True, tab')\<rparr>)" "lookup_inv tab'"
      "objects tab' = (objs t)(a \<mapsto> (j, ?u, 1))"
      using release_object_op [of "?t\<lparr>ObjectTable := (True, tab)\<rparr>" a j ?u 2] a(5) n(4) by auto
    then show ?thesis
      using m a(2) n(1-3) by (auto simp: release_if_created_def mapped_def)
  qed
qed

section \<open>Mapping a path\<close>

text \<open>A path below the mount point, whose rest does not begin with the mount point again.\<close>

definition below :: "'s fuse_session \<Rightarrow> string list \<Rightarrow> bool" where
  "below se cs \<longleftrightarrow> cs \<noteq> [] \<and> (\<forall>c\<in>set cs. component c) \<and> take (length (mountpoint se)) (path_of cs) \<noteq> mountpoint se"

lemma map_request_path:
  assumes "below se cs" "ino = 0 \<or> ino = FUSE_ROOT_ID" "\<not> uuid_given u"
  shows "FinesseServerInternalMapRequest se ino u (mountpoint se @ path_of cs) flags s = map_path se FUSE_ROOT_ID (path_of cs) flags s"
    "strip_mountpoint se (FinesseAllocateServerPathResolutionParameters FUSE_ROOT_ID (path_of cs) flags) = path_of cs"
proof -
  have "slash \<in> set (path_of cs)" "0 < length (path_of cs)"
    using assms(1) by (cases cs; simp add: below_def path_of_def)+
  then show "FinesseServerInternalMapRequest se ino u (mountpoint se @ path_of cs) flags s = map_path se FUSE_ROOT_ID (path_of cs) flags s"
    using assms by (auto simp: FinesseServerInternalMapRequest_def FinsesseServerInternalPathMapRequest_def below_def)
  show "strip_mountpoint se (FinesseAllocateServerPathResolutionParameters FUSE_ROOT_ID (path_of cs) flags) = path_of cs"
    using assms(1) by (simp add: strip_mountpoint_def FinesseAllocateServerPathResolutionParameters_def below_def)
qed

lemma objects_ok_called: "objects_ok (called k g s) = objects_ok s"
  by (simp add: objects_ok_def)

context file_system
begin

lemma map_request:
  assumes s: "ok n (FileSystem s)" "length cs \<le> n" "objects_ok s" and cs: "below se cs" "ino = 0 \<or> ino = FUSE_ROOT_ID" "\<not> uuid_given u"
    "passable (is_dir (ftype (FileSystem s))) (child (FileSystem s)) FUSE_ROOT_ID cs"
  shows "\<exists>k g. k \<le> length cs \<and> ok (n - k) g \<and> looked_up child ftype lookups (visited (child (FileSystem s)) FUSE_ROOT_ID cs) (FileSystem s) g
    \<and> (case walk (child (FileSystem s)) FUSE_ROOT_ID cs of
         None \<Rightarrow> FinesseServerInternalMapRequest se ino u (mountpoint se @ path_of cs) 0 s = Some (- ENOENT, NULL, called k g s)
       | Some j \<Rightarrow> (\<exists>a tab. FinesseServerInternalMapRequest se ino u (mountpoint se @ path_of cs) 0 s
             = Some (0, a, (called k g s)\<lparr>uuid_count := uuid_count s + 1, ObjectTable := (True, tab)\<rparr>)
           \<and> a \<noteq> NULL \<and> lookup_inv tab \<and> mapped j a s (objects tab)))"
proof -
  let ?p = "FinesseAllocateServerPathResolutionParameters FUSE_ROOT_ID (path_of cs) 0"
  have p: "ParentIno ?p = FUSE_ROOT_ID" "\<not> CheckSecurity ?p" "\<not> GetFinalParent ?p" "PathNameBufferLength ?p \<noteq> 0"
    by (simp_all add: FinesseAllocateServerPathResolutionParameters_def)
  note q = map_request_path [OF cs(1-3)]
  obtain status p' k g where r: "FinesseServerResolvePathName se ?p s = Some (status, p', called k g s)" "k \<le> length cs" "ok (n - k) g"
    "looked_up child ftype lookups (visited (child (FileSystem s)) FUSE_ROOT_ID cs) (FileSystem s) g"
    "case walk (child (FileSystem s)) FUSE_ROOT_ID cs of None \<Rightarrow> status = - ENOENT | Some j \<Rightarrow> status = 0 \<and> stx_ino (StatxBuffer p') = j \<and> j \<noteq> 0"
    using resolve [of n s cs ?p] s cs p q(2) [of 0] by (auto simp: below_def)
  show ?thesis
  proof (cases "walk (child (FileSystem s)) FUSE_ROOT_ID cs")
    case None
    then show ?thesis
      using r q(1) by (intro exI [of _ k] exI [of _ g]) (simp add: map_path_def)
  next
    case (Some j)
    then obtain a tab where "map_path se FUSE_ROOT_ID (path_of cs) 0 s = Some (0, a, (called k g s)\<lparr>uuid_count := uuid_count s + 1, ObjectTable := (True, tab)\<rparr>)"
      "a \<noteq> NULL" "lookup_inv tab" "mapped j a s (objects tab)"
      using map_path_found [of "called k g s" j se FUSE_ROOT_ID "path_of cs" 0 s p'] r(1,5) s(3) by (auto simp: objects_ok_called mapped_def)
    then show ?thesis
      using r(2-4) Some q(1) by (intro exI [of _ k] exI [of _ g]) auto
  qed
qed

end

end
