(* ===== verification/ServerStat.thy ===== *)
theory ServerStat
  imports ServerObjects MessageTrip
begin

text \<open>
  The request for attributes, from the message that a worker has taken to the response that the client reads, for
  any file system that keeps the contract of lookups and answers requests for the attributes of what a name stands for.
\<close>

section \<open>The object of a request\<close>

text \<open>After a request the table has an object for the number, a new one only if there was none.\<close>

definition recorded :: "u64 \<Rightarrow> 's server \<Rightarrow> (addr \<rightharpoonup> u64 \<times> uuid_t \<times> u64) \<Rightarrow> bool" where
  "recorded j s ob \<longleftrightarrow>
     (\<exists>a v r. objs s a = Some (j, v, r)) \<and> ob = objs s
   \<or> (\<forall>b v r. objs s b \<noteq> Some (j, v, r)) \<and> (\<exists>a. objs s a = None \<and> ob = (objs s)(a \<mapsto> (j, new_uuid s (uuid_count s), 1)))"

lemma mapped_released:
  assumes s: "objects_ok s" and m: "mapped j a s (objects tab)" "lookup_inv tab" and t: "ObjectTable t = (True, tab)"
  obtains x tab' where "object_at a t = Some x" "FastLookup.inode x = j" "release_object a t = Some (t\<lparr>ObjectTable := (True, tab')\<rparr>)" "lookup_inv tab'"
    "recorded j s (objects tab')"
proof -
  obtain v r where r: "objects tab a = Some (j, v, r)" "recorded j s ((objects tab)(a \<mapsto> (j, v, if r = 1 then 1 else r - 1)))"
    using m(1) unfolding mapped_def
  proof (elim disjE exE conjE)
    fix v r
    assume a: "objs s a = Some (j, v, r)" "objects tab = (objs s)(a \<mapsto> (j, v, r + 1))"
    have "r \<noteq> 0"
      using object_facts [OF objects_okD(2) [OF s] a(1)] by metis
    then have "r + 1 \<noteq> 1" "(objs s)(a \<mapsto> (j, v, r)) = objs s"
      using a(1) by (auto simp: fun_upd_idem)
    then show thesis
      using that [of v "r + 1"] a by (auto simp: recorded_def)
  next
    assume "\<forall>b v r. objs s b \<noteq> Some (j, v, r)" "objs s a = None" "objects tab = (objs s)(a \<mapsto> (j, new_uuid s (uuid_count s), 1))"
    then show thesis
      using that [of "new_uuid s (uuid_count s)" 1] by (auto simp: recorded_def)
  qed
  obtain x where "object_at a t = Some x" "FastLookup.inode x = j"
    using object_at_some [of t a j v r] m(2) r(1) t by auto
  moreover obtain tab' where "release_object a t = Some (t\<lparr>ObjectTable := (True, tab')\<rparr>)" "lookup_inv tab'" "objects tab' = (objects tab)(a \<mapsto> (j, v, if r = 1 then 1 else r - 1))"
    using release_object_op [of t a j v r] m(2) r(1) t by auto
  ultimately show thesis
    using that r(2) by simp
qed

lemma walk_last:
  assumes "cs \<noteq> []" "passable dr ch ino cs" "walk ch ino cs = Some j"
  obtains i c where "dr i" "ch i c = Some j"
proof -
  obtain ds c where dc: "cs = ds @ [c]"
    using assms(1) by (cases cs rule: rev_cases) auto
  then obtain q where "walk ch ino ds = Some q" "ch q c = Some j"
    using assms(3) by (auto simp: walk_snoc split: bind_splits)
  then show thesis
    using that passable_last assms(2) dc by blast
qed

text \<open>What a client asks for and what it gets; the null parent stands for the root.\<close>

abbreviation stat_request :: "'s fuse_session \<Rightarrow> uuid_t \<Rightarrow> string list \<Rightarrow> parameters" where
  "stat_request se key cs \<equiv> StatRequest null_key key 0 (mountpoint se @ path_of cs)"

abbreviation answers :: "channel \<Rightarrow> nat \<Rightarrow> int \<Rightarrow> stat_attributes \<Rightarrow> u64 \<Rightarrow> bool" where
  "answers c i status attr timeout \<equiv> reads c i FINESSE_FUSE_MESSAGE FINESSE_FUSE_RSP_ATTR (Some status) (AttrResponse attr timeout)"

lemma stat_answered:
  assumes "working c i FINESSE_FUSE_MESSAGE FINESSE_FUSE_REQ_STAT p" "clients client = Some c" "client < SHM_MESSAGE_COUNT"
  obtains c' where "FinesseSendStatResponse now client (message_address (Base c) i) (Some attr) timeout status clients = Some (clients(client \<mapsto> c'))"
    "Base c' = Base c" "answers c' i status attr timeout"
  using response_taken [OF assms(1), of clients client now status FINESSE_FUSE_MESSAGE FINESSE_FUSE_RSP_ATTR "Some status" "Some (AttrResponse attr timeout)"] assms(2,3) that
  by (auto simp: FinesseSendStatResponse_def)

lemma null_key_null: "\<not> uuid_given (Some null_key)" "uuid_is_null null_key"
  by (simp_all add: uuid_given_def uuid_is_null_def)

lemma stat_object_path:
  "cs \<noteq> [] \<Longrightarrow> stat_object se null_key key (mountpoint se @ path_of cs) s
    = FinesseServerInternalMapRequest se FUSE_ROOT_ID (Some null_key) (mountpoint se @ path_of cs) 0 s"
  by (cases cs) (auto simp: stat_object_def null_key_null path_of_def)

text \<open>The way of a request to its handler: only a counter changes.\<close>

lemma stat_dispatched:
  assumes c: "connected se" "Clients s client = Some c" "client < SHM_MESSAGE_COUNT" "working c i FINESSE_FUSE_MESSAGE FINESSE_FUSE_REQ_STAT p"
  obtains counts where
    "finesse_process_request se now old_key client (message_address (Base c) i) s
      = map_option snd (Stat se now client (message_address (Base c) i) (s\<lparr>FinesseServerStats := counts\<rparr>))"
proof -
  let ?n = "FinesseServerStats s"
  let ?s = "s\<lparr>FinesseServerStats := ?n\<lparr>FuseRequests := (FuseRequests ?n)[FINESSE_FUSE_REQ_STAT - FINESSE_FUSE_REQ_BASE_TYPE := FuseRequests ?n ! (FINESSE_FUSE_REQ_STAT - FINESSE_FUSE_REQ_BASE_TYPE) + 1]\<rparr>\<rparr>"
  have "FinesseCountFuseRequest FINESSE_FUSE_REQ_STAT s = Some ?s"
    by (simp add: FinesseCountFuseRequest_def count_at_def)
  then have "finesse_process_request se now old_key client (message_address (Base c) i) s = map_option snd (Stat se now client (message_address (Base c) i) ?s)"
    using c by (cases "Stat se now client (message_address (Base c) i) ?s")
      (auto simp: finesse_process_request_def FinesseServerHandleFuseRequest_def message_block_def working_def Let_def)
  then show thesis
    by (rule that)
qed

lemma counted_simps [simp]:
  "objects_ok (s\<lparr>FinesseServerStats := counts\<rparr>) = objects_ok s" "recorded j (s\<lparr>FinesseServerStats := counts\<rparr>) = recorded j s"
  "objects_ok (s\<lparr>Clients := cl\<rparr>) = objects_ok s" "recorded j (s\<lparr>Clients := cl\<rparr>) = recorded j s"
  by (simp_all add: objects_ok_def recorded_def fun_eq_iff)

section \<open>Attributes\<close>

text \<open>The attributes in the answer are those that the file system gives for the number at the end of the path.\<close>

definition attributes_read :: "'s fuse_session \<Rightarrow> ('s \<Rightarrow> u64 \<Rightarrow> u32) \<Rightarrow> channel \<Rightarrow> nat \<Rightarrow> u64 \<Rightarrow> 's \<Rightarrow> 's \<Rightarrow> bool" where
  "attributes_read se ftype c i j f g \<longleftrightarrow> (\<exists>attr timeout. op_getattr (finesse_original_ops se) j f = Some ([reply_attr attr timeout], g)
     \<and> st_ino attr = j \<and> st_mode attr AND S_IFMT = ftype f j \<and> answers c i 0 (statout_of (convert_stat attr)) (resent_timeout se timeout))"

lemma stat_response:
  assumes "answers c i status attr timeout"
  obtains c' where "FinesseGetStatResponse now (message_address (Base c) i) c = Some (attr, timeout, status, c')"
proof -
  obtain b c' where "take_response now (message_address (Base c) i) c = Some (b, AttrResponse attr timeout, c')" "Version (Data b) = FINESSE_MESSAGE_VERSION"
    "MessageClass (Data b) = FINESSE_FUSE_MESSAGE" "MsgKind (Data b) = FINESSE_FUSE_RSP_ATTR" "MsgResult (Data b) = status"
    using assms unfolding reads_def by blast
  then show thesis
    using that by (simp add: FinesseGetStatResponse_def is_fuse_response_def)
qed

text \<open>A client puts a request in its idle channel, and the server finds it there.\<close>

lemma stat_sent:
  assumes c: "Clients s client = Some c" "channel_idle c" and now: "clock_ok (fst nows)" and path: "length path \<le> 3915" and b: "bitmap AND make_mask64 client \<noteq> 0"
  obtains i c1 c2 where "FinesseSendCommonStatRequest nows None None 0 (Some path) c = Some (message_address (Base c) i, c1)" "Base c2 = Base c"
    "scan_for_request later rnd (client # clients) bitmap (s\<lparr>Clients := (Clients s)(client \<mapsto> c1)\<rparr>)
      = Some (0, Some (client, message_address (Base c) i), bitmap, s\<lparr>Clients := (Clients s)(client \<mapsto> c2)\<rparr>)"
    "working c2 i FINESSE_FUSE_MESSAGE FINESSE_FUSE_REQ_STAT (StatRequest null_key null_key 0 path)"
proof -
  have "request_type_ok FINESSE_FUSE_MESSAGE FINESSE_FUSE_REQ_STAT"
    by (simp add: request_type_ok_def)
  then obtain i c1 r where "fill_request nows FINESSE_FUSE_MESSAGE FINESSE_FUSE_REQ_STAT (StatRequest null_key null_key 0 path) c = Some (message_address (Base c) i, c1)"
    "Base c1 = Base c" "FinesseGetReadyRequest later (Base c) rnd (Region c1) = Some (0, message_address (Base c) i, r)"
    "working (c1\<lparr>Region := r\<rparr>) i FINESSE_FUSE_MESSAGE FINESSE_FUSE_REQ_STAT (StatRequest null_key null_key 0 path)"
    using request_taken [OF c(2) _ now] by blast
  then show thesis
    using that [of i c1 "c1\<lparr>Region := r\<rparr>"] path b by (simp add: FinesseSendCommonStatRequest_def name_fits_def key_or_null_def)
qed

locale attribute_system = file_system se ok child ftype lookups
  for se :: "'s fuse_session" and ok child ftype lookups +
  assumes attributes: "\<lbrakk>ok (Suc n) f; is_dir (ftype f) ino; child f ino name = Some j\<rbrakk> \<Longrightarrow>
      \<exists>attr timeout g. op_getattr (finesse_original_ops se) j f = Some ([reply_attr attr timeout], g) \<and> st_ino attr = j \<and> st_mode attr AND S_IFMT = ftype f j
        \<and> ok n g \<and> child g = child f \<and> ftype g = ftype f \<and> lookups g = lookups f"
begin

lemma stat_missing:
  assumes s: "ok n (FileSystem s)" "length cs \<le> n" "objects_ok s" "below se cs" "passable (is_dir (ftype (FileSystem s))) (child (FileSystem s)) FUSE_ROOT_ID cs"
    and c: "Clients s client = Some c" "client < SHM_MESSAGE_COUNT" "working c i FINESSE_FUSE_MESSAGE FINESSE_FUSE_REQ_STAT (stat_request se key cs)"
    and w: "walk (child (FileSystem s)) FUSE_ROOT_ID cs = None"
  shows "\<exists>t c'. Stat se now client (message_address (Base c) i) s = Some (0, t) \<and> Clients t = (Clients s)(client \<mapsto> c') \<and> Base c' = Base c
    \<and> looked_up child ftype lookups (visited (child (FileSystem s)) FUSE_ROOT_ID cs) (FileSystem s) (FileSystem t) \<and> objs t = objs s
    \<and> answers c' i (- ENOENT) zerostat 0"
proof -
  obtain k g where m: "FinesseServerInternalMapRequest se FUSE_ROOT_ID (Some null_key) (mountpoint se @ path_of cs) 0 s = Some (- ENOENT, NULL, called k g s)"
    "looked_up child ftype lookups (visited (child (FileSystem s)) FUSE_ROOT_ID cs) (FileSystem s) g"
    using map_request [OF s(1-4) _ null_key_null(1) s(5), of FUSE_ROOT_ID] w by auto
  obtain c' where "FinesseSendStatResponse now client (message_address (Base c) i) (Some zerostat) 0 (- ENOENT) (Clients s) = Some ((Clients s)(client \<mapsto> c'))"
    "Base c' = Base c" "answers c' i (- ENOENT) zerostat 0"
    by (rule stat_answered [OF c(3), of "Clients s" client, OF c(1,2)])
  then show ?thesis
    using c m stat_object_path [of cs se key s] s(4)
    by (auto simp: Stat_def message_block_def working_def send_def FinesseCountFuseResponse_def count_at_def below_def)
qed

lemma stat_found:
  assumes s: "ok n (FileSystem s)" "length cs < n" "objects_ok s" "below se cs" "passable (is_dir (ftype (FileSystem s))) (child (FileSystem s)) FUSE_ROOT_ID cs"
    and c: "Clients s client = Some c" "client < SHM_MESSAGE_COUNT" "working c i FINESSE_FUSE_MESSAGE FINESSE_FUSE_REQ_STAT (stat_request se key cs)"
    and w: "walk (child (FileSystem s)) FUSE_ROOT_ID cs = Some j" "ftype (FileSystem s) j \<noteq> S_IFLNK"
  shows "\<exists>t c' f. Stat se now client (message_address (Base c) i) s = Some (0, t) \<and> Clients t = (Clients s)(client \<mapsto> c') \<and> Base c' = Base c
    \<and> looked_up child ftype lookups (visited (child (FileSystem s)) FUSE_ROOT_ID cs) (FileSystem s) f
    \<and> attributes_read se ftype c' i j f (FileSystem t) \<and> looked_up child ftype lookups [] f (FileSystem t) \<and> recorded j s (objs t)"
proof -
  obtain k g a tab where m: "FinesseServerInternalMapRequest se FUSE_ROOT_ID (Some null_key) (mountpoint se @ path_of cs) 0 s
      = Some (0, a, (called k g s)\<lparr>uuid_count := uuid_count s + 1, ObjectTable := (True, tab)\<rparr>)"
    "a \<noteq> NULL" "lookup_inv tab" "mapped j a s (objects tab)" "k \<le> length cs" "ok (n - k) g"
    "looked_up child ftype lookups (visited (child (FileSystem s)) FUSE_ROOT_ID cs) (FileSystem s) g"
    using map_request [OF s(1) _ s(3,4) _ null_key_null(1) s(5), of FUSE_ROOT_ID] s(2) w(1) by auto
  let ?t = "(called k g s)\<lparr>uuid_count := uuid_count s + 1, ObjectTable := (True, tab)\<rparr>"
  obtain x tab' where x: "object_at a ?t = Some x" "FastLookup.inode x = j" "release_object a ?t = Some (?t\<lparr>ObjectTable := (True, tab')\<rparr>)" "recorded j s (objects tab')"
    by (rule mapped_released [OF s(3) m(4,3), of ?t]) simp
  obtain q where q: "n - k = Suc q"
    using s(2) m(5) by (cases "n - k") auto
  obtain ino name where "is_dir (ftype (FileSystem s)) ino" "child (FileSystem s) ino name = Some j"
    by (rule walk_last [OF _ s(5) w(1)]) (use s(4) in \<open>simp add: below_def\<close>)
  then obtain attr timeout h where h: "op_getattr (finesse_original_ops se) j g = Some ([reply_attr attr timeout], h)" "st_ino attr = j" "st_mode attr AND S_IFMT = ftype g j"
      "child h = child g" "ftype h = ftype g" "lookups h = lookups g"
    using attributes [OF m(6) [unfolded q], of ino name j] m(7) by (auto simp: looked_up_def)
  then have "\<not> S_ISLNK (st_mode attr)"
    using m(7) w(2) by (simp add: looked_up_def S_ISLNK_def)
  moreover obtain c' where c': "FinesseSendStatResponse now client (message_address (Base c) i) (Some (statout_of (convert_stat attr))) (resent_timeout se timeout) 0 (Clients s)
      = Some ((Clients s)(client \<mapsto> c'))"
    "Base c' = Base c" "answers c' i 0 (statout_of (convert_stat attr)) (resent_timeout se timeout)"
    by (rule stat_answered [OF c(3), of "Clients s" client, OF c(1,2)])
  ultimately have "\<exists>t. Stat se now client (message_address (Base c) i) s = Some (0, t) \<and> Clients t = (Clients s)(client \<mapsto> c') \<and> FileSystem t = h
      \<and> objs t = objects tab'"
    using c m(1,2) stat_object_path [of cs se key s] s(4) x(1-3) h(1) protocol
    by (simp add: Stat_def message_block_def working_def send_def FinesseCountFuseResponse_def count_at_def below_def attr_response_def call_defs convert_stat_def)
  moreover have "attributes_read se ftype c' i j g h" "looked_up child ftype lookups [] g h"
    using h c'(3) by (auto simp: attributes_read_def looked_up_nil)
  ultimately show ?thesis
    using x(4) m(7) c'(2) by metis
qed

text \<open>The worker that has taken the request of a client answers it.\<close>

lemma stat_processed:
  assumes s: "ok n (FileSystem s)" "length cs < n" "objects_ok s" "below se cs" "passable (is_dir (ftype (FileSystem s))) (child (FileSystem s)) FUSE_ROOT_ID cs"
    and c: "connected se" "Clients s client = Some c" "client < SHM_MESSAGE_COUNT" "working c i FINESSE_FUSE_MESSAGE FINESSE_FUSE_REQ_STAT (stat_request se key cs)"
    and w: "\<forall>j. walk (child (FileSystem s)) FUSE_ROOT_ID cs = Some j \<longrightarrow> ftype (FileSystem s) j \<noteq> S_IFLNK"
  shows "\<exists>t c' f. finesse_process_request se now old_key client (message_address (Base c) i) s = Some t \<and> Clients t = (Clients s)(client \<mapsto> c') \<and> Base c' = Base c
    \<and> looked_up child ftype lookups (visited (child (FileSystem s)) FUSE_ROOT_ID cs) (FileSystem s) f \<and> looked_up child ftype lookups [] f (FileSystem t)
    \<and> (case walk (child (FileSystem s)) FUSE_ROOT_ID cs of
         None \<Rightarrow> answers c' i (- ENOENT) zerostat 0 \<and> objs t = objs s
       | Some j \<Rightarrow> attributes_read se ftype c' i j f (FileSystem t) \<and> recorded j s (objs t))"
proof -
  obtain counts where d: "finesse_process_request se now old_key client (message_address (Base c) i) s
      = map_option snd (Stat se now client (message_address (Base c) i) (s\<lparr>FinesseServerStats := counts\<rparr>))"
    by (rule stat_dispatched [OF c])
  let ?s = "s\<lparr>FinesseServerStats := counts\<rparr>"
  show ?thesis
  proof (cases "walk (child (FileSystem s)) FUSE_ROOT_ID cs")
    case None
    then obtain t c' where "Stat se now client (message_address (Base c) i) ?s = Some (0, t)" "Clients t = (Clients s)(client \<mapsto> c')" "Base c' = Base c"
      "looked_up child ftype lookups (visited (child (FileSystem s)) FUSE_ROOT_ID cs) (FileSystem s) (FileSystem t)" "objs t = objs s" "answers c' i (- ENOENT) zerostat 0"
      using stat_missing [of n ?s cs client c i key now] s c(2-4) by auto
    then show ?thesis
      using d None by (intro exI [of _ t] exI [of _ c'] exI [of _ "FileSystem t"]) (simp add: looked_up_nil)
  next
    case (Some j)
    obtain t c' f where "Stat se now client (message_address (Base c) i) ?s = Some (0, t)" "Clients t = (Clients s)(client \<mapsto> c')" "Base c' = Base c"
      "looked_up child ftype lookups (visited (child (FileSystem s)) FUSE_ROOT_ID cs) (FileSystem s) f" "attributes_read se ftype c' i j f (FileSystem t)"
      "looked_up child ftype lookups [] f (FileSystem t)" "recorded j s (objs t)"
      using stat_found [of n ?s cs client c i key j now] s c(2-4) w Some by auto
    then show ?thesis
      using d Some by (intro exI [of _ t] exI [of _ c'] exI [of _ f]) simp
  qed
qed

text \<open>The whole trip of a request.\<close>

lemma stat_trip:
  fixes s :: "'s server"
  assumes s: "ok n (FileSystem s)" "length cs < n" "objects_ok s" "below se cs" "passable (is_dir (ftype (FileSystem s))) (child (FileSystem s)) FUSE_ROOT_ID cs"
    and c: "connected se" "Clients s client = Some c" "client < SHM_MESSAGE_COUNT" "channel_idle c" "bitmap AND make_mask64 client \<noteq> 0"
    and w: "\<forall>j. walk (child (FileSystem s)) FUSE_ROOT_ID cs = Some j \<longrightarrow> ftype (FileSystem s) j \<noteq> S_IFLNK"
    and path: "path = mountpoint se @ path_of cs" "length path \<le> 3915" and now: "clock_ok (fst nows)"
  shows "\<exists>m c1 s1 t c2 f. FinesseSendCommonStatRequest nows None None 0 (Some path) c = Some (m, c1)
    \<and> scan_for_request later rnd (client # clients) bitmap (s\<lparr>Clients := (Clients s)(client \<mapsto> c1)\<rparr>) = Some (0, Some (client, m), bitmap, s1)
    \<and> finesse_process_request se now old_key client m s1 = Some t \<and> Clients t = (Clients s)(client \<mapsto> c2)
    \<and> looked_up child ftype lookups (visited (child (FileSystem s)) FUSE_ROOT_ID cs) (FileSystem s) f \<and> looked_up child ftype lookups [] f (FileSystem t)
    \<and> (case walk (child (FileSystem s)) FUSE_ROOT_ID cs of
         None \<Rightarrow> (\<exists>c3. FinesseGetStatResponse final m c2 = Some (zerostat, 0, - ENOENT, c3)) \<and> objs t = objs s
       | Some j \<Rightarrow> (\<exists>attr timeout c3. op_getattr (finesse_original_ops se) j f = Some ([reply_attr attr timeout], FileSystem t)
           \<and> st_ino attr = j \<and> st_mode attr AND S_IFMT = ftype (FileSystem s) j
           \<and> FinesseGetStatResponse final m c2 = Some (statout_of (convert_stat attr), resent_timeout se timeout, 0, c3)) \<and> recorded j s (objs t))"
proof -
  obtain i c1 c2 where t: "FinesseSendCommonStatRequest nows None None 0 (Some path) c = Some (message_address (Base c) i, c1)" "Base c2 = Base c"
    "scan_for_request later rnd (client # clients) bitmap (s\<lparr>Clients := (Clients s)(client \<mapsto> c1)\<rparr>)
      = Some (0, Some (client, message_address (Base c) i), bitmap, s\<lparr>Clients := (Clients s)(client \<mapsto> c2)\<rparr>)"
    "working c2 i FINESSE_FUSE_MESSAGE FINESSE_FUSE_REQ_STAT (StatRequest null_key null_key 0 path)"
    by (rule stat_sent [OF c(2,4) now path(2) c(5)])
  let ?s = "s\<lparr>Clients := (Clients s)(client \<mapsto> c2)\<rparr>" and ?W = "walk (child (FileSystem s)) FUSE_ROOT_ID cs"
  obtain t c3 f where p: "finesse_process_request se now old_key client (message_address (Base c) i) ?s = Some t" "Clients t = (Clients s)(client \<mapsto> c3)" "Base c3 = Base c"
    "looked_up child ftype lookups (visited (child (FileSystem s)) FUSE_ROOT_ID cs) (FileSystem s) f" "looked_up child ftype lookups [] f (FileSystem t)"
    "case ?W of None \<Rightarrow> answers c3 i (- ENOENT) zerostat 0 \<and> objs t = objs s | Some j \<Rightarrow> attributes_read se ftype c3 i j f (FileSystem t) \<and> recorded j s (objs t)"
    using stat_processed [of n ?s cs client c2 i null_key now old_key] s c(1,3) w path(1) t(2,4) by (auto cong: option.case_cong)
  have "case ?W of None \<Rightarrow> (\<exists>c'. FinesseGetStatResponse final (message_address (Base c) i) c3 = Some (zerostat, 0, - ENOENT, c')) \<and> objs t = objs s
    | Some j \<Rightarrow> (\<exists>attr timeout c'. op_getattr (finesse_original_ops se) j f = Some ([reply_attr attr timeout], FileSystem t)
        \<and> st_ino attr = j \<and> st_mode attr AND S_IFMT = ftype (FileSystem s) j
        \<and> FinesseGetStatResponse final (message_address (Base c) i) c3 = Some (statout_of (convert_stat attr), resent_timeout se timeout, 0, c')) \<and> recorded j s (objs t)"
  proof (cases ?W)
    case None
    then show ?thesis
      using p(3,6) stat_response [of c3 i "- ENOENT" zerostat 0 final] by auto
  next
    case (Some j)
    then obtain attr timeout where a: "op_getattr (finesse_original_ops se) j f = Some ([reply_attr attr timeout], FileSystem t)" "st_ino attr = j"
      "st_mode attr AND S_IFMT = ftype f j" "answers c3 i 0 (statout_of (convert_stat attr)) (resent_timeout se timeout)" "recorded j s (objs t)"
      using p(6) by (auto simp: attributes_read_def)
    then obtain c' where "FinesseGetStatResponse final (message_address (Base c) i) c3 = Some (statout_of (convert_stat attr), resent_timeout se timeout, 0, c')"
      using stat_response [OF a(4), of final] p(3) by auto
    then show ?thesis
      using Some a p(4) by (auto simp: looked_up_def)
  qed
  then show ?thesis
    using t(1,3) p(1,2,4,5) by blast
qed

end

text \<open>The same trip for a path through something that is not a directory, in a file system that gives up there.\<close>

context aborting_system
begin

lemma stat_barred:
  assumes s: "ok (Suc n) (FileSystem s)" "length cs \<le> n" "below se cs" "\<not> passable (is_dir (ftype (FileSystem s))) (child (FileSystem s)) FUSE_ROOT_ID cs"
    and c: "connected se" "Clients s client = Some c" "client < SHM_MESSAGE_COUNT" "working c i FINESSE_FUSE_MESSAGE FINESSE_FUSE_REQ_STAT (stat_request se key cs)"
  shows "finesse_process_request se now old_key client (message_address (Base c) i) s = None"
proof -
  let ?p = "FinesseAllocateServerPathResolutionParameters FUSE_ROOT_ID (path_of cs) 0"
  obtain counts where d: "finesse_process_request se now old_key client (message_address (Base c) i) s
      = map_option snd (Stat se now client (message_address (Base c) i) (s\<lparr>FinesseServerStats := counts\<rparr>))"
    by (rule stat_dispatched [OF c])
  let ?s = "s\<lparr>FinesseServerStats := counts\<rparr>"
  have p: "ParentIno ?p = FUSE_ROOT_ID" "\<not> CheckSecurity ?p" "PathNameBufferLength ?p \<noteq> 0"
    by (simp_all add: FinesseAllocateServerPathResolutionParameters_def)
  note q = map_request_path [OF s(3) _ null_key_null(1), of FUSE_ROOT_ID]
  have "FinesseServerResolvePathName se ?p ?s = None"
    using resolve_barred [of n ?s cs ?p] s p q(2) [of 0] by (simp add: below_def)
  then have "FinesseServerInternalMapRequest se FUSE_ROOT_ID (Some null_key) (mountpoint se @ path_of cs) 0 ?s = None"
    using q(1) by (simp add: map_path_def)
  then have "Stat se now client (message_address (Base c) i) ?s = None"
    using c stat_object_path [of cs se key ?s] s(3) by (auto simp: Stat_def message_block_def working_def below_def split: bind_splits)
  then show ?thesis
    by (simp add: d)
qed

lemma stat_trip_barred:
  fixes s :: "'s server"
  assumes s: "ok (Suc n) (FileSystem s)" "length cs \<le> n" "below se cs" "\<not> passable (is_dir (ftype (FileSystem s))) (child (FileSystem s)) FUSE_ROOT_ID cs"
    and c: "connected se" "Clients s client = Some c" "client < SHM_MESSAGE_COUNT" "channel_idle c" "bitmap AND make_mask64 client \<noteq> 0"
    and path: "path = mountpoint se @ path_of cs" "length path \<le> 3915" and now: "clock_ok (fst nows)"
  shows "\<exists>m c1 s1. FinesseSendCommonStatRequest nows None None 0 (Some path) c = Some (m, c1)
    \<and> scan_for_request later rnd (client # clients) bitmap (s\<lparr>Clients := (Clients s)(client \<mapsto> c1)\<rparr>) = Some (0, Some (client, m), bitmap, s1)
    \<and> finesse_process_request se now old_key client m s1 = None"
proof -
  obtain i c1 c2 where t: "FinesseSendCommonStatRequest nows None None 0 (Some path) c = Some (message_address (Base c) i, c1)" "Base c2 = Base c"
    "scan_for_request later rnd (client # clients) bitmap (s\<lparr>Clients := (Clients s)(client \<mapsto> c1)\<rparr>)
      = Some (0, Some (client, message_address (Base c) i), bitmap, s\<lparr>Clients := (Clients s)(client \<mapsto> c2)\<rparr>)"
    "working c2 i FINESSE_FUSE_MESSAGE FINESSE_FUSE_REQ_STAT (StatRequest null_key null_key 0 path)"
    by (rule stat_sent [OF c(2,4) now path(2) c(5)])
  then show ?thesis
    using stat_barred [of n "s\<lparr>Clients := (Clients s)(client \<mapsto> c2)\<rparr>" cs client c2 i null_key now old_key] s c(1,3) path(1) by auto
qed

end

end
