(* ===== verification/ServerFs.thy ===== *)
theory ServerFs
  imports ServerStat FsTraces
begin

text \<open>
  The server over the bitbucket file system: the operations that the server calls are the request handlers, and the contract
  on which the proofs about the server rest holds in every state that the file system can reach.
\<close>

section \<open>The session\<close>

definition replied :: "handled \<Rightarrow> (fuse_reply list \<times> bb_state) option" where
  "replied h = map_option snd h"

definition bitbucket_ops :: "fuse_req \<Rightarrow> bb_state fuse_lowlevel_ops" where
  "bitbucket_ops req = \<lparr>op_lookup = (\<lambda>parent name s. replied (handle req (Lookup parent name) s)),
     op_forget = (\<lambda>ino n s. replied (handle req (Forget ino n) s)),
     op_getattr = (\<lambda>ino s. replied (handle req (Getattr ino) s)),
     op_unlink = (\<lambda>parent name s. replied (handle req (FsSpec.Unlink parent name) s)),
     op_access = (\<lambda>ino m s. replied (handle req (FsSpec.Access ino m) s)),
     op_statfs = (\<lambda>ino s. replied (bitbucket_internal_statfs req ino s))\<rparr>"

abbreviation (input) FUSE_KERNEL_MINOR_VERSION :: nat where "FUSE_KERNEL_MINOR_VERSION \<equiv> 31"

definition bitbucket_session :: "fuse_req \<Rightarrow> string \<Rightarrow> (u64 \<Rightarrow> u64) \<Rightarrow> bb_state fuse_session" where
  "bitbucket_session req mp resent = \<lparr>mountpoint = mp, proto_minor = FUSE_KERNEL_MINOR_VERSION, connected = True, finesse_original_ops = bitbucket_ops req,
     resent_timeout = resent\<rparr>"

lemma session_simps [simp]:
  "mountpoint (bitbucket_session req mp resent) = mp" "connected (bitbucket_session req mp resent)"
  "finesse_original_ops (bitbucket_session req mp resent) = bitbucket_ops req" "proto_minor (bitbucket_session req mp resent) = FUSE_KERNEL_MINOR_VERSION"
  "resent_timeout (bitbucket_session req mp resent) = resent"
  by (simp_all add: bitbucket_session_def)

section \<open>The tree of numbers\<close>

abbreviation root_of :: "fuse_req \<Rightarrow> addr" where
  "root_of req \<equiv> RootDirectory (userdata req)"

definition child_number :: "fuse_req \<Rightarrow> bb_state \<Rightarrow> u64 \<Rightarrow> string \<Rightarrow> u64 option" where
  "child_number req s ino name = do { p \<leftarrow> target (root_of req) s ino; x \<leftarrow> names (fs_of s) p name; inos (fs_of s) x }"

definition type_of_number :: "fuse_req \<Rightarrow> bb_state \<Rightarrow> u64 \<Rightarrow> u32" where
  "type_of_number req s ino = (if ino = 0 then 0 else
     (case Option.bind (target (root_of req) s ino) (kinds (fs_of s)) of None \<Rightarrow> 0 | Some k \<Rightarrow> kind_mode k))"

definition lookup_count :: "bb_state \<Rightarrow> u64 \<Rightarrow> nat" where
  "lookup_count s j = (case table_map s j of None \<Rightarrow> 0 | Some a \<Rightarrow> refs (fs_of s) a INODE_FUSE_LOOKUP_REFERENCE)"

text \<open>A state in which \<^verbatim>\<open>n\<close> further requests are served.\<close>

definition serves :: "fuse_req \<Rightarrow> nat \<Rightarrow> bb_state \<Rightarrow> bool" where
  "serves req n s \<longleftrightarrow> (\<exists>k. reachable req k s \<and> k + n \<le> 2 ^ 30)"

lemma servesD:
  assumes "serves req (Suc n) s"
  obtains k where "serving req (root_of req) k s" "fs_ok (root_of req) s" "\<forall>t. reachable req (Suc k) t \<longrightarrow> serves req n t"
proof -
  obtain k where k: "reachable req k s" "k + Suc n \<le> 2 ^ 30"
    using assms by (auto simp: serves_def)
  then have "serving req (root_of req) k s"
    by (simp add: serving_def)
  moreover have "serves req n t" if "reachable req (Suc k) t" for t
    using k(2) that by (auto simp: serves_def intro!: exI [of _ "Suc k"])
  ultimately show thesis
    using that servingD by blast
qed

lemma same_numbers:
  assumes "fs_ok root s" "fs_ok root t" "inos (fs_of t) = inos (fs_of s)"
  shows "target r t = target r s" "table_map t = table_map s"
proof -
  have "table_map t n = table_map s n" for n
    using ino_table [OF fs_okD(1) [OF assms(1)], of n] ino_table [OF fs_okD(1) [OF assms(2)], of n] assms(3)
    by (metis (no_types, lifting) fs.select_convs(3) fs_of_def not_None_eq)
  then show "table_map t = table_map s" "target r t = target r s"
    by (auto simp: fun_eq_iff target_def)
qed

text \<open>The numbers of inodes are neither zero nor that of the root.\<close>

lemma number_range:
  assumes "serving req root k s" "inos (fs_of s) x = Some j"
  shows "j \<noteq> 0" "j \<noteq> FUSE_ROOT_ID"
proof -
  have "table_map s j = Some x"
    using ino_table [OF fs_okD(1) [OF servingD [OF assms(1)]], of j x] assms(2) by (simp add: fs_of_def)
  then show "j \<noteq> 0"
    by (metis option.distinct(1) table_map_zero)
  obtain y b where "ready req y b (64 + 2 * k) s"
    using reachable_ready [of req k s] assms(1) by (auto simp: serving_def)
  then obtain m where "m \<le> 64 + 2 * k" "numbered y b m (fs_of s)" "steady y b"
    by (auto simp: ready_def budget_def)
  moreover from this obtain i where "i < m" "j = y + of_nat i * b"
    using assms(2) unfolding numbered_def by blast
  moreover have "k < 2 ^ 30"
    using assms(1) by (simp add: serving_def)
  ultimately show "j \<noteq> FUSE_ROOT_ID"
    by (simp add: steady_def)
qed

section \<open>The contract\<close>

lemma same_tree:
  assumes "fs_ok (root_of req) s" "fs_ok (root_of req) t" "inos (fs_of t) = inos (fs_of s)" "names (fs_of t) = names (fs_of s)" "kinds (fs_of t) = kinds (fs_of s)"
  shows "child_number req t = child_number req s" "type_of_number req t = type_of_number req s"
proof -
  note T = same_numbers(1) [OF assms(1-3)]
  show "child_number req t = child_number req s"
    by (intro ext) (simp add: child_number_def T assms(3,4))
  show "type_of_number req t = type_of_number req s"
    by (rule ext) (simp add: type_of_number_def T assms(5))
qed

lemma number_directory:
  assumes "is_dir (type_of_number req s) ino"
  obtains p where "target (root_of req) s ino = Some p" "\<not> not_dir (fs_of s) p" "ino \<noteq> 0"
proof -
  obtain p k where "target (root_of req) s ino = Some p" "kinds (fs_of s) p = Some k" "kind_mode k = S_IFDIR" "ino \<noteq> 0"
    using assms by (auto simp: is_dir_def type_of_number_def split: if_splits option.splits bind_splits)
  then show thesis
    using that by (cases k) (simp_all add: not_dir_def)
qed

lemma described_type:
  "target (root_of req) s j = Some x \<Longrightarrow> described (fs_of s) x attr \<Longrightarrow> j \<noteq> 0 \<Longrightarrow> st_mode attr AND S_IFMT = type_of_number req s j"
  by (auto simp: type_of_number_def described_def)

lemma child_entry:
  assumes s: "serving req (root_of req) k s" "is_dir (type_of_number req s) ino" "child_number req s ino name = Some j"
  obtains p x where "known (root_of req) (fs_of s) ino p" "ino \<noteq> 0" "names (fs_of s) p name = Some x" "inos (fs_of s) x = Some j"
    "target (root_of req) s j = Some x" "table_map s j = Some x" "j \<noteq> 0"
proof -
  obtain p x where p: "target (root_of req) s ino = Some p" "names (fs_of s) p name = Some x" "inos (fs_of s) x = Some j"
    using s(3) by (auto simp: child_number_def split: bind_splits)
  have "table_map s j = Some x"
    using ino_table [OF fs_okD(1) [OF servingD [OF s(1)]], of j x] p(3) by (simp add: fs_of_def)
  then show thesis
    using that p target_known [OF fs_okD(1) [OF servingD [OF s(1)]], of "root_of req" ino p] number_directory [OF s(2)] number_range [OF s(1) p(3)]
    by (metis target_def)
qed

lemma lookup_of_child:
  assumes s: "serves req (Suc n) s" and i: "is_dir (type_of_number req s) ino" "child_number req s ino name = Some j"
  shows "\<exists>e t. op_lookup (bitbucket_ops req) ino name s = Some ([reply_entry e], t) \<and> fep_ino e = j \<and> st_ino (fep_attr e) = j \<and> j \<noteq> 0
    \<and> st_mode (fep_attr e) AND S_IFMT = type_of_number req s j
    \<and> serves req n t \<and> child_number req t = child_number req s \<and> type_of_number req t = type_of_number req s \<and> lookup_count t = (lookup_count s)(j := lookup_count s j + 1)"
proof -
  obtain k where k: "serving req (root_of req) k s" "fs_ok (root_of req) s" "\<forall>t. reachable req (Suc k) t \<longrightarrow> serves req n t"
    by (rule servesD [OF s])
  obtain p x where p: "known (root_of req) (fs_of s) ino p" "ino \<noteq> 0" "names (fs_of s) p name = Some x" "inos (fs_of s) x = Some j" "target (root_of req) s j = Some x"
    "table_map s j = Some x" "j \<noteq> 0"
    by (rule child_entry [OF k(1) i])
  obtain e t where t: "handle req (Lookup ino name) s = Some (0, [reply_entry e], t)" "described (fs_of s) x (fep_attr e)" "fep_ino e = st_ino (fep_attr e)"
    "fs_of t = ref_add 5 x (fs_of s)" "reachable req (Suc k) t"
    by (rule lookup_found [OF k(1) p(1-3)])
  have ok: "fs_ok (root_of req) t"
    using reachable_ok [OF t(5)] k(1) by (simp add: serving_def)
  have v: "inos (fs_of t) = inos (fs_of s)" "names (fs_of t) = names (fs_of s)" "kinds (fs_of t) = kinds (fs_of s)"
    by (simp_all add: t(4) ref_add_def)
  have "lookup_count t i = ((lookup_count s)(j := lookup_count s j + 1)) i" for i
  proof (cases "table_map s i")
    case (Some y)
    then have "y = x \<longleftrightarrow> i = j"
      using ino_table [OF fs_okD(1) [OF k(2)], of i y] p(4,6) by (auto simp: fs_of_def)
    then show ?thesis
      using Some p(6) by (auto simp: lookup_count_def same_numbers(2) [OF k(2) ok v(1)] t(4) ref_add_def)
  qed (use p(6) in \<open>auto simp: lookup_count_def same_numbers(2) [OF k(2) ok v(1)]\<close>)
  moreover have "st_mode (fep_attr e) AND S_IFMT = type_of_number req s j"
    by (rule described_type [OF p(5) t(2) p(7)])
  ultimately show ?thesis
    using t p(4,7) k(3) same_tree [OF k(2) ok v] by (auto simp: bitbucket_ops_def replied_def described_def fun_eq_iff)
qed

lemma lookup_of_nothing:
  assumes s: "serves req (Suc n) s" and i: "is_dir (type_of_number req s) ino" "child_number req s ino name = None"
  shows "\<exists>t. op_lookup (bitbucket_ops req) ino name s = Some ([reply_err ENOENT], t)
    \<and> serves req n t \<and> child_number req t = child_number req s \<and> type_of_number req t = type_of_number req s \<and> lookup_count t = lookup_count s"
proof -
  obtain k where k: "serving req (root_of req) k s" "fs_ok (root_of req) s" "\<forall>t. reachable req (Suc k) t \<longrightarrow> serves req n t"
    by (rule servesD [OF s])
  obtain p where p: "target (root_of req) s ino = Some p" "\<not> not_dir (fs_of s) p" "ino \<noteq> 0"
    by (rule number_directory [OF i(1)])
  have "names (fs_of s) p name = None"
  proof (cases "names (fs_of s) p name")
    case (Some x)
    then have "inos (fs_of s) x \<noteq> None"
      using names_live [OF k(2)] by blast
    then show ?thesis
      using i(2) p(1) Some by (simp add: child_number_def)
  qed
  then obtain t where t: "handle req (Lookup ino name) s = Some (ENOENT, [reply_err ENOENT], t)" "fs_of t = fs_of s" "reachable req (Suc k) t"
    using lookup_missing [OF k(1) _ p(3) _ p(2)] p(1) target_known [OF fs_okD(1) [OF k(2)], of "root_of req" ino p] by metis
  have ok: "fs_ok (root_of req) t"
    using reachable_ok [OF t(3)] k(1) by (simp add: serving_def)
  show ?thesis
    using t k(3) same_tree [OF k(2) ok] same_numbers [OF k(2) ok] by (auto simp: bitbucket_ops_def replied_def fun_eq_iff lookup_count_def split: option.splits)
qed

lemma attributes_of_child:
  assumes s: "serves req (Suc n) s" and i: "is_dir (type_of_number req s) ino" "child_number req s ino name = Some j"
  shows "\<exists>attr timeout t. op_getattr (bitbucket_ops req) j s = Some ([reply_attr attr timeout], t) \<and> st_ino attr = j \<and> st_mode attr AND S_IFMT = type_of_number req s j
    \<and> serves req n t \<and> child_number req t = child_number req s \<and> type_of_number req t = type_of_number req s \<and> lookup_count t = lookup_count s"
proof -
  obtain k where k: "serving req (root_of req) k s" "fs_ok (root_of req) s" "\<forall>t. reachable req (Suc k) t \<longrightarrow> serves req n t"
    by (rule servesD [OF s])
  obtain x where x: "target (root_of req) s j = Some x" "j \<noteq> 0" "inos (fs_of s) x = Some j"
    by (rule child_entry [OF k(1) i])
  then obtain attr timeout t where t: "handle req (Getattr j) s = Some (0, [reply_attr attr timeout], t)" "described (fs_of s) x attr" "fs_of t = fs_of s" "reachable req (Suc k) t"
    using getattr_known [OF k(1), of j x] target_known [OF fs_okD(1) [OF k(2)], of "root_of req" j x] by metis
  have "st_ino attr = j" "st_mode attr AND S_IFMT = type_of_number req s j"
    using described_type [OF x(1) t(2) x(2)] x(3) t(2) by (auto simp: described_def)
  moreover have ok: "fs_ok (root_of req) t"
    using reachable_ok [OF t(4)] k(1) by (simp add: serving_def)
  ultimately show ?thesis
    using t x(1) k(3) same_tree [OF k(2) ok] same_numbers [OF k(2) ok]
    by (intro exI [of _ attr] exI [of _ timeout] exI [of _ t]) (auto simp: bitbucket_ops_def replied_def fun_eq_iff lookup_count_def split: option.splits)
qed

interpretation bf: file_system "bitbucket_session req mp resent" "serves req" "child_number req" "type_of_number req" lookup_count
  for req mp resent
  by (unfold_locales, unfold session_simps) (simp, (rule lookup_of_child lookup_of_nothing; assumption)+)

interpretation bb: attribute_system "bitbucket_session req mp resent" "serves req" "child_number req" "type_of_number req" lookup_count
  for req mp resent
  by (unfold_locales, unfold session_simps) (rule attributes_of_child; assumption)

text \<open>A lookup in a file ends the program.\<close>

lemma root_is_directory:
  assumes "serves req (Suc n) s"
  shows "is_dir (type_of_number req s) FUSE_ROOT_ID"
proof -
  have ok: "fs_ok (root_of req) s"
    using servesD [OF assms] by blast
  then have "kinds (fs_of s) (root_of req) = Some DirectoryObjectAttributes"
    using kind_dirs [OF fs_okD(1) [OF ok], of "root_of req"] fs_okD(4) [OF ok] by simp
  then show ?thesis
    by (simp add: is_dir_def type_of_number_def target_def)
qed

lemma lookup_in_file:
  assumes s: "serves req (Suc n) s" and i: "is_dir (type_of_number req s) ino" "child_number req s ino name = Some j" "\<not> is_dir (type_of_number req s) j"
  shows "op_lookup (bitbucket_ops req) j other s = None"
proof -
  obtain k where k: "serving req (root_of req) k s" "fs_ok (root_of req) s"
    using servesD [OF s] by blast
  obtain x where x: "target (root_of req) s j = Some x" "j \<noteq> 0"
    by (rule child_entry [OF k(1) i(1,2)])
  note room = serving_mounted(1) [OF k(1), unfolded eval_nat_numeral BitM.simps numeral_1_eq_Suc_0]
  obtain t i where t: "get_inode req j s = Some (x, t)" "fs_ok (root_of req) t" "fs_of t = ref_add 0 x (fs_of s)" "x \<noteq> NULL" "Inodes t x = Some i"
    using begin_known [OF k(2) refl x(2) room x(1)] by auto
  have "kinds (fs_of s) x \<noteq> Some DirectoryObjectAttributes"
    using i(3) x by (auto simp: is_dir_def type_of_number_def)
  then have "InodeType i \<noteq> BITBUCKET_DIR_TYPE"
    using kind_type(1) [OF fs_okD(1) [OF t(2)] t(5)] t(3) by simp
  then have "BitbucketLookupObjectInDirectory x other t = None"
    using t(4,5) by (simp add: BitbucketLookupObjectInDirectory_def)
  then show ?thesis
    using t(1,4) by (simp add: bitbucket_ops_def replied_def bitbucket_internal_lookup_def)
qed

interpretation ba: aborting_system "bitbucket_session req mp resent" "serves req" "child_number req" "type_of_number req" lookup_count
  for req mp resent
  by (unfold_locales, unfold session_simps) (rule root_is_directory lookup_in_file; assumption)+

section \<open>Removal of names\<close>

lemma unlink_in_file:
  assumes s: "serves req (Suc n) s" and j: "target (root_of req) s j = Some x" "j \<noteq> 0" "not_dir (fs_of s) x" and name: "name \<noteq> []"
  obtains t where "op_unlink (bitbucket_ops req) j name s = Some ([reply_err EISDIR], t)" "fs_of t = fs_of s" "fs_ok (root_of req) s" "fs_ok (root_of req) t"
proof -
  obtain k where k: "serving req (root_of req) k s" "fs_ok (root_of req) s"
    by (rule servesD [OF s])
  have x: "known (root_of req) (fs_of s) j x"
    using j(1) target_known [OF fs_okD(1) [OF k(2)], of "root_of req" j x] by simp
  note u = known_unique [OF k(2) x]
  have "names (fs_of s) x name = None"
    using names_directory [OF k(2), of x name] j(3) by (cases "names (fs_of s) x name") auto
  then have "allowed (root_of req) (fs_of s) (FsSpec.Unlink j name)"
    using j(2) name u by auto
  then obtain status replies t where t: "handle req (FsSpec.Unlink j name) s = Some (status, replies, t)"
    "fs_step (root_of req) (fs_of s) (FsSpec.Unlink j name) status replies (fs_of t)" "reachable req (Suc k) t"
    by (rule serving_step [OF k(1)])
  from t(2) have "status = EISDIR \<and> replies = [reply_err EISDIR] \<and> fs_of t = fs_of s"
    by (rule unlink_stepE) (use x u j(3) names_directory [OF k(2)] in \<open>auto\<close>)
  moreover have "fs_ok (root_of req) t"
    using reachable_ok [OF t(3)] k(1) by (simp add: serving_def)
  ultimately show thesis
    using that [of t] t(1) k(2) by (simp add: bitbucket_ops_def replied_def)
qed

lemma file_number:
  assumes "type_of_number req s j = S_IFREG"
  obtains x where "target (root_of req) s j = Some x" "j \<noteq> 0" "not_dir (fs_of s) x"
proof -
  obtain x k where "target (root_of req) s j = Some x" "kinds (fs_of s) x = Some k" "kind_mode k = S_IFREG" "j \<noteq> 0"
    using assms by (auto simp: type_of_number_def split: if_splits option.splits bind_splits)
  then show thesis
    using that by (cases k) (simp_all add: not_dir_def)
qed

end
