(* ===== verification/ServerRequests.thy ===== *)
theory ServerRequests
  imports ServerFs
begin

text \<open>
  What clients of the server get for their requests when the file system is the bitbucket: the
  attributes of what a path leads to, a success for the removal of a name that stays, and no answer to a
  question about access, which ends the server.
\<close>

section \<open>A server\<close>

text \<open>A server with an empty table of objects, one client and a file system that has been mounted.\<close>

definition sample_server :: "lookup_state \<Rightarrow> channel \<Rightarrow> bb_state \<Rightarrow> bb_state server" where
  "sample_server tab c f = \<lparr>FileSystem = f, ObjectTable = (True, tab), Clients = [0 \<mapsto> c], finesse_alloc_count = 0, finesse_free_count = 0,
     new_uuid = (\<lambda>k. 1 # replicate 15 (of_nat k)), uuid_count = 0,
     FinesseServerStats = \<lparr>StatVersion = 0, StatLength = 0, ClientConnectionCount = 0, ActiveNameMaps = 0,
       FuseRequests = [], FuseResponses = [], NativeRequests = [], NativeResponses = []\<rparr>\<rparr>"

definition sample_channel :: channel where
  "sample_channel = \<lparr>Base = 4096, Region = FinesseInitializeMemoryRegion example_region, Params = (\<lambda>_. TestRequest 0)\<rparr>"

lemma sample_channel_idle: "channel_idle sample_channel"
  by (simp add: channel_idle_def sample_channel_def FinesseInitializeMemoryRegion_def example_region_def region_ok_def eq_commute [of "{}"] lessThan_empty_iff)

lemma sample_objects:
  obtains tab where "lookup_inv tab" "objects tab = Map.empty"
proof -
  obtain k tab where tab: "FinesseCreateTable 64 0 = Some tab" "k \<in> {10..15}" "BucketCountShift tab = k"
    "\<forall>s. Entries s = Map.empty \<and> 0 < next_address s \<longrightarrow> lookup_inv (s\<lparr>Table := tab\<rparr>) \<and> objects (s\<lparr>Table := tab\<rparr>) = Map.empty"
    by (rule create_table)
  then show thesis
    using that tab(4) [rule_format, of "\<lparr>Table = tab, Entries = Map.empty, FreedInodeList = [], FreedUuidList = [], next_address = 4096\<rparr>"] by auto
qed

lemma sample_server_objects: "lookup_inv tab \<Longrightarrow> objects tab = Map.empty \<Longrightarrow> objects_ok (sample_server tab c f)"
  by (simp add: objects_ok_def sample_server_def uuid_is_null_def)

text \<open>A file \<^verbatim>\<open>file\<close> in the root directory.\<close>

lemma sample_path:
  obtains req f j where "serves req 100 f" "child_number req f FUSE_ROOT_ID ''file'' = Some j" "type_of_number req f FUSE_ROOT_ID = S_IFDIR"
    "type_of_number req f j = S_IFREG"
proof -
  obtain req s root magic where s: "reachable req 0 s" "RootDirectory (userdata req) = root" "allowed root (fs_of s) (Create 1 ''file'' S_IFREG sample_info)"
    "known root (fs_of s) 1 root" "names (fs_of s) root ''Bitbucket'' = Some magic"
    by (rule sample_file)
  have serv: "serving req root 0 s"
    using s(1,2) by (simp add: serving_def)
  obtain e :: fuse_entry_param and x m t where t: "reachable req (Suc 0) t" "fs_of t = with_file root ''file'' x (fep_ino e) m (Some x) (held_by 1 1 1) (fs_of s)" "root \<noteq> x" "fep_ino e \<noteq> 0"
     "\<not> not_dir (fs_of s) root" "fep_ino e \<noteq> FUSE_ROOT_ID"
    by (rule file_opened [OF serv s(4,3)]) blast
  have "fs_ok root t"
    using reachable_ok [OF t(1)] s(2) by simp
  then have x: "target root t (fep_ino e) = Some x" "target root t 1 = Some root"
    using target_known [OF fs_okD(1), of root t root] t(2,4,6) by (auto simp: known_def with_file_def)
  have "serves req 100 t"
    using t(1) by (auto simp: serves_def intro!: exI [of _ "Suc 0"])
  moreover have "child_number req t FUSE_ROOT_ID ''file'' = Some (fep_ino e)" "type_of_number req t FUSE_ROOT_ID = S_IFDIR" "type_of_number req t (fep_ino e) = S_IFREG"
    using x t(2-5) s(2) by (auto simp: child_number_def type_of_number_def with_file_def not_dir_def)
  ultimately show thesis
    by (rule that)
qed

section \<open>Attributes of a path\<close>

text \<open>
  C4: A client that asks for the attributes of a path below the mount point gets them, if everything on the path in which a
  further name is looked up is a directory (for the other paths see the next property) and what it leads to
  is not a symbolic link, which no handler creates.  The path has at most 3915 characters, its rest below the mount point does not
  begin with the mount point again, the channel of the client holds no other request, and the table of objects is consistent and does
  not have the next identifier that is generated.
  The request that the client puts in its
  channel is found by the server and processed, without abort, by one lookup for each component; the client
  reads an answer with the status 0 and the attributes that the file system gives for the number at the end of
  the path (but for the seconds of the last time, see \<^verbatim>\<open>statout_of\<close>), or with \<^verbatim>\<open>-ENOENT\<close> and zeros if a
  component does not exist.  The tree of names and the types stay as they are; each inode on the way has one more
  lookup than before, which nobody takes back; the table of objects has an object for the number, which it keeps.
\<close>

theorem stat_follows_the_path:
  assumes s: "serves req n (FileSystem s)" "length cs < n" "objects_ok s" "below (bitbucket_session req mp resent) cs"
      "passable (is_dir (type_of_number req (FileSystem s))) (child_number req (FileSystem s)) FUSE_ROOT_ID cs"
    and c: "Clients s client = Some c" "client < SHM_MESSAGE_COUNT" "channel_idle c" "bitmap AND make_mask64 client \<noteq> 0"
    and w: "\<forall>j. walk (child_number req (FileSystem s)) FUSE_ROOT_ID cs = Some j \<longrightarrow> type_of_number req (FileSystem s) j \<noteq> S_IFLNK"
    and path: "path = mp @ path_of cs" "length path \<le> 3915" and now: "clock_ok (fst nows)"
  shows "\<exists>m c1 s1 t c2 f. FinesseSendCommonStatRequest nows None None 0 (Some path) c = Some (m, c1)
    \<and> scan_for_request later rnd (client # clients) bitmap (s\<lparr>Clients := (Clients s)(client \<mapsto> c1)\<rparr>) = Some (0, Some (client, m), bitmap, s1)
    \<and> finesse_process_request (bitbucket_session req mp resent) now old_key client m s1 = Some t \<and> Clients t = (Clients s)(client \<mapsto> c2)
    \<and> looked_up (child_number req) (type_of_number req) lookup_count (visited (child_number req (FileSystem s)) FUSE_ROOT_ID cs) (FileSystem s) f
    \<and> looked_up (child_number req) (type_of_number req) lookup_count [] f (FileSystem t)
    \<and> (case walk (child_number req (FileSystem s)) FUSE_ROOT_ID cs of
         None \<Rightarrow> (\<exists>c3. FinesseGetStatResponse final m c2 = Some (zerostat, 0, - ENOENT, c3)) \<and> objs t = objs s
       | Some j \<Rightarrow> (\<exists>attr timeout c3. op_getattr (bitbucket_ops req) j f = Some ([reply_attr attr timeout], FileSystem t)
           \<and> st_ino attr = j \<and> st_mode attr AND S_IFMT = type_of_number req (FileSystem s) j
           \<and> FinesseGetStatResponse final m c2 = Some (statout_of (convert_stat attr), resent timeout, 0, c3)) \<and> recorded j s (objs t))"
  by (rule bb.stat_trip [of req n s cs mp resent, unfolded session_simps, OF s session_simps(2) c w path now])

theorem stat_follows_the_path_witness:
  "\<exists>req f tab j m c1 s1 t c2 attr timeout c3. walk (child_number req f) FUSE_ROOT_ID [''file''] = Some j
    \<and> FinesseSendCommonStatRequest (example_time, example_time) None None 0 (Some ''/mnt/file'') sample_channel = Some (m, c1)
    \<and> scan_for_request example_time 0 [0] 1 ((sample_server tab sample_channel f)\<lparr>Clients := [0 \<mapsto> c1]\<rparr>) = Some (0, Some (0, m), 1, s1)
    \<and> finesse_process_request (bitbucket_session req ''/mnt'' id) example_time [] 0 m s1 = Some t \<and> Clients t 0 = Some c2
    \<and> FinesseGetStatResponse example_time m c2 = Some (statout_of (convert_stat attr), timeout, 0, c3) \<and> st_ino attr = j"
proof -
  obtain req f j where f: "serves req 100 f" "child_number req f FUSE_ROOT_ID ''file'' = Some j" "type_of_number req f FUSE_ROOT_ID = S_IFDIR"
    "type_of_number req f j = S_IFREG"
    by (rule sample_path)
  obtain tab where tab: "lookup_inv tab" "objects tab = Map.empty"
    by (rule sample_objects)
  let ?s = "sample_server tab sample_channel f"
  have s: "FileSystem ?s = f" "Clients ?s = [0 \<mapsto> sample_channel]"
    by (simp_all add: sample_server_def)
  have w: "walk (child_number req f) FUSE_ROOT_ID [''file''] = Some j"
    using f(2) by simp
  have "below (bitbucket_session req ''/mnt'' id) [''file'']" "passable (is_dir (type_of_number req f)) (child_number req f) FUSE_ROOT_ID [''file'']"
    "(1 :: u64) AND make_mask64 0 \<noteq> 0" "''/mnt/file'' = ''/mnt'' @ path_of [''file'']"
    using f(2,3) by (simp_all add: below_def component_def path_of_def is_dir_def make_mask64_def)
  note h = this
  have l: "length [''file''] < 100" "length ''/mnt/file'' \<le> 3915" "clock_ok (fst (example_time, example_time))" "0 < SHM_MESSAGE_COUNT" "[0 \<mapsto> sample_channel] (0 :: nat) = Some sample_channel"
    "\<forall>i. Some j = Some i \<longrightarrow> type_of_number req f i \<noteq> S_IFLNK"
    using f(4) example_time_ok by simp_all
  obtain m c1 s1 t c2 where "FinesseSendCommonStatRequest (example_time, example_time) None None 0 (Some ''/mnt/file'') sample_channel = Some (m, c1)"
    "scan_for_request example_time 0 [0] 1 (?s\<lparr>Clients := [0 \<mapsto> sample_channel](0 \<mapsto> c1)\<rparr>) = Some (0, Some (0, m), 1, s1)"
    "finesse_process_request (bitbucket_session req ''/mnt'' id) example_time [] 0 m s1 = Some t" "Clients t = [0 \<mapsto> sample_channel](0 \<mapsto> c2)"
    "\<exists>attr timeout c3. st_ino attr = j \<and> FinesseGetStatResponse example_time m c2 = Some (statout_of (convert_stat attr), id timeout, 0, c3)"
    using stat_follows_the_path [where req = req and s = ?s and cs = "[''file'']" and client = 0 and c = sample_channel and later = example_time and rnd = 0 and clients = "[]"
        and now = example_time and old_key = "[]" and final = example_time, unfolded s w option.case, OF f(1) l(1) sample_server_objects [OF tab] h(1,2) l(5,4) sample_channel_idle h(3) l(6) h(4) l(2,3)] by blast
  then show ?thesis
    using w by fastforce
qed

text \<open>
  C25: A client that asks for the attributes of a path below the mount point that goes on below something that is not a
  directory ends the server.  Its request is found and processed, but the lookup of a name in a
  regular file fails an assertion of the file system, where an answer with \<^verbatim>\<open>-ENOTDIR\<close> is due.
\<close>

theorem stat_through_a_file_aborts:
  assumes s: "serves req (Suc n) (FileSystem s)" "length cs \<le> n" "below (bitbucket_session req mp resent) cs"
      "\<not> passable (is_dir (type_of_number req (FileSystem s))) (child_number req (FileSystem s)) FUSE_ROOT_ID cs"
    and c: "Clients s client = Some c" "client < SHM_MESSAGE_COUNT" "channel_idle c" "bitmap AND make_mask64 client \<noteq> 0"
    and path: "path = mp @ path_of cs" "length path \<le> 3915" and now: "clock_ok (fst nows)"
  shows "\<exists>m c1 s1. FinesseSendCommonStatRequest nows None None 0 (Some path) c = Some (m, c1)
    \<and> scan_for_request later rnd (client # clients) bitmap (s\<lparr>Clients := (Clients s)(client \<mapsto> c1)\<rparr>) = Some (0, Some (client, m), bitmap, s1)
    \<and> finesse_process_request (bitbucket_session req mp resent) now old_key client m s1 = None"
  by (rule ba.stat_trip_barred [of req n s cs mp resent, unfolded session_simps, OF s session_simps(2) c path now])

theorem stat_through_a_file_aborts_witness:
  "\<exists>req f tab m c1 s1. FinesseSendCommonStatRequest (example_time, example_time) None None 0 (Some ''/mnt/file/x'') sample_channel = Some (m, c1)
    \<and> scan_for_request example_time 0 [0] 1 ((sample_server tab sample_channel f)\<lparr>Clients := [0 \<mapsto> c1]\<rparr>) = Some (0, Some (0, m), 1, s1)
    \<and> finesse_process_request (bitbucket_session req ''/mnt'' id) example_time [] 0 m s1 = None"
proof -
  obtain req f j where f: "serves req 100 f" "child_number req f FUSE_ROOT_ID ''file'' = Some j" "type_of_number req f FUSE_ROOT_ID = S_IFDIR"
    "type_of_number req f j = S_IFREG"
    by (rule sample_path)
  let ?s = "sample_server undefined sample_channel f"
  have s: "FileSystem ?s = f" "Clients ?s = [0 \<mapsto> sample_channel]"
    by (simp_all add: sample_server_def)
  have n: "serves req (Suc 99) f"
    using f(1) by simp
  have h: "below (bitbucket_session req ''/mnt'' id) [''file'', ''x'']" "\<not> passable (is_dir (type_of_number req f)) (child_number req f) FUSE_ROOT_ID [''file'', ''x'']"
    "(1 :: u64) AND make_mask64 0 \<noteq> 0" "''/mnt/file/x'' = ''/mnt'' @ path_of [''file'', ''x'']" "length [''file'', ''x''] \<le> 99" "length ''/mnt/file/x'' \<le> 3915"
    "clock_ok (fst (example_time, example_time))" "0 < SHM_MESSAGE_COUNT" "[0 \<mapsto> sample_channel] (0 :: nat) = Some sample_channel"
    using f(2-4) example_time_ok by (simp_all add: below_def component_def path_of_def is_dir_def make_mask64_def)
  obtain m c1 s1 where "FinesseSendCommonStatRequest (example_time, example_time) None None 0 (Some ''/mnt/file/x'') sample_channel = Some (m, c1)"
    "scan_for_request example_time 0 [0] 1 (?s\<lparr>Clients := [0 \<mapsto> sample_channel](0 \<mapsto> c1)\<rparr>) = Some (0, Some (0, m), 1, s1)"
    "finesse_process_request (bitbucket_session req ''/mnt'' id) example_time [] 0 m s1 = None"
    using stat_through_a_file_aborts [where req = req and s = ?s and cs = "[''file'', ''x'']" and client = 0 and c = sample_channel and later = example_time and rnd = 0 and clients = "[]"
        and now = example_time and old_key = "[]", unfolded s, OF n h(5,1,2,9,8) sample_channel_idle h(3,4,6,7)] by blast
  then show ?thesis
    by fastforce
qed

section \<open>Removal of a name\<close>

lemma unlink_response:
  assumes "working c i FINESSE_FUSE_MESSAGE FINESSE_FUSE_REQ_UNLINK p" "clients client = Some c" "client < SHM_MESSAGE_COUNT"
  obtains c' where "FinesseSendUnlinkResponse now client (message_address (Base c) i) status clients = Some (clients(client \<mapsto> c'))" "Base c' = Base c"
    "\<exists>d. FinesseGetUnlinkResponse final (message_address (Base c) i) c' = Some (0, d)"
proof -
  obtain c' where c': "fill_response now client (message_address (Base c) i) status FINESSE_FUSE_MESSAGE FINESSE_FUSE_RSP_ERR None None clients = Some (clients(client \<mapsto> c'))"
    "Base c' = Base c" "reads c' i FINESSE_FUSE_MESSAGE FINESSE_FUSE_RSP_ERR None p"
    using response_taken [OF assms(1), of clients client now status FINESSE_FUSE_MESSAGE FINESSE_FUSE_RSP_ERR None None] assms(2,3) by auto
  moreover obtain b d where "take_response final (message_address (Base c') i) c' = Some (b, p, d)" "Version (Data b) = FINESSE_MESSAGE_VERSION"
    "MessageClass (Data b) = FINESSE_FUSE_MESSAGE" "MsgKind (Data b) = FINESSE_FUSE_RSP_ERR"
    using c'(3) unfolding reads_def by blast
  ultimately show thesis
    using that by (simp add: FinesseSendUnlinkResponse_def FinesseGetUnlinkResponse_def is_fuse_response_def)
qed

text \<open>
  C39: A client that asks the server to remove the name of a regular file is told that this has been done, but the
  name is still there.  After the lookups along the path, the server asks the file system to remove the whole path from the inode of
  the file itself; the file system answers with \<^verbatim>\<open>EISDIR\<close> and keeps its tree of names and types, and the client gets the result 0.
\<close>

theorem unlink_removes_nothing:
  assumes s: "serves req n (FileSystem s)" "length cs < n" "objects_ok s" "below (bitbucket_session req mp resent) cs"
      "passable (is_dir (type_of_number req (FileSystem s))) (child_number req (FileSystem s)) FUSE_ROOT_ID cs"
    and j: "walk (child_number req (FileSystem s)) FUSE_ROOT_ID cs = Some j" "type_of_number req (FileSystem s) j = S_IFREG"
    and c: "Clients s client = Some c" "client < SHM_MESSAGE_COUNT" "working c i FINESSE_FUSE_MESSAGE FINESSE_FUSE_REQ_UNLINK (UnlinkRequest null_key (mp @ path_of cs))"
  shows "\<exists>t c' d. Server.Unlink (bitbucket_session req mp resent) now client (message_address (Base c) i) s = Some (0, t) \<and> Clients t = (Clients s)(client \<mapsto> c')
    \<and> FinesseGetUnlinkResponse final (message_address (Base c) i) c' = Some (0, d)
    \<and> (\<exists>f. looked_up (child_number req) (type_of_number req) lookup_count (visited (child_number req (FileSystem s)) FUSE_ROOT_ID cs) (FileSystem s) f
        \<and> op_unlink (bitbucket_ops req) j (mp @ path_of cs) f = Some ([reply_err EISDIR], FileSystem t))
    \<and> child_number req (FileSystem t) = child_number req (FileSystem s) \<and> type_of_number req (FileSystem t) = type_of_number req (FileSystem s)"
proof -
  let ?se = "bitbucket_session req mp resent"
  obtain k g a tab where m: "FinesseServerInternalMapRequest ?se FUSE_ROOT_ID (Some null_key) (mp @ path_of cs) 0 s
      = Some (0, a, (called k g s)\<lparr>uuid_count := uuid_count s + 1, ObjectTable := (True, tab)\<rparr>)"
    "lookup_inv tab" "mapped j a s (objects tab)" "k \<le> length cs" "serves req (n - k) g"
    "child_number req g = child_number req (FileSystem s)" "type_of_number req g = type_of_number req (FileSystem s)"
    "looked_up (child_number req) (type_of_number req) lookup_count (visited (child_number req (FileSystem s)) FUSE_ROOT_ID cs) (FileSystem s) g"
    using bf.map_request [of req n s cs mp resent FUSE_ROOT_ID "Some null_key", OF s(1) _ s(3,4) _ null_key_null(1) s(5)] s(2) j(1) by (auto simp: looked_up_def)
  let ?t = "(called k g s)\<lparr>uuid_count := uuid_count s + 1, ObjectTable := (True, tab)\<rparr>"
  obtain x tab' where x: "object_at a ?t = Some x" "FastLookup.inode x = j" "release_object a ?t = Some (?t\<lparr>ObjectTable := (True, tab')\<rparr>)"
    by (rule mapped_released [OF s(3) m(3,2), of ?t]) simp
  obtain z where z: "Entries tab a = Some z" "FastLookup.Object z = x"
    using x(1) by (auto simp: object_at_def)
  have r: "finesse_object_release a (True, tab) = Some tab'"
    using x(3) by (auto simp: release_object_def dest: arg_cong [where f = ObjectTable] split: bind_splits)
  obtain q where q: "n - k = Suc q"
    using s(2) m(4) by (cases "n - k") auto
  obtain y where y: "target (root_of req) g j = Some y" "j \<noteq> 0" "not_dir (fs_of g) y"
    by (rule file_number [of req g j]) (use j(2) m(7) in simp)
  have name: "mp @ path_of cs \<noteq> []"
    using s(4) by (cases cs) (auto simp: below_def path_of_def)
  obtain h where h: "op_unlink (bitbucket_ops req) j (mp @ path_of cs) g = Some ([reply_err EISDIR], h)" "fs_of h = fs_of g" "fs_ok (root_of req) g" "fs_ok (root_of req) h"
    by (rule unlink_in_file [OF m(5) [unfolded q] y name])
  obtain c' where c': "FinesseSendUnlinkResponse now client (message_address (Base c) i) (- EISDIR) (Clients s) = Some ((Clients s)(client \<mapsto> c'))"
    "\<exists>d. FinesseGetUnlinkResponse final (message_address (Base c) i) c' = Some (0, d)"
    by (rule unlink_response [OF c(3), of "Clients s" client, OF c(1,2)])
  have "\<exists>t. Server.Unlink ?se now client (message_address (Base c) i) s = Some (0, t) \<and> Clients t = (Clients s)(client \<mapsto> c') \<and> FileSystem t = h"
    using c m(1) c'(1) x(2) z h(1) r
    by (simp add: Server.Unlink_def message_block_def working_def send_def FinesseCountFuseResponse_def count_at_def call_defs null_key_null release_object_def object_at_def)
  moreover have "child_number req h = child_number req (FileSystem s)" "type_of_number req h = type_of_number req (FileSystem s)"
    using same_tree [OF h(3,4)] h(2) m(6,7) by simp_all
  ultimately show ?thesis
    using c'(2) h(1) m(8) by metis
qed

text \<open>A request of the sample client that the server has taken.\<close>

lemma sample_request_taken:
  assumes "FINESSE_FUSE_REQ_BASE_TYPE \<le> ty" "ty < FINESSE_FUSE_REQ_MAX"
  obtains c i where "working c i FINESSE_FUSE_MESSAGE ty p"
proof -
  have "request_type_ok FINESSE_FUSE_MESSAGE ty"
    using assms by (simp add: request_type_ok_def)
  then show thesis
    using request_taken [OF sample_channel_idle, of FINESSE_FUSE_MESSAGE ty "(example_time, example_time)" p example_time 0] example_time_ok that by auto
qed

theorem unlink_removes_nothing_witness:
  "\<exists>req f j tab c i t c' d. child_number req f FUSE_ROOT_ID ''file'' = Some j
    \<and> Server.Unlink (bitbucket_session req ''/mnt'' id) example_time 0 (message_address (Base c) i) (sample_server tab c f) = Some (0, t) \<and> Clients t 0 = Some c'
    \<and> FinesseGetUnlinkResponse example_time (message_address (Base c) i) c' = Some (0, d) \<and> child_number req (FileSystem t) FUSE_ROOT_ID ''file'' = Some j
    \<and> (\<exists>g. op_unlink (bitbucket_ops req) j ''/mnt/file'' g = Some ([reply_err EISDIR], FileSystem t))"
proof -
  obtain req f j where f: "serves req 100 f" "child_number req f FUSE_ROOT_ID ''file'' = Some j" "type_of_number req f FUSE_ROOT_ID = S_IFDIR"
    "type_of_number req f j = S_IFREG"
    by (rule sample_path)
  obtain tab where tab: "lookup_inv tab" "objects tab = Map.empty"
    by (rule sample_objects)
  obtain c i where c: "working c i FINESSE_FUSE_MESSAGE FINESSE_FUSE_REQ_UNLINK (UnlinkRequest null_key (''/mnt'' @ path_of [''file'']))"
    by (rule sample_request_taken [of FINESSE_FUSE_REQ_UNLINK]) simp_all
  let ?s = "sample_server tab c f"
  have s: "FileSystem ?s = f" "Clients ?s = [0 \<mapsto> c]"
    by (simp_all add: sample_server_def)
  have h: "below (bitbucket_session req ''/mnt'' id) [''file'']" "passable (is_dir (type_of_number req f)) (child_number req f) FUSE_ROOT_ID [''file'']"
    "walk (child_number req f) FUSE_ROOT_ID [''file''] = Some j" "length [''file''] < 100" "(0 :: nat) < SHM_MESSAGE_COUNT" "[0 \<mapsto> c] (0 :: nat) = Some c"
    using f(2,3) by (simp_all add: below_def component_def path_of_def is_dir_def)
  obtain t c' d where "Server.Unlink (bitbucket_session req ''/mnt'' id) example_time 0 (message_address (Base c) i) ?s = Some (0, t)" "Clients t = [0 \<mapsto> c](0 \<mapsto> c')"
    "FinesseGetUnlinkResponse example_time (message_address (Base c) i) c' = Some (0, d)" "child_number req (FileSystem t) = child_number req f"
    "\<exists>g. op_unlink (bitbucket_ops req) j (''/mnt'' @ path_of [''file'']) g = Some ([reply_err EISDIR], FileSystem t)"
    using unlink_removes_nothing [where req = req and s = ?s and now = example_time and final = example_time, unfolded s, OF f(1) h(4) sample_server_objects [OF tab] h(1-3) f(4) h(6,5) c] by blast
  moreover have "''/mnt'' @ path_of [''file''] = ''/mnt/file''"
    by (simp add: path_of_def)
  ultimately show ?thesis
    using f(2) by fastforce
qed

section \<open>Access\<close>

inductive_cases access_stepE: "fs_step root A (FsSpec.Access ino m) status replies B"

lemma access_of_root:
  assumes s: "serves req (Suc n) s"
  obtains t where "op_access (bitbucket_ops req) FUSE_ROOT_ID m s = Some ([reply_err 0], t)"
proof -
  obtain k where k: "serving req (root_of req) k s"
    by (rule servesD [OF s])
  obtain status replies t where t: "handle req (FsSpec.Access FUSE_ROOT_ID m) s = Some (status, replies, t)"
    "fs_step (root_of req) (fs_of s) (FsSpec.Access FUSE_ROOT_ID m) status replies (fs_of t)"
    by (rule serving_step [OF k, of "FsSpec.Access FUSE_ROOT_ID m"]) simp
  from t(2) have "replies = [reply_err 0]"
    by (rule access_stepE) (simp_all add: known_def)
  then show thesis
    using that t(1) by (simp add: bitbucket_ops_def replied_def)
qed

text \<open>
  C40: Every request of a client about access ends the server.  The client never names a parent, so the server asks about the root, which is
  allowed; the response for this success is one for statistics of the file system without a buffer, and the
  assertion that there is one fails.
\<close>

theorem access_request_aborts:
  assumes s: "serves req (Suc n) (FileSystem s)"
    and c: "Clients s client = Some c" "working c i FINESSE_FUSE_MESSAGE FINESSE_FUSE_REQ_ACCESS (AccessRequest null_key path m)"
  shows "finesse_process_request (bitbucket_session req mp resent) now old_key client (message_address (Base c) i) s = None"
proof -
  obtain t where t: "op_access (bitbucket_ops req) FUSE_ROOT_ID m (FileSystem s) = Some ([reply_err 0], t)"
    by (rule access_of_root [OF s])
  have "Server.Access (bitbucket_session req mp resent) now client (message_address (Base c) i) u = None"
    if "FileSystem u = FileSystem s" "Clients u = Clients s" for u
    using t c that
    by (simp add: Server.Access_def message_block_def working_def send_def call_defs null_key_null FinesseSendStatfsResponse_def)
  then show ?thesis
    using c by (simp add: finesse_process_request_def FinesseServerHandleFuseRequest_def FinesseCountFuseRequest_def count_at_def message_block_def working_def Let_def)
qed

theorem access_request_aborts_witness:
  "\<exists>req f tab c i. working c i FINESSE_FUSE_MESSAGE FINESSE_FUSE_REQ_ACCESS (AccessRequest null_key ''/mnt/file'' 4)
    \<and> finesse_process_request (bitbucket_session req ''/mnt'' id) example_time [] 0 (message_address (Base c) i) (sample_server tab c f) = None"
proof -
  obtain req f j where f: "serves req 100 f" "child_number req f FUSE_ROOT_ID ''file'' = Some j"
    by (rule sample_path)
  obtain c i where c: "working c i FINESSE_FUSE_MESSAGE FINESSE_FUSE_REQ_ACCESS (AccessRequest null_key ''/mnt/file'' 4)"
    by (rule sample_request_taken [of FINESSE_FUSE_REQ_ACCESS]) simp_all
  have s: "serves req (Suc 99) (FileSystem (sample_server undefined c f))" "Clients (sample_server undefined c f) 0 = Some c"
    using f(1) by (simp_all add: sample_server_def)
  show ?thesis
    using access_request_aborts [OF s c] c by blast
qed

end
