(* ===== verification/Spec2Isabelle.thy ===== *)
theory Spec2Isabelle
  imports FinesseList ApiList NameTrie Murmur Arena CallStats CommStat ShmRegion ShmProtocol ShmAlloc FdMgr
    NameIndex BBObject InodeHash BBData InodeLocks Xattr InodeKinds InodeTable InodeProps
    Dir FsInv DirProps DirRemove FsFree DirDelete DirCreate FileOps Fuse HandlersName HandlersFile HandlersAttr HandlersDir
    Flock Forget Mount FsView FsRequests FsChange FsModify FsSpec FsReach FsMount FsTraces FastLookup Crc
    Messages MessageTrip FuseCall PathName NameMap Server ServerCalls ServerObjects ServerStat ServerFs ServerRequests
begin

text \<open>
  \<^bold>\<open>Finesse.\<close>  The repository is a fork of the FUSE library with a user level extension: a client
  library intercepts file system calls of a program and passes some of them to the file
  system process through shared memory instead of the kernel.  With it comes \<^verbatim>\<open>bitbucket\<close>, an in-memory file
  system that serves both ways.  The parts under \<^verbatim>\<open>src/finesse\<close> and how they depend on each other:

  \<^item> \<^verbatim>\<open>include\<close>, \<^verbatim>\<open>utils\<close>: lists, a name trie, hashes, the object table of the server;
  \<^item> \<^verbatim>\<open>communications\<close>: the shared memory region with its 64 message slots, buffer arenas, message statistics;
  \<^item> \<^verbatim>\<open>api\<close>: the client library, of which the table of file descriptors is a data structure and the rest wraps system calls;
  \<^item> \<^verbatim>\<open>bitbucket\<close>: objects with reference counts, inodes in a hash table, directories, files, symbolic
    links, extended attributes, advisory locks, and one handler for each FUSE request;
  \<^item> \<^verbatim>\<open>server\<close>: the part of the server in the file system process that takes the messages of the clients and answers them
    with calls of the file system;
  \<^item> \<^verbatim>\<open>preload\<close>, \<^verbatim>\<open>iowrapper\<close>: the interception of the C library.

  \<^bold>\<open>Reading the model.\<close>  A C function is a HOL function of the same name; where a name is taken the
  definition has a suffix and the manifest gives the source lines.  State is passed explicitly: the whole memory of \<^verbatim>\<open>bitbucket\<close> is
  the record \<^verbatim>\<open>bb_state\<close> of \<^verbatim>\<open>BBData\<close>, with a map from addresses for each kind of heap object, so
  that aliasing and use after free are visible.  The result \<^const>\<open>None\<close> means that the program does
  not come back (a failed assertion, a null or dangling pointer, an access outside of an array, a lock that is never granted); what it
  has done until then, such as a reply that it has sent, is not part of the result;
  errno values are integers; machine words have their width and wrap.  What the operating
  system answers (clock, random numbers, universal identifiers, storage calls) is an argument or a field
  \<^verbatim>\<open>Environment\<close> with a position \<^verbatim>\<open>Tick\<close>.  Loops are structural, have a termination proof, or are partial functions into
  the option type where they may not end; there is no fuel.

  \<^bold>\<open>Utilities.\<close>  \<^verbatim>\<open>FinesseList\<close> and \<^verbatim>\<open>ApiList\<close> (the two intrusive lists, at pointer level: the
  operations implement list operations and pass their own checks), \<^verbatim>\<open>NameTrie\<close> (\<^verbatim>\<open>trie.c\<close>: a finite map, pruned),
  \<^verbatim>\<open>Murmur\<close> (no collisions on 64-bit keys),
  \<^verbatim>\<open>Crc\<close> (\<^verbatim>\<open>crc.c\<close>: both versions compute the bitwise CRC-32C), \<^verbatim>\<open>FastLookup\<close> (\<^verbatim>\<open>fastlookup.c\<close>: a map that never loses an
  object), \<^verbatim>\<open>NameIndex\<close> (the pair of list and trie that directories and attributes use).

  \<^bold>\<open>Communication.\<close>  \<^verbatim>\<open>Arena\<close> (\<^verbatim>\<open>buffer.c\<close>), \<^verbatim>\<open>CommStat\<close> (\<^verbatim>\<open>commstat.c\<close>), \<^verbatim>\<open>ShmRegion\<close> (\<^verbatim>\<open>fincomm.c\<close> and the release in
  \<^verbatim>\<open>fcc.c\<close>).  \<^verbatim>\<open>ShmProtocol\<close> is the transition system of client and server calls on a region: no assertion
  fails in any reachable state, and a server that keeps asking gets every queued request, each once.  \<^verbatim>\<open>ShmAlloc\<close> splits slot allocation
  into its atomic steps: under every interleaving of any number of threads no slot is owned twice.

  \<^bold>\<open>Client.\<close>  \<^verbatim>\<open>FdMgr\<close> (\<^verbatim>\<open>fdmgr.c\<close>) implements the interface \<^verbatim>\<open>keyed_table\<close> and on it a map from descriptors to file states.

  \<^bold>\<open>Bitbucket.\<close>  \<^verbatim>\<open>CallStats\<close> (\<^verbatim>\<open>calldata.c\<close>), \<^verbatim>\<open>BBObject\<close> (\<^verbatim>\<open>object.c\<close>, generic in the callbacks of the
  locale \<^verbatim>\<open>object_callbacks\<close>, which \<^verbatim>\<open>InodeProps\<close> interprets for inodes), \<^verbatim>\<open>InodeHash\<close>, \<^verbatim>\<open>BBData\<close>,
  \<^verbatim>\<open>InodeLocks\<close>, \<^verbatim>\<open>InodeKinds\<close>, \<^verbatim>\<open>InodeTable\<close>, \<^verbatim>\<open>InodeProps\<close> (\<^verbatim>\<open>inode.c\<close>: numbers, hash, locks, the table as a map, life of an inode), \<^verbatim>\<open>Xattr\<close>
  (\<^verbatim>\<open>xattr.c\<close>), \<^verbatim>\<open>Dir\<close> (\<^verbatim>\<open>dir.c\<close>), \<^verbatim>\<open>FileOps\<close> (\<^verbatim>\<open>file.c\<close>, \<^verbatim>\<open>symlink.c\<close>), \<^verbatim>\<open>Fuse\<close> (what the handlers share), \<^verbatim>\<open>HandlersName\<close>,
  \<^verbatim>\<open>HandlersFile\<close>, \<^verbatim>\<open>HandlersAttr\<close>, \<^verbatim>\<open>HandlersDir\<close> (one definition for each handler, with the loops in it as functions),
  \<^verbatim>\<open>Flock\<close>, \<^verbatim>\<open>Forget\<close>, \<^verbatim>\<open>Mount\<close> (\<^verbatim>\<open>init.c\<close>).

  \<^bold>\<open>The file system as a whole.\<close>  \<^verbatim>\<open>FsInv\<close> states the invariant \<^verbatim>\<open>fs_inv\<close>; \<^verbatim>\<open>DirProps\<close>, \<^verbatim>\<open>DirRemove\<close>,
  \<^verbatim>\<open>FsFree\<close>, \<^verbatim>\<open>DirDelete\<close> and \<^verbatim>\<open>DirCreate\<close> show that every directory operation keeps it and acts as a
  map from names to inodes.  \<^verbatim>\<open>FsView\<close> abstracts a state to the record \<^verbatim>\<open>fs\<close> of names, references,
  numbers and kinds; \<^verbatim>\<open>FsRequests\<close>, \<^verbatim>\<open>FsChange\<close> and \<^verbatim>\<open>FsModify\<close> give the effect of the handlers on this
  view.  \<^verbatim>\<open>FsSpec\<close> is the specification, a step relation over views, with the refinement for each of
  thirteen kinds of requests; \<^verbatim>\<open>FsReach\<close> and \<^verbatim>\<open>FsMount\<close> carry it over all states reachable from a
  mount, and \<^verbatim>\<open>FsTraces\<close> draws consequences for sequences of requests.  This theory states the
  properties that span these components.

  \<^bold>\<open>The server.\<close>  \<^verbatim>\<open>Messages\<close> (the files of \<^verbatim>\<open>communications\<close> with one kind of message each) has the three functions of every
  kind of message over a channel, which is a region of \<^verbatim>\<open>ShmRegion\<close> with the parameters of its messages; \<^verbatim>\<open>MessageTrip\<close> shows that the server
  gets what a client has put there, and the client what the server answers.  \<^verbatim>\<open>FuseCall\<close> (\<^verbatim>\<open>finesse-req.c\<close>, \<^verbatim>\<open>util.c\<close>, the replies in
  \<^verbatim>\<open>src/lib/fuse_lowlevel.c\<close> and their capture in \<^verbatim>\<open>src/lib/finesse.c\<close>) models a call of the file system by the server; \<^verbatim>\<open>PathName\<close>
  (\<^verbatim>\<open>pathname.c\<close>), \<^verbatim>\<open>NameMap\<close> (\<^verbatim>\<open>namemap.c\<close>) and \<^verbatim>\<open>Server\<close> (the handlers, the dispatch and one round of a worker) use it.  The
  file system is a parameter of these theories, a record of operations.  \<^verbatim>\<open>ServerCalls\<close> has the contract of such a file system, the
  locale \<^verbatim>\<open>file_system\<close>, and shows that the resolution of a path walks the tree of names; \<^verbatim>\<open>ServerObjects\<close> adds the object table, and
  \<^verbatim>\<open>ServerStat\<close>, with the locale \<^verbatim>\<open>attribute_system\<close>, the request for attributes from the client and back.  The locale
  \<^verbatim>\<open>aborting_system\<close> is for a file system that gives up when a name is looked up in a file.  \<^verbatim>\<open>ServerFs\<close> interprets the three
  locales on the handlers of \<^verbatim>\<open>bitbucket\<close> in all reachable states, and \<^verbatim>\<open>ServerRequests\<close> states what clients then get.

  \<^bold>\<open>Bounds.\<close>  Reference counters have 32 bits and inode numbers are drawn from a sequence modulo 2 to
  the 64; a request raises a counter by at most two and draws at most two numbers, so 2 to the 30 requests are
  within what both can hold.  The assumptions on the environment are that \<^verbatim>\<open>random\<close> does not make the sequence
  hit the number of the root, and that identifiers do not repeat.  The kernel is assumed to keep the FUSE
  protocol, \<^verbatim>\<open>allowed\<close>: it does not give back references it does not hold.

  \<^bold>\<open>Not modelled.\<close>  The FUSE library (but for the replies above), its utilities and examples, the interception libraries, the
  wrappers of the client and the connection set-up of server and client consist of system calls, sockets, threads
  and calls into the kernel or the C library: there is no state of their own to reason about beyond the parts above.
  \<^verbatim>\<open>dirmap.c\<close>, \<^verbatim>\<open>ioctl.c\<close> and \<^verbatim>\<open>pathsearch.c\<close> are messages that no server function answers, and \<^verbatim>\<open>fasttrie.c\<close> is used by nothing.
  The statements about the server have one worker and one request of the client on its way.
  Text output, logging and magic number checks of live objects are left out of the modelled
  functions.  The handlers run one at a time: the locks are modelled as one thread sees them, except in \<^verbatim>\<open>ShmAlloc\<close> and
  in the deadlock theorem of \<^verbatim>\<open>InodeLocks\<close>, which are about threads.
\<close>

section \<open>The mounted file system\<close>

text \<open>
  C1: In every state that a mounted file system reaches by fewer than 2 to the 30 requests of
  the kernel, each further request that the protocol allows is served: no assertion fails, no
  lock is waited for for ever, and the status, the replies and the change of names,
  references and inodes are those of the specification.
\<close>

theorem requests_refine_the_specification:
  assumes "reachable req n s" "n < 2 ^ 30" "allowed (RootDirectory (userdata req)) (fs_of s) r"
  shows "\<exists>status replies t. handle req r s = Some (status, replies, t)
    \<and> fs_step (RootDirectory (userdata req)) (fs_of s) r status replies (fs_of t) \<and> reachable req (Suc n) t"
  by (rule reachable_step [OF assms])

theorem requests_refine_the_specification_witness:
  "\<exists>req s status replies t. reachable req 0 s \<and> allowed (RootDirectory (userdata req)) (fs_of s) (Create 1 ''file'' S_IFREG sample_info)
    \<and> handle req (Create 1 ''file'' S_IFREG sample_info) s = Some (status, replies, t) \<and> reachable req 1 t"
proof -
  obtain req s where s: "reachable req 0 s" "allowed (RootDirectory (userdata req)) (fs_of s) (Create 1 ''file'' S_IFREG sample_info)"
    using sample_file by metis
  obtain status replies t where "handle req (Create 1 ''file'' S_IFREG sample_info) s = Some (status, replies, t)" "reachable req (Suc 0) t"
    using requests_refine_the_specification [OF s(1) _ s(2)] by auto
  then show ?thesis
    using s unfolding One_nat_def by blast
qed

text \<open>
  C7: Mounting on an empty store succeeds if the inode table is to have at most 32768 buckets (and the random numbers drawn for the
  inode numbers are usable, see \<^verbatim>\<open>drawn\<close>, and the table of call statistics has at most as many entries as there are
  names).  It makes a root directory with the magic directory
  \<^verbatim>\<open>Bitbucket\<close> as its only entry, which has exactly the four further magic directories as its entries.  With a
  larger inode table the mount aborts.
\<close>

theorem mount_makes_the_magic_directories:
  assumes "blank s" "drawn s x b" "length tab \<le> length BitbucketCallDataNames"
  shows "if InodeTableSize ud \<le> 32768
    then \<exists>root magic rest tab' t.
      bitbucket_internal_init junk ud tab s = Some (ud\<lparr>RootDirectory := root, BitbucketMagicDirectories := (0, magic) # rest\<rparr>, tab', t)
      \<and> fs_ok root t
      \<and> names (fs_of t) root = [''.'' \<mapsto> root, ''..'' \<mapsto> root, ''Bitbucket'' \<mapsto> magic]
      \<and> map fst rest = [1, 2, 3, 4]
      \<and> names (fs_of t) magic = [''.'' \<mapsto> magic, ''..'' \<mapsto> root] ++ map_of (zip [''Size'', ''Name'', ''Creation'', ''Uuid''] (map snd rest))
    else bitbucket_internal_init junk ud tab s = None"
proof (cases "InodeTableSize ud \<le> 32768")
  case True
  show ?thesis
    unfolding if_P [OF True] using init_ready [OF assms(1,2) True assms(3), of junk] by (elim ex_forward conjE) (intro conjI)
qed (simp add: mount_large_table)

theorem mount_makes_the_magic_directories_witness:
  "blank sample_start \<and> drawn sample_start 9 9 \<and> (\<exists>ud tab t. bitbucket_internal_init (\<lambda>_. (0, 0, 0)) sample_userdata [] sample_start = Some (ud, tab, t)
    \<and> (\<exists>magic. names (fs_of t) (RootDirectory ud) ''Bitbucket'' = Some magic))
    \<and> bitbucket_internal_init (\<lambda>_. (0, 0, 0)) (sample_userdata\<lparr>InodeTableSize := 65536\<rparr>) [] sample_start = None"
proof -
  obtain root magic rest tab' t where t: "bitbucket_internal_init (\<lambda>_. (0, 0, 0)) sample_userdata [] sample_start =
      Some (sample_userdata\<lparr>RootDirectory := root, BitbucketMagicDirectories := (0, magic) # rest\<rparr>, tab', t)"
    "names (fs_of t) root = [''.'' \<mapsto> root, ''..'' \<mapsto> root, ''Bitbucket'' \<mapsto> magic]"
    using mount_makes_the_magic_directories [OF sample_blank, of "[]" sample_userdata "\<lambda>_. (0, 0, 0)"] by (auto simp: sample_userdata_def)
  moreover have "bitbucket_internal_init (\<lambda>_. (0, 0, 0)) (sample_userdata\<lparr>InodeTableSize := 65536\<rparr>) [] sample_start = None"
    using mount_makes_the_magic_directories [OF sample_blank, of "[]" "sample_userdata\<lparr>InodeTableSize := 65536\<rparr>" "\<lambda>_. (0, 0, 0)"] by simp
  ultimately show ?thesis
    using sample_blank by simp
qed

text \<open>
  C8: In every reachable state the inodes are well typed: the type field, the file type in
  the mode and the variant part of an inode agree, for directories, files and symbolic links,
  and the object header in front of it has the length of the inode.
\<close>

theorem reachable_inodes_well_typed:
  assumes "reachable req n s" "n \<le> 2 ^ 30" "Inodes s a = Some i"
  shows "(InodeType i = BITBUCKET_DIR_TYPE \<and> st_mode (Attributes i) AND S_IFMT = S_IFDIR \<and> (\<exists>d. Instance i = Directory d)
      \<or> InodeType i = BITBUCKET_FILE_TYPE \<and> st_mode (Attributes i) AND S_IFMT = S_IFREG \<and> (\<exists>f. Instance i = File f)
      \<or> InodeType i = BITBUCKET_SYMLINK_TYPE \<and> st_mode (Attributes i) AND S_IFMT = S_IFLNK \<and> (\<exists>l. Instance i = SymbolicLink l))
    \<and> (\<exists>h. Objects s a = Some h \<and> header_ok h \<and> DataLength h = Length i)"
  using fs_invD(5) [OF fs_okD(1) [OF reachable_ok [OF assms(1,2)]] assms(3)]
  by (auto simp: inode_ok_def kind_ok_def split: option.splits registered.splits)

theorem reachable_inodes_well_typed_witness:
  "\<exists>req s a i. reachable req 0 s \<and> Inodes s a = Some i \<and> (\<exists>h. Objects s a = Some h \<and> header_ok h \<and> DataLength h = Length i)"
proof -
  obtain req s root i where s: "reachable req 0 s" "Inodes s root = Some i"
    using sample_file by (metis not_None_eq)
  then have "\<exists>h. Objects s root = Some h \<and> header_ok h \<and> DataLength h = Length i"
    using reachable_inodes_well_typed [of req 0 s root i] by blast
  then show ?thesis
    using s by blast
qed

text \<open>
  C5: In every reachable state the file system is consistent: every name leads to an
  inode that exists, the inode table finds every inode by its number, and between requests no
  inode is locked.  An inode has a reference for every name and every child directory, its link count is the
  number of its names in other directories (one more for a directory), and it exists only while someone
  refers to it.
\<close>

theorem reachable_file_system_consistent:
  assumes "reachable req n s" "n \<le> 2 ^ 30"
  shows "(\<forall>p name x. names (fs_of s) p name = Some x \<longrightarrow> Inodes s x \<noteq> None)
    \<and> (\<forall>a i. Inodes s a = Some i \<longrightarrow> table_map s (st_ino (Attributes i)) = Some a \<and> InodeLock i = Unlocked
        \<and> refs (fs_of s) a INODE_DIRENT_REFERENCE = card (entries_of s a) \<and> refs (fs_of s) a INODE_PARENT_REFERENCE = card (children_of s a)
        \<and> unat (st_nlink (Attributes i)) = (if dirs s a = None then 0 else 1) + card (linked s a)
        \<and> (\<exists>q<12. 0 < refs (fs_of s) a q))"
  using consistent_state [OF reachable_ok [OF assms]] by blast

theorem reachable_file_system_consistent_witness:
  "\<exists>req s magic. reachable req 0 s \<and> names (fs_of s) (RootDirectory (userdata req)) ''Bitbucket'' = Some magic \<and> Inodes s magic \<noteq> None"
proof -
  obtain req s magic where s: "reachable req 0 s" "names (fs_of s) (RootDirectory (userdata req)) ''Bitbucket'' = Some magic"
    using sample_file by metis
  then have "Inodes s magic \<noteq> None"
    using reachable_file_system_consistent [OF s(1)] by simp
  then show ?thesis
    using s by blast
qed

text \<open>
  C6: The life of a file.  A created file is found under its name with the number of the
  creation; after it is unlinked the name is gone, but the open file can still be used; once
  it is released and both lookups are forgotten its number is unknown, and names,
  inodes and references are those before the creation.
\<close>

theorem file_life_cycle:
  assumes "reachable req n s" "n + 7 < 2 ^ 30" "known (RootDirectory (userdata req)) (fs_of s) parent p"
    "allowed (RootDirectory (userdata req)) (fs_of s) (Create parent name mode fi)"
  shows "\<exists>e x e' attr timeout t1 t2 t3 t4 t5 t6 t7 t8.
    handle req (Create parent name mode fi) s = Some (0, [reply_create e (fi\<lparr>fh := x\<rparr>)], t1)
    \<and> handle req (Lookup parent name) t1 = Some (0, [reply_entry e'], t2) \<and> fep_ino e' = fep_ino e
    \<and> handle req (Unlink parent name) t2 = Some (0, [reply_err 0], t3)
    \<and> handle req (Lookup parent name) t3 = Some (ENOENT, [reply_err ENOENT], t4)
    \<and> handle req (Getattr (fep_ino e)) t4 = Some (0, [reply_attr attr timeout], t5) \<and> st_ino attr = fep_ino e
    \<and> handle req (Release (fep_ino e)) t5 = Some (0, [reply_err 0], t6)
    \<and> handle req (Forget (fep_ino e) 2) t6 = Some (0, [reply_none], t7)
    \<and> handle req (Getattr (fep_ino e)) t7 = Some (EBADF, [reply_err EBADF], t8)
    \<and> fs_of t8 = (fs_of s)\<lparr>nums := nums (fs_of t1)\<rparr>"
  by (rule file_life [OF assms(1,2) refl assms(3,4)])

theorem file_life_cycle_witness:
  "\<exists>req s e x t. reachable req 0 s \<and> handle req (Create 1 ''file'' S_IFREG sample_info) s = Some (0, [reply_create e (sample_info\<lparr>fh := x\<rparr>)], t)"
proof -
  obtain req s where s: "reachable req 0 s" "known (RootDirectory (userdata req)) (fs_of s) 1 (RootDirectory (userdata req))"
    "allowed (RootDirectory (userdata req)) (fs_of s) (Create 1 ''file'' S_IFREG sample_info)"
    using sample_file by metis
  have "(0 :: nat) + 7 < 2 ^ 30"
    by simp
  then show ?thesis
    using file_life_cycle [OF s(1) _ s(2,3)] s(1) by blast
qed

text \<open>
  C9: Making a directory or a file under a name that exists ends the program with a failed
  assertion, although the handlers mean to report EEXIST.
\<close>

theorem existing_name_aborts:
  assumes "reachable req n s" "n < 2 ^ 30" "known (RootDirectory (userdata req)) (fs_of s) parent p" "parent \<noteq> 0"
    "names (fs_of s) p name = Some x" "0 < length name" "length name < 1023"
  shows "handle req (Mkdir parent name mode) s = None \<and> handle req (Create parent name mode fi) s = None"
  using mkdir_taken [of req _ n s, OF _ assms(3-7)] create_taken [of req _ n s, OF _ assms(3-5)] assms(1,2) by (simp add: serving_def)

theorem existing_name_aborts_witness:
  "\<exists>req s. reachable req 0 s \<and> handle req (Mkdir 1 ''Bitbucket'' 0) s = None"
proof -
  obtain req s magic where s: "reachable req 0 s" "known (RootDirectory (userdata req)) (fs_of s) 1 (RootDirectory (userdata req))"
    "names (fs_of s) (RootDirectory (userdata req)) ''Bitbucket'' = Some magic"
    using sample_file by metis
  then have "handle req (Mkdir 1 ''Bitbucket'' 0) s = None"
    using existing_name_aborts [OF s(1) _ s(2) _ s(3)] by simp
  then show ?thesis
    using s(1) by blast
qed

end
